(* ===== verification/Prelude.thy ===== *)
theory Prelude
  imports Main "HOL-Library.AList" "HOL-Library.Sublist" "HOL-Library.Word"
begin

text \<open>
  Shared vocabulary of the development: the machine-integer conventions, the model of the
  sharded hash maps the daemon keeps its state in, lists of bytes, the generic facts on lists
  and association lists the component theories use, and the interface of a component that is
  driven by a sequence of operations.
\<close>

named_theorems dm_simps \<open>lookup equations of the map operations\<close>
named_theorems keeps \<open>preservation of a component's invariant by its operations\<close>

subsection \<open>Machine integers\<close>

text \<open>
  An unsigned 64-bit counter is kept as a \<^typ>\<open>nat\<close> with the wrap-around of
  \<^verbatim>\<open>fetch_add\<close> written out.
\<close>

type_synonym u64 = nat

definition u64_mod :: nat where
  "u64_mod = 2 ^ 64"

definition u64_succ :: "u64 \<Rightarrow> u64" where
  "u64_succ n = (n + 1) mod u64_mod"

lemma u64_succ_less [simp]: "u64_succ n < u64_mod"
  by (simp add: u64_succ_def u64_mod_def)

lemma u64_succ_eq: "n + 1 < u64_mod \<Longrightarrow> u64_succ n = n + 1"
  by (simp add: u64_succ_def)

text \<open>\<^verbatim>\<open>str::parse::<u64>()\<close>: an optional plus sign, then at least one decimal digit, in range.\<close>

definition digit_value :: "char \<Rightarrow> nat option" where
  "digit_value c = (let n = of_char c in if 48 \<le> n \<and> n \<le> 57 then Some (n - 48) else None)"

fun parse_digits :: "nat \<Rightarrow> string \<Rightarrow> nat option" where
  "parse_digits acc [] = Some acc"
| "parse_digits acc (c # cs) =
     (case digit_value c of
        None \<Rightarrow> None
      | Some d \<Rightarrow> if 10 * acc + d < u64_mod then parse_digits (10 * acc + d) cs else None)"

definition parse_u64 :: "string \<Rightarrow> nat option" where
  "parse_u64 s =
     (let t = (case s of c # cs \<Rightarrow> if c = CHR ''+'' then cs else s | [] \<Rightarrow> [])
      in if t = [] then None else parse_digits 0 t)"

lemma parse_digits_bound: "acc < u64_mod \<Longrightarrow> parse_digits acc s = Some n \<Longrightarrow> n < u64_mod"
  by (induction acc s rule: parse_digits.induct) (auto split: option.splits if_splits)

lemma parse_u64_bound: "parse_u64 s = Some n \<Longrightarrow> n < u64_mod"
  by (auto simp: parse_u64_def Let_def u64_mod_def dest: parse_digits_bound [rotated] split: if_splits)

subsection \<open>Strings\<close>

text \<open>
  Strings are lists of UTF-8 bytes.  \<^verbatim>\<open>str::trim\<close> removes the characters with the Unicode property
  \<^verbatim>\<open>White_Space\<close>: the ASCII ones, and the others by their encodings.
\<close>

definition is_whitespace :: "char \<Rightarrow> bool" where
  "is_whitespace c \<longleftrightarrow> (let n = of_char c :: nat in 9 \<le> n \<and> n \<le> 13 \<or> n = 32)"

definition WIDE_SPACE :: "string list" where
  "WIDE_SPACE =
     [[CHR 0xC2, CHR 0x85], [CHR 0xC2, CHR 0xA0], [CHR 0xE1, CHR 0x9A, CHR 0x80],
      [CHR 0xE2, CHR 0x80, CHR 0x80], [CHR 0xE2, CHR 0x80, CHR 0x81], [CHR 0xE2, CHR 0x80, CHR 0x82],
      [CHR 0xE2, CHR 0x80, CHR 0x83], [CHR 0xE2, CHR 0x80, CHR 0x84], [CHR 0xE2, CHR 0x80, CHR 0x85],
      [CHR 0xE2, CHR 0x80, CHR 0x86], [CHR 0xE2, CHR 0x80, CHR 0x87], [CHR 0xE2, CHR 0x80, CHR 0x88],
      [CHR 0xE2, CHR 0x80, CHR 0x89], [CHR 0xE2, CHR 0x80, CHR 0x8A], [CHR 0xE2, CHR 0x80, CHR 0xA8],
      [CHR 0xE2, CHR 0x80, CHR 0xA9], [CHR 0xE2, CHR 0x80, CHR 0xAF], [CHR 0xE2, CHR 0x81, CHR 0x9F],
      [CHR 0xE3, CHR 0x80, CHR 0x80]]"

text \<open>The number of bytes of the white space character at the front, and the string after all of them.\<close>

definition space_len :: "string list \<Rightarrow> string \<Rightarrow> nat" where
  "space_len wide s =
     (case s of
        [] \<Rightarrow> 0
      | c # _ \<Rightarrow>
          if is_whitespace c then 1
          else (case find (\<lambda>w. prefix w s) wide of Some w \<Rightarrow> length w | None \<Rightarrow> 0))"

function trim_space :: "string list \<Rightarrow> string \<Rightarrow> string" where
  "trim_space wide s = (let n = space_len wide s in if n = 0 then s else trim_space wide (drop n s))"
  by pat_completeness auto
termination
  by (relation "measure (length \<circ> snd)") (auto simp: space_len_def split: list.splits)

declare trim_space.simps [simp del]

definition str_trim :: "string \<Rightarrow> string" where
  "str_trim s = rev (trim_space (map rev WIDE_SPACE) (rev (trim_space WIDE_SPACE s)))"

lemma trim_space_Nil [simp]: "trim_space wide [] = []"
  by (simp add: trim_space.simps space_len_def)

lemma trim_space_ws: "is_whitespace x \<Longrightarrow> trim_space wide (x # v) = trim_space wide v"
  by (simp add: trim_space.simps [of wide "x # v"] space_len_def)

lemma trim_space_stop: "\<not> is_whitespace x \<Longrightarrow> \<forall>w \<in> set wide. \<not> prefix w (x # v) \<Longrightarrow> trim_space wide (x # v) = x # v"
  by (auto simp: trim_space.simps [of wide "x # v"] space_len_def find_None_iff split: option.split)
     (metis find_Some_iff nth_mem)

lemma trim_space_plain: "\<forall>w \<in> set wide. \<not> sublist w s \<Longrightarrow> trim_space wide s = dropWhile is_whitespace s"
proof (induction s)
  case (Cons x v)
  then show ?case
    by (cases "is_whitespace x") (auto simp: trim_space_ws trim_space_stop sublist_Cons_right)
qed simp

lemma space_len_cases:
  assumes "0 < space_len wide s"
  shows "(\<exists>c v. s = c # v \<and> is_whitespace c \<and> space_len wide s = 1) \<or>
    (\<exists>w \<in> set wide. \<exists>v. s = w @ v \<and> space_len wide s = length w)"
proof (cases s)
  case (Cons c v)
  show ?thesis
  proof (cases "is_whitespace c")
    case False
    with assms Cons obtain w where w: "find (\<lambda>w. prefix w s) wide = Some w" "space_len wide s = length w"
      by (auto simp: space_len_def split: option.splits)
    then have "w \<in> set wide" "prefix w s" by (auto simp: find_Some_iff)
    with w(2) show ?thesis by (auto simp: prefix_def)
  qed (simp add: Cons space_len_def)
qed (use assms in \<open>simp add: space_len_def\<close>)

lemma trim_space_keeps:
  assumes "\<not> is_whitespace c" and "\<forall>w \<in> set wide. c \<notin> set w"
  shows "c \<in> set s \<Longrightarrow> c \<in> set (trim_space wide s)"
  using assms(2)
proof (induction wide s rule: trim_space.induct)
  case (1 wide s)
  let ?n = "space_len wide s"
  show ?case
  proof (cases "?n = 0")
    case True
    with 1(2) show ?thesis by (simp add: trim_space.simps [of wide s])
  next
    case False
    then have "c \<notin> set (take ?n s)" using space_len_cases [of wide s] assms(1) 1(3) by auto
    then have "c \<in> set (drop ?n s)" using 1(2) by (metis Un_iff append_take_drop_id set_append)
    from 1(1) [OF refl False this 1(3)] False show ?thesis by (simp add: trim_space.simps [of wide s])
  qed
qed

definition no_wide_space :: "string \<Rightarrow> bool" where
  "no_wide_space s \<longleftrightarrow> list_all (\<lambda>w. \<not> sublist w s) WIDE_SPACE"

lemma no_wide_part: "no_wide_space s \<Longrightarrow> sublist t s \<Longrightarrow> no_wide_space t"
  by (auto simp: no_wide_space_def list_all_iff intro: sublist_order.order_trans)

lemma wide_bytes: "list_all (\<lambda>w. list_all (\<lambda>c. 128 \<le> (of_char c :: nat)) w \<and> w \<noteq> []) WIDE_SPACE"
  by (simp add: WIDE_SPACE_def)

lemma ascii_no_wide: "list_all (\<lambda>c. (of_char c :: nat) < 128) s \<Longrightarrow> no_wide_space s"
proof -
  assume a: "list_all (\<lambda>c. (of_char c :: nat) < 128) s"
  have "\<not> sublist w s" if "w \<in> set WIDE_SPACE" for w
  proof
    assume "sublist w s"
    then have "set w \<subseteq> set s" by (rule set_mono_sublist)
    moreover from that wide_bytes have "w \<noteq> []" "\<forall>c \<in> set w. 128 \<le> (of_char c :: nat)" by (auto simp: list_all_iff)
    ultimately show False using a by (cases w) (force simp: list_all_iff)+
  qed
  then show ?thesis by (simp add: no_wide_space_def list_all_iff)
qed

text \<open>Without the wide characters, trimming is dropping ASCII white space at both ends.\<close>

lemma str_trim_plain:
  assumes "no_wide_space s"
  shows "str_trim s = rev (dropWhile is_whitespace (rev (dropWhile is_whitespace s)))"
proof -
  have s: "\<forall>w \<in> set WIDE_SPACE. \<not> sublist w s" using assms by (simp add: no_wide_space_def list_all_iff)
  have "sublist (dropWhile is_whitespace s) s" by (simp add: suffix_dropWhile suffix_imp_sublist)
  with s have "\<forall>w \<in> set (map rev WIDE_SPACE). \<not> sublist w (rev (dropWhile is_whitespace s))"
    by (auto simp: sublist_rev_right dest: sublist_order.order_trans)
  then show ?thesis by (simp add: str_trim_def trim_space_plain [OF s] trim_space_plain)
qed

lemma str_trim_keeps:
  assumes "c \<in> set s" and "\<not> is_whitespace c" and "(of_char c :: nat) < 128"
  shows "c \<in> set (str_trim s)"
proof -
  have "c \<notin> set w" if "w \<in> set WIDE_SPACE" for w
    using that wide_bytes assms(3) by (force simp: list_all_iff)
  then show ?thesis
    using assms(1,2) trim_space_keeps [of c WIDE_SPACE s] trim_space_keeps [of c "map rev WIDE_SPACE" "rev (trim_space WIDE_SPACE s)"]
    by (simp add: str_trim_def)
qed

definition ascii_lower :: "char \<Rightarrow> char" where
  "ascii_lower c = (let n = of_char c :: nat in if 65 \<le> n \<and> n \<le> 90 then char_of (n + 32) else c)"

definition eq_ignore_ascii_case :: "string \<Rightarrow> string \<Rightarrow> bool" where
  "eq_ignore_ascii_case a b \<longleftrightarrow> map ascii_lower a = map ascii_lower b"

text \<open>\<^verbatim>\<open>str::strip_prefix\<close>, \<^verbatim>\<open>str::split(sep)\<close> and \<^verbatim>\<open>ToString\<close> on an integer.\<close>

definition strip_prefix :: "string \<Rightarrow> string \<Rightarrow> string option" where
  "strip_prefix pre s = (if prefix pre s then Some (drop (length pre) s) else None)"

fun split_on :: "char \<Rightarrow> string \<Rightarrow> string list" where
  "split_on sep [] = [[]]"
| "split_on sep (c # cs) =
     (case split_on sep cs of
        [] \<Rightarrow> [[c]]
      | p # ps \<Rightarrow> if c = sep then [] # p # ps else (c # p) # ps)"

fun show_nat :: "nat \<Rightarrow> string" where
  "show_nat n = (if n < 10 then [char_of (48 + n)] else show_nat (n div 10) @ [char_of (48 + n mod 10)])"

declare show_nat.simps [simp del]

text \<open>A content hash is its 32 bytes.\<close>

type_synonym content_hash = string

subsection \<open>Concurrent maps\<close>

text \<open>
  \<^verbatim>\<open>DashMap\<close> and \<^verbatim>\<open>HashMap\<close> are association lists with distinct keys; the list
  order stands for the iteration order, which the program may not rely on.  Every method of
  the map is one atomic step.
\<close>

type_synonym ('k, 'v) dmap = "('k \<times> 'v) list"

definition dm_wf :: "('k, 'v) dmap \<Rightarrow> bool" where
  "dm_wf m \<longleftrightarrow> distinct (map fst m)"

abbreviation dm_get :: "('k, 'v) dmap \<Rightarrow> 'k \<Rightarrow> 'v option" where
  "dm_get m k \<equiv> map_of m k"

definition dm_insert :: "'k \<Rightarrow> 'v \<Rightarrow> ('k, 'v) dmap \<Rightarrow> ('k, 'v) dmap" where
  "dm_insert k v m = AList.update k v m"

definition dm_remove :: "'k \<Rightarrow> ('k, 'v) dmap \<Rightarrow> ('k, 'v) dmap" where
  "dm_remove k m = AList.delete k m"

definition dm_retain :: "('k \<Rightarrow> 'v \<Rightarrow> bool) \<Rightarrow> ('k, 'v) dmap \<Rightarrow> ('k, 'v) dmap" where
  "dm_retain P m = filter (\<lambda>(k, v). P k v) m"

definition dm_map :: "('k \<Rightarrow> 'v \<Rightarrow> 'w) \<Rightarrow> ('k, 'v) dmap \<Rightarrow> ('k, 'w) dmap" where
  "dm_map f m = map (\<lambda>(k, v). (k, f k v)) m"

definition dm_modify :: "'k \<Rightarrow> ('v \<Rightarrow> 'v) \<Rightarrow> ('k, 'v) dmap \<Rightarrow> ('k, 'v) dmap" where
  "dm_modify k f m = (case dm_get m k of None \<Rightarrow> m | Some v \<Rightarrow> dm_insert k (f v) m)"

definition dm_or_insert :: "'k \<Rightarrow> 'v \<Rightarrow> ('k, 'v) dmap \<Rightarrow> ('k, 'v) dmap" where
  "dm_or_insert k v m = (case dm_get m k of None \<Rightarrow> dm_insert k v m | Some _ \<Rightarrow> m)"

definition dm_has :: "('k, 'v) dmap \<Rightarrow> 'k \<Rightarrow> bool" where
  "dm_has m k \<longleftrightarrow> dm_get m k \<noteq> None"

definition dm_keys :: "('k, 'v) dmap \<Rightarrow> 'k list" where
  "dm_keys m = map fst m"

lemma dm_get_insert [simp, dm_simps]: "dm_get (dm_insert k v m) = (dm_get m)(k \<mapsto> v)"
  unfolding dm_insert_def by (rule update_conv')

lemma dm_get_remove [simp, dm_simps]: "dm_get (dm_remove k m) = (dm_get m)(k := None)"
  unfolding dm_remove_def by (rule delete_conv')

lemma dm_get_modify [simp, dm_simps]:
  "dm_get (dm_modify k f m) = (dm_get m)(k := map_option f (dm_get m k))"
  by (auto simp: dm_modify_def split: option.splits)

lemma dm_get_or_insert [simp, dm_simps]:
  "dm_get (dm_or_insert k v m) =
     (if dm_get m k = None then (dm_get m)(k \<mapsto> v) else dm_get m)"
  by (auto simp: dm_or_insert_def split: option.splits)

lemma dm_get_map [simp, dm_simps]: "dm_get (dm_map f m) k = map_option (f k) (dm_get m k)"
  by (induction m) (auto simp: dm_map_def)

lemma dm_get_retain [dm_simps]:
  "dm_wf m \<Longrightarrow> dm_get (dm_retain P m) k =
     (case dm_get m k of None \<Rightarrow> None | Some v \<Rightarrow> if P k v then Some v else None)"
proof (induction m)
  case (Cons a m)
  obtain a1 a2 where a: "a = (a1, a2)" by (cases a)
  from Cons.prems have fresh: "dm_get m a1 = None" and "dm_wf m"
    by (auto simp: dm_wf_def a map_of_eq_None_iff)
  with Cons.IH have IH: "dm_get (dm_retain P m) k =
     (case dm_get m k of None \<Rightarrow> None | Some v \<Rightarrow> if P k v then Some v else None)"
    by blast
  show ?case using IH fresh
    by (auto simp: a dm_retain_def split: option.splits)
qed (simp add: dm_retain_def)

lemma dm_wf_Nil [simp, keeps]: "dm_wf []"
  by (simp add: dm_wf_def)

lemma dm_wf_insert [simp, keeps]: "dm_wf m \<Longrightarrow> dm_wf (dm_insert k v m)"
  by (simp add: dm_wf_def dm_insert_def distinct_update)

lemma dm_wf_remove [simp, keeps]: "dm_wf m \<Longrightarrow> dm_wf (dm_remove k m)"
  by (simp add: dm_wf_def dm_remove_def distinct_delete)

lemma dm_wf_retain [simp, keeps]: "dm_wf m \<Longrightarrow> dm_wf (dm_retain P m)"
  by (simp add: dm_wf_def dm_retain_def distinct_map_filter)

lemma dm_wf_map [simp, keeps]: "dm_wf m \<Longrightarrow> dm_wf (dm_map f m)"
  by (simp add: dm_wf_def dm_map_def comp_def case_prod_beta)

lemma dm_wf_modify [simp, keeps]: "dm_wf m \<Longrightarrow> dm_wf (dm_modify k f m)"
  by (simp add: dm_modify_def split: option.split)

lemma dm_wf_or_insert [simp, keeps]: "dm_wf m \<Longrightarrow> dm_wf (dm_or_insert k v m)"
  by (simp add: dm_or_insert_def split: option.split)

lemma set_dm_keys: "k \<in> set (dm_keys m) \<longleftrightarrow> dm_get m k \<noteq> None"
  by (simp add: dm_keys_def map_of_eq_None_iff)

lemma dm_in_set_iff: "dm_wf m \<Longrightarrow> (k, v) \<in> set m \<longleftrightarrow> dm_get m k = Some v"
  by (simp add: dm_wf_def)

lemma dm_retain_length_le [simp]: "length (dm_retain P m) \<le> length m"
  by (simp add: dm_retain_def)

subsection \<open>Ordered maps\<close>

text \<open>\<^verbatim>\<open>BTreeMap\<close>: an association list in strictly increasing key order.\<close>

fun bt_insert :: "'k::linorder \<Rightarrow> 'v \<Rightarrow> ('k \<times> 'v) list \<Rightarrow> ('k \<times> 'v) list" where
  "bt_insert k v [] = [(k, v)]"
| "bt_insert k v ((k', v') # m) =
     (if k < k' then (k, v) # (k', v') # m
      else if k = k' then (k, v) # m
      else (k', v') # bt_insert k v m)"

definition bt_wf :: "('k::linorder \<times> 'v) list \<Rightarrow> bool" where
  "bt_wf m \<longleftrightarrow> sorted_wrt (<) (map fst m)"

definition bt_range_above :: "'k::linorder \<Rightarrow> ('k \<times> 'v) list \<Rightarrow> ('k \<times> 'v) list" where
  "bt_range_above k m = filter (\<lambda>(k', _). k < k') m"

lemma fst_set_bt_insert: "fst ` set (bt_insert k v m) = insert k (fst ` set m)"
  by (induction k v m rule: bt_insert.induct) auto

lemma bt_wf_insert [simp, keeps]: "bt_wf m \<Longrightarrow> bt_wf (bt_insert k v m)"
proof (induction k v m rule: bt_insert.induct)
  case (2 k v k' v' m)
  then show ?case
    using fst_set_bt_insert [of k v m] by (auto simp: bt_wf_def)
qed (simp add: bt_wf_def)

lemma bt_wf_drop [simp, keeps]: "bt_wf m \<Longrightarrow> bt_wf (drop n m)"
  by (simp add: bt_wf_def flip: drop_map)

lemma bt_insert_last: "\<forall>x \<in> fst ` set m. x < k \<Longrightarrow> bt_insert k v m = m @ [(k, v)]"
  by (induction k v m rule: bt_insert.induct) auto

lemma bt_first_key_bound:
  fixes m :: "(nat \<times> 'v) list"
  shows "bt_wf m \<Longrightarrow> \<forall>x \<in> fst ` set m. x \<le> c \<Longrightarrow> m \<noteq> [] \<Longrightarrow> fst (hd m) + length m \<le> c + 1"
proof (induction m)
  case (Cons a m)
  show ?case
  proof (cases m)
    case Nil
    with Cons.prems show ?thesis by simp
  next
    case (Cons b m')
    with Cons.prems have "fst a < fst (hd m)" and "bt_wf m" by (auto simp: bt_wf_def)
    with Cons.IH Cons.prems Cons show ?thesis by fastforce
  qed
qed simp

subsection \<open>Lists\<close>

text \<open>\<^verbatim>\<open>slice::sort_by(|a, b| key(a).cmp(&key(b)))\<close> is a stable sort: \<^const>\<open>sort_key\<close>.\<close>


lemma foldl_append_map: "foldl (\<lambda>acc x. acc @ f x) acc xs = acc @ concat (map f xs)"
  by (induction xs arbitrary: acc) simp_all

subsection \<open>Components driven by operations\<close>

text \<open>The state a decision tree leaves, one branch at a time.\<close>

lemma fst_case_optionI:
  "(x = None \<Longrightarrow> fst a \<in> S) \<Longrightarrow> (\<And>y. x = Some y \<Longrightarrow> fst (f y) \<in> S) \<Longrightarrow>
     fst (case x of None \<Rightarrow> a | Some y \<Rightarrow> f y) \<in> S"
  by (cases x) auto

lemma fst_ifI: "(b \<Longrightarrow> fst x \<in> S) \<Longrightarrow> (\<not> b \<Longrightarrow> fst y \<in> S) \<Longrightarrow> fst (if b then x else y) \<in> S"
  by simp

text \<open>
  The interface of a stateful component: a start state, the effect of one operation and an
  invariant that the start state has and every operation keeps.  The invariant then holds after
  every sequence of operations, which is how the component theories lift their one-step lemmas.
\<close>

locale op_machine =
  fixes init :: "'s" and step :: "'s \<Rightarrow> 'op \<Rightarrow> 's" and ok :: "'s \<Rightarrow> bool"
  assumes init_ok: "ok init"
    and step_ok: "ok s \<Longrightarrow> ok (step s x)"
begin

lemma run_ok_from: "ok s \<Longrightarrow> ok (foldl step s xs)"
  by (induction xs arbitrary: s) (auto intro: step_ok)

lemma run_ok: "ok (foldl step init xs)"
  by (rule run_ok_from [OF init_ok])

end

end
