(* ===== verification/Paths.thy ===== *)
theory Paths
  imports Prelude
begin

text \<open>
  Path normalisation (\<^verbatim>\<open>crates/zccache-core/src/path.rs\<close>) on a Unix host: the component
  view of a path, the lexical removal of \<^verbatim>\<open>.\<close> and \<^verbatim>\<open>..\<close>, the key string every path-based
  cache key is built from, and \<^verbatim>\<open>NormalizedPath\<close> with its key-based equality and its
  component-wise containment tests.

  The component iterator, \<^verbatim>\<open>PathBuf::push\<close> and \<^verbatim>\<open>Path::strip_prefix\<close> are those of the
  standard library.  The host is Linux, for which \<^verbatim>\<open>normalize_for_key\<close> takes its first
  branch; paths are strings of bytes.
\<close>

subsection \<open>Components of a path\<close>

datatype component = RootDir | CurDir | ParentDir | Normal string

definition slash :: char where
  "slash = CHR ''/''"

fun split_slash :: "string \<Rightarrow> string \<Rightarrow> string list" where
  "split_slash cur [] = [rev cur]"
| "split_slash cur (c # cs) =
     (if c = slash then rev cur # split_slash [] cs else split_slash (c # cur) cs)"

text \<open>A piece between separators: empty pieces and \<^verbatim>\<open>.\<close> disappear.\<close>

fun piece_component :: "string \<Rightarrow> component list" where
  "piece_component p =
     (if p = '''' \<or> p = ''.'' then [] else if p = ''..'' then [ParentDir] else [Normal p])"

definition is_absolute :: "string \<Rightarrow> bool" where
  "is_absolute p \<longleftrightarrow> p \<noteq> [] \<and> hd p = slash"

definition path_components :: "string \<Rightarrow> component list" where
  "path_components p =
     (if is_absolute p then [RootDir]
      else if split_slash [] p \<noteq> [] \<and> hd (split_slash [] p) = ''.'' then [CurDir] else []) @
     concat (map piece_component (split_slash [] p))"

fun component_str :: "component \<Rightarrow> string" where
  "component_str RootDir = ''/''"
| "component_str CurDir = ''.''"
| "component_str ParentDir = ''..''"
| "component_str (Normal s) = s"

definition path_push :: "string \<Rightarrow> component \<Rightarrow> string" where
  "path_push buf c =
     (if c = RootDir then ''/''
      else if buf = '''' \<or> last buf = slash then buf @ component_str c
      else buf @ ''/'' @ component_str c)"

definition collect_path :: "component list \<Rightarrow> string" where
  "collect_path cs = foldl path_push '''' cs"

subsection \<open>Normalisation\<close>

fun normalize_step :: "component list \<Rightarrow> component \<Rightarrow> component list" where
  "normalize_step components CurDir = components"
| "normalize_step components ParentDir =
     (case components of
        [] \<Rightarrow> components @ [ParentDir]
      | _ \<Rightarrow> (case last components of
               Normal _ \<Rightarrow> butlast components
             | _ \<Rightarrow> components @ [ParentDir]))"
| "normalize_step components RootDir = components @ [RootDir]"
| "normalize_step components (Normal s) = components @ [Normal s]"

definition normalize_components :: "component list \<Rightarrow> component list" where
  "normalize_components cs = foldl normalize_step [] cs"

definition normalize :: "string \<Rightarrow> string" where
  "normalize path = collect_path (normalize_components (path_components path))"

text \<open>
  Paths are byte strings that are UTF-8, so the lossy conversion of the source leaves them as they are; the
  folding of case and the stripping of verbatim prefixes belong to hosts other than Linux.
\<close>

definition normalize_for_key :: "string \<Rightarrow> string" where
  "normalize_for_key path = normalize path"

record normalized_path =
  np_path :: string
  np_key :: string

definition np_new :: "string \<Rightarrow> normalized_path" where
  "np_new path = (let p = normalize path in \<lparr> np_path = p, np_key = normalize_for_key p \<rparr>)"

definition np_eq :: "normalized_path \<Rightarrow> normalized_path \<Rightarrow> bool" where
  "np_eq a b \<longleftrightarrow> np_key a = np_key b"

definition case_key :: "normalized_path \<Rightarrow> string option" where
  "case_key p = Some (np_key p)"

text \<open>\<^verbatim>\<open>Path::join\<close>: an absolute argument replaces the base.\<close>

definition path_join :: "string \<Rightarrow> string \<Rightarrow> string" where
  "path_join base p =
     (if is_absolute p then p
      else if base = '''' \<or> last base = slash then base @ p
      else base @ ''/'' @ p)"

definition np_join :: "normalized_path \<Rightarrow> string \<Rightarrow> normalized_path" where
  "np_join self p = np_new (path_join (np_path self) p)"

text \<open>\<^verbatim>\<open>Path::starts_with\<close> and \<^verbatim>\<open>Path::strip_prefix\<close> compare components.\<close>

definition path_starts_with :: "string \<Rightarrow> string \<Rightarrow> bool" where
  "path_starts_with p base \<longleftrightarrow> prefix (path_components base) (path_components p)"

definition path_strip_prefix :: "string \<Rightarrow> string \<Rightarrow> string option" where
  "path_strip_prefix p base =
     (if path_starts_with p base
      then Some (collect_path (drop (length (path_components base)) (path_components p)))
      else None)"

definition np_starts_with :: "normalized_path \<Rightarrow> string \<Rightarrow> bool" where
  "np_starts_with self base = path_starts_with (np_key self) (np_key (np_new base))"

definition np_strip_prefix :: "normalized_path \<Rightarrow> string \<Rightarrow> string option" where
  "np_strip_prefix self base = path_strip_prefix (np_key self) (np_key (np_new base))"

subsection \<open>A compact path identifier\<close>

definition FNV_OFFSET :: "64 word" where
  "FNV_OFFSET = 0xcbf29ce484222325"

definition FNV_PRIME :: "64 word" where
  "FNV_PRIME = 0x00000100000001b3"

unbundle bit_operations_syntax

definition fnv1a :: "string \<Rightarrow> 64 word" where
  "fnv1a key =
     foldl (\<lambda>hash byte. (hash XOR word_of_nat (of_char byte)) * FNV_PRIME) FNV_OFFSET key"

definition hex_digit :: "nat \<Rightarrow> char" where
  "hex_digit n = (''0123456789abcdef'' ! n)"

text \<open>\<^verbatim>\<open>format!("{hash:016x}")\<close>: sixteen lower-case digits, most significant first.\<close>

definition hex16 :: "64 word \<Rightarrow> string" where
  "hex16 w = map (\<lambda>i. hex_digit (unat (drop_bit (4 * i) w AND 15))) (rev [0..<16])"

definition stable_path_id :: "string \<Rightarrow> string" where
  "stable_path_id path = hex16 (fnv1a (normalize_for_key path))"

subsection \<open>Parsing what was printed\<close>

definition good_name :: "string \<Rightarrow> bool" where
  "good_name n \<longleftrightarrow> n \<noteq> '''' \<and> n \<noteq> ''.'' \<and> n \<noteq> ''..'' \<and> slash \<notin> set n"

fun plain :: "component \<Rightarrow> bool" where
  "plain ParentDir = True"
| "plain (Normal n) = good_name n"
| "plain c = False"

definition slashed :: "component list \<Rightarrow> string" where
  "slashed cs = concat (map (\<lambda>c. slash # component_str c) cs)"

text \<open>An optional root followed by ordinary components.\<close>

definition rooted :: "component list \<Rightarrow> bool" where
  "rooted cs \<longleftrightarrow> (\<exists>r ps. cs = r @ ps \<and> r \<in> {[], [RootDir]} \<and> list_all plain ps)"

lemma slash_not_dot [simp]: "slash \<noteq> CHR ''.''"
  by (simp add: slash_def)

lemma plain_str: "plain c \<Longrightarrow> component_str c \<noteq> '''' \<and> slash \<notin> set (component_str c)"
  by (cases c) (auto simp: good_name_def)

lemma plain_str_last: "plain c \<Longrightarrow> last (component_str c) \<noteq> slash"
  using plain_str last_in_set by metis

lemma plain_piece: "plain c \<Longrightarrow> piece_component (component_str c) = [c]"
  by (cases c) (auto simp: good_name_def)

lemma split_slash_nosep: "slash \<notin> set s \<Longrightarrow> split_slash cur s = [rev cur @ s]"
  by (induction s arbitrary: cur) auto

lemma split_slash_sep:
  "slash \<notin> set s \<Longrightarrow> split_slash cur (s @ slash # t) = (rev cur @ s) # split_slash [] t"
  by (induction s arbitrary: cur) auto

lemma split_slash_slashed:
  "slash \<notin> set s \<Longrightarrow> list_all plain cs \<Longrightarrow>
     split_slash [] (s @ slashed cs) = s # map component_str cs"
proof (induction cs arbitrary: s)
  case Nil
  then show ?case by (simp add: slashed_def split_slash_nosep)
next
  case (Cons c cs)
  then have "split_slash [] (component_str c @ slashed cs) = component_str c # map component_str cs"
    using plain_str [of c] by simp
  with Cons.prems show ?case by (simp add: slashed_def split_slash_sep)
qed

lemma collect_plain:
  "list_all plain cs \<Longrightarrow> buf \<noteq> '''' \<Longrightarrow> last buf \<noteq> slash \<Longrightarrow> foldl path_push buf cs = buf @ slashed cs"
proof (induction cs arbitrary: buf)
  case (Cons c cs)
  then have c: "plain c" by simp
  then have "c \<noteq> RootDir" by auto
  with Cons.prems have "path_push buf c = buf @ slash # component_str c"
    by (simp add: path_push_def slash_def)
  with Cons.IH [of "buf @ slash # component_str c"] Cons.prems plain_str [OF c] plain_str_last [OF c]
  show ?case by (simp add: slashed_def)
qed (simp add: slashed_def)

lemma collect_relative:
  assumes "list_all plain (c # cs)"
  shows "collect_path (c # cs) = component_str c @ slashed cs"
proof -
  from assms have "c \<noteq> RootDir" by auto
  with assms plain_str [of c] plain_str_last [of c] show ?thesis
    by (simp add: collect_path_def path_push_def collect_plain)
qed

lemma collect_absolute:
  assumes "list_all plain cs" and "cs \<noteq> []"
  shows "collect_path (RootDir # cs) = slashed cs"
proof (cases cs)
  case (Cons c ds)
  with assms have "c \<noteq> RootDir" by auto
  with Cons assms plain_str [of c] plain_str_last [of c] show ?thesis
    by (simp add: collect_path_def path_push_def collect_plain slashed_def slash_def)
qed (use assms in simp)

lemma concat_piece_plain:
  "list_all plain cs \<Longrightarrow> concat (map (piece_component \<circ> component_str) cs) = cs"
  by (induction cs) (simp_all add: plain_piece del: piece_component.simps)

text \<open>Reading back a printed path gives the components it was printed from.\<close>

lemma components_relative:
  assumes "list_all plain ps"
  shows "path_components (collect_path ps) = ps"
proof (cases ps)
  case Nil
  then show ?thesis by (simp add: collect_path_def path_components_def is_absolute_def)
next
  case (Cons c ds)
  from assms Cons have pl: "plain c" "list_all plain ds" by auto
  note sp = split_slash_slashed [OF conjunct2 [OF plain_str [OF pl(1)]] pl(2)]
  from plain_str [OF pl(1)] have "hd (component_str c @ slashed ds) \<noteq> slash"
    by (cases "component_str c") auto
  moreover from pl(1) have "component_str c \<noteq> ''.''" by (cases c) (auto simp: good_name_def)
  ultimately show ?thesis
    using concat_piece_plain [OF assms] plain_str [OF pl(1)] collect_relative [OF assms [unfolded Cons]]
    by (simp add: Cons path_components_def is_absolute_def sp comp_def del: piece_component.simps)
qed

lemma components_absolute:
  assumes "list_all plain ps"
  shows "path_components (collect_path (RootDir # ps)) = RootDir # ps"
proof (cases "ps = []")
  case True
  then show ?thesis
    by (simp add: collect_path_def path_push_def path_components_def is_absolute_def slash_def)
next
  case False
  have "split_slash [] (slashed ps) = '''' # map component_str ps"
    using split_slash_slashed [of "''''" ps] assms by simp
  moreover have "is_absolute (slashed ps)"
    using False by (cases ps) (auto simp: slashed_def is_absolute_def)
  ultimately show ?thesis
    using concat_piece_plain [OF assms]
    by (simp add: collect_absolute [OF assms False] path_components_def comp_def)
qed

lemma components_collect: "rooted cs \<Longrightarrow> path_components (collect_path cs) = cs"
  by (auto simp: rooted_def components_relative components_absolute)

subsection \<open>Normal forms\<close>

text \<open>A normal form: an optional root, then parent steps, then names.\<close>

definition normal_form :: "component list \<Rightarrow> bool" where
  "normal_form cs \<longleftrightarrow> (\<exists>r k ns. cs = r @ replicate k ParentDir @ map Normal ns \<and>
     r \<in> {[], [RootDir]} \<and> list_all good_name ns)"

lemma normal_form_rooted: "normal_form cs \<Longrightarrow> rooted cs"
  unfolding normal_form_def rooted_def
proof (elim exE conjE)
  fix r k ns
  assume cs: "cs = r @ replicate k ParentDir @ map Normal ns"
    and r: "r \<in> {[], [RootDir]}" and ns: "list_all good_name ns"
  from ns have "list_all plain (replicate k ParentDir @ map Normal ns)"
    by (auto simp: list_all_iff)
  with cs r show "\<exists>r ps. cs = r @ ps \<and> r \<in> {[], [RootDir]} \<and> list_all plain ps" by blast
qed

lemma normalize_parent:
  "normalize_step acc ParentDir =
     (if acc \<noteq> [] \<and> (\<exists>n. last acc = Normal n) then butlast acc else acc @ [ParentDir])"
  by (cases acc) (auto split: component.splits)

lemma normalize_step_names:
  "foldl normalize_step acc (map Normal ns) = acc @ map Normal ns"
  by (induction ns arbitrary: acc) simp_all

lemma normalize_step_parents:
  assumes "\<And>c. c \<in> set acc \<Longrightarrow> c = RootDir \<or> c = ParentDir"
  shows "foldl normalize_step acc (replicate k ParentDir) = acc @ replicate k ParentDir"
  using assms
proof (induction k arbitrary: acc)
  case (Suc k)
  have "normalize_step acc ParentDir = acc @ [ParentDir]"
    using Suc.prems [OF last_in_set] by (force simp: normalize_parent simp del: normalize_step.simps)
  with Suc.IH [of "acc @ [ParentDir]"] Suc.prems show ?case
    by (auto simp del: normalize_step.simps)
qed simp

lemma normalize_normal_form: "normal_form cs \<Longrightarrow> normalize_components cs = cs"
  by (auto simp: normal_form_def normalize_components_def normalize_step_names
      normalize_step_parents [where acc = "[]", simplified]
      normalize_step_parents [where acc = "[RootDir]", simplified])

lemma normalize_step_normal_form:
  assumes "normal_form acc" and "plain c"
  shows "normal_form (normalize_step acc c)"
proof -
  from assms(1) obtain r k ns where acc: "acc = r @ replicate k ParentDir @ map Normal ns"
    and r: "r \<in> {[], [RootDir]}" and ns: "list_all good_name ns"
    by (auto simp: normal_form_def)
  show ?thesis
  proof (cases c)
    case ParentDir
    show ?thesis
    proof (cases ns rule: rev_cases)
      case Nil
      have "normalize_step acc ParentDir = r @ replicate (Suc k) ParentDir @ map Normal []"
      proof (cases "acc = []")
        case True
        with acc Nil show ?thesis by simp
      next
        case False
        with acc r Nil have "last acc = RootDir \<or> last acc = ParentDir"
          by (cases k) (auto simp: last_append)
        with acc Nil show ?thesis
          by (auto simp: normalize_parent replicate_append_same simp del: normalize_step.simps)
      qed
      moreover have "list_all good_name []" by simp
      ultimately show ?thesis using r ParentDir unfolding normal_form_def by blast
    next
      case (snoc ms m)
      have "normalize_step acc ParentDir = r @ replicate k ParentDir @ map Normal ms"
        by (simp add: normalize_parent acc snoc butlast_append del: normalize_step.simps)
      with r ns snoc ParentDir show ?thesis unfolding normal_form_def by (metis list_all_append)
    qed
  next
    case (Normal n)
    have "normalize_step acc c = r @ replicate k ParentDir @ map Normal (ns @ [n])"
      by (simp add: Normal acc)
    moreover have "list_all good_name (ns @ [n])" using ns assms(2) Normal by simp
    ultimately show ?thesis using r unfolding normal_form_def by blast
  qed (use assms in auto)
qed

lemma normalize_run_normal_form:
  "normal_form acc \<Longrightarrow> list_all plain cs \<Longrightarrow> normal_form (foldl normalize_step acc cs)"
  by (induction cs arbitrary: acc) (auto intro: normalize_step_normal_form)

lemma normal_form_base [simp]: "normal_form []" "normal_form [RootDir]"
  unfolding normal_form_def
  by (simp, rule exI [of _ "[RootDir]"], rule exI [of _ 0], rule exI [of _ "[]"], simp)

lemma split_slash_parts: "slash \<notin> set cur \<Longrightarrow> p \<in> set (split_slash cur s) \<Longrightarrow> slash \<notin> set p"
proof (induction s arbitrary: cur)
  case (Cons a s)
  from Cons.prems Cons.IH [of "[]"] Cons.IH [of "a # cur"] show ?case
    by (cases "a = slash") auto
qed simp

lemma path_components_shape:
  "\<exists>h ps. path_components p = h @ ps \<and> h \<in> {[], [RootDir], [CurDir]} \<and> list_all plain ps"
proof -
  have "list_all plain (concat (map piece_component (split_slash [] p)))"
    using split_slash_parts [of "[]" _ p]
    by (fastforce simp: list_all_iff good_name_def split: if_splits)
  then show ?thesis
    by (intro exI [of _ "if is_absolute p then [RootDir]
        else if split_slash [] p \<noteq> [] \<and> hd (split_slash [] p) = ''.'' then [CurDir] else []"] exI)
       (auto simp: path_components_def)
qed

lemma normalize_components_normal_form: "normal_form (normalize_components (path_components p))"
proof -
  obtain h ps where p: "path_components p = h @ ps" and h: "h \<in> {[], [RootDir], [CurDir]}"
    and ps: "list_all plain ps"
    using path_components_shape by blast
  from h have "normal_form (foldl normalize_step [] h)" by auto
  from normalize_run_normal_form [OF this ps] show ?thesis
    by (simp add: normalize_components_def p)
qed

text \<open>The components of a normalised path are its normal form.\<close>

lemma components_normalize:
  "path_components (normalize p) = normalize_components (path_components p)"
  by (simp add: normalize_def components_collect normal_form_rooted normalize_components_normal_form)

lemma normalize_collect: "normal_form cs \<Longrightarrow> normalize (collect_path cs) = collect_path cs"
  by (simp add: normalize_def components_collect normal_form_rooted normalize_normal_form)

lemma normalize_cong: "path_components p = path_components q \<Longrightarrow> normalize p = normalize q"
  by (simp add: normalize_def)

lemma normalize_twice: "normalize (normalize p) = normalize p"
  by (simp add: normalize_def [of "normalize p"] components_normalize)
     (simp add: normalize_normal_form normalize_components_normal_form normalize_def)

lemma np_new_key: "np_key (np_new p) = np_path (np_new p)" "np_path (np_new p) = normalize p"
  by (simp_all add: np_new_def normalize_for_key_def normalize_twice Let_def)

lemma components_np_key:
  "path_components (np_key (np_new p)) = normalize_components (path_components p)"
  by (simp add: np_new_key components_normalize)

subsection \<open>Prefixes\<close>

lemma normal_form_drop: "normal_form cs \<Longrightarrow> 0 < n \<Longrightarrow> list_all plain (drop n cs)"
proof -
  assume "normal_form cs" and n: "0 < n"
  then obtain r ps where cs: "cs = r @ ps" "r \<in> {[], [RootDir]}" "list_all plain ps"
    using normal_form_rooted unfolding rooted_def by blast
  then have "set (drop n cs) \<subseteq> set ps"
    using n set_drop_subset [of n ps] set_drop_subset [of "n - 1" ps] by (cases n) auto
  with cs(3) show ?thesis by (auto simp: list_all_iff)
qed

lemma split_slash_nonempty: "split_slash cur s \<noteq> []"
  by (induction s arbitrary: cur) auto

lemma split_slash_append_sep:
  "split_slash cur (s @ slash # t) = split_slash cur s @ split_slash [] t"
  by (induction s arbitrary: cur) auto

text \<open>Appending a relative path below a base concatenates the components.\<close>

lemma components_join_sep:
  assumes "s \<noteq> ''''"
  shows "path_components (s @ slash # t) = path_components s @ concat (map piece_component (split_slash [] t))"
proof -
  have "split_slash [] s \<noteq> []" by (rule split_slash_nonempty)
  moreover have "is_absolute (s @ slash # t) = is_absolute s"
    using assms by (simp add: is_absolute_def)
  ultimately show ?thesis
    by (simp add: path_components_def split_slash_append_sep del: piece_component.simps)
qed

lemma pieces_collect:
  assumes "list_all plain ps"
  shows "concat (map piece_component (split_slash [] (collect_path ps))) = ps"
proof (cases ps)
  case (Cons c ds)
  with assms have pl: "plain c" "list_all plain ds" by auto
  note sp = split_slash_slashed [OF conjunct2 [OF plain_str [OF pl(1)]] pl(2)]
  show ?thesis
    using concat_piece_plain [OF assms] collect_relative [OF assms [unfolded Cons]]
    by (simp add: Cons sp comp_def del: piece_component.simps)
qed (simp add: collect_path_def)

lemma collect_plain_relative: "list_all plain ps \<Longrightarrow> \<not> is_absolute (collect_path ps)"
proof (cases ps)
  case (Cons c ds)
  assume "list_all plain ps"
  with Cons plain_str [of c] show ?thesis
    by (cases "component_str c") (auto simp: is_absolute_def collect_relative)
qed (simp add: collect_path_def is_absolute_def)

lemma collect_ends_slash:
  assumes "normal_form cs" and "collect_path cs \<noteq> ''''" and "last (collect_path cs) = slash"
  shows "cs = [RootDir]"
proof -
  from assms(1) obtain r ps where cs: "cs = r @ ps" "r \<in> {[], [RootDir]}" "list_all plain ps"
    using normal_form_rooted unfolding rooted_def by blast
  have tail: "last (x @ slashed qs) \<noteq> slash" if "list_all plain qs" "x \<noteq> ''''" "last x \<noteq> slash" for x qs
    using that
  proof (induction qs arbitrary: x)
    case (Cons q qs)
    from Cons.prems plain_str [of q] plain_str_last [of q]
      Cons.IH [of "x @ slash # component_str q"] show ?case by (simp add: slashed_def)
  qed (simp add: slashed_def)
  show ?thesis
  proof (cases ps)
    case Nil
    with cs assms(2) show ?thesis by (auto simp: collect_path_def)
  next
    case (Cons c ds)
    from cs(3) Cons have pl: "plain c" "list_all plain ds" by auto
    from cs have "last (collect_path cs) \<noteq> slash"
      using tail [OF pl(2), of "component_str c"] tail [OF pl(2), of "slash # component_str c"]
        plain_str [OF pl(1)] plain_str_last [OF pl(1)]
      by (auto simp: Cons collect_relative collect_absolute slashed_def)
    with assms(3) show ?thesis by simp
  qed
qed

lemma components_join_plain:
  assumes nf: "normal_form b" and b: "b \<noteq> []" and ps: "list_all plain ps"
  shows "path_components (path_join (collect_path b) (collect_path ps)) = b @ ps"
proof -
  have nonempty: "collect_path b \<noteq> ''''"
    using components_collect [OF normal_form_rooted [OF nf]] b
    by (auto simp: path_components_def is_absolute_def)
  note rel = collect_plain_relative [OF ps]
  show ?thesis
  proof (cases "last (collect_path b) = slash")
    case True
    with nf nonempty have "b = [RootDir]" by (rule collect_ends_slash)
    moreover have "path_components ([] @ slash # collect_path ps) = RootDir # ps"
      using pieces_collect [OF ps] rel
      by (simp add: path_components_def is_absolute_def)
    ultimately show ?thesis
      using rel by (simp add: path_join_def collect_path_def path_push_def slash_def)
  next
    case False
    with nonempty rel have "path_join (collect_path b) (collect_path ps) =
        collect_path b @ slash # collect_path ps"
      by (simp add: path_join_def slash_def)
    then show ?thesis
      using components_join_sep [OF nonempty] components_collect [OF normal_form_rooted [OF nf]]
        pieces_collect [OF ps] by simp
  qed
qed

lemma strip_then_join_key:
  assumes "np_strip_prefix (np_new p) base = Some r"
  shows "np_key (np_join (np_new base) r) = np_key (np_new p)"
proof -
  let ?b = "normalize_components (path_components base)"
  let ?p = "normalize_components (path_components p)"
  have nf: "normal_form ?b" "normal_form ?p" by (rule normalize_components_normal_form)+
  from assms have pre: "?p = ?b @ drop (length ?b) ?p" and r: "r = collect_path (drop (length ?b) ?p)"
    by (auto simp: np_strip_prefix_def path_strip_prefix_def path_starts_with_def components_np_key
        prefix_def split: if_splits)
  have key: "np_key (np_new p) = collect_path ?p" by (simp add: np_new_key normalize_def)
  have base: "np_path (np_new base) = collect_path ?b" by (simp add: np_new_key normalize_def)
  show ?thesis
  proof (cases "?b = []")
    case True
    have "path_join (np_path (np_new base)) r = r"
      by (simp add: base True collect_path_def path_join_def)
    then show ?thesis
      using r True nf(2) normalize_collect [OF nf(2)] by (simp add: np_join_def key np_new_key(2) np_new_key(1)) (simp add: normalize_def)
  next
    case False
    then have "list_all plain (drop (length ?b) ?p)" using nf(2) by (auto intro: normal_form_drop)
    from components_join_plain [OF nf(1) False this] pre r
    have "path_components (path_join (np_path (np_new base)) r) = ?p" by (simp add: base)
    then show ?thesis
      by (simp add: np_join_def np_new_key key normalize_def normalize_normal_form [OF nf(2)])
  qed
qed

subsection \<open>Properties\<close>

text \<open>
  C23. Normalisation is idempotent, so a normalised path is its own cache key: building a
  \<^verbatim>\<open>NormalizedPath\<close> from the path or the key of another gives an equal value.
\<close>

theorem normalize_idempotent:
  "normalize (normalize p) = normalize p \<and> np_key (np_new p) = np_path (np_new p) \<and>
   np_eq (np_new (np_path (np_new p))) (np_new p)"
  by (simp add: normalize_twice np_new_key np_eq_def)

text \<open>
  Rebasing is lossless: when a base directory is stripped from a normalised path, joining the
  remainder onto the base gives a path with the same key.
\<close>

theorem strip_join_roundtrip:
  assumes "np_strip_prefix (np_new p) base = Some r"
  shows "np_eq (np_join (np_new base) r) (np_new p)"
  using strip_then_join_key [OF assms] by (simp add: np_eq_def)

theorem strip_join_roundtrip_witness:
  "np_eq (np_join (np_new ''/ws/./b/..'') ''src/a.c'') (np_new ''/ws//src/x/../a.c'')"
  by (rule strip_join_roundtrip) code_simp

text \<open>
  Containment respects component boundaries: a path lies under a base exactly when the base's
  normalised component list is a prefix of the path's, in particular never merely because the
  base's text is a prefix of the path's text.
\<close>

theorem starts_with_components:
  "np_starts_with (np_new p) base \<longleftrightarrow>
     prefix (normalize_components (path_components base)) (normalize_components (path_components p))"
  by (simp add: np_starts_with_def path_starts_with_def components_np_key)

end
