(* ===== verification/Clock.thy ===== *)
theory Clock
  imports Prelude
begin

text \<open>
  The change journal of the file cache (\<^verbatim>\<open>crates/zccache-fscache/src/clock.rs\<close>).

  The file watcher hands over settled batches of changed paths; each batch advances a clock by
  one tick.  A client remembers the tick at which it last looked and asks whether a file has
  changed since.  The journal keeps, per file, the tick of its last change, a bounded list of
  the most recent batches, and the tick of the last lost-events overflow.

  Besides the operations, this theory holds the history of a run (which path changed at which
  tick, and when events were lost) as the specification the journal is checked against, and the
  interface of a change tracker through which the cache system uses the journal.
\<close>

type_synonym npath = string
type_synonym clock = u64

subsection \<open>State and operations\<close>

record change_journal =
  cj_current :: u64
  cj_journal :: "(clock \<times> npath list) list"
  cj_last_change :: "(npath, clock) dmap"
  cj_last_overflow :: u64
  cj_max_journal_entries :: nat

definition clock_ZERO :: clock where
  "clock_ZERO = 0"

definition journal_with_capacity :: "nat \<Rightarrow> change_journal" where
  "journal_with_capacity n =
     \<lparr> cj_current = 0, cj_journal = [], cj_last_change = [], cj_last_overflow = 0,
       cj_max_journal_entries = n \<rparr>"

definition journal_new :: change_journal where
  "journal_new = journal_with_capacity 10000"

definition current_clock :: "change_journal \<Rightarrow> clock" where
  "current_clock j = cj_current j"

function trim_front :: "nat \<Rightarrow> 'a list \<Rightarrow> 'a list" where
  "trim_front n m = (if n < length m then trim_front n (tl m) else m)"
  by pat_completeness auto
termination
  by (relation "measure (\<lambda>(n, m). length m)") auto

declare trim_front.simps [simp del]

definition advance :: "npath list \<Rightarrow> change_journal \<Rightarrow> change_journal \<times> clock" where
  "advance changed_paths j =
     (let clock = u64_succ (cj_current j);
          lc = foldl (\<lambda>m path. dm_insert path clock m) (cj_last_change j) changed_paths;
          jn = trim_front (cj_max_journal_entries j)
                 (bt_insert clock changed_paths (cj_journal j))
      in (j\<lparr>cj_current := clock, cj_last_change := lc, cj_journal := jn\<rparr>, clock))"

definition changed_since :: "change_journal \<Rightarrow> npath \<Rightarrow> clock \<Rightarrow> bool" where
  "changed_since j path since =
     (if 0 < cj_last_overflow j \<and> since < cj_last_overflow j then True
      else (case dm_get (cj_last_change j) path of
              Some last_clock \<Rightarrow> since < last_clock
            | None \<Rightarrow> True))"

definition changes_since :: "change_journal \<Rightarrow> clock \<Rightarrow> npath list" where
  "changes_since j since =
     foldl (\<lambda>result (_, paths). result @ paths) [] (bt_range_above since (cj_journal j))"

definition mark_overflow :: "change_journal \<Rightarrow> change_journal \<times> clock" where
  "mark_overflow j =
     (let new_tick = u64_succ (cj_current j)
      in (j\<lparr>cj_current := new_tick, cj_last_overflow := new_tick\<rparr>, new_tick))"

definition journal_clear :: "change_journal \<Rightarrow> change_journal \<times> clock" where
  "journal_clear j = mark_overflow (j\<lparr>cj_last_change := [], cj_journal := []\<rparr>)"

definition retain_paths :: "npath set \<Rightarrow> change_journal \<Rightarrow> change_journal \<times> nat" where
  "retain_paths live j =
     (let lc = dm_retain (\<lambda>path _. path \<in> live) (cj_last_change j)
      in (j\<lparr>cj_last_change := lc\<rparr>, length (cj_last_change j) - length lc))"

definition last_change_len :: "change_journal \<Rightarrow> nat" where
  "last_change_len j = length (cj_last_change j)"

definition journal_register :: "npath \<Rightarrow> change_journal \<Rightarrow> change_journal" where
  "journal_register path j =
     j\<lparr>cj_last_change := dm_or_insert path (cj_current j) (cj_last_change j)\<rparr>"

subsection \<open>Runs and their history\<close>

datatype journal_op =
    Advance "npath list"
  | Overflow
  | Clear
  | Retain "npath set"
  | Register npath

fun journal_step :: "change_journal \<Rightarrow> journal_op \<Rightarrow> change_journal" where
  "journal_step j (Advance ps) = fst (advance ps j)"
| "journal_step j Overflow = fst (mark_overflow j)"
| "journal_step j Clear = fst (journal_clear j)"
| "journal_step j (Retain live) = fst (retain_paths live j)"
| "journal_step j (Register p) = journal_register p j"

text \<open>
  The specification side: what happened, with the tick it happened at.  \<open>Lost\<close> is a point at
  which the set of changes is unknown (a watcher overflow, or a clear).
\<close>

datatype happening = Changed npath | Lost

fun history :: "nat \<Rightarrow> journal_op list \<Rightarrow> (nat \<times> happening) set" where
  "history t [] = {}"
| "history t (Advance ps # ops) = (\<lambda>p. (t + 1, Changed p)) ` set ps \<union> history (t + 1) ops"
| "history t (Overflow # ops) = insert (t + 1, Lost) (history (t + 1) ops)"
| "history t (Clear # ops) = insert (t + 1, Lost) (history (t + 1) ops)"
| "history t (Retain live # ops) = history t ops"
| "history t (Register p # ops) = history t ops"

fun ticks :: "journal_op list \<Rightarrow> nat" where
  "ticks [] = 0"
| "ticks (Advance ps # ops) = Suc (ticks ops)"
| "ticks (Overflow # ops) = Suc (ticks ops)"
| "ticks (Clear # ops) = Suc (ticks ops)"
| "ticks (Retain live # ops) = ticks ops"
| "ticks (Register p # ops) = ticks ops"

text \<open>Operations that neither report a path, nor lose events, nor drop the path.\<close>

fun leaves_alone :: "npath \<Rightarrow> journal_op \<Rightarrow> bool" where
  "leaves_alone p (Advance ps) = (p \<notin> set ps)"
| "leaves_alone p Overflow = False"
| "leaves_alone p Clear = False"
| "leaves_alone p (Retain live) = (p \<in> live)"
| "leaves_alone p (Register q) = True"

subsection \<open>Facts about single operations\<close>

lemma trim_front_drop: "trim_front n m = drop (length m - n) m"
proof (induction n m rule: trim_front.induct)
  case (1 n m)
  show ?case
  proof (cases "n < length m")
    case True
    then have "length m - n = Suc (length (tl m) - n)" by simp
    with 1 True show ?thesis by (simp add: trim_front.simps [of n m] drop_Suc)
  next
    case False
    then show ?thesis by (simp add: trim_front.simps [of n m])
  qed
qed

lemma dm_get_insert_all:
  "dm_get (foldl (\<lambda>m path. dm_insert path c m) m ps) p =
     (if p \<in> set ps then Some c else dm_get m p)"
  by (induction ps arbitrary: m) auto

lemma dm_wf_insert_all [simp]:
  "dm_wf m \<Longrightarrow> dm_wf (foldl (\<lambda>m path. dm_insert path c m) m ps)"
  by (induction ps arbitrary: m) auto

lemma changes_since_eq:
  "changes_since j since = concat (map snd (bt_range_above since (cj_journal j)))"
proof -
  have "foldl (\<lambda>result (_, paths). result @ paths) acc xs = acc @ concat (map snd xs)"
    for acc and xs :: "(clock \<times> npath list) list"
    by (induction xs arbitrary: acc) auto
  then show ?thesis by (simp add: changes_since_def)
qed

lemma advance_fields [simp]:
  "cj_current (fst (advance ps j)) = u64_succ (cj_current j)"
  "snd (advance ps j) = u64_succ (cj_current j)"
  "cj_last_overflow (fst (advance ps j)) = cj_last_overflow j"
  "cj_max_journal_entries (fst (advance ps j)) = cj_max_journal_entries j"
  by (simp_all add: advance_def Let_def)

lemma advance_last_change [simp]:
  "dm_get (cj_last_change (fst (advance ps j))) p =
     (if p \<in> set ps then Some (u64_succ (cj_current j)) else dm_get (cj_last_change j) p)"
  by (simp add: advance_def Let_def dm_get_insert_all)

lemma mark_overflow_fields [simp]:
  "cj_current (fst (mark_overflow j)) = u64_succ (cj_current j)"
  "snd (mark_overflow j) = u64_succ (cj_current j)"
  "cj_last_overflow (fst (mark_overflow j)) = u64_succ (cj_current j)"
  "cj_last_change (fst (mark_overflow j)) = cj_last_change j"
  "cj_journal (fst (mark_overflow j)) = cj_journal j"
  "cj_max_journal_entries (fst (mark_overflow j)) = cj_max_journal_entries j"
  by (simp_all add: mark_overflow_def Let_def)

lemma journal_clear_fields [simp]:
  "cj_current (fst (journal_clear j)) = u64_succ (cj_current j)"
  "cj_last_overflow (fst (journal_clear j)) = u64_succ (cj_current j)"
  "cj_last_change (fst (journal_clear j)) = []"
  "cj_journal (fst (journal_clear j)) = []"
  "cj_max_journal_entries (fst (journal_clear j)) = cj_max_journal_entries j"
  by (simp_all add: journal_clear_def)

lemma retain_paths_fields [simp]:
  "cj_current (fst (retain_paths live j)) = cj_current j"
  "cj_last_overflow (fst (retain_paths live j)) = cj_last_overflow j"
  "cj_journal (fst (retain_paths live j)) = cj_journal j"
  "cj_max_journal_entries (fst (retain_paths live j)) = cj_max_journal_entries j"
  "cj_last_change (fst (retain_paths live j)) =
     dm_retain (\<lambda>path _. path \<in> live) (cj_last_change j)"
  by (simp_all add: retain_paths_def Let_def)

lemma journal_register_fields [simp]:
  "cj_current (journal_register p j) = cj_current j"
  "cj_last_overflow (journal_register p j) = cj_last_overflow j"
  "cj_journal (journal_register p j) = cj_journal j"
  "cj_max_journal_entries (journal_register p j) = cj_max_journal_entries j"
  "cj_last_change (journal_register p j) =
     dm_or_insert p (cj_current j) (cj_last_change j)"
  by (simp_all add: journal_register_def)

subsection \<open>Invariants\<close>

text \<open>
  The shape invariant holds whatever the clock does: the maps are well formed, the batch list is
  strictly increasing in its ticks and never longer than the configured bound.
\<close>

definition journal_shape :: "nat \<Rightarrow> change_journal \<Rightarrow> bool" where
  "journal_shape n j \<longleftrightarrow>
     dm_wf (cj_last_change j) \<and> bt_wf (cj_journal j) \<and>
     cj_max_journal_entries j = n \<and> length (cj_journal j) \<le> n \<and> cj_current j < u64_mod"

lemma journal_shape_init [keeps]: "journal_shape n (journal_with_capacity n)"
  by (simp add: journal_shape_def journal_with_capacity_def u64_mod_def bt_wf_def)

lemma journal_shape_step [keeps]: "journal_shape n j \<Longrightarrow> journal_shape n (journal_step j x)"
  by (cases x)
     (auto simp: journal_shape_def advance_def Let_def trim_front_drop bt_wf_def [of "[]"])

interpretation jrun: op_machine "journal_with_capacity n" journal_step "journal_shape n" for n
  by unfold_locales (auto intro: keeps)

text \<open>
  The history invariant relates a journal at tick \<open>t\<close> to the happenings \<open>H\<close> so far: every
  recorded change of a tracked path is covered by the path's last-change tick, every lost point
  by the overflow tick, and the batch list holds every change of the last \<open>n\<close> ticks that lies
  after the last lost point.
\<close>

definition journal_tracks :: "nat \<Rightarrow> (nat \<times> happening) set \<Rightarrow> change_journal \<Rightarrow> bool" where
  "journal_tracks n H j \<longleftrightarrow>
     journal_shape n j \<and>
     (\<forall>(t, e) \<in> H. 0 < t \<and> t \<le> cj_current j) \<and>
     (\<forall>t p c. (t, Changed p) \<in> H \<longrightarrow> dm_get (cj_last_change j) p = Some c \<longrightarrow> t \<le> c) \<and>
     (\<forall>t. (t, Lost) \<in> H \<longrightarrow> t \<le> cj_last_overflow j) \<and>
     (\<forall>(t, ps) \<in> set (cj_journal j). t \<le> cj_current j \<and> (\<forall>p \<in> set ps. (t, Changed p) \<in> H)) \<and>
     (\<forall>t p. (t, Changed p) \<in> H \<longrightarrow> cj_last_overflow j < t \<longrightarrow> cj_current j < t + n \<longrightarrow>
        (\<exists>ps. (t, ps) \<in> set (cj_journal j) \<and> p \<in> set ps)) \<and>
     (\<forall>p c. dm_get (cj_last_change j) p = Some c \<longrightarrow> c \<le> cj_current j) \<and>
     cj_last_overflow j \<le> cj_current j"

lemma journal_tracksI:
  assumes "journal_shape n j"
    and "\<And>t e. (t, e) \<in> H \<Longrightarrow> 0 < t \<and> t \<le> cj_current j"
    and "\<And>t p c. (t, Changed p) \<in> H \<Longrightarrow> dm_get (cj_last_change j) p = Some c \<Longrightarrow> t \<le> c"
    and "\<And>t. (t, Lost) \<in> H \<Longrightarrow> t \<le> cj_last_overflow j"
    and "\<And>t ps. (t, ps) \<in> set (cj_journal j) \<Longrightarrow> t \<le> cj_current j"
    and "\<And>t ps p. (t, ps) \<in> set (cj_journal j) \<Longrightarrow> p \<in> set ps \<Longrightarrow> (t, Changed p) \<in> H"
    and "\<And>t p. (t, Changed p) \<in> H \<Longrightarrow> cj_last_overflow j < t \<Longrightarrow> cj_current j < t + n \<Longrightarrow>
           \<exists>ps. (t, ps) \<in> set (cj_journal j) \<and> p \<in> set ps"
    and "\<And>p c. dm_get (cj_last_change j) p = Some c \<Longrightarrow> c \<le> cj_current j"
    and "cj_last_overflow j \<le> cj_current j"
  shows "journal_tracks n H j"
  unfolding journal_tracks_def using assms by blast

lemma journal_tracksD:
  assumes "journal_tracks n H j"
  shows "journal_shape n j"
    and "(t, e) \<in> H \<Longrightarrow> 0 < t \<and> t \<le> cj_current j"
    and "(t, Changed p) \<in> H \<Longrightarrow> dm_get (cj_last_change j) p = Some c \<Longrightarrow> t \<le> c"
    and "(t, Lost) \<in> H \<Longrightarrow> t \<le> cj_last_overflow j"
    and "(t, ps) \<in> set (cj_journal j) \<Longrightarrow> t \<le> cj_current j"
    and "(t, ps) \<in> set (cj_journal j) \<Longrightarrow> p \<in> set ps \<Longrightarrow> (t, Changed p) \<in> H"
    and "(t, Changed p) \<in> H \<Longrightarrow> cj_last_overflow j < t \<Longrightarrow> cj_current j < t + n \<Longrightarrow>
           \<exists>ps. (t, ps) \<in> set (cj_journal j) \<and> p \<in> set ps"
    and "dm_get (cj_last_change j) p = Some c \<Longrightarrow> c \<le> cj_current j"
    and "cj_last_overflow j \<le> cj_current j"
  using assms by (auto simp: journal_tracks_def)

lemma journal_keys_le: "journal_tracks n H j \<Longrightarrow> x \<in> fst ` set (cj_journal j) \<Longrightarrow> x \<le> cj_current j"
  using journal_tracksD(5) by fastforce

text \<open>What an advance leaves in the batch list: the new batch, and all but possibly the oldest.\<close>

lemma advance_journal:
  assumes "journal_tracks n H j" and "cj_current j + 1 < u64_mod"
  shows "cj_journal (fst (advance ps j)) =
    drop (Suc (length (cj_journal j)) - n) (cj_journal j @ [(cj_current j + 1, ps)])"
proof -
  have "\<forall>x \<in> fst ` set (cj_journal j). x < cj_current j + 1"
    using journal_keys_le [OF assms(1)] by (simp add: less_Suc_eq_le)
  then show ?thesis
    using journal_tracksD(1) [OF assms(1)] assms(2)
    by (simp add: advance_def Let_def trim_front_drop bt_insert_last u64_succ_eq journal_shape_def)
qed

lemma advance_keeps_recent:
  assumes tr: "journal_tracks n H j" and nw: "cj_current j + 1 < u64_mod"
    and mem: "(t, qs) \<in> set (cj_journal j)" and recent: "cj_current j + 1 < t + n"
  shows "(t, qs) \<in> set (cj_journal (fst (advance ps j)))"
proof (cases "length (cj_journal j) = n")
  case False
  with journal_tracksD(1) [OF tr] have "Suc (length (cj_journal j)) - n = 0"
    by (simp add: journal_shape_def)
  with mem show ?thesis by (simp add: advance_journal [OF tr nw])
next
  case True
  from mem have ne: "cj_journal j \<noteq> []" by auto
  then obtain a xs where m: "cj_journal j = a # xs" by (cases "cj_journal j") auto
  have "fst a + n \<le> cj_current j + 1"
    using bt_first_key_bound [of "cj_journal j" "cj_current j"] journal_tracksD(1) [OF tr]
      journal_keys_le [OF tr] ne True by (simp add: journal_shape_def m)
  with recent have "t \<noteq> fst a" by simp
  with mem have "(t, qs) \<in> set xs" by (auto simp: m)
  with True show ?thesis by (simp add: advance_journal [OF tr nw] m)
qed

lemma advance_journal_subset:
  assumes "journal_tracks n H j" and "cj_current j + 1 < u64_mod"
    and "x \<in> set (cj_journal (fst (advance ps j)))"
  shows "x \<in> set (cj_journal j) \<or> x = (cj_current j + 1, ps)"
  using assms(3) unfolding advance_journal [OF assms(1,2)]
  by (auto dest: in_set_dropD)

lemma advance_new_batch:
  assumes "journal_tracks n H j" and "cj_current j + 1 < u64_mod" and "0 < n"
  shows "(cj_current j + 1, ps) \<in> set (cj_journal (fst (advance ps j)))"
  using assms(3) by (simp add: advance_journal [OF assms(1,2)])

lemma journal_tracks_advance:
  assumes tr: "journal_tracks n H j" and nw: "cj_current j + 1 < u64_mod"
  shows "journal_tracks n (H \<union> (\<lambda>p. (cj_current j + 1, Changed p)) ` set ps) (fst (advance ps j))"
proof -
  note D = journal_tracksD [OF tr]
  have succ: "u64_succ (cj_current j) = cj_current j + 1" using nw by (rule u64_succ_eq)
  have shape: "journal_shape n (fst (advance ps j))"
    using journal_shape_step [OF D(1), of "Advance ps"] by simp
  have old: "\<exists>qs. (t, qs) \<in> set (cj_journal (fst (advance ps j))) \<and> p \<in> set qs"
    if "(t, Changed p) \<in> H" "cj_last_overflow j < t" "cj_current j + 1 < t + n" for t p
  proof -
    from that D(7) [of t p] obtain qs where "(t, qs) \<in> set (cj_journal j)" "p \<in> set qs" by auto
    with advance_keeps_recent [OF tr nw _ that(3)] show ?thesis by blast
  qed
  show ?thesis
  proof (rule journal_tracksI)
    show "journal_shape n (fst (advance ps j))" by (rule shape)
  next
    fix t e assume "(t, e) \<in> H \<union> (\<lambda>p. (cj_current j + 1, Changed p)) ` set ps"
    with D(2) [of t e] show "0 < t \<and> t \<le> cj_current (fst (advance ps j))" by (auto simp: succ)
  next
    fix t p c
    assume H: "(t, Changed p) \<in> H \<union> (\<lambda>p. (cj_current j + 1, Changed p)) ` set ps"
      and c: "dm_get (cj_last_change (fst (advance ps j))) p = Some c"
    show "t \<le> c"
    proof (cases "p \<in> set ps")
      case True
      with c have "c = cj_current j + 1" by (simp add: succ)
      with H D(2) [of t "Changed p"] show ?thesis by auto
    next
      case False
      with H c D(3) [of t p c] show ?thesis by auto
    qed
  next
    fix t assume "(t, Lost) \<in> H \<union> (\<lambda>p. (cj_current j + 1, Changed p)) ` set ps"
    with D(4) [of t] show "t \<le> cj_last_overflow (fst (advance ps j))" by auto
  next
    fix t qs assume "(t, qs) \<in> set (cj_journal (fst (advance ps j)))"
    with advance_journal_subset [OF tr nw this] D(5) [of t qs]
    show "t \<le> cj_current (fst (advance ps j))" by (auto simp: succ)
  next
    fix t qs p
    assume "(t, qs) \<in> set (cj_journal (fst (advance ps j)))" "p \<in> set qs"
    with advance_journal_subset [OF tr nw this(1)] D(6) [of t qs p]
    show "(t, Changed p) \<in> H \<union> (\<lambda>p. (cj_current j + 1, Changed p)) ` set ps" by auto
  next
    fix t p
    assume H: "(t, Changed p) \<in> H \<union> (\<lambda>p. (cj_current j + 1, Changed p)) ` set ps"
      and o: "cj_last_overflow (fst (advance ps j)) < t"
      and r: "cj_current (fst (advance ps j)) < t + n"
    then consider "(t, Changed p) \<in> H" | "t = cj_current j + 1" "p \<in> set ps" by auto
    then show "\<exists>qs. (t, qs) \<in> set (cj_journal (fst (advance ps j))) \<and> p \<in> set qs"
    proof cases
      case 1
      with o r show ?thesis by (intro old) (simp_all add: succ)
    next
      case 2
      with r have "0 < n" by (simp add: succ)
      with 2 advance_new_batch [OF tr nw, of ps] show ?thesis by blast
    qed
  next
    fix p c assume "dm_get (cj_last_change (fst (advance ps j))) p = Some c"
    with D(8) [of p c] show "c \<le> cj_current (fst (advance ps j))"
      by (auto simp: succ split: if_splits)
  next
    show "cj_last_overflow (fst (advance ps j)) \<le> cj_current (fst (advance ps j))"
      using D(9) by (simp add: succ)
  qed
qed

lemma journal_tracks_lost:
  assumes tr: "journal_tracks n H j" and nw: "cj_current j + 1 < u64_mod"
    and f: "cj_current j' = cj_current j + 1" "cj_last_overflow j' = cj_current j + 1"
      "cj_last_change j' = cj_last_change j \<or> cj_last_change j' = []"
      "cj_journal j' = cj_journal j \<or> cj_journal j' = []"
    and shape: "journal_shape n j'"
  shows "journal_tracks n (insert (cj_current j + 1, Lost) H) j'"
proof -
  note D = journal_tracksD [OF tr]
  have lc: "dm_get (cj_last_change j') p = Some c \<Longrightarrow> dm_get (cj_last_change j) p = Some c" for p c
    using f(3) by auto
  have jn: "x \<in> set (cj_journal j') \<Longrightarrow> x \<in> set (cj_journal j)" for x
    using f(4) by auto
  show ?thesis
  proof (rule journal_tracksI)
    fix t e assume "(t, e) \<in> insert (cj_current j + 1, Lost) H"
    with D(2) [of t e] show "0 < t \<and> t \<le> cj_current j'" by (auto simp: f)
  next
    fix t p c
    assume "(t, Changed p) \<in> insert (cj_current j + 1, Lost) H"
      and "dm_get (cj_last_change j') p = Some c"
    then show "t \<le> c" using D(3) lc by auto
  next
    fix t assume "(t, Lost) \<in> insert (cj_current j + 1, Lost) H"
    with D(4) [of t] D(9) show "t \<le> cj_last_overflow j'" by (auto simp: f)
  next
    fix t qs assume "(t, qs) \<in> set (cj_journal j')"
    with D(5) jn show "t \<le> cj_current j'" by (fastforce simp: f)
  next
    fix t qs p assume "(t, qs) \<in> set (cj_journal j')" "p \<in> set qs"
    with D(6) jn show "(t, Changed p) \<in> insert (cj_current j + 1, Lost) H" by blast
  next
    fix t p
    assume "(t, Changed p) \<in> insert (cj_current j + 1, Lost) H" "cj_last_overflow j' < t"
    with D(2) [of t "Changed p"] show "\<exists>qs. (t, qs) \<in> set (cj_journal j') \<and> p \<in> set qs"
      by (auto simp: f)
  next
    fix p c assume "dm_get (cj_last_change j') p = Some c"
    with D(8) lc show "c \<le> cj_current j'" by (fastforce simp: f)
  qed (simp_all add: f shape)
qed

lemma journal_tracks_frame:
  assumes tr: "journal_tracks n H j" and shape: "journal_shape n j'"
    and f: "cj_current j' = cj_current j" "cj_last_overflow j' = cj_last_overflow j"
      "cj_journal j' = cj_journal j"
    and lc: "\<And>p c. dm_get (cj_last_change j') p = Some c \<Longrightarrow>
       dm_get (cj_last_change j) p = Some c \<or> c = cj_current j"
  shows "journal_tracks n H j'"
proof -
  note D = journal_tracksD [OF tr]
  show ?thesis
  proof (rule journal_tracksI)
    fix t p c assume "(t, Changed p) \<in> H" "dm_get (cj_last_change j') p = Some c"
    with lc [of p c] D(2) [of t "Changed p"] D(3) [of t p c] show "t \<le> c" by auto
  next
    fix p c assume "dm_get (cj_last_change j') p = Some c"
    with lc [of p c] D(8) [of p c] show "c \<le> cj_current j'" by (auto simp: f)
  qed (use D shape in \<open>auto simp: f\<close>)
qed

lemma journal_tracks_init: "journal_tracks n {} (journal_with_capacity n)"
  by (rule journal_tracksI) (auto simp: journal_shape_init, auto simp: journal_with_capacity_def)

text \<open>One operation: the happenings grow by what the operation reports.\<close>

lemma journal_tracks_step:
  assumes tr: "journal_tracks n H j" and nw: "cj_current j + ticks [x] < u64_mod"
  shows "journal_tracks n (H \<union> history (cj_current j) [x]) (journal_step j x)"
    and "cj_current (journal_step j x) = cj_current j + ticks [x]"
proof -
  have shape: "journal_shape n (journal_step j x)"
    by (rule journal_shape_step [OF journal_tracksD(1) [OF tr]])
  have wf: "dm_wf (cj_last_change j)"
    using journal_tracksD(1) [OF tr] by (simp add: journal_shape_def)
  show "cj_current (journal_step j x) = cj_current j + ticks [x]"
    using nw by (cases x) (auto simp: u64_succ_eq)
  show "journal_tracks n (H \<union> history (cj_current j) [x]) (journal_step j x)"
  proof (cases x)
    case (Advance ps)
    with journal_tracks_advance [OF tr, of ps] nw show ?thesis by simp
  next
    case Overflow
    with journal_tracks_lost [OF tr _ _ _ _ _ shape] nw show ?thesis by (simp add: u64_succ_eq)
  next
    case Clear
    with journal_tracks_lost [OF tr _ _ _ _ _ shape] nw show ?thesis by (simp add: u64_succ_eq)
  next
    case (Retain live)
    have "journal_tracks n H (journal_step j x)"
      by (rule journal_tracks_frame [OF tr shape])
         (auto simp: Retain dm_get_retain [OF wf] split: option.splits if_splits)
    with Retain show ?thesis by simp
  next
    case (Register p)
    have "journal_tracks n H (journal_step j x)"
      by (rule journal_tracks_frame [OF tr shape]) (auto simp: Register split: if_splits)
    with Register show ?thesis by simp
  qed
qed

lemma history_Cons: "history t (x # ops) = history t [x] \<union> history (t + ticks [x]) ops"
  by (cases x) auto

lemma ticks_Cons: "ticks (x # ops) = ticks [x] + ticks ops"
  by (cases x) auto

lemma journal_tracks_run:
  "journal_tracks n H j \<Longrightarrow> cj_current j + ticks ops < u64_mod \<Longrightarrow>
     journal_tracks n (H \<union> history (cj_current j) ops) (foldl journal_step j ops) \<and>
     cj_current (foldl journal_step j ops) = cj_current j + ticks ops"
proof (induction ops arbitrary: j H)
  case (Cons x ops)
  from Cons.prems have nw: "cj_current j + ticks [x] < u64_mod"
    by (simp add: ticks_Cons [of x ops])
  note st = journal_tracks_step [OF Cons.prems(1) nw]
  from Cons.IH [OF st(1)] Cons.prems(2) show ?case
    by (simp add: st(2) ticks_Cons [of x ops] history_Cons [of _ x ops] Un_assoc add.assoc)
qed simp

lemma journal_run_tracks:
  assumes "ticks ops < u64_mod"
  shows "journal_tracks n (history 0 ops) (foldl journal_step (journal_with_capacity n) ops)"
    and "cj_current (foldl journal_step (journal_with_capacity n) ops) = ticks ops"
  using journal_tracks_run [OF journal_tracks_init, where n = n and ops = ops] assms
  by (simp_all add: journal_with_capacity_def)

subsection \<open>The journal as a change tracker\<close>

text \<open>
  What the cache system relies on: recording a batch and losing events make earlier observation
  points stale, tracking a file settles it at the current tick, and nothing else changes the
  answer for other files.
\<close>

locale change_tracker =
  fixes now :: "'j \<Rightarrow> clock"
    and record_batch :: "npath list \<Rightarrow> 'j \<Rightarrow> 'j"
    and lose :: "'j \<Rightarrow> 'j"
    and track :: "npath \<Rightarrow> 'j \<Rightarrow> 'j"
    and changed :: "'j \<Rightarrow> npath \<Rightarrow> clock \<Rightarrow> bool"
    and fine :: "'j \<Rightarrow> bool"
  assumes record_now: "fine j \<Longrightarrow> now (record_batch ps j) = now j + 1"
    and record_hits: "fine j \<Longrightarrow> p \<in> set ps \<Longrightarrow> s \<le> now j \<Longrightarrow> changed (record_batch ps j) p s"
    and record_keeps: "p \<notin> set ps \<Longrightarrow> changed (record_batch ps j) p s = changed j p s"
    and lose_hits: "fine j \<Longrightarrow> s \<le> now j \<Longrightarrow> changed (lose j) p s"
    and track_settles: "fine j \<Longrightarrow> \<not> changed (track p j) p (now j)"
    and track_keeps: "q \<noteq> p \<Longrightarrow> changed (track p j) q s = changed j q s"
begin

lemma changed_persists:
  assumes "fine j" and "s \<le> now j" and "changed j p s"
  shows "changed (record_batch ps j) p s"
  using assms record_hits [of j p ps s] record_keeps [of p ps j s] by (cases "p \<in> set ps") auto

lemma track_all_settles:
  assumes fine: "\<And>j q. fine j \<Longrightarrow> fine (track q j) \<and> now (track q j) = now j"
    and stay: "\<And>j q r s. \<not> changed j r s \<Longrightarrow> \<not> changed (track q j) r s"
  shows "fine j \<Longrightarrow> p \<in> set ps \<Longrightarrow> \<not> changed (foldl (\<lambda>j q. track q j) j ps) p (now j)"
proof (induction ps arbitrary: j rule: list.induct)
  case (Cons q ps)
  have mono: "\<not> changed j p s \<Longrightarrow> \<not> changed (foldl (\<lambda>j q. track q j) j ps) p s" for j s
    by (induction ps arbitrary: j) (simp_all add: stay)
  show ?case
  proof (cases "p = q")
    case True
    with track_settles [OF Cons.prems(1)] mono show ?thesis by simp
  next
    case False
    with Cons.prems fine [OF Cons.prems(1), of q] Cons.IH [of "track q j"] show ?thesis by simp
  qed
qed simp

end

definition journal_fine :: "change_journal \<Rightarrow> bool" where
  "journal_fine j \<longleftrightarrow> (\<forall>p c. dm_get (cj_last_change j) p = Some c \<longrightarrow> c \<le> cj_current j) \<and>
     cj_last_overflow j \<le> cj_current j \<and> cj_current j + 1 < u64_mod"

interpretation jtrack: change_tracker current_clock "\<lambda>ps j. fst (advance ps j)"
    "\<lambda>j. fst (mark_overflow j)" journal_register changed_since journal_fine
  by (unfold_locales, auto simp: journal_fine_def current_clock_def changed_since_def u64_succ_eq
        split: option.splits if_splits, meson leD)

lemma journal_fine_register:
  "journal_fine j \<Longrightarrow> journal_fine (journal_register q j) \<and>
     current_clock (journal_register q j) = current_clock j"
  by (auto simp: journal_fine_def current_clock_def split: if_splits)

lemma register_stays_unchanged:
  "\<not> changed_since j r s \<Longrightarrow> \<not> changed_since (journal_register q j) r s"
  by (auto simp: changed_since_def split: if_splits option.splits)

lemma leaves_alone_step:
  assumes "leaves_alone p x" and "journal_shape n j" and "dm_get (cj_last_change j) p = Some c"
  shows "dm_get (cj_last_change (journal_step j x)) p = Some c \<and>
         cj_last_overflow (journal_step j x) = cj_last_overflow j"
  using assms by (cases x) (auto simp: dm_get_retain journal_shape_def)

subsection \<open>Properties\<close>

text \<open>
  C6. The journal never hides a change.  After any sequence of batches, overflows, clears,
  retentions and registrations (fewer than \<open>2^64\<close> clock ticks), a path that is reported
  unchanged since tick \<open>s\<close> was not in any batch after \<open>s\<close>, and no events were lost after \<open>s\<close>.
\<close>

theorem no_missed_change:
  assumes "ticks ops < u64_mod"
    and "\<not> changed_since (foldl journal_step (journal_with_capacity n) ops) p s"
  shows "{t. (t, Changed p) \<in> history 0 ops} \<subseteq> {..s} \<and> {t. (t, Lost) \<in> history 0 ops} \<subseteq> {..s}"
proof -
  let ?j = "foldl journal_step (journal_with_capacity n) ops"
  note D = journal_tracksD [OF journal_run_tracks(1) [OF assms(1), of n]]
  from assms(2) obtain c where c: "dm_get (cj_last_change ?j) p = Some c" "c \<le> s"
    and o: "cj_last_overflow ?j = 0 \<or> cj_last_overflow ?j \<le> s"
    by (auto simp: changed_since_def split: if_splits option.splits)
  show ?thesis
  proof (intro conjI subsetI)
    fix t assume "t \<in> {t. (t, Changed p) \<in> history 0 ops}"
    with D(3) [of t p c] c show "t \<in> {..s}" by simp
  next
    fix t assume "t \<in> {t. (t, Lost) \<in> history 0 ops}"
    with D(2) [of t Lost] D(4) [of t] o show "t \<in> {..s}" by auto
  qed
qed

theorem no_missed_change_witness:
  "{t. (t, Changed ''a.h'') \<in> history 0
      [Register ''a.h'', Advance [''b.h''], Advance [''a.h''], Overflow, Advance []]} \<subseteq> {..3} \<and>
   {t. (t, Lost) \<in> history 0
      [Register ''a.h'', Advance [''b.h''], Advance [''a.h''], Overflow, Advance []]} \<subseteq> {..3}"
  by (rule no_missed_change [where n = 2])
     (simp_all add: u64_mod_def changed_since_def journal_with_capacity_def advance_def
        mark_overflow_def journal_register_def u64_succ_def Let_def dm_or_insert_def dm_insert_def)

text \<open>
  C22. The bounded batch list answers range queries exactly.  For every observation point \<open>s\<close> not
  older than the last lost point and at most \<open>n\<close> ticks back, the paths returned for \<open>s\<close> are the
  paths of exactly the batches recorded after \<open>s\<close>.
\<close>

theorem changes_since_exact:
  assumes "ticks ops < u64_mod"
    and "cj_last_overflow (foldl journal_step (journal_with_capacity n) ops) \<le> s"
    and "current_clock (foldl journal_step (journal_with_capacity n) ops) \<le> s + n"
  shows "set (changes_since (foldl journal_step (journal_with_capacity n) ops) s) =
    {p. \<exists>t > s. (t, Changed p) \<in> history 0 ops}"
proof -
  let ?j = "foldl journal_step (journal_with_capacity n) ops"
  note D = journal_tracksD [OF journal_run_tracks(1) [OF assms(1), of n]]
  have "\<exists>ps. (t, ps) \<in> set (cj_journal ?j) \<and> p \<in> set ps"
    if "(t, Changed p) \<in> history 0 ops" "s < t" for t p
    using D(7) [OF that(1)] that(2) assms(2,3) by (simp add: current_clock_def)
  then show ?thesis
    by (fastforce simp: changes_since_eq bt_range_above_def dest: D(6))
qed

theorem changes_since_exact_witness:
  "set (changes_since (foldl journal_step (journal_with_capacity 2)
      [Advance [''x''], Advance [''a.h'', ''b.h''], Advance [''c.h'']]) 1) =
   {p. \<exists>t > 1. (t, Changed p) \<in> history 0
      [Advance [''x''], Advance [''a.h'', ''b.h''], Advance [''c.h'']]}"
  by (rule changes_since_exact)
     (simp_all add: u64_mod_def current_clock_def journal_with_capacity_def advance_def
        u64_succ_def Let_def)

text \<open>
  C21. No spurious staleness.  Once a batch containing a path has been recorded at tick \<open>t\<close>, later
  operations that neither report that path nor lose events nor drop it leave the answer exact:
  the path counts as changed precisely for the observation points before \<open>t\<close> (given that no
  overflow has happened after \<open>t\<close>).
\<close>

theorem changed_since_sharp:
  assumes "journal_shape n j" and "cj_current j + 1 < u64_mod" and "p \<in> set ps"
    and "cj_last_overflow j \<le> cj_current j" and "list_all (leaves_alone p) ops"
  shows "changed_since (foldl journal_step j (Advance ps # ops)) p s \<longleftrightarrow> s < cj_current j + 1"
proof -
  have run: "journal_shape n i \<Longrightarrow> dm_get (cj_last_change i) p = Some c \<Longrightarrow>
      list_all (leaves_alone p) ops \<Longrightarrow>
      dm_get (cj_last_change (foldl journal_step i ops)) p = Some c \<and>
      cj_last_overflow (foldl journal_step i ops) = cj_last_overflow i" for i c
  proof (induction ops arbitrary: i)
    case (Cons x ops)
    then show ?case
      using leaves_alone_step [of p x n i c] journal_shape_step [of n i x] by simp
  qed simp
  have "dm_get (cj_last_change (journal_step j (Advance ps))) p = Some (cj_current j + 1)"
    using assms(2,3) by (simp add: u64_succ_eq)
  from run [OF journal_shape_step [OF assms(1)] this assms(5)] assms(4)
  show ?thesis by (auto simp: changed_since_def)
qed

theorem changed_since_sharp_witness:
  "\<not> changed_since (foldl journal_step journal_new
       (Advance [''a.h''] # [Advance [''b.h''], Register ''a.h''])) ''a.h'' 1"
  by (subst changed_since_sharp [where n = 10000])
     (simp_all add: journal_new_def journal_with_capacity_def journal_shape_def u64_mod_def bt_wf_def)

end
