(* ===== verification/Metadata.thy ===== *)
theory Metadata
  imports Clock "HOL-Library.Multiset"
begin

text \<open>
  The file metadata cache (\<^verbatim>\<open>crates/zccache-fscache/src/metadata.rs\<close> and \<^verbatim>\<open>verify.rs\<close>).

  Per path the cache keeps the stamp (modification time and size) of the last verification, a
  confidence level that decays with time, and the content hash if it has been computed.  A
  lookup stats the file before it trusts an entry and re-hashes otherwise, guarding the hash
  against a file that changes while it is being read.

  The operating system is a parameter: \<open>env t\<close> is its state at the \<open>t\<close>-th system call, so every
  call of an operation can see a different file system.  An open handle names an inode, which may
  stop being what the path resolves to.  A file is read in chunks or through a memory map while
  others may write to it, so what one read as a whole delivers is a parameter of its own and need not
  be anything the file contained at one moment.  The digest function is a parameter too.
\<close>

subsection \<open>The operating system as seen by the cache\<close>

type_synonym systime = int
type_synonym instant = nat

datatype io_error = NotFound | OtherIo

record os_state =
  os_resolve :: "npath \<Rightarrow> io_error + nat"
  os_open :: "npath \<Rightarrow> io_error + nat"
  os_attr :: "nat \<Rightarrow> io_error + (systime \<times> nat)"
  os_content :: "nat \<Rightarrow> string"
  os_delivers :: "nat \<Rightarrow> string"
  os_unreadable :: "nat \<Rightarrow> io_error option"
  os_instant :: instant

type_synonym env = "nat \<Rightarrow> os_state"

datatype zc_error = Io io_error | FileNotFound npath | CacheError string

definition os_stat :: "os_state \<Rightarrow> npath \<Rightarrow> io_error + (systime \<times> nat)" where
  "os_stat s p = (case os_resolve s p of Inl e \<Rightarrow> Inl e | Inr i \<Rightarrow> os_attr s i)"

definition os_read :: "os_state \<Rightarrow> nat \<Rightarrow> io_error + string" where
  "os_read s i = (case os_unreadable s i of Some e \<Rightarrow> Inl e | None \<Rightarrow> Inr (os_delivers s i))"

subsection \<open>Modification times\<close>

definition DEFAULT_MTIME_TOLERANCE_NS :: nat where
  "DEFAULT_MTIME_TOLERANCE_NS = 1000000000"

definition mtime_tolerance_ns :: "string option \<Rightarrow> nat" where
  "mtime_tolerance_ns var =
     (case Option.bind var parse_u64 of Some n \<Rightarrow> n | None \<Rightarrow> DEFAULT_MTIME_TOLERANCE_NS)"

definition mtime_components :: "systime \<Rightarrow> nat \<times> nat" where
  "mtime_components t =
     (if 0 \<le> t then (nat (t div 1000000000), nat (t mod 1000000000)) else (0, 0))"

definition abs_diff :: "nat \<Rightarrow> nat \<Rightarrow> nat" where
  "abs_diff a b = (if a \<le> b then b - a else a - b)"

definition mtimes_match :: "nat \<Rightarrow> systime \<Rightarrow> systime \<Rightarrow> bool" where
  "mtimes_match tolerance_ns a b =
     (if a = b then True
      else if tolerance_ns = 0 then False
      else
        (let (a_secs, a_nanos) = mtime_components a;
             (b_secs, b_nanos) = mtime_components b
         in if a_nanos \<noteq> 0 \<and> b_nanos \<noteq> 0 then False
            else abs_diff (a_secs * 1000000000 + a_nanos) (b_secs * 1000000000 + b_nanos) < tolerance_ns))"

subsection \<open>Entries\<close>

datatype confidence = Low | Medium | High

record file_metadata =
  fm_mtime :: systime
  fm_size :: nat
  fm_confidence :: confidence
  fm_last_verified :: instant
  fm_content_hash :: "content_hash option"

record eviction_candidate =
  ec_path :: npath
  ec_last_verified :: instant

record candidate_eviction_result =
  cer_removed :: nat
  cer_busy :: "eviction_candidate list"
  cer_refreshed :: "eviction_candidate list"

record metadata_cache =
  mc_entries :: "(npath, file_metadata) dmap"
  mc_high_decay :: nat
  mc_medium_decay :: nat
  mc_dirty :: bool

definition metadata_new :: metadata_cache where
  "metadata_new =
     \<lparr> mc_entries = [], mc_high_decay = 60 * 1000000000, mc_medium_decay = 30 * 1000000000,
       mc_dirty = False \<rparr>"

definition is_dirty :: "metadata_cache \<Rightarrow> bool" where
  "is_dirty mc = mc_dirty mc"

definition take_dirty :: "metadata_cache \<Rightarrow> metadata_cache \<times> bool" where
  "take_dirty mc = (mc\<lparr>mc_dirty := False\<rparr>, mc_dirty mc)"

definition mark_dirty :: "metadata_cache \<Rightarrow> metadata_cache" where
  "mark_dirty mc = mc\<lparr>mc_dirty := True\<rparr>"

definition decayed_confidence :: "metadata_cache \<Rightarrow> instant \<Rightarrow> file_metadata \<Rightarrow> confidence" where
  "decayed_confidence mc now meta =
     (let elapsed = now - fm_last_verified meta
      in case fm_confidence meta of
           High \<Rightarrow> if mc_high_decay mc < elapsed then Medium else High
         | Medium \<Rightarrow> if mc_medium_decay mc < elapsed then Low else Medium
         | Low \<Rightarrow> Low)"

definition mc_get :: "metadata_cache \<Rightarrow> instant \<Rightarrow> npath \<Rightarrow> file_metadata option" where
  "mc_get mc now path =
     map_option (\<lambda>meta. meta\<lparr>fm_confidence := decayed_confidence mc now meta\<rparr>)
       (dm_get (mc_entries mc) path)"

definition mc_insert :: "npath \<Rightarrow> file_metadata \<Rightarrow> metadata_cache \<Rightarrow> metadata_cache" where
  "mc_insert path metadata mc =
     mark_dirty (mc\<lparr>mc_entries := dm_insert path metadata (mc_entries mc)\<rparr>)"

definition mc_downgrade :: "npath \<Rightarrow> metadata_cache \<Rightarrow> metadata_cache" where
  "mc_downgrade path mc =
     (case dm_get (mc_entries mc) path of
        Some entry \<Rightarrow>
          mark_dirty (mc\<lparr>mc_entries := dm_modify path (\<lambda>e. e\<lparr>fm_confidence := Low\<rparr>) (mc_entries mc)\<rparr>)
      | None \<Rightarrow> mc)"

definition mc_downgrade_all :: "metadata_cache \<Rightarrow> metadata_cache" where
  "mc_downgrade_all mc =
     (let mc' = mc\<lparr>mc_entries := dm_map (\<lambda>_ e. e\<lparr>fm_confidence := Low\<rparr>) (mc_entries mc)\<rparr>
      in if mc_entries mc \<noteq> [] then mark_dirty mc' else mc')"

definition mc_remove :: "npath \<Rightarrow> metadata_cache \<Rightarrow> metadata_cache" where
  "mc_remove path mc =
     (if dm_has (mc_entries mc) path
      then mark_dirty (mc\<lparr>mc_entries := dm_remove path (mc_entries mc)\<rparr>) else mc)"

definition mc_len :: "metadata_cache \<Rightarrow> nat" where
  "mc_len mc = length (mc_entries mc)"

definition mc_is_empty :: "metadata_cache \<Rightarrow> bool" where
  "mc_is_empty mc = (mc_entries mc = [])"

definition mc_clear :: "metadata_cache \<Rightarrow> metadata_cache" where
  "mc_clear mc = mark_dirty (mc\<lparr>mc_entries := []\<rparr>)"

definition mc_merge_from :: "metadata_cache \<Rightarrow> metadata_cache \<Rightarrow> metadata_cache" where
  "mc_merge_from other mc =
     mc\<lparr>mc_entries := foldl (\<lambda>m (k, v). dm_insert k v m) (mc_entries mc) (mc_entries other)\<rparr>"

definition mc_paths :: "metadata_cache \<Rightarrow> npath list" where
  "mc_paths mc = dm_keys (mc_entries mc)"

definition get_cached_hash :: "metadata_cache \<Rightarrow> npath \<Rightarrow> content_hash option" where
  "get_cached_hash mc path =
     (case dm_get (mc_entries mc) path of
        None \<Rightarrow> None
      | Some entry \<Rightarrow>
          (case fm_confidence entry of
             High \<Rightarrow> fm_content_hash entry
           | Medium \<Rightarrow> fm_content_hash entry
           | Low \<Rightarrow> None))"

definition get_cached_hash_if_stat_valid ::
    "nat \<Rightarrow> os_state \<Rightarrow> metadata_cache \<Rightarrow> npath \<Rightarrow> content_hash option" where
  "get_cached_hash_if_stat_valid tolerance_ns os mc path =
     (case dm_get (mc_entries mc) path of
        None \<Rightarrow> None
      | Some entry \<Rightarrow>
          if fm_confidence entry = Low then None
          else (case fm_content_hash entry of
                  None \<Rightarrow> None
                | Some hash \<Rightarrow>
                    (case os_stat os path of
                       Inl _ \<Rightarrow> None
                     | Inr (mtime, fsize) \<Rightarrow>
                         if mtimes_match tolerance_ns (fm_mtime entry) mtime \<and> fm_size entry = fsize
                         then Some hash else None)))"

subsection \<open>Verification against the file system\<close>

datatype verify_result = Fresh | Stale | Gone

definition metadata_from_fs :: "systime \<times> nat \<Rightarrow> instant \<Rightarrow> file_metadata" where
  "metadata_from_fs attr now =
     \<lparr> fm_mtime = fst attr, fm_size = snd attr, fm_confidence = High, fm_last_verified = now,
       fm_content_hash = None \<rparr>"

definition stat_file :: "os_state \<Rightarrow> npath \<Rightarrow> zc_error + file_metadata" where
  "stat_file os path =
     (case os_stat os path of
        Inl e \<Rightarrow> Inl (Io e)
      | Inr attr \<Rightarrow> Inr (metadata_from_fs attr (os_instant os)))"

definition mc_verify :: "os_state \<Rightarrow> metadata_cache \<Rightarrow> npath \<Rightarrow> zc_error + verify_result" where
  "mc_verify os mc path =
     (case mc_get mc (os_instant os) path of
        None \<Rightarrow> Inl (CacheError (''path not in cache: '' @ path))
      | Some cached \<Rightarrow>
          (case stat_file os path of
             Inl (Io NotFound) \<Rightarrow> Inr Gone
           | Inl e \<Rightarrow> Inl e
           | Inr fresh \<Rightarrow>
               if fm_mtime cached \<noteq> fm_mtime fresh \<or> fm_size cached \<noteq> fm_size fresh
               then Inr Stale else Inr Fresh))"

text \<open>
  A file of length zero is not read; its digest is that of the empty string.  Otherwise the digest is
  that of the bytes the read delivers, in 16 KiB chunks below 64 KiB and through a map above.
\<close>

definition hash_open_file :: "(string \<Rightarrow> content_hash) \<Rightarrow> os_state \<Rightarrow> nat \<Rightarrow> nat \<Rightarrow> io_error + content_hash" where
  "hash_open_file h os file len =
     (if len = 0 then Inr (h [])
      else (case os_read os file of Inl e \<Rightarrow> Inl e | Inr content \<Rightarrow> Inr (h content)))"

text \<open>Open, stat the handle, hash through the handle, stat the path: four system calls.\<close>

definition hash_file_snapshot ::
    "(string \<Rightarrow> content_hash) \<Rightarrow> env \<Rightarrow> nat \<Rightarrow> npath \<Rightarrow>
       zc_error + (file_metadata \<times> content_hash \<times> file_metadata)" where
  "hash_file_snapshot h env t path =
     (case os_open (env t) path of
        Inl e \<Rightarrow> Inl (Io e)
      | Inr file \<Rightarrow>
          (case os_attr (env (t + 1)) file of
             Inl e \<Rightarrow> Inl (Io e)
           | Inr attr \<Rightarrow>
               (let pre = metadata_from_fs attr (os_instant (env (t + 1)))
                in case hash_open_file h (env (t + 2)) file (fm_size pre) of
                     Inl e \<Rightarrow> Inl (Io e)
                   | Inr hash \<Rightarrow>
                       (case stat_file (env (t + 3)) path of
                          Inl e \<Rightarrow> Inl e
                        | Inr post \<Rightarrow> Inr (pre, hash, post)))))"

definition same_stamp :: "file_metadata \<Rightarrow> file_metadata \<Rightarrow> bool" where
  "same_stamp a b \<longleftrightarrow> fm_mtime a = fm_mtime b \<and> fm_size a = fm_size b"

text \<open>The retry loop: the first stable snapshot, or none.\<close>

fun retry_snapshot ::
    "(string \<Rightarrow> content_hash) \<Rightarrow> env \<Rightarrow> nat \<Rightarrow> nat \<Rightarrow> npath \<Rightarrow>
       zc_error + (content_hash \<times> file_metadata) option" where
  "retry_snapshot h env 0 t path = Inr None"
| "retry_snapshot h env (Suc n) t path =
     (case hash_file_snapshot h env t path of
        Inl e \<Rightarrow> Inl e
      | Inr (pre, hash, post) \<Rightarrow>
          if same_stamp pre post then Inr (Some (hash, post))
          else retry_snapshot h env n (t + 4) path)"

definition hash_and_insert ::
    "(string \<Rightarrow> content_hash) \<Rightarrow> env \<Rightarrow> nat \<Rightarrow> npath \<Rightarrow> metadata_cache \<Rightarrow>
       metadata_cache \<times> (zc_error + content_hash)" where
  "hash_and_insert h env t path mc =
     (case hash_file_snapshot h env t path of
        Inl e \<Rightarrow> (mc, Inl e)
      | Inr (pre_stat, hash, post_stat) \<Rightarrow>
          if \<not> same_stamp pre_stat post_stat then
            (case retry_snapshot h env 3 (t + 4) path of
               Inl e \<Rightarrow> (mc, Inl e)
             | Inr (Some (hh, post)) \<Rightarrow>
                 (mc_insert path (post\<lparr>fm_content_hash := Some hh\<rparr>) mc, Inr hh)
             | Inr None \<Rightarrow>
                 (case stat_file (env (t + 16)) path of
                    Inl e \<Rightarrow> (mc, Inl e)
                  | Inr meta \<Rightarrow>
                      (mc_insert path (meta\<lparr>fm_confidence := Low, fm_content_hash := Some hash\<rparr>) mc,
                       Inr hash)))
          else
            (mc_insert path (post_stat\<lparr>fm_content_hash := Some hash\<rparr>) mc, Inr hash))"

definition lookup_normalized ::
    "(string \<Rightarrow> content_hash) \<Rightarrow> env \<Rightarrow> nat \<Rightarrow> npath \<Rightarrow> metadata_cache \<Rightarrow>
       metadata_cache \<times> (zc_error + content_hash)" where
  "lookup_normalized h env t path mc =
     (case mc_get mc (os_instant (env t)) path of
        None \<Rightarrow> hash_and_insert h env t path mc
      | Some entry \<Rightarrow>
          (case stat_file (env t) path of
             Inl (Io NotFound) \<Rightarrow> (mc_remove path mc, Inl (FileNotFound path))
           | Inl e \<Rightarrow> (mc, Inl e)
           | Inr fresh \<Rightarrow>
               if same_stamp entry fresh \<and> fm_confidence entry \<noteq> Low then
                 (case fm_content_hash entry of
                    Some hash_bytes \<Rightarrow>
                      (mc_insert path
                         (entry\<lparr>fm_confidence := High, fm_last_verified := os_instant (env t)\<rparr>) mc,
                       Inr hash_bytes)
                  | None \<Rightarrow> hash_and_insert h env (t + 1) path mc)
               else hash_and_insert h env (t + 1) path mc))"

subsection \<open>Rescan after an overflow\<close>

definition low_keys :: "metadata_cache \<Rightarrow> npath list" where
  "low_keys mc = map fst (filter (\<lambda>(_, e). fm_confidence e = Low) (mc_entries mc))"

fun stat_all :: "env \<Rightarrow> nat \<Rightarrow> npath list \<Rightarrow> (npath \<times> systime \<times> nat) list" where
  "stat_all env t [] = []"
| "stat_all env t (path # paths) =
     (case stat_file (env t) path of
        Inl _ \<Rightarrow> stat_all env (t + 1) paths
      | Inr fresh \<Rightarrow> (path, fm_mtime fresh, fm_size fresh) # stat_all env (t + 1) paths)"

fun apply_promotions ::
    "env \<Rightarrow> nat \<Rightarrow> (npath \<times> systime \<times> nat) list \<Rightarrow> (npath, file_metadata) dmap \<Rightarrow>
       (npath, file_metadata) dmap \<times> nat" where
  "apply_promotions env t [] m = (m, 0)"
| "apply_promotions env t ((path, mtime, fsize) # rs) m =
     (case dm_get m path of
        None \<Rightarrow> apply_promotions env (t + 1) rs m
      | Some entry \<Rightarrow>
          if fm_confidence entry = Low \<and> fm_mtime entry = mtime \<and> fm_size entry = fsize
          then (let (m', promoted) = apply_promotions env (t + 1) rs
                      (dm_insert path (entry\<lparr>fm_confidence := High,
                         fm_last_verified := os_instant (env t)\<rparr>) m)
                in (m', promoted + 1))
          else apply_promotions env (t + 1) rs m)"

definition rescan_all :: "env \<Rightarrow> nat \<Rightarrow> metadata_cache \<Rightarrow> metadata_cache \<times> nat" where
  "rescan_all env t mc =
     (let keys = low_keys mc
      in if keys = [] then (mc, 0)
         else
           (let (m, promoted) = apply_promotions env (t + length keys) (stat_all env t keys) (mc_entries mc);
                mc' = mc\<lparr>mc_entries := m\<rparr>
            in (if 0 < promoted then mark_dirty mc' else mc', promoted)))"

subsection \<open>Eviction\<close>

definition mc_trim :: "instant \<Rightarrow> nat \<Rightarrow> metadata_cache \<Rightarrow> metadata_cache \<times> nat" where
  "mc_trim now max_age mc =
     (let kept = dm_retain (\<lambda>_ e. \<not> max_age < now - fm_last_verified e) (mc_entries mc);
          removed = length (mc_entries mc) - length kept;
          mc' = mc\<lparr>mc_entries := kept\<rparr>
      in (if 0 < removed then mark_dirty mc' else mc', removed))"

definition oldest_eviction_candidates :: "nat \<Rightarrow> metadata_cache \<Rightarrow> eviction_candidate list" where
  "oldest_eviction_candidates cnt mc =
     (if cnt = 0 then []
      else take cnt (sort_key ec_last_verified
             (map (\<lambda>(p, e). \<lparr> ec_path = p, ec_last_verified = fm_last_verified e \<rparr>) (mc_entries mc))))"

text \<open>One candidate of the write phase, whose shard may be locked by other traffic.\<close>

definition evict_one ::
    "(npath \<Rightarrow> bool) \<Rightarrow> (npath, file_metadata) dmap \<times> candidate_eviction_result \<Rightarrow>
       eviction_candidate \<Rightarrow> (npath, file_metadata) dmap \<times> candidate_eviction_result" where
  "evict_one busy acc candidate =
     (let (m, result) = acc
      in if busy (ec_path candidate)
         then (m, result\<lparr>cer_busy := cer_busy result @ [candidate]\<rparr>)
         else (case dm_get m (ec_path candidate) of
                 None \<Rightarrow> (m, result)
               | Some e \<Rightarrow>
                   if fm_last_verified e = ec_last_verified candidate
                   then (dm_remove (ec_path candidate) m, result\<lparr>cer_removed := cer_removed result + 1\<rparr>)
                   else (m, result\<lparr>cer_refreshed := cer_refreshed result @ [candidate]\<rparr>)))"

definition try_evict_candidates_detailed ::
    "(npath \<Rightarrow> bool) \<Rightarrow> eviction_candidate list \<Rightarrow> metadata_cache \<Rightarrow>
       metadata_cache \<times> candidate_eviction_result" where
  "try_evict_candidates_detailed busy candidates mc =
     (let (m, result) = foldl (evict_one busy)
            (mc_entries mc, \<lparr> cer_removed = 0, cer_busy = [], cer_refreshed = [] \<rparr>) candidates;
          mc' = mc\<lparr>mc_entries := m\<rparr>
      in (if 0 < cer_removed result then mark_dirty mc' else mc', result))"

definition try_evict_candidates ::
    "(npath \<Rightarrow> bool) \<Rightarrow> eviction_candidate list \<Rightarrow> metadata_cache \<Rightarrow> metadata_cache \<times> nat" where
  "try_evict_candidates busy candidates mc =
     (let (mc', result) = try_evict_candidates_detailed busy candidates mc in (mc', cer_removed result))"

text \<open>The blocking variant waits for the shard, so no candidate is ever busy.\<close>

definition evict_candidates_detailed ::
    "eviction_candidate list \<Rightarrow> metadata_cache \<Rightarrow> metadata_cache \<times> candidate_eviction_result" where
  "evict_candidates_detailed candidates mc =
     try_evict_candidates_detailed (\<lambda>_. False) candidates mc"

definition evict_candidates :: "eviction_candidate list \<Rightarrow> metadata_cache \<Rightarrow> metadata_cache \<times> nat" where
  "evict_candidates candidates mc =
     (let (mc', result) = evict_candidates_detailed candidates mc in (mc', cer_removed result))"

definition evict_oldest :: "nat \<Rightarrow> metadata_cache \<Rightarrow> metadata_cache \<times> nat" where
  "evict_oldest cnt mc = evict_candidates (oldest_eviction_candidates cnt mc) mc"

subsection \<open>Runs of the cache\<close>

datatype mc_op =
    Insert npath file_metadata
  | Downgrade npath
  | DowngradeAll
  | Remove npath
  | ClearAll
  | Merge metadata_cache
  | Lookup "string \<Rightarrow> content_hash" env nat npath
  | Rescan env nat
  | Trim instant nat
  | Evict "npath \<Rightarrow> bool" "eviction_candidate list"

fun mc_step :: "metadata_cache \<Rightarrow> mc_op \<Rightarrow> metadata_cache" where
  "mc_step mc (Insert p m) = mc_insert p m mc"
| "mc_step mc (Downgrade p) = mc_downgrade p mc"
| "mc_step mc DowngradeAll = mc_downgrade_all mc"
| "mc_step mc (Remove p) = mc_remove p mc"
| "mc_step mc ClearAll = mc_clear mc"
| "mc_step mc (Merge other) = mc_merge_from other mc"
| "mc_step mc (Lookup h env t p) = fst (lookup_normalized h env t p mc)"
| "mc_step mc (Rescan env t) = fst (rescan_all env t mc)"
| "mc_step mc (Trim now age) = fst (mc_trim now age mc)"
| "mc_step mc (Evict busy cs) = fst (try_evict_candidates_detailed busy cs mc)"

fun is_merge :: "mc_op \<Rightarrow> bool" where
  "is_merge (Merge _) = True"
| "is_merge _ = False"

text \<open>
  A file system whose stamps can be trusted for \<open>p\<close> by a comparison with the given tolerance: stamps
  the comparison accepts as the same come with the same contents, a stamp that is the same at both
  ends of a window was the same throughout, the size is the length, and a read between two equal
  stamps delivers the content.  A larger tolerance asks for more; tolerance zero is the exact
  comparison.
\<close>

definition names_path :: "env \<Rightarrow> npath \<Rightarrow> nat \<Rightarrow> bool" where
  "names_path env p i \<longleftrightarrow> (\<exists>t. os_resolve (env t) p = Inr i \<or> os_open (env t) p = Inr i)"

definition honest_stamps :: "nat \<Rightarrow> env \<Rightarrow> npath \<Rightarrow> bool" where
  "honest_stamps tol env p \<longleftrightarrow>
     (\<forall>t t' i i' m m' s. names_path env p i \<longrightarrow> names_path env p i' \<longrightarrow>
        os_attr (env t) i = Inr (m, s) \<longrightarrow> os_attr (env t') i' = Inr (m', s) \<longrightarrow> mtimes_match tol m m' \<longrightarrow>
        os_content (env t) i = os_content (env t') i') \<and>
     (\<forall>t1 t2 t3 i i' a. names_path env p i \<longrightarrow> names_path env p i' \<longrightarrow> t1 \<le> t2 \<longrightarrow> t2 \<le> t3 \<longrightarrow>
        os_attr (env t1) i = Inr a \<longrightarrow> os_attr (env t3) i' = Inr a \<longrightarrow> os_attr (env t2) i = Inr a) \<and>
     (\<forall>t i m s. os_attr (env t) i = Inr (m, s) \<longrightarrow> s = length (os_content (env t) i)) \<and>
     (\<forall>t1 t2 t3 i i' a. names_path env p i \<longrightarrow> names_path env p i' \<longrightarrow> t1 < t2 \<longrightarrow> t2 < t3 \<longrightarrow>
        os_attr (env t1) i = Inr a \<longrightarrow> os_attr (env t3) i' = Inr a \<longrightarrow>
        os_delivers (env t2) i = os_content (env t2) i)"

text \<open>A hash is right for a stamp: whenever the file carries a matching stamp, it has that digest.\<close>

definition stamp_sound ::
    "nat \<Rightarrow> (string \<Rightarrow> content_hash) \<Rightarrow> env \<Rightarrow> npath \<Rightarrow> systime \<times> nat \<Rightarrow> content_hash \<Rightarrow> bool" where
  "stamp_sound tol h env p a hash \<longleftrightarrow>
     (\<forall>t i m. names_path env p i \<longrightarrow> os_attr (env t) i = Inr (m, snd a) \<longrightarrow> mtimes_match tol (fst a) m \<longrightarrow>
        hash = h (os_content (env t) i))"

definition entry_sound :: "nat \<Rightarrow> (string \<Rightarrow> content_hash) \<Rightarrow> env \<Rightarrow> npath \<Rightarrow> file_metadata \<Rightarrow> bool" where
  "entry_sound tol h env p e \<longleftrightarrow>
     (\<forall>hash. fm_content_hash e = Some hash \<longrightarrow> stamp_sound tol h env p (fm_mtime e, fm_size e) hash)"

definition cache_sound :: "nat \<Rightarrow> (string \<Rightarrow> content_hash) \<Rightarrow> env \<Rightarrow> metadata_cache \<Rightarrow> bool" where
  "cache_sound tol h env mc \<longleftrightarrow>
     (\<forall>p e. dm_get (mc_entries mc) p = Some e \<longrightarrow> fm_confidence e \<noteq> Low \<longrightarrow> entry_sound tol h env p e)"

text \<open>
  The file behind \<open>p\<close> does not keep still from call \<open>t\<close> on: in each of the four attempts to read it,
  the stamp of the opened file and the stamp of the path after the read differ.
\<close>

definition stamp_moves :: "env \<Rightarrow> npath \<Rightarrow> nat \<Rightarrow> bool" where
  "stamp_moves env p t \<longleftrightarrow>
     (\<exists>i j. os_open (env t) p = Inr i \<and> os_resolve (env (t + 3)) p = Inr j \<and>
        os_attr (env (t + 1)) i \<noteq> os_attr (env (t + 3)) j)"

definition restless :: "env \<Rightarrow> npath \<Rightarrow> nat \<Rightarrow> bool" where
  "restless env p t \<longleftrightarrow> (\<forall>k < 4. stamp_moves env p (t + 4 * k))"

text \<open>
  The hash of what the file behind \<open>p\<close> contained at some moment between \<open>t\<close> and \<open>n\<close>, or, for a file
  that moved during all four attempts, of what the first read delivered.
\<close>

definition observed ::
    "(string \<Rightarrow> content_hash) \<Rightarrow> env \<Rightarrow> npath \<Rightarrow> nat \<Rightarrow> nat \<Rightarrow> content_hash \<Rightarrow> bool" where
  "observed h env p t n hash \<longleftrightarrow>
     (\<exists>v u i. t \<le> v \<and> v \<le> u \<and> u \<le> n \<and> (os_resolve (env v) p = Inr i \<or> os_open (env v) p = Inr i) \<and>
        hash = h (os_content (env u) i)) \<or>
     (\<exists>u i. t \<le> u \<and> u + 2 \<le> n \<and> os_open (env u) p = Inr i \<and> restless env p u \<and>
        hash = h (os_delivers (env (u + 2)) i))"

subsection \<open>Facts about single operations\<close>

lemma mark_dirty_fields [simp]:
  "mc_entries (mark_dirty mc) = mc_entries mc" "mc_dirty (mark_dirty mc)"
  "mc_high_decay (mark_dirty mc) = mc_high_decay mc" "mc_medium_decay (mark_dirty mc) = mc_medium_decay mc"
  by (simp_all add: mark_dirty_def)

lemma mc_insert_fields [simp]:
  "mc_entries (mc_insert p m mc) = dm_insert p m (mc_entries mc)" "mc_dirty (mc_insert p m mc)"
  by (simp_all add: mc_insert_def)

lemma dm_wf_insert_pairs [simp]:
  "dm_wf m \<Longrightarrow> dm_wf (foldl (\<lambda>m (k, v). dm_insert k v m) m kvs)"
  by (induction kvs arbitrary: m) auto

lemma apply_promotions_wf: "dm_wf m \<Longrightarrow> dm_wf (fst (apply_promotions env t rs m))"
  by (induction env t rs m rule: apply_promotions.induct)
     (auto split: option.splits prod.splits)

lemma evict_run_wf: "dm_wf (fst acc) \<Longrightarrow> dm_wf (fst (foldl (evict_one busy) acc cs))"
  by (induction cs arbitrary: acc)
     (auto simp: evict_one_def Let_def split: prod.splits option.splits if_splits)

lemma snapshotE:
  assumes "hash_file_snapshot h env t p = Inr (pre, hash, post)"
  obtains i j where "os_open (env t) p = Inr i"
    and "os_attr (env (t + 1)) i = Inr (fm_mtime pre, fm_size pre)"
    and "hash_open_file h (env (t + 2)) i (fm_size pre) = Inr hash"
    and "os_resolve (env (t + 3)) p = Inr j"
    and "os_attr (env (t + 3)) j = Inr (fm_mtime post, fm_size post)"
proof -
  from assms obtain i where i: "os_open (env t) p = Inr i"
    by (auto simp: hash_file_snapshot_def split: sum.splits)
  with assms obtain a where a: "os_attr (env (t + 1)) i = Inr a"
    by (cases "os_attr (env (t + 1)) i") (auto simp: hash_file_snapshot_def)
  note r = assms [unfolded hash_file_snapshot_def i a sum.case Let_def]
  from r obtain hh where hh: "hash_open_file h (env (t + 2)) i (snd a) = Inr hh"
    by (cases "hash_open_file h (env (t + 2)) i (snd a)") (auto simp: metadata_from_fs_def)
  with r obtain po where po: "stat_file (env (t + 3)) p = Inr po"
    by (cases "stat_file (env (t + 3)) p") (auto simp: metadata_from_fs_def)
  from r hh po have eq: "pre = metadata_from_fs a (os_instant (env (t + 1)))" "hash = hh" "post = po"
    by (auto simp: metadata_from_fs_def)
  from po obtain j where j: "os_resolve (env (t + 3)) p = Inr j"
      "os_attr (env (t + 3)) j = Inr (fm_mtime po, fm_size po)"
    by (auto simp: stat_file_def os_stat_def metadata_from_fs_def split: sum.splits)
  show thesis
    by (rule that [of i j]) (use i a hh j eq in \<open>auto simp: metadata_from_fs_def\<close>)
qed

lemma unstable_moves:
  assumes "hash_file_snapshot h env t p = Inr (pre, hash, post)" and "\<not> same_stamp pre post"
  shows "stamp_moves env p t"
  by (rule snapshotE [OF assms(1)]) (use assms(2) in \<open>auto simp: stamp_moves_def same_stamp_def\<close>)

lemma retry_snapshot_unstable: "retry_snapshot h env n t p = Inr None \<Longrightarrow> k < n \<Longrightarrow> stamp_moves env p (t + 4 * k)"
proof (induction n arbitrary: t k)
  case (Suc n)
  then obtain pre hh po where s: "hash_file_snapshot h env t p = Inr (pre, hh, po)" "\<not> same_stamp pre po"
    and r: "retry_snapshot h env n (t + 4) p = Inr None"
    by (auto split: sum.splits if_splits)
  show ?case
  proof (cases k)
    case 0
    with unstable_moves [OF s] show ?thesis by simp
  next
    case (Suc j)
    with Suc.IH [OF r, of j] Suc.prems(2) show ?thesis by (simp add: algebra_simps)
  qed
qed simp

lemma retry_snapshot_stable:
  "retry_snapshot h env n t p = Inr (Some (hash, post)) \<Longrightarrow>
     \<exists>t' pre. t \<le> t' \<and> t' + 4 \<le> t + 4 * n \<and> hash_file_snapshot h env t' p = Inr (pre, hash, post) \<and> same_stamp pre post"
proof (induction n arbitrary: t)
  case (Suc n)
  from Suc.prems obtain pre hh po where s: "hash_file_snapshot h env t p = Inr (pre, hh, po)"
    by (auto split: sum.splits)
  show ?case
  proof (cases "same_stamp pre po")
    case True
    with Suc.prems s show ?thesis by auto
  next
    case False
    with Suc.prems s have "retry_snapshot h env n (t + 4) p = Inr (Some (hash, post))" by simp
    from Suc.IH [OF this] obtain t' pre' where "t + 4 \<le> t'" "t' + 4 \<le> t + 4 + 4 * n"
      "hash_file_snapshot h env t' p = Inr (pre', hash, post)" "same_stamp pre' post" by auto
    then show ?thesis by (intro exI [of _ t'] exI [of _ pre']) simp
  qed
qed simp

text \<open>
  What hashing a file leaves behind: an error and an untouched cache, or a new entry holding the
  returned hash, which stems from a stable snapshot, or from the first one of a file that moved
  during all four and is marked low.
\<close>

definition hashed_entry ::
    "(string \<Rightarrow> content_hash) \<Rightarrow> env \<Rightarrow> nat \<Rightarrow> npath \<Rightarrow> file_metadata \<Rightarrow> content_hash \<Rightarrow> bool" where
  "hashed_entry h env t p m hash \<longleftrightarrow> fm_content_hash m = Some hash \<and>
     (\<exists>t' pre post. t \<le> t' \<and> t' \<le> t + 12 \<and> hash_file_snapshot h env t' p = Inr (pre, hash, post) \<and>
        (fm_confidence m = Low \<and> t' = t \<and> restless env p t \<or> same_stamp pre post \<and> same_stamp m post))"

lemma hash_and_insert_outcome:
  "(\<exists>e. hash_and_insert h env t p mc = (mc, Inl e)) \<or>
   (\<exists>m hash. hash_and_insert h env t p mc = (mc_insert p m mc, Inr hash) \<and> hashed_entry h env t p m hash)"
proof (cases "hash_file_snapshot h env t p")
  case (Inl e)
  then show ?thesis by (simp add: hash_and_insert_def)
next
  case (Inr r)
  obtain pre hash post where r: "r = (pre, hash, post)" by (cases r)
  note snap = Inr [unfolded r]
  show ?thesis
  proof (cases "same_stamp pre post")
    case True
    have "hashed_entry h env t p (post\<lparr>fm_content_hash := Some hash\<rparr>) hash"
      using snap True unfolding hashed_entry_def same_stamp_def
      by (intro conjI exI [of _ t] exI [of _ pre] exI [of _ post]) auto
    with True snap show ?thesis by (simp add: hash_and_insert_def) blast
  next
    case False
    show ?thesis
    proof (cases "retry_snapshot h env 3 (t + 4) p")
      case (Inl e)
      with False snap show ?thesis by (simp add: hash_and_insert_def)
    next
      case ret: (Inr x)
      show ?thesis
      proof (cases x)
        case None
        have "stamp_moves env p (t + 4 * k)" if "k < 4" for k
          using unstable_moves [OF snap False] retry_snapshot_unstable [of h env 3 "t + 4" p "k - 1"] that ret None
          by (cases k) (simp_all add: add.assoc)
        with snap have "hashed_entry h env t p (m\<lparr>fm_confidence := Low, fm_content_hash := Some hash\<rparr>) hash" for m
          by (auto simp: hashed_entry_def restless_def)
        with False snap ret None show ?thesis
          by (cases "stat_file (env (t + 16)) p") (simp_all add: hash_and_insert_def, blast)
      next
        case (Some y)
        obtain hh post' where y: "y = (hh, post')" by (cases y)
        from retry_snapshot_stable [of h env 3 "t + 4" p hh post'] ret Some y
        obtain t' pre' where t': "t + 4 \<le> t'" "t' \<le> t + 12" "hash_file_snapshot h env t' p = Inr (pre', hh, post')"
          "same_stamp pre' post'" by auto
        have "hashed_entry h env t p (post'\<lparr>fm_content_hash := Some hh\<rparr>) hh"
          using t' unfolding hashed_entry_def same_stamp_def
          by (intro conjI exI [of _ t'] exI [of _ pre'] exI [of _ post']) auto
        with False snap ret Some y show ?thesis by (simp add: hash_and_insert_def) blast
      qed
    qed
  qed
qed

lemma hash_and_insert_state:
  "fst (hash_and_insert h env t p mc) = mc \<or> (\<exists>m. fst (hash_and_insert h env t p mc) = mc_insert p m mc)"
  using hash_and_insert_outcome [of h env t p mc] by auto

lemma lookup_state:
  "fst (lookup_normalized h env t p mc) = mc \<or>
   (\<exists>m. fst (lookup_normalized h env t p mc) = mc_insert p m mc) \<or>
   fst (lookup_normalized h env t p mc) = mc_remove p mc"
  using hash_and_insert_state [of h env t p mc] hash_and_insert_state [of h env "t + 1" p mc]
  by (auto simp: lookup_normalized_def split: sum.splits option.splits
        zc_error.splits io_error.splits)

definition mc_wf :: "metadata_cache \<Rightarrow> bool" where
  "mc_wf mc \<longleftrightarrow> dm_wf (mc_entries mc)"

lemma mc_wf_new [keeps]: "mc_wf metadata_new"
  by (simp add: mc_wf_def metadata_new_def)

lemma mc_wf_step [keeps]: "mc_wf mc \<Longrightarrow> mc_wf (mc_step mc x)"
proof (cases x)
  case (Lookup h env t p)
  assume "mc_wf mc"
  then show ?thesis unfolding Lookup
    using lookup_state [of h env t p mc] by (auto simp: mc_wf_def mc_remove_def)
qed (auto simp: mc_wf_def mc_downgrade_def mc_downgrade_all_def mc_remove_def mc_clear_def
      mc_merge_from_def rescan_all_def mc_trim_def try_evict_candidates_detailed_def Let_def
      case_prod_beta apply_promotions_wf evict_run_wf split: option.splits)

interpretation mcrun: op_machine metadata_new mc_step mc_wf
  by unfold_locales (auto intro: keeps)

subsection \<open>Soundness of the returned hashes\<close>

lemma mtimes_match_refl [simp]: "mtimes_match tol m m"
  by (simp add: mtimes_match_def)

lemma mtimes_match_exact [simp]: "mtimes_match 0 m m' \<longleftrightarrow> m = m'"
  by (simp add: mtimes_match_def)

lemma honest_content:
  "honest_stamps tol env p \<Longrightarrow> names_path env p i \<Longrightarrow> names_path env p i' \<Longrightarrow>
     os_attr (env t) i = Inr (m, s) \<Longrightarrow> os_attr (env t') i' = Inr (m', s) \<Longrightarrow> mtimes_match tol m m' \<Longrightarrow>
     os_content (env t) i = os_content (env t') i'"
  by (drule honest_stamps_def [THEN iffD1], drule conjunct1, elim allE impE, assumption+)

lemma honest_window:
  "honest_stamps tol env p \<Longrightarrow> names_path env p i \<Longrightarrow> names_path env p i' \<Longrightarrow> t1 \<le> t2 \<Longrightarrow> t2 \<le> t3 \<Longrightarrow>
     os_attr (env t1) i = Inr a \<Longrightarrow> os_attr (env t3) i' = Inr a \<Longrightarrow> os_attr (env t2) i = Inr a"
  by (drule honest_stamps_def [THEN iffD1], drule conjunct2, drule conjunct1, elim allE impE, assumption+)

lemma honest_size:
  "honest_stamps tol env p \<Longrightarrow> os_attr (env t) i = Inr (m, s) \<Longrightarrow> s = length (os_content (env t) i)"
  by (drule honest_stamps_def [THEN iffD1], drule conjunct2, drule conjunct2, drule conjunct1, elim allE impE, assumption+)

lemma honest_read:
  "honest_stamps tol env p \<Longrightarrow> names_path env p i \<Longrightarrow> names_path env p i' \<Longrightarrow> t1 < t2 \<Longrightarrow> t2 < t3 \<Longrightarrow>
     os_attr (env t1) i = Inr a \<Longrightarrow> os_attr (env t3) i' = Inr a \<Longrightarrow> os_delivers (env t2) i = os_content (env t2) i"
  by (drule honest_stamps_def [THEN iffD1], drule conjunct2, drule conjunct2, drule conjunct2, elim allE impE, assumption+)

lemma observedI:
  assumes "t \<le> v" and "v \<le> u" and "u \<le> n" and "os_resolve (env v) p = Inr i \<or> os_open (env v) p = Inr i"
    and "hash = h (os_content (env u) i)"
  shows "observed h env p t n hash"
  unfolding observed_def using assms by blast

lemma restless_observed:
  "t \<le> u \<Longrightarrow> u + 2 \<le> n \<Longrightarrow> os_open (env u) p = Inr i \<Longrightarrow> restless env p u \<Longrightarrow>
     observed h env p t n (h (os_delivers (env (u + 2)) i))"
  unfolding observed_def by blast

lemma observedE:
  assumes "observed h env p t n hash"
  obtains v u i where "t \<le> v" and "v \<le> u" and "u \<le> n" and "os_resolve (env v) p = Inr i \<or> os_open (env v) p = Inr i"
      and "hash = h (os_content (env u) i)"
    | u i where "t \<le> u" and "u + 2 \<le> n" and "os_open (env u) p = Inr i" and "restless env p u"
      and "hash = h (os_delivers (env (u + 2)) i)"
  using assms unfolding observed_def by blast

lemma observed_mono:
  assumes "observed h env p t n hash" and "t' \<le> t" and "n \<le> n'"
  shows "observed h env p t' n' hash"
  using assms(1)
proof (cases rule: observedE)
  case (1 v u i)
  with assms(2,3) show ?thesis by (intro observedI [where v = v and u = u and i = i]) simp_all
next
  case (2 u i)
  with assms(2,3) show ?thesis using restless_observed [of t' u n' env p i h] by simp
qed

text \<open>The digest taken in a snapshot: of the empty content, or of what the read delivered.\<close>

lemma snapshot_hash:
  assumes "honest_stamps tol env p" and "os_attr (env (t + 1)) i = Inr (m, s)"
    and "hash_open_file h (env (t + 2)) i s = Inr hash"
  obtains "hash = h (os_content (env (t + 1)) i)" | "hash = h (os_delivers (env (t + 2)) i)"
  using honest_size [OF assms(1,2)] assms(3)
  by (cases "s = 0") (auto simp: hash_open_file_def os_read_def split: option.splits)

text \<open>In a stable snapshot it is that of the opened file at some moment of the snapshot.\<close>

lemma stable_snapshot:
  assumes hon: "honest_stamps tol env p" and snap: "hash_file_snapshot h env t p = Inr (pre, hash, post)"
    and st: "same_stamp pre post"
  obtains i u where "os_open (env t) p = Inr i" and "t < u" and "u \<le> t + 2" and "hash = h (os_content (env u) i)"
    and "os_attr (env u) i = Inr (fm_mtime post, fm_size post)"
proof (rule snapshotE [OF snap])
  fix i j
  assume o: "os_open (env t) p = Inr i"
    and a: "os_attr (env (t + 1)) i = Inr (fm_mtime pre, fm_size pre)"
    and hh: "hash_open_file h (env (t + 2)) i (fm_size pre) = Inr hash"
    and r: "os_resolve (env (t + 3)) p = Inr j"
    and b: "os_attr (env (t + 3)) j = Inr (fm_mtime post, fm_size post)"
  have n: "names_path env p i" "names_path env p j" using o r by (auto simp: names_path_def)
  have a': "os_attr (env (t + 1)) i = Inr (fm_mtime post, fm_size post)" using a st by (simp add: same_stamp_def)
  from a' honest_window [OF hon n _ _ a' b, of "t + 2"]
  have at: "os_attr (env u) i = Inr (fm_mtime post, fm_size post)" if "u \<in> {t + 1, t + 2}" for u using that by auto
  from honest_read [OF hon n _ _ a' b, of "t + 2"] have "os_delivers (env (t + 2)) i = os_content (env (t + 2)) i" by simp
  with snapshot_hash [OF hon a hh] show thesis
    using that [OF o, of "t + 1"] that [OF o, of "t + 2"] at by auto
qed

lemma snapshot_observed:
  assumes "honest_stamps tol env p" and "hash_file_snapshot h env t p = Inr (pre, hash, post)"
    and "same_stamp pre post \<or> restless env p t"
  shows "observed h env p t (t + 2) hash"
  using assms(3)
proof
  assume "same_stamp pre post"
  from stable_snapshot [OF assms(1,2) this] show ?thesis
    by (metis less_imp_le observedI order_refl)
next
  assume r: "restless env p t"
  show ?thesis
  proof (rule snapshotE [OF assms(2)])
    fix i
    assume o: "os_open (env t) p = Inr i"
      and a: "os_attr (env (t + 1)) i = Inr (fm_mtime pre, fm_size pre)"
      and hh: "hash_open_file h (env (t + 2)) i (fm_size pre) = Inr hash"
    show ?thesis
    proof (rule snapshot_hash [OF assms(1) a hh])
      assume "hash = h (os_content (env (t + 1)) i)"
      with o show ?thesis by (intro observedI [where v = t and u = "t + 1"]) simp_all
    next
      assume "hash = h (os_delivers (env (t + 2)) i)"
      with restless_observed [OF order_refl order_refl o r] show ?thesis by simp
    qed
  qed
qed

text \<open>A stable snapshot yields a hash that is right for its stamp.\<close>

lemma snapshot_stamp_sound:
  assumes hon: "honest_stamps tol env p" and snap: "hash_file_snapshot h env t p = Inr (pre, hash, post)"
    and st: "same_stamp pre post"
  shows "stamp_sound tol h env p (fm_mtime post, fm_size post) hash"
proof (rule stable_snapshot [OF hon snap st])
  fix i u
  assume "os_open (env t) p = Inr i" and hash: "hash = h (os_content (env u) i)"
    and mid: "os_attr (env u) i = Inr (fm_mtime post, fm_size post)"
  then have "names_path env p i" by (auto simp: names_path_def)
  from honest_content [OF hon this _ mid] show ?thesis
    unfolding stamp_sound_def hash by auto
qed

lemma hashed_entry_sound:
  assumes "honest_stamps tol env p" and "hashed_entry h env t p m hash"
  shows "observed h env p t (t + 14) hash" and "fm_confidence m \<noteq> Low \<Longrightarrow> entry_sound tol h env p m"
proof -
  from assms(2) obtain t' pre post where h: "fm_content_hash m = Some hash" "t \<le> t'" "t' \<le> t + 12"
    and s: "hash_file_snapshot h env t' p = Inr (pre, hash, post)"
    and st: "fm_confidence m = Low \<and> t' = t \<and> restless env p t \<or> same_stamp pre post \<and> same_stamp m post"
    by (auto simp: hashed_entry_def)
  have "observed h env p t' (t' + 2) hash" using snapshot_observed [OF assms(1) s] st by blast
  from observed_mono [OF this h(2)] h(3) show "observed h env p t (t + 14) hash" by simp
  assume "fm_confidence m \<noteq> Low"
  with st snapshot_stamp_sound [OF assms(1) s] h(1) show "entry_sound tol h env p m"
    by (auto simp: entry_sound_def same_stamp_def)
qed

lemma cache_sound_insert:
  "cache_sound tol h env mc \<Longrightarrow> (fm_confidence m \<noteq> Low \<Longrightarrow> entry_sound tol h env p m) \<Longrightarrow>
     cache_sound tol h env (mc_insert p m mc)"
  by (auto simp: cache_sound_def)

lemma cache_sound_fewer:
  "cache_sound tol h env mc \<Longrightarrow> (\<And>p e. dm_get (mc_entries mc') p = Some e \<Longrightarrow> fm_confidence e \<noteq> Low \<Longrightarrow>
     dm_get (mc_entries mc) p = Some e) \<Longrightarrow> cache_sound tol h env mc'"
  by (auto simp: cache_sound_def)

lemma hash_and_insert_sound:
  assumes "honest_stamps tol env p" and "cache_sound tol h env mc"
  shows "cache_sound tol h env (fst (hash_and_insert h env t p mc)) \<and>
    (\<forall>hash. snd (hash_and_insert h env t p mc) = Inr hash \<longrightarrow> observed h env p t (t + 14) hash)"
  using hash_and_insert_outcome [of h env t p mc]
proof (elim disjE exE conjE)
  fix e assume "hash_and_insert h env t p mc = (mc, Inl e)"
  with assms(2) show ?thesis by simp
next
  fix m hash
  assume e: "hash_and_insert h env t p mc = (mc_insert p m mc, Inr hash)"
    and h: "hashed_entry h env t p m hash"
  note sound = hashed_entry_sound [OF assms(1) h]
  from cache_sound_insert [OF assms(2) sound(2)] sound(1) e show ?thesis by simp
qed

lemma decayed_low: "fm_confidence e = Low \<Longrightarrow> decayed_confidence mc now e = Low"
  by (simp add: decayed_confidence_def Let_def)

lemma mc_get_trusted:
  assumes "mc_get mc now p = Some e" and "fm_confidence e \<noteq> Low"
  obtains e' where "dm_get (mc_entries mc) p = Some e'" and "fm_confidence e' \<noteq> Low"
    and "same_stamp e e'" and "fm_content_hash e = fm_content_hash e'"
  using assms by (fastforce simp: mc_get_def same_stamp_def dest: decayed_low)

lemma trusted_hit:
  assumes snd: "cache_sound tol h env mc" and e: "mc_get mc now p = Some e" "fm_confidence e \<noteq> Low"
    and hash: "fm_content_hash e = Some hash"
  shows "stamp_sound tol h env p (fm_mtime e, fm_size e) hash"
proof (rule mc_get_trusted [OF e])
  fix e'
  assume "dm_get (mc_entries mc) p = Some e'" "fm_confidence e' \<noteq> Low" "same_stamp e e'"
    "fm_content_hash e = fm_content_hash e'"
  with snd hash show ?thesis by (auto simp: cache_sound_def entry_sound_def same_stamp_def)
qed

lemma stamp_sound_observed:
  assumes "stamp_sound tol h env p (m, s) hash" and "os_stat (env t) p = Inr (m', s)" and "mtimes_match tol m m'"
  shows "observed h env p t t hash"
proof -
  from assms(2) obtain i where i: "os_resolve (env t) p = Inr i" "os_attr (env t) i = Inr (m', s)"
    by (auto simp: os_stat_def split: sum.splits)
  then have "names_path env p i" by (auto simp: names_path_def)
  with assms(1,3) i show ?thesis
    by (intro observedI [where v = t and u = t and i = i]) (auto simp: stamp_sound_def)
qed

text \<open>A low entry is never served and a stale one is re-hashed: both fall through to hashing.\<close>

lemma lookup_branches:
  "(\<exists>t' \<in> {t, t + 1}. lookup_normalized h env t p mc = hash_and_insert h env t' p mc) \<or>
   lookup_normalized h env t p mc = (mc_remove p mc, Inl (FileNotFound p)) \<or>
   (\<exists>e. lookup_normalized h env t p mc = (mc, Inl e)) \<or>
   (\<exists>e hash. mc_get mc (os_instant (env t)) p = Some e \<and> fm_confidence e \<noteq> Low \<and>
      fm_content_hash e = Some hash \<and> os_stat (env t) p = Inr (fm_mtime e, fm_size e) \<and>
      lookup_normalized h env t p mc =
        (mc_insert p (e\<lparr>fm_confidence := High, fm_last_verified := os_instant (env t)\<rparr>) mc, Inr hash))"
proof (cases "mc_get mc (os_instant (env t)) p")
  case None
  then show ?thesis by (auto simp: lookup_normalized_def)
next
  case (Some e)
  show ?thesis
  proof (cases "os_stat (env t) p")
    case (Inl x)
    with Some show ?thesis
      by (cases x) (auto simp: lookup_normalized_def stat_file_def)
  next
    case (Inr a)
    show ?thesis
    proof (cases "same_stamp e (metadata_from_fs a (os_instant (env t))) \<and> fm_confidence e \<noteq> Low")
      case True
      then have a: "a = (fm_mtime e, fm_size e)"
        by (cases a) (simp add: same_stamp_def metadata_from_fs_def)
      show ?thesis
      proof (cases "fm_content_hash e")
        case None
        with Some Inr True show ?thesis by (simp add: lookup_normalized_def stat_file_def)
      next
        case hash: (Some hash)
        with Some Inr True a show ?thesis by (simp add: lookup_normalized_def stat_file_def)
      qed
    next
      case False
      have "lookup_normalized h env t p mc = hash_and_insert h env (t + 1) p mc"
        unfolding lookup_normalized_def Some option.case stat_file_def Inr sum.case
        by (rule if_not_P [OF False])
      then show ?thesis by simp
    qed
  qed
qed

lemma lookup_sound_lemma:
  assumes hon: "honest_stamps tol env p" and snd: "cache_sound tol h env mc"
  shows "cache_sound tol h env (fst (lookup_normalized h env t p mc)) \<and>
    (\<forall>hash. snd (lookup_normalized h env t p mc) = Inr hash \<longrightarrow> observed h env p t (t + 15) hash)"
  using lookup_branches [of t h env p mc]
proof (elim disjE exE conjE bexE)
  fix t' assume "t' \<in> {t, t + 1}" and "lookup_normalized h env t p mc = hash_and_insert h env t' p mc"
  with hash_and_insert_sound [OF hon snd, of t'] observed_mono [where t = t' and n = "t' + 14" and n' = "t + 15"]
  show ?thesis by auto
next
  assume "lookup_normalized h env t p mc = (mc_remove p mc, Inl (FileNotFound p))"
  moreover have "cache_sound tol h env (mc_remove p mc)"
    by (rule cache_sound_fewer [OF snd]) (auto simp: mc_remove_def split: if_splits)
  ultimately show ?thesis by simp
next
  fix e assume "lookup_normalized h env t p mc = (mc, Inl e)"
  with snd show ?thesis by simp
next
  fix e hash
  assume e: "mc_get mc (os_instant (env t)) p = Some e" "fm_confidence e \<noteq> Low"
    "fm_content_hash e = Some hash" "os_stat (env t) p = Inr (fm_mtime e, fm_size e)"
    and l: "lookup_normalized h env t p mc =
        (mc_insert p (e\<lparr>fm_confidence := High, fm_last_verified := os_instant (env t)\<rparr>) mc, Inr hash)"
  note ss = trusted_hit [OF snd e(1,2,3)]
  have "entry_sound tol h env p (e\<lparr>fm_confidence := High, fm_last_verified := os_instant (env t)\<rparr>)"
    using ss e(3) by (simp add: entry_sound_def)
  with snd observed_mono [OF stamp_sound_observed [OF ss e(4) mtimes_match_refl], of t "t + 15"] show ?thesis by (simp add: l cache_sound_insert)
qed

text \<open>
  The operations a running cache performs against one file system, the operator-supplied entries
  (\<open>Insert\<close>, \<open>Merge\<close>) and the overflow rescan left out.
\<close>

fun served_by :: "(string \<Rightarrow> content_hash) \<Rightarrow> env \<Rightarrow> mc_op \<Rightarrow> bool" where
  "served_by h env (Lookup h' env' t p) \<longleftrightarrow> h' = h \<and> env' = env"
| "served_by h env (Insert p m) \<longleftrightarrow> False"
| "served_by h env (Merge mc) \<longleftrightarrow> False"
| "served_by h env (Rescan env' t) \<longleftrightarrow> False"
| "served_by h env op \<longleftrightarrow> True"

lemma evict_run_get:
  "dm_get (fst (foldl (evict_one busy) acc cs)) p =
     (case dm_get (fst acc) p of
        None \<Rightarrow> None
      | Some e \<Rightarrow>
          if \<not> busy p \<and> \<lparr>ec_path = p, ec_last_verified = fm_last_verified e\<rparr> \<in> set cs then None else Some e)"
proof (induction cs arbitrary: acc)
  case (Cons c cs)
  obtain m r where acc: "acc = (m, r)" by (cases acc)
  obtain q l where c: "c = \<lparr>ec_path = q, ec_last_verified = l\<rparr>" by (cases c) auto
  have one: "dm_get (fst (evict_one busy (m, r) c)) p =
      (case dm_get m p of None \<Rightarrow> None
       | Some e \<Rightarrow> if \<not> busy p \<and> p = q \<and> fm_last_verified e = l then None else Some e)"
    by (auto simp: evict_one_def c split: option.splits)
  show ?case
    unfolding acc using Cons.IH [of "evict_one busy (m, r) c"] one by (auto simp: c split: option.splits)
qed (simp split: option.split)

lemma cache_sound_step:
  assumes "\<forall>p. honest_stamps tol env p" and "served_by h env x" and "mc_wf mc" and "cache_sound tol h env mc"
  shows "cache_sound tol h env (mc_step mc x)"
proof (cases x)
  case (Lookup h' env' t p)
  with assms lookup_sound_lemma [of tol env p h mc t] show ?thesis by simp
next
  case (Downgrade p)
  show ?thesis unfolding Downgrade
    by (rule cache_sound_fewer [OF assms(4)]) (auto simp: mc_downgrade_def split: option.splits if_splits)
next
  case DowngradeAll
  show ?thesis unfolding DowngradeAll
    by (rule cache_sound_fewer [OF assms(4)]) (auto simp: mc_downgrade_all_def Let_def split: if_splits)
next
  case (Remove p)
  show ?thesis unfolding Remove
    by (rule cache_sound_fewer [OF assms(4)]) (auto simp: mc_remove_def split: if_splits)
next
  case ClearAll
  show ?thesis unfolding ClearAll by (simp add: mc_clear_def cache_sound_def)
next
  case (Trim now age)
  show ?thesis unfolding Trim
    by (rule cache_sound_fewer [OF assms(4)])
       (use assms(3) in \<open>auto simp: mc_trim_def mc_wf_def Let_def dm_get_retain split: option.splits if_splits\<close>)
next
  case (Evict busy cs)
  show ?thesis unfolding Evict
    by (rule cache_sound_fewer [OF assms(4)])
       (auto simp: try_evict_candidates_detailed_def case_prod_beta Let_def evict_run_get
         split: option.splits if_splits)
qed (use assms in auto)

lemma cache_sound_run:
  assumes "\<forall>p. honest_stamps tol env p"
  shows "list_all (served_by h env) ops \<Longrightarrow> mc_wf mc \<Longrightarrow> cache_sound tol h env mc \<Longrightarrow>
     cache_sound tol h env (foldl mc_step mc ops)"
  by (induction ops arbitrary: mc) (auto intro: cache_sound_step [OF assms] mc_wf_step)

lemma fast_path_observed:
  assumes "cache_sound tol h env mc"
    and "get_cached_hash_if_stat_valid tol (env t) mc p = Some hash"
  shows "observed h env p t t hash"
proof -
  from assms(2) obtain e m where e: "dm_get (mc_entries mc) p = Some e" "fm_confidence e \<noteq> Low"
      "fm_content_hash e = Some hash" "os_stat (env t) p = Inr (m, fm_size e)"
      "mtimes_match tol (fm_mtime e) m"
    by (auto simp: get_cached_hash_if_stat_valid_def split: option.splits if_splits sum.splits prod.splits)
  with assms(1) have "stamp_sound tol h env p (fm_mtime e, fm_size e) hash" by (auto simp: cache_sound_def entry_sound_def)
  from stamp_sound_observed [OF this e(4,5)] show ?thesis .
qed

subsection \<open>Dirty tracking\<close>

lemma dm_retain_same: "length m \<le> length (dm_retain P m) \<Longrightarrow> dm_retain P m = m"
  unfolding dm_retain_def by (metis filter_id_conv le_antisym length_filter_le length_filter_less
      linorder_not_le)

lemma apply_promotions_none: "snd (apply_promotions env t rs m) = 0 \<Longrightarrow> fst (apply_promotions env t rs m) = m"
  by (induction env t rs m rule: apply_promotions.induct)
     (auto split: option.splits prod.splits if_splits)

lemma evict_run_count:
  "cer_removed (snd acc) \<le> cer_removed (snd (foldl (evict_one busy) acc cs)) \<and>
   (cer_removed (snd (foldl (evict_one busy) acc cs)) = cer_removed (snd acc) \<longrightarrow>
      fst (foldl (evict_one busy) acc cs) = fst acc)"
proof (induction cs arbitrary: acc)
  case (Cons c cs)
  have "cer_removed (snd acc) \<le> cer_removed (snd (evict_one busy acc c)) \<and>
      (cer_removed (snd (evict_one busy acc c)) = cer_removed (snd acc) \<longrightarrow> fst (evict_one busy acc c) = fst acc)"
    by (auto simp: evict_one_def case_prod_beta Let_def split: option.splits)
  with Cons.IH [of "evict_one busy acc c"] show ?case by auto
qed simp

lemma dirty_step:
  assumes "\<not> is_merge x"
  shows "mc_dirty (mc_step mc x) \<or> (mc_dirty (mc_step mc x) = mc_dirty mc \<and> mc_entries (mc_step mc x) = mc_entries mc)"
proof (cases x)
  case (Lookup h env t p)
  then show ?thesis using lookup_state [of h env t p mc] by (auto simp: mc_remove_def split: if_splits)
next
  case (Trim now age)
  then show ?thesis
    using dm_retain_same [of "mc_entries mc" "\<lambda>_ e. \<not> age < now - fm_last_verified e"]
    by (auto simp: mc_trim_def Let_def)
next
  case (Rescan env t)
  then show ?thesis
    using apply_promotions_none [of env "t + length (low_keys mc)" "stat_all env t (low_keys mc)" "mc_entries mc"]
    by (auto simp: rescan_all_def Let_def case_prod_beta)
next
  case (Evict busy cs)
  then show ?thesis
    using evict_run_count [of "(mc_entries mc, \<lparr>cer_removed = 0, cer_busy = [], cer_refreshed = []\<rparr>)" busy cs]
    by (auto simp: try_evict_candidates_detailed_def Let_def case_prod_beta)
qed (use assms in \<open>auto simp: mc_downgrade_def mc_downgrade_all_def mc_remove_def mc_clear_def dm_map_def Let_def
       split: option.splits\<close>)

lemma dirty_run:
  "list_all (\<lambda>x. \<not> is_merge x) ops \<Longrightarrow>
     mc_dirty (foldl mc_step mc ops) \<or>
     (mc_dirty (foldl mc_step mc ops) = mc_dirty mc \<and> mc_entries (foldl mc_step mc ops) = mc_entries mc)"
proof (induction ops arbitrary: mc)
  case (Cons x ops)
  then have x: "\<not> is_merge x" and rest: "list_all (\<lambda>x. \<not> is_merge x) ops" by simp_all
  show ?case using dirty_step [OF x, of mc] Cons.IH [OF rest, of "mc_step mc x"] by auto
qed simp

subsection \<open>Least recently verified first\<close>

abbreviation candidate_of :: "npath \<times> file_metadata \<Rightarrow> eviction_candidate" where
  "candidate_of pe \<equiv> \<lparr> ec_path = fst pe, ec_last_verified = fm_last_verified (snd pe) \<rparr>"

lemma sorted_take_drop_le:
  "sorted (map f xs) \<Longrightarrow> x \<in> set (take n xs) \<Longrightarrow> y \<in> set (drop n xs) \<Longrightarrow> f x \<le> f y"
  using sorted_append [of "map f (take n xs)" "map f (drop n xs)"]
  by (simp flip: map_append)

lemma not_taken_dropped: "x \<in> set xs \<Longrightarrow> x \<notin> set (take n xs) \<Longrightarrow> x \<in> set (drop n xs)"
  by (metis Un_iff append_take_drop_id set_append)

lemma oldest_split:
  fixes mc
  defines "all \<equiv> sort_key ec_last_verified (map candidate_of (mc_entries mc))"
  shows "oldest_eviction_candidates n mc = take n all" and "set all = candidate_of ` set (mc_entries mc)"
    and "sorted (map ec_last_verified all)"
proof -
  have "map (\<lambda>(p, e). \<lparr>ec_path = p, ec_last_verified = fm_last_verified e\<rparr>) (mc_entries mc) =
      map candidate_of (mc_entries mc)"
    by (rule map_cong) auto
  then show "oldest_eviction_candidates n mc = take n all"
    unfolding oldest_eviction_candidates_def all_def by (simp only:) simp
qed (simp_all add: all_def)

lemma evict_oldest_entries:
  "dm_get (mc_entries (fst (evict_oldest n mc))) p =
     (case dm_get (mc_entries mc) p of
        None \<Rightarrow> None
      | Some e \<Rightarrow> if candidate_of (p, e) \<in> set (oldest_eviction_candidates n mc) then None else Some e)"
  by (simp add: evict_oldest_def evict_candidates_def evict_candidates_detailed_def
        try_evict_candidates_detailed_def case_prod_beta Let_def evict_run_get split: option.splits)

lemma evict_oldest_order:
  assumes wf: "dm_wf (mc_entries mc)"
    and gone: "dm_get (mc_entries mc) p = Some e" "dm_get (mc_entries (fst (evict_oldest n mc))) p = None"
    and kept: "dm_get (mc_entries (fst (evict_oldest n mc))) q = Some e'"
  shows "fm_last_verified e \<le> fm_last_verified e'"
proof -
  let ?all = "sort_key ec_last_verified (map candidate_of (mc_entries mc))"
  note sp = oldest_split(1) [where mc = mc and n = n] oldest_split(2,3) [where mc = mc]
  from gone have 1: "candidate_of (p, e) \<in> set (take n ?all)"
    by (auto simp: evict_oldest_entries sp(1) split: if_splits)
  from kept have q: "dm_get (mc_entries mc) q = Some e'"
    and out: "candidate_of (q, e') \<notin> set (take n ?all)"
    by (auto simp: evict_oldest_entries sp(1) split: option.splits if_splits)
  from q have "candidate_of (q, e') \<in> set ?all"
    unfolding sp(2) by (intro imageI map_of_SomeD)
  from not_taken_dropped [OF this out] have "candidate_of (q, e') \<in> set (drop n ?all)" .
  from sorted_take_drop_le [OF sp(3) 1 this] show ?thesis by simp
qed

lemma dm_keys_remove_length:
  "dm_wf m \<Longrightarrow> dm_get m p = Some e \<Longrightarrow> Suc (length (dm_remove p m)) = length m"
proof (induction m)
  case (Cons a m)
  show ?case
  proof (cases "fst a = p")
    case True
    with Cons.prems have "p \<notin> fst ` set m" by (auto simp: dm_wf_def)
    then have "AList.delete p m = m" by (simp add: delete_idem)
    with True show ?thesis by (cases a) (simp add: dm_remove_def)
  next
    case False
    with Cons show ?thesis by (cases a) (auto simp: dm_remove_def dm_wf_def)
  qed
qed simp

lemma evict_run_removed:
  assumes "dm_wf (fst acc)" and "distinct (map ec_path cs)"
    and "\<forall>c \<in> set cs. \<exists>e. dm_get (fst acc) (ec_path c) = Some e \<and> fm_last_verified e = ec_last_verified c"
  shows "cer_removed (snd (foldl (evict_one (\<lambda>_. False)) acc cs)) = cer_removed (snd acc) + length cs \<and>
    length (fst (foldl (evict_one (\<lambda>_. False)) acc cs)) + length cs = length (fst acc)"
  using assms
proof (induction cs arbitrary: acc)
  case (Cons c cs)
  from Cons.prems(3) obtain e where e: "dm_get (fst acc) (ec_path c) = Some e"
    "fm_last_verified e = ec_last_verified c" by auto
  have step: "evict_one (\<lambda>_. False) acc c =
      (dm_remove (ec_path c) (fst acc), (snd acc)\<lparr>cer_removed := cer_removed (snd acc) + 1\<rparr>)"
    using e by (simp add: evict_one_def case_prod_beta)
  have rest: "\<forall>c' \<in> set cs. \<exists>e. dm_get (fst (evict_one (\<lambda>_. False) acc c)) (ec_path c') = Some e \<and>
      fm_last_verified e = ec_last_verified c'"
    using Cons.prems(2,3) unfolding step by (force simp: image_iff)
  from Cons.IH [OF _ _ rest] Cons.prems(1,2) dm_keys_remove_length [OF Cons.prems(1) e(1)]
  show ?case by (simp add: step)
qed simp

lemma evict_oldest_count:
  assumes "dm_wf (mc_entries mc)"
  shows "snd (evict_oldest n mc) = min n (mc_len mc) \<and>
    mc_len (fst (evict_oldest n mc)) = mc_len mc - n"
proof -
  let ?cs = "oldest_eviction_candidates n mc"
  note sp = oldest_split(1) [where mc = mc and n = n] oldest_split(2,3) [where mc = mc]
  have "mset (map ec_path (sort_key ec_last_verified (map candidate_of (mc_entries mc)))) =
      mset (map fst (mc_entries mc))"
    by (simp add: multiset.map_comp comp_def)
  then have "distinct (map ec_path (sort_key ec_last_verified (map candidate_of (mc_entries mc))))"
    using assms unfolding dm_wf_def by (metis mset_eq_imp_distinct_iff)
  then have 1: "distinct (map ec_path ?cs)"
    unfolding sp(1) by (metis distinct_take take_map)
  have 2: "\<forall>c \<in> set ?cs. \<exists>e. dm_get (mc_entries mc) (ec_path c) = Some e \<and> fm_last_verified e = ec_last_verified c"
  proof
    fix c assume "c \<in> set ?cs"
    then have "c \<in> candidate_of ` set (mc_entries mc)"
      using sp(2) unfolding sp(1) by (metis in_set_takeD)
    then show "\<exists>e. dm_get (mc_entries mc) (ec_path c) = Some e \<and> fm_last_verified e = ec_last_verified c"
      using assms by (auto simp: dm_in_set_iff)
  qed
  have len: "length ?cs = min n (length (mc_entries mc))" by (simp add: sp(1))
  show ?thesis
    using evict_run_removed [of "(mc_entries mc, \<lparr>cer_removed = 0, cer_busy = [], cer_refreshed = []\<rparr>)" ?cs]
      assms 1 2 len
    by (auto simp: evict_oldest_def evict_candidates_def evict_candidates_detailed_def mc_len_def
          try_evict_candidates_detailed_def case_prod_beta Let_def)
qed

subsection \<open>Properties of the metadata cache\<close>

text \<open>
  C10. In every run of lookups, downgrades, removals, trims, clears and evictions (entries inserted or
  merged from outside and the overflow rescan apart) on a file system whose stamps are honest under
  the exact comparison, a hash returned by a lookup is the digest of the content the file had at
  some moment of that lookup, no earlier than its first system call and no later than its last; only
  for a file whose stamp moved during all four attempts to read it may it instead be the digest of
  the bytes the first read delivered.
\<close>

theorem lookup_sound:
  assumes "\<forall>p. honest_stamps 0 env p" and "list_all (served_by h env) ops"
    and "snd (lookup_normalized h env t p (foldl mc_step metadata_new ops)) = Inr hash"
  shows "observed h env p t (t + 15) hash"
proof -
  have "cache_sound 0 h env (foldl mc_step metadata_new ops)"
    by (rule cache_sound_run [OF assms(1,2) mc_wf_new]) (simp add: cache_sound_def metadata_new_def)
  with lookup_sound_lemma [of 0 env p h] assms(1,3) show ?thesis by blast
qed

text \<open>A file system on which nothing moves, and one where a file is being rewritten until call 16.\<close>

definition still_os :: os_state where
  "still_os = \<lparr> os_resolve = (\<lambda>p. Inr 0), os_open = (\<lambda>p. Inr 0), os_attr = (\<lambda>i. Inr (5, 1)),
     os_content = (\<lambda>i. ''a''), os_delivers = (\<lambda>i. ''a''), os_unreadable = (\<lambda>i. None), os_instant = 7 \<rparr>"

definition racing_env :: env where
  "racing_env t =
     \<lparr> os_resolve = (\<lambda>p. Inr 0), os_open = (\<lambda>p. Inr 0), os_attr = (\<lambda>i. Inr (1 + int (min t 16), 1)),
       os_content = (\<lambda>i. if t \<le> 3 then ''a'' else if t < 16 then ''c'' else ''b''),
       os_delivers = (\<lambda>i. if t \<le> 3 then ''a'' else if t < 16 then ''c'' else ''b''),
       os_unreadable = (\<lambda>i. None), os_instant = t \<rparr>"

lemma still_honest: "honest_stamps tol (\<lambda>t. still_os) p"
  by (auto simp: honest_stamps_def still_os_def)

lemma whole_second_match: "0 < a \<Longrightarrow> a < 1000000000 \<Longrightarrow> 0 < b \<Longrightarrow> b < 1000000000 \<Longrightarrow> mtimes_match tol a b \<Longrightarrow> a = b"
  by (auto simp: mtimes_match_def mtime_components_def split: if_splits)

lemma racing_honest: "honest_stamps tol racing_env p"
proof -
  have "min t 16 = min t' 16" if "mtimes_match tol (1 + int (min t 16)) (1 + int (min t' 16))" for t t'
    using whole_second_match [OF _ _ _ _ that] by (simp add: min_def split: if_splits)
  then have "os_content (racing_env t) i = os_content (racing_env t') i'"
    if "os_attr (racing_env t) i = Inr (m, s)" "os_attr (racing_env t') i' = Inr (m', s)" "mtimes_match tol m m'" for t t' i i' m m' s
    using that by (fastforce simp: racing_env_def min_def split: if_splits)
  moreover have "os_attr (racing_env t2) i = Inr a"
    if "t1 \<le> t2" "t2 \<le> t3" "os_attr (racing_env t1) i = Inr a" "os_attr (racing_env t3) i' = Inr a" for t1 t2 t3 i i' a
    using that by (auto simp: racing_env_def min_def split: if_splits)
  moreover have "s = length (os_content (racing_env t) i)" if "os_attr (racing_env t) i = Inr (m, s)" for t i m s
    using that by (simp add: racing_env_def split: if_splits)
  moreover have "os_delivers (racing_env t) i = os_content (racing_env t) i" for t i by (simp add: racing_env_def)
  ultimately show ?thesis unfolding honest_stamps_def by blast
qed

theorem lookup_sound_witness:
  "snd (lookup_normalized (\<lambda>c. c) (\<lambda>t. still_os) 9 ''/f''
      (foldl mc_step metadata_new [Lookup (\<lambda>c. c) (\<lambda>t. still_os) 0 ''/f'', DowngradeAll])) = Inr ''a'' \<and>
   observed (\<lambda>c. c) (\<lambda>t. still_os) ''/f'' 9 24 ''a''"
proof -
  have r: "snd (lookup_normalized (\<lambda>c. c) (\<lambda>t. still_os) 9 ''/f''
      (foldl mc_step metadata_new [Lookup (\<lambda>c. c) (\<lambda>t. still_os) 0 ''/f'', DowngradeAll])) = Inr ''a''"
    by (simp add: lookup_normalized_def mc_get_def metadata_new_def hash_and_insert_def
        hash_file_snapshot_def still_os_def metadata_from_fs_def hash_open_file_def os_read_def
        stat_file_def os_stat_def same_stamp_def mc_downgrade_all_def Let_def mark_dirty_def
        decayed_confidence_def)
  have "observed (\<lambda>c. c) (\<lambda>t. still_os) ''/f'' 9 (9 + 15) ''a''"
    by (rule lookup_sound [OF _ _ r]) (simp_all add: still_honest)
  with r show ?thesis by simp
qed

text \<open>
  C34. The overflow rescan trusts more than it checks: a file that was being rewritten during its
  first lookup is stored at low confidence with the hash of the first, unstable read next to the
  stamp of the final stat; when the stamp then stands still, the rescan promotes the entry to high
  and the next lookup serves the hash of content the file no longer has, although every stamp the
  file system reported was honest under every tolerance.
\<close>

theorem rescan_trusts_unstable_hash:
  "let mc = fst (lookup_normalized h racing_env 0 ''/f'' metadata_new);
       mc' = fst (rescan_all racing_env 20 mc)
   in (\<forall>p. honest_stamps tol racing_env p) \<and>
    map_option fm_confidence (dm_get (mc_entries mc) ''/f'') = Some Low \<and>
    snd (lookup_normalized h racing_env 30 ''/f'' mc) = Inr (h ''b'') \<and>
    snd (rescan_all racing_env 20 mc) = 1 \<and>
    snd (lookup_normalized h racing_env 30 ''/f'' mc') = Inr (h ''a'') \<and>
    os_content (racing_env 30) 0 = ''b''"
proof -
  have snap: "hash_file_snapshot h racing_env t ''/f'' = Inr
      (metadata_from_fs (1 + int (min (t + 1) 16), 1) (t + 1),
       h (if t + 2 \<le> 3 then ''a'' else if t + 2 < 16 then ''c'' else ''b''),
       metadata_from_fs (1 + int (min (t + 3) 16), 1) (t + 3))" for t
    by (simp add: hash_file_snapshot_def racing_env_def hash_open_file_def os_read_def stat_file_def
        os_stat_def metadata_from_fs_def)
  have stat: "stat_file (racing_env t) ''/f'' = Inr (metadata_from_fs (1 + int (min t 16), 1) t)" for t
    by (simp add: racing_env_def stat_file_def os_stat_def)
  have stamp: "same_stamp (metadata_from_fs a x) (metadata_from_fs b y) \<longleftrightarrow> a = b" for a b x y
    by (cases a; cases b) (simp add: same_stamp_def metadata_from_fs_def)
  have mc: "fst (lookup_normalized h racing_env 0 ''/f'' metadata_new) = mc_insert ''/f'' \<lparr>fm_mtime = 17, fm_size = 1, fm_confidence = Low,
      fm_last_verified = 16, fm_content_hash = Some (h ''a'')\<rparr> metadata_new"
    by (simp add: lookup_normalized_def mc_get_def metadata_new_def hash_and_insert_def snap stat
        stamp numeral_3_eq_3) (simp add: metadata_from_fs_def)
  have res: "rescan_all racing_env 20 (mc_insert ''/f'' \<lparr>fm_mtime = 17, fm_size = 1,
      fm_confidence = Low, fm_last_verified = 16, fm_content_hash = Some (h ''a'')\<rparr> metadata_new) = (mc_insert ''/f'' \<lparr>fm_mtime = 17, fm_size = 1,
      fm_confidence = High, fm_last_verified = 21, fm_content_hash = Some (h ''a'')\<rparr> metadata_new, 1)"
    by (simp add: rescan_all_def low_keys_def metadata_new_def dm_insert_def mc_insert_def
        mark_dirty_def metadata_from_fs_def racing_env_def stat_file_def os_stat_def Let_def)
  have hon: "All (honest_stamps tol racing_env)" by (rule allI) (rule racing_honest)
  show ?thesis
    unfolding mc Let_def res
    by (rule conjI [OF hon], simp add: lookup_normalized_def mc_get_def hash_and_insert_def
        snap stat stamp decayed_confidence_def metadata_new_def)
       (simp add: same_stamp_def metadata_from_fs_def racing_env_def mc_insert_def mark_dirty_def)
qed

text \<open>
  Eviction by candidates removes an entry exactly when its shard is free and it still carries
  the timestamp the candidate was sampled with: an entry refreshed in between, or busy, survives,
  and no other entry is touched.
\<close>

theorem eviction_exact:
  "dm_get (mc_entries (fst (try_evict_candidates_detailed busy cs mc))) p =
     (case dm_get (mc_entries mc) p of
        None \<Rightarrow> None
      | Some e \<Rightarrow>
          if \<not> busy p \<and> \<lparr>ec_path = p, ec_last_verified = fm_last_verified e\<rparr> \<in> set cs then None else Some e)"
  by (simp add: try_evict_candidates_detailed_def case_prod_beta Let_def evict_run_get split: option.splits)

text \<open>
  C26. Evicting the \<open>n\<close> oldest entries removes exactly \<open>min n len\<close> of them, and no entry that
  survives was verified before one that was removed.
\<close>

theorem evict_oldest_lru:
  assumes "mc_wf mc"
  shows "snd (evict_oldest n mc) = min n (mc_len mc) \<and>
    mc_len (fst (evict_oldest n mc)) = mc_len mc - n \<and>
    {(fm_last_verified e, fm_last_verified e') |p e q e'.
       dm_get (mc_entries mc) p = Some e \<and> dm_get (mc_entries (fst (evict_oldest n mc))) p = None \<and>
       dm_get (mc_entries (fst (evict_oldest n mc))) q = Some e'} \<subseteq> {(x, y). x \<le> y}"
  using evict_oldest_count [of mc n] evict_oldest_order [of mc _ _ n] assms
  by (auto simp: mc_wf_def)

theorem evict_oldest_lru_witness:
  "let e = (\<lambda>t. metadata_from_fs (5, 1) t);
       mc = mc_insert ''/a'' (e 9) (mc_insert ''/b'' (e 3) metadata_new)
   in snd (evict_oldest 1 mc) = 1 \<and> dm_get (mc_entries (fst (evict_oldest 1 mc))) ''/b'' = None"
proof -
  let ?mc = "mc_insert ''/a'' (metadata_from_fs (5, 1) 9)
      (mc_insert ''/b'' (metadata_from_fs (5, 1) 3) metadata_new)"
  have wf: "mc_wf ?mc" by (simp add: mc_wf_def metadata_new_def)
  have len: "mc_len ?mc = 2" by (simp add: mc_len_def metadata_new_def dm_insert_def)
  have b: "dm_get (mc_entries (fst (evict_oldest 1 ?mc))) ''/b'' = None"
    by (simp add: evict_oldest_entries oldest_eviction_candidates_def metadata_new_def dm_insert_def
        metadata_from_fs_def)
  show ?thesis unfolding Let_def using evict_oldest_lru [OF wf, of 1] b by (simp only: len) simp
qed

text \<open>
  The dirty flag misses no change: unless a snapshot is merged in, any sequence of operations
  leaves the flag set or the entries exactly as they were, and never clears it.
\<close>

theorem dirty_tracks_changes:
  assumes "list_all (\<lambda>x. \<not> is_merge x) ops"
  shows "is_dirty (foldl mc_step mc ops) \<or>
    \<not> is_dirty mc \<and> mc_entries (foldl mc_step mc ops) = mc_entries mc"
  using dirty_run [OF assms, of mc] by (auto simp: is_dirty_def)

theorem dirty_tracks_changes_witness:
  "mc_entries (foldl mc_step metadata_new [Insert ''/a'' (metadata_from_fs (5, 1) 9)]) \<noteq> mc_entries metadata_new \<and>
   is_dirty (foldl mc_step metadata_new [Insert ''/a'' (metadata_from_fs (5, 1) 9)])"
proof -
  have ne: "mc_entries (foldl mc_step metadata_new [Insert ''/a'' (metadata_from_fs (5, 1) 9)]) \<noteq>
      mc_entries metadata_new"
    by (simp add: metadata_new_def dm_insert_def)
  have "list_all (\<lambda>x. \<not> is_merge x) [Insert ''/a'' (metadata_from_fs (5, 1) 9)]" by simp
  from dirty_tracks_changes [OF this, of metadata_new] ne show ?thesis by blast
qed

text \<open>
  For modification times from 1970 on, the comparison is the documented one: equal, or closer
  than the tolerance with one of the two on a whole second.
\<close>

theorem mtimes_match_spec:
  assumes "0 \<le> a" and "0 \<le> b"
  shows "mtimes_match tol a b \<longleftrightarrow>
    a = b \<or> \<bar>a - b\<bar> < int tol \<and> (a mod 1000000000 = 0 \<or> b mod 1000000000 = 0)"
proof -
  have ns: "nat (t div 1000000000) * 1000000000 + nat (t mod 1000000000) = nat t"
    if "0 \<le> t" for t :: int
  proof -
    have "int (nat (t div 1000000000) * 1000000000 + nat (t mod 1000000000)) = int (nat t)"
      using that by (simp add: pos_imp_zdiv_nonneg_iff)
    then show ?thesis by (simp only: of_nat_eq_iff)
  qed
  have ad: "int (abs_diff (nat a) (nat b)) = \<bar>a - b\<bar>"
    using assms by (simp add: abs_diff_def)
  have nz: "nat (t mod 1000000000) = 0 \<longleftrightarrow> t mod 1000000000 = 0" for t :: int
    using pos_mod_sign [of 1000000000 t] by auto
  have "mtimes_match tol a b \<longleftrightarrow> a = b \<or> tol \<noteq> 0 \<and>
      (a mod 1000000000 = 0 \<or> b mod 1000000000 = 0) \<and> abs_diff (nat a) (nat b) < tol"
    using assms by (simp only: mtimes_match_def mtime_components_def Let_def prod.case if_True ns nz) auto
  also have "abs_diff (nat a) (nat b) < tol \<longleftrightarrow> \<bar>a - b\<bar> < int tol"
    unfolding ad [symmetric] by simp
  finally show ?thesis by auto
qed

theorem mtimes_match_spec_witness:
  "mtimes_match DEFAULT_MTIME_TOLERANCE_NS 7000000000 7000000123"
  using mtimes_match_spec [of 7000000000 7000000123 DEFAULT_MTIME_TOLERANCE_NS]
  by (simp add: DEFAULT_MTIME_TOLERANCE_NS_def)

text \<open>
  Two modification times before 1970 match under every non-zero tolerance, however far apart
  they are: both are read as the epoch itself.
\<close>

theorem pre_epoch_mtimes_match:
  "{(tol, a, b). 0 < tol \<and> a < 0 \<and> b < 0} \<subseteq> {(tol, a, b). mtimes_match tol a b}"
proof clarify
  fix tol :: nat and a b :: systime
  assume "0 < tol" and "a < 0" and "b < 0"
  then have "mtime_components a = (0, 0)" and "mtime_components b = (0, 0)"
    by (simp_all add: mtime_components_def)
  with \<open>0 < tol\<close> show "mtimes_match tol a b" by (simp add: mtimes_match_def abs_diff_def)
qed

text \<open>
  With any tolerance, the hash handed out by the stat-only fast path is the digest of the
  content the file has at the moment of that stat.
\<close>

theorem stat_valid_hash_sound:
  assumes "cache_sound tol h env mc"
    and "get_cached_hash_if_stat_valid tol (env t) mc p = Some hash"
  shows "observed h env p t t hash"
  using assms by (rule fast_path_observed)

theorem stat_valid_hash_sound_witness:
  "observed (\<lambda>c. c) (\<lambda>t. still_os) ''/f'' 4 4 ''a''"
proof (rule stat_valid_hash_sound)
  show "cache_sound 0 (\<lambda>c. c) (\<lambda>t. still_os)
      (mc_insert ''/f'' ((metadata_from_fs (5, 1) 7)\<lparr>fm_content_hash := Some ''a''\<rparr>) metadata_new)"
    by (simp add: cache_sound_def entry_sound_def stamp_sound_def metadata_new_def still_os_def)
  show "get_cached_hash_if_stat_valid 0 still_os
      (mc_insert ''/f'' ((metadata_from_fs (5, 1) 7)\<lparr>fm_content_hash := Some ''a''\<rparr>) metadata_new) ''/f'' = Some ''a''"
    by (simp add: get_cached_hash_if_stat_valid_def metadata_from_fs_def still_os_def os_stat_def mtimes_match_def)
qed

end
