(* ===== verification/CacheSystem.thy ===== *)
theory CacheSystem
  imports Paths Metadata
begin

text \<open>
  The cache system (\<^verbatim>\<open>crates/zccache-fscache/src/cache_system.rs\<close>): the metadata cache
  and the change journal behind one interface, with the clock-aware lookup the daemon uses.  The
  asynchronous wrappers run the same operations on a worker thread behind a semaphore; only the
  size of that semaphore is modelled.
\<close>

subsection \<open>State and operations\<close>

record clock_lookup =
  cl_hash :: content_hash
  cl_clock :: clock

record cache_system =
  cs_metadata :: metadata_cache
  cs_journal :: change_journal

definition cache_system_new :: cache_system where
  "cache_system_new = \<lparr> cs_metadata = metadata_new, cs_journal = journal_new \<rparr>"

definition with_metadata :: "metadata_cache \<Rightarrow> cache_system" where
  "with_metadata metadata = \<lparr> cs_metadata = metadata, cs_journal = journal_new \<rparr>"

definition cs_current_clock :: "cache_system \<Rightarrow> clock" where
  "cs_current_clock cs = current_clock (cs_journal cs)"

definition mc_lookup ::
    "(string \<Rightarrow> content_hash) \<Rightarrow> env \<Rightarrow> nat \<Rightarrow> string \<Rightarrow> metadata_cache \<Rightarrow>
       metadata_cache \<times> (zc_error + content_hash)" where
  "mc_lookup h env t path mc = lookup_normalized h env t (Paths.normalize path) mc"

text \<open>The stat of the fast path is the system call \<open>t\<close>; the slow path starts at \<open>t + 1\<close>.\<close>

definition lookup_since ::
    "nat \<Rightarrow> (string \<Rightarrow> content_hash) \<Rightarrow> env \<Rightarrow> nat \<Rightarrow> npath \<Rightarrow> clock \<Rightarrow> cache_system \<Rightarrow>
       cache_system \<times> (zc_error + clock_lookup)" where
  "lookup_since tolerance_ns h env t path since_clock cs =
     (let clock = current_clock (cs_journal cs);
          fast = (if \<not> changed_since (cs_journal cs) path since_clock
                  then get_cached_hash_if_stat_valid tolerance_ns (env t) (cs_metadata cs) path else None)
      in case fast of
           Some hash \<Rightarrow> (cs, Inr \<lparr> cl_hash = hash, cl_clock = clock \<rparr>)
         | None \<Rightarrow>
             (case mc_lookup h env (t + 1) path (cs_metadata cs) of
                (mc, Inl e) \<Rightarrow> (cs\<lparr>cs_metadata := mc\<rparr>, Inl e)
              | (mc, Inr hash) \<Rightarrow>
                  (cs\<lparr>cs_metadata := mc\<rparr>,
                   Inr \<lparr> cl_hash = hash, cl_clock = current_clock (cs_journal cs) \<rparr>)))"

definition apply_changes :: "npath list \<Rightarrow> cache_system \<Rightarrow> cache_system \<times> clock" where
  "apply_changes changed_paths cs =
     (let mc = foldl (\<lambda>mc path. mc_downgrade path mc) (cs_metadata cs) changed_paths;
          (j, clock) = advance changed_paths (cs_journal cs)
      in (\<lparr> cs_metadata = mc, cs_journal = j \<rparr>, clock))"

definition apply_changes_with_removals ::
    "npath list \<Rightarrow> npath list \<Rightarrow> cache_system \<Rightarrow> cache_system \<times> clock" where
  "apply_changes_with_removals changed removed cs =
     (let mc = foldl (\<lambda>mc path. mc_downgrade path mc) (cs_metadata cs) changed;
          mc' = foldl (\<lambda>mc path. mc_remove path mc) mc removed;
          all_paths = changed @ removed;
          (j, clock) = advance all_paths (cs_journal cs)
      in (\<lparr> cs_metadata = mc', cs_journal = j \<rparr>, clock))"

definition apply_overflow :: "cache_system \<Rightarrow> cache_system \<times> clock" where
  "apply_overflow cs =
     (let (j, clock) = mark_overflow (cs_journal cs)
      in (\<lparr> cs_metadata = mc_downgrade_all (cs_metadata cs), cs_journal = j \<rparr>, clock))"

definition rescan_entries :: "env \<Rightarrow> nat \<Rightarrow> cache_system \<Rightarrow> cache_system \<times> nat" where
  "rescan_entries env t cs =
     (let (mc, promoted) = rescan_all env t (cs_metadata cs) in (cs\<lparr>cs_metadata := mc\<rparr>, promoted))"

definition cs_clear :: "cache_system \<Rightarrow> cache_system \<times> clock" where
  "cs_clear cs =
     (let (j, clock) = journal_clear (cs_journal cs)
      in (\<lparr> cs_metadata = mc_clear (cs_metadata cs), cs_journal = j \<rparr>, clock))"

definition cleanup_journal :: "cache_system \<Rightarrow> cache_system \<times> nat" where
  "cleanup_journal cs =
     (let live = set (mc_paths (cs_metadata cs));
          (j, removed) = retain_paths live (cs_journal cs)
      in (cs\<lparr>cs_journal := j\<rparr>, removed))"

definition cs_trim :: "instant \<Rightarrow> nat \<Rightarrow> cache_system \<Rightarrow> cache_system \<times> nat \<times> nat" where
  "cs_trim now max_age cs =
     (let (mc, meta_removed) = mc_trim now max_age (cs_metadata cs);
          (cs', journal_removed) = cleanup_journal (cs\<lparr>cs_metadata := mc\<rparr>)
      in (cs', meta_removed, journal_removed))"

definition cs_evict_oldest :: "nat \<Rightarrow> cache_system \<Rightarrow> cache_system \<times> nat \<times> nat" where
  "cs_evict_oldest cnt cs =
     (let (mc, meta_removed) = evict_oldest cnt (cs_metadata cs);
          (cs', journal_removed) = cleanup_journal (cs\<lparr>cs_metadata := mc\<rparr>)
      in (cs', meta_removed, journal_removed))"

definition cs_evict_candidates_detailed ::
    "eviction_candidate list \<Rightarrow> cache_system \<Rightarrow> cache_system \<times> candidate_eviction_result \<times> nat" where
  "cs_evict_candidates_detailed candidates cs =
     (let (mc, result) = evict_candidates_detailed candidates (cs_metadata cs);
          (cs', journal_removed) = cleanup_journal (cs\<lparr>cs_metadata := mc\<rparr>)
      in (cs', result, journal_removed))"

definition cs_evict_candidates :: "eviction_candidate list \<Rightarrow> cache_system \<Rightarrow> cache_system \<times> nat \<times> nat" where
  "cs_evict_candidates candidates cs =
     (let (cs', result, journal_removed) = cs_evict_candidates_detailed candidates cs
      in (cs', cer_removed result, journal_removed))"

definition cs_try_evict_candidates_detailed ::
    "(npath \<Rightarrow> bool) \<Rightarrow> eviction_candidate list \<Rightarrow> cache_system \<Rightarrow>
       cache_system \<times> candidate_eviction_result" where
  "cs_try_evict_candidates_detailed busy candidates cs =
     (let (mc, result) = try_evict_candidates_detailed busy candidates (cs_metadata cs)
      in (cs\<lparr>cs_metadata := mc\<rparr>, result))"

definition cs_try_evict_candidates ::
    "(npath \<Rightarrow> bool) \<Rightarrow> eviction_candidate list \<Rightarrow> cache_system \<Rightarrow> cache_system \<times> nat \<times> nat" where
  "cs_try_evict_candidates busy candidates cs =
     (let (cs', result) = cs_try_evict_candidates_detailed busy candidates cs
      in (cs', cer_removed result, 0))"

definition register_tracked :: "npath list \<Rightarrow> cache_system \<Rightarrow> cache_system" where
  "register_tracked paths cs =
     cs\<lparr>cs_journal := foldl (\<lambda>j path. journal_register path j) (cs_journal cs) paths\<rparr>"

subsection \<open>The hashing gate\<close>

definition HASH_SEMAPHORE_UNLIMITED :: nat where
  "HASH_SEMAPHORE_UNLIMITED = (2 ^ 64 - 1) div 2 ^ 4"

definition usize_saturating_mul :: "nat \<Rightarrow> nat \<Rightarrow> nat" where
  "usize_saturating_mul a b = min (a * b) (2 ^ 64 - 1)"

definition clamp :: "nat \<Rightarrow> nat \<Rightarrow> nat \<Rightarrow> nat" where
  "clamp lo hi n = (if n < lo then lo else if hi < n then hi else n)"

definition default_hash_workers :: "nat option \<Rightarrow> nat" where
  "default_hash_workers available =
     (let parallelism = (case available of Some n \<Rightarrow> n | None \<Rightarrow> 8)
      in clamp 128 1024 (usize_saturating_mul parallelism 16))"

definition resolve_hash_workers :: "nat option \<Rightarrow> string option \<Rightarrow> nat" where
  "resolve_hash_workers available var =
     (case var of
        None \<Rightarrow> default_hash_workers available
      | Some raw \<Rightarrow>
          (let trimmed = str_trim raw
           in if eq_ignore_ascii_case trimmed ''unlimited'' \<or> trimmed = ''0''
              then HASH_SEMAPHORE_UNLIMITED
              else (case parse_u64 trimmed of
                      Some n \<Rightarrow> if 1 \<le> n then n else default_hash_workers available
                    | None \<Rightarrow> default_hash_workers available)))"

definition daemon_max_blocking_threads :: "nat option \<Rightarrow> nat" where
  "daemon_max_blocking_threads available =
     (let parallelism = (case available of Some n \<Rightarrow> n | None \<Rightarrow> 8)
      in clamp 128 512 (usize_saturating_mul parallelism 8))"

subsection \<open>Runs\<close>

datatype cs_op =
    LookupSince nat "string \<Rightarrow> content_hash" env nat npath clock
  | ApplyChanges "npath list"
  | ApplyRemovals "npath list" "npath list"
  | ApplyOverflow
  | RescanEntries env nat
  | CsClear
  | CsTrim instant nat
  | CsEvictOldest nat
  | CsEvict "eviction_candidate list"
  | CsTryEvict "npath \<Rightarrow> bool" "eviction_candidate list"
  | CleanupJournal
  | RegisterTracked "npath list"

fun cs_step :: "cache_system \<Rightarrow> cs_op \<Rightarrow> cache_system" where
  "cs_step cs (LookupSince tol h env t p s) = fst (lookup_since tol h env t p s cs)"
| "cs_step cs (ApplyChanges ps) = fst (apply_changes ps cs)"
| "cs_step cs (ApplyRemovals ps qs) = fst (apply_changes_with_removals ps qs cs)"
| "cs_step cs ApplyOverflow = fst (apply_overflow cs)"
| "cs_step cs (RescanEntries env t) = fst (rescan_entries env t cs)"
| "cs_step cs CsClear = fst (cs_clear cs)"
| "cs_step cs (CsTrim now age) = fst (cs_trim now age cs)"
| "cs_step cs (CsEvictOldest n) = fst (cs_evict_oldest n cs)"
| "cs_step cs (CsEvict c) = fst (cs_evict_candidates c cs)"
| "cs_step cs (CsTryEvict busy c) = fst (cs_try_evict_candidates busy c cs)"
| "cs_step cs CleanupJournal = fst (cleanup_journal cs)"
| "cs_step cs (RegisterTracked ps) = register_tracked ps cs"

text \<open>What a cache-system operation does to the metadata cache, as operations of that cache.\<close>

fun mc_ops_of :: "cache_system \<Rightarrow> cs_op \<Rightarrow> mc_op list" where
  "mc_ops_of cs (LookupSince tol h env t p s) =
     (if \<not> changed_since (cs_journal cs) p s \<and>
         get_cached_hash_if_stat_valid tol (env t) (cs_metadata cs) p \<noteq> None then []
      else [Lookup h env (t + 1) (Paths.normalize p)])"
| "mc_ops_of cs (ApplyChanges ps) = map Downgrade ps"
| "mc_ops_of cs (ApplyRemovals ps qs) = map Downgrade ps @ map Remove qs"
| "mc_ops_of cs ApplyOverflow = [DowngradeAll]"
| "mc_ops_of cs (RescanEntries env t) = [Rescan env t]"
| "mc_ops_of cs CsClear = [ClearAll]"
| "mc_ops_of cs (CsTrim now age) = [Trim now age]"
| "mc_ops_of cs (CsEvictOldest n) = [Evict (\<lambda>_. False) (oldest_eviction_candidates n (cs_metadata cs))]"
| "mc_ops_of cs (CsEvict c) = [Evict (\<lambda>_. False) c]"
| "mc_ops_of cs (CsTryEvict busy c) = [Evict busy c]"
| "mc_ops_of cs CleanupJournal = []"
| "mc_ops_of cs (RegisterTracked ps) = []"

text \<open>Operations that report \<open>p\<close> as changed, and operations that do not look \<open>p\<close> up or re-promote it.\<close>

fun invalidates :: "npath \<Rightarrow> cs_op \<Rightarrow> bool" where
  "invalidates p (ApplyChanges ps) \<longleftrightarrow> p \<in> set ps"
| "invalidates p (ApplyRemovals ps qs) \<longleftrightarrow> p \<in> set ps \<or> p \<in> set qs"
| "invalidates p ApplyOverflow \<longleftrightarrow> True"
| "invalidates p CsClear \<longleftrightarrow> True"
| "invalidates p x \<longleftrightarrow> False"

fun no_reverify :: "npath \<Rightarrow> cs_op \<Rightarrow> bool" where
  "no_reverify p (LookupSince tol h env t q s) \<longleftrightarrow> Paths.normalize q \<noteq> p"
| "no_reverify p (RescanEntries env t) \<longleftrightarrow> False"
| "no_reverify p x \<longleftrightarrow> True"

text \<open>
  Operations against one file system with one tolerance (the code reads it once, its default is
  \<open>DEFAULT_MTIME_TOLERANCE_NS\<close>), the overflow rescan left out.
\<close>

fun runs_on :: "nat \<Rightarrow> (string \<Rightarrow> content_hash) \<Rightarrow> env \<Rightarrow> cs_op \<Rightarrow> bool" where
  "runs_on tol h env (LookupSince tol' h' env' t p s) \<longleftrightarrow> tol' = tol \<and> h' = h \<and> env' = env"
| "runs_on tol h env (RescanEntries env' t) \<longleftrightarrow> False"
| "runs_on tol h env x \<longleftrightarrow> True"

text \<open>What it does to the journal, as operations of the journal.\<close>

fun journal_ops_of :: "cache_system \<Rightarrow> cs_op \<Rightarrow> journal_op list" where
  "journal_ops_of cs (LookupSince tol h env t p s) = []"
| "journal_ops_of cs (ApplyChanges ps) = [Advance ps]"
| "journal_ops_of cs (ApplyRemovals ps qs) = [Advance (ps @ qs)]"
| "journal_ops_of cs ApplyOverflow = [Overflow]"
| "journal_ops_of cs (RescanEntries env t) = []"
| "journal_ops_of cs CsClear = [Clear]"
| "journal_ops_of cs (CsTrim now age) = [Retain (set (mc_paths (fst (mc_trim now age (cs_metadata cs)))))]"
| "journal_ops_of cs (CsEvictOldest n) = [Retain (set (mc_paths (fst (evict_oldest n (cs_metadata cs)))))]"
| "journal_ops_of cs (CsEvict c) =
     [Retain (set (mc_paths (fst (evict_candidates_detailed c (cs_metadata cs)))))]"
| "journal_ops_of cs (CsTryEvict busy c) = []"
| "journal_ops_of cs CleanupJournal = [Retain (set (mc_paths (cs_metadata cs)))]"
| "journal_ops_of cs (RegisterTracked ps) = map Register ps"

fun journal_trace :: "cache_system \<Rightarrow> cs_op list \<Rightarrow> journal_op list" where
  "journal_trace cs [] = []"
| "journal_trace cs (x # xs) = journal_ops_of cs x @ journal_trace (cs_step cs x) xs"

fun mc_trace :: "cache_system \<Rightarrow> cs_op list \<Rightarrow> mc_op list" where
  "mc_trace cs [] = []"
| "mc_trace cs (x # xs) = mc_ops_of cs x @ mc_trace (cs_step cs x) xs"

subsection \<open>The two components inside the system\<close>

lemma foldl_map_op: "foldl step s (map op xs) = foldl (\<lambda>s x. step s (op x)) s xs"
  by (induction xs arbitrary: s) simp_all

lemma lookup_since_metadata:
  "cs_metadata (fst (lookup_since tol h env t p s cs)) = foldl mc_step (cs_metadata cs) (mc_ops_of cs (LookupSince tol h env t p s))"
  "cs_journal (fst (lookup_since tol h env t p s cs)) = cs_journal cs"
  by (auto simp: lookup_since_def mc_lookup_def Let_def split: option.splits prod.splits sum.splits)

lemma cs_step_metadata: "cs_metadata (cs_step cs x) = foldl mc_step (cs_metadata cs) (mc_ops_of cs x)"
proof (cases x)
  case (LookupSince tol h env t p s)
  then show ?thesis by (simp only: cs_step.simps lookup_since_metadata)
qed (simp_all add: apply_changes_def apply_changes_with_removals_def apply_overflow_def rescan_entries_def
      cs_clear_def cs_trim_def cs_evict_oldest_def cs_evict_candidates_def cs_evict_candidates_detailed_def
      cs_try_evict_candidates_def cs_try_evict_candidates_detailed_def cleanup_journal_def
      register_tracked_def evict_oldest_def evict_candidates_def evict_candidates_detailed_def
      case_prod_beta Let_def foldl_map_op)

lemma cs_step_journal: "cs_journal (cs_step cs x) = foldl journal_step (cs_journal cs) (journal_ops_of cs x)"
  by (cases x)
     (simp_all add: lookup_since_metadata apply_changes_def apply_changes_with_removals_def
        apply_overflow_def rescan_entries_def
        cs_clear_def cs_trim_def cs_evict_oldest_def cs_evict_candidates_def cs_evict_candidates_detailed_def
        cs_try_evict_candidates_def cs_try_evict_candidates_detailed_def cleanup_journal_def
        register_tracked_def case_prod_beta Let_def foldl_map_op)

lemma cs_run_metadata:
  "cs_metadata (foldl cs_step cs xs) = foldl mc_step (cs_metadata cs) (mc_trace cs xs)"
  by (induction xs arbitrary: cs) (simp_all add: cs_step_metadata)

lemma cs_run_journal:
  "cs_journal (foldl cs_step cs xs) = foldl journal_step (cs_journal cs) (journal_trace cs xs)"
  by (induction xs arbitrary: cs) (simp_all add: cs_step_journal)

lemma runs_on_served:
  "list_all (runs_on tol h env) xs \<Longrightarrow> list_all (served_by h env) (mc_trace cs xs)"
proof (induction xs arbitrary: cs)
  case (Cons x xs)
  then have "list_all (served_by h env) (mc_ops_of cs x)"
    by (cases x) (auto simp: list_all_iff)
  with Cons show ?case by simp
qed simp

subsection \<open>Distrust after an invalidation\<close>

definition distrusted :: "npath \<Rightarrow> metadata_cache \<Rightarrow> bool" where
  "distrusted p mc \<longleftrightarrow> (\<forall>e. dm_get (mc_entries mc) p = Some e \<longrightarrow> fm_confidence e = Low)"

fun cannot_trust :: "npath \<Rightarrow> mc_op \<Rightarrow> bool" where
  "cannot_trust p (Insert q m) \<longleftrightarrow> q \<noteq> p"
| "cannot_trust p (Merge mc) \<longleftrightarrow> False"
| "cannot_trust p (Lookup h env t q) \<longleftrightarrow> q \<noteq> p"
| "cannot_trust p (Rescan env t) \<longleftrightarrow> False"
| "cannot_trust p x \<longleftrightarrow> True"

lemma distrusted_mc_step:
  assumes "mc_wf mc" and "distrusted p mc" and "cannot_trust p x"
  shows "distrusted p (mc_step mc x)"
proof (cases x)
  case (Lookup h env t q)
  with assms lookup_state [of h env t q mc] show ?thesis
    by (auto simp: distrusted_def mc_remove_def split: if_splits)
qed (use assms in \<open>auto simp: distrusted_def mc_wf_def mc_downgrade_def mc_downgrade_all_def mc_remove_def
      mc_clear_def mc_trim_def try_evict_candidates_detailed_def case_prod_beta Let_def evict_run_get
      dm_get_retain split: option.splits if_splits\<close>)

lemma distrusted_mc_run:
  "mc_wf mc \<Longrightarrow> distrusted p mc \<Longrightarrow> list_all (cannot_trust p) xs \<Longrightarrow> distrusted p (foldl mc_step mc xs)"
  by (induction xs arbitrary: mc) (auto intro: distrusted_mc_step mc_wf_step)

lemma distrusted_downgrade: "distrusted p (mc_downgrade p mc)"
  by (auto simp: distrusted_def mc_downgrade_def split: option.splits)

lemma distrusted_remove: "distrusted p (mc_remove p mc)"
  by (auto simp: distrusted_def mc_remove_def dm_has_def)

lemma mc_wf_run: "mc_wf mc \<Longrightarrow> mc_wf (foldl mc_step mc xs)"
  by (rule mcrun.run_ok_from)

lemma run_distrusts:
  assumes "mc_wf mc" and "x \<in> set xs" and "list_all (cannot_trust p) xs"
    and "\<And>mc. mc_wf mc \<Longrightarrow> distrusted p (mc_step mc x)"
  shows "distrusted p (foldl mc_step mc xs)"
proof -
  from assms(2) obtain ys zs where xs: "xs = ys @ x # zs" by (metis split_list)
  have 1: "mc_wf (foldl mc_step mc ys)" using assms(1) by (rule mc_wf_run)
  from distrusted_mc_run [OF mc_wf_step [OF 1] assms(4) [OF 1]] assms(3) show ?thesis
    by (simp add: xs)
qed

lemma invalidates_distrusts:
  assumes "mc_wf (cs_metadata cs)" and "invalidates p x"
  shows "distrusted p (cs_metadata (cs_step cs x))"
  unfolding cs_step_metadata
proof (cases x)
  case (ApplyChanges ps)
  with assms show "distrusted p (foldl mc_step (cs_metadata cs) (mc_ops_of cs x))"
    by (intro run_distrusts [where x = "Downgrade p"]) (auto simp: list_all_iff distrusted_downgrade)
next
  case (ApplyRemovals ps qs)
  with assms show "distrusted p (foldl mc_step (cs_metadata cs) (mc_ops_of cs x))"
    by (cases "p \<in> set ps"; intro run_distrusts [where x = "if p \<in> set ps then Downgrade p else Remove p"])
       (auto simp: list_all_iff distrusted_downgrade distrusted_remove)
qed (use assms in \<open>auto simp: distrusted_def mc_downgrade_all_def mc_clear_def Let_def\<close>)

lemma no_reverify_keeps:
  assumes "mc_wf (cs_metadata cs)" and "distrusted p (cs_metadata cs)" and "no_reverify p x"
  shows "distrusted p (cs_metadata (cs_step cs x))"
  unfolding cs_step_metadata
  by (rule distrusted_mc_run [OF assms(1,2)]) (use assms(3) in \<open>cases x; auto simp: list_all_iff\<close>)

lemma cs_step_wf: "mc_wf (cs_metadata cs) \<Longrightarrow> mc_wf (cs_metadata (cs_step cs x))"
  unfolding cs_step_metadata by (rule mc_wf_run)

lemma no_reverify_run:
  "mc_wf (cs_metadata cs) \<Longrightarrow> distrusted p (cs_metadata cs) \<Longrightarrow> list_all (no_reverify p) xs \<Longrightarrow>
     distrusted p (cs_metadata (foldl cs_step cs xs))"
  by (induction xs arbitrary: cs) (auto intro: no_reverify_keeps cs_step_wf)

lemma distrusted_lookup_hashes:
  assumes "distrusted p mc" and "snd (lookup_normalized h env t p mc) = Inr hash"
  shows "\<exists>t' pre post. t \<le> t' \<and> t' \<le> t + 13 \<and> hash_file_snapshot h env t' p = Inr (pre, hash, post)"
  using lookup_branches [of t h env p mc]
proof (elim disjE exE conjE bexE)
  fix u assume u: "u \<in> {t, t + 1}" and l: "lookup_normalized h env t p mc = hash_and_insert h env u p mc"
  from hash_and_insert_outcome [of h env u p mc] assms(2) l
  obtain m where "hashed_entry h env u p m hash" by auto
  then obtain t' pre post where t': "u \<le> t'" "t' \<le> u + 12"
    "hash_file_snapshot h env t' p = Inr (pre, hash, post)"
    unfolding hashed_entry_def by (elim conjE exE)
  moreover from u t' have "t \<le> t' \<and> t' \<le> t + 13" by auto
  ultimately show ?thesis by blast
next
  fix e hash'
  assume "mc_get mc (os_instant (env t)) p = Some e" "fm_confidence e \<noteq> Low"
  from mc_get_trusted [OF this] assms(1) have False unfolding distrusted_def by metis
  then show ?thesis ..
qed (use assms in auto)

lemma distrusted_fast_none: "distrusted p mc \<Longrightarrow> get_cached_hash_if_stat_valid tol os mc p = None"
  by (auto simp: distrusted_def get_cached_hash_if_stat_valid_def split: option.splits)

lemma lookup_since_cases:
  "(\<exists>hash. \<not> changed_since (cs_journal cs) p s \<and>
      get_cached_hash_if_stat_valid tol (env t) (cs_metadata cs) p = Some hash \<and>
      lookup_since tol h env t p s cs = (cs, Inr \<lparr>cl_hash = hash, cl_clock = cs_current_clock cs\<rparr>)) \<or>
   (\<exists>hash. snd (mc_lookup h env (t + 1) p (cs_metadata cs)) = Inr hash \<and>
      snd (lookup_since tol h env t p s cs) = Inr \<lparr>cl_hash = hash, cl_clock = cs_current_clock cs\<rparr>) \<or>
   (\<exists>e. snd (mc_lookup h env (t + 1) p (cs_metadata cs)) = Inl e \<and>
      snd (lookup_since tol h env t p s cs) = Inl e)"
  by (auto simp: lookup_since_def cs_current_clock_def Let_def split: option.splits prod.splits sum.splits)

subsection \<open>Properties of the cache system\<close>


lemmas run_evaluation = lookup_since_def mc_lookup_def cache_system_new_def lookup_normalized_def
  mc_get_def metadata_new_def hash_and_insert_def hash_file_snapshot_def still_os_def
  metadata_from_fs_def hash_open_file_def os_read_def stat_file_def os_stat_def same_stamp_def
  decayed_confidence_def get_cached_hash_if_stat_valid_def journal_new_def journal_with_capacity_def


lemma lookup_since_observed:
  assumes "\<forall>p. honest_stamps tol env p" and snd: "cache_sound tol h env (cs_metadata cs)" and "Paths.normalize p = p"
  shows "cache_sound tol h env (cs_metadata (fst (lookup_since tol h env t p s cs)))"
    and "snd (lookup_since tol h env t p s cs) = Inr r \<Longrightarrow> observed h env p t (t + 16) (cl_hash r)"
proof -
  note slow = lookup_sound_lemma [of tol env p h "cs_metadata cs" "t + 1"]
  from slow assms show "cache_sound tol h env (cs_metadata (fst (lookup_since tol h env t p s cs)))"
    by (auto simp: lookup_since_def mc_lookup_def Let_def split: option.splits prod.splits sum.splits)
  assume "snd (lookup_since tol h env t p s cs) = Inr r"
  with lookup_since_cases [of cs p s tol env t h] assms(3) consider
      "get_cached_hash_if_stat_valid tol (env t) (cs_metadata cs) p = Some (cl_hash r)"
    | "snd (lookup_normalized h env (t + 1) p (cs_metadata cs)) = Inr (cl_hash r)"
    by (auto simp: mc_lookup_def)
  then show "observed h env p t (t + 16) (cl_hash r)"
  proof cases
    case 1
    from observed_mono [OF fast_path_observed [OF snd 1]] show ?thesis by simp
  next
    case 2
    with slow assms(1) snd have "observed h env p (t + 1) (t + 1 + 15) (cl_hash r)" by blast
    from observed_mono [OF this] show ?thesis by simp
  qed
qed



text \<open>
  Tracking a file makes the fast path available at once: a trusted entry whose stamp still
  matches is then served with one stat, no hashing and no change of state, to a client whose
  observation point is the clock at which the file was registered.
\<close>

theorem tracked_lookup_is_fast:
  assumes "journal_fine (cs_journal cs)" and "p \<in> set ps"
    and "dm_get (mc_entries (cs_metadata cs)) p = Some e" and "fm_confidence e \<noteq> Low"
    and "fm_content_hash e = Some hash" and "os_stat (env t) p = Inr (fm_mtime e, fm_size e)"
  shows "lookup_since tol h env t p (cs_current_clock cs) (register_tracked ps cs) =
    (register_tracked ps cs, Inr \<lparr>cl_hash = hash, cl_clock = cs_current_clock cs\<rparr>)"
proof -
  let ?j = "foldl (\<lambda>j q. journal_register q j) (cs_journal cs) ps"
  have "\<not> changed_since ?j p (current_clock (cs_journal cs))"
    by (rule jtrack.track_all_settles [OF journal_fine_register register_stays_unchanged assms(1,2)])
  moreover have "current_clock ?j = current_clock (cs_journal cs)"
    by (induction ps rule: rev_induct) (simp_all add: current_clock_def)
  moreover have "get_cached_hash_if_stat_valid tol (env t) (cs_metadata cs) p = Some hash"
    using assms(3-6) by (simp add: get_cached_hash_if_stat_valid_def mtimes_match_def)
  ultimately show ?thesis
    by (simp add: lookup_since_def register_tracked_def cs_current_clock_def)
qed

theorem tracked_lookup_is_fast_witness:
  "let cs = with_metadata (mc_insert ''/f'' ((metadata_from_fs (5, 1) 7)\<lparr>fm_content_hash := Some ''z''\<rparr>) metadata_new)
   in lookup_since 0 (\<lambda>c. c) (\<lambda>t. still_os) 3 ''/f'' 0 (register_tracked [''/f''] cs) =
        (register_tracked [''/f''] cs, Inr \<lparr>cl_hash = ''z'', cl_clock = 0\<rparr>)"
proof -
  let ?cs = "with_metadata (mc_insert ''/f'' ((metadata_from_fs (5, 1) 7)\<lparr>fm_content_hash := Some ''z''\<rparr>) metadata_new)"
  have c: "cs_current_clock ?cs = 0"
    by (simp add: cs_current_clock_def with_metadata_def journal_new_def journal_with_capacity_def current_clock_def)
  have "lookup_since 0 (\<lambda>c. c) (\<lambda>t. still_os) 3 ''/f'' (cs_current_clock ?cs) (register_tracked [''/f''] ?cs) =
        (register_tracked [''/f''] ?cs, Inr \<lparr>cl_hash = ''z'', cl_clock = cs_current_clock ?cs\<rparr>)"
    by (rule tracked_lookup_is_fast [where e = "(metadata_from_fs (5, 1) 7)\<lparr>fm_content_hash := Some ''z''\<rparr>"])
       (simp_all add: with_metadata_def journal_new_def journal_with_capacity_def journal_fine_def u64_mod_def
          metadata_from_fs_def still_os_def os_stat_def)
  then show ?thesis unfolding c Let_def .
qed

text \<open>
  Whatever the environment says, the hashing gate admits at least one worker; by default it has
  at least as many permits as the daemon's blocking pool has threads, but not more of them on
  machines with at most eight processors.
\<close>

theorem hash_gate_size:
  "1 \<le> resolve_hash_workers available var \<and>
   daemon_max_blocking_threads available \<le> resolve_hash_workers available None \<and>
   (daemon_max_blocking_threads available = resolve_hash_workers available None \<longleftrightarrow>
      (case available of None \<Rightarrow> True | Some n \<Rightarrow> n \<le> 8))"
proof -
  have d: "1 \<le> default_hash_workers available"
    by (simp add: default_hash_workers_def clamp_def Let_def)
  then have "1 \<le> resolve_hash_workers available var"
    by (auto simp: resolve_hash_workers_def HASH_SEMAPHORE_UNLIMITED_def Let_def split: option.splits)
  then show ?thesis
    by (auto simp: resolve_hash_workers_def default_hash_workers_def daemon_max_blocking_threads_def
        clamp_def usize_saturating_mul_def Let_def split: option.splits)
qed

text \<open>
  The gate's size is not capped: the environment can ask for more permits than the limit of
  \<^verbatim>\<open>usize::MAX >> 3\<close> that the semaphore accepts and that the unlimited setting stays below.
\<close>

theorem hash_gate_uncapped:
  "HASH_SEMAPHORE_UNLIMITED \<le> (2 ^ 64 - 1) div 8 \<and>
   (2 ^ 64 - 1) div 8 < resolve_hash_workers available (Some ''18446744073709551615'')"
  by (simp add: HASH_SEMAPHORE_UNLIMITED_def resolve_hash_workers_def Let_def str_trim_plain ascii_no_wide
      is_whitespace_def eq_ignore_ascii_case_def ascii_lower_def parse_u64_def digit_value_def u64_mod_def)

end
