(* ===== verification/Depfile.thy ===== *)
theory Depfile
  imports Paths Clock
begin

text \<open>
  Dependency files (\<^verbatim>\<open>crates/zccache-depgraph/src/depfile\<close>): the parser for the make rules
  a compiler writes, the canonicalisation cache its paths go through, the choice of how to obtain a
  dependency file (with the user's own dependency flags, \<^verbatim>\<open>args/dep_flags.rs\<close>) and the merge
  of two dependency scans.

  The file system's \<^verbatim>\<open>canonicalize\<close> is a parameter; a normalised path is the string it
  normalises to, which is also its key on the modelled host.
\<close>

subsection \<open>Scan results and errors\<close>

record scan_result =
  sr_resolved :: "npath list"
  sr_unresolved :: "string list"
  sr_has_computed :: bool

datatype depfile_error = DepfileIo | Malformed string

abbreviation backslash :: char where
  "backslash \<equiv> CHR 0x5C"

abbreviation newline :: char where
  "newline \<equiv> CHR 0x0A"

abbreviation carriage_return :: char where
  "carriage_return \<equiv> CHR 0x0D"

abbreviation tab :: char where
  "tab \<equiv> CHR 0x09"

subsection \<open>Lexing\<close>

fun join_continuations :: "string \<Rightarrow> string" where
  "join_continuations [] = []"
| "join_continuations (ch # cs) =
     (if ch = backslash then
        (case cs of
           [] \<Rightarrow> [ch]
         | n # cs' \<Rightarrow>
             if n = newline then CHR '' '' # join_continuations cs'
             else if n = carriage_return then
               (case cs' of
                  [] \<Rightarrow> [CHR '' '']
                | n' # cs'' \<Rightarrow>
                    CHR '' '' # (if n' = newline then join_continuations cs'' else join_continuations cs'))
             else ch # join_continuations cs)
      else ch # join_continuations cs)"

definition is_ascii_alphabetic :: "char \<Rightarrow> bool" where
  "is_ascii_alphabetic c \<longleftrightarrow>
     (let n = of_char c :: nat in 65 \<le> n \<and> n \<le> 90 \<or> 97 \<le> n \<and> n \<le> 122)"

definition is_ascii_alphanumeric :: "char \<Rightarrow> bool" where
  "is_ascii_alphanumeric c \<longleftrightarrow> is_ascii_alphabetic c \<or> digit_value c \<noteq> None"

definition is_drive_letter :: "string \<Rightarrow> nat \<Rightarrow> bool" where
  "is_drive_letter bytes i \<longleftrightarrow>
     0 < i \<and> (i = 1 \<or> \<not> is_ascii_alphanumeric (bytes ! (i - 2))) \<and>
     is_ascii_alphabetic (bytes ! (i - 1)) \<and> i + 1 < length bytes \<and>
     (bytes ! (i + 1) = backslash \<or> bytes ! (i + 1) = CHR ''/'')"

function find_colon_from :: "string \<Rightarrow> nat \<Rightarrow> depfile_error + nat" where
  "find_colon_from bytes i =
     (if i < length bytes then
        (if bytes ! i = CHR '':'' \<and> \<not> is_drive_letter bytes i then Inr i
         else find_colon_from bytes (i + 1))
      else Inl (Malformed ''no colon separator found''))"
  by pat_completeness auto
termination
  by (relation "measure (\<lambda>(bytes, i). length bytes - i)") auto

declare find_colon_from.simps [simp del]

definition find_separator_colon :: "string \<Rightarrow> depfile_error + nat" where
  "find_separator_colon line = find_colon_from line 0"

lemma dropWhile_Cons_length: "x # xs = dropWhile P ys \<Longrightarrow> length xs < length ys"
  by (metis Suc_le_lessD length_Cons length_dropWhile_le)

text \<open>The loop of the tokenizer: \<open>cur\<close> is the token being built; a run of backslashes is read at once.\<close>

function split_loop :: "string \<Rightarrow> string \<Rightarrow> string list" where
  "split_loop cur [] = (if cur = [] then [] else [cur])"
| "split_loop cur (ch # cs) =
     (if ch = backslash then
        (let run_len = 1 + length (takeWhile (\<lambda>c. c = backslash) cs);
             rest = dropWhile (\<lambda>c. c = backslash) cs
         in case rest of
              [] \<Rightarrow> split_loop (cur @ replicate run_len backslash) []
            | nxt # rest' \<Rightarrow>
                if nxt = CHR '' '' \<or> nxt = tab then
                  (let cur' = cur @ replicate (run_len div 2) backslash
                   in if run_len mod 2 = 1 then split_loop (cur' @ [nxt]) rest'
                      else if cur' \<noteq> [] then cur' # split_loop [] rest'
                      else split_loop cur' rest')
                else if nxt = CHR ''#'' then
                  split_loop (cur @ replicate (run_len - 1) backslash @ ''#'') rest'
                else split_loop (cur @ replicate run_len backslash) (nxt # rest'))
      else if ch = CHR ''$'' \<and> cs \<noteq> [] \<and> hd cs = CHR ''$'' then split_loop (cur @ ''$'') (tl cs)
      else if ch = CHR '' '' \<or> ch = tab \<or> ch = newline \<or> ch = carriage_return then
        (if cur \<noteq> [] then cur # split_loop [] cs else split_loop cur cs)
      else split_loop (cur @ [ch]) cs)"
  by pat_completeness auto
termination
  by (relation "measure (\<lambda>(cur, cs). length cs)") (auto dest!: dropWhile_Cons_length simp: less_Suc_eq_le length_dropWhile_le)

declare split_loop.simps(2) [simp del]

definition split_and_unescape :: "string \<Rightarrow> string list" where
  "split_and_unescape deps = split_loop [] deps"

subsection \<open>Canonical paths\<close>

type_synonym canon_cache = "(string, npath) dmap"

definition CANONICALIZE_CACHE_MAX_ENTRIES :: nat where
  "CANONICALIZE_CACHE_MAX_ENTRIES = 64 * 1024"

definition strip_win_prefix :: "npath \<Rightarrow> npath" where
  "strip_win_prefix path = Paths.normalize path"

definition canonicalize_path ::
    "(string \<Rightarrow> string option) \<Rightarrow> string \<Rightarrow> string \<Rightarrow> canon_cache \<Rightarrow> canon_cache \<times> npath" where
  "canonicalize_path canon path cwd cache =
     (let key = path
      in case dm_get cache key of
           Some cached \<Rightarrow> (cache, cached)
         | None \<Rightarrow>
             (let canonical = (case canon path of
                                 Some c \<Rightarrow> c
                               | None \<Rightarrow> if is_absolute path then path else path_join cwd path);
                  result = strip_win_prefix (Paths.normalize canonical)
              in (if length cache < CANONICALIZE_CACHE_MAX_ENTRIES then dm_insert key result cache else cache,
                  result)))"

subsection \<open>Parsing a dependency file\<close>

fun resolve_tokens ::
    "(string \<Rightarrow> string option) \<Rightarrow> string \<Rightarrow> npath \<Rightarrow> canon_cache \<Rightarrow> npath list \<Rightarrow> string list \<Rightarrow>
       canon_cache \<times> npath list" where
  "resolve_tokens canon cwd source_canonical cache resolved [] = (cache, resolved)"
| "resolve_tokens canon cwd source_canonical cache resolved (token # tokens) =
     (if token = [] then resolve_tokens canon cwd source_canonical cache resolved tokens
      else
        (let (cache', abs_path) =
               (if is_absolute token then canonicalize_path canon token cwd cache
                else canonicalize_path canon (path_join cwd token) cwd cache)
         in if abs_path = source_canonical then resolve_tokens canon cwd source_canonical cache' resolved tokens
            else if abs_path \<notin> set resolved
              then resolve_tokens canon cwd source_canonical cache' (resolved @ [abs_path]) tokens
              else resolve_tokens canon cwd source_canonical cache' resolved tokens))"

definition parse_depfile ::
    "(string \<Rightarrow> string option) \<Rightarrow> string \<Rightarrow> string \<Rightarrow> string \<Rightarrow> canon_cache \<Rightarrow>
       canon_cache \<times> (depfile_error + scan_result)" where
  "parse_depfile canon content source cwd cache =
     (if str_trim content = [] then (cache, Inl (Malformed ''empty depfile content''))
      else
        (let joined = join_continuations content
         in case find_separator_colon joined of
              Inl e \<Rightarrow> (cache, Inl e)
            | Inr colon_pos \<Rightarrow>
                (let deps_str = drop (colon_pos + 1) joined;
                     tokens = split_and_unescape deps_str;
                     (cache1, source_canonical) = canonicalize_path canon source cwd cache;
                     (cache2, resolved) = resolve_tokens canon cwd source_canonical cache1 [] tokens
                 in (cache2, Inr \<lparr> sr_resolved = resolved, sr_unresolved = [], sr_has_computed = False \<rparr>))))"

text \<open>\<open>read\<close> is the file system's \<^verbatim>\<open>read_to_string\<close>.\<close>

definition parse_depfile_path ::
    "(string \<Rightarrow> string option) \<Rightarrow> (string \<Rightarrow> string option) \<Rightarrow> string \<Rightarrow> string \<Rightarrow> string \<Rightarrow>
       canon_cache \<Rightarrow> canon_cache \<times> (depfile_error + scan_result)" where
  "parse_depfile_path read canon path source cwd cache =
     (case read path of
        None \<Rightarrow> (cache, Inl DepfileIo)
      | Some content \<Rightarrow> parse_depfile canon content source cwd cache)"

definition depfile_path_tokens :: "string \<Rightarrow> string list" where
  "depfile_path_tokens content =
     filter (\<lambda>token. token \<noteq> [])
       (map (\<lambda>token. if token \<noteq> [] \<and> last token = CHR '':'' then butlast token else token)
         (split_and_unescape (join_continuations content)))"

subsection \<open>Merging scans\<close>

text \<open>\<^verbatim>\<open>extend(items.filter(|x| seen.insert(x.clone())))\<close> on a vector whose elements are seen.\<close>

fun extend_unseen :: "'a list \<Rightarrow> 'a list \<Rightarrow> 'a list" where
  "extend_unseen acc [] = acc"
| "extend_unseen acc (x # xs) = (if x \<in> set acc then extend_unseen acc xs else extend_unseen (acc @ [x]) xs)"

definition merge_scan_results :: "scan_result \<Rightarrow> scan_result \<Rightarrow> scan_result" where
  "merge_scan_results depfile static_scan =
     \<lparr> sr_resolved = extend_unseen (sr_resolved depfile) (sr_resolved static_scan),
       sr_unresolved = extend_unseen (sr_unresolved depfile) (sr_unresolved static_scan),
       sr_has_computed = (sr_has_computed depfile \<or> sr_has_computed static_scan) \<rparr>"

definition merge_scan_results_conservative :: "scan_result \<Rightarrow> scan_result \<Rightarrow> scan_result" where
  "merge_scan_results_conservative depfile static_scan =
     merge_scan_results depfile
       (static_scan\<lparr>sr_has_computed := sr_has_computed static_scan \<or> sr_unresolved static_scan \<noteq> []\<rparr>)"

subsection \<open>The user's dependency flags\<close>

record user_dep_flags =
  has_md :: bool
  has_mmd :: bool
  mf_path :: "npath option"
  depfile_to_stdout :: bool

definition no_dep_flags :: user_dep_flags where
  "no_dep_flags = \<lparr> has_md = False, has_mmd = False, mf_path = None, depfile_to_stdout = False \<rparr>"

definition resolve_path :: "string \<Rightarrow> string \<Rightarrow> npath" where
  "resolve_path path cwd =
     (if is_absolute path then Paths.normalize path else Paths.normalize (path_join cwd path))"

definition GNU_FLAGS_WITH_VALUE :: "string list" where
  "GNU_FLAGS_WITH_VALUE =
     [''-o'', ''-D'', ''-U'', ''-I'', ''-isystem'', ''-iquote'', ''-idirafter'', ''-include'',
      ''-include-pch'', ''-imacros'', ''-isysroot'', ''-target'', ''--target'', ''-MF'', ''-MQ'',
      ''-MT'', ''-std'', ''-x'', ''-arch'', ''-march'', ''-mtune'', ''-mcpu'', ''-Xclang'',
      ''-mllvm'', ''--serialize-diagnostics'']"

definition gnu_flag_takes_value :: "string \<Rightarrow> bool" where
  "gnu_flag_takes_value flag \<longleftrightarrow> flag \<in> set GNU_FLAGS_WITH_VALUE"

definition record_depfile_path :: "string \<Rightarrow> string \<Rightarrow> user_dep_flags \<Rightarrow> user_dep_flags" where
  "record_depfile_path path cwd result =
     result\<lparr> depfile_to_stdout := (path = ''-''),
             mf_path := (if path \<noteq> ''-'' then Some (resolve_path path cwd) else None) \<rparr>"

definition forwarded_option_takes_value :: "string \<Rightarrow> bool" where
  "forwarded_option_takes_value option \<longleftrightarrow>
     gnu_flag_takes_value option \<or>
     option \<in> set [''-D'', ''-U'', ''-I'', ''-MT'', ''-MQ'', ''-include'', ''-imacros'', ''-isystem'',
                  ''-iquote'', ''-idirafter'', ''-iprefix'', ''-iwithprefix'', ''-iwithprefixbefore'',
                  ''-isysroot'', ''--sysroot'']"

definition joined_mf :: "string \<Rightarrow> string option" where
  "joined_mf option =
     (case strip_prefix ''-MF'' option of Some path \<Rightarrow> if path \<noteq> [] then Some path else None | None \<Rightarrow> None)"

fun parse_forwarded_stream :: "string list \<Rightarrow> string \<Rightarrow> user_dep_flags \<Rightarrow> user_dep_flags" where
  "parse_forwarded_stream [] cwd result = result"
| "parse_forwarded_stream [option] cwd result =
     (if option = ''-MD'' \<or> option = ''-MMD'' then
        result\<lparr>has_md := True, has_mmd := (option = ''-MMD'')\<rparr>
      else if option = ''-MF'' \<or> option = ''-dependency-file'' then result
      else (case joined_mf option of Some path \<Rightarrow> record_depfile_path path cwd result | None \<Rightarrow> result))"
| "parse_forwarded_stream (option # nxt # rest) cwd result =
     (if option = ''-MD'' \<or> option = ''-MMD'' then
        parse_forwarded_stream rest cwd
          (record_depfile_path nxt cwd (result\<lparr>has_md := True, has_mmd := (option = ''-MMD'')\<rparr>))
      else if option = ''-MF'' \<or> option = ''-dependency-file'' then
        parse_forwarded_stream rest cwd (record_depfile_path nxt cwd result)
      else (case joined_mf option of
              Some path \<Rightarrow> parse_forwarded_stream (nxt # rest) cwd (record_depfile_path path cwd result)
            | None \<Rightarrow>
                if forwarded_option_takes_value option then parse_forwarded_stream rest cwd result
                else parse_forwarded_stream (nxt # rest) cwd result))"

definition parse_driver_option ::
    "string \<Rightarrow> string option \<Rightarrow> string \<Rightarrow> user_dep_flags \<Rightarrow> user_dep_flags \<times> nat" where
  "parse_driver_option option nxt cwd result =
     (if option = ''-MD'' \<or> option = ''-MMD'' then
        (result\<lparr>has_md := True, has_mmd := (option = ''-MMD'')\<rparr>, 1)
      else if option = ''-MF'' then
        (case nxt of Some path \<Rightarrow> (record_depfile_path path cwd result, 2) | None \<Rightarrow> (result, 1))
      else (case joined_mf option of
              Some path \<Rightarrow> (record_depfile_path path cwd result, 1)
            | None \<Rightarrow>
                if (gnu_flag_takes_value option \<or> option = ''-MT'' \<or> option = ''-MQ'') \<and> nxt \<noteq> None
                then (result, 2) else (result, 1)))"

definition xpreprocessor_arg :: "string list \<Rightarrow> (string \<times> nat) option" where
  "xpreprocessor_arg args =
     (case args of
        [] \<Rightarrow> None
      | arg # rest \<Rightarrow>
          if arg = ''-Xpreprocessor'' then (case rest of [] \<Rightarrow> None | n # _ \<Rightarrow> Some (n, 2))
          else map_option (\<lambda>a. (a, 1)) (strip_prefix ''-Xpreprocessor='' arg))"

function xpreprocessor_run :: "string list \<Rightarrow> string list \<times> string list" where
  "xpreprocessor_run args =
     (case xpreprocessor_arg args of
        None \<Rightarrow> ([], args)
      | Some (opt, consumed) \<Rightarrow>
          (let (opts, rest) = xpreprocessor_run (drop consumed args) in (opt # opts, rest)))"
  by pat_completeness auto
termination
  by (relation "measure length")
     (auto simp: xpreprocessor_arg_def split: list.splits if_splits option.splits)

declare xpreprocessor_run.simps [simp del]

lemma xpreprocessor_run_shorter: "xpreprocessor_run args = (opts, rest) \<Longrightarrow> length rest \<le> length args"
proof (induction args arbitrary: opts rest rule: xpreprocessor_run.induct)
  case (1 args)
  show ?case
  proof (cases "xpreprocessor_arg args")
    case None
    with "1.prems" show ?thesis by (simp add: xpreprocessor_run.simps [of args])
  next
    case (Some oc)
    obtain opt n where oc: "oc = (opt, n)" by (cases oc)
    obtain os' rest' where r: "xpreprocessor_run (drop n args) = (os', rest')" by fastforce
    from "1.prems" Some oc r have "rest = rest'" by (simp add: xpreprocessor_run.simps [of args])
    with "1.IH" [OF Some oc [symmetric] r] show ?thesis by simp
  qed
qed

lemma xpreprocessor_run_consumes:
  assumes "xpreprocessor_arg args \<noteq> None" and "xpreprocessor_run args = (opts, rest)"
  shows "length rest < length args"
proof -
  from assms(1) obtain opt n where a: "xpreprocessor_arg args = Some (opt, n)" by auto
  then have "0 < n" and "args \<noteq> []"
    by (auto simp: xpreprocessor_arg_def split: list.splits if_splits option.splits)
  obtain os' rest' where r: "xpreprocessor_run (drop n args) = (os', rest')" by fastforce
  with assms(2) a have "rest = rest'" by (simp add: xpreprocessor_run.simps [of args])
  with xpreprocessor_run_shorter [OF r] \<open>0 < n\<close> \<open>args \<noteq> []\<close> show ?thesis
    by (cases args) auto
qed

function dep_flags_loop :: "string list \<Rightarrow> string \<Rightarrow> user_dep_flags \<Rightarrow> user_dep_flags" where
  "dep_flags_loop [] cwd result = result"
| "dep_flags_loop (arg # rest) cwd result =
     (case strip_prefix ''-Wp,'' arg of
        Some options \<Rightarrow> dep_flags_loop rest cwd (parse_forwarded_stream (split_on CHR '','' options) cwd result)
      | None \<Rightarrow>
          if xpreprocessor_arg (arg # rest) \<noteq> None then
            (let (options, rest') = xpreprocessor_run (arg # rest)
             in dep_flags_loop rest' cwd (parse_forwarded_stream options cwd result))
          else
            (let (result', consumed) =
                   parse_driver_option arg (case rest of [] \<Rightarrow> None | n # _ \<Rightarrow> Some n) cwd result
             in dep_flags_loop (drop (consumed - 1) rest) cwd result'))"
  by pat_completeness auto
termination
  by (relation "measure (\<lambda>(args, cwd, result). length args)")
     (auto dest: xpreprocessor_run_consumes [rotated, OF sym])

declare dep_flags_loop.simps(2) [simp del]

definition parse_user_dep_flags :: "string list \<Rightarrow> string \<Rightarrow> user_dep_flags" where
  "parse_user_dep_flags args cwd = dep_flags_loop args cwd no_dep_flags"

subsection \<open>Choosing how to obtain a dependency file\<close>

definition file_name :: "string \<Rightarrow> string option" where
  "file_name p = (case rev (path_components p) of Normal n # _ \<Rightarrow> Some n | _ \<Rightarrow> None)"

text \<open>The part before the last dot, unless that is empty or there is no dot.\<close>

definition stem_of :: "string \<Rightarrow> string" where
  "stem_of n =
     (let before = rev (tl (dropWhile (\<lambda>c. c \<noteq> CHR ''.'') (rev n)))
      in if before = [] then n else before)"

definition file_stem :: "string \<Rightarrow> string option" where
  "file_stem p = map_option stem_of (file_name p)"

definition with_extension :: "string \<Rightarrow> string \<Rightarrow> string" where
  "with_extension p ext =
     (case file_name p of
        None \<Rightarrow> p
      | Some n \<Rightarrow> collect_path (butlast (path_components p) @ [Normal (stem_of n @ ''.'' @ ext)]))"

datatype depfile_strategy =
    Injected npath
  | InjectedMmd npath
  | CompilerTrace
  | UserSpecified npath bool
  | UserDefault npath bool
  | ShowIncludes
  | Unsupported

definition user_depfile_destination :: "user_dep_flags \<Rightarrow> string \<Rightarrow> npath option" where
  "user_depfile_destination dep_flags output_file =
     (if depfile_to_stdout dep_flags then None
      else (case mf_path dep_flags of
              Some p \<Rightarrow> Some p
            | None \<Rightarrow>
                if has_md dep_flags then Some (Paths.normalize (with_extension output_file ''d'')) else None))"

text \<open>\<open>pid\<close> is the process id; the process-wide counter is threaded through.\<close>

definition prepare_depfile_with_mmd ::
    "bool \<Rightarrow> bool \<Rightarrow> user_dep_flags \<Rightarrow> string \<Rightarrow> string \<Rightarrow> nat \<Rightarrow> u64 \<Rightarrow>
       u64 \<times> string list \<times> depfile_strategy" where
  "prepare_depfile_with_mmd use_mmd supports_depfile dep_flags output_file tmpdir pid counter =
     (if \<not> supports_depfile then (counter, [], Unsupported)
      else if depfile_to_stdout dep_flags then (counter, [], Unsupported)
      else (case mf_path dep_flags of
              Some p \<Rightarrow> (counter, [], UserSpecified p (has_mmd dep_flags \<and> \<not> use_mmd))
            | None \<Rightarrow>
                if has_md dep_flags then
                  (counter, [], UserDefault (Paths.normalize (with_extension output_file ''d''))
                     (has_mmd dep_flags \<and> \<not> use_mmd))
                else
                  (let unique = counter;
                       stem = (case file_stem output_file of Some s \<Rightarrow> s | None \<Rightarrow> ''depfile'');
                       tmp_path = Paths.normalize (path_join tmpdir
                         (stem @ ''_'' @ show_nat pid @ ''_'' @ show_nat unique @ ''.d''))
                   in if use_mmd then (u64_succ counter, [''-MMD'', ''-MF'', tmp_path], InjectedMmd tmp_path)
                      else (u64_succ counter, [''-MD'', ''-MF'', tmp_path], Injected tmp_path))))"

definition prepare_depfile ::
    "bool \<Rightarrow> user_dep_flags \<Rightarrow> string \<Rightarrow> string \<Rightarrow> nat \<Rightarrow> u64 \<Rightarrow> u64 \<times> string list \<times> depfile_strategy" where
  "prepare_depfile supports_depfile dep_flags output_file tmpdir pid counter =
     prepare_depfile_with_mmd False supports_depfile dep_flags output_file tmpdir pid counter"

subsection \<open>What a compiler writes\<close>

text \<open>
  The quoting of GCC and Clang: white space is escaped by a backslash, with the backslashes right
  before it doubled (\<open>n\<close> of them have just been written); a dollar is doubled and a hash escaped.
\<close>

fun make_quote :: "nat \<Rightarrow> string \<Rightarrow> string" where
  "make_quote n [] = []"
| "make_quote n (c # cs) =
     (if c = backslash then c # make_quote (Suc n) cs
      else if c = CHR '' '' \<or> c = tab then replicate n backslash @ backslash # c # make_quote 0 cs
      else if c = CHR ''$'' then c # c # make_quote 0 cs
      else if c = CHR ''#'' then backslash # c # make_quote 0 cs
      else c # make_quote 0 cs)"

text \<open>One rule; each dependency follows a space or a continued line.\<close>

definition rule_items :: "(bool \<times> string) list \<Rightarrow> string" where
  "rule_items items =
     concat (map (\<lambda>(wrap, d). (if wrap then [CHR '' '', backslash, newline, CHR '' ''] else [CHR '' '']) @ make_quote 0 d) items)"

definition make_rule :: "string \<Rightarrow> (bool \<times> string) list \<Rightarrow> string" where
  "make_rule target items = make_quote 0 target @ CHR '':'' # rule_items items @ [newline]"

text \<open>Names a make rule can express: not empty, no line break, no backslash at the end.\<close>

definition expressible :: "string \<Rightarrow> bool" where
  "expressible d \<longleftrightarrow> d \<noteq> [] \<and> newline \<notin> set d \<and> carriage_return \<notin> set d \<and> last d \<noteq> backslash"

lemma make_quote_set: "set (make_quote n cs) \<subseteq> insert backslash (set cs)"
  by (induction n cs rule: make_quote.induct) (auto dest: in_set_replicate [THEN iffD1])

lemma make_quote_last: "cs \<noteq> [] \<Longrightarrow> make_quote n cs \<noteq> [] \<and> last (make_quote n cs) = last cs"
  by (induction n cs rule: make_quote.induct) auto

lemma join_continuations_append:
  "newline \<notin> set xs \<Longrightarrow> carriage_return \<notin> set xs \<Longrightarrow> xs = [] \<or> last xs \<noteq> backslash \<Longrightarrow>
     join_continuations (xs @ ys) = xs @ join_continuations ys"
proof (induction xs)
  case (Cons c cs)
  then have IH: "join_continuations (cs @ ys) = cs @ join_continuations ys" by (auto split: if_splits)
  show ?case
  proof (cases "c = backslash")
    case True
    with Cons.prems obtain d ds where "cs = d # ds" by (cases cs) auto
    with Cons.prems have "d \<noteq> newline" "d \<noteq> carriage_return" by auto
    with IH True \<open>cs = d # ds\<close> show ?thesis by simp
  qed (use IH in simp)
qed simp

lemma join_rule_items:
  assumes "list_all (\<lambda>(w, d). expressible d) items"
  shows "join_continuations (rule_items items @ [newline]) =
    concat (map (\<lambda>(w, d). (if w then ''   '' else '' '') @ make_quote 0 d) items) @ [newline]"
  using assms
proof (induction items)
  case (Cons i items)
  obtain w d where i: "i = (w, d)" by (cases i)
  with Cons.prems have d: "expressible d" by simp
  have q: "newline \<notin> set (make_quote 0 d)" "carriage_return \<notin> set (make_quote 0 d)"
    "last (make_quote 0 d) \<noteq> backslash"
    using make_quote_set [of 0 d] make_quote_last [of d 0] d by (auto simp: expressible_def)
  note j = join_continuations_append [OF q(1,2)] q(3)
  from Cons show ?case by (simp add: i rule_items_def j)
qed (simp add: rule_items_def)

lemma find_colon_hit:
  "k \<le> i \<Longrightarrow> i < length bytes \<Longrightarrow> bytes ! i = CHR '':'' \<Longrightarrow> \<not> is_drive_letter bytes i \<Longrightarrow>
     (\<And>j. j < i \<Longrightarrow> bytes ! j \<noteq> CHR '':'') \<Longrightarrow> find_colon_from bytes k = Inr i"
proof (induction "i - k" arbitrary: k)
  case 0
  then show ?case by (simp add: find_colon_from.simps)
next
  case (Suc x)
  then have "find_colon_from bytes (k + 1) = Inr i" by simp
  with Suc.prems Suc.hyps(2) show ?case by (subst find_colon_from.simps) simp
qed

lemma rule_colon:
  assumes "CHR '':'' \<notin> set t" and "rest \<noteq> []" and "hd rest \<noteq> backslash" and "hd rest \<noteq> CHR ''/''"
  shows "find_separator_colon (t @ CHR '':'' # rest) = Inr (length t)"
  unfolding find_separator_colon_def
proof (rule find_colon_hit)
  show "\<not> is_drive_letter (t @ CHR '':'' # rest) (length t)"
    using assms(2-4) by (cases rest) (simp_all add: is_drive_letter_def nth_append)
  show "j < length t \<Longrightarrow> (t @ CHR '':'' # rest) ! j \<noteq> CHR '':''" for j
    using assms(1) by (metis nth_append nth_mem)
qed simp_all

lemma split_run_other:
  assumes "x \<noteq> backslash" and "x \<noteq> CHR '' ''" and "x \<noteq> tab" and "x \<noteq> CHR ''#''"
  shows "split_loop cur (replicate n backslash @ x # ys) = split_loop (cur @ replicate n backslash) (x # ys)"
proof (cases n)
  case (Suc m)
  with assms show ?thesis
    by (simp add: split_loop.simps(2) [of cur backslash] takeWhile_append dropWhile_append)
qed simp

lemma split_run_space:
  assumes "x = CHR '' '' \<or> x = tab"
  shows "split_loop cur (replicate (Suc (n + n)) backslash @ x # ys) = split_loop (cur @ replicate n backslash @ [x]) ys"
  using assms by (auto simp: split_loop.simps(2) [of cur backslash] takeWhile_append dropWhile_append Let_def)

lemma split_run_hash:
  "split_loop cur (replicate (Suc n) backslash @ CHR ''#'' # ys) =
     split_loop (cur @ replicate n backslash @ ''#'') ys"
  by (simp add: split_loop.simps(2) [of cur backslash] takeWhile_append dropWhile_append)

lemma replicate_snoc: "replicate n x @ x # ys = x # replicate n x @ ys"
  by (induction n) simp_all

lemma split_quoted:
  assumes "newline \<notin> set cs" and "carriage_return \<notin> set cs" and "cs = [] \<Longrightarrow> n = 0"
    and "cs \<noteq> [] \<Longrightarrow> last cs \<noteq> backslash"
  shows "split_loop cur (replicate n backslash @ make_quote n cs @ ys) = split_loop (cur @ replicate n backslash @ cs) ys"
  using assms
proof (induction n cs arbitrary: cur rule: make_quote.induct)
  case (1 n)
  then show ?case by simp
next
  case (2 n c cs)
  consider (bs) "c = backslash" | (sp) "c = CHR '' '' \<or> c = tab" | (dol) "c = CHR ''$''"
    | (hash) "c = CHR ''#''"
    | (other) "c \<noteq> backslash" "c \<noteq> CHR '' ''" "c \<noteq> tab" "c \<noteq> CHR ''$''" "c \<noteq> CHR ''#''" by blast
  then show ?case
  proof cases
    case bs
    with "2.prems" have "cs \<noteq> []" by auto
    with "2.IH"(1) [OF bs] "2.prems" bs show ?thesis by (simp add: replicate_snoc)
  next
    case sp
    then have c: "c \<noteq> backslash" by auto
    from sp "2.IH"(2) [OF c sp] "2.prems"
    have "split_loop (cur @ replicate n backslash @ [c]) (make_quote 0 cs @ ys) =
        split_loop ((cur @ replicate n backslash @ [c]) @ cs) ys" by (auto split: if_splits)
    with sp c split_run_space [OF sp, of cur n "make_quote 0 cs @ ys"] show ?thesis
      by (auto simp: replicate_add replicate_snoc)
  next
    case dol
    have "split_loop (cur @ replicate n backslash) (CHR ''$'' # CHR ''$'' # make_quote 0 cs @ ys) =
        split_loop (cur @ replicate n backslash @ ''$'') (make_quote 0 cs @ ys)"
      by (simp add: split_loop.simps(2))
    also have "\<dots> = split_loop ((cur @ replicate n backslash @ ''$'') @ cs) ys"
      using "2.IH"(3) [where cur = "cur @ replicate n backslash @ ''$''"] dol "2.prems" by (auto split: if_splits)
    finally show ?thesis using dol by (simp add: split_run_other)
  next
    case hash
    have "split_loop (cur @ replicate n backslash @ ''#'') (make_quote 0 cs @ ys) =
        split_loop ((cur @ replicate n backslash @ ''#'') @ cs) ys"
      using "2.IH"(4) [where cur = "cur @ replicate n backslash @ ''#''"] hash "2.prems" by (auto split: if_splits)
    with hash split_run_hash [of cur n "make_quote 0 cs @ ys"] show ?thesis by (simp add: replicate_snoc)
  next
    case other
    then have "split_loop (cur @ replicate n backslash) (c # make_quote 0 cs @ ys) =
        split_loop (cur @ replicate n backslash @ [c]) (make_quote 0 cs @ ys)"
      using "2.prems" by (auto simp: split_loop.simps(2))
    also have "\<dots> = split_loop ((cur @ replicate n backslash @ [c]) @ cs) ys"
      using "2.IH"(5) [where cur = "cur @ replicate n backslash @ [c]"] other "2.prems" by (auto split: if_splits)
    finally show ?thesis using other by (simp add: split_run_other)
  qed
qed

lemma split_token:
  assumes "expressible d"
  shows "split_loop [] (make_quote 0 d @ ys) = split_loop d ys"
  using split_quoted [of d 0 "[]" ys] assms by (simp add: expressible_def)

lemma split_items:
  assumes "list_all (\<lambda>(w, d). expressible d) items"
  shows "split_and_unescape (concat (map (\<lambda>(w, d). (if w then ''   '' else '' '') @ make_quote 0 d) items) @ [newline]) =
    map snd items"
proof -
  have "split_loop cur (concat (map (\<lambda>(w, d). (if w then ''   '' else '' '') @ make_quote 0 d) items) @ [newline]) =
      (if cur = [] then [] else [cur]) @ map snd items" for cur
    using assms
  proof (induction items arbitrary: cur)
    case Nil
    show ?case by (simp add: split_loop.simps(2))
  next
    case (Cons i items)
    obtain w d where i: "i = (w, d)" by (cases i)
    with Cons.prems have d: "expressible d" by simp
    then have "d \<noteq> []" by (simp add: expressible_def)
    with Cons show ?case by (simp add: i split_loop.simps(2) split_token [OF d])
  qed
  then show ?thesis by (simp add: split_and_unescape_def)
qed

subsection \<open>The canonicalisation cache\<close>

definition uncached_path :: "(string \<Rightarrow> string option) \<Rightarrow> string \<Rightarrow> npath" where
  "uncached_path canon path = Paths.normalize (case canon path of Some c \<Rightarrow> c | None \<Rightarrow> path)"

text \<open>Every cached answer is what the file system says now, and only absolute paths were asked for.\<close>

definition canon_coherent :: "(string \<Rightarrow> string option) \<Rightarrow> canon_cache \<Rightarrow> bool" where
  "canon_coherent canon cache \<longleftrightarrow>
     (\<forall>k v. dm_get cache k = Some v \<longrightarrow> is_absolute k \<and> v = uncached_path canon k)"

lemma canonicalize_coherent:
  assumes "canon_coherent canon cache" and "is_absolute path"
  shows "snd (canonicalize_path canon path cwd cache) = uncached_path canon path \<and>
    canon_coherent canon (fst (canonicalize_path canon path cwd cache))"
proof (cases "dm_get cache path")
  case None
  then have "canonicalize_path canon path cwd cache =
      (if length cache < CANONICALIZE_CACHE_MAX_ENTRIES then dm_insert path (uncached_path canon path) cache else cache,
       uncached_path canon path)"
    using assms(2)
    by (simp add: canonicalize_path_def uncached_path_def strip_win_prefix_def normalize_twice Let_def
        split: option.splits)
  with assms show ?thesis by (auto simp: canon_coherent_def)
next
  case (Some v)
  with assms show ?thesis by (auto simp: canonicalize_path_def canon_coherent_def Let_def)
qed

lemma length_dm_insert: "length (dm_insert k v m) \<le> Suc (length m)"
  by (induction m) (auto simp: dm_insert_def)

lemma canonicalize_bound:
  "length (fst (canonicalize_path canon path cwd cache)) \<le> max (length cache) CANONICALIZE_CACHE_MAX_ENTRIES"
proof -
  have "fst (canonicalize_path canon path cwd cache) = cache \<or>
      length cache < CANONICALIZE_CACHE_MAX_ENTRIES \<and>
      (\<exists>v. fst (canonicalize_path canon path cwd cache) = dm_insert path v cache)"
    by (auto simp: canonicalize_path_def Let_def split: option.splits)
  then show ?thesis
  proof (elim disjE conjE exE)
    fix v
    assume "length cache < CANONICALIZE_CACHE_MAX_ENTRIES"
      and "fst (canonicalize_path canon path cwd cache) = dm_insert path v cache"
    with length_dm_insert [of path v cache] show ?thesis by simp
  qed simp
qed

lemma path_join_absolute: "is_absolute cwd \<Longrightarrow> is_absolute (path_join cwd p)"
  by (auto simp: path_join_def is_absolute_def)

definition dep_target :: "string \<Rightarrow> string \<Rightarrow> string" where
  "dep_target cwd token = (if is_absolute token then token else path_join cwd token)"

lemma extend_unseen_append: "extend_unseen acc (xs @ ys) = extend_unseen (extend_unseen acc xs) ys"
  by (induction acc xs rule: extend_unseen.induct) simp_all

lemma set_extend_unseen [simp]: "set (extend_unseen acc xs) = set acc \<union> set xs"
  by (induction acc xs rule: extend_unseen.induct) auto

lemma distinct_extend_unseen: "distinct acc \<Longrightarrow> distinct (extend_unseen acc xs)"
  by (induction acc xs rule: extend_unseen.induct) auto

lemma prefix_extend_unseen: "prefix acc (extend_unseen acc xs)"
  by (induction acc xs rule: extend_unseen.induct) (auto dest: append_prefixD)

lemma resolve_tokens_coherent:
  assumes "canon_coherent canon cache" and "is_absolute cwd"
  shows "snd (resolve_tokens canon cwd src cache resolved tokens) =
      extend_unseen resolved (filter (\<lambda>p. p \<noteq> src)
        (map (\<lambda>d. uncached_path canon (dep_target cwd d)) (filter (\<lambda>d. d \<noteq> []) tokens))) \<and>
    canon_coherent canon (fst (resolve_tokens canon cwd src cache resolved tokens))"
  using assms
proof (induction tokens arbitrary: cache resolved)
  case (Cons token tokens)
  show ?case
  proof (cases "token = []")
    case False
    have "is_absolute (dep_target cwd token)"
      using Cons.prems(2) by (simp add: dep_target_def path_join_absolute)
    from canonicalize_coherent [OF Cons.prems(1) this, of cwd]
    obtain cache' where c: "canonicalize_path canon (dep_target cwd token) cwd cache =
        (cache', uncached_path canon (dep_target cwd token))" "canon_coherent canon cache'"
      by (metis prod.collapse)
    from c(1) have step: "(if is_absolute token then canonicalize_path canon token cwd cache
        else canonicalize_path canon (path_join cwd token) cwd cache) =
        (cache', uncached_path canon (dep_target cwd token))"
      by (simp add: dep_target_def split: if_splits)
    show ?thesis
      using Cons.IH [OF c(2) Cons.prems(2)] False
      by (simp only: resolve_tokens.simps if_False step Let_def prod.case) auto
  qed (use Cons in simp)
qed simp

lemma resolve_tokens_shape:
  "distinct resolved \<Longrightarrow> src \<notin> set resolved \<Longrightarrow>
     distinct (snd (resolve_tokens canon cwd src cache resolved tokens)) \<and>
     src \<notin> set (snd (resolve_tokens canon cwd src cache resolved tokens)) \<and>
     length (fst (resolve_tokens canon cwd src cache resolved tokens)) \<le>
       max (length cache) CANONICALIZE_CACHE_MAX_ENTRIES"
proof (induction tokens arbitrary: cache resolved)
  case (Cons token tokens)
  let ?r = "if is_absolute token then canonicalize_path canon token cwd cache
        else canonicalize_path canon (path_join cwd token) cwd cache"
  have b: "length (fst ?r) \<le> max (length cache) CANONICALIZE_CACHE_MAX_ENTRIES"
    by (simp add: canonicalize_bound)
  have IH: "distinct rs \<Longrightarrow> src \<notin> set rs \<Longrightarrow>
      distinct (snd (resolve_tokens canon cwd src (fst ?r) rs tokens)) \<and>
      src \<notin> set (snd (resolve_tokens canon cwd src (fst ?r) rs tokens)) \<and>
      length (fst (resolve_tokens canon cwd src (fst ?r) rs tokens)) \<le>
        max (length cache) CANONICALIZE_CACHE_MAX_ENTRIES" for rs
    using Cons.IH [of rs "fst ?r"] b by (auto simp: max_def split: if_splits)
  show ?case
    using Cons.IH [OF Cons.prems, of cache] IH [of resolved] IH [of "resolved @ [snd ?r]"] Cons.prems
    by (simp only: resolve_tokens.simps Let_def case_prod_beta) auto
qed simp

lemma canonicalize_nonempty_trim:
  "c \<in> set s \<Longrightarrow> \<not> is_whitespace c \<Longrightarrow> (of_char c :: nat) < 128 \<Longrightarrow> str_trim s \<noteq> []"
  using str_trim_keeps [of c s] by auto

subsection \<open>Properties of dependency files\<close>

lemma parse_rule:
  assumes "expressible target" and "CHR '':'' \<notin> set target"
    and "list_all (\<lambda>(w, d). expressible d) items"
  defines "body \<equiv> concat (map (\<lambda>(w, d). (if w then ''   '' else '' '') @ make_quote 0 d) items) @ [newline]"
  shows "join_continuations (make_rule target items) = make_quote 0 target @ CHR '':'' # body"
    and "find_separator_colon (make_quote 0 target @ CHR '':'' # body) = Inr (length (make_quote 0 target))"
    and "str_trim (make_rule target items) \<noteq> []"
    and "split_and_unescape body = map snd items"
proof -
  have q: "newline \<notin> set (make_quote 0 target @ '':'')" "carriage_return \<notin> set (make_quote 0 target @ '':'')"
    "CHR '':'' \<notin> set (make_quote 0 target)"
    using make_quote_set [of 0 target] assms(1,2) by (auto simp: expressible_def)
  have "make_rule target items = (make_quote 0 target @ '':'') @ rule_items items @ [newline]"
    by (simp add: make_rule_def)
  then have "join_continuations (make_rule target items) =
      (make_quote 0 target @ '':'') @ join_continuations (rule_items items @ [newline])"
    using join_continuations_append [OF q(1,2), of "rule_items items @ [newline]"] by simp
  then show "join_continuations (make_rule target items) = make_quote 0 target @ CHR '':'' # body"
    by (simp add: join_rule_items [OF assms(3)] body_def)
  have "hd body = CHR '' '' \<or> hd body = newline" by (cases items) (auto simp: body_def)
  then show "find_separator_colon (make_quote 0 target @ CHR '':'' # body) = Inr (length (make_quote 0 target))"
    by (intro rule_colon [OF q(3)]) (auto simp: body_def)
  show "str_trim (make_rule target items) \<noteq> []"
    by (rule canonicalize_nonempty_trim [of "CHR '':''"]) (auto simp: make_rule_def is_whitespace_def)
  show "split_and_unescape body = map snd items" unfolding body_def by (rule split_items [OF assms(3)])
qed

text \<open>
  C13. Reading back what a compiler writes: for a rule with any quoted target and any dependencies
  that a make rule can express, spread over any number of continued lines, the parser returns
  exactly the canonical form of the dependencies, in order, without duplicates and without the
  source file; the canonicalisation cache stays in agreement with the file system.
\<close>

theorem depfile_roundtrip:
  assumes "canon_coherent canon cache" and "is_absolute cwd" and "is_absolute source"
    and "expressible target" and "CHR '':'' \<notin> set target"
    and "list_all (\<lambda>(w, d). expressible d) items"
  shows "snd (parse_depfile canon (make_rule target items) source cwd cache) =
      Inr \<lparr> sr_resolved = extend_unseen [] (filter (\<lambda>p. p \<noteq> uncached_path canon source)
              (map (\<lambda>(w, d). uncached_path canon (dep_target cwd d)) items)),
            sr_unresolved = [], sr_has_computed = False \<rparr> \<and>
    canon_coherent canon (fst (parse_depfile canon (make_rule target items) source cwd cache))"
proof -
  note P = parse_rule [OF assms(4,5,6)]
  obtain cache1 where c1: "canonicalize_path canon source cwd cache = (cache1, uncached_path canon source)"
    "canon_coherent canon cache1"
    using canonicalize_coherent [OF assms(1,3), of cwd] by (metis prod.collapse)
  have "filter (\<lambda>d. d \<noteq> []) (map snd items) = map snd items"
    using assms(6) by (auto simp: filter_id_conv list_all_iff expressible_def)
  then have R: "snd (resolve_tokens canon cwd (uncached_path canon source) cache1 [] (map snd items)) =
      extend_unseen [] (filter (\<lambda>p. p \<noteq> uncached_path canon source)
        (map (\<lambda>(w, d). uncached_path canon (dep_target cwd d)) items))"
    using resolve_tokens_coherent [OF c1(2) assms(2), of "uncached_path canon source" "[]" "map snd items"]
    by (simp add: comp_def case_prod_beta')
  show ?thesis
    using P c1 R resolve_tokens_coherent [OF c1(2) assms(2), of "uncached_path canon source" "[]" "map snd items"]
    by (simp add: parse_depfile_def case_prod_beta)
qed

theorem depfile_roundtrip_witness:
  "snd (parse_depfile (\<lambda>p. None) (make_rule ''a.o'' [(False, ''a.c''), (True, ''my dir/b.h''), (True, ''b$#.h'')])
      ''/w/a.c'' ''/w'' []) =
   Inr \<lparr> sr_resolved = [''/w/my dir/b.h'', ''/w/b$#.h''], sr_unresolved = [], sr_has_computed = False \<rparr>"
proof -
  have n: "Paths.normalize ''/w/a.c'' = ''/w/a.c''" "Paths.normalize ''/w/my dir/b.h'' = ''/w/my dir/b.h''"
    "Paths.normalize ''/w/b$#.h'' = ''/w/b$#.h''"
    by code_simp+
  have "snd (parse_depfile (\<lambda>p. None) (make_rule ''a.o'' [(False, ''a.c''), (True, ''my dir/b.h''), (True, ''b$#.h'')])
      ''/w/a.c'' ''/w'' []) =
    Inr \<lparr> sr_resolved = extend_unseen [] (filter (\<lambda>p. p \<noteq> uncached_path (\<lambda>p. None) ''/w/a.c'')
            (map (\<lambda>(w, d). uncached_path (\<lambda>p. None) (dep_target ''/w'' d))
              [(False, ''a.c''), (True, ''my dir/b.h''), (True, ''b$#.h'')])),
          sr_unresolved = [], sr_has_computed = False \<rparr>"
    by (rule conjunct1 [OF depfile_roundtrip])
       (simp_all add: canon_coherent_def is_absolute_def slash_def expressible_def)
  also have "\<dots> = Inr \<lparr> sr_resolved = [''/w/my dir/b.h'', ''/w/b$#.h''], sr_unresolved = [], sr_has_computed = False \<rparr>"
    by (simp add: uncached_path_def dep_target_def path_join_def is_absolute_def slash_def n)
  finally show ?thesis .
qed

text \<open>
  Whatever the content, a successful parse lists no path twice and never the source file, has
  no unresolved and no computed includes, and leaves the canonicalisation cache within its bound.
\<close>

theorem parse_depfile_shape:
  assumes "snd (parse_depfile canon content source cwd cache) = Inr r"
  shows "distinct (sr_resolved r) \<and>
    snd (canonicalize_path canon source cwd cache) \<notin> set (sr_resolved r) \<and>
    sr_unresolved r = [] \<and> \<not> sr_has_computed r \<and>
    length (fst (parse_depfile canon content source cwd cache)) \<le>
      max (length cache) CANONICALIZE_CACHE_MAX_ENTRIES"
proof -
  let ?c = "canonicalize_path canon source cwd cache"
  from assms obtain pos where "str_trim content \<noteq> []" "find_separator_colon (join_continuations content) = Inr pos"
    by (auto simp: parse_depfile_def Let_def split: if_splits sum.splits)
  then have p: "parse_depfile canon content source cwd cache =
      (let (cache2, resolved) = resolve_tokens canon cwd (snd ?c) (fst ?c) []
             (split_and_unescape (drop (pos + 1) (join_continuations content)))
       in (cache2, Inr \<lparr> sr_resolved = resolved, sr_unresolved = [], sr_has_computed = False \<rparr>))"
    by (simp add: parse_depfile_def case_prod_beta Let_def)
  have S: "distinct (snd (resolve_tokens canon cwd (snd ?c) (fst ?c) [] ts)) \<and>
      snd ?c \<notin> set (snd (resolve_tokens canon cwd (snd ?c) (fst ?c) [] ts)) \<and>
      length (fst (resolve_tokens canon cwd (snd ?c) (fst ?c) [] ts)) \<le>
        max (length cache) CANONICALIZE_CACHE_MAX_ENTRIES" for ts
    using resolve_tokens_shape [of "[]" "snd ?c" canon cwd "fst ?c" ts] canonicalize_bound [of canon source cwd cache]
    by (auto simp: max_def split: if_splits)
  show ?thesis
    using assms S [of "split_and_unescape (drop (pos + 1) (join_continuations content))"]
    unfolding p by (auto simp: case_prod_beta Let_def)
qed

theorem parse_depfile_shape_witness:
  "distinct (sr_resolved \<lparr> sr_resolved = [''/b''], sr_unresolved = [], sr_has_computed = False \<rparr>)"
proof -
  have n: "Paths.normalize ''/a'' = ''/a''" "Paths.normalize ''/b'' = ''/b''" by code_simp+
  have "str_trim ''x: /b /a /b'' \<noteq> []" by code_simp
  then have "snd (parse_depfile (\<lambda>p. None) ''x: /b /a /b'' ''/a'' ''/'' []) =
      Inr \<lparr> sr_resolved = [''/b''], sr_unresolved = [], sr_has_computed = False \<rparr>"
    by (simp add: parse_depfile_def find_separator_colon_def
        find_colon_from.simps is_drive_letter_def split_and_unescape_def split_loop.simps(2)
        canonicalize_path_def strip_win_prefix_def is_absolute_def slash_def n dm_insert_def Let_def
        CANONICALIZE_CACHE_MAX_ENTRIES_def)
  from parse_depfile_shape [OF this] show ?thesis by blast
qed

text \<open>
  C28. The parser reads only the first rule's separator: in a file written with \<^verbatim>\<open>-MP\<close>, the target
  of a phony rule is returned as one more dependency with the colon in its name, where the other
  reader of the same files drops the colon.
\<close>

theorem phony_rules_become_dependencies:
  "map_sum id sr_resolved (snd (parse_depfile (\<lambda>p. None)
       (''a.o: a.c a.h'' @ [newline] @ ''a.h:'' @ [newline]) ''/w/a.c'' ''/w'' [])) =
     Inr [''/w/a.h'', ''/w/a.h:''] \<and>
   depfile_path_tokens (''a.o: a.c a.h'' @ [newline] @ ''a.h:'' @ [newline]) = [''a.o'', ''a.c'', ''a.h'', ''a.h'']"
proof -
  have n: "Paths.normalize ''/w/a.c'' = ''/w/a.c''" "Paths.normalize ''/w/a.h'' = ''/w/a.h''"
    "Paths.normalize ''/w/a.h:'' = ''/w/a.h:''"
    by code_simp+
  have "str_trim (''a.o: a.c a.h'' @ [newline] @ ''a.h:'' @ [newline]) \<noteq> []" by code_simp
  then show ?thesis
    by (simp add: parse_depfile_def find_separator_colon_def
        find_colon_from.simps is_drive_letter_def split_and_unescape_def split_loop.simps(2)
        canonicalize_path_def strip_win_prefix_def is_absolute_def slash_def n dm_insert_def Let_def
        CANONICALIZE_CACHE_MAX_ENTRIES_def path_join_def depfile_path_tokens_def)
qed

text \<open>
  The canonicalisation cache forgets the working directory: once a relative path that does not
  exist has been asked for in one directory, every other directory gets that answer.
\<close>

theorem relative_path_cached_across_directories:
  "let (cache, p) = canonicalize_path (\<lambda>p. None) ''x.h'' ''/one'' []
   in p = ''/one/x.h'' \<and> snd (canonicalize_path (\<lambda>p. None) ''x.h'' ''/two'' cache) = ''/one/x.h'' \<and>
      snd (canonicalize_path (\<lambda>p. None) ''x.h'' ''/two'' []) = ''/two/x.h''"
proof -
  have n: "Paths.normalize ''/one/x.h'' = ''/one/x.h''" "Paths.normalize ''/two/x.h'' = ''/two/x.h''"
    by code_simp+
  show ?thesis
    by (simp add: canonicalize_path_def strip_win_prefix_def is_absolute_def slash_def path_join_def n
        dm_insert_def CANONICALIZE_CACHE_MAX_ENTRIES_def Let_def)
qed

text \<open>
  Merging two scans keeps the first scan's order in front, is the union of both, introduces no
  duplicate, and the conservative merge reports a computed include whenever the static scan could
  not resolve everything.
\<close>

theorem merge_scan_union:
  "prefix (sr_resolved a) (sr_resolved (merge_scan_results a b)) \<and>
   set (sr_resolved (merge_scan_results a b)) = set (sr_resolved a) \<union> set (sr_resolved b) \<and>
   set (sr_unresolved (merge_scan_results a b)) = set (sr_unresolved a) \<union> set (sr_unresolved b) \<and>
   distinct (sr_resolved (merge_scan_results a b)) = distinct (sr_resolved a) \<and>
   sr_has_computed (merge_scan_results_conservative a b) =
     (sr_has_computed a \<or> sr_has_computed b \<or> 0 < length (sr_unresolved b))"
proof -
  have "distinct (extend_unseen (sr_resolved a) (sr_resolved b)) = distinct (sr_resolved a)"
    using prefix_extend_unseen [of "sr_resolved a" "sr_resolved b"]
      distinct_extend_unseen [of "sr_resolved a" "sr_resolved b"]
    unfolding prefix_def by (metis distinct_append)
  then show ?thesis
    by (auto simp: merge_scan_results_def merge_scan_results_conservative_def prefix_extend_unseen)
qed

text \<open>
  Where the compiler supports dependency files, the file a cache hit has to recreate is the one
  the miss let the compiler write: the destination and the chosen strategy agree, and flags are
  added to the command line exactly when the user asked for no file of their own.
\<close>

theorem depfile_destination_agrees:
  "(case snd (snd (prepare_depfile_with_mmd use_mmd True flags out tmp pid n)) of
      UserSpecified p _ \<Rightarrow> user_depfile_destination flags out = Some p
    | UserDefault p _ \<Rightarrow> user_depfile_destination flags out = Some p
    | _ \<Rightarrow> user_depfile_destination flags out = None) \<and>
   (fst (snd (prepare_depfile_with_mmd use_mmd True flags out tmp pid n)) = []) =
     (case user_depfile_destination flags out of Some _ \<Rightarrow> True | None \<Rightarrow> depfile_to_stdout flags)"
  by (simp add: prepare_depfile_with_mmd_def user_depfile_destination_def Let_def split: option.split)

end
