(* ===== verification/KeyEnv.thy ===== *)
theory KeyEnv
  imports Prelude "HOL-Library.List_Lexorder" "HOL-Library.Char_ord" "HOL-Library.Product_Lexorder"
begin

text \<open>
  Which environment variables may reach a cache key (\<^verbatim>\<open>crates/zccache-core/src/key_env.rs\<close>).
  The tables are lists of names; the justification each row carries in the source is dropped.  The
  table identity test of \<^verbatim>\<open>keyed_cc_env\<close> is a comparison of the tables.
\<close>

type_synonym environment = "(string \<times> string) list"

datatype cc_env_scope = Gnu | Msvc | AnyScope

definition GNU_CC_ENV_KEYED :: "string list" where
  "GNU_CC_ENV_KEYED =
     [''CPATH'', ''C_INCLUDE_PATH'', ''CPLUS_INCLUDE_PATH'', ''OBJC_INCLUDE_PATH'', ''SDKROOT'',
      ''MACOSX_DEPLOYMENT_TARGET'', ''IPHONEOS_DEPLOYMENT_TARGET'', ''TVOS_DEPLOYMENT_TARGET'',
      ''WATCHOS_DEPLOYMENT_TARGET'', ''XROS_DEPLOYMENT_TARGET'', ''GCC_EXEC_PREFIX'', ''COMPILER_PATH'',
      ''SOURCE_DATE_EPOCH'', ''DEPENDENCIES_OUTPUT'', ''SUNPRO_DEPENDENCIES'']"

definition MSVC_CC_ENV_KEYED :: "string list" where
  "MSVC_CC_ENV_KEYED = [''CL'', ''_CL_'', ''INCLUDE'', ''VSLANG'']"

definition LOCALE_ENV_KEYED :: "string list" where
  "LOCALE_ENV_KEYED = [''LC_ALL'', ''LC_MESSAGES'', ''LANG'', ''LANGUAGE'']"

definition VOLATILE_CARGO_ENV_VARS :: "string list" where
  "VOLATILE_CARGO_ENV_VARS =
     [''CARGO'', ''CARGO_HOME'', ''CARGO_MANIFEST_DIR'', ''CARGO_MANIFEST_PATH'', ''CARGO_TARGET_DIR'']"

definition RUSTC_ENV_KEYED :: "string list" where
  "RUSTC_ENV_KEYED = [''RUSTC_BOOTSTRAP'']"

definition APPLE_ENV_KEYED :: "string list" where
  "APPLE_ENV_KEYED =
     [''SDKROOT'', ''MACOSX_DEPLOYMENT_TARGET'', ''IPHONEOS_DEPLOYMENT_TARGET'', ''TVOS_DEPLOYMENT_TARGET'',
      ''WATCHOS_DEPLOYMENT_TARGET'', ''XROS_DEPLOYMENT_TARGET'']"

definition LINK_ENV_KEYED :: "string list" where
  "LINK_ENV_KEYED =
     [''LIBRARY_PATH'', ''COMPILER_PATH'', ''GCC_EXEC_PREFIX'', ''LIB'', ''LINK'', ''_LINK_'']"

definition REQUEST_CONTROL_ENV_KEYED :: "string list" where
  "REQUEST_CONTROL_ENV_KEYED =
     [''ZCCACHE_FAST'', ''ZCCACHE_SCAN_SYSTEM_HEADERS'', ''ZCCACHE_DYLINT_CACHE_INPUT_HASH'']"

definition NEVER_KEYED_EXACT :: "string list" where
  "NEVER_KEYED_EXACT = [''CI'', ''TERM'', ''MAKEFLAGS'', ''CARGO_MAKEFLAGS'', ''CARGO_INCREMENTAL'']"

definition NEVER_KEYED_PREFIXES :: "string list" where
  "NEVER_KEYED_PREFIXES = [''GITHUB_'', ''SOLDR_'', ''CARGO_TERM_'']"

subsection \<open>Classification of single variables\<close>

definition is_volatile_cargo_env_var :: "string \<Rightarrow> bool" where
  "is_volatile_cargo_env_var key \<longleftrightarrow>
     key \<in> set VOLATILE_CARGO_ENV_VARS \<or>
     (case strip_prefix ''CARGO_TARGET_'' key of
        Some target_key \<Rightarrow> suffix ''_LINKER'' target_key
      | None \<Rightarrow> False)"

definition is_never_keyed_env :: "string \<Rightarrow> bool" where
  "is_never_keyed_env name \<longleftrightarrow>
     (if name \<in> set REQUEST_CONTROL_ENV_KEYED then False
      else prefix ''ZCCACHE_'' name \<or> name \<in> set NEVER_KEYED_EXACT \<or>
           list_ex (\<lambda>p. prefix p name) NEVER_KEYED_PREFIXES)"

definition is_conservatively_keyed_cargo_env :: "string \<Rightarrow> bool" where
  "is_conservatively_keyed_cargo_env name \<longleftrightarrow>
     prefix ''CARGO_'' name \<and> \<not> is_never_keyed_env name \<and> \<not> is_volatile_cargo_env_var name"

definition is_dylib_path :: "string \<Rightarrow> bool" where
  "is_dylib_path path \<longleftrightarrow>
     (let lower = map ascii_lower path in list_ex (\<lambda>ext. suffix ext lower) [''.so'', ''.dylib'', ''.dll''])"

definition is_plain_rustc :: "string \<Rightarrow> bool" where
  "is_plain_rustc compiler \<longleftrightarrow>
     (let base = rev (takeWhile (\<lambda>c. c \<noteq> CHR ''/'' \<and> c \<noteq> CHR 0x5C) (rev compiler))
      in (if suffix ''.exe'' base then take (length base - 4) base else base) = ''rustc'')"

fun argv_emits_dep_info :: "string list \<Rightarrow> bool" where
  "argv_emits_dep_info [] = False"
| "argv_emits_dep_info [arg] =
     (if arg = ''--emit'' then False
      else (case strip_prefix ''--emit='' arg of
              Some v \<Rightarrow> list_ex (\<lambda>part. hd (split_on CHR ''='' part) = ''dep-info'') (split_on CHR '','' v)
            | None \<Rightarrow> False))"
| "argv_emits_dep_info (arg # nxt # rest) =
     (if arg = ''--emit'' then
        list_ex (\<lambda>part. hd (split_on CHR ''='' part) = ''dep-info'') (split_on CHR '','' nxt) \<or>
        argv_emits_dep_info rest
      else
        (case strip_prefix ''--emit='' arg of
           Some v \<Rightarrow> list_ex (\<lambda>part. hd (split_on CHR ''='' part) = ''dep-info'') (split_on CHR '','' v)
         | None \<Rightarrow> False) \<or> argv_emits_dep_info (nxt # rest))"

definition argv_may_load_proc_macro :: "string list \<Rightarrow> bool" where
  "argv_may_load_proc_macro args = list_ex is_dylib_path args"

subsection \<open>Collecting the keyed variables\<close>

text \<open>\<^verbatim>\<open>env.iter().rev().find_map\<close>: the last binding whose name satisfies the test.\<close>

definition last_binding :: "(string \<Rightarrow> bool) \<Rightarrow> environment \<Rightarrow> string option" where
  "last_binding hit env = map_option snd (find (\<lambda>(k, v). hit k) (rev env))"

definition collect :: "environment \<Rightarrow> string list \<Rightarrow> bool \<Rightarrow> environment" where
  "collect env table case_insensitive =
     List.map_filter (\<lambda>name. map_option (\<lambda>value. (name, value))
       (last_binding (\<lambda>k. if case_insensitive then eq_ignore_ascii_case k name else k = name) env)) table"

definition collect_link_table :: "environment \<Rightarrow> environment" where
  "collect_link_table env =
     List.map_filter (\<lambda>name. map_option (\<lambda>value. (name, value))
       (case last_binding (\<lambda>k. k = name) env of
          Some v \<Rightarrow> Some v
        | None \<Rightarrow> last_binding (\<lambda>k. eq_ignore_ascii_case k name) env)) LINK_ENV_KEYED"

record rustc_env_facts =
  apple :: bool
  links :: bool
  may_read_env_untracked :: bool

definition facts_from_parts ::
    "string option \<Rightarrow> string list \<Rightarrow> string list \<Rightarrow> string list \<Rightarrow> bool \<Rightarrow> rustc_env_facts" where
  "facts_from_parts target crate_types emit_types extern_paths plain_rustc =
     (let output_links =
            crate_types = [] \<or>
            list_ex (\<lambda>t. str_trim t \<in> set [''bin'', ''dylib'', ''cdylib'', ''proc-macro''])
              (concat (map (split_on CHR '','') crate_types));
          emits_link = (emit_types = [] \<or> ''link'' \<in> set emit_types)
      in \<lparr> apple = (case target of None \<Rightarrow> True | Some t \<Rightarrow> sublist ''apple'' t),
           links = (output_links \<and> emits_link),
           may_read_env_untracked =
             (\<not> plain_rustc \<or> ''dep-info'' \<notin> set emit_types \<or> list_ex is_dylib_path extern_paths) \<rparr>)"

definition keyed_rustc_env :: "environment \<Rightarrow> rustc_env_facts \<Rightarrow> environment" where
  "keyed_rustc_env env facts =
     collect env RUSTC_ENV_KEYED False @
     (if apple facts then collect env APPLE_ENV_KEYED False else []) @
     (if links facts then collect_link_table env else [])"

definition keyed_link_env :: "environment \<Rightarrow> environment" where
  "keyed_link_env env = collect_link_table env @ collect env APPLE_ENV_KEYED False"

definition keyed_rustc_env_superset :: "environment \<Rightarrow> environment" where
  "keyed_rustc_env_superset env =
     keyed_rustc_env env \<lparr> apple = True, links = True, may_read_env_untracked = False \<rparr>"

fun scope_tables :: "cc_env_scope \<Rightarrow> string list list" where
  "scope_tables Gnu = [GNU_CC_ENV_KEYED, []]"
| "scope_tables Msvc = [MSVC_CC_ENV_KEYED, []]"
| "scope_tables AnyScope = [GNU_CC_ENV_KEYED, MSVC_CC_ENV_KEYED]"

definition keyed_cc_env :: "environment \<Rightarrow> cc_env_scope \<Rightarrow> environment" where
  "keyed_cc_env env scope =
     concat (map (\<lambda>table. collect env table (table = MSVC_CC_ENV_KEYED)) (scope_tables scope))"

definition keyed_locale_env :: "environment \<Rightarrow> environment" where
  "keyed_locale_env env = collect env LOCALE_ENV_KEYED False"

definition split_once :: "char \<Rightarrow> string \<Rightarrow> (string \<times> string) option" where
  "split_once sep s =
     (if sep \<in> set s then Some (takeWhile (\<lambda>c. c \<noteq> sep) s, tl (dropWhile (\<lambda>c. c \<noteq> sep) s)) else None)"

definition gcc_message_locale :: "environment \<Rightarrow> string option" where
  "gcc_message_locale env =
     (let get = (\<lambda>name. case last_binding (\<lambda>k. k = name) env of
                          Some v \<Rightarrow> if v \<noteq> [] then Some v else None | None \<Rightarrow> None);
          chosen = (case get ''LC_ALL'' of Some l \<Rightarrow> Some l
                    | None \<Rightarrow> (case get ''LC_MESSAGES'' of Some l \<Rightarrow> Some l | None \<Rightarrow> get ''LANG''))
      in case chosen of
           None \<Rightarrow> None
         | Some locale \<Rightarrow>
             (let (main, modifier) = (case split_once CHR ''@'' locale of Some mm \<Rightarrow> mm | None \<Rightarrow> (locale, []));
                  base = hd (split_on CHR ''.'' main);
                  language = get ''LANGUAGE''
              in if base \<in> set ['''', ''C'', ''POSIX''] then None
                 else if language = None \<and> modifier = [] \<and> base \<in> set [''en'', ''en_US''] then None
                 else Some (base @ ''@'' @ modifier @ ''|'' @ (case language of Some l \<Rightarrow> l | None \<Rightarrow> []))))"

subsection \<open>Noise and signal\<close>

lemma find_filter_conv: "(\<And>x. hit x \<Longrightarrow> P x) \<Longrightarrow> find hit (filter P xs) = find hit xs"
  by (induction xs) auto

lemma last_binding_filter:
  "(\<And>k. hit k \<Longrightarrow> P k) \<Longrightarrow> last_binding hit (filter (\<lambda>(k, v). P k) env) = last_binding hit env"
  unfolding last_binding_def
  by (subst rev_filter, subst find_filter_conv) auto

definition lower :: "string \<Rightarrow> string" where
  "lower s = map ascii_lower s"

lemma prefix_lower: "prefix p s \<Longrightarrow> prefix (lower p) (lower s)"
  by (auto simp: prefix_def lower_def)

text \<open>Whatever its case, a never-keyed name is none of the keyed ones.\<close>

definition looks_never_keyed :: "string \<Rightarrow> bool" where
  "looks_never_keyed s \<longleftrightarrow>
     list_ex (\<lambda>p. prefix (lower p) s) (''ZCCACHE_'' # NEVER_KEYED_PREFIXES) \<or>
     s \<in> set (map lower NEVER_KEYED_EXACT)"

lemma never_keyed_looks: "is_never_keyed_env k \<Longrightarrow> looks_never_keyed (lower k)"
  by (auto simp: is_never_keyed_env_def looks_never_keyed_def list_ex_iff split: if_splits
      intro: prefix_lower)

lemma keyed_tables_clean:
  "list_all (\<lambda>n. \<not> looks_never_keyed (lower n))
     (RUSTC_ENV_KEYED @ APPLE_ENV_KEYED @ LINK_ENV_KEYED @ GNU_CC_ENV_KEYED @ MSVC_CC_ENV_KEYED @ LOCALE_ENV_KEYED)"
  by (simp add: looks_never_keyed_def lower_def ascii_lower_def NEVER_KEYED_PREFIXES_def NEVER_KEYED_EXACT_def
      RUSTC_ENV_KEYED_def APPLE_ENV_KEYED_def LINK_ENV_KEYED_def GNU_CC_ENV_KEYED_def
      MSVC_CC_ENV_KEYED_def LOCALE_ENV_KEYED_def)

lemma keyed_not_never:
  assumes "n \<in> set (RUSTC_ENV_KEYED @ APPLE_ENV_KEYED @ LINK_ENV_KEYED @ GNU_CC_ENV_KEYED @
      MSVC_CC_ENV_KEYED @ LOCALE_ENV_KEYED)" and "k = n \<or> eq_ignore_ascii_case k n"
  shows "\<not> is_never_keyed_env k"
proof -
  from assms(2) have "lower k = lower n" by (auto simp: eq_ignore_ascii_case_def lower_def)
  with keyed_tables_clean never_keyed_looks [of k] assms(1) show ?thesis
    unfolding list_all_iff by metis
qed

lemma map_filter_cong_set: "(\<And>x. x \<in> set xs \<Longrightarrow> f x = g x) \<Longrightarrow> List.map_filter f xs = List.map_filter g xs"
  by (induction xs) (auto simp: List.map_filter_def)

abbreviation without_noise :: "environment \<Rightarrow> environment" where
  "without_noise env \<equiv> filter (\<lambda>(k, v). \<not> is_never_keyed_env k) env"

lemma collect_without_noise:
  assumes "set table \<subseteq> set (RUSTC_ENV_KEYED @ APPLE_ENV_KEYED @ LINK_ENV_KEYED @ GNU_CC_ENV_KEYED @
      MSVC_CC_ENV_KEYED @ LOCALE_ENV_KEYED)"
  shows "collect (without_noise env) table ci = collect env table ci"
  unfolding collect_def
proof (rule map_filter_cong_set)
  fix n assume "n \<in> set table"
  with assms have n: "n \<in> set (RUSTC_ENV_KEYED @ APPLE_ENV_KEYED @ LINK_ENV_KEYED @ GNU_CC_ENV_KEYED @
      MSVC_CC_ENV_KEYED @ LOCALE_ENV_KEYED)" by blast
  have "last_binding (\<lambda>k. if ci then eq_ignore_ascii_case k n else k = n) (without_noise env) =
      last_binding (\<lambda>k. if ci then eq_ignore_ascii_case k n else k = n) env"
    by (rule last_binding_filter) (metis keyed_not_never [OF n])
  then show "map_option (\<lambda>value. (n, value))
      (last_binding (\<lambda>k. if ci then eq_ignore_ascii_case k n else k = n) (without_noise env)) =
    map_option (\<lambda>value. (n, value))
      (last_binding (\<lambda>k. if ci then eq_ignore_ascii_case k n else k = n) env)" by simp
qed

lemma collect_link_without_noise: "collect_link_table (without_noise env) = collect_link_table env"
  unfolding collect_link_table_def
proof (rule map_filter_cong_set)
  fix n assume "n \<in> set LINK_ENV_KEYED"
  then have n: "n \<in> set (RUSTC_ENV_KEYED @ APPLE_ENV_KEYED @ LINK_ENV_KEYED @ GNU_CC_ENV_KEYED @
      MSVC_CC_ENV_KEYED @ LOCALE_ENV_KEYED)" by simp
  have "last_binding (\<lambda>k. k = n) (without_noise env) = last_binding (\<lambda>k. k = n) env"
    "last_binding (\<lambda>k. eq_ignore_ascii_case k n) (without_noise env) =
       last_binding (\<lambda>k. eq_ignore_ascii_case k n) env"
    by (rule last_binding_filter, metis keyed_not_never [OF n])+
  then show "map_option (\<lambda>value. (n, value)) (case last_binding (\<lambda>k. k = n) (without_noise env) of
        Some v \<Rightarrow> Some v | None \<Rightarrow> last_binding (\<lambda>k. eq_ignore_ascii_case k n) (without_noise env)) =
      map_option (\<lambda>value. (n, value)) (case last_binding (\<lambda>k. k = n) env of
        Some v \<Rightarrow> Some v | None \<Rightarrow> last_binding (\<lambda>k. eq_ignore_ascii_case k n) env)" by (simp only:)
qed

lemma map_of_collect:
  "map_of (collect env table False) n = (if n \<in> set table then last_binding (\<lambda>k. k = n) env else None)"
  by (induction table) (auto simp: collect_def List.map_filter_def split: option.splits)

lemma map_of_collect_link:
  "n \<notin> set LINK_ENV_KEYED \<Longrightarrow> map_of (collect_link_table env) n = None"
  by (auto simp: collect_link_table_def List.map_filter_def map_of_eq_None_iff)

text \<open>
  Only signal is keyed: the variables on the never-keyed list (CI runner noise, job servers,
  terminal settings, the daemon's own controls) change none of the keyed environments, and each
  variable rustc itself reads is keyed with its last binding, so that two environments with equal
  keyed lists agree on all of them.
\<close>

theorem keyed_env_is_signal:
  "keyed_rustc_env (without_noise env) facts = keyed_rustc_env env facts \<and>
   keyed_cc_env (without_noise env) scope = keyed_cc_env env scope \<and>
   keyed_link_env (without_noise env) = keyed_link_env env \<and>
   (map (map_of (keyed_rustc_env env facts)) (RUSTC_ENV_KEYED @ (if apple facts then APPLE_ENV_KEYED else []))) =
     map (\<lambda>n. last_binding (\<lambda>k. k = n) env) (RUSTC_ENV_KEYED @ (if apple facts then APPLE_ENV_KEYED else []))"
proof -
  have disj: "set APPLE_ENV_KEYED \<inter> set LINK_ENV_KEYED = {}" "set RUSTC_ENV_KEYED \<inter> set LINK_ENV_KEYED = {}"
    "set RUSTC_ENV_KEYED \<inter> set APPLE_ENV_KEYED = {}"
    by (simp_all add: RUSTC_ENV_KEYED_def APPLE_ENV_KEYED_def LINK_ENV_KEYED_def)
  have "map_of (keyed_rustc_env env facts) n = last_binding (\<lambda>k. k = n) env"
    if "n \<in> set (RUSTC_ENV_KEYED @ (if apple facts then APPLE_ENV_KEYED else []))" for n
  proof -
    have "n \<notin> set LINK_ENV_KEYED" using that disj by (auto split: if_splits)
    with that disj show ?thesis
      by (auto simp: keyed_rustc_env_def map_of_collect map_add_def map_of_collect_link
          split: option.splits if_splits)
  qed
  then have signal: "map (map_of (keyed_rustc_env env facts)) (RUSTC_ENV_KEYED @ (if apple facts then APPLE_ENV_KEYED else [])) =
     map (\<lambda>n. last_binding (\<lambda>k. k = n) env) (RUSTC_ENV_KEYED @ (if apple facts then APPLE_ENV_KEYED else []))"
    by (intro map_cong) blast+
  have c: "collect (without_noise env) table ci = collect env table ci"
    if "table \<in> {[], RUSTC_ENV_KEYED, APPLE_ENV_KEYED, GNU_CC_ENV_KEYED, MSVC_CC_ENV_KEYED}" for table ci
    by (rule collect_without_noise) (use that in auto)
  have cc: "keyed_cc_env (without_noise env) scope = keyed_cc_env env scope"
    by (cases scope) (simp_all add: keyed_cc_env_def c)
  have "keyed_rustc_env (without_noise env) facts = keyed_rustc_env env facts"
    "keyed_link_env (without_noise env) = keyed_link_env env"
    by (simp_all add: keyed_rustc_env_def keyed_link_env_def collect_link_without_noise c)
  with signal cc show ?thesis by blast
qed

end
