(* ===== verification/ContextKeys.thy ===== *)
theory ContextKeys
  imports Depfile KeyEnv "HOL-Library.Multiset"
begin

text \<open>
  Context keys and artifact keys (\<^verbatim>\<open>crates/zccache-depgraph/src/context\<close>,
  \<^verbatim>\<open>native_cpu.rs\<close>, \<^verbatim>\<open>search_paths.rs\<close>): the byte strings that identify a
  compilation (source, search paths, flags, compiler, environment) and, with the content hashes of
  its files, the artifact it produces.

  The digest is a parameter \<open>h\<close> on byte strings; a key is the digest of the bytes the code feeds to
  its hasher, written here as one list.  The path normaliser a caller injects is the parameter
  \<open>norm\<close>, and the host's CPU salt the parameter \<open>host\<close>.
\<close>

abbreviation nul :: char where
  "nul \<equiv> CHR 0x00"

type_synonym context_key = string
type_synonym artifact_key = string
type_synonym digest = "string \<Rightarrow> string"

subsection \<open>Search paths\<close>

record include_search_paths =
  isp_iquote :: "npath list"
  isp_user :: "npath list"
  isp_system :: "npath list"
  isp_after :: "npath list"

definition isp_canonicalized :: "(string \<Rightarrow> string option) \<Rightarrow> include_search_paths \<Rightarrow> include_search_paths" where
  "isp_canonicalized canon s =
     (let roots = map (\<lambda>path. case canon path of Some c \<Rightarrow> Paths.normalize c | None \<Rightarrow> path)
      in \<lparr> isp_iquote = roots (isp_iquote s), isp_user = roots (isp_user s),
           isp_system = roots (isp_system s), isp_after = roots (isp_after s) \<rparr>)"

definition quoted_search_dirs :: "include_search_paths \<Rightarrow> npath list" where
  "quoted_search_dirs s = isp_iquote s @ isp_user s @ isp_system s @ isp_after s"

definition angle_search_dirs :: "include_search_paths \<Rightarrow> npath list" where
  "angle_search_dirs s = isp_user s @ isp_system s @ isp_after s"

definition all_search_dirs :: "include_search_paths \<Rightarrow> npath list" where
  "all_search_dirs s = isp_iquote s @ isp_user s @ isp_system s @ isp_after s"

subsection \<open>CPU selections that depend on the host\<close>

definition is_cxx_native_cpu_flag :: "string \<Rightarrow> bool" where
  "is_cxx_native_cpu_flag flag \<longleftrightarrow> flag \<in> set [''-march=native'', ''-mtune=native'', ''-mcpu=native'']"

definition is_rustc_native_cpu_flag :: "string \<Rightarrow> bool" where
  "is_rustc_native_cpu_flag flag \<longleftrightarrow> flag \<in> set [''target-cpu=native'', ''target-feature=native'']"

text \<open>\<open>hex\<close> is the hexadecimal rendering of a digest.\<close>

definition host_cpu_identity_salt_from :: "digest \<Rightarrow> (string \<Rightarrow> string) \<Rightarrow> string \<Rightarrow> string" where
  "host_cpu_identity_salt_from h hex identity = hex (h (''zccache-native-cpu-host-v1'' @ [nul] @ identity))"

subsection \<open>C and C++ contexts\<close>

record parsed_args =
  pa_source_file :: npath
  pa_output_file :: "npath option"
  pa_include_search :: include_search_paths
  pa_defines :: "string list"
  pa_undefines :: "string list"
  pa_flags :: "string list"
  pa_force_includes :: "npath list"
  pa_compiler :: "npath option"
  pa_dep_flags :: user_dep_flags
  pa_unknown_flags :: "string list"

record compile_context =
  cc_source_file :: npath
  cc_include_search :: include_search_paths
  cc_defines :: "string list"
  cc_undefines :: "string list"
  cc_flags :: "string list"
  cc_force_includes :: "npath list"
  cc_unknown_flags :: "string list"
  cc_compiler_hash :: string

definition from_parsed_args :: "parsed_args \<Rightarrow> string \<Rightarrow> compile_context" where
  "from_parsed_args args compiler_hash =
     \<lparr> cc_source_file = pa_source_file args, cc_include_search = pa_include_search args,
       cc_defines = sort (pa_defines args), cc_undefines = sort (pa_undefines args),
       cc_flags = sort (pa_flags args), cc_force_includes = pa_force_includes args,
       cc_unknown_flags = sort (pa_unknown_flags args), cc_compiler_hash = compiler_hash \<rparr>"

definition extern_path_key :: "string \<Rightarrow> string" where
  "extern_path_key path = (case file_name path of Some n \<Rightarrow> n | None \<Rightarrow> path)"

definition normalize_key_path :: "string \<Rightarrow> string option \<Rightarrow> string" where
  "normalize_key_path path key_root =
     (case key_root of
        Some root \<Rightarrow> (case path_strip_prefix path root of
                       Some stripped \<Rightarrow> normalize_for_key stripped
                     | None \<Rightarrow> normalize_for_key path)
      | None \<Rightarrow> normalize_for_key path)"

definition normalize_remap_path_prefix_for_key :: "string \<Rightarrow> string option \<Rightarrow> string" where
  "normalize_remap_path_prefix_for_key remap key_root =
     (case key_root of
        None \<Rightarrow> remap
      | Some root \<Rightarrow>
          (case split_once CHR ''='' remap of
             None \<Rightarrow> remap
           | Some (from, to) \<Rightarrow>
               if path_strip_prefix from root \<noteq> None
               then normalize_key_path from key_root @ ''='' @ to else remap))"

definition PREFIX_MAP_FLAGS :: "string list" where
  "PREFIX_MAP_FLAGS =
     [''-ffile-prefix-map='', ''-fdebug-prefix-map='', ''-fmacro-prefix-map='', ''-fcoverage-prefix-map='',
      ''-fprofile-prefix-map='']"

definition normalize_cxx_prefix_map_flag_for_key :: "string \<Rightarrow> string option \<Rightarrow> string" where
  "normalize_cxx_prefix_map_flag_for_key flag key_root =
     (case find (\<lambda>p. strip_prefix p flag \<noteq> None) PREFIX_MAP_FLAGS of
        None \<Rightarrow> flag
      | Some p \<Rightarrow> p @ normalize_remap_path_prefix_for_key (the (strip_prefix p flag)) key_root)"

text \<open>A string and its terminator, and a tagged section of such strings.\<close>

definition entry :: "string \<Rightarrow> string" where
  "entry s = s @ [nul]"

definition section_bytes :: "string \<Rightarrow> string list \<Rightarrow> string" where
  "section_bytes tag items = entry tag @ concat (map entry items)"

definition native_cpu_bytes :: "(string \<Rightarrow> bool) \<Rightarrow> string list \<Rightarrow> string \<Rightarrow> string option \<Rightarrow> string" where
  "native_cpu_bytes is_native flags host native_cpu_salt =
     (if list_ex is_native flags
      then entry ''native-cpu-host'' @ entry (case native_cpu_salt of Some salt \<Rightarrow> salt | None \<Rightarrow> host)
      else [])"

definition context_preimage ::
    "string \<Rightarrow> compile_context \<Rightarrow> string option \<Rightarrow> string option \<Rightarrow> string option \<Rightarrow>
       (string \<Rightarrow> string option \<Rightarrow> string) \<Rightarrow> string" where
  "context_preimage host ctx key_root worktree_salt native_cpu_salt norm =
     entry ''zccache-context-key-v1'' @
     entry ''compiler'' @ entry (cc_compiler_hash ctx) @
     native_cpu_bytes is_cxx_native_cpu_flag (cc_flags ctx @ cc_unknown_flags ctx) host native_cpu_salt @
     (case worktree_salt of Some salt \<Rightarrow> entry ''worktree-salt'' @ entry (normalize_for_key salt) | None \<Rightarrow> []) @
     entry (norm (cc_source_file ctx) key_root) @
     section_bytes ''iquote'' (map (\<lambda>d. norm d key_root) (isp_iquote (cc_include_search ctx))) @
     section_bytes ''user'' (map (\<lambda>d. norm d key_root) (isp_user (cc_include_search ctx))) @
     section_bytes ''system'' (map (\<lambda>d. norm d key_root) (isp_system (cc_include_search ctx))) @
     section_bytes ''after'' (map (\<lambda>d. norm d key_root) (isp_after (cc_include_search ctx))) @
     section_bytes ''defines'' (cc_defines ctx) @
     section_bytes ''undefines'' (cc_undefines ctx) @
     section_bytes ''flags'' (map (\<lambda>f. normalize_cxx_prefix_map_flag_for_key f key_root) (cc_flags ctx)) @
     section_bytes ''force-include'' (map (\<lambda>f. norm f key_root) (cc_force_includes ctx)) @
     section_bytes ''unknown'' (map (\<lambda>f. normalize_cxx_prefix_map_flag_for_key f key_root) (cc_unknown_flags ctx))"

definition compute_context_key_with_native_cpu_salt ::
    "digest \<Rightarrow> string \<Rightarrow> compile_context \<Rightarrow> string option \<Rightarrow> string option \<Rightarrow> string option \<Rightarrow>
       (string \<Rightarrow> string option \<Rightarrow> string) \<Rightarrow> context_key" where
  "compute_context_key_with_native_cpu_salt h host ctx key_root worktree_salt native_cpu_salt norm =
     h (context_preimage host ctx key_root worktree_salt native_cpu_salt norm)"

definition compute_context_key_with ::
    "digest \<Rightarrow> string \<Rightarrow> compile_context \<Rightarrow> string option \<Rightarrow> string option \<Rightarrow>
       (string \<Rightarrow> string option \<Rightarrow> string) \<Rightarrow> context_key" where
  "compute_context_key_with h host ctx key_root worktree_salt norm =
     compute_context_key_with_native_cpu_salt h host ctx key_root worktree_salt None norm"

definition compute_context_key ::
    "digest \<Rightarrow> string \<Rightarrow> compile_context \<Rightarrow> string option \<Rightarrow> string option \<Rightarrow> context_key" where
  "compute_context_key h host ctx key_root worktree_salt =
     compute_context_key_with_native_cpu_salt h host ctx key_root worktree_salt None normalize_key_path"

definition cc_context_key :: "digest \<Rightarrow> string \<Rightarrow> compile_context \<Rightarrow> context_key" where
  "cc_context_key h host ctx = compute_context_key h host ctx None None"

subsection \<open>Artifact keys\<close>

definition file_entries :: "(string \<times> string) list \<Rightarrow> string" where
  "file_entries fs = concat (map (\<lambda>(path_key, hash). entry path_key @ entry hash) fs)"

definition compute_artifact_key_with ::
    "digest \<Rightarrow> context_key \<Rightarrow> (npath \<times> content_hash) list \<Rightarrow> string option \<Rightarrow>
       (string \<Rightarrow> string option \<Rightarrow> string) \<Rightarrow> artifact_key" where
  "compute_artifact_key_with h ck file_hashes key_root norm =
     (let indexed = sort_key fst (map (\<lambda>(p, hash). (norm p key_root, hash)) file_hashes)
      in h (entry ''zccache-artifact-key-v1'' @ entry ck @ file_entries indexed))"

definition compute_artifact_key ::
    "digest \<Rightarrow> context_key \<Rightarrow> (npath \<times> content_hash) list \<Rightarrow> string option \<Rightarrow> artifact_key" where
  "compute_artifact_key h ck file_hashes key_root =
     compute_artifact_key_with h ck file_hashes key_root normalize_key_path"

text \<open>The key kept in a normalised path is the path itself on this host (\<open>np_new_key\<close>).\<close>

definition compute_artifact_key_normalized_with_root ::
    "digest \<Rightarrow> context_key \<Rightarrow> (npath \<times> content_hash) list \<Rightarrow> string option \<Rightarrow> artifact_key" where
  "compute_artifact_key_normalized_with_root h ck file_hashes key_root =
     (let indexed = sort_key fst (map (\<lambda>(np, hash).
            ((case key_root of
                Some root \<Rightarrow>
                  if path_starts_with np root then normalize_key_path np (Some root) else np_key (np_new np)
              | None \<Rightarrow> np_key (np_new np)), hash)) file_hashes)
      in h (entry ''zccache-artifact-key-v1'' @ entry ck @ file_entries indexed))"

definition compute_artifact_key_normalized_inplace ::
    "digest \<Rightarrow> context_key \<Rightarrow> (npath \<times> content_hash) list \<Rightarrow> artifact_key" where
  "compute_artifact_key_normalized_inplace h ck file_hashes =
     compute_artifact_key_normalized_with_root h ck file_hashes None"

subsection \<open>Rust contexts\<close>

text \<open>The fields of the parsed rustc arguments that a context is built from.\<close>

record rustc_parsed_args =
  ra_source_file :: npath
  ra_crate_name :: "string option"
  ra_crate_types :: "string list"
  ra_edition :: "string option"
  ra_emit_types :: "string list"
  ra_cfgs :: "string list"
  ra_check_cfgs :: "string list"
  ra_codegen_flags :: "string list"
  ra_cargo_metadata :: "string option"
  ra_extra_filename :: "string option"
  ra_target :: "string option"
  ra_cap_lints :: "string option"
  ra_externs :: "(string \<times> npath) list"
  ra_lint_flags :: "string list"
  ra_unknown_flags :: "string list"
  ra_remap_path_prefixes :: "string list"

record rustc_compile_context =
  rc_source_file :: npath
  rc_crate_name :: "string option"
  rc_crate_types :: "string list"
  rc_edition :: "string option"
  rc_emit_types :: "string list"
  rc_cfgs :: "string list"
  rc_check_cfgs :: "string list"
  rc_codegen_flags :: "string list"
  rc_cargo_metadata :: "string option"
  rc_extra_filename :: "string option"
  rc_target :: "string option"
  rc_cap_lints :: "string option"
  rc_extern_crates :: "(string \<times> string) list"
  rc_lint_flags :: "string list"
  rc_unknown_flags :: "string list"
  rc_remap_path_prefixes :: "string list"
  rc_env_vars :: environment
  rc_compiler_hash :: string

definition rustc_from_parsed_args_with_driver ::
    "rustc_parsed_args \<Rightarrow> environment \<Rightarrow> string \<Rightarrow> bool \<Rightarrow> rustc_compile_context" where
  "rustc_from_parsed_args_with_driver args client_env compiler_hash plain_rustc =
     (let facts = facts_from_parts (ra_target args) (ra_crate_types args) (ra_emit_types args)
                    (map snd (ra_externs args)) plain_rustc;
          env_vars = keyed_rustc_env client_env facts @
            (if may_read_env_untracked facts
             then filter (\<lambda>(k, _). is_conservatively_keyed_cargo_env k) client_env else [])
      in \<lparr> rc_source_file = ra_source_file args, rc_crate_name = ra_crate_name args,
           rc_crate_types = sort (ra_crate_types args), rc_edition = ra_edition args,
           rc_emit_types = sort (ra_emit_types args), rc_cfgs = ra_cfgs args,
           rc_check_cfgs = ra_check_cfgs args, rc_codegen_flags = ra_codegen_flags args,
           rc_cargo_metadata = ra_cargo_metadata args, rc_extra_filename = ra_extra_filename args,
           rc_target = ra_target args, rc_cap_lints = ra_cap_lints args,
           rc_extern_crates = sort (ra_externs args), rc_lint_flags = ra_lint_flags args,
           rc_unknown_flags = ra_unknown_flags args,
           rc_remap_path_prefixes = sort (ra_remap_path_prefixes args),
           rc_env_vars = sort env_vars, rc_compiler_hash = compiler_hash \<rparr>)"

definition rustc_from_parsed_args ::
    "rustc_parsed_args \<Rightarrow> environment \<Rightarrow> string \<Rightarrow> rustc_compile_context" where
  "rustc_from_parsed_args args client_env compiler_hash =
     rustc_from_parsed_args_with_driver args client_env compiler_hash True"

definition DYLINT_CACHE_INPUT_HASH_ENV :: string where
  "DYLINT_CACHE_INPUT_HASH_ENV = ''ZCCACHE_DYLINT_CACHE_INPUT_HASH''"

definition optional_bytes :: "string \<Rightarrow> string option \<Rightarrow> string" where
  "optional_bytes tag v = (case v of Some s \<Rightarrow> entry tag @ entry s | None \<Rightarrow> [])"

definition remap_bytes :: "string list \<Rightarrow> string option \<Rightarrow> string" where
  "remap_bytes remaps key_root =
     section_bytes ''remap''
       (if key_root \<noteq> None then sort (map (\<lambda>r. normalize_remap_path_prefix_for_key r key_root) remaps)
        else remaps)"

definition env_bytes :: "environment \<Rightarrow> string" where
  "env_bytes env =
     section_bytes ''env''
       (map (\<lambda>(key, val). key @ ''='' @ val)
         (filter (\<lambda>(key, _). \<not> (is_volatile_cargo_env_var key \<or> key = DYLINT_CACHE_INPUT_HASH_ENV \<or>
            is_never_keyed_env key)) env))"

text \<open>The head both Rust keys share: compiler, CPU salt, source, crate name and crate types.\<close>

definition rustc_head_bytes ::
    "string \<Rightarrow> string \<Rightarrow> rustc_compile_context \<Rightarrow> string option \<Rightarrow> string option \<Rightarrow> string" where
  "rustc_head_bytes domain host ctx key_root native_cpu_salt =
     entry domain @
     entry ''compiler'' @ entry (rc_compiler_hash ctx) @
     native_cpu_bytes is_rustc_native_cpu_flag (rc_codegen_flags ctx) host native_cpu_salt @
     entry (normalize_key_path (rc_source_file ctx) key_root) @
     optional_bytes ''crate-name'' (rc_crate_name ctx) @
     section_bytes ''crate-types'' (rc_crate_types ctx) @
     optional_bytes ''edition'' (rc_edition ctx)"

definition rustc_context_preimage ::
    "string \<Rightarrow> rustc_compile_context \<Rightarrow> string option \<Rightarrow> string option \<Rightarrow> string" where
  "rustc_context_preimage host ctx key_root native_cpu_salt =
     rustc_head_bytes ''zccache-rustc-context-key-v4'' host ctx key_root native_cpu_salt @
     section_bytes ''emit'' (rc_emit_types ctx) @
     section_bytes ''cfg'' (rc_cfgs ctx) @
     section_bytes ''check-cfg'' (rc_check_cfgs ctx) @
     section_bytes ''codegen'' (rc_codegen_flags ctx) @
     optional_bytes ''cargo-metadata'' (rc_cargo_metadata ctx) @
     optional_bytes ''extra-filename'' (rc_extra_filename ctx) @
     optional_bytes ''target'' (rc_target ctx) @
     optional_bytes ''cap-lints'' (rc_cap_lints ctx) @
     section_bytes ''externs'' (map (\<lambda>(name, path). name @ ''='' @ extern_path_key path) (rc_extern_crates ctx)) @
     section_bytes ''lints'' (rc_lint_flags ctx) @
     section_bytes ''unknown'' (rc_unknown_flags ctx) @
     remap_bytes (rc_remap_path_prefixes ctx) key_root @
     env_bytes (rc_env_vars ctx)"

definition rustc_context_key_with_root_and_native_cpu_salt ::
    "digest \<Rightarrow> string \<Rightarrow> rustc_compile_context \<Rightarrow> string option \<Rightarrow> string option \<Rightarrow> context_key" where
  "rustc_context_key_with_root_and_native_cpu_salt h host ctx key_root native_cpu_salt =
     h (rustc_context_preimage host ctx key_root native_cpu_salt)"

definition rustc_context_key_with_root ::
    "digest \<Rightarrow> string \<Rightarrow> rustc_compile_context \<Rightarrow> string option \<Rightarrow> context_key" where
  "rustc_context_key_with_root h host ctx key_root =
     rustc_context_key_with_root_and_native_cpu_salt h host ctx key_root None"

definition rustc_context_key :: "digest \<Rightarrow> string \<Rightarrow> rustc_compile_context \<Rightarrow> context_key" where
  "rustc_context_key h host ctx = rustc_context_key_with_root_and_native_cpu_salt h host ctx None None"

definition normalized_check_metadata_emit :: "string list \<Rightarrow> string list option" where
  "normalized_check_metadata_emit emit_types =
     (let has = (\<lambda>needle. needle \<in> set emit_types); n = length emit_types
      in if n = 1 \<and> has ''metadata'' then Some [''metadata'']
         else if n = 2 \<and> has ''metadata'' \<and> has ''link'' then Some [''metadata'']
         else if n = 2 \<and> has ''dep-info'' \<and> has ''metadata'' then Some [''dep-info'', ''metadata'']
         else if n = 3 \<and> has ''dep-info'' \<and> has ''metadata'' \<and> has ''link'' then Some [''dep-info'', ''metadata'']
         else None)"

definition compat_preimage ::
    "string \<Rightarrow> rustc_compile_context \<Rightarrow> string list \<Rightarrow> string option \<Rightarrow> string option \<Rightarrow> string" where
  "compat_preimage host ctx emit key_root native_cpu_salt =
     rustc_head_bytes ''zccache-rustc-check-metadata-compat-key-v1'' host ctx key_root native_cpu_salt @
     section_bytes ''emit'' emit @
     section_bytes ''cfg'' (rc_cfgs ctx) @
     section_bytes ''check-cfg'' (rc_check_cfgs ctx) @
     section_bytes ''codegen'' (rc_codegen_flags ctx) @
     optional_bytes ''target'' (rc_target ctx) @
     optional_bytes ''cap-lints'' (rc_cap_lints ctx) @
     section_bytes ''externs'' (map fst (rc_extern_crates ctx)) @
     section_bytes ''lints'' (rc_lint_flags ctx) @
     section_bytes ''unknown'' (rc_unknown_flags ctx) @
     remap_bytes (rc_remap_path_prefixes ctx) key_root @
     env_bytes (rc_env_vars ctx)"

definition check_metadata_compat_key_with_root_and_native_cpu_salt ::
    "digest \<Rightarrow> string \<Rightarrow> rustc_compile_context \<Rightarrow> string option \<Rightarrow> string option \<Rightarrow> context_key option" where
  "check_metadata_compat_key_with_root_and_native_cpu_salt h host ctx key_root native_cpu_salt =
     (case normalized_check_metadata_emit (rc_emit_types ctx) of
        None \<Rightarrow> None
      | Some normalized_emit \<Rightarrow>
          if list_ex (\<lambda>ct. ct \<in> set [''bin'', ''proc-macro'', ''staticlib'', ''dylib'', ''cdylib''])
               (rc_crate_types ctx) then None
          else Some (h (compat_preimage host ctx normalized_emit key_root native_cpu_salt)))"

definition check_metadata_compat_key_with_root ::
    "digest \<Rightarrow> string \<Rightarrow> rustc_compile_context \<Rightarrow> string option \<Rightarrow> context_key option" where
  "check_metadata_compat_key_with_root h host ctx key_root =
     check_metadata_compat_key_with_root_and_native_cpu_salt h host ctx key_root None"

subsection \<open>Rust artifact keys\<close>

definition compute_rustc_artifact_key_with_root_with ::
    "digest \<Rightarrow> context_key \<Rightarrow> (npath \<times> content_hash) list \<Rightarrow> (string \<times> content_hash) list \<Rightarrow>
       string option \<Rightarrow> (string \<Rightarrow> string option \<Rightarrow> string) \<Rightarrow> artifact_key" where
  "compute_rustc_artifact_key_with_root_with h ck file_hashes extern_hashes key_root norm =
     (let indexed = sort_key fst (map (\<lambda>(p, hash). (norm p key_root, hash)) file_hashes);
          externs = sort_key fst extern_hashes
      in h (entry ''zccache-rustc-artifact-key-v1'' @ entry ck @ file_entries indexed @
            entry ''externs'' @ file_entries externs))"

definition compute_rustc_artifact_key_with_root ::
    "digest \<Rightarrow> context_key \<Rightarrow> (npath \<times> content_hash) list \<Rightarrow> (string \<times> content_hash) list \<Rightarrow>
       string option \<Rightarrow> artifact_key" where
  "compute_rustc_artifact_key_with_root h ck file_hashes extern_hashes key_root =
     compute_rustc_artifact_key_with_root_with h ck file_hashes extern_hashes key_root normalize_key_path"

definition compute_rustc_artifact_key ::
    "digest \<Rightarrow> context_key \<Rightarrow> (npath \<times> content_hash) list \<Rightarrow> (string \<times> content_hash) list \<Rightarrow> artifact_key" where
  "compute_rustc_artifact_key h ck file_hashes extern_hashes =
     compute_rustc_artifact_key_with_root h ck file_hashes extern_hashes None"

definition compute_rustc_verdict_key :: "digest \<Rightarrow> string \<Rightarrow> string option \<Rightarrow> artifact_key" where
  "compute_rustc_verdict_key h artifact_key_hex dylint_input_hash =
     h (entry ''zccache-rustc-verdict-key-v1'' @ artifact_key_hex @ [nul] @ entry ''mode'' @
        (case dylint_input_hash of Some hash \<Rightarrow> entry ''dylint'' @ hash | None \<Rightarrow> ''plain''))"

definition fold_rustc_env_deps_into_artifact_key ::
    "digest \<Rightarrow> artifact_key \<Rightarrow> (string \<times> content_hash option) list \<Rightarrow> artifact_key" where
  "fold_rustc_env_deps_into_artifact_key h base env_hashes =
     (if env_hashes = [] then base
      else h (entry ''zccache-rustc-env-deps-v1'' @ entry base @
              concat (map (\<lambda>(name, value_hash).
                entry name @ entry (case value_hash of Some hash \<Rightarrow> hash | None \<Rightarrow> ''unset''))
                (sort_key fst env_hashes))))"

subsection \<open>Reading keys back\<close>

lemma entry_split: "nul \<notin> set a \<Longrightarrow> nul \<notin> set b \<Longrightarrow> entry a @ x = entry b @ y \<Longrightarrow> a = b \<and> x = y"
proof (induction a arbitrary: b)
  case Nil
  then show ?case by (cases b) (auto simp: entry_def)
next
  case (Cons c a)
  then obtain b' where "b = c # b'" by (cases b) (auto simp: entry_def)
  with Cons show ?case by (auto simp: entry_def)
qed

lemma entry_sized: "length a = length b \<Longrightarrow> entry a @ x = entry b @ y \<Longrightarrow> a = b \<and> x = y"
  by (simp add: entry_def)

definition hashed_files :: "(string \<times> string) list \<Rightarrow> bool" where
  "hashed_files fs \<longleftrightarrow> list_all (\<lambda>(k, hash). nul \<notin> set k \<and> length hash = 32) fs"

lemma file_entries_inj: "hashed_files fs \<Longrightarrow> hashed_files gs \<Longrightarrow> file_entries fs = file_entries gs \<Longrightarrow> fs = gs"
proof (induction fs arbitrary: gs)
  case Nil
  then show ?case by (cases gs) (auto simp: file_entries_def entry_def)
next
  case (Cons f fs)
  obtain k hash where f: "f = (k, hash)" by (cases f)
  from Cons.prems obtain k' hash' gs' where g: "gs = (k', hash') # gs'"
    by (cases gs) (auto simp: f file_entries_def entry_def)
  from Cons.prems have "entry k @ entry hash @ file_entries fs = entry k' @ entry hash' @ file_entries gs'"
    by (simp add: f g file_entries_def)
  moreover from Cons.prems have c: "nul \<notin> set k" "nul \<notin> set k'" "length hash = length hash'"
    "hashed_files fs" "hashed_files gs'"
    by (simp_all add: f g hashed_files_def)
  ultimately have "k = k'" "hash = hash'" "file_entries fs = file_entries gs'"
    by (metis entry_split, metis entry_split entry_sized, metis entry_split entry_sized)
  with Cons.IH [OF c(4,5)] show ?case by (simp add: f g)
qed

abbreviation keyed_files :: "(npath \<times> content_hash) list \<Rightarrow> string option \<Rightarrow> (string \<times> content_hash) list" where
  "keyed_files fs root \<equiv> map (\<lambda>(p, hash). (normalize_key_path p root, hash)) fs"

definition artifact_preimage :: "context_key \<Rightarrow> (string \<times> content_hash) list \<Rightarrow> string" where
  "artifact_preimage ck fs = entry ''zccache-artifact-key-v1'' @ entry ck @ file_entries (sort_key fst fs)"

lemma compute_artifact_key_preimage:
  "compute_artifact_key h ck fs root = h (artifact_preimage ck (keyed_files fs root))"
  by (simp add: compute_artifact_key_def compute_artifact_key_with_def artifact_preimage_def)

lemma normalized_artifact_key:
  "compute_artifact_key_normalized_with_root h ck fs root = compute_artifact_key h ck fs root"
proof -
  have "(case root of
        Some root \<Rightarrow> if path_starts_with np root then normalize_key_path np (Some root) else np_key (np_new np)
      | None \<Rightarrow> np_key (np_new np)) = normalize_key_path np root" for np
    by (auto simp: normalize_key_path_def path_strip_prefix_def np_new_key normalize_for_key_def split: option.split)
  then show ?thesis
    by (simp add: compute_artifact_key_normalized_with_root_def compute_artifact_key_def compute_artifact_key_with_def)
qed

lemma hashed_files_sort: "hashed_files fs \<Longrightarrow> hashed_files (sort_key fst fs)"
  by (simp add: hashed_files_def list_all_iff)

lemma artifact_preimage_inj:
  assumes "artifact_preimage ck fs = artifact_preimage ck' fs'" and "length ck = length ck'"
    and "hashed_files fs" and "hashed_files fs'"
  shows "ck = ck' \<and> mset fs = mset fs'"
proof -
  from assms(1) have "entry ck @ file_entries (sort_key fst fs) = entry ck' @ file_entries (sort_key fst fs')"
    by (simp add: artifact_preimage_def)
  from entry_sized [OF assms(2) this] have "ck = ck'"
    and e: "file_entries (sort_key fst fs) = file_entries (sort_key fst fs')" by simp_all
  moreover from file_entries_inj [OF hashed_files_sort [OF assms(3)] hashed_files_sort [OF assms(4)] e]
  have "mset fs = mset fs'" by (metis mset_sort)
  ultimately show ?thesis by simp
qed

text \<open>Rebasing a path below a root and keying it relative to that root gives the relative path.\<close>

definition clean_relative :: "string \<Rightarrow> bool" where
  "clean_relative p \<longleftrightarrow> Paths.normalize p = p \<and> list_all (\<lambda>c. case c of Normal _ \<Rightarrow> True | _ \<Rightarrow> False) (path_components p)"

definition clean_root :: "string \<Rightarrow> bool" where
  "clean_root r \<longleftrightarrow> is_absolute r \<and> Paths.normalize r = r"

lemma normalize_self_components:
  assumes "Paths.normalize p = p"
  shows "normal_form (path_components p)" and "collect_path (path_components p) = p"
proof -
  have "path_components p = normalize_components (path_components p)"
    using components_normalize [of p] assms by simp
  then show nf: "normal_form (path_components p)"
    using normalize_components_normal_form [of p] by simp
  show "collect_path (path_components p) = p"
    using assms normalize_normal_form [OF nf] by (simp add: normalize_def)
qed

lemma clean_relative_plain: "clean_relative p \<Longrightarrow> list_all plain (path_components p)"
  using normal_form_rooted [OF normalize_self_components(1) [of p]]
  by (auto simp: clean_relative_def rooted_def list_all_iff split: component.splits)

subsection \<open>Files inside and outside the workspace\<close>

text \<open>A file is given relative to the workspace, or by its absolute path outside it.\<close>

datatype placed = InTree string | Outside npath

definition below :: "npath \<Rightarrow> string \<Rightarrow> npath" where
  "below r p = Paths.normalize (path_join r p)"

fun place :: "npath \<Rightarrow> placed \<Rightarrow> npath" where
  "place r (InTree p) = below r p"
| "place r (Outside p) = p"

fun placeable :: "npath \<Rightarrow> placed \<Rightarrow> bool" where
  "placeable r (InTree p) = clean_relative p"
| "placeable r (Outside p) = (Paths.normalize p = p \<and> \<not> path_starts_with p r)"

lemma below_components:
  assumes r: "clean_root r" and p: "clean_relative p"
  shows "path_components (below r p) = path_components r @ path_components p"
proof -
  note R = normalize_self_components [of r] and P = normalize_self_components [of p]
  have r': "Paths.normalize r = r" "path_components r \<noteq> []" and p': "Paths.normalize p = p"
    using r p by (auto simp: clean_root_def clean_relative_def path_components_def)
  have join: "path_components (path_join r p) = path_components r @ path_components p"
    using components_join_plain [OF R(1) [OF r'(1)] r'(2) clean_relative_plain [OF p]] R(2) [OF r'(1)] P(2) [OF p'] by simp
  obtain rt k ns where nf: "path_components r = rt @ replicate k ParentDir @ map Normal ns"
    "rt \<in> {[], [RootDir]}" "list_all good_name ns"
    using R(1) [OF r'(1)] unfolding normal_form_def by blast
  have "\<exists>ms. path_components p = map Normal ms \<and> list_all good_name ms"
  proof -
    have "\<exists>ms. cs = map Normal ms \<and> list_all good_name ms"
      if "list_all plain cs" "list_all (\<lambda>c. case c of Normal _ \<Rightarrow> True | _ \<Rightarrow> False) cs" for cs
      using that
    proof (induction cs)
      case (Cons c cs)
      then obtain ms n where "cs = map Normal ms" "list_all good_name ms" "c = Normal n" "good_name n"
        by (auto split: component.splits)
      then have "c # cs = map Normal (n # ms) \<and> list_all good_name (n # ms)" by simp
      then show ?case by (rule exI)
    qed simp
    with p clean_relative_plain [OF p] show ?thesis by (simp add: clean_relative_def)
  qed
  then obtain ms where ms: "path_components p = map Normal ms" "list_all good_name ms" by blast
  have "normal_form (path_components r @ path_components p)"
    unfolding normal_form_def
    by (rule exI [of _ rt], rule exI [of _ k], rule exI [of _ "ns @ ms"]) (use nf ms in simp)
  then show ?thesis
    unfolding below_def by (simp add: components_normalize join normalize_normal_form)
qed

lemma strip_below:
  assumes "clean_root r" and "clean_relative p"
  shows "path_strip_prefix (below r p) r = Some p"
  using below_components [OF assms] normalize_self_components(2) [of p] assms(2)
  by (simp add: path_strip_prefix_def path_starts_with_def clean_relative_def)

lemma key_of_placed:
  "clean_root r \<Longrightarrow> placeable r f \<Longrightarrow>
     normalize_key_path (place r f) (Some r) = (case f of InTree p \<Rightarrow> p | Outside p \<Rightarrow> p)"
proof (cases f)
  case (InTree p)
  assume "clean_root r" "placeable r f"
  with InTree show ?thesis by (simp add: normalize_key_path_def strip_below normalize_for_key_def)
      (simp add: clean_relative_def)
next
  case (Outside p)
  assume "placeable r f"
  with Outside show ?thesis by (simp add: normalize_key_path_def path_strip_prefix_def normalize_for_key_def)
qed

lemma prefix_map_flag_plain:
  assumes "list_all (\<lambda>p. \<not> prefix p f) PREFIX_MAP_FLAGS"
  shows "normalize_cxx_prefix_map_flag_for_key f root = f"
proof -
  have "find (\<lambda>p. strip_prefix p f \<noteq> None) PREFIX_MAP_FLAGS = None"
    using assms by (auto simp: find_None_iff strip_prefix_def list_all_iff)
  then show ?thesis by (simp add: normalize_cxx_prefix_map_flag_for_key_def)
qed

text \<open>
  A flag of a compilation: one that names no path, or a prefix map from a place (the workspace itself is
  the empty place in the tree) to some text.
\<close>

datatype placed_flag = PlainFlag string | PrefixMap string placed string

fun flag_at :: "npath \<Rightarrow> placed_flag \<Rightarrow> string" where
  "flag_at r (PlainFlag f) = f"
| "flag_at r (PrefixMap name src dst) = name @ place r src @ ''='' @ dst"

fun flag_fits :: "npath \<Rightarrow> placed_flag \<Rightarrow> bool" where
  "flag_fits r (PlainFlag f) \<longleftrightarrow> list_all (\<lambda>p. \<not> prefix p f) PREFIX_MAP_FLAGS"
| "flag_fits r (PrefixMap name src dst) \<longleftrightarrow>
     name \<in> set PREFIX_MAP_FLAGS \<and> placeable r src \<and> CHR ''='' \<notin> set (place r src)"

text \<open>The paths and flags of a compilation, each below the workspace or outside it, and the context at a root.\<close>

record context_layout =
  cl_source :: placed
  cl_iquote :: "placed list"
  cl_user :: "placed list"
  cl_system :: "placed list"
  cl_after :: "placed list"
  cl_force :: "placed list"
  cl_flags :: "placed_flag list"
  cl_unknown :: "placed_flag list"

definition context_at :: "npath \<Rightarrow> context_layout \<Rightarrow> compile_context \<Rightarrow> compile_context" where
  "context_at r l ctx =
     ctx\<lparr> cc_source_file := place r (cl_source l),
          cc_include_search :=
            \<lparr> isp_iquote = map (place r) (cl_iquote l), isp_user = map (place r) (cl_user l),
              isp_system = map (place r) (cl_system l), isp_after = map (place r) (cl_after l) \<rparr>,
          cc_force_includes := map (place r) (cl_force l),
          cc_flags := map (flag_at r) (cl_flags l), cc_unknown_flags := map (flag_at r) (cl_unknown l) \<rparr>"

definition layout_fits :: "npath \<Rightarrow> context_layout \<Rightarrow> bool" where
  "layout_fits r l \<longleftrightarrow>
     list_all (placeable r) (cl_source l # cl_iquote l @ cl_user l @ cl_system l @ cl_after l @ cl_force l) \<and>
     list_all (flag_fits r) (cl_flags l @ cl_unknown l)"

definition place_key :: "placed \<Rightarrow> string" where
  "place_key f = (case f of InTree p \<Rightarrow> p | Outside p \<Rightarrow> p)"

fun flag_key :: "placed_flag \<Rightarrow> string" where
  "flag_key (PlainFlag f) = f"
| "flag_key (PrefixMap name src dst) = name @ place_key src @ ''='' @ dst"

lemma prefix_map_flag_found:
  assumes "name \<in> set PREFIX_MAP_FLAGS"
  shows "normalize_cxx_prefix_map_flag_for_key (name @ x) root = name @ normalize_remap_path_prefix_for_key x root"
  using assms by (auto simp: PREFIX_MAP_FLAGS_def normalize_cxx_prefix_map_flag_for_key_def strip_prefix_def)

lemma flag_key_at:
  assumes "clean_root r" and "flag_fits r f"
  shows "normalize_cxx_prefix_map_flag_for_key (flag_at r f) (Some r) = flag_key f"
proof (cases f)
  case (PrefixMap name src dst)
  with assms(2) have f: "name \<in> set PREFIX_MAP_FLAGS" "placeable r src" "CHR ''='' \<notin> set (place r src)" by simp_all
  have "split_once CHR ''='' (x @ CHR ''='' # dst) = Some (x, dst)" if "CHR ''='' \<notin> set x" for x
    using that by (induction x) (auto simp: split_once_def)
  note split = this [OF f(3)]
  have "normalize_remap_path_prefix_for_key (place r src @ CHR ''='' # dst) (Some r) = place_key src @ CHR ''='' # dst"
  proof (cases src)
    case (InTree p)
    with f(2) assms(1) have "path_strip_prefix (place r src) r = Some p" by (simp add: strip_below)
    with split key_of_placed [OF assms(1) f(2)] InTree show ?thesis
      by (simp add: normalize_remap_path_prefix_for_key_def place_key_def)
  next
    case (Outside p)
    with f(2) have "path_strip_prefix (place r src) r = None" by (simp add: path_strip_prefix_def)
    with split Outside show ?thesis by (simp add: normalize_remap_path_prefix_for_key_def place_key_def)
  qed
  with prefix_map_flag_found [OF f(1)] PrefixMap show ?thesis by simp
qed (use assms in \<open>simp add: prefix_map_flag_plain\<close>)

lemma native_flag_at: "flag_fits r f \<Longrightarrow> is_cxx_native_cpu_flag (flag_at r f) \<longleftrightarrow> is_cxx_native_cpu_flag (flag_key f)"
  by (cases f) (auto simp: is_cxx_native_cpu_flag_def PREFIX_MAP_FLAGS_def)

lemma native_flags_at:
  "list_all (flag_fits r) fs \<Longrightarrow> list_ex is_cxx_native_cpu_flag (map (flag_at r) fs) = list_ex is_cxx_native_cpu_flag (map flag_key fs)"
  by (induction fs) (simp_all add: native_flag_at)

lemma place_keys:
  "clean_root r \<Longrightarrow> list_all (placeable r) ps \<Longrightarrow> map ((\<lambda>d. normalize_key_path d (Some r)) \<circ> place r) ps = map place_key ps"
  by (induction ps) (simp_all add: key_of_placed place_key_def)

lemma flag_keys:
  "clean_root r \<Longrightarrow> list_all (flag_fits r) fs \<Longrightarrow>
     map ((\<lambda>f. normalize_cxx_prefix_map_flag_for_key f (Some r)) \<circ> flag_at r) fs = map flag_key fs"
  by (induction fs) (simp_all add: flag_key_at)

text \<open>The bytes of a context that names its places and flags by their keys.\<close>

definition layout_preimage :: "string \<Rightarrow> context_layout \<Rightarrow> compile_context \<Rightarrow> string option \<Rightarrow> string option \<Rightarrow> string" where
  "layout_preimage host l ctx worktree_salt native_cpu_salt =
     entry ''zccache-context-key-v1'' @ entry ''compiler'' @ entry (cc_compiler_hash ctx) @
     native_cpu_bytes is_cxx_native_cpu_flag (map flag_key (cl_flags l @ cl_unknown l)) host native_cpu_salt @
     (case worktree_salt of Some salt \<Rightarrow> entry ''worktree-salt'' @ entry (normalize_for_key salt) | None \<Rightarrow> []) @
     entry (place_key (cl_source l)) @ section_bytes ''iquote'' (map place_key (cl_iquote l)) @
     section_bytes ''user'' (map place_key (cl_user l)) @ section_bytes ''system'' (map place_key (cl_system l)) @
     section_bytes ''after'' (map place_key (cl_after l)) @ section_bytes ''defines'' (cc_defines ctx) @
     section_bytes ''undefines'' (cc_undefines ctx) @ section_bytes ''flags'' (map flag_key (cl_flags l)) @
     section_bytes ''force-include'' (map place_key (cl_force l)) @ section_bytes ''unknown'' (map flag_key (cl_unknown l))"

lemma context_at_preimage:
  assumes "clean_root r" and "layout_fits r l"
  shows "context_preimage host (context_at r l ctx) (Some r) worktree_salt native_cpu_salt normalize_key_path =
    layout_preimage host l ctx worktree_salt native_cpu_salt"
proof -
  from assms(2) have p: "placeable r (cl_source l)" "list_all (placeable r) (cl_iquote l)" "list_all (placeable r) (cl_user l)"
    "list_all (placeable r) (cl_system l)" "list_all (placeable r) (cl_after l)" "list_all (placeable r) (cl_force l)"
    "list_all (flag_fits r) (cl_flags l)" "list_all (flag_fits r) (cl_unknown l)"
    by (simp_all add: layout_fits_def)
  note k = place_keys [OF assms(1) p(2)] place_keys [OF assms(1) p(3)] place_keys [OF assms(1) p(4)] place_keys [OF assms(1) p(5)]
    place_keys [OF assms(1) p(6)] flag_keys [OF assms(1) p(7)] flag_keys [OF assms(1) p(8)]
    native_flags_at [OF p(7)] native_flags_at [OF p(8)] key_of_placed [OF assms(1) p(1)]
  show ?thesis
    by (simp add: context_preimage_def layout_preimage_def context_at_def native_cpu_bytes_def k place_key_def [symmetric])
qed

subsection \<open>Properties of the keys\<close>

text \<open>
  C21. The artifact key identifies the compilation: where the digest does not collide on the two
  inputs, equal keys mean the same context key and the same files with the same content hashes.
\<close>

theorem artifact_key_identifies:
  assumes "compute_artifact_key h ck fs root = compute_artifact_key h ck' fs' root'"
    and "inj_on h {artifact_preimage ck (keyed_files fs root), artifact_preimage ck' (keyed_files fs' root')}"
    and "length ck = 32" and "length ck' = 32"
    and "hashed_files (keyed_files fs root)" and "hashed_files (keyed_files fs' root')"
  shows "ck = ck' \<and> mset (keyed_files fs root) = mset (keyed_files fs' root')"
proof (rule artifact_preimage_inj)
  show "artifact_preimage ck (keyed_files fs root) = artifact_preimage ck' (keyed_files fs' root')"
    using assms(1,2) by (auto simp: compute_artifact_key_preimage)
qed (use assms in simp_all)

theorem artifact_key_identifies_witness:
  "mset (keyed_files [(''/b'', replicate 32 CHR ''x''), (''/a'', replicate 32 CHR ''y'')] None) =
   mset (keyed_files [(''/a'', replicate 32 CHR ''y''), (''/b'', replicate 32 CHR ''x'')] None)"
proof -
  have n: "Paths.normalize ''/a'' = ''/a''" "Paths.normalize ''/b'' = ''/b''" by code_simp+
  have le: "''/a'' \<le> ''/b''" "\<not> ''/b'' \<le> ''/a''" by code_simp+
  have "replicate 32 CHR ''k'' = replicate 32 CHR ''k'' \<and>
    mset (keyed_files [(''/b'', replicate 32 CHR ''x''), (''/a'', replicate 32 CHR ''y'')] None) =
    mset (keyed_files [(''/a'', replicate 32 CHR ''y''), (''/b'', replicate 32 CHR ''x'')] None)"
    by (rule artifact_key_identifies [where h = "\<lambda>s. s"])
       (simp_all add: compute_artifact_key_def compute_artifact_key_with_def normalize_key_path_def
          normalize_for_key_def n le hashed_files_def)
  then show ?thesis by simp
qed

text \<open>
  The optimised artifact key, which borrows the key cached in each normalised path, equals the
  reference computation for every context, file list and key root; an update and the check that
  follows it therefore speak about the same key.
\<close>

theorem artifact_key_fast_path:
  "compute_artifact_key_normalized_with_root h ck fs root = compute_artifact_key h ck fs root \<and>
   compute_artifact_key_normalized_inplace h ck fs = compute_artifact_key h ck fs None"
  by (simp add: compute_artifact_key_normalized_inplace_def normalized_artifact_key)

text \<open>
  C35. The section tags of the context key do not separate the sections: defining a macro named like
  the next section's tag and undefining it give the same bytes, hence the same key for every
  digest; and so do, below the key root \<^verbatim>\<open>/ws\<close>, a directory \<^verbatim>\<open>/ws/user\<close> searched for quoted
  includes only and the same directory searched for all of them.
\<close>

theorem context_sections_collide:
  "compute_context_key h host (ctx\<lparr>cc_defines := [''undefines''], cc_undefines := []\<rparr>) root salt =
     compute_context_key h host (ctx\<lparr>cc_defines := [], cc_undefines := [''undefines'']\<rparr>) root salt \<and>
   compute_context_key h host (ctx\<lparr>cc_include_search :=
       \<lparr>isp_iquote = [''/ws/user''], isp_user = [], isp_system = sys, isp_after = aft\<rparr>\<rparr>) (Some ''/ws'') salt =
     compute_context_key h host (ctx\<lparr>cc_include_search :=
       \<lparr>isp_iquote = [], isp_user = [''/ws/user''], isp_system = sys, isp_after = aft\<rparr>\<rparr>) (Some ''/ws'') salt"
proof -
  have "normalize_key_path ''/ws/user'' (Some ''/ws'') = ''user''" by code_simp
  then show ?thesis
    by (simp add: compute_context_key_def compute_context_key_with_native_cpu_salt_def context_preimage_def
        section_bytes_def)
qed

text \<open>
  A C or C++ context key carries the compiler's identity: where the digest does not collide, equal
  keys mean equal compiler hashes, so that an in-place toolchain upgrade
  always changes the key.
\<close>

theorem compiler_identity_in_key:
  assumes "compute_context_key h host a root salt = compute_context_key h host' b root' salt'"
    and "inj_on h {context_preimage host a root salt None normalize_key_path,
                   context_preimage host' b root' salt' None normalize_key_path}"
    and "length (cc_compiler_hash a) = 32" and "length (cc_compiler_hash b) = 32"
  shows "cc_compiler_hash a = cc_compiler_hash b"
proof -
  have pre: "context_preimage host a root salt None normalize_key_path =
      context_preimage host' b root' salt' None normalize_key_path"
    using assms(1,2) by (auto simp: compute_context_key_def compute_context_key_with_native_cpu_salt_def)
  obtain x y where "context_preimage host a root salt None normalize_key_path =
      entry ''zccache-context-key-v1'' @ entry ''compiler'' @ entry (cc_compiler_hash a) @ x"
    "context_preimage host' b root' salt' None normalize_key_path =
      entry ''zccache-context-key-v1'' @ entry ''compiler'' @ entry (cc_compiler_hash b) @ y"
    unfolding context_preimage_def by blast
  with pre have "entry (cc_compiler_hash a) @ x = entry (cc_compiler_hash b) @ y" by simp
  from entry_sized [OF _ this] assms(3,4) show ?thesis by simp
qed

definition sample_context :: compile_context where
  "sample_context =
     \<lparr> cc_source_file = ''src/a.c'',
       cc_include_search = \<lparr> isp_iquote = [], isp_user = [''include''], isp_system = [], isp_after = [] \<rparr>,
       cc_defines = [''A=1''], cc_undefines = [], cc_flags = [''-O2''], cc_force_includes = [],
       cc_unknown_flags = [], cc_compiler_hash = replicate 32 CHR ''c'' \<rparr>"

theorem compiler_identity_in_key_witness:
  "cc_compiler_hash sample_context = cc_compiler_hash (sample_context\<lparr>cc_unknown_flags := []\<rparr>)"
  by (rule compiler_identity_in_key [where h = "\<lambda>s. s" and host = "[]" and host' = "[]" and root = None
        and root' = None and salt = None and salt' = None])
     (simp_all add: sample_context_def)


definition sample_layout :: context_layout where
  "sample_layout =
     \<lparr> cl_source = InTree ''src/a.c'', cl_iquote = [], cl_user = [InTree ''include''], cl_system = [Outside ''/usr/include''],
       cl_after = [], cl_force = [], cl_flags = [PlainFlag ''-O2'', PrefixMap ''-ffile-prefix-map='' (InTree []) ''.''],
       cl_unknown = [] \<rparr>"


text \<open>
  The order of macro definitions, undefinitions and flags on the command line does not reach
  the key: argument lists with the same multisets of each give the same context key.
\<close>

theorem flag_order_irrelevant:
  assumes "mset (pa_defines a) = mset ds" and "mset (pa_undefines a) = mset us"
    and "mset (pa_flags a) = mset fs" and "mset (pa_unknown_flags a) = mset ks"
  shows "compute_context_key h host (from_parsed_args
        (a\<lparr>pa_defines := ds, pa_undefines := us, pa_flags := fs, pa_unknown_flags := ks\<rparr>) ch) root salt =
      compute_context_key h host (from_parsed_args a ch) root salt"
proof -
  have "sort xs = sort ys" if "mset xs = mset ys" for xs ys :: "string list"
    using that by (metis mset_sort properties_for_sort sorted_sort)
  from this [OF assms(1)] this [OF assms(2)] this [OF assms(3)] this [OF assms(4)] show ?thesis
    by (simp add: from_parsed_args_def)
qed

definition sample_args :: parsed_args where
  "sample_args =
     \<lparr> pa_source_file = ''/a.c'', pa_output_file = None,
       pa_include_search = \<lparr> isp_iquote = [], isp_user = [], isp_system = [], isp_after = [] \<rparr>,
       pa_defines = [''A'', ''B''], pa_undefines = [], pa_flags = [], pa_force_includes = [],
       pa_compiler = None, pa_dep_flags = no_dep_flags, pa_unknown_flags = [] \<rparr>"

theorem flag_order_irrelevant_witness:
  "cc_context_key (\<lambda>s. s) [] (from_parsed_args (sample_args\<lparr>pa_defines := [''B'', ''A'']\<rparr>) []) =
     cc_context_key (\<lambda>s. s) [] (from_parsed_args sample_args [])"
  using flag_order_irrelevant [of sample_args "[''B'', ''A'']" "[]" "[]" "[]" "\<lambda>s. s" "[]" "[]" None None]
  by (simp add: sample_args_def cc_context_key_def)

text \<open>
  The check and the build of one Rust crate share their compatibility key although their output
  names, metadata and extern file names differ, and crates that produce a linked artifact have none.
\<close>

theorem compat_key_bridges:
  "check_metadata_compat_key_with_root h host
     (ctx\<lparr>rc_emit_types := [''dep-info'', ''link'', ''metadata''], rc_cargo_metadata := m, rc_extra_filename := x,
          rc_extern_crates := map (\<lambda>(n, p). (n, f n p)) (rc_extern_crates ctx)\<rparr>) root =
   check_metadata_compat_key_with_root h host (ctx\<lparr>rc_emit_types := [''dep-info'', ''metadata'']\<rparr>) root \<and>
   check_metadata_compat_key_with_root h host (ctx\<lparr>rc_crate_types := pre @ ''proc-macro'' # post\<rparr>) root = None"
proof -
  have "fst \<circ> (\<lambda>(n, p). (n, f n p)) = fst" by auto
  then show ?thesis
    by (simp add: check_metadata_compat_key_with_root_def check_metadata_compat_key_with_root_and_native_cpu_salt_def
        normalized_check_metadata_emit_def compat_preimage_def rustc_head_bytes_def split: option.split)
qed

text \<open>
  Relocated tool state never re-keys a Rust crate: adding volatile Cargo variables, never-keyed
  variables or the Dylint input hash to a context's environment leaves its context key as it was.
\<close>

theorem volatile_env_not_keyed:
  "rustc_context_key_with_root h host (ctx\<lparr>rc_env_vars :=
      filter (\<lambda>(k, _). \<not> (is_volatile_cargo_env_var k \<or> is_never_keyed_env k \<or> k = DYLINT_CACHE_INPUT_HASH_ENV))
        (rc_env_vars ctx)\<rparr>) root =
   rustc_context_key_with_root h host ctx root"
proof -
  have "env_bytes (filter (\<lambda>(k, _). \<not> (is_volatile_cargo_env_var k \<or> is_never_keyed_env k \<or>
      k = DYLINT_CACHE_INPUT_HASH_ENV)) env) = env_bytes env" for env
    unfolding env_bytes_def filter_filter
    by (rule arg_cong [where f = "\<lambda>e. section_bytes ''env'' (map (\<lambda>(key, val). key @ ''='' @ val) e)"])
       (rule filter_cong, auto)
  then show ?thesis
    by (simp add: rustc_context_key_with_root_def rustc_context_key_with_root_and_native_cpu_salt_def
        rustc_context_preimage_def rustc_head_bytes_def)
qed

end
