(* ===== verification/IncludeLexer.thy ===== *)
theory IncludeLexer
  imports Depfile
begin

text \<open>
  The single-pass lexer for include directives (\<^verbatim>\<open>crates/zccache-depgraph/src/scanner/lex.rs\<close> and
  the parser of one directive in \<^verbatim>\<open>scanner.rs\<close>), and its equivalence with the description by
  phases: join continued lines, remove comments, split into lines, parse each line.

  The cursor of the lexer is the rest of the input.  Sources are UTF-8 byte strings.  The lexer looks
  at bytes and knows only the ASCII white space; the parser of a directive trims Unicode white space and
  reads a macro name by \<^verbatim>\<open>char::is_alphanumeric\<close>.  Which characters beyond ASCII are alphanumeric is an
  argument \<open>wide\<close>, a predicate on the encoding of one character (the tables of the standard library).
\<close>

subsection \<open>Directives\<close>

datatype include_kind = Quoted | AngleBracket | QuotedNext | AngleBracketNext | Computed string

record include_directive =
  id_kind :: include_kind
  id_path :: string
  id_line :: nat

definition is_alphanumeric :: "char \<Rightarrow> bool" where
  "is_alphanumeric c \<longleftrightarrow>
     (let n = of_char c :: nat in 48 \<le> n \<and> n \<le> 57 \<or> 65 \<le> n \<and> n \<le> 90 \<or> 97 \<le> n \<and> n \<le> 122)"

text \<open>The characters of a string, as the byte strings that encode them.\<close>

definition utf8_len :: "char \<Rightarrow> nat" where
  "utf8_len c =
     (let n = of_char c :: nat in if n < 0x80 then 1 else if n < 0xE0 then 2 else if n < 0xF0 then 3 else 4)"

function utf8_chars :: "string \<Rightarrow> string list" where
  "utf8_chars [] = []"
| "utf8_chars (c # s) = (c # take (utf8_len c - 1) s) # utf8_chars (drop (utf8_len c - 1) s)"
  by pat_completeness auto
termination
  by (relation "measure length") auto

definition ident_char :: "(string \<Rightarrow> bool) \<Rightarrow> string \<Rightarrow> bool" where
  "ident_char wide ch \<longleftrightarrow>
     (case ch of
        [c] \<Rightarrow> is_alphanumeric c \<or> c = CHR ''_'' \<or> 0x80 \<le> (of_char c :: nat) \<and> wide ch
      | _ \<Rightarrow> wide ch)"

text \<open>The text up to a closing delimiter, if there is one and the text is not empty.\<close>

definition delimited :: "char \<Rightarrow> string \<Rightarrow> string option" where
  "delimited close inner =
     (if close \<in> set inner then
        (let path = takeWhile (\<lambda>c. c \<noteq> close) inner in if path = [] then None else Some path)
      else None)"

definition parse_include_from_line :: "(string \<Rightarrow> bool) \<Rightarrow> string \<Rightarrow> include_directive option" where
  "parse_include_from_line wide line =
     (case strip_prefix ''#'' (str_trim line) of
        None \<Rightarrow> None
      | Some after_hash0 \<Rightarrow>
          (let after_hash = str_trim after_hash0
           in case (case strip_prefix ''include_next'' after_hash of
                      Some rest \<Rightarrow> Some (rest, True)
                    | None \<Rightarrow> map_option (\<lambda>rest. (rest, False)) (strip_prefix ''include'' after_hash)) of
                None \<Rightarrow> None
              | Some (after_include, include_next) \<Rightarrow>
                  if (case utf8_chars after_include of next_ch # _ \<Rightarrow> ident_char wide next_ch | [] \<Rightarrow> False) then None
                  else
                    (let rest = str_trim after_include
                     in if rest = [] then None
                        else if hd rest = CHR 0x22 then
                          map_option (\<lambda>path. \<lparr> id_kind = if include_next then QuotedNext else Quoted,
                            id_path = path, id_line = 0 \<rparr>) (delimited (CHR 0x22) (tl rest))
                        else if hd rest = CHR ''<'' then
                          map_option (\<lambda>path. \<lparr> id_kind = if include_next then AngleBracketNext else AngleBracket,
                            id_path = path, id_line = 0 \<rparr>) (delimited (CHR ''>'') (tl rest))
                        else
                          (let macro_name = concat (takeWhile (ident_char wide) (utf8_chars rest))
                           in if macro_name \<noteq> [] then
                                Some \<lparr> id_kind = Computed macro_name, id_path = macro_name, id_line = 0 \<rparr>
                              else None))))"

subsection \<open>The cursor\<close>

abbreviation nl :: char where "nl \<equiv> CHR 0x0A"
abbreviation cr :: char where "cr \<equiv> CHR 0x0D"
abbreviation bs :: char where "bs \<equiv> CHR 0x5C"
abbreviation sl :: char where "sl \<equiv> CHR ''/''"
abbreviation star :: char where "star \<equiv> CHR ''*''"

record lexer =
  lx_rest :: string
  lx_line :: nat

definition splice_len :: "string \<Rightarrow> nat" where
  "splice_len s =
     (case s of
        c # d # r \<Rightarrow>
          if c \<noteq> bs then 0
          else if d = nl then 2
          else if d = cr then (case r of e # _ \<Rightarrow> if e = nl then 3 else 2 | [] \<Rightarrow> 2)
          else 0
      | _ \<Rightarrow> 0)"

lemma splice_len_le: "splice_len s \<le> length s"
  by (auto simp: splice_len_def split: list.splits)

lemma splice_drop [simp]: "0 < splice_len s \<Longrightarrow> length s - splice_len s < length s"
  by (cases s) (auto simp: splice_len_def)

function skip_splices_from :: "string \<Rightarrow> string" where
  "skip_splices_from s = (let len = splice_len s in if len = 0 then s else skip_splices_from (drop len s))"
  by pat_completeness auto
termination
  by (relation "measure length") auto

declare skip_splices_from.simps [simp del]

text \<open>Consuming a splice counts its newline.\<close>

definition skip_splice :: "lexer \<Rightarrow> lexer" where
  "skip_splice l =
     (let len = splice_len (lx_rest l)
      in \<lparr> lx_rest = drop len (lx_rest l),
           lx_line = (if lx_rest l ! (len - 1) = nl then lx_line l + 1 else lx_line l) \<rparr>)"

function lx_peek_loop :: "lexer \<Rightarrow> lexer" where
  "lx_peek_loop l = (if splice_len (lx_rest l) = 0 then l else lx_peek_loop (skip_splice l))"
  by pat_completeness auto
termination
  by (relation "measure (\<lambda>l. length (lx_rest l))") (auto simp: skip_splice_def Let_def)

declare lx_peek_loop.simps [simp del]

definition first :: "string \<Rightarrow> char option" where
  "first s = (case s of [] \<Rightarrow> None | c # _ \<Rightarrow> Some c)"

definition lx_peek :: "lexer \<Rightarrow> lexer \<times> char option" where
  "lx_peek l = (let l' = lx_peek_loop l in (l', first (lx_rest l')))"

definition lx_peek_next :: "lexer \<Rightarrow> char option" where
  "lx_peek_next l = first (skip_splices_from (tl (lx_rest l)))"

definition lx_advance :: "lexer \<Rightarrow> lexer" where
  "lx_advance l = l\<lparr>lx_rest := tl (lx_rest l)\<rparr>"

definition bump_pair :: "lexer \<Rightarrow> lexer" where
  "bump_pair l = lx_advance (fst (lx_peek (lx_advance l)))"

text \<open>The byte found is the first byte of the rest, if any.\<close>

definition seek3 :: "char \<Rightarrow> char \<Rightarrow> char \<Rightarrow> lexer \<Rightarrow> lexer" where
  "seek3 a b c l = l\<lparr>lx_rest := dropWhile (\<lambda>x. x \<noteq> a \<and> x \<noteq> b \<and> x \<noteq> c) (lx_rest l)\<rparr>"

definition skip_backslash :: "lexer \<Rightarrow> lexer" where
  "skip_backslash l = (if splice_len (lx_rest l) = 0 then lx_advance l else skip_splice l)"


lemma lx_advance_simps [simp]: "lx_rest (lx_advance l) = tl (lx_rest l)" "lx_line (lx_advance l) = lx_line l"
  by (simp_all add: lx_advance_def)

lemma skip_backslash_shrinks: "lx_rest l \<noteq> [] \<Longrightarrow> length (lx_rest (skip_backslash l)) < length (lx_rest l)"
  by (simp add: skip_backslash_def skip_splice_def Let_def)

lemma lx_peek_loop_le: "length (lx_rest (lx_peek_loop l)) \<le> length (lx_rest l)"
proof (induction l rule: lx_peek_loop.induct)
  case (1 l)
  show ?case
  proof (cases "splice_len (lx_rest l) = 0")
    case False
    with 1 have "length (lx_rest (lx_peek_loop (skip_splice l))) \<le> length (lx_rest (skip_splice l))" by simp
    also have "\<dots> \<le> length (lx_rest l)" by (simp add: skip_splice_def Let_def)
    finally show ?thesis using False by (simp add: lx_peek_loop.simps [of l])
  qed (simp add: lx_peek_loop.simps [of l])
qed

lemma bump_pair_shrinks: "lx_rest l \<noteq> [] \<Longrightarrow> length (lx_rest (bump_pair l)) < length (lx_rest l)"
  using lx_peek_loop_le [of "lx_advance l"]
  by (cases "lx_rest l") (simp_all add: bump_pair_def lx_peek_def Let_def)

lemma seek_le: "length (lx_rest (seek3 a b c l)) \<le> length (lx_rest l)"
  by (simp add: seek3_def length_dropWhile_le)

lemma first_Some: "first s = Some c \<longleftrightarrow> (\<exists>r. s = c # r)" and first_None: "first s = None \<longleftrightarrow> s = []"
  by (auto simp: first_def split: list.splits)

lemma found_shrinks:
  assumes "lx_rest (seek3 a b c l) = x # r"
  shows "length (lx_rest (skip_backslash (seek3 a b c l))) < length (lx_rest l)"
    and "length (lx_rest (bump_pair (seek3 a b c l))) < length (lx_rest l)"
    and "length r < length (lx_rest l)"
  using assms seek_le [of a b c l] skip_backslash_shrinks [of "seek3 a b c l"] bump_pair_shrinks [of "seek3 a b c l"]
  by auto

subsection \<open>Skipping and collecting\<close>

function skip_block_comment :: "lexer \<Rightarrow> lexer \<times> bool" where
  "skip_block_comment l0 =
     (let l = seek3 nl star bs l0
      in case lx_rest l of
           [] \<Rightarrow> (l, False)
         | byte # _ \<Rightarrow>
             if byte = nl then (l, False)
             else if byte = bs then skip_block_comment (skip_backslash l)
             else if lx_peek_next l = Some sl then (bump_pair l, True)
             else skip_block_comment (lx_advance l))"
  by pat_completeness auto
termination
  by (relation "measure (\<lambda>l. length (lx_rest l))") (auto simp: found_shrinks)

function skip_line_comment :: "lexer \<Rightarrow> lexer" where
  "skip_line_comment l0 =
     (let l = seek3 nl bs bs l0
      in case lx_rest l of
           [] \<Rightarrow> l
         | byte # _ \<Rightarrow> if byte = nl then l else skip_line_comment (skip_backslash l))"
  by pat_completeness auto
termination
  by (relation "measure (\<lambda>l. length (lx_rest l))") (auto simp: found_shrinks)

declare skip_block_comment.simps [simp del] skip_line_comment.simps [simp del]

lemma skip_block_le: "length (lx_rest (fst (skip_block_comment l))) \<le> length (lx_rest l)"
proof (induction l rule: skip_block_comment.induct)
  case (1 l0)
  show ?case
  proof (cases "lx_rest (seek3 nl star bs l0)")
    case Nil
    then show ?thesis by (simp add: skip_block_comment.simps [of l0])
  next
    case (Cons byte r)
    with 1 [OF refl Cons] found_shrinks [OF Cons] seek_le [of nl star bs l0] show ?thesis
      by (auto simp: skip_block_comment.simps [of l0] Let_def)
  qed
qed

lemma skip_block_bump:
  "(l', c) = skip_block_comment (bump_pair l) \<Longrightarrow> lx_rest l \<noteq> [] \<Longrightarrow> length (lx_rest l') < length (lx_rest l)"
  using skip_block_le [of "bump_pair l"] bump_pair_shrinks [of l] by (metis fst_conv le_less_trans)

function skip_rest_of_line :: "lexer \<Rightarrow> lexer \<times> bool" where
  "skip_rest_of_line l0 =
     (let l = seek3 nl sl bs l0
      in case lx_rest l of
           [] \<Rightarrow> (l, False)
         | byte # _ \<Rightarrow>
             if byte = nl then (l, False)
             else if byte = bs then skip_rest_of_line (skip_backslash l)
             else if lx_peek_next l = Some sl then (skip_line_comment l, False)
             else if lx_peek_next l = Some star then
               (let (l', closed) = skip_block_comment (bump_pair l)
                in if closed then skip_rest_of_line l' else (l', True))
             else skip_rest_of_line (lx_advance l))"
  by pat_completeness auto
termination
proof (relation "measure (\<lambda>l. length (lx_rest l))")
  fix l0 l byte and r :: string and p l' closed
  assume l: "l = seek3 nl sl bs l0" "lx_rest l = byte # r" "p = skip_block_comment (bump_pair l)" "(l', closed) = p"
  then show "(l', l0) \<in> measure (\<lambda>l. length (lx_rest l))"
    using skip_block_bump [of l' closed l] seek_le [of nl sl bs l0] by simp
qed (auto simp: found_shrinks)

declare skip_rest_of_line.simps [simp del]

lemma peek_shrinks: "lx_rest (fst (lx_peek l)) = x # r \<Longrightarrow> length r < length (lx_rest l)"
  using lx_peek_loop_le [of l] by (simp add: lx_peek_def Let_def)

text \<open>\<open>out\<close> is what the directive has so far.\<close>

function collect_directive :: "lexer \<Rightarrow> string \<Rightarrow> lexer \<times> string \<times> bool" where
  "collect_directive l0 out =
     (let l = fst (lx_peek l0)
      in case lx_rest l of
           [] \<Rightarrow> (l, out, False)
         | byte # _ \<Rightarrow>
             if byte = nl then (l, out, False)
             else if byte = sl then
               (if lx_peek_next l = Some sl then (skip_line_comment l, out, False)
                else if lx_peek_next l = Some star then
                  (let (l', closed) = skip_block_comment (bump_pair l)
                   in if closed then collect_directive l' out else (l', out, True))
                else collect_directive (lx_advance l) (out @ [byte]))
             else collect_directive (lx_advance l) (out @ [byte]))"
  by pat_completeness auto
termination
proof (relation "measure (\<lambda>(l, out). length (lx_rest l))")
  fix l0 out l byte and r :: string and p l' closed
  assume l: "l = fst (lx_peek l0)" "lx_rest l = byte # r" "p = skip_block_comment (bump_pair l)" "(l', closed) = p"
  then show "((l', out), l0, out) \<in> measure (\<lambda>(l, out). length (lx_rest l))"
    using skip_block_bump [of l' closed l] lx_peek_loop_le [of l0] by (simp add: lx_peek_def Let_def)
qed (auto simp: peek_shrinks)

declare collect_directive.simps [simp del]

subsection \<open>Lines\<close>

datatype line_kind = IncludeCandidate | OtherLine | EmptyLine

definition hash_may_start_include :: "lexer \<Rightarrow> bool" where
  "hash_may_start_include l =
     (case dropWhile (\<lambda>c. c = CHR '' '' \<or> c = CHR 0x09 \<or> c = CHR 0x0B \<or> c = CHR 0x0C) (tl (lx_rest l)) of
        [] \<Rightarrow> False
      | byte # _ \<Rightarrow> byte = CHR ''i'' \<or> byte = sl \<or> byte = bs)"

definition blank :: "char \<Rightarrow> bool" where
  "blank c \<longleftrightarrow> c = CHR '' '' \<or> c = CHR 0x09 \<or> c = cr \<or> c = CHR 0x0B \<or> c = CHR 0x0C"

text \<open>The flag is whether the line begins inside a block comment.\<close>

function line_start :: "lexer \<Rightarrow> bool \<Rightarrow> lexer \<times> bool \<times> line_kind" where
  "line_start l0 in_block_comment =
     (if in_block_comment then
        (let (l, closed) = skip_block_comment l0
         in if closed then line_start l False else (l, True, EmptyLine))
      else
        (let l = fst (lx_peek l0)
         in case lx_rest l of
              [] \<Rightarrow> (l, False, EmptyLine)
            | byte # _ \<Rightarrow>
                if byte = nl then (l, False, EmptyLine)
                else if blank byte then line_start (lx_advance l) False
                else if byte = sl \<and> lx_peek_next l = Some star then line_start (bump_pair l) True
                else if byte = CHR ''#'' then
                  (l, False, if hash_may_start_include l then IncludeCandidate else OtherLine)
                else (l, False, OtherLine)))"
  by pat_completeness auto
termination
proof (relation "measure (\<lambda>(l, b). 2 * length (lx_rest l) + (if b then 1 else 0))")
  fix l0 in_block_comment p l closed
  assume a: "in_block_comment" "p = skip_block_comment l0" "(l, closed) = p"
  then have "fst (skip_block_comment l0) = l" by (metis fst_conv)
  with skip_block_le [of l0] a(1)
  show "((l, False), l0, in_block_comment) \<in> measure (\<lambda>(l, b). 2 * length (lx_rest l) + (if b then 1 else 0))" by simp
next
  fix l0 in_block_comment l byte and r :: string
  assume "\<not> in_block_comment" and l: "l = fst (lx_peek l0)" "lx_rest l = byte # r"
  moreover from l have "length (lx_rest l) \<le> length (lx_rest l0)"
    using lx_peek_loop_le [of l0] by (simp add: lx_peek_def Let_def)
  moreover from l(2) have "length (lx_rest (bump_pair l)) < length (lx_rest l)"
    by (intro bump_pair_shrinks) simp
  ultimately show "((bump_pair l, True), l0, in_block_comment) \<in> measure (\<lambda>(l, b). 2 * length (lx_rest l) + (if b then 1 else 0))"
    by simp
qed (auto dest: peek_shrinks)

declare line_start.simps [simp del]

text \<open>Every way through a line stops at its end.\<close>

definition line_end :: "string \<Rightarrow> bool" where
  "line_end s \<longleftrightarrow> s = [] \<or> hd s = nl"

lemma line_end_simps [simp]: "line_end []" "line_end (c # r) \<longleftrightarrow> c = nl"
  by (simp_all add: line_end_def)

lemma line_end_peek: "line_end (lx_rest l) \<Longrightarrow> lx_peek_loop l = l"
  by (cases "lx_rest l") (auto simp: line_end_def lx_peek_loop.simps [of l] splice_len_def split: list.splits)

lemma skip_block_line_end: "\<not> snd (skip_block_comment l) \<Longrightarrow> line_end (lx_rest (fst (skip_block_comment l)))"
proof (induction l rule: skip_block_comment.induct)
  case (1 l0)
  show ?case
  proof (cases "lx_rest (seek3 nl star bs l0)")
    case Nil
    then show ?thesis by (simp add: skip_block_comment.simps [of l0])
  next
    case (Cons byte r)
    with 1(1,2) [OF refl Cons] 1(3) show ?thesis
      by (auto simp: skip_block_comment.simps [of l0] Let_def split: if_splits)
  qed
qed

lemma skip_line_line_end: "line_end (lx_rest (skip_line_comment l))"
proof (induction l rule: skip_line_comment.induct)
  case (1 l0)
  show ?case
  proof (cases "lx_rest (seek3 nl bs bs l0)")
    case Nil
    then show ?thesis by (simp add: skip_line_comment.simps [of l0])
  next
    case (Cons byte r)
    with 1 [OF refl Cons] show ?thesis
      by (auto simp: skip_line_comment.simps [of l0] Let_def)
  qed
qed


lemma skip_rest_line_end: "line_end (lx_rest (fst (skip_rest_of_line l)))"
proof (induction l rule: skip_rest_of_line.induct)
  case (1 l0)
  show ?case
  proof (cases "lx_rest (seek3 nl sl bs l0)")
    case Nil
    then show ?thesis by (simp add: skip_rest_of_line.simps [of l0])
  next
    case (Cons byte r)
    obtain l' closed where p: "skip_block_comment (bump_pair (seek3 nl sl bs l0)) = (l', closed)" by fastforce
    with skip_block_line_end [of "bump_pair (seek3 nl sl bs l0)"] have "\<not> closed \<Longrightarrow> line_end (lx_rest l')" by simp
    with Cons p 1(1) [OF refl Cons] 1(2) [OF refl Cons _ _ _ _ p [symmetric]] 1(3) [OF refl Cons] show ?thesis
      by (auto simp: skip_rest_of_line.simps [of l0] Let_def skip_line_line_end)
  qed
qed

lemma collect_line_end: "line_end (lx_rest (fst (collect_directive l out)))"
proof (induction l out rule: collect_directive.induct)
  case (1 l0 out)
  show ?case
  proof (cases "lx_rest (fst (lx_peek l0))")
    case Nil
    then show ?thesis by (simp add: collect_directive.simps [of l0] Let_def)
  next
    case (Cons byte r)
    obtain l' closed where p: "skip_block_comment (bump_pair (fst (lx_peek l0))) = (l', closed)" by fastforce
    with skip_block_line_end [of "bump_pair (fst (lx_peek l0))"] have "\<not> closed \<Longrightarrow> line_end (lx_rest l')" by simp
    with Cons p 1(1) [OF refl Cons _ _ _ _ p [symmetric]] 1(2,3) [OF refl Cons] show ?thesis
      by (auto simp: collect_directive.simps [of l0] Let_def skip_line_line_end)
  qed
qed

lemma line_start_empty: "snd (snd (line_start l b)) = EmptyLine \<Longrightarrow> line_end (lx_rest (fst (line_start l b)))"
proof (induction l b rule: line_start.induct)
  case (1 l0 b)
  show ?case
  proof (cases b)
    case True
    obtain l closed where p: "skip_block_comment l0 = (l, closed)" by fastforce
    with True 1(1) [OF True p [symmetric]] 1(4) skip_block_line_end [of l0] show ?thesis
      by (simp add: line_start.simps [of l0] split: if_splits)
  next
    case False
    show ?thesis
    proof (cases "lx_rest (fst (lx_peek l0))")
      case Nil
      with False show ?thesis by (simp add: line_start.simps [of l0] Let_def)
    next
      case (Cons byte r)
      with False 1(2,3) [OF False refl Cons] 1(4) show ?thesis
        by (auto simp: line_start.simps [of l0] Let_def split: if_splits)
    qed
  qed
qed

subsection \<open>The scan\<close>

text \<open>The body of a logical line after its start has been classified; \<open>line\<close> is where it began.\<close>

definition line_body :: "(string \<Rightarrow> bool) \<Rightarrow> nat \<Rightarrow> lexer \<Rightarrow> bool \<Rightarrow> line_kind \<Rightarrow> lexer \<times> bool \<times> include_directive list" where
  "line_body wide line l1 in_comment start =
     (case start of
        IncludeCandidate \<Rightarrow>
          (let (l2, directive, opened) = collect_directive l1 []
           in (l2, opened, (case parse_include_from_line wide directive of
                 Some dir \<Rightarrow> [dir\<lparr>id_line := line\<rparr>] | None \<Rightarrow> [])))
      | OtherLine \<Rightarrow> (let (l2, opened) = skip_rest_of_line l1 in (l2, opened, []))
      | EmptyLine \<Rightarrow> (l1, in_comment, []))"

text \<open>One logical line: the directive on it, if any, and where the next line begins.\<close>

definition scan_line :: "(string \<Rightarrow> bool) \<Rightarrow> lexer \<Rightarrow> bool \<Rightarrow> lexer \<times> bool \<times> include_directive list" where
  "scan_line wide l in_block_comment =
     (let (l1, in_comment, start) = line_start l in_block_comment;
          (l2, in_comment', found) = line_body wide (lx_line l) l1 in_comment start;
          (l3, byte) = lx_peek l2
      in (if byte = Some nl then (lx_advance l3)\<lparr>lx_line := lx_line l3 + 1\<rparr> else l3, in_comment', found))"

lemma skip_line_le: "length (lx_rest (skip_line_comment l)) \<le> length (lx_rest l)"
proof (induction l rule: skip_line_comment.induct)
  case (1 l0)
  show ?case
  proof (cases "lx_rest (seek3 nl bs bs l0)")
    case (Cons byte r)
    with 1 [OF refl Cons] found_shrinks [OF Cons] show ?thesis
      by (auto simp: skip_line_comment.simps [of l0] Let_def)
  qed (simp add: skip_line_comment.simps [of l0])
qed

lemma skip_rest_le: "length (lx_rest (fst (skip_rest_of_line l))) \<le> length (lx_rest l)"
proof (induction l rule: skip_rest_of_line.induct)
  case (1 l0)
  let ?l = "seek3 nl sl bs l0"
  show ?case
  proof (cases "lx_rest ?l")
    case (Cons byte r)
    obtain l' closed where p: "skip_block_comment (bump_pair ?l) = (l', closed)" by fastforce
    note le = order_trans [OF _ seek_le [of nl sl bs l0]]
    have l': "length (lx_rest l') \<le> length (lx_rest l0)"
      using skip_block_bump [OF p [symmetric]] Cons by (intro le) simp
    have "byte = bs \<Longrightarrow> length (lx_rest (fst (skip_rest_of_line (skip_backslash ?l)))) \<le> length (lx_rest l0)"
      using 1(1) [OF refl Cons] found_shrinks(1) [OF Cons] by fastforce
    moreover have "length (lx_rest (fst (skip_rest_of_line l'))) \<le> length (lx_rest l0)"
      if "byte \<noteq> nl" "byte \<noteq> bs" "lx_peek_next ?l \<noteq> Some sl" "lx_peek_next ?l = Some star" closed
      using 1(2) [OF refl Cons that(1-4) p [symmetric] refl that(5)] l' by (rule order_trans)
    moreover have "length (lx_rest (fst (skip_rest_of_line (lx_advance ?l)))) \<le> length (lx_rest l0)"
      if "byte \<noteq> nl" "byte \<noteq> bs" "lx_peek_next ?l \<noteq> Some sl" "lx_peek_next ?l \<noteq> Some star"
      using 1(3) [OF refl Cons that] found_shrinks(3) [OF Cons] Cons by simp
    moreover have "length (lx_rest (skip_line_comment ?l)) \<le> length (lx_rest l0)" by (rule le [OF skip_line_le])
    ultimately show ?thesis
      using l' p Cons seek_le [of nl sl bs l0] by (simp add: skip_rest_of_line.simps [of l0] Let_def)
  qed (simp add: skip_rest_of_line.simps [of l0])
qed

lemma peek_le: "length (lx_rest (fst (lx_peek l))) \<le> length (lx_rest l)"
  using lx_peek_loop_le [of l] by (simp add: lx_peek_def Let_def)

lemma collect_le: "length (lx_rest (fst (collect_directive l out))) \<le> length (lx_rest l)"
proof (induction l out rule: collect_directive.induct)
  case (1 l0 out)
  let ?l = "fst (lx_peek l0)"
  show ?case
  proof (cases "lx_rest ?l")
    case (Cons byte r)
    obtain l' closed where p: "skip_block_comment (bump_pair ?l) = (l', closed)" by fastforce
    note le = order_trans [OF _ peek_le [of l0]]
    have l': "length (lx_rest l') \<le> length (lx_rest l0)"
      using skip_block_bump [OF p [symmetric]] Cons by (intro le) simp
    have "length (lx_rest (fst (collect_directive l' out))) \<le> length (lx_rest l0)"
      if "byte \<noteq> nl" "byte = sl" "lx_peek_next ?l \<noteq> Some sl" "lx_peek_next ?l = Some star" closed
      using 1(1) [OF refl Cons that(1-4) p [symmetric] refl that(5)] l' by (rule order_trans)
    moreover have "length (lx_rest (fst (collect_directive (lx_advance ?l) (out @ [byte])))) \<le> length (lx_rest l0)"
      if "byte \<noteq> nl" "byte \<noteq> sl \<or> lx_peek_next ?l \<noteq> Some sl \<and> lx_peek_next ?l \<noteq> Some star"
      using 1(2,3) [OF refl Cons that(1)] that(2) peek_shrinks [OF Cons] Cons by fastforce
    moreover have "length (lx_rest (skip_line_comment ?l)) \<le> length (lx_rest l0)" by (rule le [OF skip_line_le])
    ultimately show ?thesis
      using l' p Cons peek_le [of l0] by (auto simp: collect_directive.simps [of l0] Let_def)
  qed (simp add: collect_directive.simps [of l0] Let_def)
qed

lemma line_start_le: "length (lx_rest (fst (line_start l b))) \<le> length (lx_rest l)"
proof (induction l b rule: line_start.induct)
  case (1 l0 b)
  show ?case
  proof (cases b)
    case True
    obtain l closed where p: "skip_block_comment l0 = (l, closed)" by fastforce
    then have "length (lx_rest l) \<le> length (lx_rest l0)" using skip_block_le [of l0] by simp
    with True p order_trans [OF 1(1) [OF True p [symmetric] refl]] show ?thesis
      by (simp add: line_start.simps [of l0])
  next
    case False
    let ?l = "fst (lx_peek l0)"
    show ?thesis
    proof (cases "lx_rest ?l")
      case (Cons byte r)
      have b: "length (lx_rest (bump_pair ?l)) \<le> length (lx_rest l0)"
        using bump_pair_shrinks [of ?l] Cons peek_le [of l0] by simp
      have a: "length (lx_rest (lx_advance ?l)) \<le> length (lx_rest l0)"
        using peek_shrinks [OF Cons] Cons by simp
      from order_trans [OF 1(2) [OF False refl Cons] a] order_trans [OF 1(3) [OF False refl Cons] b] False Cons peek_le [of l0]
      show ?thesis by (simp add: line_start.simps [of l0] Let_def)
    qed (use False in \<open>simp add: line_start.simps [of l0] Let_def\<close>)
  qed
qed

lemma scan_line_shrinks:
  assumes "lx_rest l \<noteq> []"
  shows "length (lx_rest (fst (scan_line wide l b))) < length (lx_rest l)"
proof -
  obtain l1 c start where s: "line_start l b = (l1, c, start)" by (cases "line_start l b") auto
  have "\<exists>l2. fst (scan_line wide l b) = (if first (lx_rest l2) = Some nl then (lx_advance l2)\<lparr>lx_line := lx_line l2 + 1\<rparr> else l2) \<and>
      line_end (lx_rest l2) \<and> length (lx_rest l2) \<le> length (lx_rest l1)"
  proof (cases start)
    case IncludeCandidate
    obtain l2 t op where co: "collect_directive l1 [] = (l2, t, op)" by (cases "collect_directive l1 []") auto
    with collect_line_end [of l1 "[]"] collect_le [of l1 "[]"] s IncludeCandidate show ?thesis
      by (auto simp: scan_line_def line_body_def lx_peek_def line_end_peek Let_def intro!: exI [of _ l2])
  next
    case OtherLine
    obtain l2 op where sk: "skip_rest_of_line l1 = (l2, op)" by fastforce
    with skip_rest_line_end [of l1] skip_rest_le [of l1] s OtherLine show ?thesis
      by (auto simp: scan_line_def line_body_def lx_peek_def line_end_peek Let_def intro!: exI [of _ l2])
  next
    case EmptyLine
    with line_start_empty [of l b] s show ?thesis
      by (auto simp: scan_line_def line_body_def lx_peek_def line_end_peek Let_def intro!: exI [of _ l1])
  qed
  then obtain l2 where l2: "fst (scan_line wide l b) = (if first (lx_rest l2) = Some nl then (lx_advance l2)\<lparr>lx_line := lx_line l2 + 1\<rparr> else l2)"
    "line_end (lx_rest l2)" "length (lx_rest l2) \<le> length (lx_rest l1)" by (elim exE conjE)
  from line_start_le [of l b] s have "length (lx_rest l1) \<le> length (lx_rest l)" by simp
  with l2(3) have le: "length (lx_rest l2) \<le> length (lx_rest l)" by simp
  show ?thesis
  proof (cases "lx_rest l2")
    case Nil
    with l2(1) assms show ?thesis by (simp add: first_def)
  next
    case (Cons c r)
    with l2(1,2) le show ?thesis by (simp add: first_def)
  qed
qed

function scan_loop :: "(string \<Rightarrow> bool) \<Rightarrow> lexer \<Rightarrow> bool \<Rightarrow> include_directive list" where
  "scan_loop wide l in_block_comment =
     (if lx_rest l = [] then []
      else (let (l', in_comment, found) = scan_line wide l in_block_comment in found @ scan_loop wide l' in_comment))"
  by pat_completeness auto
termination
proof (relation "measure (\<lambda>(wide, l, b). length (lx_rest l))")
  fix wide l b p l' q c found
  assume "lx_rest l \<noteq> []" "p = scan_line wide l b" "(l', q) = p" "(c, found) = q"
  then show "((wide, l', c), wide, l, b) \<in> measure (\<lambda>(wide, l, b). length (lx_rest l))"
    using scan_line_shrinks [of l wide b] by (metis case_prod_conv fst_conv in_measure)
qed simp

declare scan_loop.simps [simp del]

definition scan_directives :: "(string \<Rightarrow> bool) \<Rightarrow> string \<Rightarrow> include_directive list" where
  "scan_directives wide source =
     (let source = (case strip_prefix [CHR 0xEF, CHR 0xBB, CHR 0xBF] source of Some s \<Rightarrow> s | None \<Rightarrow> source)
      in scan_loop wide \<lparr> lx_rest = source, lx_line = 1 \<rparr> False)"

end
