(* ===== verification/DepGraph.thy ===== *)
theory DepGraph
  imports ContextKeys IncludeLexer
begin

text \<open>
  The dependency graph (\<^verbatim>\<open>crates/zccache-depgraph/src/graph\<close>): the contexts seen so far
  with their include lists and artifact keys, the verdict on whether a compilation can use a cached
  artifact, the update after a compile, registration across checkouts of one workspace, and
  eviction.

  Freshness (\<open>is_fresh\<close>), content hashes (\<open>get_hash\<close>), the environment (\<open>env_value\<close>) and the
  wall clock (\<open>now_ms\<close>) are arguments, as they are in the code; each operation is one atomic step.
\<close>

subsection \<open>State\<close>

record file_entry =
  fe_includes :: "include_directive list"
  fe_scanned_at :: nat

datatype context_state = Cold | Warm | Stale

record context_entry =
  ce_logical_key :: context_key
  ce_context :: compile_context
  ce_key_root :: "npath option"
  ce_resolved_includes :: "npath list"
  ce_unresolved_includes :: "string list"
  ce_has_computed_includes :: bool
  ce_artifact_key :: "artifact_key option"
  ce_last_file_hashes :: "(npath \<times> content_hash) list"
  ce_rustc_env_deps :: "(string \<times> content_hash option) list"
  ce_last_accessed_unix_ms :: u64
  ce_state :: context_state

record context_instance_key =
  ik_logical :: context_key
  ik_concrete :: content_hash

datatype cache_verdict =
    Hit artifact_key
  | SourceChanged artifact_key
  | HeadersChanged "npath list"
  | ColdVerdict
  | NeedsPreprocessor

record dep_graph_stats =
  st_file_count :: nat
  st_context_count :: nat
  st_checks :: u64
  st_hits :: u64
  st_misses :: u64

record dep_graph =
  dg_files :: "(npath, file_entry) dmap"
  dg_contexts :: "(context_key, context_entry) dmap"
  dg_rustc_externs :: "(context_key, (string \<times> npath) list) dmap"
  dg_compat :: "(context_key, context_key) dmap"
  dg_equivalent :: "(context_key, context_key list) dmap"
  dg_path_key_cache :: "(npath \<times> npath option, string) dmap"
  dg_checks :: u64
  dg_hits :: u64
  dg_misses :: u64
  dg_dirty :: bool

record context_registration =
  cr_key :: context_key
  cr_map_key :: context_key
  cr_instance :: context_instance_key
  cr_metadata_compat_map_key :: "context_key option"
  cr_rebased :: bool
  cr_state :: context_state

definition instance_key_new :: "digest \<Rightarrow> context_key \<Rightarrow> npath \<Rightarrow> npath option \<Rightarrow> context_instance_key" where
  "instance_key_new h logical source_file key_root =
     \<lparr> ik_logical = logical,
       ik_concrete = h (entry ''zccache-context-instance-v1'' @ logical @ np_key (np_new source_file) @ [nul] @
         (case key_root of Some root \<Rightarrow> np_key (np_new root) | None \<Rightarrow> ''no-key-root'')) \<rparr>"

definition instance_map_key :: "context_instance_key \<Rightarrow> context_key" where
  "instance_map_key i = ik_concrete i"

definition dep_graph_new :: dep_graph where
  "dep_graph_new =
     \<lparr> dg_files = [], dg_contexts = [], dg_rustc_externs = [], dg_compat = [], dg_equivalent = [],
       dg_path_key_cache = [], dg_checks = 0, dg_hits = 0, dg_misses = 0, dg_dirty = False \<rparr>"

definition from_maps_with_rustc_externs ::
    "(npath, file_entry) dmap \<Rightarrow> (context_key, context_entry) dmap \<Rightarrow>
       (context_key, (string \<times> npath) list) dmap \<Rightarrow> dep_graph" where
  "from_maps_with_rustc_externs files contexts rustc_externs =
     dep_graph_new\<lparr>dg_files := files, dg_contexts := contexts, dg_rustc_externs := rustc_externs\<rparr>"

definition dg_is_dirty :: "dep_graph \<Rightarrow> bool" where
  "dg_is_dirty g = dg_dirty g"

definition dg_take_dirty :: "dep_graph \<Rightarrow> dep_graph \<times> bool" where
  "dg_take_dirty g = (g\<lparr>dg_dirty := False\<rparr>, dg_dirty g)"

definition dg_mark_dirty :: "dep_graph \<Rightarrow> dep_graph" where
  "dg_mark_dirty g = g\<lparr>dg_dirty := True\<rparr>"

definition count_check :: "dep_graph \<Rightarrow> dep_graph" where
  "count_check g = g\<lparr>dg_checks := u64_succ (dg_checks g)\<rparr>"

definition count_hit :: "dep_graph \<Rightarrow> dep_graph" where
  "count_hit g = g\<lparr>dg_hits := u64_succ (dg_hits g)\<rparr>"

definition count_miss :: "dep_graph \<Rightarrow> dep_graph" where
  "count_miss g = g\<lparr>dg_misses := u64_succ (dg_misses g)\<rparr>"

definition set_entry :: "context_key \<Rightarrow> context_entry \<Rightarrow> dep_graph \<Rightarrow> dep_graph" where
  "set_entry k e g = g\<lparr>dg_contexts := dm_insert k e (dg_contexts g)\<rparr>"

definition rustc_extern_inputs :: "dep_graph \<Rightarrow> context_key \<Rightarrow> (string \<times> npath) list option" where
  "rustc_extern_inputs g key = dm_get (dg_rustc_externs g) key"

definition rustc_env_dep_inputs :: "dep_graph \<Rightarrow> context_key \<Rightarrow> (string \<times> content_hash option) list option" where
  "rustc_env_dep_inputs g key = map_option ce_rustc_env_deps (dm_get (dg_contexts g) key)"

definition resolve_instance_key :: "dep_graph \<Rightarrow> context_key \<Rightarrow> context_key option" where
  "resolve_instance_key g key =
     (if dm_has (dg_contexts g) key then Some key
      else (case dm_get (dg_equivalent g) key of
              None \<Rightarrow> None
            | Some instances \<Rightarrow> if length instances = 1 then Some (hd instances) else None))"

definition cached_normalize_key_path :: "string \<Rightarrow> string option \<Rightarrow> string" where
  "cached_normalize_key_path path key_root = normalize_key_path path key_root"

definition rebase_project_path :: "npath option \<Rightarrow> npath option \<Rightarrow> npath \<Rightarrow> npath" where
  "rebase_project_path old_root new_root path =
     (case (old_root, new_root) of
        (Some old, Some new) \<Rightarrow>
          (case np_strip_prefix (np_new path) old of
             Some relative \<Rightarrow> np_path (np_join (np_new new) relative)
           | None \<Rightarrow> path)
      | _ \<Rightarrow> path)"

fun hash_all :: "(npath \<Rightarrow> content_hash option) \<Rightarrow> npath list \<Rightarrow> (npath \<times> content_hash) list option" where
  "hash_all get_hash [] = Some []"
| "hash_all get_hash (p # ps) =
     (case get_hash p of
        None \<Rightarrow> None
      | Some hash \<Rightarrow> map_option (\<lambda>rest. (p, hash) # rest) (hash_all get_hash ps))"

fun collect_rustc_extern_hashes ::
    "(npath \<Rightarrow> content_hash option) \<Rightarrow> (string \<times> npath) list \<Rightarrow> (string \<times> content_hash) list option" where
  "collect_rustc_extern_hashes get_hash [] = Some []"
| "collect_rustc_extern_hashes get_hash ((name, path) # es) =
     (case get_hash path of
        None \<Rightarrow> None
      | Some hash \<Rightarrow> map_option (\<lambda>rest. (name, hash) # rest) (collect_rustc_extern_hashes get_hash es))"

definition hash_env_dep_value :: "digest \<Rightarrow> string option \<Rightarrow> content_hash option" where
  "hash_env_dep_value h value = map_option h value"

definition collect_rustc_env_hashes ::
    "digest \<Rightarrow> (string \<times> content_hash option) list \<Rightarrow> (string \<Rightarrow> string option) \<Rightarrow>
       (string \<times> content_hash option) list" where
  "collect_rustc_env_hashes h names env_value =
     map (\<lambda>(name, _). (name, hash_env_dep_value h (env_value name))) names"

text \<open>The map of old hashes is built by inserting in order, so a later pair wins.\<close>

definition drifted_paths ::
    "(npath \<times> content_hash) list \<Rightarrow> (npath \<times> content_hash) list \<Rightarrow> npath list" where
  "drifted_paths last_file_hashes current =
     (if last_file_hashes = [] then []
      else map fst (filter (\<lambda>(p, new_hash).
             case map_of (rev last_file_hashes) p of
               Some old_hash \<Rightarrow> old_hash \<noteq> new_hash
             | None \<Rightarrow> True) current))"

definition join_with :: "string \<Rightarrow> string list \<Rightarrow> string" where
  "join_with sep xs = concat (case xs of [] \<Rightarrow> [] | y # ys \<Rightarrow> y # map (\<lambda>z. sep @ z) ys)"

definition format_drift_for_log :: "npath list \<Rightarrow> string" where
  "format_drift_for_log drifted =
     (if drifted = [] then []
      else '', drifted=['' @
           join_with '','' (map (\<lambda>p. case file_name p of Some n \<Rightarrow> n | None \<Rightarrow> p) (take 5 drifted)) @ '']'')"

definition hex_encode :: "string \<Rightarrow> string" where
  "hex_encode bytes =
     concat (map (\<lambda>c. let n = of_char c :: nat in [hex_digit (n div 16), hex_digit (n mod 16)]) bytes)"

subsection \<open>Registration\<close>

definition max_equivalent_contexts :: "string option \<Rightarrow> nat" where
  "max_equivalent_contexts var =
     (case Option.bind var (\<lambda>v. parse_u64 (str_trim v)) of
        Some n \<Rightarrow> if 1 \<le> n then n else 16
      | None \<Rightarrow> 16)"

text \<open>The first instance of the logical key that is still there.\<close>

definition equivalent_candidate :: "dep_graph \<Rightarrow> context_key \<Rightarrow> context_entry option" where
  "equivalent_candidate g key =
     (case dm_get (dg_equivalent g) key of
        None \<Rightarrow> None
      | Some instances \<Rightarrow>
          (case find (\<lambda>i. dm_has (dg_contexts g) i) instances of
             None \<Rightarrow> None
           | Some i \<Rightarrow> dm_get (dg_contexts g) i))"

definition rebased_entry ::
    "context_entry \<Rightarrow> compile_context \<Rightarrow> npath option \<Rightarrow> u64 \<Rightarrow> context_entry" where
  "rebased_entry candidate ctx key_root now_ms =
     (let old_root = ce_key_root candidate
      in candidate\<lparr> ce_resolved_includes := map (rebase_project_path old_root key_root) (ce_resolved_includes candidate),
                    ce_last_file_hashes := map (\<lambda>(p, hash). (rebase_project_path old_root key_root p, hash))
                      (ce_last_file_hashes candidate),
                    ce_context := ctx, ce_key_root := key_root, ce_last_accessed_unix_ms := now_ms \<rparr>)"

definition cold_entry :: "context_key \<Rightarrow> compile_context \<Rightarrow> npath option \<Rightarrow> u64 \<Rightarrow> context_entry" where
  "cold_entry key ctx key_root now_ms =
     \<lparr> ce_logical_key = key, ce_context = ctx, ce_key_root = key_root, ce_resolved_includes = [],
       ce_unresolved_includes = [], ce_has_computed_includes = False, ce_artifact_key = None,
       ce_last_file_hashes = [], ce_rustc_env_deps = [], ce_last_accessed_unix_ms = now_ms,
       ce_state = Cold \<rparr>"

definition drop_context :: "context_key \<Rightarrow> dep_graph \<Rightarrow> dep_graph" where
  "drop_context evicted g =
     g\<lparr> dg_contexts := dm_remove evicted (dg_contexts g),
        dg_rustc_externs := dm_remove evicted (dg_rustc_externs g),
        dg_compat := dm_retain (\<lambda>_ v. v \<noteq> evicted) (dg_compat g) \<rparr>"

text \<open>The index row of the logical key after the new instance, and what falls out of it.\<close>

definition push_instance :: "nat \<Rightarrow> context_key list option \<Rightarrow> context_key \<Rightarrow> context_key list \<times> context_key option" where
  "push_instance limit row instance_key =
     (let instances = (case row of
            None \<Rightarrow> [instance_key]
          | Some xs \<Rightarrow> if instance_key \<in> set xs then xs else xs @ [instance_key])
      in if limit < length instances then (tl instances, Some (hd instances)) else (instances, None))"

definition register_context_entry ::
    "digest \<Rightarrow> nat \<Rightarrow> u64 \<Rightarrow> context_key \<Rightarrow> compile_context \<Rightarrow> npath option \<Rightarrow> dep_graph \<Rightarrow>
       dep_graph \<times> context_registration" where
  "register_context_entry h limit now_ms key ctx key_root g =
     (let instance = instance_key_new h key (cc_source_file ctx) key_root;
          instance_key = instance_map_key instance;
          g = dg_mark_dirty g;
          reg = (\<lambda>rebased state.
            \<lparr> cr_key = key, cr_map_key = instance_key, cr_instance = instance,
              cr_metadata_compat_map_key = None, cr_rebased = rebased, cr_state = state \<rparr>)
      in case dm_get (dg_contexts g) instance_key of
           Some existing \<Rightarrow>
             (set_entry instance_key (existing\<lparr>ce_last_accessed_unix_ms := now_ms\<rparr>) g,
              reg False (ce_state existing))
         | None \<Rightarrow>
             (let candidate = equivalent_candidate g key;
                  rebased = (case candidate of
                      Some c \<Rightarrow> ce_key_root c \<noteq> None \<and> key_root \<noteq> None \<and> ce_key_root c \<noteq> key_root
                    | None \<Rightarrow> False);
                  e = (case candidate of
                      None \<Rightarrow> cold_entry key ctx key_root now_ms
                    | Some c \<Rightarrow> rebased_entry c ctx key_root now_ms);
                  (row, evicted) = push_instance limit (dm_get (dg_equivalent g) key) instance_key;
                  g' = (set_entry instance_key e g)\<lparr>dg_equivalent := dm_insert key row (dg_equivalent g)\<rparr>;
                  g'' = (case evicted of Some old \<Rightarrow> drop_context old g' | None \<Rightarrow> g')
              in (g'', reg rebased (ce_state e))))"

definition register_with_key_and_root_result ::
    "digest \<Rightarrow> nat \<Rightarrow> u64 \<Rightarrow> context_key \<Rightarrow> compile_context \<Rightarrow> npath option \<Rightarrow> dep_graph \<Rightarrow>
       dep_graph \<times> context_registration" where
  "register_with_key_and_root_result h limit now_ms key ctx key_root g =
     (let (g', registration) = register_context_entry h limit now_ms key ctx key_root g
      in (g'\<lparr>dg_rustc_externs := dm_remove (cr_map_key registration) (dg_rustc_externs g')\<rparr>, registration))"

definition register_with_key_and_root ::
    "digest \<Rightarrow> nat \<Rightarrow> u64 \<Rightarrow> context_key \<Rightarrow> compile_context \<Rightarrow> npath option \<Rightarrow> dep_graph \<Rightarrow>
       dep_graph \<times> context_key" where
  "register_with_key_and_root h limit now_ms key ctx key_root g =
     (let (g', r) = register_with_key_and_root_result h limit now_ms key ctx key_root g in (g', cr_key r))"

definition register_with_key ::
    "digest \<Rightarrow> nat \<Rightarrow> u64 \<Rightarrow> context_key \<Rightarrow> compile_context \<Rightarrow> dep_graph \<Rightarrow> dep_graph \<times> context_key" where
  "register_with_key h limit now_ms key ctx g = register_with_key_and_root h limit now_ms key ctx None g"

definition register_with_root_and_salt_result ::
    "digest \<Rightarrow> string \<Rightarrow> nat \<Rightarrow> u64 \<Rightarrow> compile_context \<Rightarrow> npath option \<Rightarrow> npath option \<Rightarrow> dep_graph \<Rightarrow>
       dep_graph \<times> context_registration" where
  "register_with_root_and_salt_result h host limit now_ms ctx key_root worktree_salt g =
     register_with_key_and_root_result h limit now_ms
       (compute_context_key_with h host ctx key_root worktree_salt cached_normalize_key_path) ctx key_root g"

definition register_with_root_and_salt ::
    "digest \<Rightarrow> string \<Rightarrow> nat \<Rightarrow> u64 \<Rightarrow> compile_context \<Rightarrow> npath option \<Rightarrow> npath option \<Rightarrow> dep_graph \<Rightarrow>
       dep_graph \<times> context_key" where
  "register_with_root_and_salt h host limit now_ms ctx key_root worktree_salt g =
     (let (g', r) = register_with_root_and_salt_result h host limit now_ms ctx key_root worktree_salt g
      in (g', cr_key r))"

definition register_with_root_result ::
    "digest \<Rightarrow> string \<Rightarrow> nat \<Rightarrow> u64 \<Rightarrow> compile_context \<Rightarrow> npath option \<Rightarrow> dep_graph \<Rightarrow>
       dep_graph \<times> context_registration" where
  "register_with_root_result h host limit now_ms ctx key_root g =
     register_with_root_and_salt_result h host limit now_ms ctx key_root None g"

definition register_with_root ::
    "digest \<Rightarrow> string \<Rightarrow> nat \<Rightarrow> u64 \<Rightarrow> compile_context \<Rightarrow> npath option \<Rightarrow> dep_graph \<Rightarrow>
       dep_graph \<times> context_key" where
  "register_with_root h host limit now_ms ctx key_root g =
     (let (g', r) = register_with_root_result h host limit now_ms ctx key_root g in (g', cr_key r))"

definition dg_register ::
    "digest \<Rightarrow> string \<Rightarrow> nat \<Rightarrow> u64 \<Rightarrow> compile_context \<Rightarrow> dep_graph \<Rightarrow> dep_graph \<times> context_key" where
  "dg_register h host limit now_ms ctx g = register_with_root h host limit now_ms ctx None g"

definition rustc_metadata_compat_map_key :: "digest \<Rightarrow> context_key \<Rightarrow> npath \<Rightarrow> npath option \<Rightarrow> context_key" where
  "rustc_metadata_compat_map_key h compat_key source_file key_root =
     instance_map_key (instance_key_new h compat_key source_file key_root)"

definition register_rustc_with_key_and_root_result ::
    "digest \<Rightarrow> nat \<Rightarrow> u64 \<Rightarrow> context_key \<Rightarrow> compile_context \<Rightarrow> npath option \<Rightarrow> (string \<times> npath) list \<Rightarrow>
       context_key option \<Rightarrow> dep_graph \<Rightarrow> dep_graph \<times> context_registration" where
  "register_rustc_with_key_and_root_result h limit now_ms key ctx key_root externs compat_key g =
     (let (g1, registration) = register_context_entry h limit now_ms key ctx key_root g;
          g2 = g1\<lparr>dg_rustc_externs := dm_insert (cr_map_key registration) externs (dg_rustc_externs g1)\<rparr>;
          compat_map = map_option (\<lambda>c. rustc_metadata_compat_map_key h c (cc_source_file ctx) key_root) compat_key;
          g3 = (case compat_map of
                  Some k \<Rightarrow> g2\<lparr>dg_compat := dm_insert k (cr_map_key registration) (dg_compat g2)\<rparr>
                | None \<Rightarrow> g2)
      in (g3, registration\<lparr>cr_metadata_compat_map_key := compat_map\<rparr>))"

definition is_cold :: "dep_graph \<Rightarrow> context_key \<Rightarrow> bool" where
  "is_cold g key =
     (case resolve_instance_key g key of
        None \<Rightarrow> True
      | Some k \<Rightarrow> (case dm_get (dg_contexts g) k of Some e \<Rightarrow> ce_state e = Cold | None \<Rightarrow> True))"

subsection \<open>Recording a compile\<close>

text \<open>The files of an entry in the order the code hashes them.\<close>

definition entry_files :: "context_entry \<Rightarrow> npath list" where
  "entry_files e = cc_source_file (ce_context e) # ce_resolved_includes e @ cc_force_includes (ce_context e)"

definition update_with_env ::
    "digest \<Rightarrow> u64 \<Rightarrow> context_key \<Rightarrow> scan_result \<Rightarrow> (npath \<Rightarrow> content_hash option) \<Rightarrow> string list \<Rightarrow>
       (string \<Rightarrow> string option) \<Rightarrow> dep_graph \<Rightarrow> dep_graph \<times> artifact_key option" where
  "update_with_env h now_ms key scan get_hash env_dep_names env_value g =
     (case resolve_instance_key g key of
        None \<Rightarrow> (g, None)
      | Some k \<Rightarrow>
          (let env_hashes = map (\<lambda>name. (name, hash_env_dep_value h (env_value name))) env_dep_names;
               externs = rustc_extern_inputs g k
           in case dm_get (dg_contexts g) k of
                None \<Rightarrow> (g, None)
              | Some e0 \<Rightarrow>
                  (let e = e0\<lparr> ce_resolved_includes := sr_resolved scan,
                               ce_unresolved_includes := sr_unresolved scan,
                               ce_has_computed_includes := sr_has_computed scan,
                               ce_last_accessed_unix_ms := now_ms \<rparr>;
                       g1 = set_entry k e g
                   in case hash_all get_hash (entry_files e) of
                        None \<Rightarrow> (g1, None)
                      | Some file_hashes \<Rightarrow>
                          (case (case externs of
                              Some es \<Rightarrow>
                                (case collect_rustc_extern_hashes get_hash es of
                                   None \<Rightarrow> None
                                 | Some extern_hashes \<Rightarrow>
                                     Some (fold_rustc_env_deps_into_artifact_key h
                                             (compute_rustc_artifact_key_with_root_with h (ce_logical_key e)
                                               file_hashes extern_hashes (ce_key_root e) cached_normalize_key_path)
                                             env_hashes, sort_key fst env_hashes))
                            | None \<Rightarrow>
                                Some (compute_artifact_key_normalized_with_root h (ce_logical_key e) file_hashes
                                        (ce_key_root e), env_hashes)) of
                             None \<Rightarrow> (g1, None)
                           | Some (artifact_key, env_deps) \<Rightarrow>
                               (dg_mark_dirty (set_entry k (e\<lparr> ce_state := Warm,
                                    ce_artifact_key := Some artifact_key,
                                    ce_last_file_hashes := file_hashes,
                                    ce_rustc_env_deps := env_deps \<rparr>) g1),
                                Some artifact_key)))))"

definition update ::
    "digest \<Rightarrow> u64 \<Rightarrow> context_key \<Rightarrow> scan_result \<Rightarrow> (npath \<Rightarrow> content_hash option) \<Rightarrow> dep_graph \<Rightarrow>
       dep_graph \<times> artifact_key option" where
  "update h now_ms key scan get_hash g = update_with_env h now_ms key scan get_hash [] (\<lambda>_. None) g"

subsection \<open>Verdicts\<close>

definition fresh_or_hash_match ::
    "(npath \<Rightarrow> bool) \<Rightarrow> (npath \<Rightarrow> content_hash option) \<Rightarrow> context_entry \<Rightarrow> npath \<Rightarrow> bool" where
  "fresh_or_hash_match is_fresh get_hash e path =
     (if is_fresh path then True
      else (case get_hash path of
              None \<Rightarrow> False
            | Some current \<Rightarrow> list_ex (\<lambda>(p, hash). p = path \<and> hash = current) (ce_last_file_hashes e)))"

text \<open>
  The artifact key for the current contents, with the current values of the recorded environment
  reads and whether they moved; none if an extern has no hash.
\<close>

definition current_artifact_key ::
    "digest \<Rightarrow> context_entry \<Rightarrow> (string \<times> npath) list option \<Rightarrow> (npath \<times> content_hash) list \<Rightarrow>
       (npath \<Rightarrow> content_hash option) \<Rightarrow> (string \<Rightarrow> string option) \<Rightarrow>
       (artifact_key \<times> (string \<times> content_hash option) list option) option" where
  "current_artifact_key h e externs file_hashes get_hash env_value =
     (case externs of
        Some es \<Rightarrow>
          (case collect_rustc_extern_hashes get_hash es of
             None \<Rightarrow> None
           | Some extern_hashes \<Rightarrow>
               (let base = compute_rustc_artifact_key_with_root_with h (ce_logical_key e) file_hashes
                             extern_hashes (ce_key_root e) cached_normalize_key_path;
                    env_hashes = collect_rustc_env_hashes h (ce_rustc_env_deps e) env_value;
                    changed = (env_hashes \<noteq> ce_rustc_env_deps e);
                    folded = fold_rustc_env_deps_into_artifact_key h base env_hashes
                in Some (folded, if changed then Some (sort_key fst env_hashes) else None)))
      | None \<Rightarrow>
          Some (compute_artifact_key_with h (ce_logical_key e) file_hashes (ce_key_root e)
                  cached_normalize_key_path, None))"

definition adopt_snapshot ::
    "(string \<times> content_hash option) list option \<Rightarrow> context_entry \<Rightarrow> context_entry" where
  "adopt_snapshot snapshot e = (case snapshot of Some deps \<Rightarrow> e\<lparr>ce_rustc_env_deps := deps\<rparr> | None \<Rightarrow> e)"

definition check_with_env ::
    "digest \<Rightarrow> u64 \<Rightarrow> context_key \<Rightarrow> (npath \<Rightarrow> bool) \<Rightarrow> (npath \<Rightarrow> content_hash option) \<Rightarrow>
       (string \<Rightarrow> string option) \<Rightarrow> dep_graph \<Rightarrow> dep_graph \<times> cache_verdict" where
  "check_with_env h now_ms key is_fresh get_hash env_value g =
     (case resolve_instance_key g key of
        None \<Rightarrow> (count_miss g, ColdVerdict)
      | Some k \<Rightarrow>
          (let g = count_check g; externs = rustc_extern_inputs g k
           in case dm_get (dg_contexts g) k of
                None \<Rightarrow> (count_miss g, ColdVerdict)
              | Some e0 \<Rightarrow>
                  (let e = e0\<lparr>ce_last_accessed_unix_ms := now_ms\<rparr>;
                       g = dg_mark_dirty (set_entry k e g)
                   in if ce_state e = Cold then (count_miss g, ColdVerdict)
                      else if ce_has_computed_includes e then (count_miss g, NeedsPreprocessor)
                      else
                        (let fresh = fresh_or_hash_match is_fresh get_hash e;
                             source_fresh = fresh (cc_source_file (ce_context e));
                             changed_headers =
                               filter (\<lambda>p. \<not> fresh p) (ce_resolved_includes e) @
                               filter (\<lambda>p. \<not> fresh p) (cc_force_includes (ce_context e))
                         in if changed_headers \<noteq> [] then
                              (set_entry k (e\<lparr>ce_state := Stale\<rparr>) (count_miss g), HeadersChanged changed_headers)
                            else (case hash_all get_hash (entry_files e) of
                              None \<Rightarrow> (count_miss g, ColdVerdict)
                            | Some file_hashes \<Rightarrow>
                                (case current_artifact_key h e externs file_hashes get_hash env_value of
                                   None \<Rightarrow> (count_miss g, ColdVerdict)
                                 | Some (artifact_key, snapshot) \<Rightarrow>
                                     if source_fresh then
                                       (if ce_artifact_key e = Some artifact_key then
                                          (count_hit g, Hit artifact_key)
                                        else
                                          (let drifted = drifted_paths (ce_last_file_hashes e) file_hashes
                                           in if drifted \<noteq> [] then
                                                (set_entry k (e\<lparr>ce_state := Stale\<rparr>) (count_miss g),
                                                 HeadersChanged drifted)
                                              else if snapshot \<noteq> None then
                                                (count_hit (set_entry k
                                                   ((adopt_snapshot snapshot e)\<lparr>ce_artifact_key := Some artifact_key\<rparr>) g),
                                                 SourceChanged artifact_key)
                                              else (count_miss g, ColdVerdict)))
                                     else
                                       (count_hit (set_entry k
                                          ((adopt_snapshot snapshot e)\<lparr>ce_artifact_key := Some artifact_key\<rparr>) g),
                                        SourceChanged artifact_key)))))))"

definition check ::
    "digest \<Rightarrow> u64 \<Rightarrow> context_key \<Rightarrow> (npath \<Rightarrow> bool) \<Rightarrow> (npath \<Rightarrow> content_hash option) \<Rightarrow> dep_graph \<Rightarrow>
       dep_graph \<times> cache_verdict" where
  "check h now_ms key is_fresh get_hash g = check_with_env h now_ms key is_fresh get_hash (\<lambda>_. None) g"

text \<open>The first file without a hash, with the wording of the message for its role.\<close>

definition missing_hash_reason :: "(npath \<Rightarrow> content_hash option) \<Rightarrow> context_entry \<Rightarrow> string" where
  "missing_hash_reason get_hash e =
     (if get_hash (cc_source_file (ce_context e)) = None
      then ''source hash missing: '' @ cc_source_file (ce_context e)
      else (case find (\<lambda>p. get_hash p = None) (ce_resolved_includes e) of
              Some p \<Rightarrow> ''header hash missing: '' @ p
            | None \<Rightarrow>
                (case find (\<lambda>p. get_hash p = None) (cc_force_includes (ce_context e)) of
                   Some p \<Rightarrow> ''force-include hash missing: '' @ p
                 | None \<Rightarrow> [])))"

definition check_diagnostic_with_env ::
    "digest \<Rightarrow> u64 \<Rightarrow> context_key \<Rightarrow> (npath \<Rightarrow> bool) \<Rightarrow> (npath \<Rightarrow> content_hash option) \<Rightarrow>
       (string \<Rightarrow> string option) \<Rightarrow> dep_graph \<Rightarrow> dep_graph \<times> cache_verdict \<times> string" where
  "check_diagnostic_with_env h now_ms key is_fresh get_hash env_value g =
     (case resolve_instance_key g key of
        None \<Rightarrow> (count_miss g, ColdVerdict, ''context_key not registered'')
      | Some k \<Rightarrow>
          (let g = count_check g; externs = rustc_extern_inputs g k
           in case dm_get (dg_contexts g) k of
                None \<Rightarrow> (count_miss g, ColdVerdict, ''context_key not registered'')
              | Some e0 \<Rightarrow>
                  (let e = e0\<lparr>ce_last_accessed_unix_ms := now_ms\<rparr>;
                       g = dg_mark_dirty (set_entry k e g)
                   in if ce_state e = Cold then (count_miss g, ColdVerdict, ''context never updated (state=Cold)'')
                      else if ce_has_computed_includes e then
                        (count_miss g, NeedsPreprocessor, ''has computed includes, needs preprocessor'')
                      else
                        (let fresh = fresh_or_hash_match is_fresh get_hash e;
                             source_fresh = fresh (cc_source_file (ce_context e));
                             changed_headers =
                               filter (\<lambda>p. \<not> fresh p) (ce_resolved_includes e) @
                               filter (\<lambda>p. \<not> fresh p) (cc_force_includes (ce_context e))
                         in if changed_headers \<noteq> [] then
                              (set_entry k (e\<lparr>ce_state := Stale\<rparr>) (count_miss g), HeadersChanged changed_headers,
                               ''headers changed: ['' @ join_with '', '' changed_headers @ '']'')
                            else (case hash_all get_hash (entry_files e) of
                              None \<Rightarrow> (count_miss g, ColdVerdict, missing_hash_reason get_hash e)
                            | Some file_hashes \<Rightarrow>
                                (case current_artifact_key h e externs file_hashes get_hash env_value of
                                   None \<Rightarrow> (count_miss g, ColdVerdict, ''rustc extern hash missing'')
                                 | Some (artifact_key, snapshot) \<Rightarrow>
                                     (let rustc_env_changed = (snapshot \<noteq> None)
                                      in if source_fresh then
                                       (if ce_artifact_key e = Some artifact_key then
                                          (count_hit g, Hit artifact_key,
                                           ''hit: artifact_key='' @ take 8 (hex_encode artifact_key))
                                        else
                                          (let old_hex = (case ce_artifact_key e of
                                                 Some ak \<Rightarrow> take 8 (hex_encode ak) | None \<Rightarrow> ''none'');
                                               drifted = drifted_paths (ce_last_file_hashes e) file_hashes;
                                               file_count = length file_hashes
                                           in if drifted \<noteq> [] then
                                                (set_entry k (e\<lparr>ce_state := Stale\<rparr>) (count_miss g),
                                                 HeadersChanged drifted,
                                                 ''drift: was='' @ old_hex @ '', files='' @ show_nat file_count @
                                                 format_drift_for_log drifted @
                                                 '' (journal reported fresh; recompile forced to refresh resolved_includes and store under the write-side key)'')
                                              else if rustc_env_changed then
                                                (set_entry k (adopt_snapshot snapshot (e\<lparr>ce_artifact_key := Some artifact_key\<rparr>))
                                                   (count_hit g),
                                                 SourceChanged artifact_key,
                                                 ''rustc env dependency values changed; looking up the key for the current values'')
                                              else (count_miss g, ColdVerdict,
                                                    ''artifact key missing or stale (was='' @ old_hex @ '', files='' @
                                                    show_nat file_count @ ''); recompile forced'')))
                                     else
                                       (count_hit (set_entry k
                                          (adopt_snapshot snapshot (e\<lparr>ce_artifact_key := Some artifact_key\<rparr>)) g),
                                        SourceChanged artifact_key, ''source content changed''))))))))"

definition check_diagnostic ::
    "digest \<Rightarrow> u64 \<Rightarrow> context_key \<Rightarrow> (npath \<Rightarrow> bool) \<Rightarrow> (npath \<Rightarrow> content_hash option) \<Rightarrow> dep_graph \<Rightarrow>
       dep_graph \<times> cache_verdict \<times> string" where
  "check_diagnostic h now_ms key is_fresh get_hash g =
     check_diagnostic_with_env h now_ms key is_fresh get_hash (\<lambda>_. None) g"

definition try_fast_hit_with_env ::
    "digest \<Rightarrow> context_key \<Rightarrow> (npath \<Rightarrow> content_hash option) \<Rightarrow> (string \<Rightarrow> string option) \<Rightarrow> dep_graph \<Rightarrow>
       dep_graph \<times> artifact_key option" where
  "try_fast_hit_with_env h key get_hash env_value g =
     (case resolve_instance_key g key of
        None \<Rightarrow> (g, None)
      | Some k \<Rightarrow>
          (case dm_get (dg_contexts g) k of
             None \<Rightarrow> (g, None)
           | Some e \<Rightarrow>
               if ce_state e = Cold \<or> ce_has_computed_includes e then (g, None)
               else (case ce_artifact_key e of
                 None \<Rightarrow> (g, None)
               | Some stored_key \<Rightarrow>
                   (case hash_all get_hash (entry_files e) of
                      None \<Rightarrow> (g, None)
                    | Some file_hashes \<Rightarrow>
                        (case current_artifact_key h e (rustc_extern_inputs g k) file_hashes get_hash env_value of
                           None \<Rightarrow> (g, None)
                         | Some (computed, _) \<Rightarrow>
                             if computed = stored_key then (count_hit g, Some computed) else (g, None))))))"

definition try_fast_hit ::
    "digest \<Rightarrow> context_key \<Rightarrow> (npath \<Rightarrow> content_hash option) \<Rightarrow> dep_graph \<Rightarrow> dep_graph \<times> artifact_key option" where
  "try_fast_hit h key get_hash g = try_fast_hit_with_env h key get_hash (\<lambda>_. None) g"

definition check_rustc_metadata_compat_with_env ::
    "digest \<Rightarrow> context_key \<Rightarrow> (string \<times> npath) list \<Rightarrow> (npath \<Rightarrow> bool) \<Rightarrow> (npath \<Rightarrow> content_hash option) \<Rightarrow>
       (string \<Rightarrow> string option) \<Rightarrow> dep_graph \<Rightarrow> dep_graph \<times> cache_verdict \<times> string \<times> context_key option" where
  "check_rustc_metadata_compat_with_env h compat_key current_externs is_fresh get_hash env_value g =
     (case dm_get (dg_compat g) compat_key of
        None \<Rightarrow> (g, ColdVerdict, ''rustc metadata compatibility alias not registered'', None)
      | Some actual_key \<Rightarrow>
          (case rustc_extern_inputs g actual_key of
             None \<Rightarrow> (g, ColdVerdict, ''rustc metadata compatibility candidate has no extern inputs'', Some actual_key)
           | Some candidate_externs \<Rightarrow>
               (case dm_get (dg_contexts g) actual_key of
                  None \<Rightarrow> (g, ColdVerdict, ''rustc metadata compatibility candidate context missing'', Some actual_key)
                | Some e \<Rightarrow>
                    if ce_state e = Cold then
                      (g, ColdVerdict, ''rustc metadata compatibility candidate is cold'', Some actual_key)
                    else if ce_has_computed_includes e then
                      (g, NeedsPreprocessor, ''rustc metadata compatibility candidate needs preprocessor'', Some actual_key)
                    else (case ce_artifact_key e of
                      None \<Rightarrow> (g, ColdVerdict, ''rustc metadata compatibility candidate has no artifact key'', Some actual_key)
                    | Some artifact_key \<Rightarrow>
                        (let fresh = fresh_or_hash_match is_fresh get_hash e;
                             source = cc_source_file (ce_context e)
                         in if \<not> fresh source then
                              (g, HeadersChanged [source], ''rustc metadata compatibility source changed'', Some actual_key)
                            else (case find (\<lambda>p. \<not> fresh p) (ce_resolved_includes e) of
                              Some p \<Rightarrow> (g, HeadersChanged [p], ''rustc metadata compatibility header changed: '' @ p, Some actual_key)
                            | None \<Rightarrow>
                                (case find (\<lambda>p. \<not> fresh p) (cc_force_includes (ce_context e)) of
                                   Some p \<Rightarrow> (g, HeadersChanged [p], ''rustc metadata compatibility force-include changed: '' @ p, Some actual_key)
                                 | None \<Rightarrow>
                                     (case collect_rustc_extern_hashes get_hash current_externs of
                                        None \<Rightarrow> (g, ColdVerdict, ''rustc metadata compatibility current extern hash missing'', Some actual_key)
                                      | Some current_hashes \<Rightarrow>
                                          (case collect_rustc_extern_hashes get_hash candidate_externs of
                                             None \<Rightarrow> (g, ColdVerdict, ''rustc metadata compatibility candidate extern hash missing'', Some actual_key)
                                           | Some candidate_hashes \<Rightarrow>
                                               if sort_key fst current_hashes \<noteq> sort_key fst candidate_hashes then
                                                 (g, ColdVerdict, ''rustc metadata compatibility extern content differs'', Some actual_key)
                                               else if ce_rustc_env_deps e \<noteq> [] \<and>
                                                       collect_rustc_env_hashes h (ce_rustc_env_deps e) env_value \<noteq> ce_rustc_env_deps e then
                                                 (g, ColdVerdict, ''rustc metadata compatibility env-dep values changed'', Some actual_key)
                                               else (count_hit g, Hit artifact_key, ''rustc metadata compatibility hit'', Some actual_key))))))))))"

definition check_rustc_metadata_compat ::
    "digest \<Rightarrow> context_key \<Rightarrow> (string \<times> npath) list \<Rightarrow> (npath \<Rightarrow> bool) \<Rightarrow> (npath \<Rightarrow> content_hash option) \<Rightarrow>
       dep_graph \<Rightarrow> dep_graph \<times> cache_verdict \<times> string \<times> context_key option" where
  "check_rustc_metadata_compat h compat_key current_externs is_fresh get_hash g =
     check_rustc_metadata_compat_with_env h compat_key current_externs is_fresh get_hash (\<lambda>_. None) g"

subsection \<open>Maintenance\<close>

definition references_artifact_key :: "dep_graph \<Rightarrow> string \<Rightarrow> bool" where
  "references_artifact_key g artifact_key_hex =
     list_ex (\<lambda>(_, e). case ce_artifact_key e of
                Some ak \<Rightarrow> hex_encode ak = artifact_key_hex | None \<Rightarrow> False) (dg_contexts g)"

definition keys_to_clear :: "dep_graph \<Rightarrow> string set \<Rightarrow> context_key list" where
  "keys_to_clear g evicted_hex =
     map fst (filter (\<lambda>(_, e). case ce_artifact_key e of
       Some ak \<Rightarrow> hex_encode ak \<in> evicted_hex | None \<Rightarrow> False) (dg_contexts g))"

definition clear_key :: "(context_key, context_entry) dmap \<times> nat \<Rightarrow> context_key \<Rightarrow>
    (context_key, context_entry) dmap \<times> nat" where
  "clear_key acc k =
     (let (m, cleared) = acc
      in case dm_get m k of
           None \<Rightarrow> (m, cleared)
         | Some e \<Rightarrow>
             if ce_artifact_key e \<noteq> None then (dm_insert k (e\<lparr>ce_artifact_key := None\<rparr>) m, cleared + 1)
             else (m, cleared))"

definition invalidate_artifact_keys :: "string set \<Rightarrow> dep_graph \<Rightarrow> dep_graph \<times> nat" where
  "invalidate_artifact_keys evicted_hex g =
     (if evicted_hex = {} then (g, 0)
      else
        (let (m, cleared) = foldl clear_key (dg_contexts g, 0) (keys_to_clear g evicted_hex);
             g' = g\<lparr>dg_contexts := m\<rparr>
         in (if 0 < cleared then dg_mark_dirty g' else g', cleared)))"

definition remove_contexts ::
    "(context_key, context_entry) dmap \<Rightarrow> context_key list \<Rightarrow> (context_key, context_entry) dmap \<times> nat" where
  "remove_contexts m keys =
     foldl (\<lambda>(m, removed) k. if dm_has m k then (dm_remove k m, removed + 1) else (m, removed)) (m, 0) keys"

definition referenced_paths :: "(context_key, context_entry) dmap \<Rightarrow> npath set" where
  "referenced_paths m =
     (\<Union>(_, e) \<in> set m. set (ce_resolved_includes e) \<union> {cc_source_file (ce_context e)} \<union>
        set (cc_force_includes (ce_context e)))"

definition evict_contexts :: "context_key list \<Rightarrow> dep_graph \<Rightarrow> dep_graph \<times> nat" where
  "evict_contexts keys g =
     (let (m, removed) = remove_contexts (dg_contexts g) keys;
          g = (if 0 < removed then dg_mark_dirty (g\<lparr>dg_contexts := m\<rparr>) else g\<lparr>dg_contexts := m\<rparr>);
          equivalent = dm_retain (\<lambda>_ instances. instances \<noteq> [])
            (dm_map (\<lambda>_ instances. filter (\<lambda>i. dm_has m i) instances) (dg_equivalent g));
          live = set (dm_keys m);
          externs = dm_retain (\<lambda>k _. k \<in> live) (dg_rustc_externs g);
          compat_map = dm_retain (\<lambda>_ v. v \<in> live) (dg_compat g);
          referenced = referenced_paths m;
          files = dm_retain (\<lambda>p _. p \<in> referenced) (dg_files g)
      in (g\<lparr> dg_equivalent := equivalent, dg_rustc_externs := externs, dg_compat := compat_map,
             dg_files := files \<rparr>, removed))"

text \<open>\<open>max_age\<close> in nanoseconds; its milliseconds saturate at the width of the counter.\<close>

definition expired_contexts :: "nat \<Rightarrow> u64 \<Rightarrow> dep_graph \<Rightarrow> context_key list" where
  "expired_contexts max_age now_ms g =
     (let max_age_ms = min (max_age div 1000000) (2 ^ 64 - 1)
      in map fst (filter (\<lambda>(_, e). max_age = 0 \<or> max_age_ms < now_ms - ce_last_accessed_unix_ms e) (dg_contexts g)))"

definition trim_at :: "nat \<Rightarrow> u64 \<Rightarrow> dep_graph \<Rightarrow> dep_graph \<times> nat" where
  "trim_at max_age now_ms g = evict_contexts (expired_contexts max_age now_ms g) g"

definition dg_clear :: "dep_graph \<Rightarrow> dep_graph" where
  "dg_clear g =
     dg_mark_dirty (g\<lparr> dg_files := [], dg_contexts := [], dg_equivalent := [], dg_rustc_externs := [],
        dg_compat := [], dg_path_key_cache := [], dg_checks := 0, dg_hits := 0, dg_misses := 0 \<rparr>)"

definition stats :: "dep_graph \<Rightarrow> dep_graph_stats" where
  "stats g = \<lparr> st_file_count = length (dg_files g), st_context_count = length (dg_contexts g),
     st_checks = dg_checks g, st_hits = dg_hits g, st_misses = dg_misses g \<rparr>"

definition resolved_entry :: "dep_graph \<Rightarrow> context_key \<Rightarrow> context_entry option" where
  "resolved_entry g key = Option.bind (resolve_instance_key g key) (dm_get (dg_contexts g))"

definition get_state :: "dep_graph \<Rightarrow> context_key \<Rightarrow> context_state option" where
  "get_state g key = map_option ce_state (resolved_entry g key)"

definition logical_context_key :: "dep_graph \<Rightarrow> context_key \<Rightarrow> context_key option" where
  "logical_context_key g key = map_option ce_logical_key (resolved_entry g key)"

definition state_breakdown :: "dep_graph \<Rightarrow> nat \<times> nat \<times> nat" where
  "state_breakdown g =
     (let c = (\<lambda>s. length (filter (\<lambda>(_, e). ce_state e = s) (dg_contexts g))) in (c Cold, c Warm, c Stale))"

definition contexts_with_artifact_key :: "dep_graph \<Rightarrow> nat" where
  "contexts_with_artifact_key g = length (filter (\<lambda>(_, e). ce_artifact_key e \<noteq> None) (dg_contexts g))"

definition get_includes :: "dep_graph \<Rightarrow> context_key \<Rightarrow> npath list option" where
  "get_includes g key = map_option ce_resolved_includes (resolved_entry g key)"

definition get_force_includes :: "dep_graph \<Rightarrow> context_key \<Rightarrow> npath list option" where
  "get_force_includes g key = map_option (\<lambda>e. cc_force_includes (ce_context e)) (resolved_entry g key)"

definition get_rustc_externs :: "dep_graph \<Rightarrow> context_key \<Rightarrow> (string \<times> npath) list option" where
  "get_rustc_externs g key = Option.bind (resolve_instance_key g key) (rustc_extern_inputs g)"

definition get_rustc_env_deps :: "dep_graph \<Rightarrow> context_key \<Rightarrow> (string \<times> content_hash option) list option" where
  "get_rustc_env_deps g key = Option.bind (resolve_instance_key g key) (rustc_env_dep_inputs g)"

definition get_key_root :: "dep_graph \<Rightarrow> context_key \<Rightarrow> npath option" where
  "get_key_root g key = Option.bind (resolved_entry g key) ce_key_root"

definition set_rustc_env_deps ::
    "context_key \<Rightarrow> (string \<times> content_hash option) list \<Rightarrow> dep_graph \<Rightarrow> dep_graph" where
  "set_rustc_env_deps key deps g =
     (case resolve_instance_key g key of
        None \<Rightarrow> g
      | Some k \<Rightarrow>
          (case dm_get (dg_contexts g) k of
             None \<Rightarrow> g
           | Some e \<Rightarrow> dg_mark_dirty (set_entry k (e\<lparr>ce_rustc_env_deps := deps\<rparr>) g)))"

definition store_file_includes :: "nat \<Rightarrow> npath \<Rightarrow> include_directive list \<Rightarrow> dep_graph \<Rightarrow> dep_graph" where
  "store_file_includes now path includes g =
     dg_mark_dirty (g\<lparr>dg_files := dm_insert path \<lparr> fe_includes = includes, fe_scanned_at = now \<rparr> (dg_files g)\<rparr>)"

definition get_file_includes :: "dep_graph \<Rightarrow> npath \<Rightarrow> include_directive list option" where
  "get_file_includes g path = map_option fe_includes (dm_get (dg_files g) path)"

definition mark_stale :: "context_key \<Rightarrow> dep_graph \<Rightarrow> dep_graph \<times> bool" where
  "mark_stale key g =
     (case resolve_instance_key g key of
        None \<Rightarrow> (g, False)
      | Some k \<Rightarrow>
          (case dm_get (dg_contexts g) k of
             None \<Rightarrow> (g, False)
           | Some e \<Rightarrow> (dg_mark_dirty (set_entry k (e\<lparr>ce_state := Stale\<rparr>) g), True)))"

text \<open>The commands come parsed; \<open>hash_file\<close> is the content hash of the compiler's binary.\<close>

definition ingested_context ::
    "digest \<Rightarrow> (npath \<Rightarrow> content_hash option) \<Rightarrow> npath list \<Rightarrow> parsed_args \<Rightarrow> compile_context" where
  "ingested_context h hash_file system_includes parsed =
     (let compiler_hash = (case Option.bind (pa_compiler parsed) hash_file of
            Some x \<Rightarrow> x | None \<Rightarrow> h ''unknown-compiler'');
          ctx = from_parsed_args parsed compiler_hash
      in ctx\<lparr>cc_include_search := (cc_include_search ctx)\<lparr>isp_system :=
           extend_unseen (isp_system (cc_include_search ctx)) system_includes\<rparr>\<rparr>)"

fun ingest_compile_commands ::
    "digest \<Rightarrow> string \<Rightarrow> nat \<Rightarrow> u64 \<Rightarrow> (npath \<Rightarrow> content_hash option) \<Rightarrow> npath list \<Rightarrow> parsed_args list \<Rightarrow>
       dep_graph \<Rightarrow> dep_graph \<times> context_key list" where
  "ingest_compile_commands h host limit now_ms hash_file system_includes [] g = (g, [])"
| "ingest_compile_commands h host limit now_ms hash_file system_includes (cmd # cmds) g =
     (let (g1, k) = dg_register h host limit now_ms (ingested_context h hash_file system_includes cmd) g;
          (g2, ks) = ingest_compile_commands h host limit now_ms hash_file system_includes cmds g1
      in (g2, k # ks))"

subsection \<open>Runs\<close>

datatype graph_op =
    Register u64 context_key compile_context "npath option"
  | RegisterRustc u64 context_key compile_context "npath option" "(string \<times> npath) list" "context_key option"
  | Update u64 context_key scan_result "npath \<Rightarrow> content_hash option" "string list" "string \<Rightarrow> string option"
  | Check u64 context_key "npath \<Rightarrow> bool" "npath \<Rightarrow> content_hash option" "string \<Rightarrow> string option"
  | FastHit context_key "npath \<Rightarrow> content_hash option" "string \<Rightarrow> string option"
  | CompatCheck context_key "(string \<times> npath) list" "npath \<Rightarrow> bool" "npath \<Rightarrow> content_hash option" "string \<Rightarrow> string option"
  | Invalidate "string set"
  | EvictContexts "context_key list"
  | TrimAt nat u64
  | ClearGraph
  | SetEnvDeps context_key "(string \<times> content_hash option) list"
  | StoreIncludes nat npath "include_directive list"
  | MarkStale context_key
  | TakeDirty

fun graph_step :: "digest \<Rightarrow> nat \<Rightarrow> dep_graph \<Rightarrow> graph_op \<Rightarrow> dep_graph" where
  "graph_step h limit g (Register now key ctx root) =
     fst (register_with_key_and_root_result h limit now key ctx root g)"
| "graph_step h limit g (RegisterRustc now key ctx root externs compat_key) =
     fst (register_rustc_with_key_and_root_result h limit now key ctx root externs compat_key g)"
| "graph_step h limit g (Update now key scan get_hash names env_value) =
     fst (update_with_env h now key scan get_hash names env_value g)"
| "graph_step h limit g (Check now key is_fresh get_hash env_value) =
     fst (check_with_env h now key is_fresh get_hash env_value g)"
| "graph_step h limit g (FastHit key get_hash env_value) = fst (try_fast_hit_with_env h key get_hash env_value g)"
| "graph_step h limit g (CompatCheck key externs is_fresh get_hash env_value) =
     fst (check_rustc_metadata_compat_with_env h key externs is_fresh get_hash env_value g)"
| "graph_step h limit g (Invalidate evicted) = fst (invalidate_artifact_keys evicted g)"
| "graph_step h limit g (EvictContexts keys) = fst (evict_contexts keys g)"
| "graph_step h limit g (TrimAt age now) = fst (trim_at age now g)"
| "graph_step h limit g ClearGraph = dg_clear g"
| "graph_step h limit g (SetEnvDeps key deps) = set_rustc_env_deps key deps g"
| "graph_step h limit g (StoreIncludes now path includes) = store_file_includes now path includes g"
| "graph_step h limit g (MarkStale key) = fst (mark_stale key g)"
| "graph_step h limit g TakeDirty = fst (dg_take_dirty g)"

subsection \<open>Projections of the updates\<close>

lemma graph_fields [simp]:
  "dg_contexts (dg_mark_dirty g) = dg_contexts g" "dg_contexts (count_check g) = dg_contexts g"
  "dg_contexts (count_hit g) = dg_contexts g" "dg_contexts (count_miss g) = dg_contexts g"
  "dg_contexts (set_entry k e g) = dm_insert k e (dg_contexts g)"
  "dg_equivalent (dg_mark_dirty g) = dg_equivalent g" "dg_equivalent (count_check g) = dg_equivalent g"
  "dg_equivalent (count_hit g) = dg_equivalent g" "dg_equivalent (count_miss g) = dg_equivalent g"
  "dg_equivalent (set_entry k e g) = dg_equivalent g"
  "dg_rustc_externs (dg_mark_dirty g) = dg_rustc_externs g" "dg_rustc_externs (count_check g) = dg_rustc_externs g"
  "dg_rustc_externs (count_hit g) = dg_rustc_externs g" "dg_rustc_externs (count_miss g) = dg_rustc_externs g"
  "dg_rustc_externs (set_entry k e g) = dg_rustc_externs g"
  "dg_compat (dg_mark_dirty g) = dg_compat g" "dg_compat (count_check g) = dg_compat g"
  "dg_compat (count_hit g) = dg_compat g" "dg_compat (count_miss g) = dg_compat g"
  "dg_compat (set_entry k e g) = dg_compat g"
  "dg_files (dg_mark_dirty g) = dg_files g" "dg_files (count_check g) = dg_files g"
  "dg_files (count_hit g) = dg_files g" "dg_files (count_miss g) = dg_files g"
  "dg_files (set_entry k e g) = dg_files g"
  by (simp_all add: dg_mark_dirty_def count_check_def count_hit_def count_miss_def set_entry_def)

end
