(* ===== verification/GraphInvariant.thy ===== *)
theory GraphInvariant
  imports DepGraph
begin

text \<open>
  The shape invariant of the dependency graph: how the contexts, the index of equivalent
  checkouts, the extern inputs and the compatibility aliases fit together, and that every
  operation keeps it, so that it holds after every run.
\<close>

subsection \<open>The invariant\<close>

text \<open>
  The invariant: distinct keys; a row of the equivalence index is a non-empty list of at most
  \<open>limit\<close> distinct live instances of its logical key, and every live instance is in its row;
  extern inputs and compatibility aliases belong to live contexts.
\<close>

definition graph_ok :: "nat \<Rightarrow> dep_graph \<Rightarrow> bool" where
  "graph_ok limit g \<longleftrightarrow>
     dm_wf (dg_contexts g) \<and> dm_wf (dg_equivalent g) \<and> dm_wf (dg_rustc_externs g) \<and>
     dm_wf (dg_compat g) \<and> dm_wf (dg_files g) \<and>
     (\<forall>key is. dm_get (dg_equivalent g) key = Some is \<longrightarrow>
        is \<noteq> [] \<and> distinct is \<and> length is \<le> limit \<and>
        (\<forall>i \<in> set is. map_option ce_logical_key (dm_get (dg_contexts g) i) = Some key)) \<and>
     (\<forall>i e. dm_get (dg_contexts g) i = Some e \<longrightarrow>
        (\<exists>is. dm_get (dg_equivalent g) (ce_logical_key e) = Some is \<and> i \<in> set is)) \<and>
     (\<forall>k es. dm_get (dg_rustc_externs g) k = Some es \<longrightarrow> dm_has (dg_contexts g) k) \<and>
     (\<forall>k v. dm_get (dg_compat g) k = Some v \<longrightarrow> dm_has (dg_contexts g) v)"

lemma graph_okD:
  assumes "graph_ok limit g"
  shows "dm_wf (dg_contexts g)" "dm_wf (dg_equivalent g)" "dm_wf (dg_rustc_externs g)"
    "dm_wf (dg_compat g)" "dm_wf (dg_files g)"
    and "dm_get (dg_equivalent g) key = Some is \<Longrightarrow> is \<noteq> [] \<and> distinct is \<and> length is \<le> limit"
    and "dm_get (dg_equivalent g) key = Some is \<Longrightarrow> i \<in> set is \<Longrightarrow>
      map_option ce_logical_key (dm_get (dg_contexts g) i) = Some key"
    and "dm_get (dg_contexts g) i = Some e \<Longrightarrow>
      \<exists>is. dm_get (dg_equivalent g) (ce_logical_key e) = Some is \<and> i \<in> set is"
    and "dm_get (dg_rustc_externs g) k = Some es \<Longrightarrow> dm_has (dg_contexts g) k"
    and "dm_get (dg_compat g) k = Some v \<Longrightarrow> dm_has (dg_contexts g) v"
  using assms unfolding graph_ok_def by blast+

lemma graph_okI:
  assumes "dm_wf (dg_contexts g)" "dm_wf (dg_equivalent g)" "dm_wf (dg_rustc_externs g)"
    "dm_wf (dg_compat g)" "dm_wf (dg_files g)"
    and "\<And>key is. dm_get (dg_equivalent g) key = Some is \<Longrightarrow> is \<noteq> [] \<and> distinct is \<and> length is \<le> limit"
    and "\<And>key is i. dm_get (dg_equivalent g) key = Some is \<Longrightarrow> i \<in> set is \<Longrightarrow>
      map_option ce_logical_key (dm_get (dg_contexts g) i) = Some key"
    and "\<And>i e. dm_get (dg_contexts g) i = Some e \<Longrightarrow>
      \<exists>is. dm_get (dg_equivalent g) (ce_logical_key e) = Some is \<and> i \<in> set is"
    and "\<And>k es. dm_get (dg_rustc_externs g) k = Some es \<Longrightarrow> dm_has (dg_contexts g) k"
    and "\<And>k v. dm_get (dg_compat g) k = Some v \<Longrightarrow> dm_has (dg_contexts g) v"
  shows "graph_ok limit g"
  unfolding graph_ok_def using assms by blast

text \<open>Operations that only rewrite entries in place keep the shape.\<close>

definition same_shape :: "dep_graph \<Rightarrow> dep_graph \<Rightarrow> bool" where
  "same_shape g g' \<longleftrightarrow>
     dg_equivalent g' = dg_equivalent g \<and> dg_rustc_externs g' = dg_rustc_externs g \<and>
     dg_compat g' = dg_compat g \<and> (dm_wf (dg_files g) \<longrightarrow> dm_wf (dg_files g')) \<and>
     (dm_wf (dg_contexts g) \<longrightarrow> dm_wf (dg_contexts g')) \<and>
     (\<forall>k. map_option ce_logical_key (dm_get (dg_contexts g') k) =
          map_option ce_logical_key (dm_get (dg_contexts g) k))"

lemma same_shape_refl [simp]: "same_shape g g"
  by (simp add: same_shape_def)

lemma same_shape_trans: "same_shape g g' \<Longrightarrow> same_shape g' g'' \<Longrightarrow> same_shape g g''"
  by (simp add: same_shape_def)

lemma same_shape_counters [simp]:
  "same_shape g (dg_mark_dirty g') = same_shape g g'" "same_shape g (count_check g') = same_shape g g'"
  "same_shape g (count_hit g') = same_shape g g'" "same_shape g (count_miss g') = same_shape g g'"
  "same_shape (count_check g) g' = same_shape g g'"
  by (simp_all add: same_shape_def)

lemma same_shape_set_entry:
  "dm_get (dg_contexts g) k = Some e0 \<Longrightarrow> ce_logical_key e = ce_logical_key e0 \<Longrightarrow> same_shape g g' \<Longrightarrow>
     same_shape g (set_entry k e g')"
  by (simp add: same_shape_def)

lemma same_shape_has: "same_shape g g' \<Longrightarrow> dm_has (dg_contexts g') k = dm_has (dg_contexts g) k"
  unfolding same_shape_def dm_has_def by (metis option.map_disc_iff)

lemma graph_ok_same_shape:
  assumes "graph_ok limit g" and s: "same_shape g g'"
  shows "graph_ok limit g'"
proof (rule graph_okI)
  note D = graph_okD [OF assms(1)]
  note has = same_shape_has [OF s]
  show "dm_wf (dg_contexts g')" "dm_wf (dg_equivalent g')" "dm_wf (dg_rustc_externs g')"
    "dm_wf (dg_compat g')" "dm_wf (dg_files g')"
    using D(1-5) s by (auto simp: same_shape_def)
  show "is \<noteq> [] \<and> distinct is \<and> length is \<le> limit" if "dm_get (dg_equivalent g') key = Some is" for key "is"
    using D(6) [of key "is"] that s by (simp add: same_shape_def)
  show "map_option ce_logical_key (dm_get (dg_contexts g') i) = Some key"
    if "dm_get (dg_equivalent g') key = Some is" "i \<in> set is" for key "is" i
    using D(7) [of key "is" i] that s by (simp add: same_shape_def)
  show "\<exists>is. dm_get (dg_equivalent g') (ce_logical_key e) = Some is \<and> i \<in> set is"
    if "dm_get (dg_contexts g') i = Some e" for i e
  proof -
    from that s obtain e0 where "dm_get (dg_contexts g) i = Some e0" "ce_logical_key e0 = ce_logical_key e"
      unfolding same_shape_def by (metis option.map_disc_iff option.exhaust_sel option.map_sel option.sel option.distinct(1))
    with D(8) [of i e0] s show ?thesis by (simp add: same_shape_def)
  qed
  show "dm_has (dg_contexts g') k" if "dm_get (dg_rustc_externs g') k = Some es" for k es
    using D(9) [of k es] that s has by (simp add: same_shape_def)
  show "dm_has (dg_contexts g') v" if "dm_get (dg_compat g') k = Some v" for k v
    using D(10) [of k v] that s has by (simp add: same_shape_def)
qed

lemma same_shape_check: "same_shape g (fst (check_with_env h now key is_fresh get_hash env_value g))"
  by (auto simp: check_with_env_def Let_def adopt_snapshot_def split: option.splits prod.splits
      intro!: same_shape_set_entry)

lemma same_shape_update: "same_shape g (fst (update_with_env h now key scan get_hash names env_value g))"
  by (auto simp: update_with_env_def Let_def split: option.splits prod.splits intro!: same_shape_set_entry)

lemma fast_hit_state:
  "fst (try_fast_hit_with_env h key get_hash env_value g) \<in> {g, count_hit g}"
  by (simp add: try_fast_hit_with_env_def split: option.split)

lemma compat_check_state:
  "fst (check_rustc_metadata_compat_with_env h key externs is_fresh get_hash env_value g) \<in> {g, count_hit g}"
  unfolding check_rustc_metadata_compat_with_env_def Let_def
  by (rule fst_case_optionI fst_ifI | simp only: fst_conv insert_iff simp_thms)+

lemma same_shape_hits:
  "same_shape g (fst (try_fast_hit_with_env h key get_hash env_value g))"
  "same_shape g (fst (check_rustc_metadata_compat_with_env h key externs is_fresh get_hash env_value g))"
  using fast_hit_state [of h key get_hash env_value g]
    compat_check_state [of h key externs is_fresh get_hash env_value g] by auto

lemma same_shape_setters:
  "same_shape g (set_rustc_env_deps key deps g)"
  "same_shape g (fst (mark_stale key g))"
  by (auto simp: set_rustc_env_deps_def mark_stale_def split: option.split intro!: same_shape_set_entry)

lemma same_shape_stores:
  "same_shape g (store_file_includes t p incs g)"
  "same_shape g (fst (dg_take_dirty g))"
  by (simp_all add: same_shape_def store_file_includes_def dg_take_dirty_def)

lemma clear_keys_logical:
  "map_option ce_logical_key (dm_get (fst (foldl clear_key acc ks)) i) = map_option ce_logical_key (dm_get (fst acc) i) \<and>
   (dm_wf (fst acc) \<longrightarrow> dm_wf (fst (foldl clear_key acc ks)))"
proof (induction ks arbitrary: acc)
  case (Cons k ks)
  have "map_option ce_logical_key (dm_get (fst (clear_key acc k)) i) = map_option ce_logical_key (dm_get (fst acc) i) \<and>
      (dm_wf (fst acc) \<longrightarrow> dm_wf (fst (clear_key acc k)))"
    by (auto simp: clear_key_def case_prod_beta Let_def split: option.splits)
  with Cons.IH [of "clear_key acc k"] show ?case by simp
qed simp

lemma same_shape_invalidate: "same_shape g (fst (invalidate_artifact_keys evicted g))"
  using clear_keys_logical [of "(dg_contexts g, 0)"]
  by (auto simp: invalidate_artifact_keys_def same_shape_def Let_def case_prod_beta)


subsection \<open>Registration and eviction keep the shape\<close>

definition row_instances :: "dep_graph \<Rightarrow> context_key \<Rightarrow> context_key set" where
  "row_instances g key = (case dm_get (dg_equivalent g) key of None \<Rightarrow> {} | Some is \<Rightarrow> set is)"

lemma push_instance_row:
  assumes "push_instance limit row ik = (r, ev)" "1 \<le> limit"
    and "\<And>xs. row = Some xs \<Longrightarrow> distinct xs \<and> length xs \<le> limit \<and> ik \<notin> set xs"
  shows "r \<noteq> [] \<and> distinct r \<and> length r \<le> limit" "ev \<noteq> Some ik"
    and "set r = insert ik (case row of None \<Rightarrow> {} | Some xs \<Rightarrow> set xs) - set_option ev"
    and "set_option ev \<subseteq> (case row of None \<Rightarrow> {} | Some xs \<Rightarrow> set xs)"
proof -
  consider "row = None" | x xs where "row = Some (x # xs)" "distinct (x # xs)" "length (x # xs) \<le> limit" "ik \<notin> set (x # xs)"
    | "row = Some []"
    using assms(3) by (metis list.exhaust option.exhaust)
  then have "(r \<noteq> [] \<and> distinct r \<and> length r \<le> limit) \<and> ev \<noteq> Some ik \<and>
      set r = insert ik (case row of None \<Rightarrow> {} | Some xs \<Rightarrow> set xs) - set_option ev \<and>
      set_option ev \<subseteq> (case row of None \<Rightarrow> {} | Some xs \<Rightarrow> set xs)"
    using assms(1,2) by cases (auto simp: push_instance_def Let_def split: if_splits)
  then show "r \<noteq> [] \<and> distinct r \<and> length r \<le> limit" "ev \<noteq> Some ik"
    "set r = insert ik (case row of None \<Rightarrow> {} | Some xs \<Rightarrow> set xs) - set_option ev"
    "set_option ev \<subseteq> (case row of None \<Rightarrow> {} | Some xs \<Rightarrow> set xs)" by blast+
qed

lemma row_logical:
  "graph_ok limit g \<Longrightarrow> i \<in> row_instances g key \<Longrightarrow>
     \<exists>e. dm_get (dg_contexts g) i = Some e \<and> ce_logical_key e = key"
  using graph_okD(7) [of limit g key _ i] by (auto simp: row_instances_def split: option.splits)

lemma candidate_logical:
  "graph_ok limit g \<Longrightarrow> equivalent_candidate g key = Some c \<Longrightarrow> ce_logical_key c = key"
  by (auto simp: equivalent_candidate_def find_Some_iff row_instances_def split: option.splits
      dest!: row_logical [of limit g _ key] nth_mem)


lemma dropped_contexts:
  assumes "G = (case ev of Some old \<Rightarrow> drop_context old g | None \<Rightarrow> g)"
  shows "dm_get (dg_contexts G) i = (if ev = Some i then None else dm_get (dg_contexts g) i)"
    and "dg_equivalent G = dg_equivalent g" "dg_files G = dg_files g"
    and "dm_wf (dg_contexts g) \<Longrightarrow> dm_wf (dg_contexts G)"
    and "dm_wf (dg_rustc_externs g) \<Longrightarrow> dm_wf (dg_rustc_externs G)"
    and "dm_wf (dg_compat g) \<Longrightarrow> dm_wf (dg_compat G)"
    and "dm_get (dg_rustc_externs G) k = Some es \<Longrightarrow> dm_get (dg_rustc_externs g) k = Some es \<and> ev \<noteq> Some k"
    and "dm_wf (dg_compat g) \<Longrightarrow> dm_get (dg_compat G) k = Some v \<Longrightarrow> dm_get (dg_compat g) k = Some v \<and> ev \<noteq> Some v"
  by (auto simp: assms drop_context_def dm_get_retain split: option.splits if_splits)

lemma graph_ok_add_instance:
  assumes ok: "graph_ok limit g" and lim: "1 \<le> limit" and new: "dm_get (dg_contexts g) ik = None"
    and e: "ce_logical_key e = key"
    and push: "push_instance limit (dm_get (dg_equivalent g) key) ik = (row, ev)"
    and G: "G = (case ev of Some old \<Rightarrow> drop_context old g' | None \<Rightarrow> g')"
    and g': "g' = (set_entry ik e g)\<lparr>dg_equivalent := dm_insert key row (dg_equivalent g)\<rparr>"
  shows "graph_ok limit G" "dm_has (dg_contexts G) ik"
proof -
  note D = graph_okD [OF ok] and C = dropped_contexts [OF G]
  have old: "distinct xs \<and> length xs \<le> limit \<and> ik \<notin> set xs" if "dm_get (dg_equivalent g) key = Some xs" for xs
    using D(6) [OF that] D(7) [OF that, of ik] new by auto
  have r: "row \<noteq> [] \<and> distinct row \<and> length row \<le> limit" "ev \<noteq> Some ik"
    "set row = insert ik (row_instances g key) - set_option ev" "set_option ev \<subseteq> row_instances g key"
    using push_instance_row [OF push lim old] by (simp_all add: row_instances_def)
  have ctx: "dm_get (dg_contexts G) i =
      (if ev = Some i then None else if i = ik then Some e else dm_get (dg_contexts g) i)" for i
    by (simp add: C(1) g')
  have eqv: "dm_get (dg_equivalent G) = (dm_get (dg_equivalent g))(key \<mapsto> row)"
    by (simp add: C(2) g' fun_upd_def)
  show "dm_has (dg_contexts G) ik" using r(2) by (simp add: dm_has_def ctx)
  have live: "dm_has (dg_contexts G) i" if "dm_has (dg_contexts g) i" "ev \<noteq> Some i" for i
    using that by (simp add: dm_has_def ctx)
  show "graph_ok limit G"
  proof (rule graph_okI)
    show "dm_wf (dg_contexts G)" "dm_wf (dg_equivalent G)" "dm_wf (dg_rustc_externs G)"
      "dm_wf (dg_compat G)" "dm_wf (dg_files G)"
      using D(1-5) C(2,3) C(4-6) by (simp_all add: g')
    show "is \<noteq> [] \<and> distinct is \<and> length is \<le> limit" if "dm_get (dg_equivalent G) key' = Some is" for key' "is"
      using that r(1) D(6) [of key' "is"] by (simp add: eqv split: if_splits)
    show "map_option ce_logical_key (dm_get (dg_contexts G) i) = Some key'"
      if "dm_get (dg_equivalent G) key' = Some is" "i \<in> set is" for key' "is" i
    proof (cases "key' = key")
      case True
      with that r(3) have "i = ik \<or> i \<in> row_instances g key" "ev \<noteq> Some i" by (auto simp: eqv)
      with True e row_logical [OF ok, of i key] show ?thesis by (auto simp: ctx)
    next
      case False
      with that have "map_option ce_logical_key (dm_get (dg_contexts g) i) = Some key'"
        using D(7) [of key' "is" i] by (simp add: eqv)
      moreover have "ev \<noteq> Some i"
        using calculation r(4) row_logical [OF ok, of i key] False by fastforce
      ultimately show ?thesis using new by (auto simp: ctx)
    qed
    show "\<exists>is. dm_get (dg_equivalent G) (ce_logical_key e') = Some is \<and> i \<in> set is"
      if "dm_get (dg_contexts G) i = Some e'" for i e'
    proof (cases "i = ik")
      case True
      with that r(2,3) e show ?thesis by (auto simp: ctx eqv)
    next
      case False
      with that have "dm_get (dg_contexts g) i = Some e'" "ev \<noteq> Some i" by (auto simp: ctx split: if_splits)
      with D(8) [of i e'] r(3) show ?thesis by (fastforce simp: eqv row_instances_def)
    qed
    show "dm_has (dg_contexts G) k" if "dm_get (dg_rustc_externs G) k = Some es" for k es
      using C(7) [OF that] D(9) [of k es] live by (simp add: g')
    show "dm_has (dg_contexts G) v" if "dm_get (dg_compat G) k = Some v" for k v
      using C(8) [OF _ that] D(4) D(10) [of k v] live by (simp add: g')
  qed
qed


lemma graph_ok_register_entry:
  assumes ok: "graph_ok limit g" and lim: "1 \<le> limit"
    and r: "register_context_entry h limit now key ctx root g = (g', reg)"
  shows "graph_ok limit g'" "dm_has (dg_contexts g') (cr_map_key reg)"
proof -
  let ?ik = "instance_map_key (instance_key_new h key (cc_source_file ctx) root)"
  have okd: "graph_ok limit (dg_mark_dirty g)" by (rule graph_ok_same_shape [OF ok]) simp
  have "graph_ok limit g' \<and> dm_has (dg_contexts g') ?ik"
  proof (cases "dm_get (dg_contexts g) ?ik")
    case (Some e)
    then have "g' = set_entry ?ik (e\<lparr>ce_last_accessed_unix_ms := now\<rparr>) (dg_mark_dirty g)"
      using r by (simp add: register_context_entry_def Let_def)
    then show ?thesis
      using graph_ok_same_shape [OF ok, of g'] Some
      by (simp add: same_shape_set_entry dm_has_def)
  next
    case None
    obtain row ev where push: "push_instance limit (dm_get (dg_equivalent g) key) ?ik = (row, ev)"
      by fastforce
    define e where "e = (case equivalent_candidate (dg_mark_dirty g) key of
        None \<Rightarrow> cold_entry key ctx root now | Some c \<Rightarrow> rebased_entry c ctx root now)"
    have "ce_logical_key e = key"
      using candidate_logical [OF okd, of key]
      by (auto simp: e_def cold_entry_def rebased_entry_def Let_def split: option.splits)
    moreover have "g' = (case ev of Some old \<Rightarrow> drop_context old
        ((set_entry ?ik e (dg_mark_dirty g))\<lparr>dg_equivalent := dm_insert key row (dg_equivalent (dg_mark_dirty g))\<rparr>)
      | None \<Rightarrow> (set_entry ?ik e (dg_mark_dirty g))\<lparr>dg_equivalent := dm_insert key row (dg_equivalent (dg_mark_dirty g))\<rparr>)"
      unfolding e_def using r None push by (auto simp: register_context_entry_def Let_def cong: option.case_cong)
    moreover have "dm_get (dg_contexts (dg_mark_dirty g)) ?ik = None"
      "push_instance limit (dm_get (dg_equivalent (dg_mark_dirty g)) key) ?ik = (row, ev)"
      using None push by simp_all
    ultimately show ?thesis
      by (intro conjI graph_ok_add_instance [OF okd lim _ _ _ _ refl])
  qed
  moreover have "cr_map_key reg = ?ik"
    using r by (auto simp: register_context_entry_def Let_def split: option.splits prod.splits)
  ultimately show "graph_ok limit g'" "dm_has (dg_contexts g') (cr_map_key reg)" by simp_all
qed

text \<open>Changing the extern inputs or an alias of a live context keeps the shape.\<close>

lemma graph_ok_externs:
  assumes "graph_ok limit g" "dm_has (dg_contexts g) k"
  shows "graph_ok limit (g\<lparr>dg_rustc_externs := dm_insert k es (dg_rustc_externs g)\<rparr>)"
    and "graph_ok limit (g\<lparr>dg_rustc_externs := dm_remove k (dg_rustc_externs g)\<rparr>)"
    and "graph_ok limit (g\<lparr>dg_compat := dm_insert a k (dg_compat g)\<rparr>)"
  by (rule graph_okI; use assms(2) in \<open>auto simp: graph_okD(1-5) [OF assms(1)] dest: graph_okD(6-10) [OF assms(1)]
        split: if_splits\<close>)+

lemma graph_ok_register:
  "graph_ok limit g \<Longrightarrow> 1 \<le> limit \<Longrightarrow>
     graph_ok limit (fst (register_with_key_and_root_result h limit now key ctx root g))"
  by (cases "register_context_entry h limit now key ctx root g")
     (simp add: register_with_key_and_root_result_def graph_ok_externs graph_ok_register_entry)

lemma graph_ok_register_rustc:
  "graph_ok limit g \<Longrightarrow> 1 \<le> limit \<Longrightarrow>
     graph_ok limit (fst (register_rustc_with_key_and_root_result h limit now key ctx root externs compat_key g))"
proof -
  assume a: "graph_ok limit g" "1 \<le> limit"
  obtain g1 reg where r: "register_context_entry h limit now key ctx root g = (g1, reg)" by fastforce
  note ok = graph_ok_register_entry [OF a r]
  have "graph_ok limit (g1\<lparr>dg_rustc_externs := dm_insert (cr_map_key reg) externs (dg_rustc_externs g1)\<rparr>)"
    by (rule graph_ok_externs(1) [OF ok])
  from this graph_ok_externs(3) [OF this, of "cr_map_key reg"] ok(2)
  show ?thesis by (auto simp: register_rustc_with_key_and_root_result_def r Let_def split: option.split)
qed

lemma remove_contexts_get:
  "dm_wf m \<Longrightarrow> dm_wf (fst (remove_contexts m ks)) \<and>
     dm_get (fst (remove_contexts m ks)) i = (if i \<in> set ks then None else dm_get m i)"
proof -
  have "dm_wf (fst acc) \<Longrightarrow>
     dm_wf (fst (foldl (\<lambda>(m, removed) k. if dm_has m k then (dm_remove k m, removed + 1) else (m, removed)) acc ks)) \<and>
     dm_get (fst (foldl (\<lambda>(m, removed) k. if dm_has m k then (dm_remove k m, removed + 1) else (m, removed)) acc ks)) i =
       (if i \<in> set ks then None else dm_get (fst acc) i)" for acc :: "(context_key, context_entry) dmap \<times> nat"
    by (induction ks arbitrary: acc) (auto simp: case_prod_beta dm_has_def)
  from this [of "(m, 0)"] show "dm_wf m \<Longrightarrow> ?thesis" by (simp add: remove_contexts_def)
qed


lemma evicted_graph:
  assumes ok: "graph_ok limit g" and g': "g' = fst (evict_contexts ks g)"
  shows "dm_get (dg_contexts g') i = (if i \<in> set ks then None else dm_get (dg_contexts g) i)"
    and "dm_get (dg_equivalent g') key =
      (case dm_get (dg_equivalent g) key of None \<Rightarrow> None
       | Some is \<Rightarrow> let live = filter (\<lambda>i. i \<notin> set ks) is in if live = [] then None else Some live)"
    and "dm_get (dg_rustc_externs g') k = (if k \<in> set ks then None else dm_get (dg_rustc_externs g) k)"
    and "dm_get (dg_compat g') k = (case dm_get (dg_compat g) k of None \<Rightarrow> None
       | Some v \<Rightarrow> if v \<in> set ks then None else Some v)"
    and "dm_get (dg_files g') p =
      (if p \<in> referenced_paths (dg_contexts g') then dm_get (dg_files g) p else None)"
    and "dm_wf (dg_contexts g')" "dm_wf (dg_equivalent g')" "dm_wf (dg_rustc_externs g')"
      "dm_wf (dg_compat g')" "dm_wf (dg_files g')"
proof -
  note D = graph_okD [OF ok]
  obtain m n where m: "remove_contexts (dg_contexts g) ks = (m, n)" by fastforce
  with remove_contexts_get [OF D(1), of ks]
  have wf: "dm_wf m" and get: "dm_get m i = (if i \<in> set ks then None else dm_get (dg_contexts g) i)" for i
    by auto
  have ctx: "dg_contexts g' = m" by (simp add: g' evict_contexts_def m Let_def)
  show "dm_get (dg_contexts g') i = (if i \<in> set ks then None else dm_get (dg_contexts g) i)"
    by (simp add: ctx get)
  have live: "dm_has m i = (i \<notin> set ks)" if "dm_get (dg_equivalent g) key = Some is" "i \<in> set is" for key "is" i
    using D(7) [OF that] by (auto simp: dm_has_def get)
  have "filter (dm_has m) is = filter (\<lambda>i. i \<notin> set ks) is" if "dm_get (dg_equivalent g) key = Some is" for "is"
    using live [OF that] by (intro filter_cong) auto
  then show "dm_get (dg_equivalent g') key =
      (case dm_get (dg_equivalent g) key of None \<Rightarrow> None
       | Some is \<Rightarrow> let live = filter (\<lambda>i. i \<notin> set ks) is in if live = [] then None else Some live)"
    using D(2) by (auto simp: g' evict_contexts_def m Let_def dm_get_retain split: option.split)
  show "dm_get (dg_rustc_externs g') k = (if k \<in> set ks then None else dm_get (dg_rustc_externs g) k)"
    using D(3) D(9) [of k] by (auto simp: g' evict_contexts_def m Let_def dm_get_retain set_dm_keys get dm_has_def
        split: option.split)
  show "dm_get (dg_compat g') k = (case dm_get (dg_compat g) k of None \<Rightarrow> None
       | Some v \<Rightarrow> if v \<in> set ks then None else Some v)"
    using D(4) D(10) [of k] by (auto simp: g' evict_contexts_def m Let_def dm_get_retain set_dm_keys get dm_has_def
        split: option.split)
  show "dm_get (dg_files g') p =
      (if p \<in> referenced_paths (dg_contexts g') then dm_get (dg_files g) p else None)"
    using D(5) unfolding ctx by (auto simp: g' evict_contexts_def m Let_def dm_get_retain split: option.split)
  show "dm_wf (dg_contexts g')" "dm_wf (dg_equivalent g')" "dm_wf (dg_rustc_externs g')"
      "dm_wf (dg_compat g')" "dm_wf (dg_files g')"
    using D(1-5) wf by (simp_all add: g' evict_contexts_def m Let_def)
qed

lemma graph_ok_evict:
  assumes ok: "graph_ok limit g"
  shows "graph_ok limit (fst (evict_contexts ks g))"
proof (rule graph_okI)
  let ?g = "fst (evict_contexts ks g)"
  note D = graph_okD [OF ok] and E = evicted_graph [OF ok refl, of ks]
  show "dm_wf (dg_contexts ?g)" "dm_wf (dg_equivalent ?g)" "dm_wf (dg_rustc_externs ?g)"
    "dm_wf (dg_compat ?g)" "dm_wf (dg_files ?g)" by (fact E(6-10))+
  show "is \<noteq> [] \<and> distinct is \<and> length is \<le> limit" if a: "dm_get (dg_equivalent ?g) key = Some is" for key "is"
  proof -
    from a obtain xs where "dm_get (dg_equivalent g) key = Some xs" "is = filter (\<lambda>i. i \<notin> set ks) xs" "is \<noteq> []"
      by (auto simp: E(2) Let_def split: option.splits if_splits)
    with D(6) [of key xs] show ?thesis using le_trans [OF length_filter_le [of "\<lambda>i. i \<notin> set ks" xs], of limit] by simp
  qed
  show "map_option ce_logical_key (dm_get (dg_contexts ?g) i) = Some key"
    if a: "dm_get (dg_equivalent ?g) key = Some is" "i \<in> set is" for key "is" i
  proof -
    from a obtain xs where "dm_get (dg_equivalent g) key = Some xs" "i \<in> set xs" "i \<notin> set ks"
      by (auto simp: E(2) Let_def split: option.splits if_splits)
    with D(7) [of key xs i] show ?thesis by (simp add: E(1))
  qed
  show "\<exists>is. dm_get (dg_equivalent ?g) (ce_logical_key e) = Some is \<and> i \<in> set is"
    if "dm_get (dg_contexts ?g) i = Some e" for i e
  proof -
    from that have i: "dm_get (dg_contexts g) i = Some e" "i \<notin> set ks" by (auto simp: E(1) split: if_splits)
    with D(8) [of i e] obtain xs where "dm_get (dg_equivalent g) (ce_logical_key e) = Some xs" "i \<in> set xs" by blast
    with i(2) show ?thesis by (auto simp: E(2) Let_def filter_empty_conv)
  qed
  show "dm_has (dg_contexts ?g) k" if "dm_get (dg_rustc_externs ?g) k = Some es" for k es
    using that D(9) [of k es] by (auto simp: E(1) E(3) dm_has_def split: if_splits)
  show "dm_has (dg_contexts ?g) v" if "dm_get (dg_compat ?g) k = Some v" for k v
    using that D(10) [of k v] by (auto simp: E(1) E(4) dm_has_def split: option.splits if_splits)
qed


subsection \<open>Runs\<close>

lemma graph_ok_step: "1 \<le> limit \<Longrightarrow> graph_ok limit g \<Longrightarrow> graph_ok limit (graph_step h limit g x)"
proof (cases x)
  case ClearGraph
  then show ?thesis by (simp add: dg_clear_def graph_ok_def)
next
  case (TrimAt age now)
  assume "graph_ok limit g"
  with TrimAt show ?thesis by (simp add: trim_at_def graph_ok_evict)
qed (simp_all add: graph_ok_register graph_ok_register_rustc graph_ok_evict
      graph_ok_same_shape [OF _ same_shape_update] graph_ok_same_shape [OF _ same_shape_check]
      graph_ok_same_shape [OF _ same_shape_hits(1)] graph_ok_same_shape [OF _ same_shape_hits(2)]
      graph_ok_same_shape [OF _ same_shape_invalidate] graph_ok_same_shape [OF _ same_shape_setters(1)]
      graph_ok_same_shape [OF _ same_shape_setters(2)] graph_ok_same_shape [OF _ same_shape_stores(1)]
      graph_ok_same_shape [OF _ same_shape_stores(2)])

text \<open>The limit is at least one (\<open>max_equivalent_contexts\<close>), so it is a successor.\<close>

interpretation grun: op_machine dep_graph_new "graph_step h (Suc n)" "graph_ok (Suc n)"
  by unfold_locales (simp add: dep_graph_new_def graph_ok_def, simp add: graph_ok_step)

lemma graph_run_ok: "1 \<le> limit \<Longrightarrow> graph_ok limit (foldl (graph_step h limit) dep_graph_new ops)"
  using grun.run_ok [of "limit - 1" h ops] by simp

lemma resolve_logical:
  assumes "graph_ok limit g" "resolve_instance_key g key = Some k"
  shows "\<exists>e. dm_get (dg_contexts g) k = Some e \<and> (k = key \<or> ce_logical_key e = key)"
proof (cases "dm_has (dg_contexts g) key")
  case True
  with assms(2) show ?thesis by (auto simp: resolve_instance_key_def dm_has_def)
next
  case False
  with assms(2) obtain "is" where "dm_get (dg_equivalent g) key = Some is" "length is = 1" "k = hd is"
    by (auto simp: resolve_instance_key_def split: option.splits if_splits)
  then show ?thesis using row_logical [OF assms(1), of k key] by (cases "is") (auto simp: row_instances_def)
qed

lemma max_equivalent_contexts_pos: "1 \<le> max_equivalent_contexts var"
  by (simp add: max_equivalent_contexts_def split: option.split)

text \<open>
  C5. Whatever operations run on a fresh graph and whatever the limit variable is set to, the
  graph stays in shape: every row of the equivalence index is a non-empty list of distinct live
  instances of its logical key within the limit, every live context is in its row, extern inputs
  and compatibility aliases belong to live contexts, and a key that resolves resolves to a live
  context stored under it or having it as its logical key.
\<close>

theorem graph_invariant:
  "let g = foldl (graph_step h (max_equivalent_contexts var)) dep_graph_new ops
   in graph_ok (max_equivalent_contexts var) g \<and>
      (case resolve_instance_key g key of
         None \<Rightarrow> True
       | Some k \<Rightarrow> \<exists>e. dm_get (dg_contexts g) k = Some e \<and> (k = key \<or> ce_logical_key e = key))"
  using graph_run_ok [OF max_equivalent_contexts_pos, of var h ops]
    resolve_logical [OF graph_run_ok [OF max_equivalent_contexts_pos, of var h ops], of key]
  by (simp add: Let_def split: option.split)

end
