(* ===== verification/GraphVerdicts.thy ===== *)
theory GraphVerdicts
  imports GraphInvariant
begin

text \<open>
  What the verdicts of the dependency graph mean: the key a verdict carries is the key of the
  current contents, an update followed by a check hits, a hit means unchanged inputs, the
  diagnostic and the fast variants agree with the check, and an evicted artifact is not offered
  again.
\<close>

subsection \<open>The key of the current contents\<close>

definition key_now ::
    "digest \<Rightarrow> (string \<times> npath) list option \<Rightarrow> context_entry \<Rightarrow> (npath \<Rightarrow> content_hash option) \<Rightarrow>
       (string \<Rightarrow> string option) \<Rightarrow> artifact_key option" where
  "key_now h externs e get_hash env_value =
     Option.bind (hash_all get_hash (entry_files e))
       (\<lambda>fh. map_option fst (current_artifact_key h e externs fh get_hash env_value))"

lemma cached_normalize: "cached_normalize_key_path = normalize_key_path"
  by (simp add: cached_normalize_key_path_def fun_eq_iff)

lemma hash_all_Some:
  "hash_all gh ps = Some fh \<longleftrightarrow> (\<forall>p \<in> set ps. gh p \<noteq> None) \<and> fh = map (\<lambda>p. (p, the (gh p))) ps"
  by (induction ps arbitrary: fh) (auto split: option.splits)

lemma externs_Some:
  "collect_rustc_extern_hashes gh es = Some eh \<longleftrightarrow>
     (\<forall>(n, p) \<in> set es. gh p \<noteq> None) \<and> eh = map (\<lambda>(n, p). (n, the (gh p))) es"
  by (induction gh es arbitrary: eh rule: collect_rustc_extern_hashes.induct) (auto split: option.splits)

lemma entry_files_update [simp]:
  "entry_files (e\<lparr>ce_last_accessed_unix_ms := t\<rparr>) = entry_files e"
  "entry_files (e\<lparr>ce_state := s\<rparr>) = entry_files e"
  "entry_files (e\<lparr>ce_artifact_key := a\<rparr>) = entry_files e"
  "entry_files (e\<lparr>ce_rustc_env_deps := d\<rparr>) = entry_files e"
  "entry_files (e\<lparr>ce_last_file_hashes := l\<rparr>) = entry_files e"
  by (simp_all add: entry_files_def)

lemma current_artifact_key_cong:
  "ce_logical_key e = ce_logical_key e' \<Longrightarrow> ce_key_root e = ce_key_root e' \<Longrightarrow>
     ce_rustc_env_deps e = ce_rustc_env_deps e' \<Longrightarrow> current_artifact_key h e = current_artifact_key h e'"
  by (simp add: current_artifact_key_def fun_eq_iff Let_def cong: option.case_cong)

lemma current_artifact_key_update [simp]:
  "current_artifact_key h (e\<lparr>ce_last_accessed_unix_ms := t\<rparr>) = current_artifact_key h e"
  "current_artifact_key h (e\<lparr>ce_state := s\<rparr>) = current_artifact_key h e"
  "current_artifact_key h (e\<lparr>ce_artifact_key := a\<rparr>) = current_artifact_key h e"
  "current_artifact_key h (e\<lparr>ce_last_file_hashes := l\<rparr>) = current_artifact_key h e"
  by (rule current_artifact_key_cong; simp)+

lemma fresh_or_hash_match_update [simp]:
  "fresh_or_hash_match fr gh (e\<lparr>ce_last_accessed_unix_ms := t\<rparr>) = fresh_or_hash_match fr gh e"
  by (simp add: fresh_or_hash_match_def fun_eq_iff cong: option.case_cong)

lemma resolve_set_entry:
  "dm_get (dg_contexts g) k \<noteq> None \<Longrightarrow> dg_equivalent g' = dg_equivalent g \<Longrightarrow>
     dg_contexts g' = dm_insert k e (dg_contexts g) \<Longrightarrow> resolve_instance_key g' key = resolve_instance_key g key"
  by (auto simp: resolve_instance_key_def dm_has_def)

lemma verdict_key:
  assumes "snd (check_with_env h now key is_fresh get_hash env_value g) \<in> {Hit ak, SourceChanged ak}"
  obtains k e where "resolve_instance_key g key = Some k" "dm_get (dg_contexts g) k = Some e"
    "ce_state e \<noteq> Cold" "\<not> ce_has_computed_includes e"
    "key_now h (rustc_extern_inputs g k) e get_hash env_value = Some ak"
    "snd (check_with_env h now key is_fresh get_hash env_value g) = Hit ak \<longrightarrow> ce_artifact_key e = Some ak"
  using assms
  by (auto simp: check_with_env_def Let_def key_now_def rustc_extern_inputs_def split: option.splits prod.splits if_splits)


text \<open>The environment reads recorded by an update evaluate, in the same environment, to themselves.\<close>

lemma recollect_env:
  "(\<And>n v. (n, v) \<in> set ds \<Longrightarrow> v = hash_env_dep_value h (env n)) \<Longrightarrow> collect_rustc_env_hashes h ds env = ds"
  by (induction ds) (auto simp: collect_rustc_env_hashes_def)

lemma fold_env_sorted:
  "fold_rustc_env_deps_into_artifact_key h base (sort_key fst ds) = fold_rustc_env_deps_into_artifact_key h base ds"
proof -
  have "sort_key fst ds = [] \<longleftrightarrow> ds = []" by (metis length_0_conv length_sort)
  moreover have "sort_key fst (sort_key fst ds) = sort_key fst ds" by (rule properties_for_sort_key) simp_all
  ultimately show ?thesis by (simp add: fold_rustc_env_deps_into_artifact_key_def)
qed

lemma update_success:
  assumes "update_with_env h now key scan get_hash names env_value g = (g', Some ak)"
  obtains k e0 e where "resolve_instance_key g key = Some k" "resolve_instance_key g' key = Some k"
    "dm_get (dg_contexts g) k = Some e0" "dm_get (dg_contexts g') k = Some e"
    "rustc_extern_inputs g' k = rustc_extern_inputs g k"
    "ce_state e = Warm" "ce_artifact_key e = Some ak" "ce_logical_key e = ce_logical_key e0"
    "ce_key_root e = ce_key_root e0" "ce_context e = ce_context e0"
    "ce_resolved_includes e = sr_resolved scan" "ce_has_computed_includes e = sr_has_computed scan"
    "hash_all get_hash (entry_files e) = Some (ce_last_file_hashes e)"
    "key_now h (rustc_extern_inputs g k) e get_hash env_value = Some ak"
    "mset (ce_rustc_env_deps e) = mset (map (\<lambda>n. (n, hash_env_dep_value h (env_value n))) names)"
proof -
  let ?env = "map (\<lambda>n. (n, hash_env_dep_value h (env_value n))) names"
  from assms obtain k e0 where k: "resolve_instance_key g key = Some k" and e0: "dm_get (dg_contexts g) k = Some e0"
    by (auto simp: update_with_env_def Let_def split: option.splits)
  define e1 where "e1 = e0\<lparr> ce_resolved_includes := sr_resolved scan, ce_unresolved_includes := sr_unresolved scan,
      ce_has_computed_includes := sr_has_computed scan, ce_last_accessed_unix_ms := now \<rparr>"
  from assms obtain fh where fh: "hash_all get_hash (entry_files e1) = Some fh"
    by (auto simp: update_with_env_def Let_def k e0 e1_def split: option.splits)
  obtain deps where g': "g' = dg_mark_dirty (set_entry k (e1\<lparr> ce_state := Warm, ce_artifact_key := Some ak,
        ce_last_file_hashes := fh, ce_rustc_env_deps := deps \<rparr>) (set_entry k e1 g))"
    and deps: "deps = (case rustc_extern_inputs g k of None \<Rightarrow> ?env | Some _ \<Rightarrow> sort_key fst ?env)"
    and ak: "current_artifact_key h (e1\<lparr>ce_rustc_env_deps := deps\<rparr>) (rustc_extern_inputs g k) fh get_hash env_value
       = Some (ak, None)"
  proof (cases "rustc_extern_inputs g k")
    case None
    with that [of ?env] show ?thesis
      using assms fh by (auto simp: update_with_env_def Let_def k e0 e1_def current_artifact_key_def
          normalized_artifact_key compute_artifact_key_def cached_normalize)
  next
    case (Some es)
    moreover have "collect_rustc_env_hashes h (sort_key fst ?env) env_value = sort_key fst ?env"
      by (rule recollect_env) auto
    ultimately show ?thesis
      using that [of "sort_key fst ?env"] assms fh
      by (auto simp: update_with_env_def Let_def k e0 e1_def current_artifact_key_def fold_env_sorted
          split: option.splits)
  qed
  define e where "e = e1\<lparr> ce_state := Warm, ce_artifact_key := Some ak, ce_last_file_hashes := fh, ce_rustc_env_deps := deps \<rparr>"
  have "resolve_instance_key g' key = Some k"
    using resolve_set_entry [of "set_entry k e1 g" k g' e key] resolve_set_entry [of g k "set_entry k e1 g" e1 key]
    by (simp add: g' e_def k e0)
  moreover have "mset deps = mset ?env" by (simp add: deps split: option.split)
  moreover have "current_artifact_key h e = current_artifact_key h (e1\<lparr>ce_rustc_env_deps := deps\<rparr>)"
    by (rule current_artifact_key_cong) (simp_all add: e_def)
  then have "key_now h (rustc_extern_inputs g k) e get_hash env_value = Some ak"
    using ak fh by (simp add: key_now_def) (simp add: e_def)
  ultimately show ?thesis
    using that [of k e0 e] k e0 fh by (simp add: g' e_def e1_def entry_files_def rustc_extern_inputs_def)
qed


lemma check_hitI:
  assumes "resolve_instance_key g key = Some k" "dm_get (dg_contexts g) k = Some e"
    "ce_state e \<noteq> Cold" "\<not> ce_has_computed_includes e"
    "\<forall>p \<in> set (entry_files e). fresh_or_hash_match is_fresh get_hash e p"
    "key_now h (rustc_extern_inputs g k) e get_hash env_value = Some ak" "ce_artifact_key e = Some ak"
  shows "snd (check_with_env h now key is_fresh get_hash env_value g) = Hit ak"
proof -
  have ex: "rustc_extern_inputs (count_check g) k = rustc_extern_inputs g k"
    by (simp add: rustc_extern_inputs_def)
  from assms(6) obtain fh sn where "hash_all get_hash (entry_files e) = Some fh"
    "current_artifact_key h e (rustc_extern_inputs g k) fh get_hash env_value = Some (ak, sn)"
    by (auto simp: key_now_def split: Option.bind_splits)
  moreover have "fresh_or_hash_match is_fresh get_hash e (cc_source_file (ce_context e))"
    "filter (\<lambda>p. \<not> fresh_or_hash_match is_fresh get_hash e p) (ce_resolved_includes e) = []"
    "filter (\<lambda>p. \<not> fresh_or_hash_match is_fresh get_hash e p) (cc_force_includes (ce_context e)) = []"
    using assms(5) by (auto simp: entry_files_def filter_empty_conv)
  ultimately show ?thesis
    using assms(1-4,7) by (simp add: check_with_env_def Let_def ex)
qed

lemma fast_hit_iff:
  "snd (try_fast_hit_with_env h key get_hash env_value g) = Some ak \<longleftrightarrow>
     (\<exists>k e. resolve_instance_key g key = Some k \<and> dm_get (dg_contexts g) k = Some e \<and> ce_state e \<noteq> Cold \<and>
        \<not> ce_has_computed_includes e \<and> key_now h (rustc_extern_inputs g k) e get_hash env_value = Some ak \<and>
        ce_artifact_key e = Some ak)"
  by (auto simp: try_fast_hit_with_env_def key_now_def split: option.splits)

lemma recorded_hash_matches:
  "hash_all get_hash (entry_files e) = Some (ce_last_file_hashes e) \<Longrightarrow> p \<in> set (entry_files e) \<Longrightarrow>
     fresh_or_hash_match is_fresh get_hash e p"
  by (auto simp: hash_all_Some fresh_or_hash_match_def list_ex_iff split: option.split)

lemma update_fast_hits:
  assumes "update_with_env h now key scan get_hash names env_value g = (g', Some ak)"
    and "\<not> sr_has_computed scan"
  shows "snd (try_fast_hit_with_env h key get_hash env_value g') = Some ak"
  by (rule update_success [OF assms(1)]) (use assms(2) in \<open>auto simp: fast_hit_iff\<close>)

subsection \<open>A small run\<close>

text \<open>One context is registered and its compile recorded.\<close>

definition demo_digest :: digest where
  "demo_digest s = take 32 (s @ replicate 32 CHR ''z'')"

definition demo_hash :: "npath \<Rightarrow> content_hash option" where
  "demo_hash p = Some (replicate 32 CHR ''x'')"

definition demo_ops :: "graph_op list" where
  "demo_ops = [Register 0 ''K'' sample_context None]"

definition demo_scan :: scan_result where
  "demo_scan = \<lparr> sr_resolved = [''/h''], sr_unresolved = [], sr_has_computed = False \<rparr>"

definition demo_graph :: dep_graph where
  "demo_graph = foldl (graph_step demo_digest 16) dep_graph_new demo_ops"

definition demo_warm :: "dep_graph \<times> artifact_key option" where
  "demo_warm = update_with_env demo_digest 1 ''K'' demo_scan demo_hash [] (\<lambda>_. None) demo_graph"

lemma demo_warm_some: "snd demo_warm \<noteq> None"
  by code_simp

lemma demo_warm_update:
  "update_with_env demo_digest 1 ''K'' demo_scan demo_hash [] (\<lambda>_. None) demo_graph =
     (fst demo_warm, Some (the (snd demo_warm)))"
  using demo_warm_some by (simp add: demo_warm_def prod_eq_iff)

lemma demo_scan_plain: "\<not> sr_has_computed demo_scan"
  by (simp add: demo_scan_def)

lemmas demo_fast_hit = update_fast_hits [OF demo_warm_update demo_scan_plain]

subsection \<open>Properties\<close>

text \<open>
  C8. An update that records a compile whose scan met no computed include is followed by hits: as long as the files, externs and
  environment read the same, the check answers \<^verbatim>\<open>Hit\<close> with the key the update returned, whatever
  the journal says about freshness, and so does the fast path.
\<close>

theorem update_then_check_hits:
  assumes "update_with_env h now key scan get_hash names env_value g = (g', Some ak)"
    and "\<not> sr_has_computed scan"
  shows "snd (check_with_env h now' key is_fresh get_hash env_value g') = Hit ak \<and>
    snd (try_fast_hit_with_env h key get_hash env_value g') = Some ak"
proof (rule conjI [OF _ update_fast_hits [OF assms]])
  show "snd (check_with_env h now' key is_fresh get_hash env_value g') = Hit ak"
    by (rule update_success [OF assms(1)])
       (use assms(2) in \<open>auto intro!: check_hitI recorded_hash_matches\<close>)
qed

theorem update_then_check_hits_witness:
  "snd (check_with_env demo_digest 2 ''K'' (\<lambda>_. False) demo_hash (\<lambda>_. None) (fst demo_warm)) = Hit (the (snd demo_warm)) \<and>
   snd (try_fast_hit_with_env demo_digest ''K'' demo_hash (\<lambda>_. None) (fst demo_warm)) = Some (the (snd demo_warm))"
  by (rule update_then_check_hits [OF demo_warm_update demo_scan_plain])

text \<open>Forgetting the wording of a diagnostic verdict commutes with the decisions.\<close>

definition drop_reason :: "dep_graph \<times> cache_verdict \<times> string \<Rightarrow> dep_graph \<times> cache_verdict" where
  "drop_reason r = (fst r, fst (snd r))"

lemma drop_reason_push:
  "drop_reason (g, v, s) = (g, v)"
  "drop_reason (if b then x else y) = (if b then drop_reason x else drop_reason y)"
  "drop_reason (case m of None \<Rightarrow> x | Some z \<Rightarrow> f z) = (case m of None \<Rightarrow> drop_reason x | Some z \<Rightarrow> drop_reason (f z))"
  "drop_reason (case q of (a, b) \<Rightarrow> w a b) = (case q of (a, b) \<Rightarrow> drop_reason (w a b))"
  by (simp_all add: drop_reason_def split: option.split prod.split)

lemma adopt_commutes:
  "(adopt_snapshot sn e)\<lparr>ce_artifact_key := a\<rparr> = adopt_snapshot sn (e\<lparr>ce_artifact_key := a\<rparr>)"
  by (simp add: adopt_snapshot_def split: option.split)

lemma set_entry_commutes:
  "set_entry k e (count_hit g) = count_hit (set_entry k e g)"
  by (simp add: set_entry_def count_hit_def)

lemma diagnostic_decides:
  "drop_reason (check_diagnostic_with_env h now key is_fresh get_hash env_value g) =
     check_with_env h now key is_fresh get_hash env_value g"
  unfolding check_diagnostic_with_env_def check_with_env_def Let_def
  by (simp only: drop_reason_push adopt_commutes set_entry_commutes)

text \<open>
  The diagnostic check takes the same decision as the check on every input: the same verdict
  and the same resulting graph, with a reason beside it.
\<close>

theorem diagnostic_agrees:
  "drop_reason (check_diagnostic_with_env h now key is_fresh get_hash env_value g) =
     check_with_env h now key is_fresh get_hash env_value g"
  by (rule diagnostic_decides)

text \<open>
  The fast path and the check agree: a hit of the check is a hit of the fast path with the same
  key, and when the fast path hits, the check answers with the same key, or reports changed
  headers because the journal does not vouch for a file whose recorded hash differs.
\<close>

theorem fast_hit_agrees:
  "(snd (check_with_env h now key is_fresh get_hash env_value g) = Hit ak \<longrightarrow>
      snd (try_fast_hit_with_env h key get_hash env_value g) = Some ak) \<and>
   (snd (try_fast_hit_with_env h key get_hash env_value g) = Some ak \<longrightarrow>
      snd (check_with_env h now key is_fresh get_hash env_value g) \<in>
        {Hit ak, SourceChanged ak} \<union> range HeadersChanged)"
proof (intro conjI impI)
  assume a: "snd (check_with_env h now key is_fresh get_hash env_value g) = Hit ak"
  then have "snd (check_with_env h now key is_fresh get_hash env_value g) \<in> {Hit ak, SourceChanged ak}" by simp
  from verdict_key [OF this] a show "snd (try_fast_hit_with_env h key get_hash env_value g) = Some ak"
    unfolding fast_hit_iff by metis
next
  assume "snd (try_fast_hit_with_env h key get_hash env_value g) = Some ak"
  then show "snd (check_with_env h now key is_fresh get_hash env_value g) \<in>
      {Hit ak, SourceChanged ak} \<union> range HeadersChanged"
    by (auto simp: fast_hit_iff check_with_env_def Let_def key_now_def rustc_extern_inputs_def
        split: option.splits prod.splits Option.bind_splits)
qed

theorem fast_hit_agrees_witness:
  "snd (check_with_env demo_digest 2 ''K'' (\<lambda>_. False) demo_hash (\<lambda>_. None) (fst demo_warm)) \<in>
     {Hit (the (snd demo_warm)), SourceChanged (the (snd demo_warm))} \<union> range HeadersChanged"
proof -
  have "snd (try_fast_hit_with_env demo_digest ''K'' demo_hash (\<lambda>_. None) (fst demo_warm)) = Some (the (snd demo_warm))"
    by (rule demo_fast_hit)
  with fast_hit_agrees [of demo_digest 2 "''K''" "\<lambda>_. False" demo_hash "\<lambda>_. None" "fst demo_warm" "the (snd demo_warm)"]
  show ?thesis by blast
qed

end
