(* ===== verification/HitSoundness.thy ===== *)
theory HitSoundness
  imports GraphVerdicts
begin

text \<open>
  A hit is sound: the key of a context determines the contents of its files, its extern crates and
  the environment values it read, so that a hit after a recorded compile means that none of them
  changed.  The digest is assumed not to collide on the byte strings it is actually fed.
\<close>

subsection \<open>The bytes behind a key\<close>

definition env_entries :: "(string \<times> content_hash option) list \<Rightarrow> string" where
  "env_entries ds = concat (map (\<lambda>(name, v). entry name @ entry (case v of Some hash \<Rightarrow> hash | None \<Rightarrow> ''unset'')) ds)"

definition base_preimage ::
    "context_entry \<Rightarrow> (string \<times> npath) list option \<Rightarrow> (npath \<Rightarrow> content_hash option) \<Rightarrow> string" where
  "base_preimage e externs gh =
     (let files = file_entries (sort_key fst
            (map (\<lambda>p. (normalize_key_path p (ce_key_root e), the (gh p))) (entry_files e)))
      in case externs of
           None \<Rightarrow> entry ''zccache-artifact-key-v1'' @ entry (ce_logical_key e) @ files
         | Some es \<Rightarrow> entry ''zccache-rustc-artifact-key-v1'' @ entry (ce_logical_key e) @ files @
             entry ''externs'' @ file_entries (sort_key fst (map (\<lambda>(n, p). (n, the (gh p))) es)))"

definition env_preimage ::
    "digest \<Rightarrow> context_entry \<Rightarrow> (string \<times> npath) list option \<Rightarrow> (npath \<Rightarrow> content_hash option) \<Rightarrow>
       (string \<Rightarrow> string option) \<Rightarrow> string" where
  "env_preimage h e externs gh env =
     entry ''zccache-rustc-env-deps-v1'' @ entry (h (base_preimage e externs gh)) @
     env_entries (sort_key fst (collect_rustc_env_hashes h (ce_rustc_env_deps e) env))"

lemma key_now_preimage:
  assumes "key_now h externs e gh env = Some ak"
  shows "\<forall>p \<in> set (entry_files e). gh p \<noteq> None"
    and "\<forall>(n, p) \<in> set (case externs of None \<Rightarrow> [] | Some es \<Rightarrow> es). gh p \<noteq> None"
    and "ak = (if externs = None \<or> ce_rustc_env_deps e = [] then h (base_preimage e externs gh)
               else h (env_preimage h e externs gh env))"
  using assms
  by (auto simp: key_now_def current_artifact_key_def hash_all_Some externs_Some Let_def cached_normalize
      compute_artifact_key_with_def compute_rustc_artifact_key_with_root_with_def base_preimage_def comp_def
      fold_rustc_env_deps_into_artifact_key_def env_preimage_def env_entries_def collect_rustc_env_hashes_def
      split: option.splits Option.bind_splits if_splits)

subsection \<open>Reading the bytes back\<close>

text \<open>Two lists with the same names in the same order sort to the same list only if they are equal.\<close>

lemma filtered_by_key_eq:
  "map fst fs = map fst gs \<Longrightarrow> (\<And>k. filter (\<lambda>x. fst x = k) fs = filter (\<lambda>x. fst x = k) gs) \<Longrightarrow> fs = gs"
proof (induction fs arbitrary: gs)
  case (Cons f fs)
  then obtain g gs' where gs: "gs = g # gs'" "fst f = fst g" "map fst fs = map fst gs'" by (cases gs) auto
  have "f # filter (\<lambda>x. fst x = fst f) fs = g # filter (\<lambda>x. fst x = fst f) gs'"
    using Cons.prems(2) [of "fst f"] gs by simp
  then have "f = g" by simp
  moreover have "filter (\<lambda>x. fst x = k) fs = filter (\<lambda>x. fst x = k) gs'" for k
    using Cons.prems(2) [of k] gs \<open>f = g\<close> by (simp split: if_splits)
  ultimately show ?case using Cons.IH gs by simp
qed simp

lemma sort_key_same_names:
  assumes "map fst fs = map fst gs" and "sort_key fst fs = sort_key fst gs"
  shows "fs = gs"
proof (rule filtered_by_key_eq [OF assms(1)])
  show "filter (\<lambda>x. fst x = k) fs = filter (\<lambda>x. fst x = k) gs" for k
    using sort_key_stable [of fst k fs] sort_key_stable [of fst k gs] assms(2) by simp
qed

lemma map_fst_sort: "map fst (sort_key fst fs) = sort (map fst fs)"
  by (rule properties_for_sort [symmetric]) simp_all

text \<open>With the names fixed, entries of equal width are read back without a separator.\<close>

lemma file_entries_same_names:
  "map fst fs = map fst gs \<Longrightarrow> list_all (\<lambda>x. length (snd x) = 32) (fs @ gs) \<Longrightarrow>
     file_entries fs @ x = file_entries gs @ y \<Longrightarrow> fs = gs \<and> x = y"
proof (induction fs arbitrary: gs)
  case Nil
  then show ?case by (simp add: file_entries_def)
next
  case (Cons f fs)
  then obtain g gs' where gs: "gs = g # gs'" "fst f = fst g" "map fst fs = map fst gs'" by (cases gs) auto
  with Cons.prems have len: "length (snd f) = length (snd g)" by simp
  have "entry (snd f) @ file_entries fs @ x = entry (snd g) @ file_entries gs' @ y"
    using Cons.prems(3) gs by (simp add: file_entries_def case_prod_beta)
  from entry_sized [OF len this] have "snd f = snd g" "file_entries fs @ x = file_entries gs' @ y" by simp_all
  with Cons.IH [of gs'] Cons.prems(2) gs show ?case by (simp add: prod_eq_iff)
qed


lemma unset_clash: "entry v @ a = entry ''unset'' @ b \<Longrightarrow> length v = 32 \<Longrightarrow> take 6 v = entry ''unset''"
  by (drule arg_cong [where f = "take 6"]) (simp add: entry_def)

lemma env_entries_same_names:
  assumes "map fst ds = map fst es"
    and "\<And>n v. (n, Some v) \<in> set (ds @ es) \<Longrightarrow> length v = 32 \<and> take 6 v \<noteq> entry ''unset''"
    and "env_entries ds @ x = env_entries es @ y"
  shows "ds = es \<and> x = y"
  using assms
proof (induction ds arbitrary: es)
  case Nil
  then show ?case by (simp add: env_entries_def)
next
  case (Cons d ds)
  then obtain e es' where es: "es = e # es'" "fst d = fst e" "map fst ds = map fst es'" by (cases es) auto
  let ?b = "\<lambda>v. case v of Some hash \<Rightarrow> hash | None \<Rightarrow> ''unset''"
  have eq: "entry (?b (snd d)) @ env_entries ds @ x = entry (?b (snd e)) @ env_entries es' @ y"
    using Cons.prems(3) es by (simp add: env_entries_def case_prod_beta)
  have wide: "length v = 32 \<and> take 6 v \<noteq> entry ''unset''" if "snd d = Some v \<or> snd e = Some v" for v
    using that Cons.prems(2) [of "fst d" v] Cons.prems(2) [of "fst e" v] es by (metis list.set_intros(1) append_Cons
      in_set_conv_decomp prod.collapse set_append UnI1 UnI2)
  have "snd d = snd e"
  proof (cases "snd d"; cases "snd e")
    fix v assume "snd d = None" "snd e = Some v"
    with unset_clash [OF eq [symmetric, simplified this option.case]] wide [of v] show ?thesis by simp
  next
    fix v assume "snd d = Some v" "snd e = None"
    with unset_clash [OF eq [simplified this option.case]] wide [of v] show ?thesis by simp
  next
    fix v w assume v: "snd d = Some v" "snd e = Some w"
    with wide have "length v = length w" by auto
    from entry_sized [OF this] eq v show ?thesis by auto
  qed auto
  with eq have "env_entries ds @ x = env_entries es' @ y" by simp
  from Cons.IH [OF es(3) _ this] Cons.prems(2) es(1) have "ds = es' \<and> x = y" by auto
  with es \<open>snd d = snd e\<close> show ?case by (simp add: prod_eq_iff)
qed


subsection \<open>Equal keys, equal inputs\<close>

text \<open>Content hashes have the width of the digest.\<close>

definition sized :: "(npath \<Rightarrow> content_hash option) \<Rightarrow> bool" where
  "sized gh \<longleftrightarrow> (\<forall>p x. gh p = Some x \<longrightarrow> length x = 32)"

lemma base_preimage_inj:
  assumes eq: "base_preimage e externs gh = base_preimage e externs gh'"
    and "sized gh" "sized gh'"
    and files: "\<forall>p \<in> set (entry_files e). gh p \<noteq> None" "\<forall>p \<in> set (entry_files e). gh' p \<noteq> None"
    and ext: "\<forall>(n, p) \<in> set (case externs of None \<Rightarrow> [] | Some es \<Rightarrow> es). gh p \<noteq> None"
      "\<forall>(n, p) \<in> set (case externs of None \<Rightarrow> [] | Some es \<Rightarrow> es). gh' p \<noteq> None"
  shows "\<forall>p \<in> set (entry_files e). gh p = gh' p"
    and "\<forall>(n, p) \<in> set (case externs of None \<Rightarrow> [] | Some es \<Rightarrow> es). gh p = gh' p"
proof -
  define F where "F g = map (\<lambda>p. (normalize_key_path p (ce_key_root e), the (g p))) (entry_files e)"
    for g :: "npath \<Rightarrow> content_hash option"
  define X where "X g = map (\<lambda>(n, p). (n, the (g p))) (case externs of None \<Rightarrow> [] | Some es \<Rightarrow> es)"
    for g :: "npath \<Rightarrow> content_hash option"
  have wide: "length (the (g p)) = 32" if "g p \<noteq> None" "g \<in> {gh, gh'}" for g p
    using that assms(2,3) by (auto simp: sized_def)
  have names: "map fst (sort_key fst (F gh)) = map fst (sort_key fst (F gh'))"
    "map fst (sort_key fst (X gh)) = map fst (sort_key fst (X gh'))"
    "map fst (F gh) = map fst (F gh')" "map fst (X gh) = map fst (X gh')"
    by (simp_all add: map_fst_sort F_def X_def comp_def case_prod_beta)
  have lens: "list_all (\<lambda>x. length (snd x) = 32) (sort_key fst (F gh) @ sort_key fst (F gh'))"
    "list_all (\<lambda>x. length (snd x) = 32) (sort_key fst (X gh) @ sort_key fst (X gh'))"
    using files ext wide by (auto simp: list_all_iff F_def X_def case_prod_beta)
  obtain x y where xy: "file_entries (sort_key fst (F gh)) @ x = file_entries (sort_key fst (F gh')) @ y"
    and tail: "x = y \<Longrightarrow> file_entries (sort_key fst (X gh)) @ [] = file_entries (sort_key fst (X gh')) @ []"
  proof (cases externs)
    case None
    then show ?thesis using that [of "[]" "[]"] eq by (simp add: base_preimage_def F_def X_def)
  next
    case (Some es)
    then show ?thesis
      using that [of "entry ''externs'' @ file_entries (sort_key fst (X gh))"
          "entry ''externs'' @ file_entries (sort_key fst (X gh'))"] eq
      by (simp add: base_preimage_def F_def X_def)
  qed
  from file_entries_same_names [OF names(1) lens(1) xy] have sF: "sort_key fst (F gh) = sort_key fst (F gh')" and "x = y"
    by simp_all
  from sort_key_same_names [OF names(3) sF] have "F gh = F gh'" .
  with files show "\<forall>p \<in> set (entry_files e). gh p = gh' p" by (force simp: F_def)
  from file_entries_same_names [OF names(2) lens(2) tail [OF \<open>x = y\<close>]]
  have "sort_key fst (X gh) = sort_key fst (X gh')" by simp
  from sort_key_same_names [OF names(4) this] have "X gh = X gh'" .
  with ext show "\<forall>(n, p) \<in> set (case externs of None \<Rightarrow> [] | Some es \<Rightarrow> es). gh p = gh' p"
    by (force simp: X_def)
qed


definition key_preimages ::
    "digest \<Rightarrow> context_entry \<Rightarrow> (string \<times> npath) list option \<Rightarrow> (npath \<Rightarrow> content_hash option) \<Rightarrow>
       (string \<Rightarrow> string option) \<Rightarrow> string set" where
  "key_preimages h e externs gh env =
     (if externs = None \<or> ce_rustc_env_deps e = [] then {base_preimage e externs gh}
      else {base_preimage e externs gh, env_preimage h e externs gh env})"

text \<open>
  What is assumed of the digest: its width, no collision between the byte strings of the two keys,
  and no environment value whose digest starts like the marker of an unset variable.
\<close>

definition digest_separates ::
    "digest \<Rightarrow> context_entry \<Rightarrow> (string \<times> npath) list option \<Rightarrow> (npath \<Rightarrow> content_hash option) \<Rightarrow>
       (string \<Rightarrow> string option) \<Rightarrow> (npath \<Rightarrow> content_hash option) \<Rightarrow> (string \<Rightarrow> string option) \<Rightarrow> bool" where
  "digest_separates h e externs gh env gh' env' \<longleftrightarrow>
     (\<forall>s. length (h s) = 32) \<and>
     inj_on h (key_preimages h e externs gh env \<union> key_preimages h e externs gh' env') \<and>
     (\<forall>n v. n \<in> fst ` set (ce_rustc_env_deps e) \<and> (env n = Some v \<or> env' n = Some v) \<longrightarrow>
        take 6 (h v) \<noteq> entry ''unset'')"

lemma env_preimage_inj:
  assumes sep: "digest_separates h e externs gh env gh' env'"
    and eq: "env_preimage h e externs gh env = env_preimage h e externs gh' env'"
  shows "h (base_preimage e externs gh) = h (base_preimage e externs gh')"
    and "\<forall>n \<in> fst ` set (ce_rustc_env_deps e). hash_env_dep_value h (env n) = hash_env_dep_value h (env' n)"
proof -
  let ?E = "\<lambda>env. collect_rustc_env_hashes h (ce_rustc_env_deps e) env"
  have w: "length (h (base_preimage e externs gh)) = length (h (base_preimage e externs gh'))"
    using sep by (simp add: digest_separates_def)
  have "entry (h (base_preimage e externs gh)) @ env_entries (sort_key fst (?E env)) =
      entry (h (base_preimage e externs gh')) @ env_entries (sort_key fst (?E env'))"
    using eq by (simp add: env_preimage_def)
  from entry_sized [OF w this] have hb: "h (base_preimage e externs gh) = h (base_preimage e externs gh')"
    and en: "env_entries (sort_key fst (?E env)) @ [] = env_entries (sort_key fst (?E env')) @ []" by simp_all
  show "h (base_preimage e externs gh) = h (base_preimage e externs gh')" by (rule hb)
  have names: "map fst (?E env) = map fst (?E env')"
    by (simp add: collect_rustc_env_hashes_def comp_def case_prod_beta)
  have "sort_key fst (?E env) = sort_key fst (?E env') \<and> ([] :: string) = []"
  proof (rule env_entries_same_names [OF _ _ en])
    show "map fst (sort_key fst (?E env)) = map fst (sort_key fst (?E env'))" by (simp add: map_fst_sort names)
    show "length v = 32 \<and> take 6 v \<noteq> entry ''unset''"
      if "(n, Some v) \<in> set (sort_key fst (?E env) @ sort_key fst (?E env'))" for n v
    proof -
      from that obtain w where "n \<in> fst ` set (ce_rustc_env_deps e)" "env n = Some w \<or> env' n = Some w" "v = h w"
        by (auto simp: collect_rustc_env_hashes_def hash_env_dep_value_def eq_commute [of "Some v"]) force+
      with sep show ?thesis unfolding digest_separates_def by blast
    qed
  qed
  with sort_key_same_names [OF names] have "?E env = ?E env'" by simp
  then show "\<forall>n \<in> fst ` set (ce_rustc_env_deps e). hash_env_dep_value h (env n) = hash_env_dep_value h (env' n)"
    by (auto simp: collect_rustc_env_hashes_def)
qed

lemma equal_keys_equal_inputs:
  assumes k: "key_now h externs e gh env = Some ak" "key_now h externs e gh' env' = Some ak"
    and sep: "digest_separates h e externs gh env gh' env'" and "sized gh" "sized gh'"
  shows "\<forall>p \<in> set (entry_files e). gh p = gh' p"
    and "\<forall>(n, p) \<in> set (case externs of None \<Rightarrow> [] | Some es \<Rightarrow> es). gh p = gh' p"
    and "externs \<noteq> None \<Longrightarrow>
      \<forall>n \<in> fst ` set (ce_rustc_env_deps e). hash_env_dep_value h (env n) = hash_env_dep_value h (env' n)"
proof -
  note K = key_now_preimage [OF k(1)] and K' = key_now_preimage [OF k(2)]
  let ?plain = "externs = None \<or> ce_rustc_env_deps e = []"
  have inj: "inj_on h (key_preimages h e externs gh env \<union> key_preimages h e externs gh' env')"
    using sep by (simp add: digest_separates_def)
  have env_eq: "env_preimage h e externs gh env = env_preimage h e externs gh' env'" if "\<not> ?plain"
  proof (rule inj_onD [OF inj])
    show "h (env_preimage h e externs gh env) = h (env_preimage h e externs gh' env')"
      using that K(3) K'(3) by auto
  qed (use that in \<open>auto simp: key_preimages_def\<close>)
  have hb: "h (base_preimage e externs gh) = h (base_preimage e externs gh')"
    using K(3) K'(3) env_preimage_inj(1) [OF sep env_eq] by (cases ?plain) auto
  have "base_preimage e externs gh = base_preimage e externs gh'"
    using inj_onD [OF inj hb] by (auto simp: key_preimages_def split: if_splits)
  from base_preimage_inj [OF this assms(4,5) K(1) K'(1) K(2) K'(2)]
  show "\<forall>p \<in> set (entry_files e). gh p = gh' p"
    and "\<forall>(n, p) \<in> set (case externs of None \<Rightarrow> [] | Some es \<Rightarrow> es). gh p = gh' p" .
  show "\<forall>n \<in> fst ` set (ce_rustc_env_deps e). hash_env_dep_value h (env n) = hash_env_dep_value h (env' n)"
    if "externs \<noteq> None"
    using that env_preimage_inj(2) [OF sep env_eq] by (cases "ce_rustc_env_deps e = []") auto
qed


text \<open>What a recorded entry says about the inputs whose current key is the recorded one.\<close>

lemma recorded_inputs:
  assumes up: "update_with_env h now key scan gh names env g = (g', Some ak)"
    and now: "key_now h (rustc_extern_inputs g' k) e gh' env' = Some ak'" "ce_artifact_key e = Some ak'"
    and k: "resolve_instance_key g' key = Some k" "dm_get (dg_contexts g') k = Some e"
    and sep: "digest_separates h e (rustc_extern_inputs g' k) gh env gh' env'"
    and wide: "sized gh" "sized gh'"
  shows "ak' = ak" and "ce_resolved_includes e = sr_resolved scan"
    and "\<forall>p \<in> set (entry_files e). gh' p = gh p"
    and "rustc_extern_inputs g' k = Some es \<Longrightarrow> (\<forall>(n, p) \<in> set es. gh' p = gh p) \<and>
      (\<forall>n \<in> set names. hash_env_dep_value h (env' n) = hash_env_dep_value h (env n))"
proof -
  obtain k0 e0 e1 where u: "resolve_instance_key g' key = Some k0" "dm_get (dg_contexts g') k0 = Some e1"
    "rustc_extern_inputs g' k0 = rustc_extern_inputs g k0" "ce_artifact_key e1 = Some ak"
    "ce_resolved_includes e1 = sr_resolved scan"
    "key_now h (rustc_extern_inputs g k0) e1 gh env = Some ak"
    and ms: "mset (ce_rustc_env_deps e1) = mset (map (\<lambda>n. (n, hash_env_dep_value h (env n))) names)"
    by (rule update_success [OF up]) blast
  with k have [simp]: "k0 = k" "e1 = e" by auto
  have names: "fst ` set (ce_rustc_env_deps e) = set names"
    using arg_cong [OF ms, of set_mset] by (simp add: image_image)
  from u(4) now(2) show [simp]: "ak' = ak" by simp
  from u(5) show "ce_resolved_includes e = sr_resolved scan" by simp
  have now': "key_now h (rustc_extern_inputs g' k) e gh env = Some ak" using u(3,6) by simp
  note eq = equal_keys_equal_inputs [OF now' now(1) [unfolded \<open>ak' = ak\<close>] sep wide]
  from eq(1) show "\<forall>p \<in> set (entry_files e). gh' p = gh p" by simp
  show "(\<forall>(n, p) \<in> set es. gh' p = gh p) \<and>
      (\<forall>n \<in> set names. hash_env_dep_value h (env' n) = hash_env_dep_value h (env n))"
    if "rustc_extern_inputs g' k = Some es"
    using that eq(2,3) names by fastforce
qed

lemma hit_key_now:
  assumes hit: "snd (check_with_env h now' key is_fresh gh' env' g') = Hit ak' \<or>
      snd (try_fast_hit_with_env h key gh' env' g') = Some ak'"
    and k: "resolve_instance_key g' key = Some k" "dm_get (dg_contexts g') k = Some e"
  shows "key_now h (rustc_extern_inputs g' k) e gh' env' = Some ak' \<and> ce_artifact_key e = Some ak'"
  using hit
proof
  assume "snd (try_fast_hit_with_env h key gh' env' g') = Some ak'"
  with k show ?thesis by (auto simp: fast_hit_iff)
next
  assume a: "snd (check_with_env h now' key is_fresh gh' env' g') = Hit ak'"
  show ?thesis by (rule verdict_key [of h now' key is_fresh gh' env' g' ak']) (use a k in auto)
qed

subsection \<open>Properties\<close>

text \<open>
  C1. No stale hit: when a compile has been recorded and the check (or the fast path) answers
  \<^verbatim>\<open>Hit\<close> in the graph the update left, at whatever later time, the key is the recorded one, and the source, every resolved and forced include, every
  extern crate and every environment value the compile read have the content hash they had when the
  compile was recorded, whatever freshness the journal claims.
\<close>

theorem no_stale_hit:
  assumes up: "update_with_env h now key scan gh names env g = (g', Some ak)"
    and hit: "snd (check_with_env h now' key is_fresh gh' env' g') = Hit ak' \<or>
      snd (try_fast_hit_with_env h key gh' env' g') = Some ak'"
    and k: "resolve_instance_key g' key = Some k" "dm_get (dg_contexts g') k = Some e"
    and sep: "digest_separates h e (rustc_extern_inputs g' k) gh env gh' env'"
    and wide: "sized gh" "sized gh'"
  shows "ak' = ak \<and> ce_resolved_includes e = sr_resolved scan \<and>
    (\<forall>p \<in> set (entry_files e). gh' p = gh p) \<and>
    (\<forall>es. rustc_extern_inputs g' k = Some es \<longrightarrow> (\<forall>(n, p) \<in> set es. gh' p = gh p) \<and>
      (\<forall>n \<in> set names. hash_env_dep_value h (env' n) = hash_env_dep_value h (env n)))"
proof -
  note kn = hit_key_now [OF hit k]
  note ri = recorded_inputs [OF up conjunct1 [OF kn] conjunct2 [OF kn] k sep wide]
  show ?thesis
  proof (intro conjI allI impI)
    fix es
    assume "rustc_extern_inputs g' k = Some es"
    from ri(4) [OF this] show "\<forall>(n, p) \<in> set es. gh' p = gh p"
      and "\<forall>n \<in> set names. hash_env_dep_value h (env' n) = hash_env_dep_value h (env n)" by auto
  qed (rule ri(1-3))+
qed


definition demo_later :: "npath \<Rightarrow> content_hash option" where
  "demo_later p = (if p \<in> {''/h'', ''src/a.c''} then demo_hash p else None)"

definition demo_key :: context_key where
  "demo_key = the (resolve_instance_key (fst demo_warm) ''K'')"

definition demo_entry :: context_entry where
  "demo_entry = the (dm_get (dg_contexts (fst demo_warm)) demo_key)"

lemma demo_shape:
  "resolve_instance_key (fst demo_warm) ''K'' \<noteq> None"
  "dm_get (dg_contexts (fst demo_warm)) demo_key \<noteq> None"
  "rustc_extern_inputs (fst demo_warm) demo_key = None"
  "entry_files demo_entry = [''src/a.c'', ''/h'']"
  by code_simp+

lemma key_now_cong:
  "(\<And>p. p \<in> set (entry_files e) \<Longrightarrow> gh p = gh' p) \<Longrightarrow> key_now h None e gh env = key_now h None e gh' env"
proof -
  assume a: "\<And>p. p \<in> set (entry_files e) \<Longrightarrow> gh p = gh' p"
  have "hash_all gh ps = hash_all gh' ps" if "set ps \<subseteq> set (entry_files e)" for ps
    using that by (induction ps) (auto simp: a split: option.split)
  then show ?thesis by (simp add: key_now_def current_artifact_key_def)
qed


lemma demo_entry_get:
  "resolve_instance_key (fst demo_warm) ''K'' = Some demo_key"
  "dm_get (dg_contexts (fst demo_warm)) demo_key = Some demo_entry"
  using demo_shape(1,2) by (simp_all add: demo_key_def demo_entry_def)

lemma demo_later_hit:
  "snd (try_fast_hit_with_env demo_digest ''K'' demo_later (\<lambda>_. None) (fst demo_warm)) = Some (the (snd demo_warm))"
proof -
  have "key_now demo_digest None demo_entry demo_hash (\<lambda>_. None) = key_now demo_digest None demo_entry demo_later (\<lambda>_. None)"
    by (rule key_now_cong) (auto simp: demo_shape demo_later_def)
  with demo_fast_hit show ?thesis by (simp add: fast_hit_iff demo_entry_get demo_shape)
qed

theorem no_stale_hit_witness:
  "ce_resolved_includes demo_entry = [''/h''] \<and> demo_later ''/h'' = demo_hash ''/h'' \<and>
   demo_later ''src/a.c'' = demo_hash ''src/a.c''"
proof -
  have "base_preimage demo_entry None demo_hash = base_preimage demo_entry None demo_later"
    by (simp add: base_preimage_def demo_shape demo_later_def)
  then have "digest_separates demo_digest demo_entry (rustc_extern_inputs (fst demo_warm) demo_key)
      demo_hash (\<lambda>_. None) demo_later (\<lambda>_. None)"
    by (simp add: digest_separates_def demo_shape key_preimages_def demo_digest_def min_def)
  moreover have "sized demo_hash" "sized demo_later" by (simp_all add: sized_def demo_hash_def demo_later_def)
  ultimately show ?thesis
    using no_stale_hit [OF demo_warm_update disjI2 [OF demo_later_hit] demo_entry_get]
    by (simp add: demo_shape demo_scan_def)
qed

end
