(* ===== verification/GraphMaintenance.thy ===== *)
theory GraphMaintenance
  imports HitSoundness
begin

text \<open>
  What maintenance does to the dependency graph: invalidating evicted artifacts, evicting contexts,
  the Rust metadata compatibility check, and what the counters and the dirty flag say.
\<close>

subsection \<open>Invalidation\<close>

definition evicted_key :: "string set \<Rightarrow> context_entry \<Rightarrow> bool" where
  "evicted_key evicted e = (case ce_artifact_key e of Some ak \<Rightarrow> hex_encode ak \<in> evicted | None \<Rightarrow> False)"

definition cleared_entry :: "string set \<Rightarrow> context_entry \<Rightarrow> context_entry" where
  "cleared_entry evicted e = (if evicted_key evicted e then e\<lparr>ce_artifact_key := None\<rparr> else e)"

lemma not_evicted_cleared: "\<not> evicted_key evicted (cleared_entry evicted e)"
  by (simp add: cleared_entry_def evicted_key_def)

lemma set_keys_to_clear:
  "dm_wf (dg_contexts g) \<Longrightarrow>
     k \<in> set (keys_to_clear g evicted) \<longleftrightarrow> (\<exists>e. dm_get (dg_contexts g) k = Some e \<and> evicted_key evicted e)"
  by (force simp: keys_to_clear_def evicted_key_def dm_in_set_iff)

lemma distinct_keys_to_clear: "dm_wf (dg_contexts g) \<Longrightarrow> distinct (keys_to_clear g evicted)"
  by (simp add: keys_to_clear_def dm_wf_def distinct_map_filter)

lemma clear_keys_get:
  "distinct ks \<Longrightarrow> (\<And>k. k \<in> set ks \<Longrightarrow> \<exists>e. dm_get (fst acc) k = Some e \<and> ce_artifact_key e \<noteq> None) \<Longrightarrow>
     dm_get (fst (foldl clear_key acc ks)) i =
       (if i \<in> set ks then map_option (\<lambda>e. e\<lparr>ce_artifact_key := None\<rparr>) (dm_get (fst acc) i) else dm_get (fst acc) i) \<and>
     snd (foldl clear_key acc ks) = snd acc + length ks"
proof (induction ks arbitrary: acc)
  case (Cons k ks)
  from Cons.prems(2) [of k] obtain e where e: "dm_get (fst acc) k = Some e" "ce_artifact_key e \<noteq> None" by auto
  then have step: "clear_key acc k = (dm_insert k (e\<lparr>ce_artifact_key := None\<rparr>) (fst acc), snd acc + 1)"
    by (simp add: clear_key_def case_prod_beta)
  have "\<exists>e. dm_get (fst (clear_key acc k)) k' = Some e \<and> ce_artifact_key e \<noteq> None" if "k' \<in> set ks" for k'
    using Cons.prems that by (auto simp: step)
  from Cons.IH [OF _ this] Cons.prems(1) e(1) show ?case by (auto simp: step)
qed simp

lemma invalidated_graph:
  assumes "dm_wf (dg_contexts g)"
  shows "dm_get (dg_contexts (fst (invalidate_artifact_keys evicted g))) k =
      map_option (cleared_entry evicted) (dm_get (dg_contexts g) k)"
    and "snd (invalidate_artifact_keys evicted g) = length (keys_to_clear g evicted)"
proof -
  have none: "keys_to_clear g {} = []" by (auto simp: keys_to_clear_def filter_empty_conv split: option.split)
  have ex: "\<exists>e. dm_get (fst (dg_contexts g, 0 :: nat)) k = Some e \<and> ce_artifact_key e \<noteq> None"
    if "k \<in> set (keys_to_clear g evicted)" for k
    using that by (auto simp: set_keys_to_clear [OF assms] evicted_key_def split: option.splits)
  note C = clear_keys_get [OF distinct_keys_to_clear [OF assms] ex]
  obtain m n where mn: "foldl clear_key (dg_contexts g, 0) (keys_to_clear g evicted) = (m, n)" by fastforce
  show "snd (invalidate_artifact_keys evicted g) = length (keys_to_clear g evicted)"
    using C [of evicted] mn none by (simp add: invalidate_artifact_keys_def Let_def)
  show "dm_get (dg_contexts (fst (invalidate_artifact_keys evicted g))) k =
      map_option (cleared_entry evicted) (dm_get (dg_contexts g) k)"
  proof (cases "evicted = {}")
    case True
    then show ?thesis
      by (cases "dm_get (dg_contexts g) k")
         (simp_all add: invalidate_artifact_keys_def cleared_entry_def evicted_key_def split: option.split)
  next
    case False
    then show ?thesis
      using C [of evicted k] mn set_keys_to_clear [OF assms, of k evicted]
      by (cases "dm_get (dg_contexts g) k") (auto simp: invalidate_artifact_keys_def cleared_entry_def Let_def)
  qed
qed

text \<open>
  C22. Invalidation is exact and sufficient: in every graph reached by a run, invalidating evicted
  artifacts forgets precisely the artifact keys in the evicted set, leaves every other context and
  all other fields as they were, counts what it forgot, and neither a check nor the fast path
  asked directly of the resulting graph hits on an evicted artifact.  (A check that answers
  \<^verbatim>\<open>SourceChanged\<close> records a new key, which may be an evicted one; what follows it is not covered.)
\<close>

theorem invalidation_exact:
  assumes "g = foldl (graph_step h (max_equivalent_contexts var)) dep_graph_new ops"
    and "invalidate_artifact_keys evicted g = (g', n)"
  shows "dm_get (dg_contexts g') k = map_option (cleared_entry evicted) (dm_get (dg_contexts g) k) \<and>
    n = card {k. \<exists>e. dm_get (dg_contexts g) k = Some e \<and> evicted_key evicted e} \<and>
    (snd (check_with_env h now key is_fresh gh env g') = Hit ak \<longrightarrow> hex_encode ak \<notin> evicted) \<and>
    (snd (try_fast_hit_with_env h key gh env g') = Some ak \<longrightarrow> hex_encode ak \<notin> evicted)"
proof -
  have wf: "dm_wf (dg_contexts g)"
    using graph_okD(1) [OF graph_run_ok [OF max_equivalent_contexts_pos]] assms(1) by simp
  note I = invalidated_graph [OF wf, of evicted]
  have [simp]: "g' = fst (invalidate_artifact_keys evicted g)" "n = snd (invalidate_artifact_keys evicted g)"
    using assms(2) by simp_all
  have n: "n = card {k. \<exists>e. dm_get (dg_contexts g) k = Some e \<and> evicted_key evicted e}"
    using distinct_card [OF distinct_keys_to_clear [OF wf, of evicted]] I(2)
    by (simp flip: set_keys_to_clear [OF wf])
  have fast: "hex_encode ak \<notin> evicted" if "snd (try_fast_hit_with_env h key gh env g') = Some ak"
    using that I(1) not_evicted_cleared [of evicted]
    by (auto simp: fast_hit_iff) (metis evicted_key_def option.simps(5))
  have "hex_encode ak \<notin> evicted" if "snd (check_with_env h now key is_fresh gh env g') = Hit ak"
    by (rule verdict_key [of h now key is_fresh gh env g' ak])
       (use that fast in \<open>auto simp: fast_hit_iff\<close>)
  with n fast I(1) show ?thesis by simp
qed


definition demo_run :: "graph_op list" where
  "demo_run = demo_ops @ [Update 1 ''K'' demo_scan demo_hash [] (\<lambda>_. None)]"

lemma demo_run_graph: "fst demo_warm = foldl (graph_step demo_digest (max_equivalent_contexts None)) dep_graph_new demo_run"
  by (simp add: demo_run_def demo_warm_def demo_graph_def max_equivalent_contexts_def)

theorem invalidation_exact_witness:
  "map_option ce_artifact_key (dm_get (dg_contexts
     (fst (invalidate_artifact_keys {hex_encode (the (snd demo_warm))} (fst demo_warm)))) demo_key) = Some None"
proof -
  have "ce_artifact_key demo_entry = Some (the (snd demo_warm))"
    using demo_fast_hit by (simp add: fast_hit_iff demo_entry_get)
  then have "evicted_key {hex_encode (the (snd demo_warm))} demo_entry" by (simp add: evicted_key_def)
  then show ?thesis
    using invalidation_exact [OF demo_run_graph surjective_pairing, of "{hex_encode (the (snd demo_warm))}" demo_key]
    by (simp add: demo_entry_get cleared_entry_def)
qed

subsection \<open>Eviction\<close>

text \<open>
  Evicting contexts removes them everywhere and nothing else: in every graph reached by a run,
  exactly the listed contexts are gone, the equivalence rows keep the surviving instances in order
  and disappear when none is left, no extern inputs or compatibility alias of an evicted context
  remain while those of the others do, and a scanned file is kept exactly if a surviving context
  references it.
\<close>

theorem eviction_prunes:
  assumes "g = foldl (graph_step h (max_equivalent_contexts var)) dep_graph_new ops"
    and "g' = fst (evict_contexts ks g)"
  shows "dm_get (dg_contexts g') i = (if i \<in> set ks then None else dm_get (dg_contexts g) i) \<and>
    dm_get (dg_equivalent g') key =
      (case dm_get (dg_equivalent g) key of None \<Rightarrow> None
       | Some is \<Rightarrow> let live = filter (\<lambda>i. i \<notin> set ks) is in if live = [] then None else Some live) \<and>
    dm_get (dg_rustc_externs g') i = (if i \<in> set ks then None else dm_get (dg_rustc_externs g) i) \<and>
    dm_get (dg_compat g') a = (case dm_get (dg_compat g) a of None \<Rightarrow> None
       | Some v \<Rightarrow> if v \<in> set ks then None else Some v) \<and>
    dm_get (dg_files g') p =
      (if p \<in> referenced_paths (dg_contexts g') then dm_get (dg_files g) p else None)"
  using evicted_graph [OF _ assms(2)] graph_run_ok [OF max_equivalent_contexts_pos, of var h ops] assms(1) by blast

theorem eviction_prunes_witness:
  "dm_get (dg_contexts (fst (evict_contexts [demo_key] (fst demo_warm)))) demo_key = None"
  using eviction_prunes [OF demo_run_graph refl, of "[demo_key]" demo_key] by simp

subsection \<open>The metadata compatibility check\<close>

lemma verdict_case_optionE:
  assumes "fst (snd (case x of None \<Rightarrow> a | Some y \<Rightarrow> f y)) = v"
  obtains "x = None" "fst (snd a) = v" | y where "x = Some y" "fst (snd (f y)) = v"
  using assms by (cases x) auto

lemma verdict_ifE:
  assumes "fst (snd (if b then x else y)) = v"
  obtains "b" "fst (snd x) = v" | "\<not> b" "fst (snd y) = v"
  using assms by (cases b) auto

lemma compat_hit_cases:
  assumes "fst (snd (check_rustc_metadata_compat_with_env h ck externs is_fresh gh env g)) = Hit ak"
  obtains k cand e hs hs' where "dm_get (dg_compat g) ck = Some k" "rustc_extern_inputs g k = Some cand"
    "dm_get (dg_contexts g) k = Some e" "ce_state e \<noteq> Cold" "\<not> ce_has_computed_includes e"
    "ce_artifact_key e = Some ak"
    "\<forall>p \<in> set (entry_files e). fresh_or_hash_match is_fresh gh e p"
    "collect_rustc_extern_hashes gh externs = Some hs"
    "collect_rustc_extern_hashes gh cand = Some hs'" "sort_key fst hs = sort_key fst hs'"
    "ce_rustc_env_deps e = [] \<or> collect_rustc_env_hashes h (ce_rustc_env_deps e) env = ce_rustc_env_deps e"
  using assms unfolding check_rustc_metadata_compat_with_env_def Let_def
  by (elim verdict_case_optionE verdict_ifE)
     (simp_all add: entry_files_def find_None_iff ball_Un Ball_def)


lemma recollected_env:
  "collect_rustc_env_hashes h ds env = ds \<Longrightarrow> (n, v) \<in> set ds \<Longrightarrow> v = hash_env_dep_value h (env n)"
  by (induction ds) (auto simp: collect_rustc_env_hashes_def)

lemma same_extern_hashes:
  assumes "collect_rustc_extern_hashes gh xs = Some hs" "collect_rustc_extern_hashes gh ys = Some hs'"
    and "sort_key fst hs = sort_key fst hs'"
  shows "image_mset (\<lambda>(n, p). (n, gh p)) (mset xs) = image_mset (\<lambda>(n, p). (n, gh p)) (mset ys)"
proof -
  have "image_mset (\<lambda>(n, p). (n, gh p)) (mset zs) = image_mset (\<lambda>(n, v). (n, Some v)) (mset vs)"
    if "collect_rustc_extern_hashes gh zs = Some vs" for zs vs
    using that by (force simp: externs_Some multiset.map_comp comp_def case_prod_beta intro!: image_mset_cong)
  moreover have "mset hs = mset hs'" using assms(3) by (metis mset_sort)
  ultimately show ?thesis using assms(1,2) by metis
qed

text \<open>
  A hit across check and build units is justified: the alias leads to a recorded context whose
  artifact key is the answer, the extern crates of the request have name by name the contents of
  the candidate's externs, every environment value the candidate read is unchanged, every file of
  the candidate is vouched for by the journal or has its recorded hash, and the graph is only
  counted, not changed.
\<close>

theorem compat_hit_justified:
  assumes "fst (snd (check_rustc_metadata_compat_with_env h ck externs is_fresh gh env g)) = Hit ak"
  shows "fst (check_rustc_metadata_compat_with_env h ck externs is_fresh gh env g) \<in> {g, count_hit g} \<and>
    (\<exists>k cand e. dm_get (dg_compat g) ck = Some k \<and> rustc_extern_inputs g k = Some cand \<and>
      dm_get (dg_contexts g) k = Some e \<and> ce_artifact_key e = Some ak \<and>
      image_mset (\<lambda>(n, p). (n, gh p)) (mset externs) = image_mset (\<lambda>(n, p). (n, gh p)) (mset cand) \<and>
      (\<forall>(n, v) \<in> set (ce_rustc_env_deps e). v = hash_env_dep_value h (env n)) \<and>
      (\<forall>p \<in> set (entry_files e). is_fresh p \<or> (\<exists>v. gh p = Some v \<and> (p, v) \<in> set (ce_last_file_hashes e))))"
proof (rule compat_hit_cases [OF assms])
  fix k cand e hs hs'
  assume a: "dm_get (dg_compat g) ck = Some k" "rustc_extern_inputs g k = Some cand"
    "dm_get (dg_contexts g) k = Some e" "ce_artifact_key e = Some ak"
    and fr: "\<forall>p \<in> set (entry_files e). fresh_or_hash_match is_fresh gh e p"
    and hs: "collect_rustc_extern_hashes gh externs = Some hs" "collect_rustc_extern_hashes gh cand = Some hs'"
      "sort_key fst hs = sort_key fst hs'"
    and env: "ce_rustc_env_deps e = [] \<or> collect_rustc_env_hashes h (ce_rustc_env_deps e) env = ce_rustc_env_deps e"
  have "\<forall>(n, v) \<in> set (ce_rustc_env_deps e). v = hash_env_dep_value h (env n)"
    using env recollected_env [of h "ce_rustc_env_deps e" env] by auto
  moreover have "\<forall>p \<in> set (entry_files e). is_fresh p \<or> (\<exists>v. gh p = Some v \<and> (p, v) \<in> set (ce_last_file_hashes e))"
    using fr by (auto simp: fresh_or_hash_match_def list_ex_iff split: if_splits option.splits)
  ultimately show ?thesis using a same_extern_hashes [OF hs] compat_check_state by blast
qed

definition demo_rustc :: dep_graph where
  "demo_rustc = dep_graph_new\<lparr>
     dg_contexts := [(''k'', (cold_entry ''K'' sample_context None 0)\<lparr> ce_state := Warm, ce_artifact_key := Some ''A'',
        ce_last_file_hashes := [(''src/a.c'', replicate 32 CHR ''x'')], ce_rustc_env_deps := [(''V'', Some (demo_digest ''1''))] \<rparr>)],
     dg_rustc_externs := [(''k'', [(''dep'', ''/d.rmeta'')])], dg_compat := [(''C'', ''k'')] \<rparr>"

theorem compat_hit_justified_witness:
  "\<exists>cand e. rustc_extern_inputs demo_rustc ''k'' = Some cand \<and> dm_get (dg_contexts demo_rustc) ''k'' = Some e \<and>
     image_mset (\<lambda>(n, p). (n, demo_hash p)) (mset [(''dep'', ''/d.rlib'')]) =
       image_mset (\<lambda>(n, p). (n, demo_hash p)) (mset cand)"
proof -
  have "fst (snd (check_rustc_metadata_compat_with_env demo_digest ''C'' [(''dep'', ''/d.rlib'')]
      (\<lambda>_. False) demo_hash (\<lambda>_. Some ''1'') demo_rustc)) = Hit ''A''"
    by (simp add: check_rustc_metadata_compat_with_env_def demo_rustc_def rustc_extern_inputs_def cold_entry_def
        fresh_or_hash_match_def demo_hash_def sample_context_def collect_rustc_env_hashes_def hash_env_dep_value_def Let_def)
  from compat_hit_justified [OF this] show ?thesis by (auto simp: demo_rustc_def)
qed


subsection \<open>The dirty flag\<close>

definition persisted :: "dep_graph \<Rightarrow>
    (npath, file_entry) dmap \<times> (context_key, context_entry) dmap \<times>
    (context_key, (string \<times> npath) list) dmap \<times> (context_key, context_key) dmap" where
  "persisted g = (dg_files g, dg_contexts g, dg_rustc_externs g, dg_compat g)"

text \<open>The operations that may change persisted state silently: an update that cannot hash
  everything, and an eviction that finds no context to remove.\<close>

fun unflagged :: "digest \<Rightarrow> dep_graph \<Rightarrow> graph_op \<Rightarrow> bool" where
  "unflagged h g (Update now key scan get_hash names env_value) =
     (snd (update_with_env h now key scan get_hash names env_value g) = None)"
| "unflagged h g (EvictContexts keys) = (snd (evict_contexts keys g) = 0)"
| "unflagged h g (TrimAt age now) = (snd (trim_at age now g) = 0)"
| "unflagged h g _ = False"

lemma dirty_fields [simp]:
  "dg_dirty (dg_mark_dirty g)" "dg_dirty (count_check g) = dg_dirty g" "dg_dirty (count_hit g) = dg_dirty g"
  "dg_dirty (count_miss g) = dg_dirty g" "dg_dirty (set_entry k e g) = dg_dirty g"
  "dg_dirty (drop_context k g) = dg_dirty g"
  by (simp_all add: dg_mark_dirty_def count_check_def count_hit_def count_miss_def set_entry_def drop_context_def)

lemma persisted_counters [simp]:
  "persisted (count_check g) = persisted g" "persisted (count_hit g) = persisted g" "persisted (count_miss g) = persisted g"
  "persisted (dg_mark_dirty g) = persisted g"
  by (simp_all add: persisted_def)

lemma register_dirty: "dg_dirty (fst (register_context_entry h limit now key ctx root g))"
  by (auto simp: register_context_entry_def Let_def split: option.split prod.split)

lemma check_dirty:
  "dm_get (dg_contexts g) k = Some e \<Longrightarrow> resolve_instance_key g key = Some k \<Longrightarrow>
     dg_dirty (fst (check_with_env h now key is_fresh gh env g))"
  by (auto simp: check_with_env_def Let_def split: option.split prod.split)

lemma check_silent:
  "(resolve_instance_key g key = None \<or> (\<exists>k. resolve_instance_key g key = Some k \<and> dm_get (dg_contexts g) k = None)) \<Longrightarrow>
     persisted (fst (check_with_env h now key is_fresh gh env g)) = persisted g"
  by (auto simp: check_with_env_def Let_def)

lemma evict_dirty: "0 < snd (evict_contexts ks g) \<Longrightarrow> dg_dirty (fst (evict_contexts ks g))"
  by (auto simp: evict_contexts_def Let_def case_prod_beta)

lemma invalidate_dirty:
  assumes "dm_wf (dg_contexts g)"
  shows "persisted (fst (invalidate_artifact_keys ev g)) = persisted g \<or> dg_dirty (fst (invalidate_artifact_keys ev g))"
proof (cases "keys_to_clear g ev")
  case Nil
  then show ?thesis by (simp add: invalidate_artifact_keys_def Let_def persisted_def)
next
  case (Cons k ks)
  with invalidated_graph(2) [OF assms, of ev] have "0 < snd (invalidate_artifact_keys ev g)" by simp
  then show ?thesis by (auto simp: invalidate_artifact_keys_def Let_def case_prod_beta split: if_splits)
qed


lemma step_dirty:
  assumes "graph_ok limit g" and "\<not> unflagged h g x"
  shows "persisted (graph_step h limit g x) = persisted g \<or> dg_dirty (graph_step h limit g x)"
proof (cases x)
  case (Register now key ctx root)
  with register_dirty [of h limit now key ctx root g] show ?thesis
    by (auto simp: register_with_key_and_root_result_def case_prod_beta)
next
  case (RegisterRustc now key ctx root externs compat_key)
  with register_dirty [of h limit now key ctx root g] show ?thesis
    by (auto simp: register_rustc_with_key_and_root_result_def case_prod_beta Let_def split: option.split)
next
  case (Update now key scan gh names env)
  with assms(2) show ?thesis by (auto simp: update_with_env_def Let_def split: option.splits prod.splits)
next
  case (Check now key fr gh env)
  then show ?thesis
    by (cases "resolve_instance_key g key"; cases "dm_get (dg_contexts g) (the (resolve_instance_key g key))")
       (simp_all add: check_silent check_dirty)
next
  case (FastHit key gh env)
  with fast_hit_state [of h key gh env g] show ?thesis by auto
next
  case (CompatCheck key externs fr gh env)
  with compat_check_state [of h key externs fr gh env g] show ?thesis by auto
next
  case (Invalidate ev)
  with invalidate_dirty [OF graph_okD(1) [OF assms(1)]] show ?thesis by simp
next
  case (EvictContexts ks)
  with assms(2) evict_dirty [of ks g] show ?thesis by simp
next
  case (TrimAt age now)
  with assms(2) evict_dirty [of "expired_contexts age now g" g] show ?thesis by (simp add: trim_at_def)
qed (simp_all add: dg_clear_def set_rustc_env_deps_def store_file_includes_def mark_stale_def dg_take_dirty_def
      persisted_def split: option.split)

text \<open>
  In every run, an operation that changes the persisted part of the graph leaves the dirty flag
  set, with two exceptions: an update that cannot hash every file still replaces the include lists
  of its context, and an eviction that removes no context can still drop scanned files, both
  without setting the flag.
\<close>

theorem dirty_tracks_graph:
  "let g = foldl (graph_step h (max_equivalent_contexts var)) dep_graph_new ops;
       g' = graph_step h (max_equivalent_contexts var) g x
   in persisted g' = persisted g \<or> dg_dirty g' \<or> unflagged h g x"
  using step_dirty [OF graph_run_ok [OF max_equivalent_contexts_pos, of var h ops], of h x] by (auto simp: Let_def)

text \<open>The two exceptions.\<close>

lemma incomplete_update_unflagged:
  assumes "resolve_instance_key g key = Some k" "dm_get (dg_contexts g) k = Some e"
    and "gh (cc_source_file (ce_context e)) = None"
  shows "get_includes (fst (update_with_env h now key scan gh names env g)) key = Some (sr_resolved scan)"
    and "dg_dirty (fst (update_with_env h now key scan gh names env g)) = dg_dirty g"
  using assms resolve_set_entry [of g k "set_entry k _ g" _ key]
  by (simp_all add: update_with_env_def Let_def entry_files_def get_includes_def resolved_entry_def)

lemma empty_eviction_unflagged:
  "dg_contexts g = [] \<Longrightarrow> dg_files (fst (evict_contexts ks g)) = []"
  "dg_contexts g = [] \<Longrightarrow> dg_dirty (fst (evict_contexts ks g)) = dg_dirty g"
proof -
  assume a: "dg_contexts g = []"
  have r: "remove_contexts [] ks = ([], 0)"
    unfolding remove_contexts_def by (induction ks) (simp_all add: dm_has_def)
  show "dg_files (fst (evict_contexts ks g)) = []" "dg_dirty (fst (evict_contexts ks g)) = dg_dirty g"
    by (simp_all add: evict_contexts_def a r Let_def dm_retain_def referenced_paths_def)
qed

end
