(* ===== verification/Checkouts.thy ===== *)
theory Checkouts
  imports GraphMaintenance
begin

text \<open>
  Sharing between checkouts of one workspace: a context registered in a second checkout starts from
  the entry of the first, moved to the new root, and hits on the artifact of the first checkout
  without compiling, as long as the files below the two roots have the same contents.
\<close>

subsection \<open>Moving a file to another checkout\<close>

lemma rebase_placed:
  assumes "clean_root r" "clean_root r'" "placeable r f"
  shows "rebase_project_path (Some r) (Some r') (place r f) = place r' f"
proof (cases f)
  case (InTree p)
  with assms have "np_strip_prefix (np_new (place r f)) r = Some p"
    by (simp add: np_strip_prefix_def np_new_key clean_root_def strip_below below_def normalize_twice)
       (simp flip: below_def add: strip_below clean_root_def)
  with InTree assms(2) show ?thesis
    by (simp add: rebase_project_path_def np_join_def np_new_key below_def clean_root_def)
next
  case (Outside p)
  with assms have "np_strip_prefix (np_new (place r f)) r = None"
    by (simp add: np_strip_prefix_def np_new_key clean_root_def path_strip_prefix_def)
  with Outside show ?thesis by (simp add: rebase_project_path_def)
qed


subsection \<open>Registering in a second checkout\<close>

lemma register_from_candidate:
  assumes ok: "graph_ok limit g" and lim: "1 \<le> limit"
    and cand: "equivalent_candidate g key = Some c"
    and new: "dm_get (dg_contexts g) ik = None"
    and ik: "ik = instance_map_key (instance_key_new h key (cc_source_file ctx) root)"
    and r: "register_with_key_and_root_result h limit now key ctx root g = (g', reg)"
  shows "cr_map_key reg = ik" "cr_key reg = key" "rustc_extern_inputs g' ik = None"
    "dm_get (dg_contexts g') ik = Some (rebased_entry c ctx root now)"
    "cr_rebased reg = (ce_key_root c \<noteq> None \<and> root \<noteq> None \<and> ce_key_root c \<noteq> root)"
    "cr_state reg = ce_state c"
proof -
  obtain row ev where push: "push_instance limit (dm_get (dg_equivalent g) key) ik = (row, ev)" by fastforce
  have "ev \<noteq> Some ik"
  proof (rule push_instance_row(2) [OF push lim])
    show "distinct xs \<and> length xs \<le> limit \<and> ik \<notin> set xs" if "dm_get (dg_equivalent g) key = Some xs" for xs
      using graph_okD(6) [OF ok that] graph_okD(7) [OF ok that, of ik] new by auto
  qed
  moreover have "equivalent_candidate (dg_mark_dirty g) key = Some c"
    using cand by (simp add: equivalent_candidate_def cong: option.case_cong)
  ultimately show "cr_map_key reg = ik" "cr_key reg = key" "rustc_extern_inputs g' ik = None"
    "dm_get (dg_contexts g') ik = Some (rebased_entry c ctx root now)"
    "cr_rebased reg = (ce_key_root c \<noteq> None \<and> root \<noteq> None \<and> ce_key_root c \<noteq> root)"
    "cr_state reg = ce_state c"
    using r new push
    by (auto simp: register_with_key_and_root_result_def register_context_entry_def Let_def ik [symmetric]
        rustc_extern_inputs_def drop_context_def rebased_entry_def split: option.splits)
qed

lemma rebased_files:
  assumes roots: "clean_root r" "clean_root r'" "ce_key_root e = Some r"
    and fs: "\<forall>f \<in> set (src # incs @ fin). placeable r f"
    and e: "cc_source_file (ce_context e) = place r src" "ce_resolved_includes e = map (place r) incs"
      "cc_force_includes (ce_context e) = map (place r) fin"
    and ctx: "cc_source_file ctx = place r' src" "cc_force_includes ctx = map (place r') fin"
    and same: "\<forall>f \<in> set (src # incs @ fin). gh' (place r' f) = gh (place r f)"
    and hashed: "hash_all gh (entry_files e) = Some (ce_last_file_hashes e)"
  shows "entry_files (rebased_entry e ctx (Some r') now) = map (place r') (src # incs @ fin)"
    and "hash_all gh' (entry_files (rebased_entry e ctx (Some r') now)) =
      Some (ce_last_file_hashes (rebased_entry e ctx (Some r') now))"
proof -
  have files: "entry_files e = map (place r) (src # incs @ fin)" by (simp add: entry_files_def e)
  have reb: "rebase_project_path (Some r) (Some r') (place r f) = place r' f" if "f \<in> set (src # incs @ fin)" for f
    using rebase_placed [OF roots(1,2)] fs that by blast
  show F: "entry_files (rebased_entry e ctx (Some r') now) = map (place r') (src # incs @ fin)"
    using reb by (simp add: rebased_entry_def entry_files_def e ctx roots(3) Let_def)
  have known: "\<forall>f \<in> set (src # incs @ fin). gh (place r f) \<noteq> None"
    and "ce_last_file_hashes e = map (\<lambda>f. (place r f, the (gh (place r f)))) (src # incs @ fin)"
    using hashed unfolding files hash_all_Some by auto
  then have "ce_last_file_hashes (rebased_entry e ctx (Some r') now) =
      map (\<lambda>f. (place r' f, the (gh (place r f)))) (src # incs @ fin)"
    using reb by (simp add: rebased_entry_def roots(3) Let_def)
  then show "hash_all gh' (entry_files (rebased_entry e ctx (Some r') now)) =
      Some (ce_last_file_hashes (rebased_entry e ctx (Some r') now))"
    using known same unfolding F hash_all_Some by auto
qed


lemma rebased_key:
  assumes roots: "clean_root r" "clean_root r'" "ce_key_root e = Some r"
    and fs: "\<forall>f \<in> set fs. placeable r f \<and> placeable r' f"
    and files: "entry_files e = map (place r) fs" "entry_files (rebased_entry e ctx (Some r') now) = map (place r') fs"
    and same: "\<forall>f \<in> set fs. gh' (place r' f) = gh (place r f)"
    and k: "key_now h None e gh env = Some ak"
  shows "key_now h None (rebased_entry e ctx (Some r') now) gh' env' = Some ak"
proof -
  let ?e = "rebased_entry e ctx (Some r') now"
  have known: "\<forall>f \<in> set fs. gh (place r f) \<noteq> None"
    using key_now_preimage(1) [OF k] by (simp add: files)
  have "map (\<lambda>p. (normalize_key_path p (Some r'), the (gh' p))) (map (place r') fs) =
      map (\<lambda>p. (normalize_key_path p (Some r), the (gh p))) (map (place r) fs)"
    using same fs key_of_placed roots(1,2) by simp
  moreover have "ce_key_root ?e = Some r'" "ce_logical_key ?e = ce_logical_key e"
    by (simp_all add: rebased_entry_def Let_def)
  ultimately have "base_preimage ?e None gh' = base_preimage e None gh"
    unfolding base_preimage_def files roots(3) by (simp only: Let_def option.case)
  moreover have "key_now h None ?e gh' env' = Some (h (base_preimage ?e None gh'))"
    using hash_all_Some [of gh' "map (place r') fs", THEN iffD2, OF conjI [OF _ refl]] known same
    by (simp add: key_now_def files(2) current_artifact_key_def compute_artifact_key_with_def
        cached_normalize base_preimage_def comp_def)
  ultimately show ?thesis using key_now_preimage(3) [OF k] by simp
qed

subsection \<open>Property\<close>

text \<open>
  C9. A second checkout hits at once: if one checkout at root \<open>r\<close> has recorded its compile of a
  context, then registering the same logical context at another root \<open>r'\<close> moves the recorded entry
  there, and the first check of the new context answers with the artifact of the first checkout,
  for every journal, provided the files below \<open>r'\<close> have the contents of those below \<open>r\<close> and the files
  outside are the same.
\<close>

theorem second_checkout_hits:
  assumes "g = foldl (graph_step h (max_equivalent_contexts var)) dep_graph_new ops"
    and "equivalent_candidate g key = Some e" and "ce_state e \<noteq> Cold" and "\<not> ce_has_computed_includes e"
    and "ce_artifact_key e = Some ak" and "key_now h None e gh env = Some ak"
    and "hash_all gh (entry_files e) = Some (ce_last_file_hashes e)"
    and "clean_root r" and "clean_root r'" and "ce_key_root e = Some r"
    and "\<forall>f \<in> set (src # incs @ fin). placeable r f \<and> placeable r' f"
    and "cc_source_file (ce_context e) = place r src" and "ce_resolved_includes e = map (place r) incs"
    and "cc_force_includes (ce_context e) = map (place r) fin"
    and "cc_source_file ctx = place r' src" and "cc_force_includes ctx = map (place r') fin"
    and "\<forall>f \<in> set (src # incs @ fin). gh' (place r' f) = gh (place r f)"
    and "dm_get (dg_contexts g) (instance_map_key (instance_key_new h key (cc_source_file ctx) (Some r'))) = None"
    and "register_with_key_and_root_result h (max_equivalent_contexts var) now key ctx (Some r') g = (g', reg)"
  shows "cr_rebased reg = (r \<noteq> r') \<and> cr_state reg = ce_state e \<and>
    snd (check_with_env h now' (cr_map_key reg) is_fresh gh' env' g') = Hit ak"
proof -
  let ?e = "rebased_entry e ctx (Some r') now"
  have ok: "graph_ok (max_equivalent_contexts var) g"
    using graph_run_ok [OF max_equivalent_contexts_pos] assms(1) by simp
  note R = register_from_candidate [OF ok max_equivalent_contexts_pos assms(2,18) refl assms(19)]
  have pl: "\<forall>f \<in> set (src # incs @ fin). placeable r f" using assms(11) by blast
  note F = rebased_files [OF assms(8,9,10) pl assms(12-17,7)]
  have "entry_files e = map (place r) (src # incs @ fin)" by (simp add: entry_files_def assms(12-14))
  note K = rebased_key [OF assms(8-11) this F(1) assms(17,6)]
  have "snd (check_with_env h now' (cr_map_key reg) is_fresh gh' env' g') = Hit ak"
  proof (rule check_hitI)
    show "resolve_instance_key g' (cr_map_key reg) = Some (cr_map_key reg)" "dm_get (dg_contexts g') (cr_map_key reg) = Some ?e"
      using R(1,4) by (simp_all add: resolve_instance_key_def dm_has_def)
    show "key_now h (rustc_extern_inputs g' (cr_map_key reg)) ?e gh' env' = Some ak" using R(1,3) K by simp
    show "\<forall>p \<in> set (entry_files ?e). fresh_or_hash_match is_fresh gh' ?e p"
      using recorded_hash_matches [OF F(2)] by blast
  qed (use assms(3,4,5) in \<open>simp_all add: rebased_entry_def Let_def\<close>)
  with R(5,6) assms(10) show ?thesis by simp
qed


definition checkout_context :: "npath \<Rightarrow> compile_context" where
  "checkout_context r = sample_context\<lparr>cc_source_file := place r (InTree ''s.c'')\<rparr>"

definition first_checkout :: dep_graph where
  "first_checkout = foldl (graph_step demo_digest 16) dep_graph_new [Register 0 ''K'' (checkout_context ''/a'') (Some ''/a'')]"

definition checkout_scan :: scan_result where
  "checkout_scan = \<lparr> sr_resolved = map (place ''/a'') [InTree ''h'', Outside ''/u/s.h''], sr_unresolved = [], sr_has_computed = False \<rparr>"

definition built_checkout :: "dep_graph \<times> artifact_key option" where
  "built_checkout = update_with_env demo_digest 1 ''K'' checkout_scan demo_hash [] (\<lambda>_. None) first_checkout"

definition second_checkout :: "dep_graph \<times> context_registration" where
  "second_checkout = register_with_key_and_root_result demo_digest 16 2 ''K'' (checkout_context ''/b'') (Some ''/b'') (fst built_checkout)"

lemma candidate_resolved:
  "\<not> dm_has (dg_contexts g) key \<Longrightarrow> resolve_instance_key g key = Some k \<Longrightarrow> dm_get (dg_contexts g) k = Some e \<Longrightarrow>
     equivalent_candidate g key = Some e"
  by (auto simp: resolve_instance_key_def equivalent_candidate_def dm_has_def length_Suc_conv split: option.splits if_splits)

lemma checkout_facts:
  "snd built_checkout \<noteq> None" "\<not> dm_has (dg_contexts (fst built_checkout)) ''K''"
  "dg_rustc_externs first_checkout = []"
  "dm_get (dg_contexts (fst built_checkout))
     (instance_map_key (instance_key_new demo_digest ''K'' (cc_source_file (checkout_context ''/b'')) (Some ''/b''))) = None"
  "list_all (\<lambda>(_, e). ce_key_root e = Some ''/a'' \<and> cc_source_file (ce_context e) = place ''/a'' (InTree ''s.c'') \<and>
     cc_force_includes (ce_context e) = []) (dg_contexts first_checkout)"
  "clean_root ''/a''" "clean_root ''/b''" "clean_relative ''s.c''" "clean_relative ''h''"
  "Paths.normalize ''/u/s.h'' = ''/u/s.h''" "\<not> path_starts_with ''/u/s.h'' ''/a''" "\<not> path_starts_with ''/u/s.h'' ''/b''"
  by code_simp+

lemma built_checkout_run:
  "fst built_checkout = foldl (graph_step demo_digest (max_equivalent_contexts None)) dep_graph_new
     [Register 0 ''K'' (checkout_context ''/a'') (Some ''/a''), Update 1 ''K'' checkout_scan demo_hash [] (\<lambda>_. None)]"
  by (simp add: built_checkout_def first_checkout_def max_equivalent_contexts_def)

theorem second_checkout_hits_witness:
  "snd (check_with_env demo_digest 9 (cr_map_key (snd second_checkout)) (\<lambda>_. False) demo_hash (\<lambda>_. None)
     (fst second_checkout)) = Hit (the (snd built_checkout))"
proof -
  note C = checkout_facts
  have "update_with_env demo_digest 1 ''K'' checkout_scan demo_hash [] (\<lambda>_. None) first_checkout =
      (fst built_checkout, Some (the (snd built_checkout)))"
    using C(1) by (simp add: built_checkout_def prod_eq_iff)
  then show ?thesis
  proof (rule update_success)
    fix k e0 e
    assume u: "resolve_instance_key (fst built_checkout) ''K'' = Some k" "dm_get (dg_contexts first_checkout) k = Some e0"
      "dm_get (dg_contexts (fst built_checkout)) k = Some e" "ce_state e = Warm"
      "ce_artifact_key e = Some (the (snd built_checkout))" "ce_key_root e = ce_key_root e0" "ce_context e = ce_context e0"
      "ce_resolved_includes e = sr_resolved checkout_scan" "ce_has_computed_includes e = sr_has_computed checkout_scan"
      "hash_all demo_hash (entry_files e) = Some (ce_last_file_hashes e)"
      "key_now demo_digest (rustc_extern_inputs first_checkout k) e demo_hash (\<lambda>_. None) = Some (the (snd built_checkout))"
    from C(5) map_of_SomeD [OF u(2)] have "ce_key_root e0 = Some ''/a''"
      "cc_source_file (ce_context e0) = place ''/a'' (InTree ''s.c'')" "cc_force_includes (ce_context e0) = []"
      by (auto simp: list_all_iff)
    with u C show ?thesis
      by (intro second_checkout_hits [where r = "''/a''" and r' = "''/b''" and src = "InTree ''s.c''" and incs = "[InTree ''h'', Outside ''/u/s.h'']"
              and fin = "[]" and ctx = "checkout_context ''/b''" and gh = demo_hash and env = "\<lambda>_. None" and now = 2 and e = e,
              OF built_checkout_run candidate_resolved, THEN conjunct2, THEN conjunct2])
         (auto simp: checkout_scan_def rustc_extern_inputs_def checkout_context_def sample_context_def demo_hash_def
            second_checkout_def max_equivalent_contexts_def)
  qed
qed

end
