(* ===== verification/LexerSpec.thy ===== *)
theory LexerSpec
  imports IncludeLexer
begin

text \<open>
  The lexer refines the description by translation phases: continued lines are joined first, then
  comments are removed and the text is split into lines, then every line is parsed on its own.
  The single pass of the code keeps no joined text and parses only the lines a cheap filter lets
  through; it finds the same directives.
\<close>

subsection \<open>Phases\<close>

function desplice :: "string \<Rightarrow> string" where
  "desplice s =
     (if 0 < splice_len s then desplice (drop (splice_len s) s)
      else (case s of [] \<Rightarrow> [] | c # r \<Rightarrow> c # desplice r))"
  by pat_completeness auto
termination
  by (relation "measure length") auto

declare desplice.simps [simp del]

text \<open>The text after a block comment's body, and whether the comment ends before the line does.\<close>

fun drop_block :: "string \<Rightarrow> string \<times> bool" where
  "drop_block [] = ([], False)"
| "drop_block (c # t) =
     (if c = nl then (c # t, False)
      else if c = star \<and> first t = Some sl then (tl t, True)
      else drop_block t)"

lemma drop_block_suffix: "suffix (fst (drop_block t)) t"
  by (induction t rule: drop_block.induct) (auto intro: suffix_ConsI suffix_tl suffix_order.trans)

lemma drop_block_le: "length (fst (drop_block t)) \<le> length t"
  using suffix_length_le [OF drop_block_suffix] .

text \<open>The visible text of a line, whether a comment is open at its end, and the rest.\<close>

function visible :: "string \<Rightarrow> string \<times> bool \<times> string" where
  "visible t0 =
     (case t0 of
        [] \<Rightarrow> ([], False, [])
      | c # t \<Rightarrow>
          if c = nl then ([], False, c # t)
          else if c = sl \<and> first t = Some sl then ([], False, dropWhile (\<lambda>x. x \<noteq> nl) t)
          else if c = sl \<and> first t = Some star then
            (if snd (drop_block (tl t)) then visible (fst (drop_block (tl t)))
             else ([], True, fst (drop_block (tl t))))
          else (let (v, opened, r) = visible t in (c # v, opened, r)))"
  by pat_completeness auto
termination
proof (relation "measure length")
  fix t0 c and t :: string
  assume "t0 = c # t"
  then show "(fst (drop_block (tl t)), t0) \<in> measure length"
    using drop_block_le [of "tl t"] by (simp add: le_less_trans [OF _ le_imp_less_Suc])
qed auto

declare visible.simps [simp del]

definition visible_from :: "bool \<Rightarrow> string \<Rightarrow> string \<times> bool \<times> string" where
  "visible_from in_comment t =
     (if in_comment then
        (if snd (drop_block t) then visible (fst (drop_block t)) else ([], True, fst (drop_block t)))
      else visible t)"

lemma visible_Nil [simp]: "visible [] = ([], False, [])"
  by (simp add: visible.simps [of "[]"])

lemma visible_plain: "c \<noteq> nl \<Longrightarrow> c \<noteq> sl \<or> first t \<noteq> Some sl \<and> first t \<noteq> Some star \<Longrightarrow>
    visible (c # t) = (c # fst (visible t), snd (visible t))"
  by (auto simp: visible.simps [of "c # t"] case_prod_beta)

lemma visible_special:
  "visible (nl # t) = ([], False, nl # t)"
  "first t = Some sl \<Longrightarrow> visible (sl # t) = ([], False, dropWhile (\<lambda>x. x \<noteq> nl) t)"
  "first t = Some star \<Longrightarrow> visible (sl # t) = visible_from True (tl t)"
  by (auto simp: visible.simps [of "nl # t"] visible.simps [of "sl # t"] visible_from_def)

lemma visible_suffix: "suffix (snd (snd (visible t))) t"
proof (induction t rule: visible.induct)
  case (1 t0)
  show ?case
  proof (cases t0)
    case Nil
    then show ?thesis by simp
  next
    case (Cons c t)
    have dw: "suffix (dropWhile P t) t" for P by (rule suffix_dropWhile)
    have db: "suffix (fst (drop_block (tl t))) t" by (rule suffix_order.trans [OF drop_block_suffix suffix_tl])
    from 1(1) [OF Cons] 1(2) [OF Cons] dw db Cons show ?thesis
      by (auto simp: visible.simps [of "c # t"] case_prod_beta Let_def intro: suffix_ConsI suffix_order.trans)
  qed
qed

lemma visible_from_suffix: "suffix (snd (snd (visible_from b t))) t"
  by (simp add: visible_from_def drop_block_suffix visible_suffix suffix_order.trans [OF visible_suffix drop_block_suffix])

function visible_lines :: "bool \<Rightarrow> string \<Rightarrow> string list" where
  "visible_lines in_comment t =
     (if t = [] then []
      else fst (visible_from in_comment t) #
           visible_lines (fst (snd (visible_from in_comment t))) (tl (snd (snd (visible_from in_comment t)))))"
  by pat_completeness auto
termination
proof (relation "measure (\<lambda>(b, t). length t)")
  fix b and t :: string
  assume "t \<noteq> []"
  then show "((fst (snd (visible_from b t)), tl (snd (snd (visible_from b t)))), b, t) \<in> measure (\<lambda>(b, t). length t)"
    using suffix_length_le [OF visible_from_suffix, of b t] by (cases "snd (snd (visible_from b t))") auto
qed simp

declare visible_lines.simps [simp del]

subsection \<open>The cursor sees the joined text\<close>

lemma desplice_Nil [simp]: "desplice [] = []"
  by (simp add: desplice.simps [of "[]"] splice_len_def)

lemma desplice_Cons: "splice_len (c # r) = 0 \<Longrightarrow> desplice (c # r) = c # desplice r"
  by (simp add: desplice.simps [of "c # r"])

lemma desplice_plain [simp]: "c \<noteq> bs \<Longrightarrow> desplice (c # r) = c # desplice r"
  by (rule desplice_Cons) (auto simp: splice_len_def split: list.split)

lemma desplice_splice: "0 < splice_len s \<Longrightarrow> desplice (drop (splice_len s) s) = desplice s"
  by (simp add: desplice.simps [of s])

lemma skip_splices:
  "desplice (skip_splices_from s) = desplice s \<and> splice_len (skip_splices_from s) = 0"
proof (induction s rule: skip_splices_from.induct)
  case (1 s)
  then show ?case
    by (cases "splice_len s = 0") (simp_all add: skip_splices_from.simps [of s] desplice_splice Let_def)
qed

lemma first_desplice: "first (skip_splices_from s) = first (desplice s)"
proof (cases "skip_splices_from s")
  case Nil
  with skip_splices [of s] show ?thesis by simp
next
  case (Cons c r)
  with skip_splices [of s] desplice_Cons [of c r] have "desplice s = c # desplice r" by simp
  with Cons show ?thesis by (simp add: first_def)
qed

lemma peek_loop_rest: "lx_rest (lx_peek_loop l) = skip_splices_from (lx_rest l)"
proof (induction l rule: lx_peek_loop.induct)
  case (1 l)
  then show ?case
    by (cases "splice_len (lx_rest l) = 0")
       (simp_all add: lx_peek_loop.simps [of l] skip_splices_from.simps [of "lx_rest l"] skip_splice_def Let_def)
qed

abbreviation view :: "lexer \<Rightarrow> string" where
  "view l \<equiv> desplice (lx_rest l)"

lemma peek_view: "view (fst (lx_peek l)) = view l"
  by (simp add: lx_peek_def Let_def peek_loop_rest skip_splices)

lemma peek_unspliced: "splice_len (lx_rest (fst (lx_peek l))) = 0"
  by (simp add: lx_peek_def Let_def peek_loop_rest skip_splices)

lemma peek_next_view: "lx_rest l = c # r \<Longrightarrow> lx_peek_next l = first (desplice r)"
  by (simp add: lx_peek_next_def first_desplice)

lemma bump_pair_view: "lx_rest l = c # r \<Longrightarrow> desplice r = d # t \<Longrightarrow> view (bump_pair l) = t"
proof -
  assume a: "lx_rest l = c # r" "desplice r = d # t"
  let ?l = "fst (lx_peek (lx_advance l))"
  have v: "view ?l = d # t" using a by (simp add: peek_view)
  then obtain x y where xy: "lx_rest ?l = x # y" by (cases "lx_rest ?l") auto
  with desplice_Cons [of x y] peek_unspliced [of "lx_advance l"] v have "desplice y = t" by simp
  with xy show ?thesis by (simp add: bump_pair_def)
qed

lemma skip_splice_view: "0 < splice_len (lx_rest l) \<Longrightarrow> view (skip_splice l) = view l"
  by (simp add: skip_splice_def Let_def desplice_splice)

lemma skip_backslash_view:
  assumes "lx_rest l = bs # r"
  shows "view (skip_backslash l) = view l \<or> view l = bs # view (skip_backslash l)"
  using assms desplice_Cons [of bs r] skip_splice_view [of l] by (simp add: skip_backslash_def)

lemma seek_drop_block:
  "drop_block (view (seek3 nl star bs l)) = drop_block (view l)"
proof -
  have "drop_block (desplice (dropWhile (\<lambda>x. x \<noteq> nl \<and> x \<noteq> star \<and> x \<noteq> bs) s)) = drop_block (desplice s)" for s
    by (induction s) auto
  then show ?thesis by (simp add: seek3_def)
qed

lemma seek_line:
  "dropWhile (\<lambda>x. x \<noteq> nl) (view (seek3 nl bs bs l)) = dropWhile (\<lambda>x. x \<noteq> nl) (view l)"
proof -
  have "dropWhile (\<lambda>x. x \<noteq> nl) (desplice (dropWhile (\<lambda>x. x \<noteq> nl \<and> x \<noteq> bs \<and> x \<noteq> bs) s)) =
      dropWhile (\<lambda>x. x \<noteq> nl) (desplice s)" for s
    by (induction s) auto
  then show ?thesis by (simp add: seek3_def)
qed

lemma seek_visible:
  "snd (visible (view (seek3 nl sl bs l))) = snd (visible (view l))"
proof -
  have "snd (visible (desplice (dropWhile (\<lambda>x. x \<noteq> nl \<and> x \<noteq> sl \<and> x \<noteq> bs) s))) = snd (visible (desplice s))" for s
    by (induction s) (auto simp: visible_plain)
  then show ?thesis by (simp add: seek3_def)
qed

lemma seek_found: "lx_rest (seek3 a b c l) = x # r \<Longrightarrow> x = a \<or> x = b \<or> x = c"
  by (auto simp: seek3_def dropWhile_eq_Cons_conv)

subsection \<open>The loops compute the phases\<close>

lemma skip_block_view: "drop_block (view l) = (view (fst (skip_block_comment l)), snd (skip_block_comment l))"
proof (induction l rule: skip_block_comment.induct)
  case (1 l0)
  let ?l = "seek3 nl star bs l0"
  show ?case
  proof (cases "lx_rest ?l")
    case Nil
    with seek_drop_block [of l0] show ?thesis by (simp add: skip_block_comment.simps [of l0])
  next
    case (Cons byte r)
    consider "byte = nl" | "byte = bs" | "byte = star" using seek_found [OF Cons] by blast
    then show ?thesis
    proof cases
      case 1
      with Cons seek_drop_block [of l0] show ?thesis by (simp add: skip_block_comment.simps [of l0])
    next
      case 2
      have "drop_block (view ?l) = drop_block (view (skip_backslash ?l))"
        using skip_backslash_view [of ?l r] Cons 2 by auto
      with 1 [OF refl Cons] Cons 2 seek_drop_block [of l0] show ?thesis by (simp add: skip_block_comment.simps [of l0])
    next
      case 3
      note nx = peek_next_view [OF Cons]
      show ?thesis
      proof (cases "first (desplice r) = Some sl")
        case True
        then obtain t where t: "desplice r = sl # t" by (auto simp: first_Some)
        with Cons 3 seek_drop_block [of l0] nx bump_pair_view [OF Cons t] show ?thesis
          by (simp add: skip_block_comment.simps [of l0] first_def)
      next
        case False
        with Cons 3 seek_drop_block [of l0] nx 1(2) [OF refl Cons] show ?thesis
          by (simp add: skip_block_comment.simps [of l0])
      qed
    qed
  qed
qed

lemma skip_line_view: "view (skip_line_comment l) = dropWhile (\<lambda>x. x \<noteq> nl) (view l)"
proof (induction l rule: skip_line_comment.induct)
  case (1 l0)
  let ?l = "seek3 nl bs bs l0"
  show ?case
  proof (cases "lx_rest ?l")
    case Nil
    with seek_line [of l0] show ?thesis by (simp add: skip_line_comment.simps [of l0])
  next
    case (Cons byte r)
    show ?thesis
    proof (cases "byte = nl")
      case True
      with Cons seek_line [of l0] show ?thesis by (simp add: skip_line_comment.simps [of l0])
    next
      case False
      with seek_found [OF Cons] Cons have b: "lx_rest ?l = bs # r" by auto
      have "dropWhile (\<lambda>x. x \<noteq> nl) (view ?l) = dropWhile (\<lambda>x. x \<noteq> nl) (view (skip_backslash ?l))"
        using skip_backslash_view [OF b] by auto
      with 1 [OF refl Cons False] b seek_line [of l0] show ?thesis by (simp add: skip_line_comment.simps [of l0])
    qed
  qed
qed

text \<open>What happens at a slash, for the two loops that look for comments.\<close>

lemma slash_view:
  assumes "lx_rest l = sl # r"
  shows "lx_peek_next l = Some sl \<Longrightarrow> visible (view l) = ([], False, view (skip_line_comment l))"
    and "lx_peek_next l = Some star \<Longrightarrow> visible (view l) =
      (let (l', closed) = skip_block_comment (bump_pair l)
       in if closed then visible (view l') else ([], True, view l'))"
    and "lx_peek_next l \<noteq> Some sl \<Longrightarrow> lx_peek_next l \<noteq> Some star \<Longrightarrow>
      visible (view l) = (sl # fst (visible (view (lx_advance l))), snd (visible (view (lx_advance l))))"
proof -
  note nx = peek_next_view [OF assms]
  have v: "view l = sl # desplice r" by (simp add: assms)
  show "visible (view l) = ([], False, view (skip_line_comment l))" if "lx_peek_next l = Some sl"
    using that v nx visible_special(2) [of "desplice r"] by (simp add: skip_line_view)
  show "visible (view l) =
      (let (l', closed) = skip_block_comment (bump_pair l)
       in if closed then visible (view l') else ([], True, view l'))" if "lx_peek_next l = Some star"
  proof -
    from that nx obtain t where t: "desplice r = star # t" by (auto simp: first_Some)
    with v visible_special(3) [of "desplice r"] bump_pair_view [OF assms t] skip_block_view [of "bump_pair l"]
    show ?thesis by (simp add: first_def visible_from_def case_prod_beta)
  qed
  show "visible (view l) = (sl # fst (visible (view (lx_advance l))), snd (visible (view (lx_advance l))))"
    if "lx_peek_next l \<noteq> Some sl" "lx_peek_next l \<noteq> Some star"
    using that v nx visible_plain [of sl "desplice r"] assms by simp
qed

lemma skip_rest_view: "snd (visible (view l)) = (snd (skip_rest_of_line l), view (fst (skip_rest_of_line l)))"
proof (induction l rule: skip_rest_of_line.induct)
  case (1 l0)
  let ?l = "seek3 nl sl bs l0"
  show ?case
  proof (cases "lx_rest ?l")
    case Nil
    with seek_visible [of l0] show ?thesis by (simp add: skip_rest_of_line.simps [of l0])
  next
    case (Cons byte r)
    consider (nl) "byte = nl" | (bs) "byte = bs" | (sl) "byte = sl" using seek_found [OF Cons] by blast
    then show ?thesis
    proof cases
      case nl
      with Cons seek_visible [of l0] show ?thesis by (simp add: skip_rest_of_line.simps [of l0] visible_special)
    next
      case bs
      have "snd (visible (view ?l)) = snd (visible (view (skip_backslash ?l)))"
        using skip_backslash_view [of ?l r] Cons bs by (auto simp: visible_plain)
      with 1(1) [OF refl Cons] Cons bs seek_visible [of l0] show ?thesis by (simp add: skip_rest_of_line.simps [of l0])
    next
      case sl
      with Cons have c: "lx_rest ?l = CHR ''/'' # r" by simp
      obtain l' closed where p: "skip_block_comment (bump_pair ?l) = (l', closed)" by fastforce
      from slash_view [OF c] 1(2) [OF refl Cons _ _ _ _ p [symmetric] refl] 1(3) [OF refl Cons] sl c p
      show ?thesis unfolding seek_visible [of l0, symmetric] by (auto simp: skip_rest_of_line.simps [of l0] Let_def)
    qed
  qed
qed

lemma collect_view:
  "collect_directive l out = (l', out', opened) \<Longrightarrow> \<exists>v. visible (view l) = (v, opened, view l') \<and> out' = out @ v"
proof (induction l out arbitrary: l' out' opened rule: collect_directive.induct)
  case (1 l0 out)
  let ?l = "fst (lx_peek l0)"
  note pv = peek_view [of l0]
  show ?case
  proof (cases "lx_rest ?l")
    case Nil
    with pv 1(4) show ?thesis by (auto simp: collect_directive.simps [of l0] Let_def)
  next
    case (Cons byte r)
    have v: "view l0 = byte # desplice r" using desplice_Cons [of byte r] peek_unspliced [of l0] Cons pv by simp
    obtain l1 closed where p: "skip_block_comment (bump_pair ?l) = (l1, closed)" by fastforce
    consider (nl) "byte = nl" | (sl) "byte = sl" | (other) "byte \<noteq> nl" "byte \<noteq> sl" by blast
    then show ?thesis
    proof cases
      case nl
      with Cons v 1(4) show ?thesis
        by (auto simp: collect_directive.simps [of l0] Let_def visible_special)
    next
      case sl
      with Cons have c: "lx_rest ?l = CHR ''/'' # r" by simp
      from slash_view [OF c] 1(1) [OF refl Cons _ _ _ _ p [symmetric] refl] 1(2) [OF refl Cons] 1(4) sl c p pv
      show ?thesis by (fastforce simp: collect_directive.simps [of l0] Let_def split: if_splits)
    next
      case other
      with 1(3) [OF refl Cons] 1(4) Cons v visible_plain [of byte "desplice r"] show ?thesis
        by (fastforce simp: collect_directive.simps [of l0] Let_def)
    qed
  qed
qed


lemma line_start_view:
  "line_start l b = (l', c, k) \<Longrightarrow>
     suffix (view l') (view l) \<and>
     (\<exists>ws. list_all blank ws \<and>
       (if k = EmptyLine then visible_from b (view l) = (ws, c, view l')
        else visible_from b (view l) = (ws @ fst (visible (view l')), snd (visible (view l'))) \<and>
          (\<exists>x r. lx_rest l' = x # r \<and> splice_len (x # r) = 0 \<and> x \<noteq> nl \<and> \<not> blank x \<and> \<not> (x = sl \<and> first (desplice r) = Some star) \<and>
            (k = OtherLine \<longrightarrow> x \<noteq> CHR ''#'' \<or> \<not> hash_may_start_include l'))))"
proof (induction l b arbitrary: l' c k rule: line_start.induct)
  case (1 l0 b)
  show ?case
  proof (cases b)
    case True
    obtain l closed where p: "skip_block_comment l0 = (l, closed)" by fastforce
    have db: "drop_block (view l0) = (view l, closed)" using skip_block_view [of l0] p by simp
    show ?thesis
    proof (cases closed)
      case closed: True
      with db have vf: "visible_from b (view l0) = visible_from False (view l)" by (simp add: visible_from_def True)
      have "suffix (view l) (view l0)" using drop_block_suffix [of "view l0"] db by simp
      with 1(1) [OF True p [symmetric] refl closed, of l' c k] 1(4) p closed True show ?thesis
        unfolding vf by (simp add: line_start.simps [of l0]) (blast intro: suffix_order.trans)
    next
      case False
      with 1(4) p True db drop_block_suffix [of "view l0"] show ?thesis
        by (auto simp: line_start.simps [of l0] visible_from_def intro!: exI [of _ "[]"])
    qed
  next
    case False
    let ?l = "fst (lx_peek l0)"
    show ?thesis
    proof (cases "lx_rest ?l")
      case Nil
      with False 1(4) peek_view [of l0] show ?thesis
        by (auto simp: line_start.simps [of l0] visible_from_def Let_def intro!: exI [of _ "[]"])
    next
      case (Cons byte r)
      have u: "splice_len (byte # r) = 0" using peek_unspliced [of l0] Cons by simp
      have v: "view l0 = byte # desplice r" using desplice_Cons [OF u] Cons peek_view [of l0] by simp
      have vl: "view ?l = view l0" by (rule peek_view)
      consider (nl) "byte = nl" | (blank) "byte \<noteq> nl" "blank byte"
        | (cmt) "byte = sl" "lx_peek_next ?l = Some star" "\<not> blank byte" "byte \<noteq> nl"
        | (sig) "byte \<noteq> nl" "\<not> blank byte" "\<not> (byte = sl \<and> lx_peek_next ?l = Some star)" by blast
      then show ?thesis
      proof cases
        case nl
        with False 1(4) Cons v vl show ?thesis
          by (auto simp: line_start.simps [of l0] visible_from_def Let_def visible_special intro!: exI [of _ "[]"])
      next
        case blank
        then have "byte \<noteq> sl" by (auto simp: blank_def)
        with blank have eq: "visible_from b (view l0) =
            (byte # fst (visible_from False (desplice r)), snd (visible_from False (desplice r)))"
          using v visible_plain [of byte "desplice r"] False by (simp add: visible_from_def)
        have ls: "line_start (lx_advance ?l) False = (l', c, k)"
          using 1(4) blank False Cons by (simp add: line_start.simps [of l0] Let_def)
        have va: "view (lx_advance ?l) = desplice r" using Cons by simp
        from 1(2) [OF False refl Cons blank(1,2) ls, unfolded va] obtain ws where "suffix (view l') (desplice r)" "list_all blank ws"
            "if k = EmptyLine then visible_from False (desplice r) = (ws, c, view l')
             else visible_from False (desplice r) = (ws @ fst (visible (view l')), snd (visible (view l'))) \<and>
               (\<exists>x r. lx_rest l' = x # r \<and> splice_len (x # r) = 0 \<and> x \<noteq> nl \<and> \<not> blank x \<and> \<not> (x = sl \<and> first (desplice r) = Some star) \<and>
                 (k = OtherLine \<longrightarrow> x \<noteq> CHR ''#'' \<or> \<not> hash_may_start_include l'))" by (elim conjE exE)
        with eq v blank(2) show ?thesis
          by (intro conjI exI [of _ "byte # ws"]) (simp_all add: suffix_ConsI split: if_splits)
      next
        case cmt
        then obtain t where t: "desplice r = star # t" using peek_next_view [OF Cons] by (auto simp: first_Some)
        have "visible_from b (view l0) = visible_from True (view (bump_pair ?l))"
          using v cmt(1) visible_special(3) [of "desplice r"] t False bump_pair_view [OF Cons t]
          by (simp add: visible_from_def [of False] first_def)
        moreover have "line_start (bump_pair ?l) True = (l', c, k)"
          using 1(4) cmt False Cons by (simp add: line_start.simps [of l0] Let_def)
        moreover have "suffix (view (bump_pair ?l)) (view l0)"
          using bump_pair_view [OF Cons t] v t by (simp add: suffix_ConsI)
        ultimately show ?thesis
          using 1(3) [OF False refl Cons cmt(4,3), of l' c k] cmt by (auto intro: suffix_order.trans)
      next
        case sig
        with 1(4) False Cons have "l' = ?l" "\<not> c" "k \<noteq> EmptyLine"
          "k = OtherLine \<longrightarrow> byte \<noteq> CHR ''#'' \<or> \<not> hash_may_start_include ?l"
          by (auto simp: line_start.simps [of l0] Let_def split: if_splits)
        with Cons u vl sig False peek_next_view [OF Cons] show ?thesis
          by (auto simp: visible_from_def intro!: exI [of _ "[]"])
      qed
    qed
  qed
qed


subsection \<open>Lines that cannot be an include\<close>

lemma str_trim_ws: "is_whitespace x \<Longrightarrow> str_trim (x # v) = str_trim v"
  by (simp add: str_trim_def trim_space_ws)

lemma str_trim_Nil [simp]: "str_trim [] = []"
  by (simp add: str_trim_def)

text \<open>Without wide white space only the ASCII characters are trimmed.\<close>

lemma str_trim_solid:
  "no_wide_space (x # v) \<Longrightarrow> \<not> is_whitespace x \<Longrightarrow> str_trim (x # v) = x # rev (dropWhile is_whitespace (rev v))"
  by (auto simp: str_trim_plain dropWhile_append)

definition ascii_rtrim :: "string \<Rightarrow> string" where
  "ascii_rtrim v = rev (dropWhile is_whitespace (rev v))"

lemma ascii_rtrim_part: "sublist (ascii_rtrim v) v"
proof -
  have "sublist (dropWhile is_whitespace (rev v)) (rev v)" by (simp add: suffix_dropWhile suffix_imp_sublist)
  then show ?thesis unfolding ascii_rtrim_def by (metis rev_rev_ident sublist_rev)
qed

lemma dropWhile_twice: "dropWhile P (dropWhile P w) = dropWhile P w"
  by (induction w) auto

lemma str_trim_rtrim: "no_wide_space v \<Longrightarrow> str_trim (ascii_rtrim v) = str_trim v"
proof (induction v)
  case (Cons x v)
  note n = no_wide_part [OF Cons.prems ascii_rtrim_part]
  have nv: "no_wide_space v" by (rule no_wide_part [OF Cons.prems]) (simp add: sublist_Cons_right)
  show ?case
  proof (cases "is_whitespace x \<and> dropWhile is_whitespace (rev v) = []")
    case True
    then have "str_trim v = []" by (metis Cons.IH [OF nv] ascii_rtrim_def rev.simps(1) str_trim_Nil)
    with True show ?thesis by (simp add: str_trim_ws dropWhile_append ascii_rtrim_def)
  next
    case False
    then have e: "ascii_rtrim (x # v) = x # ascii_rtrim v"
      by (auto simp: dropWhile_append ascii_rtrim_def)
    with Cons.IH [OF nv] n Cons.prems show ?thesis
      by (cases "is_whitespace x") (simp_all add: str_trim_ws str_trim_solid, simp add: ascii_rtrim_def dropWhile_twice)
  qed
qed (simp add: ascii_rtrim_def)

lemma blank_whitespace: "blank c \<Longrightarrow> is_whitespace c"
  by (auto simp: blank_def is_whitespace_def)

lemma whitespace_blank: "is_whitespace c \<Longrightarrow> c = nl \<or> blank c"
proof -
  assume "is_whitespace c"
  then have "of_char c \<in> {9, 10, 11, 12, 13, 32 :: nat}" by (auto simp: is_whitespace_def Let_def)
  moreover have "of_char (CHR 0x09) = (9::nat)" "of_char nl = (10::nat)" "of_char (CHR 0x0B) = (11::nat)"
    "of_char (CHR 0x0C) = (12::nat)" "of_char cr = (13::nat)" "of_char (CHR '' '') = (32::nat)" by simp_all
  ultimately show ?thesis unfolding blank_def insert_iff by (metis empty_iff of_char_eq_iff)
qed

lemma parse_leading_blanks: "list_all blank ws \<Longrightarrow> parse_include_from_line wide (ws @ v) = parse_include_from_line wide v"
proof -
  assume "list_all blank ws"
  then have "str_trim (ws @ v) = str_trim v"
    by (induction ws) (simp_all add: str_trim_ws blank_whitespace)
  then show ?thesis by (simp add: parse_include_from_line_def)
qed

lemma parse_Nil [simp]: "parse_include_from_line wide [] = None"
  by (simp add: parse_include_from_line_def strip_prefix_def)

lemma parse_not_hash:
  "no_wide_space (x # v) \<Longrightarrow> \<not> is_whitespace x \<Longrightarrow> x \<noteq> CHR ''#'' \<Longrightarrow> parse_include_from_line wide (x # v) = None"
  by (simp add: parse_include_from_line_def str_trim_solid strip_prefix_def)

lemma parse_hash_other:
  assumes "no_wide_space (CHR ''#'' # v)" and "first (str_trim v) \<noteq> Some (CHR ''i'')"
  shows "parse_include_from_line wide (CHR ''#'' # v) = None"
proof -
  have "no_wide_space v" by (rule no_wide_part [OF assms(1)]) (simp add: sublist_Cons_right)
  from str_trim_rtrim [OF this] have "str_trim (rev (dropWhile is_whitespace (rev v))) = str_trim v" by (simp add: ascii_rtrim_def)
  moreover have "\<not> is_whitespace (CHR ''#'')" by (simp add: is_whitespace_def)
  moreover have "strip_prefix ''include_next'' (str_trim v) = None" "strip_prefix ''include'' (str_trim v) = None"
    using assms(2) by (cases "str_trim v"; simp add: strip_prefix_def first_def)+
  ultimately show ?thesis
    using assms(1) by (simp add: parse_include_from_line_def str_trim_solid strip_prefix_def [of "''#''"] Let_def)
qed

text \<open>Carriage returns only end lines.\<close>

fun crlf_ok :: "string \<Rightarrow> bool" where
  "crlf_ok [] = True"
| "crlf_ok (c # t) = ((c = cr \<longrightarrow> first t = Some nl) \<and> crlf_ok t)"

lemma crlf_suffix: "suffix s t \<Longrightarrow> crlf_ok t \<Longrightarrow> crlf_ok s"
proof -
  have "crlf_ok (p @ s) \<Longrightarrow> crlf_ok s" for p by (induction p) auto
  then show "suffix s t \<Longrightarrow> crlf_ok t \<Longrightarrow> ?thesis" by (auto simp: suffix_def)
qed

lemma filter_sound:
  assumes "\<not> hash_may_start_include l" "lx_rest l = CHR ''#'' # r" "crlf_ok (desplice r)"
    and plain: "no_wide_space (fst (visible (view l)))"
  shows "parse_include_from_line wide (fst (visible (view l))) = None"
proof -
  have other: "first (str_trim (fst (visible (desplice r)))) \<noteq> Some (CHR ''i'')"
    if "case dropWhile (\<lambda>c. c = CHR '' '' \<or> c = CHR 0x09 \<or> c = CHR 0x0B \<or> c = CHR 0x0C) r of
        [] \<Rightarrow> True | byte # _ \<Rightarrow> byte \<noteq> CHR ''i'' \<and> byte \<noteq> sl \<and> byte \<noteq> bs" "crlf_ok (desplice r)" "no_wide_space (fst (visible (desplice r)))" for r
    using that
  proof (induction r)
    case Nil
    then show ?case by (simp add: first_def)
  next
    case (Cons c r)
    show ?case
    proof (cases "c = CHR '' '' \<or> c = CHR 0x09 \<or> c = CHR 0x0B \<or> c = CHR 0x0C")
      case True
      then have "is_whitespace c" "desplice (c # r) = c # desplice r" "visible (c # desplice r) = (c # fst (visible (desplice r)), snd (visible (desplice r)))"
        by (auto simp: is_whitespace_def visible_plain)
      with Cons True no_wide_part [OF Cons.prems(3), of "fst (visible (desplice r))"] show ?thesis
        by (simp add: str_trim_ws sublist_Cons_right)
    next
      case False
      with Cons.prems(1) have c: "c \<noteq> CHR ''i''" "c \<noteq> sl" "c \<noteq> bs" by auto
      show ?thesis
      proof (cases "c = nl")
        case True
        then show ?thesis by (simp add: visible_special first_def)
      next
        case nnl: False
        then have v: "visible (desplice (c # r)) = (c # fst (visible (desplice r)), snd (visible (desplice r)))"
          using c by (simp add: visible_plain)
        show ?thesis
        proof (cases "is_whitespace c")
          case True
          with whitespace_blank [OF True] nnl False have "c = cr" by (auto simp: blank_def)
          with Cons.prems(2) c(3) obtain t where "desplice r = nl # t" by (auto simp: first_Some)
          with v True show ?thesis by (simp add: visible_special str_trim_ws first_def)
        next
          case False
          with v c(1) Cons.prems(3) show ?thesis by (simp add: str_trim_solid first_def)
        qed
      qed
    qed
  qed
  have v: "view l = CHR ''#'' # desplice r" "visible (CHR ''#'' # desplice r) = (CHR ''#'' # fst (visible (desplice r)), snd (visible (desplice r)))"
    by (simp_all add: assms(2) visible_plain)
  with plain have p: "no_wide_space (CHR ''#'' # fst (visible (desplice r)))" by simp
  then have "no_wide_space (fst (visible (desplice r)))" by (rule no_wide_part) (simp add: sublist_Cons_right)
  then have "first (str_trim (fst (visible (desplice r)))) \<noteq> Some (CHR ''i'')"
    by (intro other [OF _ assms(3)])
       (use assms(1) in \<open>simp_all add: hash_may_start_include_def assms(2) del: dropWhile_eq_Nil_conv split: list.split_asm\<close>)
  with p v show ?thesis by (simp add: parse_hash_other)
qed


subsection \<open>The scan computes the phases\<close>

lemma parse_line0: "parse_include_from_line wide v = Some d \<Longrightarrow> id_line d = 0"
  by (auto simp: parse_include_from_line_def Let_def split: option.splits if_splits prod.splits)

definition unnumbered :: "include_directive \<Rightarrow> include_directive" where
  "unnumbered d = d\<lparr>id_line := 0\<rparr>"

lemma line_end_view:
  assumes "line_end (lx_rest l)"
  shows "(case lx_peek l of (l3, byte) \<Rightarrow>
      view (if byte = Some nl then (lx_advance l3)\<lparr>lx_line := lx_line l3 + 1\<rparr> else l3)) = tl (view l)"
  using assms by (cases "lx_rest l") (simp_all add: lx_peek_def line_end_peek first_def)

lemma scan_line_view:
  assumes s: "scan_line wide l b = (l', c, ds)" and ok: "crlf_ok (view l)"
    and v: "visible_from b (view l) = (v, opened, r)" and plain: "no_wide_space v"
  shows "c = opened" "view l' = tl r"
    "map unnumbered ds = (case parse_include_from_line wide v of Some d \<Rightarrow> [d] | None \<Rightarrow> [])"
proof -
  obtain l1 c1 k where ls: "line_start l b = (l1, c1, k)" by (cases "line_start l b") auto
  obtain l2 c2 ds2 where l2: "line_body wide (lx_line l) l1 c1 k = (l2, c2, ds2)" by (metis prod_cases3)
  from line_start_view [OF ls] obtain ws where suf: "suffix (view l1) (view l)" and ws: "list_all blank ws"
    and vis: "if k = EmptyLine then visible_from b (view l) = (ws, c1, view l1)
        else visible_from b (view l) = (ws @ fst (visible (view l1)), snd (visible (view l1))) \<and>
          (\<exists>x r. lx_rest l1 = x # r \<and> splice_len (x # r) = 0 \<and> x \<noteq> nl \<and> \<not> blank x \<and> \<not> (x = sl \<and> first (desplice r) = Some star) \<and>
            (k = OtherLine \<longrightarrow> x \<noteq> CHR ''#'' \<or> \<not> hash_may_start_include l1))" by (elim conjE exE)
  note ok1 = crlf_suffix [OF suf ok]
  have main: "c2 = opened \<and> view l2 = r \<and> line_end (lx_rest l2) \<and>
      map unnumbered ds2 = (case parse_include_from_line wide v of Some d \<Rightarrow> [d] | None \<Rightarrow> [])"
  proof (cases k)
    case EmptyLine
    with l2 ls vis v ws line_start_empty [of l b] parse_leading_blanks [OF ws, where v = "[]"] show ?thesis by (simp add: line_body_def)
  next
    case OtherLine
    then obtain x t where x: "lx_rest l1 = x # t" "splice_len (x # t) = 0" "x \<noteq> nl" "\<not> blank x"
      "\<not> (x = sl \<and> first (desplice t) = Some star)" "x \<noteq> CHR ''#'' \<or> \<not> hash_may_start_include l1" using vis by auto
    have "v = ws @ fst (visible (view l1))" using vis v OtherLine by simp
    then have p: "no_wide_space (fst (visible (view l1)))" using no_wide_part [OF plain] by simp
    have nw: "\<not> is_whitespace x" using whitespace_blank [of x] x(3,4) by blast
    have "view l1 = x # desplice t" using x(1,2) by (simp add: desplice_Cons)
    moreover have "parse_include_from_line wide (fst (visible (view l1))) = None"
    proof (cases "x = CHR ''#''")
      case True
      with filter_sound [of l1 t] x ok1 p calculation show ?thesis by simp
    next
      case False
      have "fst (visible (x # desplice t)) = [] \<or> (\<exists>w. fst (visible (x # desplice t)) = x # w)"
        using x(3,5) visible_plain [of x "desplice t"] visible_special(2) [of "desplice t"] by fastforce
      with calculation False nw p show ?thesis by (auto simp: parse_not_hash)
    qed
    ultimately show ?thesis
      using l2 OtherLine vis v ws skip_rest_view [of l1] skip_rest_line_end [of l1] parse_leading_blanks [OF ws]
      by (auto simp: line_body_def case_prod_beta)
  next
    case IncludeCandidate
    obtain l3 d c3 where "collect_directive l1 [] = (l3, d, c3)" by (metis prod_cases3)
    with l2 IncludeCandidate have "collect_directive l1 [] = (l2, d, c2)" by (simp add: line_body_def)
    with collect_view [OF this] collect_line_end [of l1 "[]"] l2 IncludeCandidate vis v parse_leading_blanks [OF ws] parse_line0
    show ?thesis by (auto simp: line_body_def unnumbered_def split: option.splits)
  qed
  with s ls l2 line_end_view [of l2] show "c = opened" "view l' = tl r"
    "map unnumbered ds = (case parse_include_from_line wide v of Some d \<Rightarrow> [d] | None \<Rightarrow> [])"
    by (auto simp: scan_line_def case_prod_beta Let_def)
qed


lemma visible_from_Nil: "fst (visible_from b []) = []" "snd (snd (visible_from b [])) = []"
  by (simp_all add: visible_from_def)

lemma scan_loop_view:
  "crlf_ok (view l) \<Longrightarrow> list_all no_wide_space (visible_lines b (view l)) \<Longrightarrow>
     map unnumbered (scan_loop wide l b) = List.map_filter (parse_include_from_line wide) (visible_lines b (view l))"
proof (induction wide l b rule: scan_loop.induct)
  case (1 wide l b)
  show ?case
  proof (cases "lx_rest l = []")
    case True
    then show ?thesis by (simp add: scan_loop.simps [of _ l] visible_lines.simps [of b "[]"] List.map_filter_def)
  next
    case False
    obtain l' c ds where s: "scan_line wide l b = (l', c, ds)" by (metis prod_cases3)
    obtain v opened r where v: "visible_from b (view l) = (v, opened, r)" by (metis prod_cases3)
    have p: "no_wide_space v \<and> list_all no_wide_space (visible_lines opened (tl r))"
    proof (cases "view l = []")
      case True
      with v visible_from_Nil [of b] have "v = []" "r = []" by auto
      then show ?thesis by (simp add: visible_lines.simps [of _ "[]"] ascii_no_wide)
    qed (use 1(3) v in \<open>simp add: visible_lines.simps [of b "view l"]\<close>)
    note S = scan_line_view [OF s 1(2) v conjunct1 [OF p]]
    have "suffix r (view l)" using visible_from_suffix [of b "view l"] v by simp
    then have "crlf_ok (view l')" using crlf_suffix [OF suffix_order.trans [OF suffix_tl] 1(2)] S(2) by metis
    from 1(1) [OF False s [symmetric] refl refl this] p S(1,2)
    have IH: "map unnumbered (scan_loop wide l' c) = List.map_filter (parse_include_from_line wide) (visible_lines c (view l'))" by simp
    have loop: "map unnumbered (scan_loop wide l b) = (case parse_include_from_line wide v of Some d \<Rightarrow> [d] | None \<Rightarrow> []) @
        List.map_filter (parse_include_from_line wide) (visible_lines opened (tl r))"
      using False s S IH by (simp add: scan_loop.simps [of _ l])
    show ?thesis
    proof (cases "view l = []")
      case True
      with v visible_from_Nil [of b] have "v = []" "r = []" by auto
      then show ?thesis
        unfolding loop True by (simp add: visible_lines.simps [of _ "[]"] List.map_filter_def)
    next
      case ne: False
      then show ?thesis
        unfolding loop by (simp add: visible_lines.simps [of b "view l"] v List.map_filter_def split: option.split)
    qed
  qed
qed

definition strip_bom :: "string \<Rightarrow> string" where
  "strip_bom s = (case strip_prefix [CHR 0xEF, CHR 0xBB, CHR 0xBF] s of Some t \<Rightarrow> t | None \<Rightarrow> s)"

text \<open>
  C12. The single-pass scanner refines the translation phases: on every source whose carriage returns
  only end lines and whose visible text (what is left after removing comments) has no white space
  character beyond ASCII, it finds exactly the directives obtained by dropping a byte-order mark,
  joining continued lines, removing comments, splitting into lines and parsing each line, whichever
  characters beyond ASCII count as alphanumeric.
\<close>

theorem scanner_refines_phases:
  assumes "crlf_ok (desplice (strip_bom source))"
    and "list_all no_wide_space (visible_lines False (desplice (strip_bom source)))"
  shows "map unnumbered (scan_directives wide source) =
    List.map_filter (parse_include_from_line wide) (visible_lines False (desplice (strip_bom source)))"
  using scan_loop_view [of "\<lparr> lx_rest = strip_bom source, lx_line = 1 \<rparr>" False wide] assms
  by (simp add: scan_directives_def strip_bom_def)

definition demo_source :: string where
  "demo_source = ''#include <a.h> /* x'' @ [CHR 0xC2, CHR 0xA0, nl] @ ''y */ #inc'' @ [bs, nl] @ ''lude '' @ [CHR 0x22] @ ''b.h'' @
     [CHR 0x22, cr, nl] @ ''#include X'' @ [CHR 0xC3, CHR 0xA9, nl] @ ''int z;''"

theorem scanner_refines_phases_witness:
  "map unnumbered (scan_directives (\<lambda>ch. ch = [CHR 0xC3, CHR 0xA9]) demo_source) =
     [\<lparr> id_kind = AngleBracket, id_path = ''a.h'', id_line = 0 \<rparr>, \<lparr> id_kind = Quoted, id_path = ''b.h'', id_line = 0 \<rparr>,
      \<lparr> id_kind = Computed [CHR ''X'', CHR 0xC3, CHR 0xA9], id_path = [CHR ''X'', CHR 0xC3, CHR 0xA9], id_line = 0 \<rparr>]"
proof -
  have "crlf_ok (desplice (strip_bom demo_source))"
    "list_all no_wide_space (visible_lines False (desplice (strip_bom demo_source)))" by code_simp+
  from scanner_refines_phases [OF this, of "\<lambda>ch. ch = [CHR 0xC3, CHR 0xA9]"] show ?thesis by (simp only:) code_simp
qed

text \<open>
  The condition on white space is needed.  With a no-break space behind the hash sign, the filter in front
  of the parser drops the line, although the parser itself, which trims the white space of Unicode, reads
  an include from it.
\<close>

definition wide_space_line :: string where
  "wide_space_line = ''#'' @ [CHR 0xC2, CHR 0xA0] @ ''include <a.h>''"

lemma wide_space_hides_include:
  "scan_directives wide wide_space_line = [] \<and> parse_include_from_line wide wide_space_line \<noteq> None"
proof
  show "scan_directives wide wide_space_line = []" unfolding wide_space_line_def by code_simp
  show "parse_include_from_line wide wide_space_line \<noteq> None" unfolding wide_space_line_def by code_simp
qed

end
