(* ===== verification/IncludeScan.thy ===== *)
theory IncludeScan
  imports ContextKeys IncludeLexer Metadata
begin

text \<open>
  The recursive include scan (\<^verbatim>\<open>crates/zccache-depgraph/src/scanner.rs\<close>): the resolution
  of a directive along the search path, the memo of parsed directives, and the breadth-first scan in
  which the files of one frontier are worked on in parallel over a shared set of visited paths.

  The file system is an argument: what \<^verbatim>\<open>is_file\<close>, \<^verbatim>\<open>canonicalize\<close>,
  \<^verbatim>\<open>read_to_string\<close> and \<^verbatim>\<open>metadata\<close> return while the scan runs; with it goes the standard library's
  table of the characters beyond ASCII that are alphanumeric.  A parallel scan is a
  sequence of small steps of its workers; which worker moves next is the schedule, and the scan in
  frontier order is the schedule that always picks the first worker that can move.  The batches a
  worker pushes at its end are one step.
\<close>

subsection \<open>Files and resolution\<close>

record file_system =
  fs_is_file :: "string \<Rightarrow> bool"
  fs_canonicalize :: "string \<Rightarrow> string option"
  fs_read :: "string \<Rightarrow> string option"
  fs_metadata :: "string \<Rightarrow> (nat \<times> systime option) option"
  fs_wide_alphanumeric :: "string \<Rightarrow> bool"

definition scan_includes_str :: "(string \<Rightarrow> bool) \<Rightarrow> string \<Rightarrow> include_directive list" where
  "scan_includes_str wide source = scan_directives wide source"

definition scan_includes :: "file_system \<Rightarrow> string \<Rightarrow> include_directive list option" where
  "scan_includes fs path = map_option (scan_includes_str (fs_wide_alphanumeric fs)) (fs_read fs path)"

definition try_normalize :: "file_system \<Rightarrow> string \<Rightarrow> npath option" where
  "try_normalize fs path = map_option Paths.normalize (fs_canonicalize fs path)"

definition scan_normalize :: "file_system \<Rightarrow> string \<Rightarrow> npath" where
  "scan_normalize fs path = (case try_normalize fs path of Some p \<Rightarrow> p | None \<Rightarrow> Paths.normalize path)"

fun find_in_dirs :: "file_system \<Rightarrow> string \<Rightarrow> npath list \<Rightarrow> npath option" where
  "find_in_dirs fs path [] = None"
| "find_in_dirs fs path (dir # dirs) =
     (let candidate = path_join dir path
      in if fs_is_file fs candidate then Some (scan_normalize fs candidate) else find_in_dirs fs path dirs)"

text \<open>The search root of the including file: the deepest search directory above it, the first of several as deep.\<close>

fun deepest :: "(nat \<times> nat) list \<Rightarrow> (nat \<times> nat) option \<Rightarrow> (nat \<times> nat) option" where
  "deepest [] best = best"
| "deepest (candidate # cs) best =
     deepest cs (case best of
                   Some (i, best_depth) \<Rightarrow> if snd candidate \<le> best_depth then best else Some candidate
                 | None \<Rightarrow> Some candidate)"

definition current_root :: "file_system \<Rightarrow> npath list \<Rightarrow> npath \<Rightarrow> nat option" where
  "current_root fs dirs including_dir =
     map_option fst
       (deepest
          (List.map_filter
             (\<lambda>(index, dir). case try_normalize fs dir of
                 None \<Rightarrow> None
               | Some normalized \<Rightarrow>
                   if path_starts_with including_dir normalized
                   then Some (index, length (path_components normalized)) else None)
             (enumerate 0 dirs))
          None)"

definition resolve_include_next :: "file_system \<Rightarrow> string \<Rightarrow> npath list \<Rightarrow> string \<Rightarrow> npath option" where
  "resolve_include_next fs path dirs including_file_dir =
     (case try_normalize fs including_file_dir of
        None \<Rightarrow> None
      | Some including_dir \<Rightarrow>
          (let start = (case current_root fs dirs including_dir of None \<Rightarrow> 0 | Some index \<Rightarrow> index + 1)
           in find_in_dirs fs path (drop start dirs)))"

definition resolve_include ::
    "file_system \<Rightarrow> include_directive \<Rightarrow> include_search_paths \<Rightarrow> string \<Rightarrow> npath option" where
  "resolve_include fs directive search including_file_dir =
     (case id_kind directive of
        Quoted \<Rightarrow>
          (let candidate = path_join including_file_dir (id_path directive)
           in if fs_is_file fs candidate then Some (scan_normalize fs candidate)
              else find_in_dirs fs (id_path directive) (quoted_search_dirs search))
      | AngleBracket \<Rightarrow> find_in_dirs fs (id_path directive) (angle_search_dirs search)
      | QuotedNext \<Rightarrow> resolve_include_next fs (id_path directive) (quoted_search_dirs search) including_file_dir
      | AngleBracketNext \<Rightarrow> resolve_include_next fs (id_path directive) (angle_search_dirs search) including_file_dir
      | Computed _ \<Rightarrow> None)"

text \<open>\<^verbatim>\<open>Path::parent\<close>.\<close>

definition path_parent :: "string \<Rightarrow> string option" where
  "path_parent p =
     (let cs = path_components p
      in if cs = [] \<or> last cs = RootDir then None else Some (collect_path (butlast cs)))"

subsection \<open>The memo of parsed directives\<close>

record cached_directives =
  cd_size :: nat
  cd_mtime :: "systime option"
  cd_directives :: "include_directive list"

record recursive_scan_cache =
  rc_directives :: "(npath, cached_directives) dmap"
  rc_parses :: u64

definition scan_cache_new :: recursive_scan_cache where
  "scan_cache_new = \<lparr> rc_directives = [], rc_parses = 0 \<rparr>"

definition scan_cache_len :: "recursive_scan_cache \<Rightarrow> nat" where
  "scan_cache_len c = length (rc_directives c)"

definition scan_cache_is_empty :: "recursive_scan_cache \<Rightarrow> bool" where
  "scan_cache_is_empty c \<longleftrightarrow> rc_directives c = []"

definition scan_cache_clear :: "recursive_scan_cache \<Rightarrow> recursive_scan_cache" where
  "scan_cache_clear c = c\<lparr>rc_directives := []\<rparr>"

definition get_or_scan ::
    "file_system \<Rightarrow> recursive_scan_cache \<Rightarrow> string \<Rightarrow> recursive_scan_cache \<times> include_directive list option" where
  "get_or_scan fs c file =
     (let key = Paths.normalize file;
          drop_entry = c\<lparr>rc_directives := dm_remove key (rc_directives c)\<rparr>;
          parse = (\<lambda>sz mtime.
            case scan_includes fs file of
              Some directives \<Rightarrow>
                (\<lparr> rc_directives =
                     dm_insert key \<lparr> cd_size = sz, cd_mtime = mtime, cd_directives = directives \<rparr> (rc_directives c),
                   rc_parses = u64_succ (rc_parses c) \<rparr>, Some directives)
            | None \<Rightarrow> (drop_entry, None))
      in case fs_metadata fs file of
           None \<Rightarrow> (drop_entry, None)
         | Some (sz, mtime) \<Rightarrow>
             (case dm_get (rc_directives c) key of
                Some cached \<Rightarrow>
                  if cd_size cached = sz \<and> cd_mtime cached = mtime then (c, Some (cd_directives cached))
                  else parse sz mtime
              | None \<Rightarrow> parse sz mtime))"

subsection \<open>Workers\<close>

record batch =
  b_new :: "npath list"
  b_unresolved :: "string list"
  b_computed :: bool

datatype worker =
    Pending npath
  | Running npath "include_directive list" batch
  | Finished "npath list"

record scan_state =
  ss_workers :: "worker list"
  ss_visited :: "npath set"
  ss_resolved :: "npath list"
  ss_unresolved :: "string list"
  ss_computed :: bool
  ss_cache :: "recursive_scan_cache option"

type_synonym retain = "string \<Rightarrow> include_directive \<Rightarrow> npath \<Rightarrow> bool"

definition load_directives ::
    "file_system \<Rightarrow> recursive_scan_cache option \<Rightarrow> npath \<Rightarrow> recursive_scan_cache option \<times> include_directive list option" where
  "load_directives fs cache file =
     (case cache of
        Some c \<Rightarrow> (let (c', ds) = get_or_scan fs c file in (Some c', ds))
      | None \<Rightarrow> (None, scan_includes fs file))"

definition file_dir :: "npath \<Rightarrow> string" where
  "file_dir file = (case path_parent file of Some d \<Rightarrow> d | None \<Rightarrow> ''.'')"

text \<open>One directive: \<^verbatim>\<open>visited.insert\<close> is atomic, and only the worker that inserts a path gets it.\<close>

definition take_directive ::
    "file_system \<Rightarrow> include_search_paths \<Rightarrow> retain \<Rightarrow> npath \<Rightarrow> include_directive \<Rightarrow> npath set \<Rightarrow> batch \<Rightarrow> npath set \<times> batch" where
  "take_directive fs search retain file d visited b =
     (case id_kind d of
        Computed _ \<Rightarrow> (visited, b\<lparr>b_computed := True\<rparr>)
      | _ \<Rightarrow>
          (case resolve_include fs d search (file_dir file) of
             Some abs_path \<Rightarrow>
               if retain file d abs_path \<and> abs_path \<notin> visited
               then (insert abs_path visited, b\<lparr>b_new := b_new b @ [abs_path]\<rparr>)
               else (visited, b)
           | None \<Rightarrow> (visited, b\<lparr>b_unresolved := b_unresolved b @ [id_path d]\<rparr>)))"

text \<open>A step of worker \<open>i\<close>; a finished worker has none.\<close>

definition scan_one_level ::
    "file_system \<Rightarrow> include_search_paths \<Rightarrow> retain \<Rightarrow> nat \<Rightarrow> scan_state \<Rightarrow> scan_state option" where
  "scan_one_level fs search retain i st =
     (case ss_workers st ! i of
        Pending file \<Rightarrow>
          (let (cache, ds) = load_directives fs (ss_cache st) file;
               w = (case ds of
                      Some directives \<Rightarrow> Running file directives \<lparr> b_new = [], b_unresolved = [], b_computed = False \<rparr>
                    | None \<Rightarrow> Finished [])
           in Some (st\<lparr>ss_workers := (ss_workers st)[i := w], ss_cache := cache\<rparr>))
      | Running file (d # ds) b \<Rightarrow>
          (let (visited, b') = take_directive fs search retain file d (ss_visited st) b
           in Some (st\<lparr>ss_workers := (ss_workers st)[i := Running file ds b'], ss_visited := visited\<rparr>))
      | Running file [] b \<Rightarrow>
          Some (st\<lparr>ss_workers := (ss_workers st)[i := Finished (b_new b)],
                   ss_resolved := ss_resolved st @ b_new b,
                   ss_unresolved := ss_unresolved st @ b_unresolved b,
                   ss_computed := (ss_computed st \<or> b_computed b)\<rparr>)
      | Finished _ \<Rightarrow> None)"

fun finished :: "worker \<Rightarrow> bool" where
  "finished (Finished _) = True"
| "finished _ = False"

fun found_by :: "worker \<Rightarrow> npath list" where
  "found_by (Finished new) = new"
| "found_by (Running _ _ b) = b_new b"
| "found_by (Pending _) = []"

text \<open>The frontier loop: when every worker is done, what they found is the next frontier.\<close>

definition scan_step ::
    "file_system \<Rightarrow> include_search_paths \<Rightarrow> retain \<Rightarrow> nat \<Rightarrow> scan_state \<Rightarrow> scan_state option" where
  "scan_step fs search retain i st =
     (if ss_workers st = [] then None
      else if list_all finished (ss_workers st)
      then Some (st\<lparr>ss_workers := map Pending (concat (map found_by (ss_workers st)))\<rparr>)
      else if i < length (ss_workers st) then scan_one_level fs search retain i st
      else None)"

definition scan_init :: "file_system \<Rightarrow> string \<Rightarrow> recursive_scan_cache option \<Rightarrow> scan_state" where
  "scan_init fs source cache =
     \<lparr> ss_workers = [Pending (Paths.normalize source)],
       ss_visited = (case try_normalize fs source of Some p \<Rightarrow> {p} | None \<Rightarrow> {}),
       ss_resolved = [], ss_unresolved = [], ss_computed = False, ss_cache = cache \<rparr>"

definition scan_done :: "scan_state \<Rightarrow> bool" where
  "scan_done st \<longleftrightarrow> ss_workers st = []"

definition scan_output :: "scan_state \<Rightarrow> scan_result" where
  "scan_output st =
     \<lparr> sr_resolved = ss_resolved st, sr_unresolved = ss_unresolved st, sr_has_computed = ss_computed st \<rparr>"

fun first_unfinished :: "worker list \<Rightarrow> nat" where
  "first_unfinished [] = 0"
| "first_unfinished (w # ws) = (if finished w then Suc (first_unfinished ws) else 0)"

text \<open>The scan with the workers of a frontier taken in order.\<close>

partial_function (option) frontier_loop ::
    "file_system \<Rightarrow> include_search_paths \<Rightarrow> retain \<Rightarrow> scan_state \<Rightarrow> scan_state option" where
  "frontier_loop fs search retain st =
     (case scan_step fs search retain (first_unfinished (ss_workers st)) st of
        None \<Rightarrow> Some st
      | Some st' \<Rightarrow> frontier_loop fs search retain st')"

declare frontier_loop.simps [code]

definition scan_recursive_impl ::
    "file_system \<Rightarrow> string \<Rightarrow> include_search_paths \<Rightarrow> recursive_scan_cache option \<Rightarrow> retain \<Rightarrow>
       (scan_result \<times> recursive_scan_cache option) option" where
  "scan_recursive_impl fs source search cache retain =
     map_option (\<lambda>st. (scan_output st, ss_cache st)) (frontier_loop fs search retain (scan_init fs source cache))"

definition scan_recursive :: "file_system \<Rightarrow> string \<Rightarrow> include_search_paths \<Rightarrow> scan_result option" where
  "scan_recursive fs source search =
     map_option fst (scan_recursive_impl fs source search None (\<lambda>_ _ _. True))"

definition scan_recursive_cached ::
    "file_system \<Rightarrow> string \<Rightarrow> include_search_paths \<Rightarrow> recursive_scan_cache \<Rightarrow> (scan_result \<times> recursive_scan_cache option) option" where
  "scan_recursive_cached fs source search cache =
     scan_recursive_impl fs source search (Some cache) (\<lambda>_ _ _. True)"

definition scan_recursive_cached_pruned ::
    "file_system \<Rightarrow> string \<Rightarrow> include_search_paths \<Rightarrow> recursive_scan_cache \<Rightarrow> retain \<Rightarrow>
       (scan_result \<times> recursive_scan_cache option) option" where
  "scan_recursive_cached_pruned fs source search cache retain =
     scan_recursive_impl fs source search (Some cache) retain"

end
