(* ===== verification/ScanClosure.thy ===== *)
theory ScanClosure
  imports IncludeScan
begin

text \<open>
  What the recursive include scan computes, for every schedule of its workers: the transitive
  closure of the include relation, each header once, in a bounded number of steps, with or without
  the memo of parsed directives.
\<close>

subsection \<open>Scheduled systems\<close>

text \<open>
  A system whose moves an outside schedule picks: every move keeps the invariant and spends work,
  and a state that has not halted can move.  Then no schedule is longer than the work at its start,
  and every run can be completed.
\<close>

fun run_schedule :: "('i \<Rightarrow> 's \<Rightarrow> 's option) \<Rightarrow> 's \<Rightarrow> 'i list \<Rightarrow> 's option" where
  "run_schedule step s [] = Some s"
| "run_schedule step s (i # is) = (case step i s of None \<Rightarrow> None | Some t \<Rightarrow> run_schedule step t is)"

locale scheduled =
  fixes step :: "'i \<Rightarrow> 's \<Rightarrow> 's option" and ok :: "'s \<Rightarrow> bool"
    and work :: "'s \<Rightarrow> nat" and halted :: "'s \<Rightarrow> bool" and pick :: "'s \<Rightarrow> 'i"
  assumes keeps: "ok s \<Longrightarrow> step i s = Some t \<Longrightarrow> ok t"
    and spends: "ok s \<Longrightarrow> step i s = Some t \<Longrightarrow> work t < work s"
    and moves: "ok s \<Longrightarrow> \<not> halted s \<Longrightarrow> step (pick s) s \<noteq> None"
begin

lemma run_keeps: "ok s \<Longrightarrow> run_schedule step s is = Some t \<Longrightarrow> ok t"
  by (induction "is" arbitrary: s) (auto split: option.splits dest: keeps)

lemma run_bounded: "ok s \<Longrightarrow> run_schedule step s is = Some t \<Longrightarrow> length is + work t \<le> work s"
proof (induction "is" arbitrary: s)
  case (Cons i "is")
  from Cons.prems(2) obtain u where u: "step i s = Some u" "run_schedule step u is = Some t"
    by (auto split: option.splits)
  with Cons.prems(1) Cons.IH [of u] keeps spends [of s i u] show ?case by fastforce
qed simp

lemma picks_complete:
  assumes "ok s"
  shows "\<exists>is t. run_schedule step s is = Some t \<and> halted t"
  using assms
proof (induction "work s" arbitrary: s rule: less_induct)
  case less
  show ?case
  proof (cases "halted s")
    case True
    then have "run_schedule step s [] = Some s \<and> halted s" by simp
    then show ?thesis by blast
  next
    case False
    with moves [OF less.prems] obtain u where u: "step (pick s) s = Some u" by auto
    with less spends keeps obtain "is" t where "run_schedule step u is = Some t" "halted t" by metis
    with u have "run_schedule step s (pick s # is) = Some t \<and> halted t" by simp
    then show ?thesis by blast
  qed
qed

end

subsection \<open>The include relation\<close>

record scan_job =
  job_fs :: file_system
  job_search :: include_search_paths
  job_retain :: retain
  job_source :: string

abbreviation job_step :: "scan_job \<Rightarrow> nat \<Rightarrow> scan_state \<Rightarrow> scan_state option" where
  "job_step j \<equiv> scan_step (job_fs j) (job_search j) (job_retain j)"

abbreviation job_dirs :: "scan_job \<Rightarrow> npath \<Rightarrow> include_directive list option" where
  "job_dirs j \<equiv> scan_includes (job_fs j)"

fun is_computed :: "include_kind \<Rightarrow> bool" where
  "is_computed (Computed _) = True"
| "is_computed _ = False"

abbreviation resolves :: "scan_job \<Rightarrow> npath \<Rightarrow> include_directive \<Rightarrow> npath option" where
  "resolves j f d \<equiv> resolve_include (job_fs j) d (job_search j) (file_dir f)"

text \<open>The headers, the missing headers and the macro includes among the directives of a file.\<close>

definition targets :: "scan_job \<Rightarrow> npath \<Rightarrow> include_directive list \<Rightarrow> npath set" where
  "targets j f ds = {g. \<exists>d\<in>set ds. resolves j f d = Some g \<and> job_retain j f d g}"

definition misses :: "scan_job \<Rightarrow> npath \<Rightarrow> include_directive list \<Rightarrow> string set" where
  "misses j f ds = id_path ` {d\<in>set ds. \<not> is_computed (id_kind d) \<and> resolves j f d = None}"

definition computes :: "include_directive list \<Rightarrow> bool" where
  "computes ds \<longleftrightarrow> (\<exists>d\<in>set ds. is_computed (id_kind d))"

text \<open>The files reached from the source; the source itself is not entered again.\<close>

inductive reached :: "scan_job \<Rightarrow> npath \<Rightarrow> bool" for j where
  from_source: "reached j (Paths.normalize (job_source j))"
| by_include: "reached j f \<Longrightarrow> job_dirs j f = Some ds \<Longrightarrow> g \<in> targets j f ds \<Longrightarrow>
    try_normalize (job_fs j) (job_source j) \<noteq> Some g \<Longrightarrow> reached j g"

definition included :: "scan_job \<Rightarrow> npath set" where
  "included j = {g. \<exists>f ds. reached j f \<and> job_dirs j f = Some ds \<and> g \<in> targets j f ds \<and>
     try_normalize (job_fs j) (job_source j) \<noteq> Some g}"

definition fs_files :: "file_system \<Rightarrow> npath set" where
  "fs_files fs = scan_normalize fs ` {p. fs_is_file fs p}"

lemma find_in_dirs_file: "find_in_dirs fs path dirs = Some g \<Longrightarrow> g \<in> fs_files fs"
  by (induction dirs) (auto simp: fs_files_def Let_def split: if_splits)

lemma resolve_include_file: "resolve_include fs d search dir = Some g \<Longrightarrow> g \<in> fs_files fs"
  by (auto simp: resolve_include_def resolve_include_next_def Let_def fs_files_def
      dest: find_in_dirs_file [unfolded fs_files_def] split: include_kind.splits if_splits option.splits)

lemma resolve_computed [simp]: "is_computed (id_kind d) \<Longrightarrow> resolve_include fs d search dir = None"
  by (cases "id_kind d") (simp_all add: resolve_include_def)

lemma fs_files_normal: "g \<in> fs_files fs \<Longrightarrow> Paths.normalize g = g"
  by (auto simp: fs_files_def scan_normalize_def try_normalize_def normalize_twice split: option.splits)

lemma targets_files: "targets j f ds \<subseteq> fs_files (job_fs j)"
  by (auto simp: targets_def dest: resolve_include_file)

lemma reached_normal: "reached j f \<Longrightarrow> Paths.normalize f = f"
  by (induction rule: reached.induct) (auto simp: normalize_twice intro: fs_files_normal targets_files [THEN subsetD])

lemma included_reached: "g \<in> included j \<Longrightarrow> reached j g"
  by (auto simp: included_def intro: reached.by_include)

lemma directive_sets [simp]:
  "targets j f (ds @ es) = targets j f ds \<union> targets j f es" "targets j f [] = {}"
  "misses j f (ds @ es) = misses j f ds \<union> misses j f es" "misses j f [] = {}"
  "computes (ds @ es) \<longleftrightarrow> computes ds \<or> computes es" "\<not> computes []"
  "computes [d] \<longleftrightarrow> is_computed (id_kind d)"
  by (auto simp: targets_def misses_def computes_def)

subsection \<open>The memo\<close>

text \<open>
  A memo is coherent when an entry whose stamp is the file's current one holds the file's directives.
\<close>

definition memo_coherent :: "file_system \<Rightarrow> recursive_scan_cache option \<Rightarrow> bool" where
  "memo_coherent fs cache \<longleftrightarrow>
     (\<forall>c key e. cache = Some c \<longrightarrow> dm_get (rc_directives c) key = Some e \<longrightarrow>
        fs_metadata fs key = Some (cd_size e, cd_mtime e) \<longrightarrow> scan_includes fs key = Some (cd_directives e))"

definition readable_has_stat :: "file_system \<Rightarrow> bool" where
  "readable_has_stat fs \<longleftrightarrow> (\<forall>p. fs_read fs p \<noteq> None \<longrightarrow> fs_metadata fs p \<noteq> None)"

lemma memo_coherent_simps [simp]:
  "memo_coherent fs None" "memo_coherent fs (Some scan_cache_new)" "memo_coherent fs (Some (scan_cache_clear c))"
  by (simp_all add: memo_coherent_def scan_cache_new_def scan_cache_clear_def)

lemma memo_remove: "memo_coherent fs (Some c) \<Longrightarrow> memo_coherent fs (Some (c\<lparr>rc_directives := dm_remove key (rc_directives c)\<rparr>))"
  by (auto simp: memo_coherent_def)

lemma memo_insert:
  "memo_coherent fs (Some c) \<Longrightarrow> scan_includes fs key = Some (cd_directives e) \<Longrightarrow>
   memo_coherent fs (Some \<lparr> rc_directives = dm_insert key e (rc_directives c), rc_parses = n \<rparr>)"
  by (auto simp: memo_coherent_def)

lemma memo_hit:
  "memo_coherent fs (Some c) \<Longrightarrow> dm_get (rc_directives c) key = Some e \<Longrightarrow>
   fs_metadata fs key = Some (cd_size e, cd_mtime e) \<Longrightarrow> Some (cd_directives e) = scan_includes fs key"
  by (simp add: memo_coherent_def)

lemma get_or_scan_coherent:
  assumes "memo_coherent fs (Some c)" "readable_has_stat fs" "Paths.normalize f = f"
    and "get_or_scan fs c f = (c', ds)"
  shows "ds = scan_includes fs f" and "memo_coherent fs (Some c')"
proof -
  have "ds = scan_includes fs f \<and> memo_coherent fs (Some c')"
  proof (cases "fs_metadata fs f")
    case None
    with assms(2) have "scan_includes fs f = None" by (auto simp: readable_has_stat_def scan_includes_def)
    with None assms show ?thesis by (auto simp: get_or_scan_def Let_def memo_remove)
  next
    case (Some stamp)
    with assms show ?thesis
      by (auto simp: get_or_scan_def Let_def split: prod.splits option.splits if_splits
          intro: memo_remove memo_insert dest: memo_hit)
  qed
  then show "ds = scan_includes fs f" "memo_coherent fs (Some c')" by auto
qed

lemma load_coherent:
  assumes "memo_coherent fs cache" "readable_has_stat fs" "Paths.normalize f = f"
    and "load_directives fs cache f = (cache', ds)"
  shows "ds = scan_includes fs f" and "memo_coherent fs cache'"
  using assms by (auto simp: load_directives_def dest: get_or_scan_coherent split: option.splits prod.splits)

subsection \<open>The invariant of a scan\<close>

fun unflushed :: "worker \<Rightarrow> npath list" where
  "unflushed (Running _ _ b) = b_new b"
| "unflushed _ = []"

fun opened :: "worker \<Rightarrow> npath set" where
  "opened (Pending f) = {f}"
| "opened (Running f _ b) = insert f (set (b_new b))"
| "opened (Finished new) = set new"

definition start_visited :: "scan_job \<Rightarrow> npath set" where
  "start_visited j = (case try_normalize (job_fs j) (job_source j) of Some p \<Rightarrow> {p} | None \<Rightarrow> {})"

definition all_found :: "scan_state \<Rightarrow> npath list" where
  "all_found st = ss_resolved st @ concat (map unflushed (ss_workers st))"

text \<open>A closed file: all its directives are accounted for in the shared state.\<close>

definition closed_file :: "scan_job \<Rightarrow> scan_state \<Rightarrow> npath \<Rightarrow> bool" where
  "closed_file j st f \<longleftrightarrow>
     (\<forall>ds. job_dirs j f = Some ds \<longrightarrow>
        targets j f ds \<subseteq> ss_visited st \<and> misses j f ds \<subseteq> set (ss_unresolved st) \<and>
        (computes ds \<longrightarrow> ss_computed st))"

fun worker_ok :: "scan_job \<Rightarrow> npath set \<Rightarrow> worker \<Rightarrow> bool" where
  "worker_ok j visited (Pending f) \<longleftrightarrow> reached j f"
| "worker_ok j visited (Running f todo b) \<longleftrightarrow>
     reached j f \<and>
     (\<exists>before. job_dirs j f = Some (before @ todo) \<and> targets j f before \<subseteq> visited \<and>
        set (b_unresolved b) = misses j f before \<and> b_computed b = computes before)"
| "worker_ok j visited (Finished new) \<longleftrightarrow> True"

definition scan_ok :: "scan_job \<Rightarrow> scan_state \<Rightarrow> bool" where
  "scan_ok j st \<longleftrightarrow>
     distinct (all_found st) \<and>
     ss_visited st = start_visited j \<union> set (all_found st) \<and>
     set (all_found st) \<subseteq> included j \<and>
     (\<forall>w\<in>set (ss_workers st). worker_ok j (ss_visited st) w \<and> set (found_by w) \<subseteq> included j) \<and>
     (\<forall>f. f = Paths.normalize (job_source j) \<or> f \<in> set (all_found st) \<longrightarrow>
        (\<exists>w\<in>set (ss_workers st). f \<in> opened w) \<or> closed_file j st f) \<and>
     (\<forall>u\<in>set (ss_unresolved st). \<exists>f ds. reached j f \<and> job_dirs j f = Some ds \<and> u \<in> misses j f ds) \<and>
     (ss_computed st \<longrightarrow> (\<exists>f ds. reached j f \<and> job_dirs j f = Some ds \<and> computes ds)) \<and>
     memo_coherent (job_fs j) (ss_cache st)"

text \<open>Work left: the directives and moves of every file not yet scanned.\<close>

definition scan_cost :: "scan_job \<Rightarrow> npath \<Rightarrow> nat" where
  "scan_cost j f = (case job_dirs j f of Some ds \<Rightarrow> length ds | None \<Rightarrow> 0) + 3"

fun worker_cost :: "scan_job \<Rightarrow> worker \<Rightarrow> nat" where
  "worker_cost j (Pending f) = scan_cost j f"
| "worker_cost j (Running _ todo b) = length todo + 2 + sum_list (map (scan_cost j) (b_new b))"
| "worker_cost j (Finished new) = 1 + sum_list (map (scan_cost j) new)"

definition scan_work :: "scan_job \<Rightarrow> scan_state \<Rightarrow> nat" where
  "scan_work j st =
     (\<Sum>g\<in>fs_files (job_fs j) - ss_visited st. scan_cost j g) +
     sum_list (map (worker_cost j) (ss_workers st))"


subsection \<open>One step\<close>

abbreviation empty_batch :: batch where
  "empty_batch \<equiv> \<lparr> b_new = [], b_unresolved = [], b_computed = False \<rparr>"

lemma scan_step_cases:
  assumes "job_step j i st = Some st'"
  obtains
    (level) "ss_workers st \<noteq> []" "list_all finished (ss_workers st)"
      "st' = st\<lparr>ss_workers := map Pending (concat (map found_by (ss_workers st)))\<rparr>"
  | (load) xs f ys cache ds where "ss_workers st = xs @ Pending f # ys"
      "load_directives (job_fs j) (ss_cache st) f = (cache, ds)"
      "st' = st\<lparr>ss_workers := xs @ (case ds of Some es \<Rightarrow> Running f es empty_batch | None \<Rightarrow> Finished []) # ys,
                ss_cache := cache\<rparr>"
  | (directive) xs f d ds b ys visited b' where "ss_workers st = xs @ Running f (d # ds) b # ys"
      "take_directive (job_fs j) (job_search j) (job_retain j) f d (ss_visited st) b = (visited, b')"
      "st' = st\<lparr>ss_workers := xs @ Running f ds b' # ys, ss_visited := visited\<rparr>"
  | (flush) xs f b ys where "ss_workers st = xs @ Running f [] b # ys"
      "st' = st\<lparr>ss_workers := xs @ Finished (b_new b) # ys, ss_resolved := ss_resolved st @ b_new b,
                ss_unresolved := ss_unresolved st @ b_unresolved b,
                ss_computed := (ss_computed st \<or> b_computed b)\<rparr>"
proof (cases "list_all finished (ss_workers st)")
  case True
  with assms level show thesis by (auto simp: scan_step_def split: if_splits)
next
  case False
  with assms have i: "i < length (ss_workers st)"
    and step: "scan_one_level (job_fs j) (job_search j) (job_retain j) i st = Some st'"
    by (auto simp: scan_step_def split: if_splits)
  define xs ys where "xs = take i (ss_workers st)" and "ys = drop (Suc i) (ss_workers st)"
  from i have ws: "ss_workers st = xs @ ss_workers st ! i # ys"
    and upd: "\<And>w. (ss_workers st)[i := w] = xs @ w # ys"
    by (simp_all add: xs_def ys_def id_take_nth_drop upd_conv_take_nth_drop)
  show thesis
  proof (cases "ss_workers st ! i")
    case (Pending f)
    with step ws load [of xs f ys] show thesis
      by (auto simp: scan_one_level_def upd Let_def split: prod.splits)
  next
    case (Running f todo b)
    show thesis
    proof (cases todo)
      case Nil
      with step ws Running flush [of xs f b ys] show thesis by (simp add: scan_one_level_def upd)
    next
      case (Cons d ds)
      with step ws Running directive [of xs f d ds b ys] show thesis
        by (auto simp: scan_one_level_def upd Let_def split: prod.splits)
    qed
  qed (use step in \<open>simp add: scan_one_level_def\<close>)
qed

text \<open>What one directive does, in the vocabulary of the include relation.\<close>

lemma take_directive_cases:
  assumes "take_directive (job_fs j) (job_search j) (job_retain j) f d visited b = (visited', b')"
  obtains
    (found) g where "resolves j f d = Some g" "job_retain j f d g" "g \<notin> visited" "\<not> is_computed (id_kind d)"
      "visited' = insert g visited" "b' = b\<lparr>b_new := b_new b @ [g]\<rparr>"
      "targets j f [d] = {g}" "misses j f [d] = {}"
  | (quiet) "targets j f [d] \<subseteq> visited" "visited' = visited" "b_new b' = b_new b"
      "set (b_unresolved b') = set (b_unresolved b) \<union> misses j f [d]"
      "b_computed b' \<longleftrightarrow> b_computed b \<or> is_computed (id_kind d)"
proof (cases "is_computed (id_kind d)")
  case True
  then have "targets j f [d] = {}" "misses j f [d] = {}" by (auto simp: targets_def misses_def)
  moreover from True assms have "visited' = visited" "b' = b\<lparr>b_computed := True\<rparr>"
    by (cases "id_kind d"; simp add: take_directive_def)+
  ultimately show thesis using True by (intro quiet) simp_all
next
  case False
  then have take: "take_directive (job_fs j) (job_search j) (job_retain j) f d visited b =
      (case resolves j f d of
         Some g \<Rightarrow> if job_retain j f d g \<and> g \<notin> visited
                   then (insert g visited, b\<lparr>b_new := b_new b @ [g]\<rparr>) else (visited, b)
       | None \<Rightarrow> (visited, b\<lparr>b_unresolved := b_unresolved b @ [id_path d]\<rparr>))"
    by (cases "id_kind d") (simp_all add: take_directive_def)
  show thesis
  proof (cases "resolves j f d")
    case None
    with False have "targets j f [d] = {}" "misses j f [d] = {id_path d}" by (auto simp: targets_def misses_def)
    moreover from None assms take have "visited' = visited" "b' = b\<lparr>b_unresolved := b_unresolved b @ [id_path d]\<rparr>"
      by simp_all
    ultimately show thesis using False by (intro quiet) simp_all
  next
    case (Some g)
    then have sets: "targets j f [d] = (if job_retain j f d g then {g} else {})" "misses j f [d] = {}"
      by (auto simp: targets_def misses_def)
    show thesis
    proof (cases "job_retain j f d g \<and> g \<notin> visited")
      case True
      with Some False assms take sets show thesis by (intro found [of g]) simp_all
    next
      case unchanged: False
      with Some assms take have "visited' = visited" "b' = b" by auto
      with False unchanged sets show thesis by (intro quiet) auto
    qed
  qed
qed


lemma closed_mono:
  "closed_file j st f \<Longrightarrow> ss_visited st \<subseteq> ss_visited st' \<Longrightarrow> set (ss_unresolved st) \<subseteq> set (ss_unresolved st') \<Longrightarrow>
   (ss_computed st \<Longrightarrow> ss_computed st') \<Longrightarrow> closed_file j st' f"
  unfolding closed_file_def by (meson subset_trans)

lemma worker_ok_mono: "worker_ok j visited w \<Longrightarrow> visited \<subseteq> visited' \<Longrightarrow> worker_ok j visited' w"
  by (cases w) auto

lemma scan_okD:
  assumes "scan_ok j st"
  shows "distinct (all_found st)" "ss_visited st = start_visited j \<union> set (all_found st)"
    "set (all_found st) \<subseteq> included j"
    "w \<in> set (ss_workers st) \<Longrightarrow> worker_ok j (ss_visited st) w"
    "w \<in> set (ss_workers st) \<Longrightarrow> set (found_by w) \<subseteq> included j"
    "f = Paths.normalize (job_source j) \<or> f \<in> set (all_found st) \<Longrightarrow>
       (\<exists>w\<in>set (ss_workers st). f \<in> opened w) \<or> closed_file j st f"
    "u \<in> set (ss_unresolved st) \<Longrightarrow> \<exists>f ds. reached j f \<and> job_dirs j f = Some ds \<and> u \<in> misses j f ds"
    "ss_computed st \<Longrightarrow> \<exists>f ds. reached j f \<and> job_dirs j f = Some ds \<and> computes ds"
    "memo_coherent (job_fs j) (ss_cache st)"
  using assms unfolding scan_ok_def by blast+

lemma finished_found: "finished w \<Longrightarrow> unflushed w = []" "finished w \<Longrightarrow> opened w = set (found_by w)"
  by (cases w; simp)+

lemma scan_ok_level:
  assumes ok: "scan_ok j st" and fin: "list_all finished (ss_workers st)"
    and st': "st' = st\<lparr>ss_workers := map Pending (concat (map found_by (ss_workers st)))\<rparr>"
  shows "scan_ok j st'"
proof -
  have fin': "\<And>w. w \<in> set (ss_workers st) \<Longrightarrow> finished w" using fin by (simp add: list_all_iff)
  have none: "concat (map unflushed (ss_workers st)) = []" using fin' finished_found(1) by auto
  have found: "all_found st' = all_found st" unfolding all_found_def st' by (simp add: none comp_def)
  have closed: "closed_file j st' = closed_file j st" using st' by (simp add: closed_file_def fun_eq_iff)
  have "(\<exists>w\<in>set (ss_workers st'). f \<in> opened w) \<or> closed_file j st' f"
    if "f = Paths.normalize (job_source j) \<or> f \<in> set (all_found st')" for f
    using scan_okD(6) [OF ok, of f] that st' fin' finished_found(2) unfolding found closed by fastforce
  moreover have "worker_ok j (ss_visited st') w \<and> set (found_by w) \<subseteq> included j" if "w \<in> set (ss_workers st')" for w
    using that scan_okD(5) [OF ok, THEN subsetD, THEN included_reached] st' by auto
  ultimately show ?thesis
    using ok st' unfolding scan_ok_def found by auto
qed

lemma scan_ok_load:
  assumes ok: "scan_ok j st" and stat: "readable_has_stat (job_fs j)"
    and ws: "ss_workers st = xs @ Pending f # ys"
    and load: "load_directives (job_fs j) (ss_cache st) f = (cache, ds)"
    and st': "st' = st\<lparr>ss_workers := xs @ (case ds of Some es \<Rightarrow> Running f es empty_batch | None \<Rightarrow> Finished []) # ys,
                ss_cache := cache\<rparr>"
  shows "scan_ok j st'"
proof -
  have f: "reached j f" using scan_okD(4) [OF ok, of "Pending f"] ws by simp
  from load_coherent [OF scan_okD(9) [OF ok] stat reached_normal [OF f] load]
  have ds: "ds = job_dirs j f" and memo: "memo_coherent (job_fs j) cache" .
  have found: "all_found st' = all_found st" using ws st' by (auto simp: all_found_def split: option.splits)
  have closed: "closed_file j st' = closed_file j st" using st' by (simp add: closed_file_def fun_eq_iff)
  have "(\<exists>w\<in>set (ss_workers st'). g \<in> opened w) \<or> closed_file j st' g"
    if "g = Paths.normalize (job_source j) \<or> g \<in> set (all_found st')" for g
  proof (cases ds)
    case None
    then have "closed_file j st f" using ds by (simp add: closed_file_def)
    with None scan_okD(6) [OF ok, of g] that ws st' show ?thesis unfolding found closed by auto
  next
    case (Some es)
    with scan_okD(6) [OF ok, of g] that ws st' show ?thesis unfolding found closed by auto
  qed
  moreover have "worker_ok j (ss_visited st') w \<and> set (found_by w) \<subseteq> included j" if "w \<in> set (ss_workers st')" for w
    using that scan_okD(4,5) [OF ok, of w] ws st' f ds by (auto split: option.splits)
  ultimately show ?thesis
    using ok st' memo unfolding scan_ok_def found by auto
qed


lemma scan_ok_directive:
  assumes ok: "scan_ok j st" and ws: "ss_workers st = xs @ Running f (d # ds) b # ys"
    and take: "take_directive (job_fs j) (job_search j) (job_retain j) f d (ss_visited st) b = (visited, b')"
    and st': "st' = st\<lparr>ss_workers := xs @ Running f ds b' # ys, ss_visited := visited\<rparr>"
  shows "scan_ok j st'"
proof -
  from scan_okD(4) [OF ok, of "Running f (d # ds) b"] ws obtain before where
    f: "reached j f" "job_dirs j f = Some (before @ d # ds)" "targets j f before \<subseteq> ss_visited st"
      "set (b_unresolved b) = misses j f before" "b_computed b = computes before"
    by auto
  have bn: "set (b_new b) \<subseteq> included j" using scan_okD(5) [OF ok, of "Running f (d # ds) b"] ws by simp
  have dirs: "job_dirs j f = Some ((before @ [d]) @ ds)" using f(2) by simp
  have V: "ss_visited st \<subseteq> visited" using take by (rule take_directive_cases) auto
  have W: "worker_ok j visited w" if "w \<in> set xs \<union> set ys" for w
    using that scan_okD(4) [OF ok, of w] ws V worker_ok_mono by auto
  have F: "set (found_by w) \<subseteq> included j" if "w \<in> set xs \<union> set ys" for w
    using that scan_okD(5) [OF ok, of w] ws by auto
  have C: "closed_file j st g \<Longrightarrow> closed_file j st' g" for g
    using V by (elim closed_mono) (simp_all add: st')
  from take show ?thesis
  proof (cases rule: take_directive_cases)
    case (found g)
    have g: "g \<notin> set (all_found st)" "try_normalize (job_fs j) (job_source j) \<noteq> Some g"
      using found(3) scan_okD(2) [OF ok] by (auto simp: start_visited_def)
    then have inc: "g \<in> included j"
      using f(1,2) found(1,2) by (auto simp: included_def targets_def)
    have A: "set (all_found st') = insert g (set (all_found st))" "distinct (all_found st')"
      using ws st' found(6) g(1) scan_okD(1) [OF ok] by (auto simp: all_found_def)
    have "worker_ok j visited (Running f ds b')"
      using f found dirs by (auto intro!: exI [of _ "before @ [d]"])
    moreover have "set (found_by (Running f ds b')) \<subseteq> included j" using bn inc found(6) by simp
    moreover have "opened (Running f ds b') = insert g (opened (Running f (d # ds) b))" using found(6) by auto
    then have "(\<exists>w\<in>set (ss_workers st'). h \<in> opened w) \<or> closed_file j st' h"
      if "h = Paths.normalize (job_source j) \<or> h \<in> set (all_found st')" for h
      using that scan_okD(6) [OF ok, of h] ws st' C A(1) by auto
    ultimately show ?thesis
      using ok A W F inc found(5) st' unfolding scan_ok_def by auto
  next
    case quiet
    have A: "all_found st' = all_found st" using ws st' quiet(3) by (simp add: all_found_def)
    have "worker_ok j visited (Running f ds b')"
      using f quiet dirs by (auto intro!: exI [of _ "before @ [d]"])
    moreover have "set (found_by (Running f ds b')) \<subseteq> included j" using bn quiet(3) by simp
    moreover have "(\<exists>w\<in>set (ss_workers st'). h \<in> opened w) \<or> closed_file j st' h"
      if "h = Paths.normalize (job_source j) \<or> h \<in> set (all_found st')" for h
      using that scan_okD(6) [OF ok, of h] ws st' C A quiet(3) by auto
    ultimately show ?thesis
      using ok A W F quiet(2) st' unfolding scan_ok_def by auto
  qed
qed

lemma scan_ok_flush:
  assumes ok: "scan_ok j st" and ws: "ss_workers st = xs @ Running f [] b # ys"
    and st': "st' = st\<lparr>ss_workers := xs @ Finished (b_new b) # ys, ss_resolved := ss_resolved st @ b_new b,
                ss_unresolved := ss_unresolved st @ b_unresolved b,
                ss_computed := (ss_computed st \<or> b_computed b)\<rparr>"
  shows "scan_ok j st'"
proof -
  from scan_okD(4) [OF ok, of "Running f [] b"] ws obtain ds where
    f: "reached j f" "job_dirs j f = Some ds" "targets j f ds \<subseteq> ss_visited st"
      "set (b_unresolved b) = misses j f ds" "b_computed b = computes ds"
    by auto
  have bn: "set (b_new b) \<subseteq> included j" using scan_okD(5) [OF ok, of "Running f [] b"] ws by simp
  have A: "set (all_found st') = set (all_found st)" "distinct (all_found st')"
    using ws st' scan_okD(1) [OF ok] by (auto simp: all_found_def)
  have "closed_file j st' f" using f st' by (simp add: closed_file_def)
  moreover have "closed_file j st g \<Longrightarrow> closed_file j st' g" for g
    by (elim closed_mono) (simp_all add: st')
  ultimately have "(\<exists>w\<in>set (ss_workers st'). h \<in> opened w) \<or> closed_file j st' h"
    if "h = Paths.normalize (job_source j) \<or> h \<in> set (all_found st')" for h
    using that scan_okD(6) [OF ok, of h] ws st' A(1) by auto
  moreover have "worker_ok j (ss_visited st') w \<and> set (found_by w) \<subseteq> included j" if "w \<in> set (ss_workers st')" for w
    using that scan_okD(4,5) [OF ok, of w] ws st' bn by auto
  moreover have "\<exists>f ds. reached j f \<and> job_dirs j f = Some ds \<and> u \<in> misses j f ds" if "u \<in> set (ss_unresolved st')" for u
    using that st' f scan_okD(7) [OF ok, of u] by auto
  moreover have "\<exists>f ds. reached j f \<and> job_dirs j f = Some ds \<and> computes ds" if "ss_computed st'"
    using that st' f scan_okD(8) [OF ok] by auto
  ultimately show ?thesis
    using ok A st' unfolding scan_ok_def by simp
qed

lemma scan_ok_step:
  assumes "scan_ok j st" "readable_has_stat (job_fs j)" "job_step j i st = Some st'"
  shows "scan_ok j st'"
  using assms(3)
proof (cases rule: scan_step_cases)
  case level
  show ?thesis by (rule scan_ok_level [OF assms(1) level(2,3)])
next
  case load
  show ?thesis by (rule scan_ok_load [OF assms(1,2) load])
next
  case directive
  show ?thesis by (rule scan_ok_directive [OF assms(1) directive])
next
  case flush
  show ?thesis by (rule scan_ok_flush [OF assms(1) flush])
qed

lemma scan_ok_init:
  "memo_coherent (job_fs j) cache \<Longrightarrow> scan_ok j (scan_init (job_fs j) (job_source j) cache)"
  by (simp add: scan_ok_def scan_init_def all_found_def start_visited_def reached.from_source split: option.splits)


subsection \<open>Work and progress\<close>

lemma sum_worker_found:
  "list_all finished ws \<Longrightarrow> ws \<noteq> [] \<Longrightarrow>
   sum_list (map (scan_cost j) (concat (map found_by ws))) < sum_list (map (worker_cost j) ws)"
proof (induction ws)
  case (Cons w ws)
  then obtain new where "w = Finished new" by (cases w) auto
  with Cons show ?case by (cases ws) (auto simp: algebra_simps)
qed simp

lemma unseen_cost:
  assumes "finite U" "g \<in> U" "g \<notin> V"
  shows "(\<Sum>x\<in>U - V. scan_cost j x) = scan_cost j g + (\<Sum>x\<in>U - insert g V. scan_cost j x)"
proof -
  have "U - V = insert g (U - insert g V)" using assms by auto
  then have "(\<Sum>x\<in>U - V. scan_cost j x) = (\<Sum>x\<in>insert g (U - insert g V). scan_cost j x)" by (rule arg_cong)
  also have "\<dots> = scan_cost j g + (\<Sum>x\<in>U - insert g V. scan_cost j x)" using assms(1) by (subst sum.insert) auto
  finally show ?thesis .
qed

lemma scan_work_step:
  assumes "scan_ok j st" "finite (fs_files (job_fs j))" "readable_has_stat (job_fs j)" "job_step j i st = Some st'"
  shows "scan_work j st' < scan_work j st"
  using assms(4)
proof (cases rule: scan_step_cases)
  case level
  then have "sum_list (map (worker_cost j) (ss_workers st')) < sum_list (map (worker_cost j) (ss_workers st))"
    using sum_worker_found [of "ss_workers st" j] by (simp add: comp_def)
  moreover have "ss_visited st' = ss_visited st" using level by simp
  ultimately show ?thesis by (simp add: scan_work_def)
next
  case (load xs f ys cache ds)
  then have "reached j f" using scan_okD(4) [OF assms(1), of "Pending f"] by simp
  from load_coherent(1) [OF scan_okD(9) [OF assms(1)] assms(3) reached_normal [OF this] load(2)]
  have "ds = job_dirs j f" .
  then have "worker_cost j (case ds of Some es \<Rightarrow> Running f es empty_batch | None \<Rightarrow> Finished []) < worker_cost j (Pending f)"
    by (simp add: scan_cost_def split: option.splits)
  with load show ?thesis by (simp add: scan_work_def)
next
  case (directive xs f d ds b ys visited b')
  from directive(2) show ?thesis
  proof (cases rule: take_directive_cases)
    case (found g)
    then have "g \<in> fs_files (job_fs j)" by (auto dest: resolve_include_file)
    with directive found assms(2) unseen_cost [of _ g "ss_visited st" j] show ?thesis
      by (simp add: scan_work_def)
  next
    case quiet
    with directive show ?thesis by (simp add: scan_work_def)
  qed
next
  case flush
  then show ?thesis by (simp add: scan_work_def)
qed

lemma first_unfinished_spec:
  "\<not> list_all finished ws \<Longrightarrow> first_unfinished ws < length ws \<and> \<not> finished (ws ! first_unfinished ws)"
  by (induction ws) auto

lemma scan_moves:
  assumes "\<not> scan_done st"
  shows "job_step j (first_unfinished (ss_workers st)) st \<noteq> None"
proof (cases "list_all finished (ss_workers st)")
  case True
  with assms show ?thesis by (simp add: scan_step_def scan_done_def)
next
  case False
  from first_unfinished_spec [OF this]
  show ?thesis
    using False assms
    by (cases "ss_workers st ! first_unfinished (ss_workers st)")
       (auto simp: scan_step_def scan_one_level_def scan_done_def Let_def split: list.splits prod.splits)
qed

abbreviation well_run :: "scan_job \<Rightarrow> scan_state \<Rightarrow> bool" where
  "well_run j st \<equiv> scan_ok j st \<and> finite (fs_files (job_fs j)) \<and> readable_has_stat (job_fs j)"

interpretation pool: scheduled "job_step j" "well_run j" "scan_work j" scan_done
    "\<lambda>st. first_unfinished (ss_workers st)" for j
  by unfold_locales (auto intro: scan_ok_step scan_work_step simp: scan_moves)

text \<open>The loop in frontier order is a run, and it ends.\<close>

lemma frontier_loop_runs:
  assumes "well_run j st"
  shows "\<exists>is t. frontier_loop (job_fs j) (job_search j) (job_retain j) st = Some t \<and>
    run_schedule (job_step j) st is = Some t \<and> scan_done t"
  using assms
proof (induction "scan_work j st" arbitrary: st rule: less_induct)
  case less
  let ?i = "first_unfinished (ss_workers st)"
  show ?case
  proof (cases "scan_done st")
    case True
    then have "job_step j ?i st = None" by (simp add: scan_step_def scan_done_def)
    with True have "frontier_loop (job_fs j) (job_search j) (job_retain j) st = Some st \<and>
        run_schedule (job_step j) st [] = Some st \<and> scan_done st"
      by (simp add: frontier_loop.simps)
    then show ?thesis by blast
  next
    case False
    with scan_moves obtain u where u: "job_step j ?i st = Some u" by blast
    with less pool.keeps pool.spends obtain "is" t where
      "frontier_loop (job_fs j) (job_search j) (job_retain j) u = Some t"
      "run_schedule (job_step j) u is = Some t" "scan_done t" by meson
    with u have "frontier_loop (job_fs j) (job_search j) (job_retain j) st = Some t \<and>
        run_schedule (job_step j) st (?i # is) = Some t \<and> scan_done t"
      by (simp add: frontier_loop.simps [of _ _ _ st])
    then show ?thesis by blast
  qed
qed

subsection \<open>The result\<close>

lemma done_reached:
  assumes "scan_ok j st" "scan_done st" "reached j f"
  shows "(f = Paths.normalize (job_source j) \<or> f \<in> set (ss_resolved st)) \<and> closed_file j st f"
proof -
  have found: "all_found st = ss_resolved st" using assms(2) by (simp add: scan_done_def all_found_def)
  have closed: "closed_file j st g" if "g = Paths.normalize (job_source j) \<or> g \<in> set (ss_resolved st)" for g
    using scan_okD(6) [OF assms(1), of g] that assms(2) found by (auto simp: scan_done_def)
  from assms(3) have "f = Paths.normalize (job_source j) \<or> f \<in> set (ss_resolved st)"
  proof (induction rule: reached.induct)
    case (by_include f ds g)
    then have "g \<in> ss_visited st" using closed [of f] by (auto simp: closed_file_def)
    with by_include show ?case
      using scan_okD(2) [OF assms(1)] found by (auto simp: start_visited_def split: option.splits)
  qed simp
  with closed show ?thesis by blast
qed

definition scan_exact :: "scan_job \<Rightarrow> scan_result \<Rightarrow> bool" where
  "scan_exact j r \<longleftrightarrow>
     distinct (sr_resolved r) \<and> set (sr_resolved r) = included j \<and>
     set (sr_unresolved r) = {u. \<exists>f ds. reached j f \<and> job_dirs j f = Some ds \<and> u \<in> misses j f ds} \<and>
     (sr_has_computed r \<longleftrightarrow> (\<exists>f ds. reached j f \<and> job_dirs j f = Some ds \<and> computes ds))"

lemma done_exact:
  assumes "scan_ok j st" "scan_done st"
  shows "scan_exact j (scan_output st)"
proof -
  have found: "all_found st = ss_resolved st" using assms(2) by (simp add: scan_done_def all_found_def)
  have "included j \<subseteq> set (ss_resolved st)"
  proof
    fix g assume "g \<in> included j"
    then obtain f ds where g: "reached j f" "job_dirs j f = Some ds" "g \<in> targets j f ds"
      "try_normalize (job_fs j) (job_source j) \<noteq> Some g" by (auto simp: included_def)
    with done_reached [OF assms g(1)] have "g \<in> ss_visited st" by (auto simp: closed_file_def)
    with g(4) show "g \<in> set (ss_resolved st)"
      using scan_okD(2) [OF assms(1)] found by (auto simp: start_visited_def split: option.splits)
  qed
  moreover have "set (ss_resolved st) \<subseteq> included j" "distinct (ss_resolved st)"
    using scan_okD(1,3) [OF assms(1)] found by simp_all
  moreover have "set (ss_unresolved st) = {u. \<exists>f ds. reached j f \<and> job_dirs j f = Some ds \<and> u \<in> misses j f ds}"
    using scan_okD(7) [OF assms(1)] done_reached [OF assms] by (fastforce simp: closed_file_def)
  moreover have "ss_computed st \<longleftrightarrow> (\<exists>f ds. reached j f \<and> job_dirs j f = Some ds \<and> computes ds)"
    using scan_okD(8) [OF assms(1)] done_reached [OF assms] by (fastforce simp: closed_file_def)
  ultimately show ?thesis by (auto simp: scan_exact_def scan_output_def)
qed


lemma scan_init_well_run:
  "finite (fs_files (job_fs j)) \<Longrightarrow> readable_has_stat (job_fs j) \<Longrightarrow> memo_coherent (job_fs j) cache \<Longrightarrow>
   well_run j (scan_init (job_fs j) (job_source j) cache)"
  by (simp add: scan_ok_init)

text \<open>
  C11. The parallel include scan computes the include closure.  On a finite file system and with a
  coherent memo, whatever the schedule of the workers: a completed scan lists every header reached
  from the source once and nothing else, the missing names are exactly those that some reached file
  mentions and nothing resolves, the macro flag is set exactly if a reached file includes a macro,
  and the memo is still coherent.
\<close>

theorem scan_computes_closure:
  assumes "finite (fs_files (job_fs j))" "readable_has_stat (job_fs j)" "memo_coherent (job_fs j) cache"
    and "run_schedule (job_step j) (scan_init (job_fs j) (job_source j) cache) sched = Some st" "scan_done st"
  shows "scan_exact j (scan_output st) \<and> memo_coherent (job_fs j) (ss_cache st)"
  using pool.run_keeps [OF scan_init_well_run [OF assms(1-3)] assms(4)] done_exact assms(5)
  by (auto dest: scan_okD(9))

definition demo_files :: "(string \<times> string) list" where
  "demo_files =
     [(''/w/a.c'', ''#include '' @ [CHR 0x22] @ ''b.h'' @ [CHR 0x22, nl] @ ''#include <c.h>'' @ [nl]),
      (''/w/b.h'', ''#include '' @ [CHR 0x22] @ ''a.c'' @ [CHR 0x22, nl] @ ''#include <gone.h>''),
      (''/i/c.h'', ''#include <../w/b.h>'' @ [nl] @ ''#include CONFIG'')]"

definition demo_fs :: file_system where
  "demo_fs =
     \<lparr> fs_is_file = (\<lambda>p. dm_has demo_files (Paths.normalize p)),
       fs_canonicalize = (\<lambda>p. if dm_has demo_files (Paths.normalize p) then Some (Paths.normalize p) else None),
       fs_read = (\<lambda>p. dm_get demo_files p),
       fs_metadata = (\<lambda>p. map_option (\<lambda>s. (length s, Some 0)) (dm_get demo_files p)),
       fs_wide_alphanumeric = (\<lambda>ch. False) \<rparr>"

definition demo_job :: scan_job where
  "demo_job =
     \<lparr> job_fs = demo_fs,
       job_search = \<lparr> isp_iquote = [], isp_user = [''/i''], isp_system = [], isp_after = [] \<rparr>,
       job_retain = (\<lambda>_ _ _. True), job_source = ''/w/./a.c'' \<rparr>"

lemma demo_fs_files: "fs_files demo_fs \<subseteq> fst ` set demo_files"
  by (auto simp: fs_files_def demo_fs_def scan_normalize_def try_normalize_def dm_has_def normalize_twice
      dest: map_of_SomeD intro: rev_image_eqI)

lemma demo_fs_ok: "finite (fs_files (job_fs demo_job))" "readable_has_stat (job_fs demo_job)"
  using finite_subset [OF demo_fs_files]
  by (auto simp: demo_job_def readable_has_stat_def demo_fs_def)

theorem scan_computes_closure_witness:
  "included demo_job = {''/w/b.h'', ''/i/c.h''}"
proof -
  let ?run = "run_schedule (job_step demo_job) (scan_init (job_fs demo_job) (job_source demo_job) None)
    [0, 0, 0, 0, 0, 0, 1, 1, 0, 1, 0, 1, 0, 0]"
  have "map_option (\<lambda>st. (scan_done st, sr_resolved (scan_output st))) ?run = Some (True, [''/w/b.h'', ''/i/c.h''])"
    by code_simp
  then obtain st where st: "?run = Some st" "scan_done st" "sr_resolved (scan_output st) = [''/w/b.h'', ''/i/c.h'']"
    by (elim map_option_eq_Some [THEN iffD1, elim_format]) blast
  from scan_computes_closure [OF demo_fs_ok memo_coherent_simps(1) st(1,2)] st(3) show ?thesis
    by (simp add: scan_exact_def)
qed


lemma step_keeps_memo: "job_step j i st = Some st' \<Longrightarrow> ss_cache st' = None \<longleftrightarrow> ss_cache st = None"
  by (erule scan_step_cases) (auto simp: load_directives_def split: option.splits prod.splits)

lemma run_keeps_memo:
  "run_schedule (job_step j) st is = Some st' \<Longrightarrow> ss_cache st' = None \<longleftrightarrow> ss_cache st = None"
  by (induction "is" arbitrary: st) (auto dest: step_keeps_memo split: option.splits)

lemma scan_impl_exact:
  assumes "finite (fs_files (job_fs j))" "readable_has_stat (job_fs j)" "memo_coherent (job_fs j) cache"
  shows "\<exists>r cache'. scan_recursive_impl (job_fs j) (job_source j) (job_search j) cache (job_retain j) = Some (r, cache') \<and>
    scan_exact j r \<and> memo_coherent (job_fs j) cache' \<and> (cache' = None \<longleftrightarrow> cache = None)"
proof -
  obtain "is" t where loop: "frontier_loop (job_fs j) (job_search j) (job_retain j) (scan_init (job_fs j) (job_source j) cache) = Some t"
    and run: "run_schedule (job_step j) (scan_init (job_fs j) (job_source j) cache) is = Some t" and d: "scan_done t"
    using frontier_loop_runs [OF scan_init_well_run [OF assms]] by blast
  from pool.run_keeps [OF scan_init_well_run [OF assms] run] have "scan_ok j t" by blast
  moreover from run_keeps_memo [OF run] have "ss_cache t = None \<longleftrightarrow> cache = None" by (simp add: scan_init_def)
  ultimately show ?thesis using loop d done_exact [of j t] scan_okD(9) [of j t]
    by (simp add: scan_recursive_impl_def)
qed

text \<open>
  C14. The scan ends under every schedule, even when headers include each other in circles: no
  schedule has more moves than the work at the start, which counts the directives of every file
  once; a scan that is not complete can always move, so every run extends to a complete one; and the
  scan in frontier order returns.
\<close>

theorem scan_terminates:
  assumes "finite (fs_files (job_fs j))" "readable_has_stat (job_fs j)" "memo_coherent (job_fs j) cache"
  defines "start \<equiv> scan_init (job_fs j) (job_source j) cache"
  shows "(\<forall>sched st. run_schedule (job_step j) start sched = Some st \<longrightarrow>
            length sched \<le> scan_work j start \<and>
            (\<exists>more fin. run_schedule (job_step j) st more = Some fin \<and> scan_done fin)) \<and>
         scan_recursive_impl (job_fs j) (job_source j) (job_search j) cache (job_retain j) \<noteq> None"
proof -
  have ok: "well_run j start" unfolding start_def by (rule scan_init_well_run [OF assms(1-3)])
  have "length sched \<le> scan_work j start" if "run_schedule (job_step j) start sched = Some st" for sched st
    using pool.run_bounded [OF ok that] by simp
  moreover have "\<exists>more fin. run_schedule (job_step j) st more = Some fin \<and> scan_done fin"
    if "run_schedule (job_step j) start sched = Some st" for sched st
    using pool.picks_complete [OF pool.run_keeps [OF ok that]] .
  ultimately show ?thesis using scan_impl_exact [OF assms(1-3)] by auto
qed

theorem scan_terminates_witness:
  "\<exists>r. scan_recursive demo_fs ''/w/./a.c'' \<lparr> isp_iquote = [], isp_user = [''/i''], isp_system = [], isp_after = [] \<rparr> = Some r"
  using scan_terminates [OF demo_fs_ok, of None]
  by (auto simp: scan_recursive_def demo_job_def)

text \<open>
  The memo of parsed directives changes no scan: with a coherent memo, such as a fresh or
  cleared one, the scan returns the same headers, the same missing names and the same macro flag as
  without a memo, and leaves the memo coherent for the next scan.
\<close>

theorem memo_changes_nothing:
  assumes "finite (fs_files fs)" "readable_has_stat fs" "memo_coherent fs (Some c)"
  shows "\<exists>plain memoed c'. scan_recursive fs source search = Some plain \<and>
    scan_recursive_cached fs source search c = Some (memoed, Some c') \<and>
    set (sr_resolved memoed) = set (sr_resolved plain) \<and> distinct (sr_resolved memoed) \<and>
    set (sr_unresolved memoed) = set (sr_unresolved plain) \<and>
    sr_has_computed memoed = sr_has_computed plain \<and> memo_coherent fs (Some c')"
proof -
  let ?j = "\<lparr> job_fs = fs, job_search = search, job_retain = \<lambda>_ _ _. True, job_source = source \<rparr>"
  from scan_impl_exact [of ?j None] assms obtain plain n where
    p: "scan_recursive_impl fs source search None (\<lambda>_ _ _. True) = Some (plain, n)" "scan_exact ?j plain"
    by auto
  from scan_impl_exact [of ?j "Some c"] assms obtain memoed cache where
    m: "scan_recursive_impl fs source search (Some c) (\<lambda>_ _ _. True) = Some (memoed, cache)"
      "scan_exact ?j memoed" "memo_coherent fs cache"
      and c': "cache \<noteq> None"
    by auto
  from c' p m show ?thesis
    by (auto simp: scan_recursive_def scan_recursive_cached_def scan_exact_def)
qed

theorem memo_changes_nothing_witness:
  "\<exists>plain memoed c'. scan_recursive demo_fs ''/w/a.c'' (job_search demo_job) = Some plain \<and>
    scan_recursive_cached demo_fs ''/w/a.c'' (job_search demo_job) scan_cache_new = Some (memoed, Some c') \<and>
    set (sr_resolved memoed) = set (sr_resolved plain)"
  using memo_changes_nothing [of demo_fs scan_cache_new "''/w/a.c''" "job_search demo_job"] demo_fs_ok
  by (auto simp: demo_job_def)


end
