(* ===== verification/MemoryEviction.thy ===== *)
theory MemoryEviction
  imports CacheSystem GraphInvariant
begin

text \<open>
  Memory-bounded eviction in the daemon (\<^verbatim>\<open>crates/zccache-daemon-core/src/daemon/eviction.rs\<close>
  and the sweep \<^verbatim>\<open>run_memory_eviction_pass\<close> of \<^verbatim>\<open>server/run.rs\<close>): the estimate of
  the memory the caches use, the plan of a sweep, its gentle and its forced write phases, and the
  loop that completes it.

  The shared state is the cache system, the dependency graph, the fast-hit cache, the artifact map
  (its entries by payload size) and the bytes of persistence tasks in flight.  Counts of live entries
  times their constants stay below the width of \<^verbatim>\<open>usize\<close> and are plain numbers.
\<close>

subsection \<open>Estimates\<close>

definition METADATA_ENTRY_BYTES :: nat where "METADATA_ENTRY_BYTES = 400"
definition JOURNAL_ENTRY_BYTES :: nat where "JOURNAL_ENTRY_BYTES = 280"
definition DEPGRAPH_FILE_BYTES :: nat where "DEPGRAPH_FILE_BYTES = 600"
definition DEPGRAPH_CONTEXT_BYTES :: nat where "DEPGRAPH_CONTEXT_BYTES = 2048"
definition FAST_HIT_ENTRY_BYTES :: nat where "FAST_HIT_ENTRY_BYTES = 200"
definition ARTIFACT_OVERHEAD_BYTES :: nat where "ARTIFACT_OVERHEAD_BYTES = 200"
definition FAST_HIT_BUDGET_TRIM_MAX_AGE :: nat where "FAST_HIT_BUDGET_TRIM_MAX_AGE = 5 * 10 ^ 9"

record fast_hit_entry =
  fh_clock :: clock
  fh_artifact_key_hex :: string
  fh_cached_at :: instant

record shared_state =
  sh_cache_system :: cache_system
  sh_dep_graph :: dep_graph
  sh_fast_hit_cache :: "(context_key, fast_hit_entry) dmap"
  sh_artifacts :: "(string, nat) dmap"
  sh_in_flight_bytes :: nat

record mem_snapshot =
  ms_metadata_entries :: nat
  ms_journal_entries :: nat
  ms_depgraph_files :: nat
  ms_depgraph_contexts :: nat
  ms_fast_hit_entries :: nat
  ms_artifact_entries :: nat
  ms_artifact_payload_bytes :: nat
  ms_in_flight_bytes :: nat
  ms_total_bytes :: nat

definition memory_snapshot :: "shared_state \<Rightarrow> mem_snapshot" where
  "memory_snapshot sh =
     (let metadata_entries = mc_len (cs_metadata (sh_cache_system sh));
          journal_entries = last_change_len (cs_journal (sh_cache_system sh));
          dg_stats = stats (sh_dep_graph sh);
          depgraph_files = st_file_count dg_stats;
          depgraph_contexts = st_context_count dg_stats;
          fast_hit_entries = length (sh_fast_hit_cache sh);
          artifact_entries = length (sh_artifacts sh)
      in \<lparr> ms_metadata_entries = metadata_entries, ms_journal_entries = journal_entries,
           ms_depgraph_files = depgraph_files, ms_depgraph_contexts = depgraph_contexts,
           ms_fast_hit_entries = fast_hit_entries, ms_artifact_entries = artifact_entries,
           ms_artifact_payload_bytes = sum_list (map snd (sh_artifacts sh)),
           ms_in_flight_bytes = sh_in_flight_bytes sh,
           ms_total_bytes =
             metadata_entries * METADATA_ENTRY_BYTES + journal_entries * JOURNAL_ENTRY_BYTES +
             depgraph_files * DEPGRAPH_FILE_BYTES + depgraph_contexts * DEPGRAPH_CONTEXT_BYTES +
             fast_hit_entries * FAST_HIT_ENTRY_BYTES + artifact_entries * ARTIFACT_OVERHEAD_BYTES +
             sh_in_flight_bytes sh \<rparr>)"

subsection \<open>The headroom target\<close>

text \<open>
  \<^verbatim>\<open>(budget_bytes as f64 * 0.9) as u64\<close>: doubles have 53 significant bits and round to
  nearest, ties to even; the literal is \<open>NINE_TENTHS / 2\<^sup>5\<^sup>3\<close>; the conversion truncates and saturates.
\<close>

fun bit_length :: "nat \<Rightarrow> nat" where
  "bit_length n = (if n = 0 then 0 else Suc (bit_length (n div 2)))"

declare bit_length.simps [simp del]

definition round_f64 :: "nat \<Rightarrow> nat" where
  "round_f64 m =
     (let k = bit_length m - 53; q = m div 2 ^ k; r = m mod 2 ^ k
      in if 2 * r < 2 ^ k \<or> 2 * r = 2 ^ k \<and> even q then q * 2 ^ k else (q + 1) * 2 ^ k)"

definition NINE_TENTHS :: nat where
  "NINE_TENTHS = 8106479329266893"

definition headroom_target :: "u64 \<Rightarrow> u64" where
  "headroom_target budget_bytes =
     min (2 ^ 64 - 1) (round_f64 (round_f64 budget_bytes * NINE_TENTHS) div 2 ^ 53)"

subsection \<open>Plans\<close>

record memory_eviction_plan =
  ep_metadata_candidates :: "eviction_candidate list"
  ep_target_bytes :: u64

definition metadata_candidate_count :: "memory_eviction_plan \<Rightarrow> nat" where
  "metadata_candidate_count plan = length (ep_metadata_candidates plan)"

definition completion_from :: "memory_eviction_plan \<Rightarrow> nat \<Rightarrow> eviction_candidate list \<Rightarrow> memory_eviction_plan" where
  "completion_from plan offset busy =
     \<lparr> ep_metadata_candidates =
         busy @ drop (min offset (length (ep_metadata_candidates plan))) (ep_metadata_candidates plan),
       ep_target_bytes = ep_target_bytes plan \<rparr>"

definition div_ceil :: "nat \<Rightarrow> nat \<Rightarrow> nat" where
  "div_ceil a b = (a + b - 1) div b"

definition plan_eviction_to_target_excluding ::
    "u64 \<Rightarrow> npath set \<Rightarrow> shared_state \<Rightarrow> memory_eviction_plan option" where
  "plan_eviction_to_target_excluding target_bytes protected_paths sh =
     (let snap = memory_snapshot sh
      in if ms_total_bytes snap \<le> target_bytes then None
         else
           (let to_free = ms_total_bytes snap - target_bytes;
                metadata_count = min (max (div_ceil to_free METADATA_ENTRY_BYTES) 1) (ms_metadata_entries snap);
                candidates = oldest_eviction_candidates (ms_metadata_entries snap) (cs_metadata (sh_cache_system sh))
            in Some \<lparr> ep_metadata_candidates =
                        take metadata_count (filter (\<lambda>c. ec_path c \<notin> protected_paths) candidates),
                      ep_target_bytes = target_bytes \<rparr>))"

definition plan_eviction_to_budget :: "u64 \<Rightarrow> shared_state \<Rightarrow> memory_eviction_plan option" where
  "plan_eviction_to_budget budget_bytes sh =
     (if ms_total_bytes (memory_snapshot sh) \<le> budget_bytes then None
      else plan_eviction_to_target_excluding (headroom_target budget_bytes) {} sh)"

subsection \<open>Write phases\<close>

record memory_eviction_outcome =
  eo_freed_bytes :: nat
  eo_items_removed :: nat
  eo_refreshed :: "eviction_candidate list"

record gentle_eviction_outcome =
  go_freed_bytes :: nat
  go_items_removed :: nat
  go_busy :: "eviction_candidate list"
  go_refreshed :: "eviction_candidate list"

definition remove_observed ::
    "(context_key, fast_hit_entry) dmap \<times> nat \<Rightarrow> context_key \<times> instant \<Rightarrow> (context_key, fast_hit_entry) dmap \<times> nat" where
  "remove_observed acc seen =
     (let (cache, removed) = acc; (key, observed_cached_at) = seen
      in case dm_get cache key of
           Some e \<Rightarrow> if fh_cached_at e = observed_cached_at then (dm_remove key cache, removed + 1) else (cache, removed)
         | None \<Rightarrow> (cache, removed))"

definition trim_fast_hit_cache_two_pass ::
    "instant \<Rightarrow> nat \<Rightarrow> (context_key, fast_hit_entry) dmap \<Rightarrow> (context_key, fast_hit_entry) dmap \<times> nat" where
  "trim_fast_hit_cache_two_pass now max_age cache =
     (let expired = map (\<lambda>(k, e). (k, fh_cached_at e)) (filter (\<lambda>(_, e). max_age < now - fh_cached_at e) cache)
      in foldl remove_observed (cache, 0) expired)"

text \<open>Priority 3: every context goes, with the files only they reference.\<close>

definition evict_depgraph ::
    "u64 \<Rightarrow> nat \<Rightarrow> shared_state \<Rightarrow> memory_eviction_outcome \<Rightarrow> shared_state \<times> memory_eviction_outcome" where
  "evict_depgraph now_ms to_free sh out =
     (let dg_stats = stats (sh_dep_graph sh)
      in if 0 < to_free \<and> 0 < st_context_count dg_stats then
           (let (g, removed) = trim_at 0 now_ms (sh_dep_graph sh);
                files_freed = st_file_count dg_stats - st_file_count (stats g)
            in (sh\<lparr>sh_dep_graph := g\<rparr>,
                out\<lparr> eo_freed_bytes := eo_freed_bytes out +
                       (removed * DEPGRAPH_CONTEXT_BYTES + files_freed * DEPGRAPH_FILE_BYTES),
                     eo_items_removed := eo_items_removed out + (removed + files_freed) \<rparr>))
         else (sh, out))"

definition entries_to_evict :: "nat \<Rightarrow> cache_system \<Rightarrow> nat" where
  "entries_to_evict to_free cs =
     min (max (div_ceil to_free METADATA_ENTRY_BYTES) 1) (mc_len (cs_metadata cs))"

definition selected_candidates :: "memory_eviction_plan \<Rightarrow> nat \<Rightarrow> cache_system \<Rightarrow> eviction_candidate list" where
  "selected_candidates plan to_free cs =
     take (min (entries_to_evict to_free cs) (metadata_candidate_count plan)) (ep_metadata_candidates plan)"

text \<open>Priority 2: metadata and journal, then priority 3 unless candidates were refreshed or excluded.\<close>

definition evict_metadata ::
    "u64 \<Rightarrow> memory_eviction_plan \<Rightarrow> nat \<Rightarrow> shared_state \<Rightarrow> memory_eviction_outcome \<Rightarrow> shared_state \<times> memory_eviction_outcome" where
  "evict_metadata now_ms plan to_free sh out =
     (if 0 < to_free \<and> \<not> mc_is_empty (cs_metadata (sh_cache_system sh)) then
        (let selected = selected_candidates plan to_free (sh_cache_system sh);
             (cs, result, journal_removed) = cs_evict_candidates_detailed selected (sh_cache_system sh);
             freed = cer_removed result * METADATA_ENTRY_BYTES + journal_removed * JOURNAL_ENTRY_BYTES;
             sh' = sh\<lparr>sh_cache_system := cs\<rparr>;
             out' = \<lparr> eo_freed_bytes = eo_freed_bytes out + freed,
                      eo_items_removed = eo_items_removed out + (cer_removed result + journal_removed),
                      eo_refreshed = eo_refreshed out @ cer_refreshed result \<rparr>
         in if cer_removed result < length selected then (sh', out')
            else if length selected < entries_to_evict to_free (sh_cache_system sh) then (sh', out')
            else evict_depgraph now_ms (to_free - freed) sh' out')
      else evict_depgraph now_ms to_free sh out)"

definition evict_to_budget_with_plan_detailed ::
    "instant \<Rightarrow> u64 \<Rightarrow> memory_eviction_plan \<Rightarrow> shared_state \<Rightarrow> shared_state \<times> memory_eviction_outcome" where
  "evict_to_budget_with_plan_detailed now now_ms plan sh =
     (let snap = memory_snapshot sh;
          none = \<lparr> eo_freed_bytes = 0, eo_items_removed = 0, eo_refreshed = [] \<rparr>
      in if ms_total_bytes snap \<le> ep_target_bytes plan then (sh, none)
         else
           (let to_free = ms_total_bytes snap - ep_target_bytes plan
            in if 0 < to_free \<and> 0 < ms_fast_hit_entries snap then
                 (let (cache, removed) =
                        trim_fast_hit_cache_two_pass now FAST_HIT_BUDGET_TRIM_MAX_AGE (sh_fast_hit_cache sh);
                      freed = removed * FAST_HIT_ENTRY_BYTES
                  in evict_metadata now_ms plan (to_free - freed) (sh\<lparr>sh_fast_hit_cache := cache\<rparr>)
                       \<lparr> eo_freed_bytes = freed, eo_items_removed = removed, eo_refreshed = [] \<rparr>)
               else evict_metadata now_ms plan to_free sh none))"

definition try_evict_metadata_plan ::
    "(npath \<Rightarrow> bool) \<Rightarrow> memory_eviction_plan \<Rightarrow> nat \<Rightarrow> nat \<Rightarrow> cache_system \<Rightarrow> cache_system \<times> gentle_eviction_outcome" where
  "try_evict_metadata_plan busy plan offset max_candidates cs =
     (let start = min offset (metadata_candidate_count plan);
          end' = min (start + max_candidates) (metadata_candidate_count plan);
          selected = take (end' - start) (drop start (ep_metadata_candidates plan));
          (cs', result) = cs_try_evict_candidates_detailed busy selected cs
      in (cs', \<lparr> go_freed_bytes = cer_removed result * METADATA_ENTRY_BYTES, go_items_removed = cer_removed result,
                 go_busy = cer_busy result, go_refreshed = cer_refreshed result \<rparr>))"

subsection \<open>The sweep\<close>

definition MEMORY_GC_GENTLE_BATCH :: nat where "MEMORY_GC_GENTLE_BATCH = 256"

record sweep =
  sw_state :: shared_state
  sw_total_freed :: nat
  sw_total_items :: nat
  sw_candidate_offset :: nat
  sw_gentle_finished :: bool
  sw_busy_candidates :: "eviction_candidate list"
  sw_protected_paths :: "npath set"

definition sweep_start :: "shared_state \<Rightarrow> sweep" where
  "sweep_start sh =
     \<lparr> sw_state = sh, sw_total_freed = 0, sw_total_items = 0, sw_candidate_offset = 0,
       sw_gentle_finished = False, sw_busy_candidates = [], sw_protected_paths = {} \<rparr>"

text \<open>A turn of the loop while requests are active and the deadline has not passed.\<close>

definition gentle_turn :: "(npath \<Rightarrow> bool) \<Rightarrow> memory_eviction_plan \<Rightarrow> sweep \<Rightarrow> sweep" where
  "gentle_turn busy plan sw =
     (if sw_gentle_finished sw then sw
      else
        (let (cs, outcome) = try_evict_metadata_plan busy plan (sw_candidate_offset sw) MEMORY_GC_GENTLE_BATCH
               (sh_cache_system (sw_state sw));
             sh = (sw_state sw)\<lparr>sh_cache_system := cs\<rparr>;
             offset = sw_candidate_offset sw + MEMORY_GC_GENTLE_BATCH
         in \<lparr> sw_state = sh,
              sw_total_freed = sw_total_freed sw + go_freed_bytes outcome,
              sw_total_items = sw_total_items sw + go_items_removed outcome,
              sw_candidate_offset = offset,
              sw_gentle_finished =
                (ms_total_bytes (memory_snapshot sh) \<le> ep_target_bytes plan \<or> metadata_candidate_count plan \<le> offset),
              sw_busy_candidates = sw_busy_candidates sw @ go_busy outcome,
              sw_protected_paths = sw_protected_paths sw \<union> set (map ec_path (go_refreshed outcome)) \<rparr>))"

definition forced_completion_stalled :: "nat \<Rightarrow> bool \<Rightarrow> nat \<Rightarrow> bool" where
  "forced_completion_stalled items_removed completion_had_candidates metadata_entries \<longleftrightarrow>
     items_removed = 0 \<and> \<not> completion_had_candidates \<and> metadata_entries = 0"

text \<open>
  A turn of the forced completion, at times the caller reads: either the sweep is over or there is a
  plan for the next turn.
\<close>

definition forced_turn ::
    "instant \<times> u64 \<Rightarrow> u64 \<Rightarrow> memory_eviction_plan \<Rightarrow> sweep \<Rightarrow> sweep \<times> memory_eviction_plan option" where
  "forced_turn clocks target_bytes completion_plan sw =
     (let completion_had_candidates = 0 < metadata_candidate_count completion_plan;
          (sh, outcome) = evict_to_budget_with_plan_detailed (fst clocks) (snd clocks) completion_plan (sw_state sw);
          protected = sw_protected_paths sw \<union> set (map ec_path (eo_refreshed outcome));
          sw' = sw\<lparr> sw_state := sh, sw_total_freed := sw_total_freed sw + eo_freed_bytes outcome,
                    sw_total_items := sw_total_items sw + eo_items_removed outcome,
                    sw_protected_paths := protected \<rparr>;
          current = memory_snapshot sh
      in if ms_total_bytes current \<le> target_bytes then (sw', None)
         else
           (case plan_eviction_to_target_excluding target_bytes protected sh of
              None \<Rightarrow> (sw', None)
            | Some next_plan \<Rightarrow>
                if 0 < ms_metadata_entries current \<and> metadata_candidate_count next_plan = 0 then (sw', None)
                else if forced_completion_stalled (eo_items_removed outcome) completion_had_candidates
                          (ms_metadata_entries current) then (sw', None)
                else (sw', Some next_plan)))"

partial_function (option) forced_loop ::
    "(nat \<Rightarrow> instant \<times> u64) \<Rightarrow> u64 \<Rightarrow> nat \<Rightarrow> memory_eviction_plan \<Rightarrow> sweep \<Rightarrow> sweep option" where
  "forced_loop clocks target_bytes n plan sw =
     (case forced_turn (clocks n) target_bytes plan sw of
        (sw', None) \<Rightarrow> Some sw'
      | (sw', Some next_plan) \<Rightarrow> forced_loop clocks target_bytes (n + 1) next_plan sw')"

declare forced_loop.simps [code]

definition forced_completion ::
    "(nat \<Rightarrow> instant \<times> u64) \<Rightarrow> memory_eviction_plan \<Rightarrow> sweep \<Rightarrow> sweep option" where
  "forced_completion clocks plan sw =
     (let (cs, journal_removed) = cleanup_journal (sh_cache_system (sw_state sw));
          sh = (sw_state sw)\<lparr>sh_cache_system := cs\<rparr>;
          sw' = sw\<lparr> sw_state := sh,
                    sw_total_freed := sw_total_freed sw + journal_removed * JOURNAL_ENTRY_BYTES,
                    sw_total_items := sw_total_items sw + journal_removed \<rparr>
      in if ms_total_bytes (memory_snapshot sh) \<le> ep_target_bytes plan then Some sw'
         else forced_loop clocks (ep_target_bytes plan) 0
                (completion_from plan (sw_candidate_offset sw) (sw_busy_candidates sw)) sw')"

text \<open>
  The whole pass: turns that find requests active run gentle evictions, with other requests changing
  the shared state in between; then the sweep is completed.
\<close>

datatype sweep_event = Gentle "npath \<Rightarrow> bool" | Traffic shared_state

fun sweep_step :: "memory_eviction_plan \<Rightarrow> sweep \<Rightarrow> sweep_event \<Rightarrow> sweep" where
  "sweep_step plan sw (Gentle busy) = gentle_turn busy plan sw"
| "sweep_step plan sw (Traffic sh) = sw\<lparr>sw_state := sh\<rparr>"

definition run_memory_eviction_pass ::
    "(nat \<Rightarrow> instant \<times> u64) \<Rightarrow> u64 \<Rightarrow> sweep_event list \<Rightarrow> shared_state \<Rightarrow> (shared_state \<times> nat \<times> nat) option" where
  "run_memory_eviction_pass clocks budget events sh =
     (case plan_eviction_to_budget budget sh of
        None \<Rightarrow> Some (sh, 0, 0)
      | Some plan \<Rightarrow>
          map_option (\<lambda>sw. (sw_state sw, sw_total_freed sw, sw_total_items sw))
            (forced_completion clocks plan (foldl (sweep_step plan) (sweep_start sh) events)))"

end
