(* ===== verification/EvictionLaws.thy ===== *)
theory EvictionLaws
  imports MemoryEviction
begin

text \<open>
  The accounting of memory eviction is exact, the headroom target is below the budget, and the forced
  completion of a sweep ends with the target met or with nothing left that it may evict.
\<close>

subsection \<open>Counting\<close>

definition mem_total :: "shared_state \<Rightarrow> nat" where
  "mem_total sh = ms_total_bytes (memory_snapshot sh)"

text \<open>The entries a sweep can remove.\<close>

definition mem_items :: "shared_state \<Rightarrow> nat" where
  "mem_items sh =
     length (mc_entries (cs_metadata (sh_cache_system sh))) + length (cj_last_change (cs_journal (sh_cache_system sh))) +
     length (dg_files (sh_dep_graph sh)) + length (dg_contexts (sh_dep_graph sh)) + length (sh_fast_hit_cache sh)"

definition mem_ok :: "shared_state \<Rightarrow> bool" where
  "mem_ok sh \<longleftrightarrow> dm_wf (mc_entries (cs_metadata (sh_cache_system sh))) \<and> dm_wf (dg_contexts (sh_dep_graph sh)) \<and>
     dm_wf (sh_fast_hit_cache sh)"

text \<open>
  A balanced write: the books agree with the state before and after, and what eviction must not
  touch is untouched.
\<close>

definition balanced :: "shared_state \<Rightarrow> shared_state \<Rightarrow> nat \<Rightarrow> nat \<Rightarrow> bool" where
  "balanced sh sh' freed items \<longleftrightarrow>
     mem_ok sh' \<and> mem_total sh' + freed = mem_total sh \<and> mem_items sh' + items = mem_items sh \<and>
     length (mc_entries (cs_metadata (sh_cache_system sh'))) \<le> length (mc_entries (cs_metadata (sh_cache_system sh))) \<and>
     length (cj_last_change (cs_journal (sh_cache_system sh'))) \<le> length (cj_last_change (cs_journal (sh_cache_system sh))) \<and>
     length (dg_files (sh_dep_graph sh')) \<le> length (dg_files (sh_dep_graph sh)) \<and>
     length (dg_contexts (sh_dep_graph sh')) \<le> length (dg_contexts (sh_dep_graph sh)) \<and>
     length (sh_fast_hit_cache sh') \<le> length (sh_fast_hit_cache sh) \<and>
     sh_artifacts sh' = sh_artifacts sh \<and> sh_in_flight_bytes sh' = sh_in_flight_bytes sh"

lemma balanced_refl: "mem_ok sh \<Longrightarrow> balanced sh sh 0 0"
  by (simp add: balanced_def)

lemma balanced_trans:
  "balanced sh sh' freed items \<Longrightarrow> balanced sh' sh'' freed' items' \<Longrightarrow>
   balanced sh sh'' (freed + freed') (items + items')"
  by (auto simp: balanced_def)

lemma balanced_idle:
  assumes "balanced sh sh' freed 0"
  shows "length (mc_entries (cs_metadata (sh_cache_system sh'))) = length (mc_entries (cs_metadata (sh_cache_system sh)))"
  using assms unfolding balanced_def mem_items_def by linarith

lemmas byte_defs = METADATA_ENTRY_BYTES_def JOURNAL_ENTRY_BYTES_def DEPGRAPH_FILE_BYTES_def
  DEPGRAPH_CONTEXT_BYTES_def FAST_HIT_ENTRY_BYTES_def ARTIFACT_OVERHEAD_BYTES_def

lemmas snapshot_simps = memory_snapshot_def Let_def stats_def mc_len_def last_change_len_def

lemma remove_observed_run:
  "dm_wf (fst acc) \<Longrightarrow>
   dm_wf (fst (foldl remove_observed acc xs)) \<and> snd acc \<le> snd (foldl remove_observed acc xs) \<and>
   length (fst (foldl remove_observed acc xs)) + snd (foldl remove_observed acc xs) = length (fst acc) + snd acc"
proof (induction xs arbitrary: acc)
  case (Cons x xs)
  have "dm_wf (fst (remove_observed acc x)) \<and> snd acc \<le> snd (remove_observed acc x) \<and>
      length (fst (remove_observed acc x)) + snd (remove_observed acc x) = length (fst acc) + snd acc"
    using Cons.prems dm_keys_remove_length [of "fst acc" "fst x"]
    by (auto simp: remove_observed_def case_prod_beta Let_def split: option.splits)
  with Cons.IH [of "remove_observed acc x"] show ?case by auto
qed simp

lemma trim_fast_counts:
  assumes "dm_wf cache" "trim_fast_hit_cache_two_pass now age cache = (cache', n)"
  shows "dm_wf cache'" "length cache' + n = length cache"
  using remove_observed_run [of "(cache, 0)"] assms
  by (simp_all add: trim_fast_hit_cache_two_pass_def Let_def) (metis fst_conv snd_conv)+

lemma trim_fast_none:
  assumes wf: "dm_wf cache" and trim: "trim_fast_hit_cache_two_pass now age cache = (cache', 0)"
  shows "\<forall>(k, e)\<in>set cache. now - fh_cached_at e \<le> age"
proof (rule ccontr)
  let ?old = "filter (\<lambda>(_, e). age < now - fh_cached_at e) cache"
  assume "\<not> (\<forall>(k, e)\<in>set cache. now - fh_cached_at e \<le> age)"
  then have "?old \<noteq> []" by (fastforce simp: filter_empty_conv not_le)
  then obtain k e rest where old: "?old = (k, e) # rest" by (cases ?old) auto
  then have "(k, e) \<in> set ?old" by simp
  then have "(k, e) \<in> set cache" by simp
  with wf have "dm_get cache k = Some e" by (simp add: dm_in_set_iff)
  then have "remove_observed (cache, 0) (k, fh_cached_at e) = (dm_remove k cache, 1)"
    by (simp add: remove_observed_def)
  with trim old remove_observed_run [of "(dm_remove k cache, 1)" "map (\<lambda>(k, e). (k, fh_cached_at e)) rest"] wf
  show False by (simp add: trim_fast_hit_cache_two_pass_def)
qed

lemma evict_run_balance:
  "dm_wf (fst acc) \<Longrightarrow>
   length (fst (foldl (evict_one busy) acc cs)) + cer_removed (snd (foldl (evict_one busy) acc cs)) =
     length (fst acc) + cer_removed (snd acc)"
proof (induction cs arbitrary: acc)
  case (Cons c cs)
  have "length (fst (evict_one busy acc c)) + cer_removed (snd (evict_one busy acc c)) =
      length (fst acc) + cer_removed (snd acc)"
    using Cons.prems dm_keys_remove_length [of "fst acc" "ec_path c"]
    by (auto simp: evict_one_def case_prod_beta Let_def split: option.splits)
  moreover have "dm_wf (fst (evict_one busy acc c))"
    using evict_run_wf [of acc busy "[c]"] Cons.prems by simp
  ultimately show ?case using Cons.IH [of "evict_one busy acc c"] by simp
qed simp

lemma try_evict_counts:
  assumes "dm_wf (mc_entries mc)" "try_evict_candidates_detailed busy cs mc = (mc', result)"
  shows "dm_wf (mc_entries mc')" "length (mc_entries mc') + cer_removed result = length (mc_entries mc)"
proof -
  let ?start = "(mc_entries mc, \<lparr>cer_removed = 0, cer_busy = [], cer_refreshed = []\<rparr>)"
  from assms(2) have "mc_entries mc' = fst (foldl (evict_one busy) ?start cs)" "result = snd (foldl (evict_one busy) ?start cs)"
    by (auto simp: try_evict_candidates_detailed_def case_prod_beta Let_def mark_dirty_def split: if_splits)
  with assms(1) evict_run_wf [of ?start busy cs] evict_run_balance [of ?start busy cs]
  show "dm_wf (mc_entries mc')" "length (mc_entries mc') + cer_removed result = length (mc_entries mc)" by simp_all
qed

lemma cleanup_journal_counts:
  assumes "cleanup_journal cs = (cs', n)"
  shows "cs_metadata cs' = cs_metadata cs"
    "length (cj_last_change (cs_journal cs')) + n = length (cj_last_change (cs_journal cs))"
  using assms dm_retain_length_le by (auto simp: cleanup_journal_def retain_paths_def Let_def)

lemma remove_contexts_counts:
  assumes "dm_wf m"
  shows "length (fst (remove_contexts m ks)) + snd (remove_contexts m ks) = length m"
proof -
  have "dm_wf (fst acc) \<Longrightarrow>
     length (fst (foldl (\<lambda>(m, removed) k. if dm_has m k then (dm_remove k m, removed + 1) else (m, removed)) acc ks)) +
     snd (foldl (\<lambda>(m, removed) k. if dm_has m k then (dm_remove k m, removed + 1) else (m, removed)) acc ks) =
     length (fst acc) + snd acc" for acc :: "(context_key, context_entry) dmap \<times> nat"
  proof (induction ks arbitrary: acc)
    case (Cons k ks)
    then show ?case
      using dm_keys_remove_length [of "fst acc" k] Cons.IH [of "(dm_remove k (fst acc), snd acc + 1)"] Cons.IH [of acc]
      by (auto simp: case_prod_beta dm_has_def)
  qed simp
  from this [of "(m, 0)"] assms show ?thesis by (simp add: remove_contexts_def)
qed

lemma trim_all_counts:
  assumes "dm_wf (dg_contexts g)" "trim_at 0 now_ms g = (g', n)"
  shows "dg_contexts g' = []" "n = length (dg_contexts g)" "length (dg_files g') \<le> length (dg_files g)"
proof -
  let ?ks = "expired_contexts 0 now_ms g"
  have ks: "set ?ks = fst ` set (dg_contexts g)" by (auto simp: expired_contexts_def Let_def)
  have ctx: "dg_contexts g' = fst (remove_contexts (dg_contexts g) ?ks)"
    and n: "n = snd (remove_contexts (dg_contexts g) ?ks)"
    and files: "\<exists>P. dg_files g' = dm_retain P (dg_files g)"
    using assms(2) by (auto simp: trim_at_def evict_contexts_def dg_mark_dirty_def Let_def case_prod_beta split: if_splits)
  have "dm_get (dg_contexts g') i = None" for i
    using remove_contexts_get [OF assms(1), of ?ks i] ks unfolding ctx
    by (auto simp: map_of_eq_None_iff)
  then show nil: "dg_contexts g' = []" by (metis map_of_eq_None_iff list.set_intros(1) neq_Nil_conv imageI)
  show "n = length (dg_contexts g)" using remove_contexts_counts [OF assms(1), of ?ks] ctx n nil by simp
  show "length (dg_files g') \<le> length (dg_files g)" using files by auto
qed

subsection \<open>Balance\<close>

lemma evict_depgraph_balanced:
  assumes "mem_ok sh" "evict_depgraph now_ms to_free sh out = (sh', out')"
  shows "\<exists>freed items. balanced sh sh' freed items \<and> eo_freed_bytes out' = eo_freed_bytes out + freed \<and>
    eo_items_removed out' = eo_items_removed out + items \<and> eo_refreshed out' = eo_refreshed out \<and>
    (0 < to_free \<longrightarrow> dg_contexts (sh_dep_graph sh') = []) \<and> sh_cache_system sh' = sh_cache_system sh"
proof (cases "0 < to_free \<and> dg_contexts (sh_dep_graph sh) \<noteq> []")
  case True
  obtain g n where t: "trim_at 0 now_ms (sh_dep_graph sh) = (g, n)" by fastforce
  note c = trim_all_counts [OF _ t]
  let ?ff = "length (dg_files (sh_dep_graph sh)) - length (dg_files g)"
  have "sh' = sh\<lparr>sh_dep_graph := g\<rparr>"
    "eo_freed_bytes out' = eo_freed_bytes out + (n * DEPGRAPH_CONTEXT_BYTES + ?ff * DEPGRAPH_FILE_BYTES)"
    "eo_items_removed out' = eo_items_removed out + (n + ?ff)" "eo_refreshed out' = eo_refreshed out"
    using True assms(2) t by (auto simp: evict_depgraph_def stats_def Let_def)
  moreover have "balanced sh (sh\<lparr>sh_dep_graph := g\<rparr>) (n * DEPGRAPH_CONTEXT_BYTES + ?ff * DEPGRAPH_FILE_BYTES) (n + ?ff)"
    using assms(1) c
    by (auto simp: balanced_def mem_ok_def mem_total_def mem_items_def snapshot_simps byte_defs)
  ultimately show ?thesis using c assms(1) by (auto simp: mem_ok_def)
next
  case False
  with assms show ?thesis
    by (auto simp: evict_depgraph_def stats_def intro!: exI [of _ 0] balanced_refl)
qed


text \<open>Writing the metadata and the journal, with any candidates.\<close>

lemma evict_cache_system_balanced:
  assumes "mem_ok sh" "cs_evict_candidates_detailed cands (sh_cache_system sh) = (cs, result, n)"
  shows "balanced sh (sh\<lparr>sh_cache_system := cs\<rparr>)
    (cer_removed result * METADATA_ENTRY_BYTES + n * JOURNAL_ENTRY_BYTES) (cer_removed result + n)"
proof -
  obtain mc where mc: "evict_candidates_detailed cands (cs_metadata (sh_cache_system sh)) = (mc, result)"
    and cl: "cleanup_journal ((sh_cache_system sh)\<lparr>cs_metadata := mc\<rparr>) = (cs, n)"
    using assms(2) by (auto simp: cs_evict_candidates_detailed_def Let_def split: prod.splits)
  have "dm_wf (mc_entries mc)" "length (mc_entries mc) + cer_removed result = length (mc_entries (cs_metadata (sh_cache_system sh)))"
    using try_evict_counts [of "cs_metadata (sh_cache_system sh)" "\<lambda>_. False" cands mc result] mc assms(1)
    by (simp_all add: evict_candidates_detailed_def mem_ok_def)
  moreover note cleanup_journal_counts [OF cl]
  ultimately show ?thesis
    using assms(1)
    by (auto simp: balanced_def mem_ok_def mem_total_def mem_items_def snapshot_simps byte_defs)
qed

lemma evict_metadata_balanced:
  assumes ok: "mem_ok sh" and evict: "evict_metadata now_ms plan to_free sh out = (sh', out')"
  shows "\<exists>freed items. balanced sh sh' freed items \<and> eo_freed_bytes out' = eo_freed_bytes out + freed \<and>
    eo_items_removed out' = eo_items_removed out + items"
proof (cases "0 < to_free \<and> \<not> mc_is_empty (cs_metadata (sh_cache_system sh))")
  case True
  let ?sel = "selected_candidates plan to_free (sh_cache_system sh)"
  obtain cs result n where e: "cs_evict_candidates_detailed ?sel (sh_cache_system sh) = (cs, result, n)"
    by (metis prod_cases3)
  note b = evict_cache_system_balanced [OF ok e]
  let ?f = "cer_removed result * METADATA_ENTRY_BYTES + n * JOURNAL_ENTRY_BYTES"
  let ?out = "\<lparr> eo_freed_bytes = eo_freed_bytes out + ?f, eo_items_removed = eo_items_removed out + (cer_removed result + n),
      eo_refreshed = eo_refreshed out @ cer_refreshed result \<rparr>"
  have "(sh', out') = (sh\<lparr>sh_cache_system := cs\<rparr>, ?out) \<or>
      evict_depgraph now_ms (to_free - ?f) (sh\<lparr>sh_cache_system := cs\<rparr>) ?out = (sh', out')"
    using evict True e by (auto simp: evict_metadata_def Let_def split: if_splits)
  then show ?thesis
  proof
    assume "evict_depgraph now_ms (to_free - ?f) (sh\<lparr>sh_cache_system := cs\<rparr>) ?out = (sh', out')"
    with evict_depgraph_balanced [of "sh\<lparr>sh_cache_system := cs\<rparr>"] b obtain freed items where
      "balanced (sh\<lparr>sh_cache_system := cs\<rparr>) sh' freed items"
      "eo_freed_bytes out' = eo_freed_bytes ?out + freed" "eo_items_removed out' = eo_items_removed ?out + items"
      unfolding balanced_def by blast
    with balanced_trans [OF b] show ?thesis by (fastforce simp: add.assoc)
  qed (use b in auto)
next
  case False
  have "evict_depgraph now_ms to_free sh out = (sh', out')"
    using evict unfolding evict_metadata_def if_not_P [OF False] .
  from evict_depgraph_balanced [OF ok this] show ?thesis by blast
qed

lemma evict_plan_unfold:
  assumes "ep_target_bytes plan < mem_total sh"
    and "trim_fast_hit_cache_two_pass now FAST_HIT_BUDGET_TRIM_MAX_AGE (sh_fast_hit_cache sh) = (cache, n)"
  shows "evict_to_budget_with_plan_detailed now now_ms plan sh =
    evict_metadata now_ms plan (mem_total sh - ep_target_bytes plan - n * FAST_HIT_ENTRY_BYTES)
      (sh\<lparr>sh_fast_hit_cache := cache\<rparr>)
      \<lparr> eo_freed_bytes = n * FAST_HIT_ENTRY_BYTES, eo_items_removed = n, eo_refreshed = [] \<rparr>"
proof (cases "sh_fast_hit_cache sh = []")
  case True
  with assms(2) have "cache = []" "n = 0" by (simp_all add: trim_fast_hit_cache_two_pass_def)
  moreover from True have same: "sh\<lparr>sh_fast_hit_cache := []\<rparr> = sh" by (cases sh) simp
  ultimately show ?thesis
    using True assms(1) by (simp add: evict_to_budget_with_plan_detailed_def mem_total_def snapshot_simps same)
next
  case False
  with assms show ?thesis by (simp add: evict_to_budget_with_plan_detailed_def mem_total_def snapshot_simps)
qed

lemma trim_fast_balanced:
  assumes "mem_ok sh" "trim_fast_hit_cache_two_pass now age (sh_fast_hit_cache sh) = (cache, n)"
  shows "balanced sh (sh\<lparr>sh_fast_hit_cache := cache\<rparr>) (n * FAST_HIT_ENTRY_BYTES) n"
  using trim_fast_counts [OF _ assms(2)] assms(1)
  by (auto simp: balanced_def mem_ok_def mem_total_def mem_items_def snapshot_simps byte_defs)

lemma evict_plan_balanced:
  assumes ok: "mem_ok sh" and evict: "evict_to_budget_with_plan_detailed now now_ms plan sh = (sh', out)"
  shows "balanced sh sh' (eo_freed_bytes out) (eo_items_removed out)"
proof (cases "mem_total sh \<le> ep_target_bytes plan")
  case True
  with assms show ?thesis
    by (auto simp: evict_to_budget_with_plan_detailed_def mem_total_def [symmetric] Let_def intro: balanced_refl)
next
  case False
  obtain cache n where t: "trim_fast_hit_cache_two_pass now FAST_HIT_BUDGET_TRIM_MAX_AGE (sh_fast_hit_cache sh) = (cache, n)"
    by fastforce
  note b = trim_fast_balanced [OF ok t]
  from evict evict_plan_unfold [OF _ t, of plan now_ms] False evict_metadata_balanced b obtain freed items where
    "balanced (sh\<lparr>sh_fast_hit_cache := cache\<rparr>) sh' freed items"
    "eo_freed_bytes out = n * FAST_HIT_ENTRY_BYTES + freed" "eo_items_removed out = n + items"
    unfolding balanced_def by fastforce
  with balanced_trans [OF b] show ?thesis by simp
qed

subsection \<open>Progress\<close>

lemma plan_facts:
  assumes "mem_ok sh" "plan_eviction_to_target_excluding target prot sh = Some plan"
  shows "target < mem_total sh" "ep_target_bytes plan = target"
    "distinct (map ec_path (ep_metadata_candidates plan))"
    "\<forall>c\<in>set (ep_metadata_candidates plan). \<exists>e. dm_get (mc_entries (cs_metadata (sh_cache_system sh))) (ec_path c) = Some e \<and>
       fm_last_verified e = ec_last_verified c"
    "ep_metadata_candidates plan = [] \<Longrightarrow> set (map fst (mc_entries (cs_metadata (sh_cache_system sh)))) \<subseteq> prot"
proof -
  let ?m = "mc_entries (cs_metadata (sh_cache_system sh))"
  let ?all = "sort_key ec_last_verified (map candidate_of ?m)"
  let ?count = "min (max (div_ceil (mem_total sh - target) METADATA_ENTRY_BYTES) 1) (length ?m)"
  have wf: "dm_wf ?m" using assms(1) by (simp add: mem_ok_def)
  have all: "oldest_eviction_candidates (length ?m) (cs_metadata (sh_cache_system sh)) = ?all"
    by (auto simp: oldest_eviction_candidates_def case_prod_beta')
  have plan: "plan = \<lparr> ep_metadata_candidates = take ?count (filter (\<lambda>c. ec_path c \<notin> prot) ?all), ep_target_bytes = target \<rparr>"
    and "target < mem_total sh"
    using assms(2) all by (auto simp: plan_eviction_to_target_excluding_def mem_total_def mc_len_def memory_snapshot_def Let_def split: if_splits)
  then show "target < mem_total sh" "ep_target_bytes plan = target" by simp_all
  have "mset (map ec_path ?all) = mset (map fst ?m)" by (simp add: multiset.map_comp comp_def)
  from mset_eq_imp_distinct_iff [OF this] have "distinct (map ec_path ?all)" using wf by (simp only: dm_wf_def)
  then have "distinct (map ec_path (filter (\<lambda>c. ec_path c \<notin> prot) ?all))" by (rule distinct_map_filter)
  then show "distinct (map ec_path (ep_metadata_candidates plan))"
    unfolding plan by (simp only: memory_eviction_plan.select_convs take_map [symmetric] distinct_take)
  show "\<forall>c\<in>set (ep_metadata_candidates plan). \<exists>e. dm_get ?m (ec_path c) = Some e \<and> fm_last_verified e = ec_last_verified c"
    using wf unfolding plan by (auto dest!: in_set_takeD simp: dm_in_set_iff)
  show "set (map fst ?m) \<subseteq> prot" if "ep_metadata_candidates plan = []"
  proof (cases "?m = []")
    case False
    then have "?count \<noteq> 0" by (auto simp: min_def max_def)
    with that have "filter (\<lambda>c. ec_path c \<notin> prot) ?all = []"
      unfolding plan by (simp only: memory_eviction_plan.select_convs take_eq_Nil simp_thms)
    then show ?thesis by (force simp: filter_empty_conv)
  qed simp
qed

lemma evict_current:
  assumes ok: "mem_ok sh" and cur: "distinct (map ec_path cands)"
    "\<forall>c\<in>set cands. \<exists>e. dm_get (mc_entries (cs_metadata (sh_cache_system sh))) (ec_path c) = Some e \<and>
       fm_last_verified e = ec_last_verified c"
    and evict: "cs_evict_candidates_detailed cands (sh_cache_system sh) = (cs, result, n)"
  shows "cer_removed result = length cands"
proof -
  let ?mc = "cs_metadata (sh_cache_system sh)"
  let ?start = "(mc_entries ?mc, \<lparr>cer_removed = 0, cer_busy = [], cer_refreshed = []\<rparr>)"
  have "result = snd (foldl (evict_one (\<lambda>_. False)) ?start cands)"
    using evict by (auto simp: cs_evict_candidates_detailed_def evict_candidates_detailed_def
        try_evict_candidates_detailed_def case_prod_beta Let_def split: prod.splits)
  with evict_run_removed [of ?start cands] ok cur show ?thesis by (simp add: mem_ok_def)
qed

text \<open>A write phase that frees nothing found nothing it could free.\<close>

lemma evict_metadata_empty:
  assumes ok: "mem_ok sh" and "0 < to_free" "mc_entries (cs_metadata (sh_cache_system sh)) = []"
    and evict: "evict_metadata now_ms plan to_free sh out = (sh', out')"
  shows "dg_contexts (sh_dep_graph sh') = [] \<and> sh_cache_system sh' = sh_cache_system sh"
proof -
  have "evict_depgraph now_ms to_free sh out = (sh', out')"
    using evict assms(3) by (simp add: evict_metadata_def mc_is_empty_def)
  from evict_depgraph_balanced [OF ok this] assms(2) show ?thesis by auto
qed

lemma evict_metadata_removes:
  assumes ok: "mem_ok sh" and "0 < to_free" "ep_metadata_candidates plan \<noteq> []"
    and cur: "distinct (map ec_path (ep_metadata_candidates plan))"
    "\<forall>c\<in>set (ep_metadata_candidates plan). \<exists>e. dm_get (mc_entries (cs_metadata (sh_cache_system sh))) (ec_path c) = Some e \<and>
       fm_last_verified e = ec_last_verified c"
    and evict: "evict_metadata now_ms plan to_free sh out = (sh', out')"
  shows "eo_items_removed out < eo_items_removed out'"
proof -
  let ?sel = "selected_candidates plan to_free (sh_cache_system sh)"
  have some: "mc_entries (cs_metadata (sh_cache_system sh)) \<noteq> []"
    using assms(3) cur(2) by (cases "ep_metadata_candidates plan") auto
  then have ne: "?sel \<noteq> []"
    using assms(3) by (auto simp: selected_candidates_def entries_to_evict_def metadata_candidate_count_def mc_len_def)
  obtain cs result n where e: "cs_evict_candidates_detailed ?sel (sh_cache_system sh) = (cs, result, n)"
    by (metis prod_cases3)
  have "distinct (map ec_path ?sel)" "set ?sel \<subseteq> set (ep_metadata_candidates plan)"
    using cur(1) by (auto simp: selected_candidates_def dest: in_set_takeD simp flip: take_map)
  with evict_current [OF ok _ _ e] cur(2) have all: "cer_removed result = length ?sel" by blast
  let ?f = "cer_removed result * METADATA_ENTRY_BYTES + n * JOURNAL_ENTRY_BYTES"
  let ?out = "\<lparr> eo_freed_bytes = eo_freed_bytes out + ?f, eo_items_removed = eo_items_removed out + (cer_removed result + n),
      eo_refreshed = eo_refreshed out @ cer_refreshed result \<rparr>"
  have "(sh', out') = (sh\<lparr>sh_cache_system := cs\<rparr>, ?out) \<or>
      evict_depgraph now_ms (to_free - ?f) (sh\<lparr>sh_cache_system := cs\<rparr>) ?out = (sh', out')"
    using evict assms(2) some e by (auto simp: evict_metadata_def mc_is_empty_def Let_def split: if_splits)
  then have "eo_items_removed ?out \<le> eo_items_removed out'"
    using evict_depgraph_balanced [of "sh\<lparr>sh_cache_system := cs\<rparr>"] evict_cache_system_balanced [OF ok e]
    unfolding balanced_def by fastforce
  with all ne show ?thesis by (auto simp: neq_Nil_conv)
qed

lemma evict_plan_idle:
  assumes ok: "mem_ok sh" and "ep_target_bytes plan < mem_total sh"
    and evict: "evict_to_budget_with_plan_detailed now now_ms plan sh = (sh', out)" "eo_items_removed out = 0"
  shows "\<forall>(k, e)\<in>set (sh_fast_hit_cache sh). now - fh_cached_at e \<le> FAST_HIT_BUDGET_TRIM_MAX_AGE"
    "mc_entries (cs_metadata (sh_cache_system sh)) = [] \<Longrightarrow>
       dg_contexts (sh_dep_graph sh') = [] \<and> sh_cache_system sh' = sh_cache_system sh"
    "distinct (map ec_path (ep_metadata_candidates plan)) \<Longrightarrow>
       \<forall>c\<in>set (ep_metadata_candidates plan). \<exists>e. dm_get (mc_entries (cs_metadata (sh_cache_system sh))) (ec_path c) = Some e \<and>
         fm_last_verified e = ec_last_verified c \<Longrightarrow> ep_metadata_candidates plan = []"
proof -
  obtain cache n where t: "trim_fast_hit_cache_two_pass now FAST_HIT_BUDGET_TRIM_MAX_AGE (sh_fast_hit_cache sh) = (cache, n)"
    by fastforce
  let ?sh = "sh\<lparr>sh_fast_hit_cache := cache\<rparr>"
  let ?out = "\<lparr> eo_freed_bytes = n * FAST_HIT_ENTRY_BYTES, eo_items_removed = n, eo_refreshed = [] \<rparr>"
  let ?to_free = "mem_total sh - ep_target_bytes plan - n * FAST_HIT_ENTRY_BYTES"
  have ok': "mem_ok ?sh" using trim_fast_balanced [OF ok t] by (simp add: balanced_def)
  from evict(1) evict_plan_unfold [OF assms(2) t, of now_ms]
  have e: "evict_metadata now_ms plan ?to_free ?sh ?out = (sh', out)" by simp
  from evict_metadata_balanced [OF ok' e] evict(2) have n: "n = 0" by auto
  show "\<forall>(k, e)\<in>set (sh_fast_hit_cache sh). now - fh_cached_at e \<le> FAST_HIT_BUDGET_TRIM_MAX_AGE"
    using trim_fast_none [OF _ t [unfolded n]] ok by (simp add: mem_ok_def)
  from n assms(2) have pos: "0 < ?to_free" by simp
  show "dg_contexts (sh_dep_graph sh') = [] \<and> sh_cache_system sh' = sh_cache_system sh"
    if "mc_entries (cs_metadata (sh_cache_system sh)) = []"
    using evict_metadata_empty [OF ok' pos _ e] that by simp
  show "ep_metadata_candidates plan = []"
    if "distinct (map ec_path (ep_metadata_candidates plan))"
      "\<forall>c\<in>set (ep_metadata_candidates plan). \<exists>e. dm_get (mc_entries (cs_metadata (sh_cache_system sh))) (ec_path c) = Some e \<and>
         fm_last_verified e = ec_last_verified c"
    using evict_metadata_removes [OF ok' pos _ that(1) _ e] that(2) evict(2) n by auto
qed


subsection \<open>The forced completion\<close>

text \<open>
  A settled sweep: the target is met, or every file still known was used during the sweep, or only
  recent fast hits and what eviction must not touch are left.
\<close>

definition settled :: "u64 \<Rightarrow> instant \<Rightarrow> sweep \<Rightarrow> bool" where
  "settled target now sw \<longleftrightarrow>
     (let sh = sw_state sw; m = mc_entries (cs_metadata (sh_cache_system sh))
      in mem_total sh \<le> target \<or> m \<noteq> [] \<and> set (map fst m) \<subseteq> sw_protected_paths sw \<or>
         m = [] \<and> dg_contexts (sh_dep_graph sh) = [] \<and>
         (\<forall>(k, e)\<in>set (sh_fast_hit_cache sh). now - fh_cached_at e \<le> FAST_HIT_BUDGET_TRIM_MAX_AGE))"

definition next_plan_ok :: "u64 \<Rightarrow> sweep \<Rightarrow> memory_eviction_plan \<Rightarrow> bool" where
  "next_plan_ok target sw plan \<longleftrightarrow>
     plan_eviction_to_target_excluding target (sw_protected_paths sw) (sw_state sw) = Some plan \<and>
     (mc_entries (cs_metadata (sh_cache_system (sw_state sw))) \<noteq> [] \<longrightarrow> ep_metadata_candidates plan \<noteq> [])"

lemma evict_depgraph_fast: "sh_fast_hit_cache (fst (evict_depgraph now_ms to_free sh out)) = sh_fast_hit_cache sh"
  by (auto simp: evict_depgraph_def Let_def split: prod.splits)

lemma evict_metadata_fast:
  "sh_fast_hit_cache (fst (evict_metadata now_ms plan to_free sh out)) = sh_fast_hit_cache sh"
  by (auto simp: evict_metadata_def Let_def evict_depgraph_fast split: prod.splits)

lemma evict_plan_fast:
  assumes "mem_ok sh" "evict_to_budget_with_plan_detailed now now_ms plan sh = (sh', out)"
  shows "set (sh_fast_hit_cache sh') \<subseteq> set (sh_fast_hit_cache sh)"
proof (cases "mem_total sh \<le> ep_target_bytes plan")
  case True
  with assms show ?thesis by (simp add: evict_to_budget_with_plan_detailed_def mem_total_def Let_def)
next
  case False
  obtain cache n where t: "trim_fast_hit_cache_two_pass now FAST_HIT_BUDGET_TRIM_MAX_AGE (sh_fast_hit_cache sh) = (cache, n)"
    by fastforce
  have "set (fst (foldl remove_observed acc xs)) \<subseteq> set (fst acc)" for acc xs
    by (induction xs arbitrary: acc)
       (force simp: remove_observed_def dm_remove_def AList.delete_eq case_prod_beta Let_def
         split: option.splits if_splits)+
  from this [of "(sh_fast_hit_cache sh, 0)"] t have "set cache \<subseteq> set (sh_fast_hit_cache sh)"
    by (simp add: trim_fast_hit_cache_two_pass_def Let_def) (metis fst_conv)
  with assms(2) evict_plan_unfold [OF _ t, of plan now_ms] False evict_metadata_fast show ?thesis
    by (metis fst_conv linorder_not_le shared_state.select_convs(3) shared_state.update_convs(3) shared_state.surjective)
qed

lemma forced_turn_balanced:
  assumes "mem_ok (sw_state sw)" "forced_turn t target plan sw = (sw', r)"
  shows "\<exists>freed items. balanced (sw_state sw) (sw_state sw') freed items \<and>
    sw_total_freed sw' = sw_total_freed sw + freed \<and> sw_total_items sw' = sw_total_items sw + items"
proof -
  obtain sh out where e: "evict_to_budget_with_plan_detailed (fst t) (snd t) plan (sw_state sw) = (sh, out)" by fastforce
  have "sw_state sw' = sh" "sw_total_freed sw' = sw_total_freed sw + eo_freed_bytes out"
    "sw_total_items sw' = sw_total_items sw + eo_items_removed out"
    using assms(2) e by (auto simp: forced_turn_def Let_def split: if_splits option.splits)
  with evict_plan_balanced [OF assms(1) e] show ?thesis by blast
qed


lemma plan_None: "plan_eviction_to_target_excluding target prot sh = None \<longleftrightarrow> mem_total sh \<le> target"
  by (simp add: plan_eviction_to_target_excluding_def mem_total_def Let_def)

lemma snapshot_metadata: "ms_metadata_entries (memory_snapshot sh) = length (mc_entries (cs_metadata (sh_cache_system sh)))"
  by (simp add: memory_snapshot_def mc_len_def Let_def)

lemma forced_turn_continues:
  assumes "forced_turn t target plan sw = (sw', Some next_plan)"
  shows "next_plan_ok target sw' next_plan"
  using assms
  by (auto simp: forced_turn_def next_plan_ok_def Let_def metadata_candidate_count_def snapshot_metadata
      split: if_splits option.splits prod.splits)

lemma forced_turn_ends:
  assumes ok: "mem_ok (sw_state sw)" and target: "ep_target_bytes plan = target" "target < mem_total (sw_state sw)"
    and turn: "forced_turn t target plan sw = (sw', None)"
  shows "settled target (fst t) sw'"
proof -
  obtain sh out where e: "evict_to_budget_with_plan_detailed (fst t) (snd t) plan (sw_state sw) = (sh, out)" by fastforce
  note bal = evict_plan_balanced [OF ok e]
  have sw': "sw_state sw' = sh" "sw_protected_paths sw' = sw_protected_paths sw \<union> set (map ec_path (eo_refreshed out))"
    using turn e by (auto simp: forced_turn_def Let_def split: if_splits option.splits)
  let ?m = "mc_entries (cs_metadata (sh_cache_system sh))"
  have "mem_total sh \<le> target \<or>
      (\<exists>p. plan_eviction_to_target_excluding target (sw_protected_paths sw') sh = Some p \<and>
         ?m \<noteq> [] \<and> ep_metadata_candidates p = []) \<or>
      eo_items_removed out = 0 \<and> ?m = []"
    using turn e unfolding sw'(2)
    by (auto simp: forced_turn_def forced_completion_stalled_def Let_def metadata_candidate_count_def mem_total_def [symmetric]
        snapshot_metadata plan_None split: if_splits option.splits)
  then show ?thesis
  proof (elim disjE exE conjE)
    assume "mem_total sh \<le> target"
    then show ?thesis by (simp add: settled_def sw')
  next
    fix p assume p: "plan_eviction_to_target_excluding target (sw_protected_paths sw') sh = Some p" "?m \<noteq> []"
      "ep_metadata_candidates p = []"
    with plan_facts(5) [OF _ p(1)] bal show ?thesis by (simp add: settled_def sw' balanced_def)
  next
    assume idle: "eo_items_removed out = 0" "?m = []"
    with balanced_idle [of "sw_state sw" sh] bal have "mc_entries (cs_metadata (sh_cache_system (sw_state sw))) = []"
      by simp
    with idle(2) evict_plan_idle(1,2) [OF ok _ e idle(1)] target evict_plan_fast [OF ok e]
    show ?thesis by (auto simp: settled_def sw')
  qed
qed

lemma forced_turn_removes:
  assumes ok: "mem_ok (sw_state sw)" and plan: "next_plan_ok target sw plan"
    and turn: "forced_turn t target plan sw = (sw', Some next_plan)"
  shows "mem_items (sw_state sw') < mem_items (sw_state sw)"
proof (rule ccontr)
  assume stuck: "\<not> mem_items (sw_state sw') < mem_items (sw_state sw)"
  obtain sh out where e: "evict_to_budget_with_plan_detailed (fst t) (snd t) plan (sw_state sw) = (sh, out)" by fastforce
  have sh: "sw_state sw' = sh"
    and not_stalled: "\<not> forced_completion_stalled (eo_items_removed out) (0 < metadata_candidate_count plan)
      (ms_metadata_entries (memory_snapshot sh))"
    using turn e by (auto simp: forced_turn_def Let_def split: if_splits option.splits)
  from evict_plan_balanced [OF ok e] stuck have items: "eo_items_removed out = 0" and bal: "balanced (sw_state sw) sh (eo_freed_bytes out) 0"
    by (auto simp: balanced_def sh)
  from plan have p: "plan_eviction_to_target_excluding target (sw_protected_paths sw) (sw_state sw) = Some plan"
    by (simp add: next_plan_ok_def)
  note f = plan_facts [OF ok p]
  have none: "ep_metadata_candidates plan = []"
    using evict_plan_idle(3) [OF ok _ e items] f(1-4) by simp
  with plan have "mc_entries (cs_metadata (sh_cache_system (sw_state sw))) = []"
    by (auto simp: next_plan_ok_def)
  with balanced_idle [OF bal] have "ms_metadata_entries (memory_snapshot sh) = 0" by (simp add: snapshot_metadata)
  with not_stalled items none show False
    by (simp add: forced_completion_stalled_def metadata_candidate_count_def)
qed

lemma evict_run_refreshed:
  assumes "distinct (map ec_path cs)"
    and "\<forall>c \<in> set cs. \<exists>e. dm_get (fst acc) (ec_path c) = Some e \<and> fm_last_verified e = ec_last_verified c"
  shows "cer_refreshed (snd (foldl (evict_one (\<lambda>_. False)) acc cs)) = cer_refreshed (snd acc)"
  using assms
proof (induction cs arbitrary: acc)
  case (Cons c cs)
  then obtain e where e: "dm_get (fst acc) (ec_path c) = Some e" "fm_last_verified e = ec_last_verified c" by auto
  then have step: "evict_one (\<lambda>_. False) acc c =
      (dm_remove (ec_path c) (fst acc), (snd acc)\<lparr>cer_removed := cer_removed (snd acc) + 1\<rparr>)"
    by (simp add: evict_one_def case_prod_beta)
  have "\<forall>c' \<in> set cs. \<exists>e. dm_get (fst (evict_one (\<lambda>_. False) acc c)) (ec_path c') = Some e \<and>
      fm_last_verified e = ec_last_verified c'"
    using Cons.prems unfolding step by (force simp: image_iff)
  with Cons.IH [of "evict_one (\<lambda>_. False) acc c"] Cons.prems(1) show ?case by (simp add: step)
qed simp

definition current_plan :: "memory_eviction_plan \<Rightarrow> shared_state \<Rightarrow> bool" where
  "current_plan plan sh \<longleftrightarrow> distinct (map ec_path (ep_metadata_candidates plan)) \<and>
     (\<forall>c\<in>set (ep_metadata_candidates plan).
        \<exists>e. dm_get (mc_entries (cs_metadata (sh_cache_system sh))) (ec_path c) = Some e \<and> fm_last_verified e = ec_last_verified c)"

lemma evict_depgraph_refreshed: "eo_refreshed (snd (evict_depgraph now_ms to_free sh out)) = eo_refreshed out"
  by (auto simp: evict_depgraph_def Let_def split: prod.splits)

lemma evict_metadata_refreshed:
  assumes "current_plan plan sh"
  shows "eo_refreshed (snd (evict_metadata now_ms plan to_free sh out)) = eo_refreshed out"
proof -
  let ?sel = "selected_candidates plan to_free (sh_cache_system sh)"
  obtain cs result n where e: "cs_evict_candidates_detailed ?sel (sh_cache_system sh) = (cs, result, n)"
    by (metis prod_cases3)
  let ?start = "(mc_entries (cs_metadata (sh_cache_system sh)), \<lparr>cer_removed = 0, cer_busy = [], cer_refreshed = []\<rparr>)"
  have "result = snd (foldl (evict_one (\<lambda>_. False)) ?start ?sel)"
    using e by (auto simp: cs_evict_candidates_detailed_def evict_candidates_detailed_def
        try_evict_candidates_detailed_def case_prod_beta Let_def split: prod.splits)
  moreover have "distinct (map ec_path ?sel)" "set ?sel \<subseteq> set (ep_metadata_candidates plan)"
    using assms by (auto simp: current_plan_def selected_candidates_def dest: in_set_takeD simp flip: take_map)
  ultimately have "cer_refreshed result = []"
    using evict_run_refreshed [of ?sel ?start] assms by (auto simp: current_plan_def)
  with e show ?thesis by (simp add: evict_metadata_def evict_depgraph_refreshed Let_def)
qed

lemma evict_plan_refreshed:
  assumes "current_plan plan sh"
  shows "eo_refreshed (snd (evict_to_budget_with_plan_detailed now now_ms plan sh)) = []"
proof (cases "mem_total sh \<le> ep_target_bytes plan")
  case True
  then show ?thesis by (simp add: evict_to_budget_with_plan_detailed_def mem_total_def Let_def)
next
  case False
  obtain cache n where t: "trim_fast_hit_cache_two_pass now FAST_HIT_BUDGET_TRIM_MAX_AGE (sh_fast_hit_cache sh) = (cache, n)"
    by fastforce
  have "current_plan plan (sh\<lparr>sh_fast_hit_cache := cache\<rparr>)" using assms by (simp add: current_plan_def)
  then show ?thesis using evict_plan_unfold [OF _ t, of plan now_ms] False by (simp add: evict_metadata_refreshed)
qed

lemma forced_turn_protects:
  assumes "current_plan plan (sw_state sw)" "forced_turn t target plan sw = (sw', r)"
  shows "sw_protected_paths sw' = sw_protected_paths sw"
proof -
  obtain sh out where e: "evict_to_budget_with_plan_detailed (fst t) (snd t) plan (sw_state sw) = (sh, out)" by fastforce
  with evict_plan_refreshed [OF assms(1), of "fst t" "snd t"] have "eo_refreshed out = []" by simp
  with e assms(2) show ?thesis by (auto simp: forced_turn_def Let_def split: if_splits option.splits)
qed

lemma next_plan_current: "mem_ok (sw_state sw) \<Longrightarrow> next_plan_ok target sw plan \<Longrightarrow> current_plan plan (sw_state sw)"
  using plan_facts(3,4) unfolding current_plan_def next_plan_ok_def by blast

text \<open>What a completed sweep guarantees, relative to where it started.\<close>

definition completed :: "u64 \<Rightarrow> sweep \<Rightarrow> sweep \<Rightarrow> bool" where
  "completed target sw fin \<longleftrightarrow>
     (\<exists>freed items now. balanced (sw_state sw) (sw_state fin) freed items \<and>
        sw_total_freed fin = sw_total_freed sw + freed \<and> sw_total_items fin = sw_total_items sw + items \<and>
        settled target now fin)"

lemma completed_step:
  assumes "balanced (sw_state sw) (sw_state sw') freed items" "sw_total_freed sw' = sw_total_freed sw + freed"
    "sw_total_items sw' = sw_total_items sw + items" "completed target sw' fin"
  shows "completed target sw fin"
proof -
  from assms(4) obtain f' i' now where c: "balanced (sw_state sw') (sw_state fin) f' i'"
    "sw_total_freed fin = sw_total_freed sw' + f'" "sw_total_items fin = sw_total_items sw' + i'" "settled target now fin"
    by (auto simp: completed_def)
  with balanced_trans [OF assms(1) c(1)] assms(2,3) show ?thesis
    unfolding completed_def by (metis add.assoc)
qed

lemma forced_loop_next:
  assumes "mem_ok (sw_state sw)" "next_plan_ok target sw plan"
  shows "\<exists>fin. forced_loop clocks target n plan sw = Some fin \<and> completed target sw fin \<and>
    sw_protected_paths fin = sw_protected_paths sw"
  using assms
proof (induction "mem_items (sw_state sw)" arbitrary: n plan sw rule: less_induct)
  case less
  obtain sw' r where turn: "forced_turn (clocks n) target plan sw = (sw', r)" by fastforce
  obtain freed items where b: "balanced (sw_state sw) (sw_state sw') freed items"
    "sw_total_freed sw' = sw_total_freed sw + freed" "sw_total_items sw' = sw_total_items sw + items"
    using forced_turn_balanced [OF less.prems(1) turn] by blast
  have prot: "sw_protected_paths sw' = sw_protected_paths sw"
    using forced_turn_protects [OF next_plan_current [OF less.prems] turn] .
  show ?case
  proof (cases r)
    case None
    have "plan_eviction_to_target_excluding target (sw_protected_paths sw) (sw_state sw) = Some plan"
      using less.prems(2) by (simp add: next_plan_ok_def)
    with plan_facts(1,2) [OF less.prems(1)] forced_turn_ends [OF less.prems(1)] turn None
    have "settled target (fst (clocks n)) sw'" by blast
    with b have "completed target sw sw'" unfolding completed_def by blast
    with turn None prot show ?thesis by (simp add: forced_loop.simps)
  next
    case (Some next_plan)
    note turn' = turn [unfolded Some]
    have "mem_ok (sw_state sw')" using b by (simp add: balanced_def)
    from less.hyps [OF forced_turn_removes [OF less.prems turn'] this forced_turn_continues [OF turn'], of "n + 1"]
    obtain fin where "forced_loop clocks target (n + 1) next_plan sw' = Some fin" "completed target sw' fin"
      "sw_protected_paths fin = sw_protected_paths sw'" by blast
    with completed_step [OF b] turn' prot show ?thesis by (simp add: forced_loop.simps [of clocks target n])
  qed
qed

lemma forced_completion_completes:
  assumes ok: "mem_ok (sw_state sw)"
  shows "\<exists>fin. forced_completion clocks plan sw = Some fin \<and> completed (ep_target_bytes plan) sw fin \<and>
    (current_plan (completion_from plan (sw_candidate_offset sw) (sw_busy_candidates sw)) (sw_state sw) \<longrightarrow>
       sw_protected_paths fin = sw_protected_paths sw)"
proof -
  obtain cs n where c: "cleanup_journal (sh_cache_system (sw_state sw)) = (cs, n)" by fastforce
  let ?sh = "(sw_state sw)\<lparr>sh_cache_system := cs\<rparr>" and ?target = "ep_target_bytes plan"
  define sw1 where "sw1 = sw\<lparr> sw_state := ?sh, sw_total_freed := sw_total_freed sw + n * JOURNAL_ENTRY_BYTES,
      sw_total_items := sw_total_items sw + n \<rparr>"
  have b: "balanced (sw_state sw) (sw_state sw1) (n * JOURNAL_ENTRY_BYTES) n"
    using cleanup_journal_counts [OF c] ok
    by (auto simp: sw1_def balanced_def mem_ok_def mem_total_def mem_items_def snapshot_simps byte_defs)
  then have ok1: "mem_ok (sw_state sw1)" by (simp add: balanced_def)
  let ?plan = "completion_from plan (sw_candidate_offset sw) (sw_busy_candidates sw)"
  have fc: "forced_completion clocks plan sw =
      (if mem_total (sw_state sw1) \<le> ?target then Some sw1 else forced_loop clocks ?target 0 ?plan sw1)"
    by (simp add: forced_completion_def c mem_total_def sw1_def)
  have same: "current_plan ?plan (sw_state sw) \<longleftrightarrow> current_plan ?plan (sw_state sw1)"
    using cleanup_journal_counts(1) [OF c] by (simp add: current_plan_def sw1_def)
  have "\<exists>fin. forced_completion clocks plan sw = Some fin \<and> completed ?target sw1 fin \<and>
      (current_plan ?plan (sw_state sw1) \<longrightarrow> sw_protected_paths fin = sw_protected_paths sw1)"
  proof (cases "mem_total (sw_state sw1) \<le> ?target")
    case True
    then have "settled ?target 0 sw1" by (simp add: settled_def)
    then have "completed ?target sw1 sw1" using balanced_refl [OF ok1] by (auto simp: completed_def)
    with fc True show ?thesis by simp
  next
    case False
    obtain sw' r where turn: "forced_turn (clocks 0) ?target ?plan sw1 = (sw', r)" by fastforce
    obtain freed items where t: "balanced (sw_state sw1) (sw_state sw') freed items"
      "sw_total_freed sw' = sw_total_freed sw1 + freed" "sw_total_items sw' = sw_total_items sw1 + items"
      using forced_turn_balanced [OF ok1 turn] by blast
    show ?thesis
    proof (cases r)
      case None
      have "settled ?target (fst (clocks 0)) sw'"
        using forced_turn_ends [OF ok1 _ _ turn [unfolded None]] False by (simp add: completion_from_def)
      with t have "completed ?target sw1 sw'" unfolding completed_def by blast
      with fc False turn None forced_turn_protects [OF _ turn] show ?thesis by (simp add: forced_loop.simps)
    next
      case (Some next_plan)
      note turn' = turn [unfolded Some]
      have "mem_ok (sw_state sw')" using t by (simp add: balanced_def)
      from forced_loop_next [OF this forced_turn_continues [OF turn'], of clocks "0 + 1"]
      show ?thesis
        using completed_step [OF t] fc False turn' forced_turn_protects [OF _ turn]
        by (fastforce simp: forced_loop.simps [of clocks ?target 0])
    qed
  qed
  then show ?thesis using completed_step [OF b] same by (auto simp: sw1_def)
qed


subsection \<open>The headroom target\<close>

lemma bit_length_bounds: "m < 2 ^ bit_length m \<and> (0 < m \<longrightarrow> 2 ^ (bit_length m - 1) \<le> m)"
proof (induction m rule: bit_length.induct)
  case (1 n)
  show ?case
  proof (cases "n = 0")
    case False
    with 1 have IH: "n div 2 < 2 ^ bit_length (n div 2)" "0 < n div 2 \<Longrightarrow> 2 ^ (bit_length (n div 2) - 1) \<le> n div 2"
      by simp_all
    have bl: "bit_length n = Suc (bit_length (n div 2))" using False by (simp add: bit_length.simps [of n])
    have "2 ^ bit_length (n div 2) \<le> n"
    proof (cases "n div 2 = 0")
      case True
      with False show ?thesis by (simp add: bit_length.simps)
    next
      case half: False
      then have "bit_length (n div 2) = Suc (bit_length (n div 2) - 1)" by (simp add: bit_length.simps [of "n div 2"])
      then have "(2::nat) ^ bit_length (n div 2) = 2 * 2 ^ (bit_length (n div 2) - 1)" by (metis power_Suc)
      with IH(2) half show ?thesis by linarith
    qed
    moreover have "n < 2 * 2 ^ bit_length (n div 2)" using IH(1) by linarith
    ultimately show ?thesis by (simp add: bl)
  qed (simp add: bit_length.simps)
qed

text \<open>Rounding to a double moves a number by at most one part in \<open>2\<^sup>5\<^sup>3\<close>.\<close>

lemma round_f64_bounds: "round_f64 m * 2 ^ 53 \<le> m * (2 ^ 53 + 1)" "m * (2 ^ 53 - 1) \<le> round_f64 m * 2 ^ 53"
proof -
  define k where "k = bit_length m - 53"
  define q r where "q = m div 2 ^ k" and "r = m mod 2 ^ k"
  have m: "m = q * 2 ^ k + r" unfolding q_def r_def by (rule div_mult_mod_eq [symmetric])
  have r: "r < 2 ^ k" by (simp add: r_def)
  have R: "round_f64 m = q * 2 ^ k \<and> 2 * r \<le> 2 ^ k \<or> round_f64 m = (q + 1) * 2 ^ k \<and> 2 ^ k \<le> 2 * r"
    by (auto simp: round_f64_def Let_def k_def [symmetric] q_def [symmetric] r_def [symmetric])
  have "round_f64 m * 2 ^ 53 \<le> m * (2 ^ 53 + 1) \<and> m * (2 ^ 53 - 1) \<le> round_f64 m * 2 ^ 53"
  proof (cases "k = 0")
    case True
    with m r R have "round_f64 m = m" by auto
    then show ?thesis by simp
  next
    case False
    then have "bit_length m - 1 = 52 + k" and "0 < m" by (cases "m = 0"; simp add: k_def bit_length.simps [of 0])+
    with bit_length_bounds [of m] have "2 ^ (52 + k) \<le> m" by metis
    then have big: "2 ^ 52 * 2 ^ k \<le> m" by (simp add: power_add)
    have "round_f64 m * 2 ^ 53 \<le> m * (2 ^ 53 + 1)" using R
    proof (elim disjE conjE)
      assume "round_f64 m = (q + 1) * 2 ^ k" "2 ^ k \<le> 2 * r"
      with m have "2 * round_f64 m \<le> 2 * m + 2 ^ k" by (simp add: algebra_simps)
      with big show ?thesis by simp
    qed (use m in simp)
    moreover have "m * (2 ^ 53 - 1) \<le> round_f64 m * 2 ^ 53" using R
    proof (elim disjE conjE)
      assume "round_f64 m = q * 2 ^ k" "2 * r \<le> 2 ^ k"
      with m have "2 * m \<le> 2 * round_f64 m + 2 ^ k" by simp
      with big show ?thesis by simp
    next
      assume "round_f64 m = (q + 1) * 2 ^ k"
      with m r have "m \<le> round_f64 m" by simp
      then show ?thesis by simp
    qed
    ultimately show ?thesis ..
  qed
  then show "round_f64 m * 2 ^ 53 \<le> m * (2 ^ 53 + 1)" "m * (2 ^ 53 - 1) \<le> round_f64 m * 2 ^ 53" by simp_all
qed

lemma headroom_chain:
  obtains t where "headroom_target budget = min (2 ^ 64 - 1) t"
    "t * 2 ^ 53 * 2 ^ 53 * 2 ^ 53 \<le> budget * (2 ^ 53 + 1) * NINE_TENTHS * (2 ^ 53 + 1)"
    "budget * (2 ^ 53 - 1) * NINE_TENTHS * (2 ^ 53 - 1) \<le> (t + 1) * 2 ^ 53 * 2 ^ 53 * 2 ^ 53"
proof
  let ?x = "round_f64 budget" and ?y = "round_f64 (round_f64 budget * NINE_TENTHS)"
  let ?t = "?y div 2 ^ 53"
  show "headroom_target budget = min (2 ^ 64 - 1) ?t" by (simp add: headroom_target_def)
  have t: "?t * 2 ^ 53 \<le> ?y" "?y \<le> (?t + 1) * 2 ^ 53"
    using div_mult_mod_eq [of ?y "2 ^ 53"] mod_less_divisor [of "2 ^ 53" ?y] by simp_all
  note x = round_f64_bounds [of budget] and y = round_f64_bounds [of "?x * NINE_TENTHS"]
  have "?t * 2 ^ 53 * 2 ^ 53 * 2 ^ 53 \<le> ?y * 2 ^ 53 * 2 ^ 53" using t(1) by simp
  also have "\<dots> \<le> ?x * NINE_TENTHS * (2 ^ 53 + 1) * 2 ^ 53" using y(1) by (rule mult_right_mono) simp
  also have "\<dots> = ?x * 2 ^ 53 * (NINE_TENTHS * (2 ^ 53 + 1))" by (simp only: ac_simps)
  also have "\<dots> \<le> budget * (2 ^ 53 + 1) * (NINE_TENTHS * (2 ^ 53 + 1))" using x(1) by (rule mult_right_mono) simp
  finally show "?t * 2 ^ 53 * 2 ^ 53 * 2 ^ 53 \<le> budget * (2 ^ 53 + 1) * NINE_TENTHS * (2 ^ 53 + 1)"
    by (simp only: mult.assoc)
  have "budget * (2 ^ 53 - 1) * (NINE_TENTHS * (2 ^ 53 - 1)) \<le> ?x * 2 ^ 53 * (NINE_TENTHS * (2 ^ 53 - 1))"
    using x(2) by (rule mult_right_mono) simp
  also have "\<dots> = ?x * NINE_TENTHS * (2 ^ 53 - 1) * 2 ^ 53" by (simp only: ac_simps)
  also have "\<dots> \<le> ?y * 2 ^ 53 * 2 ^ 53" using y(2) by (rule mult_right_mono) simp
  also have "\<dots> \<le> (?t + 1) * 2 ^ 53 * 2 ^ 53 * 2 ^ 53" using t(2) by simp
  finally show "budget * (2 ^ 53 - 1) * NINE_TENTHS * (2 ^ 53 - 1) \<le> (?t + 1) * 2 ^ 53 * 2 ^ 53 * 2 ^ 53"
    by (simp only: mult.assoc)
qed

lemma headroom_le: "headroom_target budget \<le> budget"
proof -
  obtain t where "headroom_target budget = min (2 ^ 64 - 1) t"
    "t * 2 ^ 53 * 2 ^ 53 * 2 ^ 53 \<le> budget * (2 ^ 53 + 1) * NINE_TENTHS * (2 ^ 53 + 1)"
    by (rule headroom_chain)
  then show ?thesis by (simp add: NINE_TENTHS_def)
qed

text \<open>
  C33. The headroom target is nine tenths of the budget, up to the rounding of doubles, and never
  above the budget: the sweep is asked for a target the budget covers, for every 64-bit budget.
\<close>

theorem headroom_target_bounds:
  assumes "budget < 2 ^ 64"
  shows "headroom_target budget \<le> budget \<and>
    10 * headroom_target budget \<le> 9 * budget + budget div 2 ^ 48 \<and>
    9 * budget \<le> 10 * headroom_target budget + 10 + budget div 2 ^ 48"
proof -
  obtain t where t: "headroom_target budget = min (2 ^ 64 - 1) t"
    "t * 2 ^ 53 * 2 ^ 53 * 2 ^ 53 \<le> budget * (2 ^ 53 + 1) * NINE_TENTHS * (2 ^ 53 + 1)"
    "budget * (2 ^ 53 - 1) * NINE_TENTHS * (2 ^ 53 - 1) \<le> (t + 1) * 2 ^ 53 * 2 ^ 53 * 2 ^ 53"
    by (rule headroom_chain)
  have "t \<le> budget" "2 ^ 48 * (10 * t) \<le> 2 ^ 48 * (9 * budget) + budget"
    "2 ^ 48 * (9 * budget) \<le> 2 ^ 48 * (10 * t + 10) + budget"
    using t(2,3) by (simp_all add: NINE_TENTHS_def)
  then have b: "t \<le> budget" "281474976710656 * (10 * t) \<le> 281474976710656 * (9 * budget) + budget"
    "281474976710656 * (9 * budget) \<le> 281474976710656 * (10 * t + 10) + budget" by simp_all
  with assms t(1) have target: "headroom_target budget = t" by simp
  define d where "d = budget div 2 ^ 48"
  have "budget < (d + 1) * 281474976710656" unfolding d_def by (simp add: dividend_less_div_times)
  with b have "281474976710656 * (10 * t) < 281474976710656 * (9 * budget + d + 1)"
    "281474976710656 * (9 * budget) < 281474976710656 * (10 * t + 10 + d + 1)"
    unfolding distrib_left by simp_all
  then have "10 * t \<le> 9 * budget + d" "9 * budget \<le> 10 * t + 10 + d" by simp_all
  with b(1) target show ?thesis by (simp only: d_def)
qed

theorem headroom_target_bounds_witness:
  "headroom_target (2 ^ 30) \<le> 2 ^ 30 \<and> 10 * headroom_target (2 ^ 30) \<le> 9 * 2 ^ 30"
  using headroom_target_bounds [of "2 ^ 30"] by simp


subsection \<open>Sweeps\<close>

lemma gentle_turn_balanced:
  assumes "mem_ok (sw_state sw)"
  shows "\<exists>freed items. balanced (sw_state sw) (sw_state (gentle_turn busy plan sw)) freed items \<and>
    sw_total_freed (gentle_turn busy plan sw) = sw_total_freed sw + freed \<and>
    sw_total_items (gentle_turn busy plan sw) = sw_total_items sw + items"
proof (cases "sw_gentle_finished sw")
  case True
  with balanced_refl [OF assms] show ?thesis by (auto simp: gentle_turn_def)
next
  case False
  obtain cs out where e: "try_evict_metadata_plan busy plan (sw_candidate_offset sw) MEMORY_GC_GENTLE_BATCH
      (sh_cache_system (sw_state sw)) = (cs, out)" by fastforce
  then obtain sel mc result where r: "try_evict_candidates_detailed busy sel (cs_metadata (sh_cache_system (sw_state sw))) = (mc, result)"
    "cs = (sh_cache_system (sw_state sw))\<lparr>cs_metadata := mc\<rparr>" "go_freed_bytes out = cer_removed result * METADATA_ENTRY_BYTES"
    "go_items_removed out = cer_removed result"
    by (auto simp: try_evict_metadata_plan_def cs_try_evict_candidates_detailed_def Let_def split: prod.splits)
  from try_evict_counts [OF _ r(1)] assms r(2)
  have "balanced (sw_state sw) ((sw_state sw)\<lparr>sh_cache_system := cs\<rparr>)
      (cer_removed result * METADATA_ENTRY_BYTES) (cer_removed result)"
    by (auto simp: balanced_def mem_ok_def mem_total_def mem_items_def snapshot_simps byte_defs)
  with False e r(3,4) show ?thesis by (auto simp: gentle_turn_def Let_def)
qed

fun event_ok :: "sweep_event \<Rightarrow> bool" where
  "event_ok (Gentle busy) = True"
| "event_ok (Traffic sh) = mem_ok sh"

fun is_gentle :: "sweep_event \<Rightarrow> bool" where
  "is_gentle (Gentle busy) = True"
| "is_gentle (Traffic sh) = False"

lemma sweep_step_ok: "mem_ok (sw_state sw) \<Longrightarrow> event_ok x \<Longrightarrow> mem_ok (sw_state (sweep_step plan sw x))"
  using gentle_turn_balanced [of sw] by (cases x) (fastforce simp: balanced_def)+

lemma sweep_run_ok: "mem_ok (sw_state sw) \<Longrightarrow> list_all event_ok xs \<Longrightarrow> mem_ok (sw_state (foldl (sweep_step plan) sw xs))"
  by (induction xs arbitrary: sw) (auto simp: sweep_step_ok)

lemma gentle_run_balanced:
  "mem_ok (sw_state sw) \<Longrightarrow> list_all is_gentle xs \<Longrightarrow>
   \<exists>freed items. balanced (sw_state sw) (sw_state (foldl (sweep_step plan) sw xs)) freed items \<and>
     sw_total_freed (foldl (sweep_step plan) sw xs) = sw_total_freed sw + freed \<and>
     sw_total_items (foldl (sweep_step plan) sw xs) = sw_total_items sw + items"
proof (induction xs arbitrary: sw)
  case Nil
  then show ?case using balanced_refl by auto
next
  case (Cons x xs)
  then obtain busy where x: "x = Gentle busy" by (cases x) auto
  from gentle_turn_balanced [OF Cons.prems(1), of busy plan] obtain f i where
    g: "balanced (sw_state sw) (sw_state (gentle_turn busy plan sw)) f i"
      "sw_total_freed (gentle_turn busy plan sw) = sw_total_freed sw + f"
      "sw_total_items (gentle_turn busy plan sw) = sw_total_items sw + i" by blast
  then have "mem_ok (sw_state (gentle_turn busy plan sw))" by (simp add: balanced_def)
  from Cons.IH [OF this] Cons.prems(2) obtain f' i' where
    "balanced (sw_state (gentle_turn busy plan sw)) (sw_state (foldl (sweep_step plan) (gentle_turn busy plan sw) xs)) f' i'"
    "sw_total_freed (foldl (sweep_step plan) (gentle_turn busy plan sw) xs) = sw_total_freed sw + (f + f')"
    "sw_total_items (foldl (sweep_step plan) (gentle_turn busy plan sw) xs) = sw_total_items sw + (i + i')"
    using g by (auto simp: add.assoc)
  with balanced_trans [OF g(1)] x show ?case by auto
qed

text \<open>
  C16. A memory sweep always completes.  After any number of gentle turns, with other requests
  changing the caches in between, the forced completion returns, and it returns for one of three
  reasons: the estimate is within nine tenths of the budget; or every file still in the metadata
  cache was found in use during the sweep; or the metadata cache and the dependency graph are empty
  and the fast hits left are at most five seconds old.  When nothing runs beside the sweep, nothing
  is found in use, so the second reason cannot arise.  The forced completion itself is followed without
  traffic.
\<close>

theorem sweep_completes:
  assumes "mem_ok sh" "list_all event_ok events" "plan_eviction_to_budget budget sh = Some plan"
  defines "sw \<equiv> foldl (sweep_step plan) (sweep_start sh) events"
  shows "\<exists>fin now. forced_completion clocks plan sw = Some fin \<and>
    run_memory_eviction_pass clocks budget events sh = Some (sw_state fin, sw_total_freed fin, sw_total_items fin) \<and>
    settled (headroom_target budget) now fin \<and> (events = [] \<longrightarrow> sw_protected_paths fin = {})"
proof -
  have plan: "plan_eviction_to_target_excluding (headroom_target budget) {} sh = Some plan"
    using assms(3) by (auto simp: plan_eviction_to_budget_def split: if_splits)
  have ok: "mem_ok (sw_state sw)" unfolding sw_def using assms(1,2) by (intro sweep_run_ok) (simp_all add: sweep_start_def)
  obtain fin where fin: "forced_completion clocks plan sw = Some fin" "completed (ep_target_bytes plan) sw fin"
    "current_plan (completion_from plan (sw_candidate_offset sw) (sw_busy_candidates sw)) (sw_state sw) \<Longrightarrow>
       sw_protected_paths fin = sw_protected_paths sw"
    using forced_completion_completes [OF ok] by blast
  have "sw_protected_paths fin = {}" if "events = []"
    using fin(3) that plan_facts(3,4) [OF assms(1) plan]
    by (simp add: sw_def sweep_start_def completion_from_def current_plan_def)
  with fin(1,2) plan_facts(2) [OF assms(1) plan] assms(3) show ?thesis
    by (auto simp: completed_def run_memory_eviction_pass_def sw_def)
qed

text \<open>
  C20. The books of a memory sweep are exact.  When only the sweep itself changes the caches, whatever
  the order of its turns and whichever shards were busy, the bytes it reports as freed are the
  difference of the estimates before and after, the items it reports are the entries that
  disappeared, and the artifact map and the bytes in flight are as before.
\<close>

theorem eviction_accounting:
  assumes "mem_ok sh" "list_all is_gentle events"
    and "run_memory_eviction_pass clocks budget events sh = Some (sh', freed, items)"
  shows "mem_total sh' + freed = mem_total sh \<and> mem_items sh' + items = mem_items sh \<and>
    sh_artifacts sh' = sh_artifacts sh \<and> sh_in_flight_bytes sh' = sh_in_flight_bytes sh"
proof (cases "plan_eviction_to_budget budget sh")
  case None
  with assms(3) show ?thesis by (simp add: run_memory_eviction_pass_def)
next
  case (Some plan)
  let ?sw = "foldl (sweep_step plan) (sweep_start sh) events"
  have start: "sw_state (sweep_start sh) = sh" "sw_total_freed (sweep_start sh) = 0" "sw_total_items (sweep_start sh) = 0"
    by (simp_all add: sweep_start_def)
  from gentle_run_balanced [of "sweep_start sh" events plan] assms(1,2) start obtain f i where
    g: "balanced sh (sw_state ?sw) f i" "sw_total_freed ?sw = f" "sw_total_items ?sw = i" by auto
  then have "mem_ok (sw_state ?sw)" by (simp add: balanced_def)
  from forced_completion_completes [OF this, of clocks plan] obtain fin where
    "forced_completion clocks plan ?sw = Some fin" "completed (ep_target_bytes plan) ?sw fin" by blast
  with assms(3) Some g obtain f' i' where c: "balanced (sw_state ?sw) sh' f' i'" "freed = f + f'" "items = i + i'"
    by (auto simp: run_memory_eviction_pass_def completed_def)
  from balanced_trans [OF g(1) c(1)] c(2,3) show ?thesis by (simp add: balanced_def)
qed

definition demo_memory :: shared_state where
  "demo_memory =
     \<lparr> sh_cache_system = with_metadata (mc_insert ''/a'' (metadata_from_fs (5, 1) 9) metadata_new),
       sh_dep_graph = dep_graph_new, sh_fast_hit_cache = [],
       sh_artifacts = [(''k'', 7)], sh_in_flight_bytes = 0 \<rparr>"

lemma demo_memory_ok: "mem_ok demo_memory"
  by (simp add: mem_ok_def demo_memory_def with_metadata_def mc_insert_def metadata_new_def dep_graph_new_def mark_dirty_def)

lemma demo_memory_total: "mem_total demo_memory = 600"
  by (simp add: mem_total_def demo_memory_def snapshot_simps byte_defs with_metadata_def mc_insert_def metadata_new_def
      dep_graph_new_def mark_dirty_def journal_new_def journal_with_capacity_def dm_insert_def)

lemma demo_plan: "plan_eviction_to_budget 300 demo_memory \<noteq> None"
proof -
  have "headroom_target 300 \<le> 300" by (rule headroom_le)
  with demo_memory_total show ?thesis
    unfolding plan_eviction_to_budget_def mem_total_def [symmetric] by (simp add: plan_None)
qed

theorem sweep_completes_witness:
  "\<exists>sh' freed items. run_memory_eviction_pass (\<lambda>n. (20, 20)) 300 [Gentle (\<lambda>_. True)] demo_memory = Some (sh', freed, items)"
  using sweep_completes [OF demo_memory_ok, of "[Gentle (\<lambda>_. True)]" 300] demo_plan by fastforce

theorem eviction_accounting_witness:
  "mem_total (fst (the (run_memory_eviction_pass (\<lambda>n. (20, 20)) 300 [] demo_memory))) +
     fst (snd (the (run_memory_eviction_pass (\<lambda>n. (20, 20)) 300 [] demo_memory))) = 600"
proof -
  obtain plan where "plan_eviction_to_budget 300 demo_memory = Some plan" using demo_plan by blast
  from forced_completion_completes [of "sweep_start demo_memory" "\<lambda>n. (20, 20)" plan] this demo_memory_ok
  obtain sh' freed items where r: "run_memory_eviction_pass (\<lambda>n. (20, 20)) 300 [] demo_memory = Some (sh', freed, items)"
    by (auto simp: run_memory_eviction_pass_def sweep_start_def)
  from eviction_accounting [OF demo_memory_ok _ r] demo_memory_total r show ?thesis by simp
qed


end
