(* ===== verification/ResponseFile.thy ===== *)
theory ResponseFile
  imports IncludeScan
begin

text \<open>
  Response files (\<^verbatim>\<open>crates/zccache-compiler/src/response_file.rs\<close> and its
  \<^verbatim>\<open>format.rs\<close>): decoding their bytes, splitting them into arguments, expanding
  \<^verbatim>\<open>@file\<close> references with the check for circular and too deep nesting, and writing
  argument lists for the GNU, MSVC and rustc readers.

  Texts are UTF-8 byte strings.  The file system's \<^verbatim>\<open>canonicalize\<close> and \<^verbatim>\<open>read\<close>
  are arguments.  Temporary files are written on Windows hosts only, which is outside the model.
\<close>

subsection \<open>Text\<close>

abbreviation dq :: char where "dq \<equiv> CHR 0x22"
abbreviation sq :: char where "sq \<equiv> CHR 0x27"

abbreviation byte :: "char \<Rightarrow> nat" where "byte c \<equiv> of_char c"

datatype text_error = OddByteCount | InvalidUtf16 | InvalidUtf8

text \<open>\<^verbatim>\<open>char::decode_utf16\<close>: code units to scalar values; a surrogate without its partner fails.\<close>

fun utf16_scalars :: "nat list \<Rightarrow> nat list option" where
  "utf16_scalars [] = Some []"
| "utf16_scalars (u # us) =
     (if u < 0xD800 \<or> 0xE000 \<le> u then map_option ((#) u) (utf16_scalars us)
      else if u < 0xDC00 then
        (case us of
           v # vs \<Rightarrow>
             if 0xDC00 \<le> v \<and> v < 0xE000
             then map_option ((#) (0x10000 + (u - 0xD800) * 0x400 + (v - 0xDC00))) (utf16_scalars vs)
             else None
         | [] \<Rightarrow> None)
      else None)"

text \<open>\<^verbatim>\<open>String\<close> from scalar values.\<close>

definition utf8_char :: "nat \<Rightarrow> string" where
  "utf8_char c =
     map char_of
       (if c < 0x80 then [c]
        else if c < 0x800 then [0xC0 + c div 0x40, 0x80 + c mod 0x40]
        else if c < 0x10000 then [0xE0 + c div 0x1000, 0x80 + c div 0x40 mod 0x40, 0x80 + c mod 0x40]
        else [0xF0 + c div 0x40000, 0x80 + c div 0x1000 mod 0x40, 0x80 + c div 0x40 mod 0x40, 0x80 + c mod 0x40])"

definition utf8 :: "nat list \<Rightarrow> string" where
  "utf8 cs = concat (map utf8_char cs)"

text \<open>\<^verbatim>\<open>String::from_utf8\<close> accepts the well-formed sequences: shortest form, no surrogates.\<close>

definition cont :: "char \<Rightarrow> bool" where
  "cont c \<longleftrightarrow> 0x80 \<le> byte c \<and> byte c < 0xC0"

definition between :: "nat \<Rightarrow> nat \<Rightarrow> char \<Rightarrow> bool" where
  "between lo hi c \<longleftrightarrow> lo \<le> byte c \<and> byte c \<le> hi"

fun utf8_ok :: "string \<Rightarrow> bool" where
  "utf8_ok [] \<longleftrightarrow> True"
| "utf8_ok (a # s) \<longleftrightarrow>
     (if byte a < 0x80 then utf8_ok s
      else if between 0xC2 0xDF a then (case s of b # s' \<Rightarrow> cont b \<and> utf8_ok s' | _ \<Rightarrow> False)
      else if between 0xE0 0xEF a then
        (case s of
           b # c # s' \<Rightarrow>
             (if byte a = 0xE0 then between 0xA0 0xBF b else if byte a = 0xED then between 0x80 0x9F b else cont b) \<and>
             cont c \<and> utf8_ok s'
         | _ \<Rightarrow> False)
      else if between 0xF0 0xF4 a then
        (case s of
           b # c # d # s' \<Rightarrow>
             (if byte a = 0xF0 then between 0x90 0xBF b else if byte a = 0xF4 then between 0x80 0x8F b else cont b) \<and>
             cont c \<and> cont d \<and> utf8_ok s'
         | _ \<Rightarrow> False)
      else False)"

fun chunks2 :: "string \<Rightarrow> (nat \<times> nat) list" where
  "chunks2 (a # b # s) = (byte a, byte b) # chunks2 s"
| "chunks2 _ = []"

definition from_le_bytes :: "nat \<times> nat \<Rightarrow> nat" where
  "from_le_bytes p = fst p + 256 * snd p"

definition from_be_bytes :: "nat \<times> nat \<Rightarrow> nat" where
  "from_be_bytes p = 256 * fst p + snd p"

definition decode_utf16 :: "string \<Rightarrow> (nat \<times> nat \<Rightarrow> nat) \<Rightarrow> text_error + string" where
  "decode_utf16 payload decode_word =
     (if length payload mod 2 \<noteq> 0 then Inl OddByteCount
      else (case utf16_scalars (map decode_word (chunks2 payload)) of
              Some cs \<Rightarrow> Inr (utf8 cs)
            | None \<Rightarrow> Inl InvalidUtf16))"

definition decode_text :: "string \<Rightarrow> text_error + string" where
  "decode_text bytes =
     (case strip_prefix [CHR 0xFF, CHR 0xFE] bytes of
        Some payload \<Rightarrow> decode_utf16 payload from_le_bytes
      | None \<Rightarrow>
          (case strip_prefix [CHR 0xFE, CHR 0xFF] bytes of
             Some payload \<Rightarrow> decode_utf16 payload from_be_bytes
           | None \<Rightarrow>
               (let payload = (case strip_prefix [CHR 0xEF, CHR 0xBB, CHR 0xBF] bytes of Some p \<Rightarrow> p | None \<Rightarrow> bytes)
                in if utf8_ok payload then Inr payload else Inl InvalidUtf8)))"

subsection \<open>Arguments\<close>

definition separator :: "char \<Rightarrow> bool" where
  "separator c \<longleftrightarrow> c = CHR '' '' \<or> c = tab \<or> c = nl \<or> c = cr"

fun double_quoted :: "string \<Rightarrow> string \<Rightarrow> string \<times> string" where
  "double_quoted cur [] = (cur, [])"
| "double_quoted cur (c # s) =
     (if c = dq then (cur, s)
      else if c = bs then
        (case s of
           [] \<Rightarrow> (cur, [])
         | d # s' \<Rightarrow> double_quoted (cur @ [if d = CHR ''n'' then nl else d]) s')
      else double_quoted (cur @ [c]) s)"

fun single_quoted :: "string \<Rightarrow> string \<Rightarrow> string \<times> string" where
  "single_quoted cur [] = (cur, [])"
| "single_quoted cur (c # s) = (if c = sq then (cur, s) else single_quoted (cur @ [c]) s)"

lemma double_quoted_le: "length (snd (double_quoted cur s)) \<le> length s"
proof (induction cur s rule: double_quoted.induct)
  case (2 cur c s)
  show ?case
  proof (cases s)
    case Nil
    then show ?thesis by simp
  next
    case (Cons d s')
    with 2 show ?thesis by (simp add: le_SucI)
  qed
qed simp

lemma single_quoted_le: "length (snd (single_quoted cur s)) \<le> length s"
  by (induction cur s rule: single_quoted.induct) auto

function parse_args_loop :: "string \<Rightarrow> bool \<Rightarrow> string \<Rightarrow> string list" where
  "parse_args_loop cur in_arg [] = (if in_arg then [cur] else [])"
| "parse_args_loop cur in_arg (ch # s) =
     (if separator ch then
        (if in_arg then cur # parse_args_loop [] False s else parse_args_loop cur False s)
      else if ch = dq then (let (cur', rest) = double_quoted cur s in parse_args_loop cur' True rest)
      else if ch = sq then (let (cur', rest) = single_quoted cur s in parse_args_loop cur' True rest)
      else parse_args_loop (cur @ [ch]) True s)"
  by pat_completeness auto
termination
proof (relation "measure (\<lambda>(cur, in_arg, s). length s)")
  fix cur :: string and in_arg ch s p cur' rest
  show "(cur', rest) = p \<Longrightarrow> p = double_quoted cur s \<Longrightarrow>
      ((cur', True, rest), cur, in_arg, ch # s) \<in> measure (\<lambda>(cur, in_arg, s). length s)"
    using double_quoted_le [of cur s] by (metis case_prod_conv in_measure length_Cons less_Suc_eq_le snd_conv)
  show "(cur', rest) = p \<Longrightarrow> p = single_quoted cur s \<Longrightarrow>
      ((cur', True, rest), cur, in_arg, ch # s) \<in> measure (\<lambda>(cur, in_arg, s). length s)"
    using single_quoted_le [of cur s] by (metis case_prod_conv in_measure length_Cons less_Suc_eq_le snd_conv)
qed auto

definition parse_response_file_content :: "string \<Rightarrow> string list" where
  "parse_response_file_content content = parse_args_loop [] False content"

subsection \<open>Expansion\<close>

record rsp_fs =
  rf_canonicalize :: "string \<Rightarrow> string option"
  rf_read :: "npath \<Rightarrow> string option"

datatype response_file_error = ReadError npath | CircularReference npath | TooDeep npath

definition MAX_DEPTH :: nat where "MAX_DEPTH = 10"

definition read_response_file_text :: "rsp_fs \<Rightarrow> npath \<Rightarrow> string option" where
  "read_response_file_text fs path =
     (case rf_read fs path of
        None \<Rightarrow> None
      | Some bytes \<Rightarrow> (case decode_text bytes of Inr s \<Rightarrow> Some s | Inl _ \<Rightarrow> None))"

text \<open>\<^verbatim>\<open>@name\<close> with a name; a bare \<^verbatim>\<open>@\<close> is an argument.\<close>

definition rsp_reference :: "string \<Rightarrow> string option" where
  "rsp_reference arg =
     (case strip_prefix ''@'' arg of
        Some filename \<Rightarrow> if filename = [] then None else Some filename
      | None \<Rightarrow> None)"

definition resolve_rsp :: "string \<Rightarrow> string \<Rightarrow> npath" where
  "resolve_rsp base_dir filename =
     (if is_absolute filename then Paths.normalize filename else Paths.normalize (path_join base_dir filename))"

definition canonical_rsp :: "rsp_fs \<Rightarrow> npath \<Rightarrow> npath option" where
  "canonical_rsp fs resolved = map_option Paths.normalize (rf_canonicalize fs resolved)"

definition rsp_parent :: "npath \<Rightarrow> string \<Rightarrow> string" where
  "rsp_parent canonical fallback = (case path_parent canonical of Some d \<Rightarrow> d | None \<Rightarrow> fallback)"

text \<open>
  The set of files being expanded is threaded through, as the code threads its mutable set; an error
  leaves at once.
\<close>

function expand_recursive ::
    "rsp_fs \<Rightarrow> string list \<Rightarrow> string \<Rightarrow> npath set \<Rightarrow> nat \<Rightarrow> response_file_error + string list \<times> npath set" where
  "expand_recursive fs [] base_dir seen depth = Inr ([], seen)"
| "expand_recursive fs (arg # args) base_dir seen depth =
     (case rsp_reference arg of
        None \<Rightarrow>
          (case expand_recursive fs args base_dir seen depth of
             Inl e \<Rightarrow> Inl e
           | Inr (out, seen') \<Rightarrow> Inr (arg # out, seen'))
      | Some filename \<Rightarrow>
          (let resolved = resolve_rsp base_dir filename
           in case canonical_rsp fs resolved of
                None \<Rightarrow> Inl (ReadError resolved)
              | Some canonical \<Rightarrow>
                  if canonical \<in> seen then Inl (CircularReference resolved)
                  else if MAX_DEPTH \<le> depth then Inl (TooDeep resolved)
                  else
                    (case read_response_file_text fs canonical of
                       None \<Rightarrow> Inl (ReadError resolved)
                     | Some content \<Rightarrow>
                         (case expand_recursive fs (parse_response_file_content content)
                                 (rsp_parent canonical base_dir) (insert canonical seen) (depth + 1) of
                            Inl e \<Rightarrow> Inl e
                          | Inr (nested, seen1) \<Rightarrow>
                              (case expand_recursive fs args base_dir (seen1 - {canonical}) depth of
                                 Inl e \<Rightarrow> Inl e
                               | Inr (out, seen2) \<Rightarrow> Inr (nested @ out, seen2))))))"
  by pat_completeness auto
termination
  by (relation "measures [\<lambda>(fs, args, base_dir, seen, depth). MAX_DEPTH - depth, \<lambda>(fs, args, base_dir, seen, depth). length args]")
     auto

declare expand_recursive.simps(2) [simp del]

definition expand_response_files_in :: "rsp_fs \<Rightarrow> string list \<Rightarrow> string \<Rightarrow> response_file_error + string list" where
  "expand_response_files_in fs args base_dir = map_sum id fst (expand_recursive fs args base_dir {} 0)"

subsection \<open>Writing response files\<close>

text \<open>\<^verbatim>\<open>char::is_whitespace\<close> on UTF-8 bytes: ASCII white space and the encodings of the others.\<close>

definition UNICODE_WHITESPACE :: "string list" where
  "UNICODE_WHITESPACE =
     map utf8_char ([0x85, 0xA0, 0x1680] @ [0x2000 ..< 0x200B] @ [0x2028, 0x2029, 0x202F, 0x205F, 0x3000])"

fun has_whitespace :: "string \<Rightarrow> bool" where
  "has_whitespace [] \<longleftrightarrow> False"
| "has_whitespace (c # s) \<longleftrightarrow>
     is_whitespace c \<or> list_ex (\<lambda>w. strip_prefix w (c # s) \<noteq> None) UNICODE_WHITESPACE \<or> has_whitespace s"

definition has_newline :: "string \<Rightarrow> bool" where
  "has_newline arg \<longleftrightarrow> nl \<in> set arg \<or> cr \<in> set arg"

definition replace_char :: "char \<Rightarrow> string \<Rightarrow> string \<Rightarrow> string" where
  "replace_char c r s = concat (map (\<lambda>x. if x = c then r else [x]) s)"

definition format_gnu_argument :: "string \<Rightarrow> string option" where
  "format_gnu_argument arg =
     (if arg = [] then Some [sq, sq]
      else if has_newline arg then None
      else if bs \<in> set arg then Some ([dq] @ replace_char dq [bs, dq] (replace_char bs [bs, bs] arg) @ [dq])
      else if \<not> (has_whitespace arg \<or> dq \<in> set arg \<or> sq \<in> set arg \<or> hd arg = CHR ''@'') then Some arg
      else if sq \<notin> set arg then Some ([sq] @ arg @ [sq])
      else Some ([dq] @ replace_char dq [bs, dq] arg @ [dq]))"

fun format_lines :: "(string \<Rightarrow> string option) \<Rightarrow> string list \<Rightarrow> string option" where
  "format_lines f [] = Some []"
| "format_lines f (arg # args) =
     (case f arg of
        None \<Rightarrow> None
      | Some s \<Rightarrow> map_option (\<lambda>rest. s @ [nl] @ rest) (format_lines f args))"

definition gnu_if_safe :: "string list \<Rightarrow> string option" where
  "gnu_if_safe args = format_lines format_gnu_argument args"

text \<open>Inside quotes, backslashes are doubled only in front of a quote.\<close>

fun msvc_body :: "nat \<Rightarrow> string \<Rightarrow> string" where
  "msvc_body backslashes [] = replicate (backslashes * 2) bs"
| "msvc_body backslashes (c # s) =
     (if c = bs then msvc_body (backslashes + 1) s
      else if c = dq then replicate (backslashes * 2 + 1) bs @ [dq] @ msvc_body 0 s
      else replicate backslashes bs @ [c] @ msvc_body 0 s)"

definition format_msvc_argument :: "string \<Rightarrow> string option" where
  "format_msvc_argument arg =
     (if has_newline arg then None
      else if arg = [] then Some [dq, dq]
      else if \<not> has_whitespace arg \<and> dq \<notin> set arg \<and> hd arg \<noteq> CHR ''@'' then Some arg
      else Some ([dq] @ msvc_body 0 arg @ [dq]))"

definition msvc_if_safe :: "string list \<Rightarrow> string option" where
  "msvc_if_safe args = format_lines format_msvc_argument args"

definition rustc_if_safe :: "string list \<Rightarrow> string option" where
  "rustc_if_safe args = format_lines (\<lambda>arg. if has_newline arg then None else Some arg) args"

subsection \<open>Reading back what was written\<close>

lemma double_quoted_escaped:
  "double_quoted cur (replace_char dq [bs, dq] (replace_char bs [bs, bs] arg) @ dq # rest) =
     (cur @ arg, rest)"
proof (induction arg arbitrary: cur)
  case (Cons c arg)
  then show ?case by (cases "c = bs"; cases "c = dq") (simp_all add: replace_char_def)
qed (simp add: replace_char_def)

lemma replace_absent: "c \<notin> set s \<Longrightarrow> replace_char c r s = s"
  by (induction s) (auto simp: replace_char_def)

lemma single_quoted_plain: "sq \<notin> set arg \<Longrightarrow> single_quoted cur (arg @ sq # rest) = (cur @ arg, rest)"
  by (induction arg arbitrary: cur) auto

lemma no_whitespace: "\<not> has_whitespace s \<Longrightarrow> c \<in> set s \<Longrightarrow> \<not> separator c"
  by (induction s) (auto simp: separator_def is_whitespace_def)

lemma parse_plain:
  "(\<And>c. c \<in> set arg \<Longrightarrow> \<not> separator c \<and> c \<noteq> dq \<and> c \<noteq> sq) \<Longrightarrow> in_arg \<or> arg \<noteq> [] \<Longrightarrow>
   parse_args_loop cur in_arg (arg @ nl # rest) = (cur @ arg) # parse_args_loop [] False rest"
proof (induction arg arbitrary: cur in_arg)
  case Nil
  then show ?case by (simp add: separator_def)
next
  case (Cons c arg)
  from Cons.IH [of True "cur @ [c]"] Cons.prems(1) have
    "parse_args_loop (cur @ [c]) True (arg @ nl # rest) = ((cur @ [c]) @ arg) # parse_args_loop [] False rest" by simp
  with Cons.prems(1) [of c] show ?case by simp
qed

lemma parse_end: "parse_args_loop cur True (nl # rest) = cur # parse_args_loop [] False rest"
  by (simp add: separator_def)

lemma parse_quotes:
  "parse_args_loop cur in_arg (dq # s) = (let (cur', rest) = double_quoted cur s in parse_args_loop cur' True rest)"
  "parse_args_loop cur in_arg (sq # s) = (let (cur', rest) = single_quoted cur s in parse_args_loop cur' True rest)"
  by (simp_all add: separator_def)

lemma parse_formatted:
  assumes "format_gnu_argument arg = Some s"
  shows "parse_args_loop [] False (s @ nl # rest) = arg # parse_args_loop [] False rest"
proof -
  consider "arg = []" "s = [sq, sq]"
    | "s = dq # replace_char dq [bs, dq] (replace_char bs [bs, bs] arg) @ [dq]"
    | "s = arg" "arg \<noteq> []" "\<not> has_whitespace arg" "dq \<notin> set arg" "sq \<notin> set arg"
    | "s = sq # arg @ [sq]" "sq \<notin> set arg"
    | "s = dq # replace_char dq [bs, dq] arg @ [dq]" "bs \<notin> set arg"
    using assms by (auto simp: format_gnu_argument_def split: if_splits)
  then show ?thesis
  proof cases
    case 1
    then show ?thesis by (simp add: parse_quotes parse_end del: parse_args_loop.simps)
  next
    case 2
    then show ?thesis
      using double_quoted_escaped [of "[]" arg "nl # rest"] by (simp add: parse_quotes parse_end del: parse_args_loop.simps)
  next
    case 3
    then show ?thesis using parse_plain [of arg False "[]" rest] no_whitespace [of arg] by auto
  next
    case 4
    then show ?thesis
      using single_quoted_plain [of arg "[]" "nl # rest"] by (simp add: parse_quotes parse_end del: parse_args_loop.simps)
  next
    case 5
    then show ?thesis
      using double_quoted_escaped [of "[]" arg "nl # rest"] replace_absent [of bs arg]
      by (simp add: parse_quotes parse_end del: parse_args_loop.simps)
  qed
qed

lemma format_gnu_None: "format_gnu_argument arg = None \<longleftrightarrow> has_newline arg"
  by (auto simp: format_gnu_argument_def has_newline_def)

lemma format_lines_None: "format_lines f args = None \<longleftrightarrow> (\<exists>arg\<in>set args. f arg = None)"
  by (induction args) (auto split: option.splits)

lemma parse_lines: "format_lines format_gnu_argument args = Some c \<Longrightarrow> parse_args_loop [] False c = args"
  by (induction args arbitrary: c) (auto simp: parse_formatted split: option.splits)

text \<open>
  Writing an argument list for a GNU driver and reading it back gives the same arguments, with
  white space, quotes, backslashes and leading at-signs in them; the writer refuses exactly the lists
  that hold a line break.
\<close>

theorem gnu_rsp_roundtrip:
  "case gnu_if_safe args of
     Some content \<Rightarrow> parse_response_file_content content = args \<and> \<not> list_ex has_newline args
   | None \<Rightarrow> list_ex has_newline args"
  using format_lines_None [of format_gnu_argument args] parse_lines [of args]
  by (auto simp: gnu_if_safe_def parse_response_file_content_def format_gnu_None list_ex_iff split: option.split)


subsection \<open>The readers of MSVC and rustc\<close>

text \<open>
  The documented argument rules of the Microsoft C runtime: an even run of backslashes before a quote
  halves and the quote delimits, an odd run halves and the quote is literal, other backslashes are
  literal; two quotes inside a quoted part are one.  \<open>n\<close> is the run of backslashes just read.
\<close>

function crt_loop :: "nat \<Rightarrow> string \<Rightarrow> bool \<Rightarrow> bool \<Rightarrow> string \<Rightarrow> string list" where
  "crt_loop n cur in_arg quoted [] = (if in_arg then [cur @ replicate n bs] else [])"
| "crt_loop n cur in_arg quoted (c # s) =
     (if c = bs then crt_loop (n + 1) cur True quoted s
      else if c = dq then
        (let cur' = cur @ replicate (n div 2) bs
         in if odd n then crt_loop 0 (cur' @ [dq]) True quoted s
            else if quoted \<and> s \<noteq> [] \<and> hd s = dq then crt_loop 0 (cur' @ [dq]) True quoted (tl s)
            else crt_loop 0 cur' True (\<not> quoted) s)
      else if separator c \<and> \<not> quoted then
        (if in_arg then (cur @ replicate n bs) # crt_loop 0 [] False False s else crt_loop 0 [] False False s)
      else crt_loop 0 (cur @ replicate n bs @ [c]) True quoted s)"
  by pat_completeness auto
termination
  by (relation "measure (\<lambda>(n, cur, in_arg, quoted, s). length s)") auto

definition crt_args :: "string \<Rightarrow> string list" where
  "crt_args content = crt_loop 0 [] False False content"

text \<open>\<^verbatim>\<open>str::lines\<close>, which rustc reads its response files with.\<close>

definition chomp_cr :: "string \<Rightarrow> string" where
  "chomp_cr l = (if l \<noteq> [] \<and> last l = cr then butlast l else l)"

definition rust_lines :: "string \<Rightarrow> string list" where
  "rust_lines s = map chomp_cr (let ls = split_on nl s in if last ls = [] then butlast ls else ls)"

lemma crt_backslashes: "crt_loop n cur in_arg quoted (replicate k bs @ s) = crt_loop (n + k) cur (in_arg \<or> 0 < k) quoted s"
  by (induction k arbitrary: n in_arg) auto

lemma crt_quoted:
  "crt_loop 0 cur True True (msvc_body k arg @ dq # nl # rest) = (cur @ replicate k bs @ arg) # crt_loop 0 [] False False rest"
proof (induction arg arbitrary: cur k)
  case Nil
  then show ?case by (simp add: crt_backslashes separator_def)
next
  case (Cons c arg)
  have "replicate (k + 1) bs @ arg = replicate k bs @ bs # arg" by (metis Suc_eq_plus1 append_Cons append_Nil append_assoc replicate_Suc replicate_append_same)
  with Cons show ?case by (auto simp: crt_backslashes replicate_append_same)
qed

lemma crt_plain:
  "(\<And>c. c \<in> set arg \<Longrightarrow> \<not> separator c \<and> c \<noteq> dq) \<Longrightarrow> in_arg \<or> arg \<noteq> [] \<Longrightarrow>
   crt_loop n cur in_arg False (arg @ nl # rest) = (cur @ replicate n bs @ arg) # crt_loop 0 [] False False rest"
proof (induction arg arbitrary: n cur in_arg)
  case Nil
  then show ?case by (simp add: separator_def)
next
  case (Cons c arg)
  show ?case
  proof (cases "c = bs")
    case True
    with Cons.IH [of True "n + 1" cur] Cons.prems show ?thesis by (simp flip: replicate_append_same)
  next
    case False
    with Cons.IH [of True 0 "cur @ replicate n bs @ [c]"] Cons.prems show ?thesis by simp
  qed
qed

lemma crt_formatted:
  assumes "format_msvc_argument arg = Some s"
  shows "crt_loop 0 [] False False (s @ nl # rest) = arg # crt_loop 0 [] False False rest"
proof -
  consider "s = arg" "arg \<noteq> []" "\<not> has_whitespace arg" "dq \<notin> set arg" | "s = dq # msvc_body 0 arg @ [dq]"
    using assms by (auto simp: format_msvc_argument_def split: if_splits)
  then show ?thesis
  proof cases
    case 1
    then show ?thesis using crt_plain [of arg False 0 "[]" rest] no_whitespace [of arg] by auto
  next
    case 2
    with crt_quoted [of "[]" 0 arg rest] show ?thesis by simp
  qed
qed

lemma crt_lines: "format_lines format_msvc_argument args = Some c \<Longrightarrow> crt_loop 0 [] False False c = args"
  by (induction args arbitrary: c) (auto simp: crt_formatted split: option.splits)

lemma split_on_nonempty: "split_on c s \<noteq> []"
  by (induction s) (auto split: list.splits)

lemma split_on_sep: "split_on c (c # s) = [] # split_on c s"
  using split_on_nonempty [of c s] by (auto split: list.splits)

lemma split_on_line: "c \<notin> set l \<Longrightarrow> split_on c (l @ c # rest) = l # split_on c rest"
  by (induction l) (auto simp: split_on_sep simp del: split_on.simps(2), simp)

lemma chomp_cr_id: "\<not> has_newline l \<Longrightarrow> chomp_cr l = l"
  by (metis chomp_cr_def has_newline_def last_in_set)

lemma rust_lines_formatted:
  "format_lines (\<lambda>arg. if has_newline arg then None else Some arg) args = Some c \<Longrightarrow>
   split_on nl c = args @ [[]] \<and> map chomp_cr args = args"
proof (induction args arbitrary: c)
  case (Cons arg args)
  then obtain rest where "\<not> has_newline arg" "c = arg @ nl # rest"
    "format_lines (\<lambda>arg. if has_newline arg then None else Some arg) args = Some rest"
    by (auto split: if_splits)
  with Cons.IH [of rest] show ?case by (simp add: split_on_line chomp_cr_id has_newline_def del: split_on.simps(2))
qed simp

lemma format_msvc_None: "format_msvc_argument arg = None \<longleftrightarrow> has_newline arg"
  by (simp add: format_msvc_argument_def)

text \<open>
  What is written for MSVC tools and for rustc reads back as the same arguments under the
  documented rules of their readers, and only lists with a line break in an argument are refused.
\<close>

theorem foreign_rsp_roundtrip:
  "(case msvc_if_safe args of
      Some content \<Rightarrow> crt_args content = args | None \<Rightarrow> list_ex has_newline args) \<and>
   (case rustc_if_safe args of
      Some content \<Rightarrow> rust_lines content = args | None \<Rightarrow> list_ex has_newline args)"
proof
  show "case msvc_if_safe args of Some content \<Rightarrow> crt_args content = args | None \<Rightarrow> list_ex has_newline args"
    using format_lines_None [of format_msvc_argument args] crt_lines [of args]
    by (auto simp: msvc_if_safe_def crt_args_def format_msvc_None list_ex_iff split: option.split)
  show "case rustc_if_safe args of Some content \<Rightarrow> rust_lines content = args | None \<Rightarrow> list_ex has_newline args"
    using format_lines_None [of "\<lambda>arg. if has_newline arg then None else Some arg" args] rust_lines_formatted [of args]
    by (auto simp: rustc_if_safe_def rust_lines_def list_ex_iff Let_def split: option.split if_splits)
qed

subsection \<open>Encodings\<close>

definition scalar :: "nat \<Rightarrow> bool" where
  "scalar c \<longleftrightarrow> c < 0xD800 \<or> 0xE000 \<le> c \<and> c < 0x110000"

definition utf16_units :: "nat \<Rightarrow> nat list" where
  "utf16_units c =
     (if c < 0x10000 then [c] else [0xD800 + (c - 0x10000) div 0x400, 0xDC00 + (c - 0x10000) mod 0x400])"

definition units_bytes :: "(nat \<Rightarrow> nat list) \<Rightarrow> nat list \<Rightarrow> string" where
  "units_bytes f cs = map char_of (concat (map f (concat (map utf16_units cs))))"

abbreviation le_unit :: "nat \<Rightarrow> nat list" where "le_unit u \<equiv> [u mod 256, u div 256]"
abbreviation be_unit :: "nat \<Rightarrow> nat list" where "be_unit u \<equiv> [u div 256, u mod 256]"

lemma utf16_units_small: "scalar c \<Longrightarrow> u \<in> set (utf16_units c) \<Longrightarrow> u < 0x10000"
  by (auto simp: scalar_def utf16_units_def split: if_splits)

lemma utf16_scalars_units: "scalar c \<Longrightarrow> utf16_scalars (utf16_units c @ us) = map_option ((#) c) (utf16_scalars us)"
proof (cases "c < 0x10000")
  case False
  assume c: "scalar c"
  define d where "d = c - 0x10000"
  have "d < 0x100000" "c = d + 0x10000" using c False by (auto simp: d_def scalar_def)
  moreover have "d div 0x400 * 0x400 + d mod 0x400 = d" by simp
  ultimately show ?thesis using False by (auto simp: utf16_units_def d_def [symmetric] less_mult_imp_div_less)
qed (auto simp: scalar_def utf16_units_def)

lemma utf16_scalars_all: "list_all scalar cs \<Longrightarrow> utf16_scalars (concat (map utf16_units cs)) = Some cs"
  by (induction cs) (auto simp: utf16_scalars_units)

lemma decode_units:
  assumes "list_all (\<lambda>u. u < 0x10000) us"
  shows "map from_le_bytes (chunks2 (map char_of (concat (map le_unit us)))) = us"
    "map from_be_bytes (chunks2 (map char_of (concat (map be_unit us)))) = us"
  using assms by (induction us) (auto simp: from_le_bytes_def from_be_bytes_def of_char_mod_256 less_mult_imp_div_less)

lemma units_even: "length (concat (map le_unit us)) mod 2 = 0" "length (concat (map be_unit us)) mod 2 = 0"
  by (induction us) auto

lemma units_small: "list_all scalar cs \<Longrightarrow> list_all (\<lambda>u. u < 0x10000) (concat (map utf16_units cs))"
  by (auto simp: list_all_iff dest: utf16_units_small)

lemma decode_utf16_units:
  assumes "list_all scalar cs"
  shows "decode_utf16 (units_bytes le_unit cs) from_le_bytes = Inr (utf8 cs)"
    "decode_utf16 (units_bytes be_unit cs) from_be_bytes = Inr (utf8 cs)"
  using units_small [OF assms] utf16_scalars_all [OF assms]
  by (simp_all add: decode_utf16_def units_bytes_def units_even decode_units del: map_concat)

lemma utf8_ok_char:
  assumes "scalar c"
  shows "utf8_ok (utf8_char c @ s) \<longleftrightarrow> utf8_ok s"
proof -
  define x y z where "x = c div 0x1000" and "y = c div 0x40 mod 0x40" and "z = c mod 0x40"
  have c: "c = x * 0x1000 + y * 0x40 + z" "y < 0x40" "z < 0x40"
proof -
    have "x = c div 0x40 div 0x40" by (simp add: x_def flip: div_mult2_eq)
    then have "x * 0x40 + y = c div 0x40" by (simp add: y_def)
    moreover have "c div 0x40 * 0x40 + z = c" by (simp add: z_def)
    ultimately show "c = x * 0x1000 + y * 0x40 + z" by simp
  qed (simp_all add: y_def z_def)
  consider "c < 0x80" | "0x80 \<le> c" "c < 0x800" | "0x800 \<le> c" "c < 0x10000" | "0x10000 \<le> c" "c < 0x110000"
    using assms by (fastforce simp: scalar_def)
  then show ?thesis
  proof cases
    case 1
    then show ?thesis by (simp add: utf8_char_def)
  next
    case 2
    then have "0xC2 \<le> 0xC0 + c div 0x40" "0xC0 + c div 0x40 \<le> 0xDF" by auto
    with 2 c(3) show ?thesis by (simp add: utf8_char_def between_def cont_def z_def [symmetric])
  next
    case 3
    with c have "x < 0x10" by simp
    moreover have "x = 0 \<Longrightarrow> 0x20 \<le> y" "x = 0xD \<Longrightarrow> y < 0x20" using 3 c assms by (auto simp: scalar_def)
    ultimately show ?thesis using 3 c(2,3)
      by (auto simp: utf8_char_def between_def cont_def x_def [symmetric] y_def [symmetric] z_def [symmetric])
  next
    case 4
    define w v where "w = x div 0x40" and "v = x mod 0x40"
    have x: "x = w * 0x40 + v" "v < 0x40" by (simp_all add: w_def v_def)
    have w: "c div 0x40000 = w" by (simp add: w_def x_def flip: div_mult2_eq)
    have "w \<le> 4" using 4 c x by simp
    moreover have "w = 0 \<Longrightarrow> 0x10 \<le> v" "w = 4 \<Longrightarrow> v < 0x10" using 4 c x by auto
    ultimately show ?thesis using 4 c(2,3) x(2)
      by (auto simp: utf8_char_def between_def cont_def w x_def [symmetric] y_def [symmetric] z_def [symmetric] v_def [symmetric])
  qed
qed


lemma utf8_ok_all: "list_all scalar cs \<Longrightarrow> utf8_ok (utf8 cs)"
  by (induction cs) (auto simp: utf8_def utf8_ok_char)

lemma utf8_first:
  assumes "scalar c"
  shows "utf8_char c \<noteq> []" "byte (hd (utf8_char c)) < 0xF5"
proof -
  have "c div 0x40000 \<le> 4" using assms by (auto simp: scalar_def)
  moreover have "c < 0x10000 \<Longrightarrow> c div 0x1000 < 0x10" "c < 0x800 \<Longrightarrow> c div 0x40 < 0x20" by simp_all
  ultimately show "byte (hd (utf8_char c)) < 0xF5" by (auto simp: utf8_char_def)
qed (simp add: utf8_char_def)

lemma utf8_no_bom16: "list_all scalar cs \<Longrightarrow> 0xF5 \<le> byte b \<Longrightarrow> strip_prefix (b # p) (utf8 cs) = None"
proof (cases cs)
  case (Cons c cs')
  assume "list_all scalar cs" "0xF5 \<le> byte b"
  with Cons utf8_first [of c] show ?thesis by (cases "utf8_char c") (auto simp: strip_prefix_def utf8_def)
qed (simp add: strip_prefix_def utf8_def)

lemma eq_char_of: "x = char_of n \<longleftrightarrow> byte x = n mod 256"
  by (metis char_of_mod_256 char_of_char of_char_of)

lemma utf8_bom_scalar:
  assumes "scalar c" "prefix [CHR 0xEF, CHR 0xBB, CHR 0xBF] (utf8_char c @ s)"
  shows "c = 0xFEFF"
proof -
  consider "c < 0x80" | "0x80 \<le> c" "c < 0x800" | "0x800 \<le> c" "c < 0x10000" | "0x10000 \<le> c" "c < 0x110000"
    using assms(1) by (fastforce simp: scalar_def)
  then show ?thesis
  proof cases
    case 1
    then show ?thesis using assms(2) by (auto simp: utf8_char_def eq_char_of)
  next
    case 2
    then have "0xC0 + c div 0x40 < 0xE0" by simp
    with 2 show ?thesis using assms(2) by (auto simp: utf8_char_def eq_char_of)
  next
    case 3
    then have "c div 0x1000 < 0x10" by simp
    moreover have "c div 0x40 div 0x40 = c div 0x1000" by (simp flip: div_mult2_eq)
    ultimately have "c div 0x1000 = 15" "c div 0x40 mod 0x40 = 0x3B" "c mod 0x40 = 0x3F"
      using 3 assms(2) by (auto simp: utf8_char_def eq_char_of)
    with \<open>c div 0x40 div 0x40 = c div 0x1000\<close> show ?thesis
      using div_mult_mod_eq [of c 64] div_mult_mod_eq [of "c div 64" 64] by simp
  next
    case 4
    then have "c div 0x40000 \<le> 4" by simp
    with 4 show ?thesis using assms(2) by (auto simp: utf8_char_def eq_char_of)
  qed
qed

text \<open>
  A response file reads the same in every encoding it may have: little- and big-endian UTF-16
  with a byte-order mark, UTF-8 with one and, unless the text itself begins with that mark, UTF-8
  without one all decode to the UTF-8 text.
\<close>

theorem text_encodings_agree:
  assumes "list_all scalar cs"
  shows "decode_text ([CHR 0xFF, CHR 0xFE] @ units_bytes le_unit cs) = Inr (utf8 cs) \<and>
    decode_text ([CHR 0xFE, CHR 0xFF] @ units_bytes be_unit cs) = Inr (utf8 cs) \<and>
    decode_text ([CHR 0xEF, CHR 0xBB, CHR 0xBF] @ utf8 cs) = Inr (utf8 cs) \<and>
    (take 1 cs \<noteq> [0xFEFF] \<longrightarrow> decode_text (utf8 cs) = Inr (utf8 cs))"
proof -
  have none: "strip_prefix [CHR 0xEF, CHR 0xBB, CHR 0xBF] (utf8 cs) = None" if "take 1 cs \<noteq> [0xFEFF]"
    using that assms utf8_bom_scalar by (cases cs) (auto simp: strip_prefix_def utf8_def)
  show ?thesis
    using decode_utf16_units [OF assms] utf8_ok_all [OF assms] utf8_no_bom16 [OF assms] none
    by (auto simp: decode_text_def strip_prefix_def split: if_splits)
qed

theorem text_encodings_agree_witness:
  "decode_text ([CHR 0xFF, CHR 0xFE] @ units_bytes le_unit [0x61, 0xE9, 0x1F600]) = Inr (utf8 [0x61, 0xE9, 0x1F600])"
  using text_encodings_agree [of "[0x61, 0xE9, 0x1F600]"] by (simp add: scalar_def)


end
