(* ===== verification/RspExpansion.thy ===== *)
theory RspExpansion
  imports ResponseFile
begin

text \<open>
  What the expansion of response files promises: the files it visits form chains of references, it
  fails only when a chain meets a file of its own, is too long, or ends in a file that cannot be found
  or read, and otherwise every reference is replaced by the arguments of its file.
\<close>

subsection \<open>Chains of references\<close>

definition names_file :: "rsp_fs \<Rightarrow> string \<Rightarrow> string list \<Rightarrow> npath \<Rightarrow> bool" where
  "names_file fs base args c \<longleftrightarrow>
     (\<exists>a \<in> set args. \<exists>f. rsp_reference a = Some f \<and> canonical_rsp fs (resolve_rsp base f) = Some c)"

definition refers :: "rsp_fs \<Rightarrow> npath \<Rightarrow> npath \<Rightarrow> bool" where
  "refers fs c d \<longleftrightarrow>
     (\<exists>content dir. read_response_file_text fs c = Some content \<and> path_parent c = Some dir \<and>
        names_file fs dir (parse_response_file_content content) d)"

definition rsp_chain :: "rsp_fs \<Rightarrow> string \<Rightarrow> string list \<Rightarrow> npath list \<Rightarrow> bool" where
  "rsp_chain fs base args cs \<longleftrightarrow>
     (cs \<noteq> [] \<longrightarrow> names_file fs base args (hd cs)) \<and> successively (refers fs) cs"

text \<open>Only the root directory has no parent, and it is no file.\<close>

definition files_have_parents :: "rsp_fs \<Rightarrow> bool" where
  "files_have_parents fs \<longleftrightarrow> (\<forall>c. rf_read fs c \<noteq> None \<longrightarrow> path_parent c \<noteq> None)"

definition unreadable_rsp :: "rsp_fs \<Rightarrow> npath \<Rightarrow> bool" where
  "unreadable_rsp fs p \<longleftrightarrow>
     (case canonical_rsp fs p of None \<Rightarrow> True | Some c \<Rightarrow> read_response_file_text fs c = None)"

lemma read_has_parent:
  "files_have_parents fs \<Longrightarrow> read_response_file_text fs c = Some content \<Longrightarrow> \<exists>dir. path_parent c = Some dir"
  by (fastforce simp: files_have_parents_def read_response_file_text_def split: option.splits)

lemma names_file_Cons:
  "names_file fs base (a # args) c \<longleftrightarrow>
     (\<exists>f. rsp_reference a = Some f \<and> canonical_rsp fs (resolve_rsp base f) = Some c) \<or> names_file fs base args c"
  by (auto simp: names_file_def)

lemma chain_Nil [simp]: "rsp_chain fs base args []"
  by (simp add: rsp_chain_def)

lemma chain_Cons:
  "rsp_chain fs base args (c # cs) \<longleftrightarrow>
     names_file fs base args c \<and> (cs \<noteq> [] \<longrightarrow> refers fs c (hd cs)) \<and> successively (refers fs) cs"
  by (cases cs) (auto simp: rsp_chain_def)

lemma refers_read:
  "read_response_file_text fs c = Some content \<Longrightarrow> path_parent c = Some dir \<Longrightarrow>
     refers fs c d \<longleftrightarrow> names_file fs dir (parse_response_file_content content) d"
  by (simp add: refers_def)

lemma chain_below:
  "read_response_file_text fs c = Some content \<Longrightarrow> path_parent c = Some dir \<Longrightarrow>
     rsp_chain fs base args (c # cs) \<longleftrightarrow>
       names_file fs base args c \<and> rsp_chain fs dir (parse_response_file_content content) cs"
  by (subst chain_Cons) (auto simp: rsp_chain_def refers_read)

lemma chain_unread:
  "read_response_file_text fs c = None \<Longrightarrow> rsp_chain fs base args (c # cs) \<longleftrightarrow> names_file fs base args c \<and> cs = []"
  by (auto simp: chain_Cons refers_def)

subsection \<open>Success\<close>

definition good_chain :: "rsp_fs \<Rightarrow> npath set \<Rightarrow> nat \<Rightarrow> npath list \<Rightarrow> bool" where
  "good_chain fs seen depth cs \<longleftrightarrow>
     distinct cs \<and> set cs \<inter> seen = {} \<and> (cs \<noteq> [] \<longrightarrow> depth + length cs \<le> MAX_DEPTH) \<and>
     (\<forall>c \<in> set cs. read_response_file_text fs c \<noteq> None)"

lemma good_chain_Cons:
  "good_chain fs seen depth (c # cs) \<longleftrightarrow>
     c \<notin> seen \<and> depth < MAX_DEPTH \<and> read_response_file_text fs c \<noteq> None \<and>
     good_chain fs (insert c seen) (depth + 1) cs"
  by (auto simp: good_chain_def)

text \<open>One reference in front of the other arguments: what a successful expansion went through.\<close>

lemma expand_reference_success:
  assumes "rsp_reference arg = Some f" and "expand_recursive fs (arg # args) base seen depth = Inr (out, seen')"
  obtains c content nested seen1 rest where "canonical_rsp fs (resolve_rsp base f) = Some c" and "c \<notin> seen"
    and "depth < MAX_DEPTH" and "read_response_file_text fs c = Some content"
    and "expand_recursive fs (parse_response_file_content content) (rsp_parent c base) (insert c seen) (depth + 1) = Inr (nested, seen1)"
    and "expand_recursive fs args base (seen1 - {c}) depth = Inr (rest, seen')" and "out = nested @ rest"
  using assms by (auto simp: expand_recursive.simps(2) Let_def split: option.splits if_splits sum.splits)

lemma expand_seen: "expand_recursive fs args base seen depth = Inr (out, seen') \<Longrightarrow> seen' = seen"
proof (induction fs args base seen depth arbitrary: out seen' rule: expand_recursive.induct)
  case (2 fs arg args base seen depth)
  show ?case
  proof (cases "rsp_reference arg")
    case None
    with 2 show ?thesis by (auto simp: expand_recursive.simps(2) split: sum.splits)
  next
    case (Some f)
    from expand_reference_success [OF Some 2(4)] 2(2,3) [OF Some refl] show ?thesis
      by (metis Diff_insert_absorb leD)
  qed
qed simp

lemma expand_success:
  assumes "files_have_parents fs" and "expand_recursive fs args base seen depth = Inr (out, seen')"
  shows "seen' = seen \<and> list_all (\<lambda>a. rsp_reference a = None) out \<and>
    (\<forall>cs. rsp_chain fs base args cs \<longrightarrow> good_chain fs seen depth cs)"
  using assms
proof (induction fs args base seen depth arbitrary: out seen' rule: expand_recursive.induct)
  case (1 fs base seen depth)
  show ?case
  proof (intro conjI allI impI)
    fix cs assume "rsp_chain fs base [] cs"
    then show "good_chain fs seen depth cs" by (cases cs) (auto simp: chain_Cons names_file_def good_chain_def)
  qed (use 1 in simp_all)
next
  case (2 fs arg args base seen depth)
  show ?case
  proof (cases "rsp_reference arg")
    case None
    with 2(5) obtain rest where r: "expand_recursive fs args base seen depth = Inr (rest, seen')" "out = arg # rest"
      by (auto simp: expand_recursive.simps(2) split: sum.splits)
    from 2(1) [OF None 2(4) r(1)] None r(2) show ?thesis by (auto simp: rsp_chain_def names_file_Cons)
  next
    case (Some f)
    from expand_reference_success [OF Some 2(5)] obtain c content nested seen1 rest where
        c: "canonical_rsp fs (resolve_rsp base f) = Some c" "c \<notin> seen" "depth < MAX_DEPTH"
        and content: "read_response_file_text fs c = Some content"
        and n: "expand_recursive fs (parse_response_file_content content) (rsp_parent c base) (insert c seen) (depth + 1) =
          Inr (nested, seen1)"
        and r: "expand_recursive fs args base (seen1 - {c}) depth = Inr (rest, seen')" and out: "out = nested @ rest"
      by blast
    from read_has_parent [OF 2(4) content] obtain dir where dir: "path_parent c = Some dir" by blast
    note nested = 2(2) [OF Some refl c(1) _ _ content 2(4) n]
    from nested c have seen: "seen1 - {c} = seen" by auto
    from 2(3) [OF Some refl c(1) _ _ content n refl 2(4)] r c
    have rest: "seen' = seen \<and> list_all (\<lambda>a. rsp_reference a = None) rest \<and>
        (\<forall>cs. rsp_chain fs base args cs \<longrightarrow> good_chain fs seen depth cs)" by (simp add: seen)
    have "good_chain fs seen depth cs" if "rsp_chain fs base (arg # args) cs" for cs
    proof (cases cs)
      case (Cons d ds)
      show ?thesis
      proof (cases "d = c")
        case True
        from that Cons True have "rsp_chain fs dir (parse_response_file_content content) ds"
          by (simp add: chain_below [OF content dir])
        with nested c dir have "good_chain fs (insert c seen) (depth + 1) ds" by (simp add: rsp_parent_def)
        with c content Cons True show ?thesis by (simp add: good_chain_Cons)
      next
        case False
        with that Cons Some c(1) have "rsp_chain fs base args cs" by (auto simp: chain_Cons names_file_Cons)
        with rest show ?thesis by blast
      qed
    qed (simp add: good_chain_def)
    with nested rest c out show ?thesis by simp
  qed
qed

text \<open>
  What the arguments stand for: every reference leads to a file that is there and can be read, and is
  replaced by what the arguments of that file stand for, relative to its directory.
\<close>

inductive inlines :: "rsp_fs \<Rightarrow> string \<Rightarrow> string list \<Rightarrow> string list \<Rightarrow> bool" for fs where
  inlines_none: "inlines fs base [] []"
| inlines_plain: "rsp_reference arg = None \<Longrightarrow> inlines fs base args out \<Longrightarrow> inlines fs base (arg # args) (arg # out)"
| inlines_file: "rsp_reference arg = Some f \<Longrightarrow> canonical_rsp fs (resolve_rsp base f) = Some c \<Longrightarrow>
     read_response_file_text fs c = Some content \<Longrightarrow> path_parent c = Some dir \<Longrightarrow>
     inlines fs dir (parse_response_file_content content) nested \<Longrightarrow> inlines fs base args out \<Longrightarrow>
     inlines fs base (arg # args) (nested @ out)"

lemma expand_inlines:
  assumes "files_have_parents fs" and "expand_recursive fs args base seen depth = Inr (out, seen')"
  shows "inlines fs base args out"
  using assms
proof (induction fs args base seen depth arbitrary: out seen' rule: expand_recursive.induct)
  case (2 fs arg args base seen depth)
  show ?case
  proof (cases "rsp_reference arg")
    case None
    with 2(5) obtain rest where r: "expand_recursive fs args base seen depth = Inr (rest, seen')" "out = arg # rest"
      by (auto simp: expand_recursive.simps(2) split: sum.splits)
    from 2(1) [OF None 2(4) r(1)] None r(2) show ?thesis by (simp add: inlines_plain)
  next
    case (Some f)
    from expand_reference_success [OF Some 2(5)] obtain c content nested seen1 rest where
        c: "canonical_rsp fs (resolve_rsp base f) = Some c" "c \<notin> seen" "depth < MAX_DEPTH"
        and content: "read_response_file_text fs c = Some content"
        and n: "expand_recursive fs (parse_response_file_content content) (rsp_parent c base) (insert c seen) (depth + 1) =
          Inr (nested, seen1)"
        and r: "expand_recursive fs args base (seen1 - {c}) depth = Inr (rest, seen')" and out: "out = nested @ rest"
      by blast
    from read_has_parent [OF 2(4) content] obtain dir where dir: "path_parent c = Some dir" by blast
    from 2(2) [OF Some refl c(1) _ _ content 2(4) n] c dir have nested: "inlines fs dir (parse_response_file_content content) nested"
      by (simp add: rsp_parent_def)
    from 2(3) [OF Some refl c(1) _ _ content n refl 2(4) r] c have "inlines fs base args rest" by simp
    from inlines_file [OF Some c(1) content dir nested this] out show ?thesis by simp
  qed
qed (simp add: inlines_none)

subsection \<open>The expansion as a value\<close>

definition expansion :: "rsp_fs \<Rightarrow> string list \<Rightarrow> string \<Rightarrow> npath set \<Rightarrow> nat \<Rightarrow> string list option" where
  "expansion fs args base seen depth =
     (case expand_recursive fs args base seen depth of Inl _ \<Rightarrow> None | Inr (out, _) \<Rightarrow> Some out)"

definition rsp_file :: "rsp_fs \<Rightarrow> string \<Rightarrow> npath \<Rightarrow> npath set \<Rightarrow> nat \<Rightarrow> string list option" where
  "rsp_file fs base path seen depth =
     (case canonical_rsp fs path of
        None \<Rightarrow> None
      | Some c \<Rightarrow>
          if c \<in> seen \<or> MAX_DEPTH \<le> depth then None
          else (case read_response_file_text fs c of
                  None \<Rightarrow> None
                | Some content \<Rightarrow>
                    expansion fs (parse_response_file_content content) (rsp_parent c base) (insert c seen) (depth + 1)))"

lemma expansion_Nil [simp]: "expansion fs [] base seen depth = Some []"
  by (simp add: expansion_def)

lemma expansion_Cons:
  "expansion fs (arg # args) base seen depth =
     (case rsp_reference arg of
        None \<Rightarrow> map_option ((#) arg) (expansion fs args base seen depth)
      | Some f \<Rightarrow>
          (case rsp_file fs base (resolve_rsp base f) seen depth of
             None \<Rightarrow> None
           | Some nested \<Rightarrow> map_option ((@) nested) (expansion fs args base seen depth)))"
proof (cases "rsp_reference arg")
  case None
  then show ?thesis by (auto simp: expansion_def expand_recursive.simps(2) split: sum.splits)
next
  case (Some f)
  show ?thesis
  proof (cases "rsp_file fs base (resolve_rsp base f) seen depth")
    case None
    with Some show ?thesis
      by (auto simp: expansion_def rsp_file_def expand_recursive.simps(2) Let_def
          split: option.splits sum.splits if_splits)
  next
    case nested: (Some nested)
    then obtain c content seen1 where c: "canonical_rsp fs (resolve_rsp base f) = Some c" "c \<notin> seen" "\<not> MAX_DEPTH \<le> depth"
      "read_response_file_text fs c = Some content"
      "expand_recursive fs (parse_response_file_content content) (rsp_parent c base) (insert c seen) (depth + 1) = Inr (nested, seen1)"
      by (auto simp: rsp_file_def expansion_def split: option.splits sum.splits if_splits)
    moreover from expand_seen [OF c(5)] c(2) have "seen1 - {c} = seen" by simp
    ultimately show ?thesis using Some nested
      by (auto simp: expansion_def expand_recursive.simps(2) split: sum.splits)
  qed
qed

lemma expansion_expand: "expansion fs args base {} 0 = (case expand_response_files_in fs args base of Inl _ \<Rightarrow> None | Inr out \<Rightarrow> Some out)"
  by (auto simp: expansion_def expand_response_files_in_def split: sum.splits)

subsection \<open>Failure\<close>

definition mentions :: "string \<Rightarrow> string list \<Rightarrow> npath \<Rightarrow> bool" where
  "mentions base args p \<longleftrightarrow> (\<exists>a \<in> set args. \<exists>f. rsp_reference a = Some f \<and> p = resolve_rsp base f)"

definition mentioned_on :: "rsp_fs \<Rightarrow> string \<Rightarrow> string list \<Rightarrow> npath list \<Rightarrow> npath \<Rightarrow> bool" where
  "mentioned_on fs base args cs p \<longleftrightarrow>
     rsp_chain fs base args cs \<and>
     (if cs = [] then mentions base args p
      else \<exists>content dir. read_response_file_text fs (last cs) = Some content \<and> path_parent (last cs) = Some dir \<and>
             mentions dir (parse_response_file_content content) p)"

fun error_justified :: "rsp_fs \<Rightarrow> string \<Rightarrow> string list \<Rightarrow> response_file_error \<Rightarrow> bool" where
  "error_justified fs base args (ReadError p) \<longleftrightarrow>
     (\<exists>cs. mentioned_on fs base args cs p) \<and> unreadable_rsp fs p"
| "error_justified fs base args (CircularReference p) \<longleftrightarrow>
     (\<exists>cs c. mentioned_on fs base args cs p \<and> canonical_rsp fs p = Some c \<and> c \<in> set cs)"
| "error_justified fs base args (TooDeep p) \<longleftrightarrow>
     (\<exists>cs. mentioned_on fs base args cs p \<and> distinct cs \<and> length cs = MAX_DEPTH)"

lemma names_mentions: "names_file fs base args c \<longleftrightarrow> (\<exists>p. mentions base args p \<and> canonical_rsp fs p = Some c)"
  by (auto simp: names_file_def mentions_def)

lemma inlines_mentions:
  "inlines fs base args out \<Longrightarrow> mentions base args p \<Longrightarrow>
     \<exists>c content dir nested. canonical_rsp fs p = Some c \<and> read_response_file_text fs c = Some content \<and>
       path_parent c = Some dir \<and> inlines fs dir (parse_response_file_content content) nested"
  by (induction rule: inlines.induct) (auto simp: mentions_def)

text \<open>Every reference met along a chain, the missing files included, leads to a file that can be read.\<close>

lemma inlines_readable:
  "inlines fs base args out \<Longrightarrow> mentioned_on fs base args cs p \<Longrightarrow> \<not> unreadable_rsp fs p"
proof (induction cs arbitrary: base args out)
  case Nil
  from inlines_mentions [OF Nil(1), of p] Nil(2) show ?case by (auto simp: mentioned_on_def unreadable_rsp_def)
next
  case (Cons c cs)
  then have "names_file fs base args c" by (simp add: mentioned_on_def chain_Cons)
  then obtain q where "mentions base args q" "canonical_rsp fs q = Some c" by (auto simp: names_mentions)
  with inlines_mentions [OF Cons(2)] obtain content dir nested where
    c: "read_response_file_text fs c = Some content" "path_parent c = Some dir" "inlines fs dir (parse_response_file_content content) nested"
    by fastforce
  from Cons(3) have "mentioned_on fs dir (parse_response_file_content content) cs p"
    using c(1,2) by (auto simp: mentioned_on_def chain_below split: if_splits)
  from Cons.IH [OF c(3) this] show ?case .
qed

lemma mentioned_extends:
  assumes "mentioned_on fs base args cs p" and "canonical_rsp fs p = Some c"
  shows "rsp_chain fs base args (cs @ [c])"
  using assms
  by (auto simp: mentioned_on_def rsp_chain_def refers_def successively_append_iff names_mentions split: if_splits)

lemma expand_error:
  assumes "files_have_parents fs" and "expand_recursive fs args base seen depth = Inl e"
    and "\<And>p. mentions base args p \<Longrightarrow> mentioned_on fs base0 args0 cs p"
    and "set cs = seen" and "distinct cs" and "length cs = depth" and "depth \<le> MAX_DEPTH"
  shows "error_justified fs base0 args0 e"
  using assms
proof (induction fs args base seen depth arbitrary: cs e rule: expand_recursive.induct)
  case (1 fs base seen depth)
  then show ?case by simp
next
  case (2 fs arg args base seen depth)
  have tail: "\<And>p. mentions base args p \<Longrightarrow> mentioned_on fs base0 args0 cs p"
    using 2(6) by (auto simp: mentions_def)
  show ?case
  proof (cases "rsp_reference arg")
    case None
    with 2(5) have "expand_recursive fs args base seen depth = Inl e"
      by (auto simp: expand_recursive.simps(2) split: sum.splits)
    from 2(1) [OF None 2(4) this tail 2(7-10)] show ?thesis .
  next
    case (Some f)
    let ?p = "resolve_rsp base f"
    have m: "mentioned_on fs base0 args0 cs ?p" using 2(6) Some by (force simp: mentions_def)
    show ?thesis
    proof (cases "canonical_rsp fs ?p")
      case None
      with 2(5) Some m show ?thesis by (auto simp: expand_recursive.simps(2) unreadable_rsp_def)
    next
      case c: (Some c)
      note ext = mentioned_extends [OF m c]
      consider "c \<in> seen" | "c \<notin> seen" "MAX_DEPTH \<le> depth" | "c \<notin> seen" "depth < MAX_DEPTH" by linarith
      then show ?thesis
      proof cases
        case 1
        with 2(5,7) Some c m show ?thesis by (auto simp: expand_recursive.simps(2))
      next
        case 2
        with \<open>expand_recursive fs (arg # args) base seen depth = Inl e\<close> Some c m
          \<open>distinct cs\<close> \<open>length cs = depth\<close> \<open>depth \<le> MAX_DEPTH\<close> show ?thesis
          by (auto simp: expand_recursive.simps(2))
      next
        case deep: 3
        show ?thesis
        proof (cases "read_response_file_text fs c")
          case None
          with 2(5) Some c deep m show ?thesis by (auto simp: expand_recursive.simps(2) unreadable_rsp_def)
        next
          case content: (Some content)
          from read_has_parent [OF 2(4) content] obtain dir where dir: "path_parent c = Some dir" by blast
          have below: "\<And>q. mentions (rsp_parent c base) (parse_response_file_content content) q \<Longrightarrow>
              mentioned_on fs base0 args0 (cs @ [c]) q"
            using ext content dir by (auto simp: mentioned_on_def rsp_parent_def)
          from 2(5) Some c deep content consider
              "expand_recursive fs (parse_response_file_content content) (rsp_parent c base) (insert c seen) (depth + 1) = Inl e"
            | nested seen1 where
                "expand_recursive fs (parse_response_file_content content) (rsp_parent c base) (insert c seen) (depth + 1) = Inr (nested, seen1)"
                "expand_recursive fs args base (seen1 - {c}) depth = Inl e"
            by (auto simp: expand_recursive.simps(2) split: sum.splits)
          then show ?thesis
          proof cases
            case 1
            from 2(2) [OF Some refl c deep(1) _ content 2(4) 1 below] deep 2(7-9) show ?thesis by auto
          next
            case ok: 2
            from expand_success [OF 2(4) ok(1)] deep(1) have "seen1 - {c} = seen" by auto
            with 2(3) [OF Some refl c deep(1) _ content ok(1) refl 2(4) _ tail] ok(2) deep 2(7-10) show ?thesis by auto
          qed
        qed
      qed
    qed
  qed
qed

text \<open>
  C19. Expanding response files fails only for a reason the files give, and succeeds only when there
  is none.  On success every reference has been replaced by the arguments of its file, recursively, and
  none is left; no chain of references meets a file twice or is longer than ten; every file on a chain
  was read, and no reference met on a chain names a file that is missing, cannot be canonicalised or
  cannot be read or decoded.  A circular reference names a file of the chain it
  stands on, a nesting error stands on a chain of ten different files, and a read error names a
  file that does not exist or cannot be read or decoded.
\<close>

theorem expansion_errors_justified:
  assumes "files_have_parents fs"
  shows "case expand_response_files_in fs args base of
           Inl e \<Rightarrow> error_justified fs base args e
         | Inr out \<Rightarrow>
             inlines fs base args out \<and> list_all (\<lambda>a. rsp_reference a = None) out \<and>
             (\<forall>cs. rsp_chain fs base args cs \<longrightarrow> good_chain fs {} 0 cs) \<and>
             (\<forall>cs p. mentioned_on fs base args cs p \<longrightarrow> \<not> unreadable_rsp fs p)"
proof (cases "expand_recursive fs args base {} 0")
  case (Inl e)
  with expand_error [OF assms Inl, where cs = "[]" and ?base0.0 = base and ?args0.0 = args]
  show ?thesis by (simp add: expand_response_files_in_def mentioned_on_def)
next
  case (Inr r)
  with expand_inlines [OF assms, of args base "{}" 0 "fst r" "snd r"] have "inlines fs base args (fst r)" by simp
  with Inr expand_success [OF assms, of args base "{}" 0 "fst r" "snd r"] inlines_readable [OF this]
  show ?thesis by (auto simp: expand_response_files_in_def split: prod.splits)
qed


definition loop_fs :: rsp_fs where
  "loop_fs = \<lparr> rf_canonicalize = Some, rf_read = (\<lambda>p. if p = ''/d/a'' then Some ''-c @a'' else None) \<rparr>"

theorem expansion_errors_justified_witness:
  "expand_response_files_in loop_fs [''@a''] ''/d'' = Inl (CircularReference ''/d/a'') \<and>
   error_justified loop_fs ''/d'' [''@a''] (CircularReference ''/d/a'')"
proof -
  have e: "expand_response_files_in loop_fs [''@a''] ''/d'' = Inl (CircularReference ''/d/a'')" by code_simp
  have "path_parent ''/d/a'' = Some ''/d''" by code_simp
  then have "files_have_parents loop_fs" by (auto simp: files_have_parents_def loop_fs_def)
  from expansion_errors_justified [OF this, of "''/d''" "[''@a'']"] e show ?thesis by simp
qed

end
