(* ===== verification/RspCache.thy ===== *)
theory RspCache
  imports RspExpansion CacheSystem
begin

text \<open>
  The daemon's cache of expanded response files
  (\<^verbatim>\<open>crates/zccache-daemon-core/src/daemon/server/rsp_cache.rs\<close>, trimmed by
  \<^verbatim>\<open>cache_trim.rs\<close>).  An expansion is kept under its canonical path with the content hashes of
  every file it read, and served while those hashes are what the metadata cache reports.

  One request sees one state of the file system; between requests it may change, the files as well as
  where paths lead.
\<close>

subsection \<open>Hashing through the metadata cache\<close>

definition native_hash_file :: "(string \<Rightarrow> content_hash) \<Rightarrow> env \<Rightarrow> nat \<Rightarrow> npath \<Rightarrow> io_error + content_hash" where
  "native_hash_file h env t path =
     (case os_open (env t) path of
        Inl e \<Rightarrow> Inl e
      | Inr file \<Rightarrow>
          (case os_attr (env (t + 1)) file of
             Inl e \<Rightarrow> Inl e
           | Inr meta \<Rightarrow> hash_open_file h (env (t + 2)) file (snd meta)))"

text \<open>The lookup makes at most seventeen system calls.\<close>

definition hash_file_via_cache ::
    "(string \<Rightarrow> content_hash) \<Rightarrow> env \<Rightarrow> nat \<Rightarrow> npath \<Rightarrow> metadata_cache \<Rightarrow> metadata_cache \<times> content_hash option" where
  "hash_file_via_cache h env t path mc =
     (case mc_lookup h env t path mc of
        (mc', Inr hash) \<Rightarrow> (mc', Some hash)
      | (mc', Inl _) \<Rightarrow>
          (mc', case native_hash_file h env (t + 18) path of Inr hash \<Rightarrow> Some hash | Inl _ \<Rightarrow> None))"

subsection \<open>Expansion with dependencies\<close>

record rsp_dependency =
  rd_path :: npath
  rd_hash :: content_hash

record rsp_cache_entry =
  rc_expanded :: "string list"
  rc_dependencies :: "rsp_dependency list"
  rc_cached_at :: instant

definition MAX_RSP_DEPTH :: nat where "MAX_RSP_DEPTH = 10"

text \<open>
  The hasher is an argument with its own state; it is the metadata cache in the daemon.  The set of
  files being expanded and the list of dependencies are threaded as the code threads them.
\<close>

type_synonym 's hasher = "npath \<Rightarrow> 's \<Rightarrow> 's \<times> content_hash option"
type_synonym expansion_acc = "string list \<times> npath set \<times> rsp_dependency list"

function expand_rsp_recursive ::
    "'s hasher \<Rightarrow> rsp_fs \<Rightarrow> npath \<Rightarrow> npath set \<Rightarrow> rsp_dependency list \<Rightarrow> nat \<Rightarrow> 's \<Rightarrow>
       's \<times> (response_file_error + expansion_acc)"
  and expand_rsp_children ::
    "'s hasher \<Rightarrow> rsp_fs \<Rightarrow> string \<Rightarrow> string list \<Rightarrow> npath set \<Rightarrow> rsp_dependency list \<Rightarrow> nat \<Rightarrow> 's \<Rightarrow>
       's \<times> (response_file_error + expansion_acc)" where
  "expand_rsp_recursive hf fs path seen dependencies depth s =
     (if MAX_RSP_DEPTH \<le> depth then (s, Inl (TooDeep path))
      else
        (case canonical_rsp fs path of
           None \<Rightarrow> (s, Inl (ReadError path))
         | Some canonical \<Rightarrow>
             if canonical \<in> seen then (s, Inl (CircularReference canonical))
             else
               (case hf canonical s of
                  (s', None) \<Rightarrow> (s', Inl (ReadError canonical))
                | (s', Some content_hash) \<Rightarrow>
                    (case read_response_file_text fs canonical of
                       None \<Rightarrow> (s', Inl (ReadError canonical))
                     | Some content \<Rightarrow>
                         (case expand_rsp_children hf fs (rsp_parent canonical ''.'') (parse_response_file_content content)
                                 (insert canonical seen)
                                 (dependencies @ [\<lparr> rd_path = canonical, rd_hash = content_hash \<rparr>]) depth s' of
                            (s'', Inl e) \<Rightarrow> (s'', Inl e)
                          | (s'', Inr (expanded, seen', deps)) \<Rightarrow> (s'', Inr (expanded, seen' - {canonical}, deps)))))))"
| "expand_rsp_children hf fs base_dir [] seen dependencies depth s = (s, Inr ([], seen, dependencies))"
| "expand_rsp_children hf fs base_dir (child # children) seen dependencies depth s =
     (case rsp_reference child of
        None \<Rightarrow>
          (case expand_rsp_children hf fs base_dir children seen dependencies depth s of
             (s', Inl e) \<Rightarrow> (s', Inl e)
           | (s', Inr (expanded, seen', deps)) \<Rightarrow> (s', Inr (child # expanded, seen', deps)))
      | Some filename \<Rightarrow>
          (case expand_rsp_recursive hf fs (resolve_rsp base_dir filename) seen dependencies (depth + 1) s of
             (s', Inl e) \<Rightarrow> (s', Inl e)
           | (s', Inr (nested, seen', deps)) \<Rightarrow>
               (case expand_rsp_children hf fs base_dir children seen' deps depth s' of
                  (s'', Inl e) \<Rightarrow> (s'', Inl e)
                | (s'', Inr (expanded, seen'', deps')) \<Rightarrow> (s'', Inr (nested @ expanded, seen'', deps')))))"
  by pat_completeness auto
termination
  by (relation "measures
        [\<lambda>x. case x of Inl (hf, fs, p, sn, ds, d, s) \<Rightarrow> 2 * (MAX_RSP_DEPTH - d)
                     | Inr (hf, fs, b, cs, sn, ds, d, s) \<Rightarrow> 2 * (MAX_RSP_DEPTH - d) - 1,
         \<lambda>x. case x of Inl _ \<Rightarrow> 0 | Inr (hf, fs, b, cs, sn, ds, d, s) \<Rightarrow> length cs]") auto

declare expand_rsp_recursive.simps [simp del] expand_rsp_children.simps(2) [simp del]

subsection \<open>The cache\<close>

record 's rsp_state =
  rs_hasher :: 's
  rs_cache :: "(npath, rsp_cache_entry) dmap"

fun dependencies_fresh :: "'s hasher \<Rightarrow> rsp_dependency list \<Rightarrow> 's \<Rightarrow> 's \<times> bool" where
  "dependencies_fresh hf [] s = (s, True)"
| "dependencies_fresh hf (dep # deps) s =
     (case hf (rd_path dep) s of
        (s', hash) \<Rightarrow> if hash = Some (rd_hash dep) then dependencies_fresh hf deps s' else (s', False))"

definition expand_rsp_miss ::
    "'s hasher \<Rightarrow> rsp_fs \<Rightarrow> instant \<Rightarrow> npath \<Rightarrow> 's rsp_state \<Rightarrow> 's rsp_state \<times> string list option" where
  "expand_rsp_miss hf fs now canonical st =
     (case expand_rsp_recursive hf fs canonical {} [] 0 (rs_hasher st) of
        (s, Inl _) \<Rightarrow> (st\<lparr>rs_hasher := s\<rparr>, None)
      | (s, Inr (expanded, _, deps)) \<Rightarrow>
          (\<lparr> rs_hasher = s,
             rs_cache = dm_insert canonical
               \<lparr> rc_expanded = expanded, rc_dependencies = deps, rc_cached_at = now \<rparr> (rs_cache st) \<rparr>,
           Some expanded))"

definition expand_rsp_arg_cached ::
    "'s hasher \<Rightarrow> rsp_fs \<Rightarrow> instant \<Rightarrow> npath \<Rightarrow> 's rsp_state \<Rightarrow> 's rsp_state \<times> string list option" where
  "expand_rsp_arg_cached hf fs now resolved st =
     (case canonical_rsp fs resolved of
        None \<Rightarrow> (st, None)
      | Some canonical \<Rightarrow>
          (case dm_get (rs_cache st) canonical of
             None \<Rightarrow> expand_rsp_miss hf fs now canonical st
           | Some cached \<Rightarrow>
               (case dependencies_fresh hf (rc_dependencies cached) (rs_hasher st) of
                  (s, True) \<Rightarrow> (st\<lparr>rs_hasher := s\<rparr>, Some (rc_expanded cached))
                | (s, False) \<Rightarrow> expand_rsp_miss hf fs now canonical (st\<lparr>rs_hasher := s\<rparr>))))"

fun expand_args_loop ::
    "'s hasher \<Rightarrow> rsp_fs \<Rightarrow> instant \<Rightarrow> string \<Rightarrow> string list \<Rightarrow> 's rsp_state \<Rightarrow> 's rsp_state \<times> string list" where
  "expand_args_loop hf fs now cwd [] st = (st, [])"
| "expand_args_loop hf fs now cwd (arg # args) st =
     (case rsp_reference arg of
        None \<Rightarrow> (let (st', out) = expand_args_loop hf fs now cwd args st in (st', arg # out))
      | Some filename \<Rightarrow>
          (case expand_rsp_arg_cached hf fs now (resolve_rsp cwd filename) st of
             (st1, Some expanded) \<Rightarrow>
               (let (st', out) = expand_args_loop hf fs now cwd args st1 in (st', expanded @ out))
           | (st1, None) \<Rightarrow> (let (st', out) = expand_args_loop hf fs now cwd args st1 in (st', arg # out))))"

definition expand_args_cached ::
    "'s hasher \<Rightarrow> rsp_fs \<Rightarrow> instant \<Rightarrow> string \<Rightarrow> string list \<Rightarrow> 's rsp_state \<Rightarrow> 's rsp_state \<times> string list" where
  "expand_args_cached hf fs now cwd args st =
     (if \<not> list_ex (\<lambda>a. 1 < length a \<and> hd a = CHR ''@'') args then (st, args)
      else expand_args_loop hf fs now cwd args st)"

definition RSP_CACHE_MAX_ENTRIES :: nat where "RSP_CACHE_MAX_ENTRIES = 1024"

definition cache_entry_expired_at :: "instant \<Rightarrow> instant \<Rightarrow> nat \<Rightarrow> bool" where
  "cache_entry_expired_at now cached_at max_age \<longleftrightarrow> max_age < now - cached_at"

definition trim_rsp_cache_at ::
    "nat \<Rightarrow> instant \<Rightarrow> (npath, rsp_cache_entry) dmap \<Rightarrow> (npath, rsp_cache_entry) dmap \<times> nat" where
  "trim_rsp_cache_at max_age now cache =
     (let kept = dm_retain (\<lambda>_ e. \<not> cache_entry_expired_at now (rc_cached_at e) max_age) cache;
          removed = length cache - length kept
      in if RSP_CACHE_MAX_ENTRIES < length kept then ([], removed + length kept) else (kept, removed))"

subsection \<open>What a fresh expansion records\<close>

text \<open>
  Two file systems agree on the dependencies of an expansion: the paths that led to one still do, and
  the files have the same contents.
\<close>

definition agrees :: "rsp_fs \<Rightarrow> rsp_fs \<Rightarrow> rsp_dependency list \<Rightarrow> bool" where
  "agrees fs fs' deps \<longleftrightarrow>
     (\<forall>d \<in> set deps. rf_read fs' (rd_path d) = rf_read fs (rd_path d) \<and>
        (\<forall>p. canonical_rsp fs p = Some (rd_path d) \<longrightarrow> canonical_rsp fs' p = Some (rd_path d)))"

lemma agrees_append [simp]: "agrees fs fs' (ds @ es) \<longleftrightarrow> agrees fs fs' ds \<and> agrees fs fs' es"
  by (auto simp: agrees_def)

lemma agrees_Cons:
  "agrees fs fs' (d # ds) \<longleftrightarrow> rf_read fs' (rd_path d) = rf_read fs (rd_path d) \<and>
     (\<forall>p. canonical_rsp fs p = Some (rd_path d) \<longrightarrow> canonical_rsp fs' p = Some (rd_path d)) \<and> agrees fs fs' ds"
  by (auto simp: agrees_def)

lemma agrees_refl [simp]: "agrees fs fs ds"
  by (simp add: agrees_def)

definition recorded :: "(string \<Rightarrow> content_hash) \<Rightarrow> rsp_fs \<Rightarrow> rsp_dependency list \<Rightarrow> bool" where
  "recorded digest fs deps \<longleftrightarrow>
     (\<forall>d \<in> set deps. Paths.normalize (rd_path d) = rd_path d \<and>
        (\<exists>c. rf_read fs (rd_path d) = Some c \<and> rd_hash d = digest c))"

lemma set_dm_insert: "set (dm_insert k v m) \<subseteq> insert (k, v) (set m)"
  by (induction m) (auto simp: dm_insert_def)

text \<open>
  A path that led to a file in \<open>fs0\<close> still leads there in \<open>fs\<close>, as long as the file is there: files come
  and go, but no link has been pointed elsewhere beside its old target.
\<close>

definition leads_same :: "rsp_fs \<Rightarrow> rsp_fs \<Rightarrow> bool" where
  "leads_same fs0 fs \<longleftrightarrow>
     (\<forall>p c. canonical_rsp fs0 p = Some c \<longrightarrow> rf_read fs c \<noteq> None \<longrightarrow> canonical_rsp fs p = Some c)"

text \<open>A canonical path is its own canonical path.\<close>

definition canonical_stable :: "rsp_fs \<Rightarrow> bool" where
  "canonical_stable fs \<longleftrightarrow> (\<forall>p c. canonical_rsp fs p = Some c \<longrightarrow> canonical_rsp fs c = Some c)"

text \<open>Every argument on its own, left as it is when its expansion fails.\<close>

definition expand_each :: "rsp_fs \<Rightarrow> string \<Rightarrow> string list \<Rightarrow> string list" where
  "expand_each fs cwd args =
     concat (map (\<lambda>a. case expand_response_files_in fs [a] cwd of Inr out \<Rightarrow> out | Inl _ \<Rightarrow> [a]) args)"

lemma expand_each_Cons:
  "expand_each fs cwd (a # args) =
     (case rsp_reference a of
        None \<Rightarrow> [a]
      | Some f \<Rightarrow> (case rsp_file fs cwd (resolve_rsp cwd f) {} 0 of Some out \<Rightarrow> out | None \<Rightarrow> [a])) @
     expand_each fs cwd args"
proof -
  have "(case expand_response_files_in fs [a] cwd of Inr out \<Rightarrow> out | Inl _ \<Rightarrow> [a]) =
      (case expansion fs [a] cwd {} 0 of Some out \<Rightarrow> out | None \<Rightarrow> [a])"
    by (simp add: expansion_expand split: sum.splits)
  then show ?thesis by (auto simp: expand_each_def expansion_Cons split: option.splits)
qed

lemma expand_each_plain: "list_all (\<lambda>a. rsp_reference a = None) args \<Longrightarrow> expand_each fs cwd args = args"
  by (induction args) (simp_all add: expand_each_Cons, simp add: expand_each_def)

lemma no_references:
  "list_ex (\<lambda>a. Suc 0 < length a \<and> hd a = CHR ''@'') args \<longleftrightarrow> \<not> list_all (\<lambda>a. rsp_reference a = None) args"
proof (induction args)
  case (Cons a args)
  have "rsp_reference a = None \<longleftrightarrow> \<not> (Suc 0 < length a \<and> hd a = CHR ''@'')"
    by (cases a) (auto simp: rsp_reference_def strip_prefix_def)
  with Cons show ?case by simp
qed simp

locale content_hasher =
  fixes hf :: "'s hasher" and good :: "'s \<Rightarrow> bool" and digest :: "string \<Rightarrow> content_hash"
    and contents :: "npath \<Rightarrow> string option"
  assumes hash_value: "good s \<Longrightarrow> Paths.normalize p = p \<Longrightarrow> snd (hf p s) = map_option digest (contents p)"
    and hash_keeps: "good s \<Longrightarrow> Paths.normalize p = p \<Longrightarrow> good (fst (hf p s))"
begin

text \<open>The outcome of expanding one file, and of expanding the arguments of a file.\<close>

definition outcome ::
    "rsp_fs \<Rightarrow> (rsp_fs \<Rightarrow> string list option) \<Rightarrow> npath set \<Rightarrow> rsp_dependency list \<Rightarrow>
       's \<times> (response_file_error + expansion_acc) \<Rightarrow> bool" where
  "outcome fs value seen deps r \<longleftrightarrow>
     good (fst r) \<and>
     (case snd r of
        Inl _ \<Rightarrow> value fs = None
      | Inr (out, seen', deps') \<Rightarrow>
          seen' = seen \<and>
          (\<exists>new. deps' = deps @ new \<and> recorded digest fs new \<and> (\<forall>fs'. agrees fs fs' new \<longrightarrow> value fs' = Some out)))"

definition files_at :: "rsp_fs \<Rightarrow> nat \<Rightarrow> bool" where
  "files_at fs depth \<longleftrightarrow>
     (\<forall>base path seen deps s. good s \<longrightarrow>
        outcome fs (\<lambda>fs'. rsp_file fs' base path seen depth) seen deps (expand_rsp_recursive hf fs path seen deps depth s))"

lemma outcome_error: "outcome fs v seen deps (s, Inl e) \<longleftrightarrow> good s \<and> v fs = None"
  by (simp add: outcome_def)

lemma outcome_value:
  "outcome fs v seen deps (s, Inr (out, seen', deps')) \<longleftrightarrow>
     good s \<and> seen' = seen \<and>
     (\<exists>new. deps' = deps @ new \<and> recorded digest fs new \<and> (\<forall>fs'. agrees fs fs' new \<longrightarrow> v fs' = Some out))"
  by (simp add: outcome_def)

lemma recorded_append [simp]: "recorded digest fs (ds @ es) \<longleftrightarrow> recorded digest fs ds \<and> recorded digest fs es"
  by (auto simp: recorded_def)

lemma children_outcome:
  assumes "files_at fs (depth + 1)" and "good s"
  shows "outcome fs (\<lambda>fs'. expansion fs' children dir seen (depth + 1)) seen deps
           (expand_rsp_children hf fs dir children seen deps depth s)"
  using assms(2)
proof (induction children arbitrary: seen deps s)
  case Nil
  then show ?case by (simp add: outcome_value recorded_def)
next
  case (Cons child children)
  show ?case
  proof (cases "rsp_reference child")
    case None
    obtain s' r where r: "expand_rsp_children hf fs dir children seen deps depth s = (s', r)" by fastforce
    from Cons.IH [OF Cons.prems, of seen deps] None show ?thesis
      by (cases r) (auto simp: r outcome_error outcome_value expand_rsp_children.simps(2) expansion_Cons)
  next
    case (Some f)
    obtain s1 r1 where r1: "expand_rsp_recursive hf fs (resolve_rsp dir f) seen deps (depth + 1) s = (s1, r1)" by fastforce
    from assms(1) Cons.prems have out1: "outcome fs (\<lambda>fs'. rsp_file fs' dir (resolve_rsp dir f) seen (depth + 1)) seen deps (s1, r1)"
      unfolding files_at_def r1 [symmetric] by blast
    show ?thesis
    proof (cases r1)
      case (Inl e)
      with out1 Some r1 show ?thesis by (simp add: outcome_error expand_rsp_children.simps(2) expansion_Cons)
    next
      case (Inr x)
      then obtain nested deps1 where x: "r1 = Inr (nested, seen, deps @ deps1)" "recorded digest fs deps1" "good s1"
        "\<And>fs'. agrees fs fs' deps1 \<Longrightarrow> rsp_file fs' dir (resolve_rsp dir f) seen (depth + 1) = Some nested"
        using out1 by (cases x) (auto simp: outcome_value)
      obtain s2 r2 where r2: "expand_rsp_children hf fs dir children seen (deps @ deps1) depth s1 = (s2, r2)" by fastforce
      from Cons.IH [OF x(3), of seen "deps @ deps1"] Some r1 x(1,2) x(4) x(4) [of fs] show ?thesis
        by (cases r2) (auto simp: r2 outcome_error outcome_value expand_rsp_children.simps(2) expansion_Cons)
    qed
  qed
qed

lemma canonical_normal: "canonical_rsp fs p = Some c \<Longrightarrow> Paths.normalize c = c"
  by (auto simp: canonical_rsp_def normalize_twice)

lemma file_outcome:
  assumes fs: "rf_read fs = contents" "files_have_parents fs" and ch: "files_at fs (depth + 1)" and g: "good s"
  shows "outcome fs (\<lambda>fs'. rsp_file fs' base path seen depth) seen deps (expand_rsp_recursive hf fs path seen deps depth s)"
proof (cases "MAX_RSP_DEPTH \<le> depth")
  case True
  with g show ?thesis
    by (simp add: outcome_error expand_rsp_recursive.simps rsp_file_def MAX_RSP_DEPTH_def MAX_DEPTH_def split: option.splits)
next
  case d: False
  then have d': "\<not> MAX_DEPTH \<le> depth" by (simp add: MAX_RSP_DEPTH_def MAX_DEPTH_def)
  show ?thesis
  proof (cases "canonical_rsp fs path")
    case None
    with g d show ?thesis by (simp add: outcome_error expand_rsp_recursive.simps rsp_file_def)
  next
    case c: (Some c)
    note n = canonical_normal [OF c]
    obtain s' hash where hf: "hf c s = (s', hash)" by fastforce
    with hash_value [OF g n] hash_keeps [OF g n] have hash: "hash = map_option digest (contents c)" "good s'" by auto
    show ?thesis
    proof (cases "c \<in> seen \<or> contents c = None \<or> read_response_file_text fs c = None")
      case True
      with g d c hf hash fs(1) show ?thesis
        by (auto simp: outcome_error expand_rsp_recursive.simps rsp_file_def read_response_file_text_def split: option.splits)
    next
      case False
      then obtain bytes content where content: "contents c = Some bytes" "read_response_file_text fs c = Some content" "c \<notin> seen"
        by auto
      from read_has_parent [OF fs(2) content(2)] have parent: "rsp_parent c base = rsp_parent c ''.''"
        by (auto simp: rsp_parent_def)
      let ?dep = "\<lparr>rd_path = c, rd_hash = digest bytes\<rparr>"
      obtain s2 r where r: "expand_rsp_children hf fs (rsp_parent c ''.'') (parse_response_file_content content) (insert c seen)
          (deps @ [?dep]) depth s' = (s2, r)" by fastforce
      note out = children_outcome [OF ch hash(2), of "parse_response_file_content content" "rsp_parent c ''.''" "insert c seen"
          "deps @ [?dep]", unfolded r]
      have dep: "recorded digest fs [?dep]" using n content(1) fs(1) by (simp add: recorded_def)
      have same: "read_response_file_text fs' c = Some content" "canonical_rsp fs' path = Some c" if "agrees fs fs' (?dep # new)" for fs' new
        using that content(2) c by (auto simp: agrees_Cons read_response_file_text_def)
      show ?thesis
      proof (cases r)
        case (Inl e)
        with out r d d' c hf hash content parent show ?thesis
          by (simp add: outcome_error expand_rsp_recursive.simps rsp_file_def)
      next
        case (Inr x)
        then obtain expanded new where x: "r = Inr (expanded, insert c seen, (deps @ [?dep]) @ new)" "recorded digest fs new" "good s2"
          "\<And>fs'. agrees fs fs' new \<Longrightarrow>
             expansion fs' (parse_response_file_content content) (rsp_parent c ''.'') (insert c seen) (depth + 1) = Some expanded"
          using out by (cases x) (auto simp: outcome_value)
        have "\<forall>fs'. agrees fs fs' (?dep # new) \<longrightarrow> rsp_file fs' base path seen depth = Some expanded"
          using same x(4) content(3) d' parent by (auto simp: rsp_file_def agrees_Cons)
        moreover have "recorded digest fs (?dep # new)" using dep x(2) by (simp add: recorded_def)
        ultimately show ?thesis using r x(1,3) d c hf hash content
          by (auto simp: outcome_value expand_rsp_recursive.simps)
      qed
    qed
  qed
qed

lemma all_files_outcome:
  assumes "rf_read fs = contents" "files_have_parents fs"
  shows "files_at fs depth"
proof (induction "MAX_RSP_DEPTH - depth" arbitrary: depth)
  case 0
  then show ?case
    by (auto simp: files_at_def outcome_error expand_rsp_recursive.simps rsp_file_def MAX_RSP_DEPTH_def MAX_DEPTH_def split: option.splits)
next
  case (Suc k)
  then have "files_at fs (depth + 1)" by simp
  from file_outcome [OF assms this] show ?case by (simp add: files_at_def)
qed

text \<open>
  A cached entry is sound when it was recorded in a world of the history: it is the expansion in
  every world that agrees with that one on the dependencies.
\<close>

definition entry_ok :: "rsp_fs set \<Rightarrow> npath \<Rightarrow> rsp_cache_entry \<Rightarrow> bool" where
  "entry_ok W c e \<longleftrightarrow>
     (\<exists>fs0 \<in> W. recorded digest fs0 (rc_dependencies e) \<and>
        (\<forall>fs' base. agrees fs0 fs' (rc_dependencies e) \<longrightarrow> rsp_file fs' base c {} 0 = Some (rc_expanded e)))"

definition rsp_cache_ok :: "rsp_fs set \<Rightarrow> (npath, rsp_cache_entry) dmap \<Rightarrow> bool" where
  "rsp_cache_ok W cache \<longleftrightarrow> (\<forall>(c, e) \<in> set cache. entry_ok W c e)"

definition all_contents :: "rsp_fs set \<Rightarrow> string set" where
  "all_contents W = {c. \<exists>fs \<in> W. \<exists>p. rf_read fs p = Some c}"

lemma fresh_agrees:
  assumes "good s" and "rf_read fs = contents" and "fs \<in> W" and "fs0 \<in> W"
    and "inj_on digest (all_contents W)" and "recorded digest fs0 deps" and "dependencies_fresh hf deps s = (s', fresh)"
  shows "good s'" and "leads_same fs0 fs \<Longrightarrow> fresh \<Longrightarrow> agrees fs0 fs deps"
    and "fresh \<Longrightarrow> d \<in> set deps \<Longrightarrow> Paths.normalize (rd_path d) = rd_path d \<and> map_option digest (contents (rd_path d)) = Some (rd_hash d)"
proof -
  have "good s' \<and> (leads_same fs0 fs \<longrightarrow> fresh \<longrightarrow> agrees fs0 fs deps) \<and>
    (fresh \<longrightarrow> (\<forall>d \<in> set deps. Paths.normalize (rd_path d) = rd_path d \<and> map_option digest (contents (rd_path d)) = Some (rd_hash d)))"
    using assms(1,6,7)
  proof (induction deps arbitrary: s)
    case Nil
    then show ?case by (simp add: agrees_def)
  next
    case (Cons d deps)
    then obtain c0 where n: "Paths.normalize (rd_path d) = rd_path d" and c0: "rf_read fs0 (rd_path d) = Some c0" "rd_hash d = digest c0"
      by (auto simp: recorded_def)
    obtain s1 hash where hf: "hf (rd_path d) s = (s1, hash)" by fastforce
    with hash_value [OF Cons.prems(1) n] hash_keeps [OF Cons.prems(1) n]
    have hash: "hash = map_option digest (contents (rd_path d))" "good s1" by auto
    have same: "rf_read fs (rd_path d) = Some c0" if "hash = Some (rd_hash d)"
    proof -
      from that hash obtain c where c: "rf_read fs (rd_path d) = Some c" "digest c = digest c0"
        using assms(2) c0 by auto
      moreover have "c \<in> all_contents W" "c0 \<in> all_contents W" using c c0 assms(3,4) by (auto simp: all_contents_def)
      ultimately show ?thesis using inj_onD [OF assms(5)] by auto
    qed
    from Cons.IH [OF hash(2)] Cons.prems(2,3) hf hash same n c0 show ?case
      by (auto simp: recorded_def agrees_Cons leads_same_def split: if_splits)
  qed
  then show "good s'" "leads_same fs0 fs \<Longrightarrow> fresh \<Longrightarrow> agrees fs0 fs deps"
    "fresh \<Longrightarrow> d \<in> set deps \<Longrightarrow> Paths.normalize (rd_path d) = rd_path d \<and> map_option digest (contents (rd_path d)) = Some (rd_hash d)"
    by auto
qed

text \<open>An entry whose dependencies have the recorded hashes, and what it says of the next check.\<close>

definition settled :: "rsp_cache_entry \<Rightarrow> bool" where
  "settled e \<longleftrightarrow> (\<forall>d \<in> set (rc_dependencies e). Paths.normalize (rd_path d) = rd_path d \<and>
     map_option digest (contents (rd_path d)) = Some (rd_hash d))"

lemma settled_fresh: "settled e \<Longrightarrow> good s \<Longrightarrow> snd (dependencies_fresh hf (rc_dependencies e) s)"
proof -
  have "\<forall>d \<in> set ds. Paths.normalize (rd_path d) = rd_path d \<and> map_option digest (contents (rd_path d)) = Some (rd_hash d) \<Longrightarrow>
     good s \<Longrightarrow> snd (dependencies_fresh hf ds s)" for ds
  proof (induction ds arbitrary: s)
    case (Cons d ds)
    obtain s1 hash where hf: "hf (rd_path d) s = (s1, hash)" by fastforce
    with Cons hash_value [of s "rd_path d"] hash_keeps [of s "rd_path d"] show ?case by auto
  qed simp
  then show "settled e \<Longrightarrow> good s \<Longrightarrow> snd (dependencies_fresh hf (rc_dependencies e) s)" by (simp add: settled_def)
qed

lemma miss_outcome:
  assumes fs: "rf_read fs = contents" "files_have_parents fs" "fs \<in> W" and g: "good (rs_hasher st)"
    and ok: "rsp_cache_ok W (rs_cache st)" and r: "expand_rsp_miss hf fs now c st = (st', out)"
  shows "good (rs_hasher st') \<and> rsp_cache_ok W (rs_cache st') \<and> out = rsp_file fs base c {} 0"
proof -
  obtain s res where e: "expand_rsp_recursive hf fs c {} [] 0 (rs_hasher st) = (s, res)" by fastforce
  have o: "outcome fs (\<lambda>fs'. rsp_file fs' b c {} 0) {} [] (s, res)" for b
    using all_files_outcome [OF fs(1,2), of 0] g unfolding files_at_def e [symmetric] by blast
  show ?thesis
  proof (cases res)
    case (Inl x)
    with o [of base] r e ok show ?thesis by (auto simp: expand_rsp_miss_def outcome_error)
  next
    case (Inr x)
    then obtain expanded deps where x: "res = Inr (expanded, {}, deps)" "good s" "recorded digest fs deps"
      "\<And>fs' b. agrees fs fs' deps \<Longrightarrow> rsp_file fs' b c {} 0 = Some expanded"
      using o by (cases x) (auto simp: outcome_value)
    have "entry_ok W c \<lparr>rc_expanded = expanded, rc_dependencies = deps, rc_cached_at = now\<rparr>"
      using x(3,4) fs(3) by (auto simp: entry_ok_def)
    with ok have "rsp_cache_ok W (dm_insert c \<lparr>rc_expanded = expanded, rc_dependencies = deps, rc_cached_at = now\<rparr> (rs_cache st))"
      unfolding rsp_cache_ok_def using set_dm_insert by fast
    with r e x show ?thesis by (auto simp: expand_rsp_miss_def)
  qed
qed

lemma miss_settled:
  assumes fs: "rf_read fs = contents" "files_have_parents fs" and g: "good (rs_hasher st)"
    and r: "expand_rsp_miss hf fs now c st = (st', Some out)"
  shows "\<exists>e. dm_get (rs_cache st') c = Some e \<and> rc_expanded e = out \<and> settled e"
proof -
  obtain s res where e: "expand_rsp_recursive hf fs c {} [] 0 (rs_hasher st) = (s, res)" by fastforce
  have o: "outcome fs (\<lambda>fs'. rsp_file fs' [] c {} 0) {} [] (s, res)"
    using all_files_outcome [OF fs, of 0] g unfolding files_at_def e [symmetric] by blast
  from r e obtain x deps where x: "res = Inr (out, x, deps)"
    by (cases res) (auto simp: expand_rsp_miss_def)
  with o have "recorded digest fs deps" by (auto simp: outcome_value)
  then have "settled \<lparr>rc_expanded = out, rc_dependencies = deps, rc_cached_at = now\<rparr>"
    using fs(1) by (auto simp: settled_def recorded_def)
  with r e x show ?thesis by (auto simp: expand_rsp_miss_def)
qed

lemma arg_outcome:
  assumes fs: "rf_read fs = contents" "files_have_parents fs" "fs \<in> W" and g: "good (rs_hasher st)"
    and stable: "canonical_stable fs" and inj: "inj_on digest (all_contents W)"
    and ok: "rsp_cache_ok W (rs_cache st)" and r: "expand_rsp_arg_cached hf fs now resolved st = (st', out)"
  shows "good (rs_hasher st')" and "rsp_cache_ok W (rs_cache st')"
    and "\<forall>fs0 \<in> W. leads_same fs0 fs \<Longrightarrow> out = rsp_file fs base resolved {} 0"
    and "canonical_rsp fs resolved = Some c \<Longrightarrow> out = Some x \<Longrightarrow>
      \<exists>e. dm_get (rs_cache st') c = Some e \<and> rc_expanded e = x \<and> settled e"
proof -
  have "good (rs_hasher st') \<and> rsp_cache_ok W (rs_cache st') \<and>
    ((\<forall>fs0 \<in> W. leads_same fs0 fs) \<longrightarrow> out = rsp_file fs base resolved {} 0) \<and>
    (\<forall>c x. canonical_rsp fs resolved = Some c \<longrightarrow> out = Some x \<longrightarrow>
      (\<exists>e. dm_get (rs_cache st') c = Some e \<and> rc_expanded e = x \<and> settled e))"
  proof (cases "canonical_rsp fs resolved")
    case None
    with r g ok show ?thesis by (simp add: expand_rsp_arg_cached_def rsp_file_def)
  next
    case c: (Some c)
    from stable c have same: "rsp_file fs base resolved {} 0 = rsp_file fs base c {} 0"
      by (simp add: canonical_stable_def rsp_file_def)
    show ?thesis
    proof (cases "dm_get (rs_cache st) c")
      case None
      with r c have "expand_rsp_miss hf fs now c st = (st', out)" by (simp add: expand_rsp_arg_cached_def)
      with miss_outcome [OF fs g ok this] miss_settled [OF fs(1,2) g] c same show ?thesis by auto
    next
      case cached: (Some e)
      then have "entry_ok W c e" using ok map_of_SomeD by (fastforce simp: rsp_cache_ok_def)
      then obtain fs0 where fs0: "fs0 \<in> W" "recorded digest fs0 (rc_dependencies e)"
        "\<And>fs' b. agrees fs0 fs' (rc_dependencies e) \<Longrightarrow> rsp_file fs' b c {} 0 = Some (rc_expanded e)"
        by (auto simp: entry_ok_def)
      obtain s fresh where f: "dependencies_fresh hf (rc_dependencies e) (rs_hasher st) = (s, fresh)" by fastforce
      note fr = fresh_agrees [OF g fs(1,3) fs0(1) inj fs0(2) f]
      show ?thesis
      proof (cases fresh)
        case True
        with fr(3) have "settled e" unfolding settled_def by blast
        with True fr(1,2) fs0(1,3) r c cached f same ok show ?thesis by (auto simp: expand_rsp_arg_cached_def)
      next
        case False
        with r c cached f have m: "expand_rsp_miss hf fs now c (st\<lparr>rs_hasher := s\<rparr>) = (st', out)"
          by (simp add: expand_rsp_arg_cached_def)
        with miss_outcome [OF fs _ _ m] miss_settled [OF fs(1,2) _, of "st\<lparr>rs_hasher := s\<rparr>"] fr(1) ok c same show ?thesis by auto
      qed
    qed
  qed
  then show "good (rs_hasher st')" "rsp_cache_ok W (rs_cache st')"
    "\<forall>fs0 \<in> W. leads_same fs0 fs \<Longrightarrow> out = rsp_file fs base resolved {} 0"
    "canonical_rsp fs resolved = Some c \<Longrightarrow> out = Some x \<Longrightarrow>
      \<exists>e. dm_get (rs_cache st') c = Some e \<and> rc_expanded e = x \<and> settled e" by blast+
qed

text \<open>An entry that is settled is served: where the nested references lead is not asked again.\<close>

lemma settled_served:
  assumes "canonical_rsp fs resolved = Some c" and "dm_get (rs_cache st) c = Some e" and "settled e" and "good (rs_hasher st)"
  shows "snd (expand_rsp_arg_cached hf fs now resolved st) = Some (rc_expanded e)"
  using settled_fresh [OF assms(3,4)] assms(1,2)
  by (auto simp: expand_rsp_arg_cached_def split: prod.splits bool.splits)

lemma args_outcome:
  assumes fs: "rf_read fs = contents" "files_have_parents fs" "fs \<in> W"
    and stable: "canonical_stable fs" and inj: "inj_on digest (all_contents W)"
    and g: "good (rs_hasher st)" and ok: "rsp_cache_ok W (rs_cache st)"
  shows "good (rs_hasher (fst (expand_args_loop hf fs now cwd args st))) \<and>
    rsp_cache_ok W (rs_cache (fst (expand_args_loop hf fs now cwd args st))) \<and>
    ((\<forall>fs0 \<in> W. leads_same fs0 fs) \<longrightarrow> snd (expand_args_loop hf fs now cwd args st) = expand_each fs cwd args)"
  using g ok
proof (induction args arbitrary: st)
  case (Cons arg args)
  show ?case
  proof (cases "rsp_reference arg")
    case None
    with Cons.IH [OF Cons.prems] show ?thesis by (simp add: case_prod_beta expand_each_Cons)
  next
    case (Some f)
    obtain st1 out where r: "expand_rsp_arg_cached hf fs now (resolve_rsp cwd f) st = (st1, out)" by fastforce
    note o = arg_outcome(1-3) [OF fs Cons.prems(1) stable inj Cons.prems(2) r]
    from Cons.IH [OF o(1,2)] o(3) [of cwd] Some r show ?thesis
      by (auto simp: case_prod_beta expand_each_Cons split: option.splits)
  qed
qed (simp add: expand_each_def)

lemma cached_outcome:
  assumes "rf_read fs = contents" "files_have_parents fs" "fs \<in> W"
    and "canonical_stable fs" and "inj_on digest (all_contents W)"
    and "good (rs_hasher st)" and "rsp_cache_ok W (rs_cache st)"
  shows "good (rs_hasher (fst (expand_args_cached hf fs now cwd args st))) \<and>
    rsp_cache_ok W (rs_cache (fst (expand_args_cached hf fs now cwd args st))) \<and>
    ((\<forall>fs0 \<in> W. leads_same fs0 fs) \<longrightarrow> snd (expand_args_cached hf fs now cwd args st) = expand_each fs cwd args)"
  using args_outcome [OF assms, of now cwd args] assms(6,7)
  by (auto simp: expand_args_cached_def expand_each_plain no_references)
end

subsection \<open>The metadata cache as the hasher\<close>

definition os_contents :: "os_state \<Rightarrow> npath \<Rightarrow> string option" where
  "os_contents os p =
     (case os_open os p of
        Inl _ \<Rightarrow> None
      | Inr i \<Rightarrow> (case os_unreadable os i of None \<Rightarrow> Some (os_content os i) | Some _ \<Rightarrow> None))"

text \<open>What opens is a file that can be read, and opening a path and resolving it give the same file.\<close>

definition plain_files :: "os_state \<Rightarrow> bool" where
  "plain_files os \<longleftrightarrow>
     (\<forall>p. os_open os p = os_resolve os p) \<and>
     (\<forall>p i. os_open os p = Inr i \<longrightarrow> os_unreadable os i = None \<and> (\<exists>a. os_attr os i = Inr a))"

text \<open>The file system stands still for the system calls of one request; the clock may go on.\<close>

definition still_at :: "env \<Rightarrow> nat \<Rightarrow> bool" where
  "still_at env t \<longleftrightarrow> (\<forall>u \<le> 24. \<exists>i. env (t + u) = (env t)\<lparr>os_instant := i\<rparr>)"

lemma still_fields:
  assumes "still_at env t" and "t \<le> v" and "v \<le> t + 24"
  shows "os_open (env v) = os_open (env t)" "os_resolve (env v) = os_resolve (env t)" "os_attr (env v) = os_attr (env t)"
    "os_content (env v) = os_content (env t)" "os_unreadable (env v) = os_unreadable (env t)"
proof -
  from assms(2,3) obtain u where "v = t + u" "u \<le> 24" by (metis le_add_diff_inverse nat_add_left_cancel_le)
  with assms(1) obtain i where "env v = (env t)\<lparr>os_instant := i\<rparr>" by (auto simp: still_at_def)
  then show "os_open (env v) = os_open (env t)" "os_resolve (env v) = os_resolve (env t)" "os_attr (env v) = os_attr (env t)"
    "os_content (env v) = os_content (env t)" "os_unreadable (env v) = os_unreadable (env t)" by simp_all
qed

definition served_at :: "env \<Rightarrow> nat \<Rightarrow> bool" where
  "served_at env t \<longleftrightarrow> still_at env t \<and> plain_files (env t) \<and> (\<forall>p. honest_stamps 0 env p)"

lemma served_not_restless:
  assumes "served_at env t" and "t \<le> u" and "u + 3 \<le> t + 24"
  shows "\<not> restless env p u"
proof
  assume "restless env p u"
  then have "stamp_moves env p (u + 4 * 0)" unfolding restless_def by (elim allE [of _ 0]) simp
  then obtain i j where m: "os_open (env u) p = Inr i" "os_resolve (env (u + 3)) p = Inr j"
    "os_attr (env (u + 1)) i \<noteq> os_attr (env (u + 3)) j" by (auto simp: stamp_moves_def)
  from assms(1) have s: "still_at env t" and pl: "plain_files (env t)" by (simp_all add: served_at_def)
  note f = still_fields [OF s]
  have "os_open (env t) p = Inr i" "os_resolve (env t) p = Inr j" "os_attr (env t) i \<noteq> os_attr (env t) j"
    using m f(1) [of u] f(2,3) [of "u + 3"] f(3) [of "u + 1"] assms(2,3) by simp_all
  with pl show False by (simp add: plain_files_def)
qed

lemma observed_contents:
  assumes "served_at env t" and "observed h env p t (t + 15) hash"
  shows "map_option h (os_contents (env t) p) = Some hash"
  using assms(2)
proof (cases rule: observedE)
  case (1 v u i)
  from assms(1) have s: "still_at env t" and pl: "plain_files (env t)" by (simp_all add: served_at_def)
  from still_fields [OF s, of v] still_fields [OF s, of u] 1
  have i: "os_resolve (env t) p = Inr i \<or> os_open (env t) p = Inr i" "hash = h (os_content (env t) i)" by simp_all
  with pl show ?thesis by (auto simp: plain_files_def os_contents_def)
next
  case (2 u i)
  with served_not_restless [OF assms(1), of u p] show ?thesis by simp
qed

lemma served_read:
  assumes "served_at env t" and "os_open (env t) p = Inr i"
  shows "os_delivers (env (t + 20)) i = os_content (env t) i"
proof -
  from assms(1) have s: "still_at env t" and pl: "plain_files (env t)" and hon: "honest_stamps 0 env p" by (simp_all add: served_at_def)
  note f = still_fields [OF s]
  from pl assms(2) obtain a where a: "os_attr (env t) i = Inr a" by (fastforce simp: plain_files_def)
  from assms(2) have n: "names_path env p i" by (auto simp: names_path_def)
  have "os_delivers (env (t + 20)) i = os_content (env (t + 20)) i"
    by (rule honest_read [OF hon n n, of "t + 19" _ "t + 21" a]) (use a f(3) [of "t + 19"] f(3) [of "t + 21"] in simp_all)
  with f(4) [of "t + 20"] show ?thesis by simp
qed

lemma native_contents:
  assumes "served_at env t"
  shows "(case native_hash_file h env (t + 18) p of Inr hash \<Rightarrow> Some hash | Inl _ \<Rightarrow> None) =
    map_option h (os_contents (env t) p)"
proof -
  from assms have s: "still_at env t" and pl: "plain_files (env t)" and hon: "honest_stamps 0 env p" by (simp_all add: served_at_def)
  note f = still_fields [OF s, of "t + 18"] still_fields [OF s, of "t + 19"] still_fields [OF s, of "t + 20"]
  show ?thesis
  proof (cases "os_open (env t) p")
    case (Inl e)
    with f show ?thesis by (simp add: native_hash_file_def os_contents_def)
  next
    case (Inr i)
    with pl obtain m sz where a: "os_attr (env t) i = Inr (m, sz)" and r: "os_unreadable (env t) i = None"
      by (fastforce simp: plain_files_def)
    have "native_hash_file h env (t + 18) p = hash_open_file h (env (t + 20)) i sz"
      using Inr a f by (simp add: native_hash_file_def add.commute)
    with honest_size [OF hon a] served_read [OF assms Inr] Inr r f show ?thesis
      by (auto simp: os_contents_def os_read_def hash_open_file_def)
  qed
qed

interpretation via: content_hasher "hash_file_via_cache h env t" "\<lambda>mc. served_at env t \<and> mc_wf mc \<and> cache_sound 0 h env mc" h
  "os_contents (env t)" for h env t
proof
  fix mc p
  assume g: "served_at env t \<and> mc_wf mc \<and> cache_sound 0 h env mc" and n: "Paths.normalize p = p"
  then have hon: "honest_stamps 0 env p" by (simp add: served_at_def)
  obtain mc' r where l: "lookup_normalized h env t p mc = (mc', r)" by fastforce
  from lookup_sound_lemma [OF hon, of h mc t] g l
  have snd: "cache_sound 0 h env mc'" and obs: "\<And>hash. r = Inr hash \<Longrightarrow> observed h env p t (t + 15) hash" by auto
  show "snd (hash_file_via_cache h env t p mc) = map_option h (os_contents (env t) p)"
    using observed_contents [OF _ obs] native_contents g l n
    by (cases r) (auto simp: hash_file_via_cache_def mc_lookup_def)
  from mc_wf_step [of mc "Lookup h env t p"] g l have "mc_wf mc'" by simp
  then show "served_at env t \<and> mc_wf (fst (hash_file_via_cache h env t p mc)) \<and>
      cache_sound 0 h env (fst (hash_file_via_cache h env t p mc))"
    using g snd l n by (cases r) (auto simp: hash_file_via_cache_def mc_lookup_def)
qed

subsection \<open>Runs of the daemon\<close>

text \<open>
  The file system of a request at call \<open>t\<close>: where paths lead then, and what the files contain then.
  Both may differ from one request to the next.
\<close>

definition rsp_world :: "(nat \<Rightarrow> string \<Rightarrow> string option) \<Rightarrow> env \<Rightarrow> nat \<Rightarrow> rsp_fs" where
  "rsp_world canon env t = \<lparr> rf_canonicalize = canon t, rf_read = os_contents (env t) \<rparr>"

datatype rsp_op = ExpandArgs nat instant string "string list" | TrimRsp nat instant | ClearRsp | MetadataOp mc_op

fun rsp_step ::
    "(string \<Rightarrow> content_hash) \<Rightarrow> env \<Rightarrow> (nat \<Rightarrow> string \<Rightarrow> string option) \<Rightarrow> metadata_cache rsp_state \<Rightarrow> rsp_op \<Rightarrow>
       metadata_cache rsp_state" where
  "rsp_step h env canon st (ExpandArgs t now cwd args) =
     fst (expand_args_cached (hash_file_via_cache h env t) (rsp_world canon env t) now cwd args st)"
| "rsp_step h env canon st (TrimRsp max_age now) = st\<lparr>rs_cache := fst (trim_rsp_cache_at max_age now (rs_cache st))\<rparr>"
| "rsp_step h env canon st ClearRsp = st\<lparr>rs_cache := []\<rparr>"
| "rsp_step h env canon st (MetadataOp x) = st\<lparr>rs_hasher := mc_step (rs_hasher st) x\<rparr>"

fun rsp_op_ok :: "(string \<Rightarrow> content_hash) \<Rightarrow> env \<Rightarrow> rsp_op \<Rightarrow> bool" where
  "rsp_op_ok h env (ExpandArgs t now cwd args) \<longleftrightarrow> served_at env t"
| "rsp_op_ok h env (MetadataOp x) \<longleftrightarrow> served_by h env x"
| "rsp_op_ok h env x \<longleftrightarrow> True"

definition rsp_start :: "metadata_cache rsp_state" where
  "rsp_start = \<lparr> rs_hasher = metadata_new, rs_cache = [] \<rparr>"

definition rsp_worlds :: "(nat \<Rightarrow> string \<Rightarrow> string option) \<Rightarrow> env \<Rightarrow> rsp_fs set" where
  "rsp_worlds canon env = range (rsp_world canon env)"

text \<open>Files lie in directories, and a canonical path is its own canonical path.\<close>

definition tree_like :: "(nat \<Rightarrow> string \<Rightarrow> string option) \<Rightarrow> env \<Rightarrow> bool" where
  "tree_like canon env \<longleftrightarrow>
     (\<forall>t. files_have_parents (rsp_world canon env t) \<and> canonical_stable (rsp_world canon env t))"

text \<open>Digests of the contents in the history do not collide.\<close>

definition no_collision :: "(string \<Rightarrow> content_hash) \<Rightarrow> env \<Rightarrow> bool" where
  "no_collision h env \<longleftrightarrow> inj_on h {c. \<exists>t p. os_contents (env t) p = Some c}"

text \<open>No path of the history leads elsewhere at call \<open>t\<close> while the file it led to is still there.\<close>

definition links_kept :: "(nat \<Rightarrow> string \<Rightarrow> string option) \<Rightarrow> env \<Rightarrow> nat \<Rightarrow> bool" where
  "links_kept canon env t \<longleftrightarrow> (\<forall>t'. leads_same (rsp_world canon env t') (rsp_world canon env t))"

definition rsp_state_ok ::
    "(string \<Rightarrow> content_hash) \<Rightarrow> env \<Rightarrow> (nat \<Rightarrow> string \<Rightarrow> string option) \<Rightarrow> metadata_cache rsp_state \<Rightarrow> bool" where
  "rsp_state_ok h env canon st \<longleftrightarrow>
     mc_wf (rs_hasher st) \<and> cache_sound 0 h env (rs_hasher st) \<and> via.rsp_cache_ok h (rsp_worlds canon env) (rs_cache st)"

lemma rsp_world_facts:
  assumes "tree_like canon env" and "no_collision h env"
  shows "rf_read (rsp_world canon env t) = os_contents (env t)" "files_have_parents (rsp_world canon env t)"
    "rsp_world canon env t \<in> rsp_worlds canon env" "canonical_stable (rsp_world canon env t)"
    "inj_on h (via.all_contents (rsp_worlds canon env))"
  using assms
  by (simp_all add: rsp_world_def rsp_worlds_def tree_like_def no_collision_def via.all_contents_def)

lemma request_outcome:
  assumes "served_at env t" and "tree_like canon env" and "no_collision h env" and "rsp_state_ok h env canon st"
  shows "rsp_state_ok h env canon (fst (expand_args_cached (hash_file_via_cache h env t) (rsp_world canon env t) now cwd args st))"
    and "links_kept canon env t \<Longrightarrow>
      snd (expand_args_cached (hash_file_via_cache h env t) (rsp_world canon env t) now cwd args st) =
        expand_each (rsp_world canon env t) cwd args"
proof -
  note o = via.cached_outcome [where env = env and t = t, OF rsp_world_facts [OF assms(2,3)], of st now cwd args]
  from o assms(1,4) show "rsp_state_ok h env canon (fst (expand_args_cached (hash_file_via_cache h env t) (rsp_world canon env t) now cwd args st))"
    by (simp add: rsp_state_ok_def)
  assume "links_kept canon env t"
  then have "\<forall>fs0 \<in> rsp_worlds canon env. leads_same fs0 (rsp_world canon env t)" by (auto simp: links_kept_def rsp_worlds_def)
  with o assms(1,4) show "snd (expand_args_cached (hash_file_via_cache h env t) (rsp_world canon env t) now cwd args st) =
        expand_each (rsp_world canon env t) cwd args"
    by (simp add: rsp_state_ok_def)
qed

lemma rsp_state_ok_step:
  assumes "\<forall>p. honest_stamps 0 env p" and "tree_like canon env" and "no_collision h env" and "rsp_op_ok h env x"
    and "rsp_state_ok h env canon st"
  shows "rsp_state_ok h env canon (rsp_step h env canon st x)"
proof (cases x)
  case (ExpandArgs t now cwd args)
  with request_outcome(1) [OF _ assms(2,3,5)] assms(4) show ?thesis by simp
next
  case (TrimRsp max_age now)
  have "set (fst (trim_rsp_cache_at max_age now m)) \<subseteq> set m" for m
    by (auto simp: trim_rsp_cache_at_def dm_retain_def Let_def)
  with TrimRsp assms(5) show ?thesis by (fastforce simp: rsp_state_ok_def via.rsp_cache_ok_def)
next
  case ClearRsp
  with assms(5) show ?thesis by (simp add: rsp_state_ok_def via.rsp_cache_ok_def)
next
  case (MetadataOp y)
  with assms cache_sound_step [OF assms(1), of h y "rs_hasher st"] mc_wf_step [of "rs_hasher st" y] show ?thesis
    by (simp add: rsp_state_ok_def)
qed

lemma rsp_state_ok_run:
  assumes "\<forall>p. honest_stamps 0 env p" and "tree_like canon env" and "no_collision h env"
  shows "list_all (rsp_op_ok h env) xs \<Longrightarrow> rsp_state_ok h env canon st \<Longrightarrow>
    rsp_state_ok h env canon (foldl (rsp_step h env canon) st xs)"
  by (induction xs arbitrary: st) (simp_all add: rsp_state_ok_step [OF assms])

lemma rsp_start_ok: "rsp_state_ok h env canon rsp_start"
  by (simp add: rsp_state_ok_def rsp_start_def via.rsp_cache_ok_def metadata_new_def mc_wf_def cache_sound_def)

text \<open>
  C18. Whatever the daemon did before (expansions in other states of the file system, trims, clears,
  file events and evictions in the metadata cache), expanding a command line through the cache of
  response files gives what the compiler's own expansion gives on the files as they are now: each
  reference is replaced by its current expansion, and left in place exactly when that fails.  Files may
  be edited, created and deleted between requests.  Assumed are stamps that are honest under the exact
  comparison, a file system that stands still during one request, no collision of digests, no overflow
  rescan and no entries inserted or merged into the metadata cache from outside, and that no path of the
  history now leads elsewhere while the file it led to is still there.
\<close>

theorem cached_expansion_is_current:
  assumes "\<forall>p. honest_stamps 0 env p" and "tree_like canon env" and "no_collision h env"
    and "list_all (rsp_op_ok h env) xs" and "served_at env t" and "links_kept canon env t"
  shows "snd (expand_args_cached (hash_file_via_cache h env t) (rsp_world canon env t) now cwd args
           (foldl (rsp_step h env canon) rsp_start xs)) =
         concat (map (\<lambda>a. case expand_response_files_in (rsp_world canon env t) [a] cwd of
           Inr out \<Rightarrow> out | Inl _ \<Rightarrow> [a]) args)"
  using request_outcome(2) [OF assms(5,2,3) rsp_state_ok_run [OF assms(1-4) rsp_start_ok] assms(6)]
  by (simp add: expand_each_def)

text \<open>A response file that is created at call 50 and rewritten at call 100.\<close>

definition edited_env :: env where
  "edited_env t =
     \<lparr> os_resolve = (\<lambda>p. if p = ''/d/a'' \<and> 50 \<le> t then Inr 0 else Inl NotFound),
       os_open = (\<lambda>p. if p = ''/d/a'' \<and> 50 \<le> t then Inr 0 else Inl NotFound),
       os_attr = (\<lambda>i. Inr (if t < 100 then 1 else 2, 3)),
       os_content = (\<lambda>i. if t < 100 then ''-O1'' else ''-O2''),
       os_delivers = (\<lambda>i. if t < 100 then ''-O1'' else ''-O2''),
       os_unreadable = (\<lambda>i. None), os_instant = t \<rparr>"

definition edited_canon :: "nat \<Rightarrow> string \<Rightarrow> string option" where
  "edited_canon t p = (if p = ''/d/a'' \<and> 50 \<le> t then Some p else None)"

theorem cached_expansion_is_current_witness:
  "snd (expand_args_cached (hash_file_via_cache (\<lambda>c. c) edited_env 200) (rsp_world edited_canon edited_env 200) 9 ''/d'' [''-c'', ''@a'']
     (foldl (rsp_step (\<lambda>c. c) edited_env edited_canon) rsp_start
       [ExpandArgs 0 1 ''/d'' [''@a''], ExpandArgs 60 1 ''/d'' [''@a''], TrimRsp 300 2])) = [''-c'', ''-O2'']"
proof -
  have p: "path_parent ''/d/a'' = Some ''/d''" "Paths.normalize ''/d/a'' = ''/d/a''" by code_simp+
  have e: "expand_response_files_in (rsp_world edited_canon edited_env 200) [''-c''] ''/d'' = Inr [''-c'']"
    "expand_response_files_in (rsp_world edited_canon edited_env 200) [''@a''] ''/d'' = Inr [''-O2'']" by code_simp+
  have "honest_stamps 0 edited_env q" for q
    by (auto simp: honest_stamps_def edited_env_def split: if_splits)
  moreover have "tree_like edited_canon edited_env"
    using p by (auto simp: tree_like_def files_have_parents_def canonical_stable_def canonical_rsp_def rsp_world_def
        edited_env_def edited_canon_def os_contents_def)
  moreover have "no_collision (\<lambda>c. c) edited_env" by (simp add: no_collision_def)
  moreover have "served_at edited_env 0" "served_at edited_env 60" "served_at edited_env 200"
    using calculation(1) by (auto simp: served_at_def still_at_def plain_files_def edited_env_def)
  moreover have "links_kept edited_canon edited_env 200"
    by (auto simp: links_kept_def leads_same_def canonical_rsp_def rsp_world_def edited_canon_def)
  ultimately show ?thesis
    using cached_expansion_is_current [of edited_env edited_canon "\<lambda>c. c"
        "[ExpandArgs 0 1 ''/d'' [''@a''], ExpandArgs 60 1 ''/d'' [''@a''], TrimRsp 300 2]" 200 9 "''/d''"
        "[''-c'', ''@a'']"] e by simp
qed

subsection \<open>Links\<close>

text \<open>
  C36. Where nested references lead is not asked again.  After any run, take a response file that has been
  expanded through the cache; when the path of the file itself still leads to the same place and no file
  has changed its contents, the next expansion gives the old answer, wherever the links on the way to
  the nested files point now: the dependencies are kept by canonical path, and a link that is pointed at
  another file is not among them.
\<close>

theorem nested_links_not_rechecked:
  assumes "\<forall>p. honest_stamps 0 env p" and "tree_like canon env" and "no_collision h env"
    and "list_all (rsp_op_ok h env) xs" and "served_at env t" and "served_at env t'"
    and first: "expand_rsp_arg_cached (hash_file_via_cache h env t) (rsp_world canon env t) now path
      (foldl (rsp_step h env canon) rsp_start xs) = (st, Some out)"
    and "os_contents (env t') = os_contents (env t)" and "canonical_rsp (rsp_world canon env t) path \<noteq> None"
    and "canonical_rsp (rsp_world canon env t') path = canonical_rsp (rsp_world canon env t) path"
  shows "snd (expand_rsp_arg_cached (hash_file_via_cache h env t') (rsp_world canon env t') now' path st) = Some out"
proof -
  let ?st0 = "foldl (rsp_step h env canon) rsp_start xs"
  from assms(9) obtain c where c: "canonical_rsp (rsp_world canon env t) path = Some c" by auto
  have ok: "rsp_state_ok h env canon ?st0" by (rule rsp_state_ok_run [OF assms(1-4) rsp_start_ok])
  note w = rsp_world_facts [OF assms(2,3)]
  note o = via.arg_outcome [where env = env and t = t, OF w(1-3) _ w(4,5) _ first]
  have g: "served_at env t \<and> mc_wf (rs_hasher ?st0) \<and> cache_sound 0 h env (rs_hasher ?st0)"
    and r: "via.rsp_cache_ok h (rsp_worlds canon env) (rs_cache ?st0)"
    using ok assms(5) by (simp_all add: rsp_state_ok_def)
  from o(4) [OF g r c refl] obtain e where e: "dm_get (rs_cache st) c = Some e" "rc_expanded e = out" "via.settled h env t e" by blast
  have "via.settled h env t' e" using e(3) assms(8) by (simp add: via.settled_def)
  from via.settled_served [where env = env and t = t' and fs = "rsp_world canon env t'" and resolved = path, OF _ e(1) this] c assms(6,10) o(1) [OF g r] e(2)
  show ?thesis by simp
qed

text \<open>Two response files and a link \<^verbatim>\<open>/d/b\<close> that leads to the first until call 100 and then to the second.\<close>

definition link_env :: env where
  "link_env t =
     \<lparr> os_resolve = (\<lambda>p. if p = ''/d/a'' then Inr 0 else if p = ''/d/b1'' then Inr 1 else if p = ''/d/b2'' then Inr 2 else Inl NotFound),
       os_open = (\<lambda>p. if p = ''/d/a'' then Inr 0 else if p = ''/d/b1'' then Inr 1 else if p = ''/d/b2'' then Inr 2 else Inl NotFound),
       os_attr = (\<lambda>i. Inr (int i, if i = 0 then 2 else 3)),
       os_content = (\<lambda>i. if i = 0 then ''@b'' else if i = 1 then ''-O1'' else ''-O2''),
       os_delivers = (\<lambda>i. if i = 0 then ''@b'' else if i = 1 then ''-O1'' else ''-O2''),
       os_unreadable = (\<lambda>i. None), os_instant = t \<rparr>"

definition link_canon :: "nat \<Rightarrow> string \<Rightarrow> string option" where
  "link_canon t p =
     (if p = ''/d/b'' then Some (if t < 100 then ''/d/b1'' else ''/d/b2'')
      else if p = ''/d/a'' \<or> p = ''/d/b1'' \<or> p = ''/d/b2'' then Some p else None)"

theorem nested_links_not_rechecked_witness:
  "let st = fst (expand_rsp_arg_cached (hash_file_via_cache (\<lambda>c. c) link_env 0) (rsp_world link_canon link_env 0) 1 ''/d/a'' rsp_start)
   in snd (expand_rsp_arg_cached (hash_file_via_cache (\<lambda>c. c) link_env 200) (rsp_world link_canon link_env 200) 2 ''/d/a'' st) = Some [''-O1''] \<and>
      expand_response_files_in (rsp_world link_canon link_env 200) [''@a''] ''/d'' = Inr [''-O2'']"
proof -
  let ?r = "expand_rsp_arg_cached (hash_file_via_cache (\<lambda>c. c) link_env 0) (rsp_world link_canon link_env 0) 1 ''/d/a'' rsp_start"
  have p: "path_parent ''/d/a'' = Some ''/d''" "path_parent ''/d/b1'' = Some ''/d''" "path_parent ''/d/b2'' = Some ''/d''"
    "Paths.normalize ''/d/a'' = ''/d/a''" "Paths.normalize ''/d/b1'' = ''/d/b1''" "Paths.normalize ''/d/b2'' = ''/d/b2''"
    by code_simp+
  have e: "expand_response_files_in (rsp_world link_canon link_env 200) [''@a''] ''/d'' = Inr [''-O2'']"
    "rsp_file (rsp_world link_canon link_env 0) [] ''/d/a'' {} 0 = Some [''-O1'']" by code_simp+
  have hon: "honest_stamps 0 link_env q" for q
    by (auto simp: honest_stamps_def link_env_def names_path_def split: if_splits)
  have tree: "tree_like link_canon link_env"
    using p by (auto simp: tree_like_def files_have_parents_def canonical_stable_def canonical_rsp_def rsp_world_def
        link_env_def link_canon_def os_contents_def split: if_splits)
  have inj: "no_collision (\<lambda>c. c) link_env" by (simp add: no_collision_def)
  have served: "served_at link_env t" for t
    using hon by (auto simp: served_at_def still_at_def plain_files_def link_env_def)
  note w = rsp_world_facts [OF tree inj]
  obtain st out where r: "?r = (st, out)" by fastforce
  from p(4) have c: "canonical_rsp (rsp_world link_canon link_env t) ''/d/a'' = Some ''/d/a''" for t
    by (simp add: canonical_rsp_def rsp_world_def link_canon_def)
  then have m: "expand_rsp_miss (hash_file_via_cache (\<lambda>c. c) link_env 0) (rsp_world link_canon link_env 0) 1 ''/d/a'' rsp_start = (st, out)"
    using r by (simp add: expand_rsp_arg_cached_def rsp_start_def)
  have "out = Some [''-O1'']"
    using via.miss_outcome [where env = link_env and t = 0, OF w(1-3) _ _ m, of "[]"] served rsp_start_ok [of "\<lambda>c. c" link_env link_canon] e(2)
    by (simp add: rsp_state_ok_def)
  with r have first: "expand_rsp_arg_cached (hash_file_via_cache (\<lambda>c. c) link_env 0) (rsp_world link_canon link_env 0) 1 ''/d/a''
      (foldl (rsp_step (\<lambda>c. c) link_env link_canon) rsp_start []) = (st, Some [''-O1''])" by simp
  have same: "os_contents (link_env 200) = os_contents (link_env 0)" by (simp add: link_env_def os_contents_def fun_eq_iff)
  have "snd (expand_rsp_arg_cached (hash_file_via_cache (\<lambda>c. c) link_env 200) (rsp_world link_canon link_env 200) 2 ''/d/a'' st) = Some [''-O1'']"
    by (rule nested_links_not_rechecked [OF _ tree inj _ served served first same]) (simp_all add: hon c)
  with e(1) r show ?thesis by simp
qed

end
