(* ===== verification/Watcher.thy ===== *)
theory Watcher
  imports CacheSystem
begin

text \<open>
  The file watcher (\<^verbatim>\<open>crates/zccache-watcher/src\<close>: \<^verbatim>\<open>ignore.rs\<close>, the conversion in
  \<^verbatim>\<open>notify_watcher.rs\<close>, \<^verbatim>\<open>settle.rs\<close>) and the daemon task that feeds its batches into the
  cache system (\<^verbatim>\<open>daemon/server/run.rs\<close>, \<^verbatim>\<open>start_watcher_tasks\<close>).

  Notifications of the host are an argument.  The channels between the tasks are queues, and the
  tasks take their steps in any order: a run of the pipeline is a list of such steps.
\<close>

subsection \<open>Ignored directories\<close>

record ignore_filter =
  if_patterns :: "string list"

definition default_patterns :: "string list" where
  "default_patterns =
     [''.git'', ''target'', ''node_modules'', ''.hg'', ''__pycache__'', ''.mypy_cache'', ''build'', ''.cache'']"

definition should_ignore :: "ignore_filter \<Rightarrow> string \<Rightarrow> bool" where
  "should_ignore filt path \<longleftrightarrow>
     list_ex (\<lambda>c. case c of Normal name \<Rightarrow> name \<in> set (if_patterns filt) | _ \<Rightarrow> False) (path_components path)"

subsection \<open>Notifications of the host\<close>

datatype rename_side = RenameFrom | RenameTo | RenameBoth | RenameUnknown

datatype notify_kind =
    NkCreated
  | NkRemoved
  | NkNameModified rename_side
  | NkContentModified
  | NkMetadataModified
  | NkAccessed
  | NkOther

datatype host_notification =
    RescanRequired
  | ChangeEvent notify_kind "string list"
  | WatchFailed string

datatype watch_event =
    WeModified npath
  | WeCreated npath
  | WeRemoved npath
  | WeRenamed npath npath
  | WeOverflow
  | WeError string

fun path_event :: "notify_kind \<Rightarrow> npath \<Rightarrow> watch_event option" where
  "path_event NkCreated p = Some (WeCreated p)"
| "path_event NkRemoved p = Some (WeRemoved p)"
| "path_event (NkNameModified RenameFrom) p = Some (WeRemoved p)"
| "path_event (NkNameModified RenameTo) p = Some (WeCreated p)"
| "path_event (NkNameModified _) p = Some (WeModified p)"
| "path_event NkContentModified p = Some (WeModified p)"
| "path_event NkMetadataModified p = Some (WeModified p)"
| "path_event NkAccessed p = None"
| "path_event NkOther p = Some (WeModified p)"

definition convert_event :: "ignore_filter \<Rightarrow> notify_kind \<Rightarrow> string list \<Rightarrow> watch_event list" where
  "convert_event ignore kind paths =
     (if kind = NkNameModified RenameBoth \<and> 2 \<le> length paths then
        (let from_path = paths ! 0; to_path = paths ! 1;
             from_ignored = should_ignore ignore from_path; to_ignored = should_ignore ignore to_path
         in if from_ignored \<and> to_ignored then []
            else if from_ignored then [WeCreated (Paths.normalize to_path)]
            else if to_ignored then [WeRemoved (Paths.normalize from_path)]
            else [WeRenamed (Paths.normalize from_path) (Paths.normalize to_path)])
      else
        List.map_filter (\<lambda>path. if should_ignore ignore path then None else path_event kind (Paths.normalize path)) paths)"

fun convert_notification :: "ignore_filter \<Rightarrow> host_notification \<Rightarrow> watch_event list" where
  "convert_notification ignore RescanRequired = [WeOverflow]"
| "convert_notification ignore (ChangeEvent kind paths) = convert_event ignore kind paths"
| "convert_notification ignore (WatchFailed e) = [WeError e]"

subsection \<open>The settle buffer\<close>

datatype settled_event = Batch "npath list" "npath list" | SettledOverflow

datatype change_kind = CkModified | CkRemoved

record settle_buffer =
  sb_settle_window :: nat
  sb_max_wait :: nat

text \<open>Times in milliseconds.\<close>

definition settle_new :: "nat \<Rightarrow> settle_buffer" where
  "settle_new window = \<lparr> sb_settle_window = window, sb_max_wait = 50 \<rparr>"

definition default_window :: settle_buffer where
  "default_window = settle_new 50"

fun apply_event :: "(npath, change_kind) dmap \<Rightarrow> watch_event \<Rightarrow> (npath, change_kind) dmap" where
  "apply_event pending (WeModified p) = dm_insert p CkModified pending"
| "apply_event pending (WeCreated p) = dm_insert p CkModified pending"
| "apply_event pending (WeRemoved p) = dm_insert p CkRemoved pending"
| "apply_event pending (WeRenamed a b) = dm_insert b CkModified (dm_insert a CkRemoved pending)"
| "apply_event pending WeOverflow = pending"
| "apply_event pending (WeError e) = pending"

definition drain :: "(npath, change_kind) dmap \<Rightarrow> settled_event" where
  "drain pending =
     Batch (map fst (filter (\<lambda>(_, k). k = CkModified) pending)) (map fst (filter (\<lambda>(_, k). k = CkRemoved) pending))"

definition flush_pending :: "(npath, change_kind) dmap \<Rightarrow> settled_event list" where
  "flush_pending pending = (if pending \<noteq> [] then [drain pending] else [])"

text \<open>
  The loop waits for a first event, then collects until the window passes without an event or the
  deadline is reached.  A step is an event at a time, the closing of the channel, or the timeout.
\<close>

datatype settle_state =
    Waiting "(npath, change_kind) dmap"
  | Collecting "(npath, change_kind) dmap" nat
  | Returned

datatype settle_input = Received nat watch_event | ChannelClosed | TimeoutElapsed

fun overflows :: "watch_event \<Rightarrow> bool" where
  "overflows WeOverflow \<longleftrightarrow> True"
| "overflows (WeError _) \<longleftrightarrow> True"
| "overflows _ \<longleftrightarrow> False"

definition wait_time :: "settle_buffer \<Rightarrow> nat \<Rightarrow> nat \<Rightarrow> nat" where
  "wait_time sb deadline now = min (sb_settle_window sb) (deadline - now)"

definition settle_arm ::
    "settle_buffer \<Rightarrow> (npath, change_kind) dmap \<Rightarrow> nat \<Rightarrow> nat \<Rightarrow> settle_state \<times> settled_event list" where
  "settle_arm sb pending deadline now =
     (if wait_time sb deadline now = 0 then (Waiting [], flush_pending pending) else (Collecting pending deadline, []))"

fun settle_step :: "settle_buffer \<Rightarrow> settle_state \<Rightarrow> settle_input \<Rightarrow> settle_state \<times> settled_event list" where
  "settle_step sb (Waiting pending) (Received now e) =
     (if overflows e then (Waiting [], [SettledOverflow])
      else settle_arm sb (apply_event pending e) (now + sb_max_wait sb) now)"
| "settle_step sb (Waiting pending) ChannelClosed = (Returned, flush_pending pending)"
| "settle_step sb (Waiting pending) TimeoutElapsed = (Waiting pending, [])"
| "settle_step sb (Collecting pending deadline) (Received now e) =
     (if overflows e then (Waiting [], [SettledOverflow])
      else settle_arm sb (apply_event pending e) deadline now)"
| "settle_step sb (Collecting pending deadline) ChannelClosed = (Returned, flush_pending pending)"
| "settle_step sb (Collecting pending deadline) TimeoutElapsed = (Waiting [], flush_pending pending)"
| "settle_step sb Returned _ = (Returned, [])"

fun settle_run :: "settle_buffer \<Rightarrow> settle_state \<Rightarrow> settle_input list \<Rightarrow> settle_state \<times> settled_event list" where
  "settle_run sb st [] = (st, [])"
| "settle_run sb st (i # is) =
     (let (st1, out1) = settle_step sb st i; (st2, out2) = settle_run sb st1 is in (st2, out1 @ out2))"

subsection \<open>The consumer and the whole pipeline\<close>

text \<open>
  The consumer strips a verbatim prefix, which a Unix path does not have, and normalises again.  An
  empty batch does nothing.  Marking hard links suspect, the fingerprint cache and the event log
  are other parts of the daemon.
\<close>

definition consume_settled :: "settled_event \<Rightarrow> cache_system \<Rightarrow> cache_system" where
  "consume_settled event cs =
     (case event of
        Batch changed removed \<Rightarrow>
          if 0 < length changed + length removed
          then fst (apply_changes_with_removals (map Paths.normalize changed) (map Paths.normalize removed) cs)
          else cs
      | SettledOverflow \<Rightarrow> fst (apply_overflow cs))"

record pipeline =
  pl_raw :: "watch_event list"
  pl_settle :: settle_state
  pl_settled :: "settled_event list"
  pl_cache :: cache_system

definition pipeline_start :: pipeline where
  "pipeline_start =
     \<lparr> pl_raw = [], pl_settle = Waiting [], pl_settled = [], pl_cache = cache_system_new \<rparr>"

datatype pipeline_op =
    HostNotifies host_notification
  | SettleReceives nat
  | SettleTimesOut
  | ConsumerTakes
  | CacheOp cs_op

definition settle_input_step :: "settle_buffer \<Rightarrow> settle_input \<Rightarrow> pipeline \<Rightarrow> pipeline" where
  "settle_input_step sb i pl =
     (let (st, out) = settle_step sb (pl_settle pl) i in pl\<lparr>pl_settle := st, pl_settled := pl_settled pl @ out\<rparr>)"

fun pipeline_step :: "ignore_filter \<Rightarrow> settle_buffer \<Rightarrow> pipeline \<Rightarrow> pipeline_op \<Rightarrow> pipeline" where
  "pipeline_step ignore sb pl (HostNotifies n) = pl\<lparr>pl_raw := pl_raw pl @ convert_notification ignore n\<rparr>"
| "pipeline_step ignore sb pl (SettleReceives now) =
     (case pl_raw pl of
        [] \<Rightarrow> pl
      | e # es \<Rightarrow> settle_input_step sb (Received now e) (pl\<lparr>pl_raw := es\<rparr>))"
| "pipeline_step ignore sb pl SettleTimesOut = settle_input_step sb TimeoutElapsed pl"
| "pipeline_step ignore sb pl ConsumerTakes =
     (case pl_settled pl of
        [] \<Rightarrow> pl
      | event # events \<Rightarrow> pl\<lparr>pl_settled := events, pl_cache := consume_settled event (pl_cache pl)\<rparr>)"
| "pipeline_step ignore sb pl (CacheOp x) = pl\<lparr>pl_cache := cs_step (pl_cache pl) x\<rparr>"

subsection \<open>What a batch reports\<close>

text \<open>The kind of change an event means for a path, and the last one of a sequence.\<close>

fun effect :: "watch_event \<Rightarrow> npath \<Rightarrow> change_kind option" where
  "effect (WeModified q) p = (if p = q then Some CkModified else None)"
| "effect (WeCreated q) p = (if p = q then Some CkModified else None)"
| "effect (WeRemoved q) p = (if p = q then Some CkRemoved else None)"
| "effect (WeRenamed a b) p = (if p = b then Some CkModified else if p = a then Some CkRemoved else None)"
| "effect WeOverflow p = None"
| "effect (WeError e) p = None"

definition last_kind :: "watch_event list \<Rightarrow> npath \<Rightarrow> change_kind option" where
  "last_kind es p = fold (\<lambda>e k. case effect e p of Some k' \<Rightarrow> Some k' | None \<Rightarrow> k) es None"

text \<open>A settled event summarises the events since the previous one.\<close>

definition summarises :: "watch_event list \<Rightarrow> settled_event \<Rightarrow> bool" where
  "summarises es out \<longleftrightarrow>
     es \<noteq> [] \<and> \<not> list_ex overflows (butlast es) \<and>
     (case out of
        SettledOverflow \<Rightarrow> overflows (last es)
      | Batch changed removed \<Rightarrow>
          \<not> overflows (last es) \<and> distinct (changed @ removed) \<and>
          set changed = {p. last_kind es p = Some CkModified} \<and> set removed = {p. last_kind es p = Some CkRemoved})"

lemma get_apply_event:
  "dm_get (apply_event m e) p = (case effect e p of Some k \<Rightarrow> Some k | None \<Rightarrow> dm_get m p)"
  by (cases e) auto

lemma get_apply_events: "dm_get (foldl apply_event m es) p =
    fold (\<lambda>e k. case effect e p of Some k' \<Rightarrow> Some k' | None \<Rightarrow> k) es (dm_get m p)"
  by (induction es arbitrary: m) (auto simp: get_apply_event split: option.splits)

lemma get_pending: "dm_get (foldl apply_event [] es) p = last_kind es p"
  by (simp add: get_apply_events last_kind_def)

lemma wf_apply_event: "dm_wf m \<Longrightarrow> dm_wf (apply_event m e)"
  by (cases e) auto

lemma wf_pending: "dm_wf (foldl apply_event [] es)"
proof -
  have "dm_wf m \<Longrightarrow> dm_wf (foldl apply_event m es)" for m
    by (induction es arbitrary: m) (auto simp: wf_apply_event)
  then show ?thesis by (simp add: dm_wf_def)
qed

lemma drain_sets:
  assumes "dm_wf m"
  shows "drain m = Batch c r \<Longrightarrow> distinct (c @ r) \<and> set c = {p. dm_get m p = Some CkModified} \<and>
    set r = {p. dm_get m p = Some CkRemoved}"
proof -
  from assms have d: "distinct (map fst m)" by (simp add: dm_wf_def)
  have g: "dm_get m p = Some k \<longleftrightarrow> (p, k) \<in> set m" for p k
    using d by (simp add: map_of_eq_Some_iff)
  have "distinct (map fst (filter P m))" for P using d by (simp add: distinct_map_filter)
  moreover assume "drain m = Batch c r"
  ultimately show ?thesis using d eq_key_imp_eq_value [OF d] by (force simp: drain_def g)
qed

lemma pending_nonempty: "es \<noteq> [] \<Longrightarrow> \<not> list_ex overflows es \<Longrightarrow> foldl apply_event [] es \<noteq> []"
proof (induction es rule: rev_induct)
  case (snoc e es)
  then show ?case by (cases e) (auto simp: dm_insert_def)
qed simp

lemma flush_summary:
  "\<not> list_ex overflows es \<Longrightarrow> flush_pending (foldl apply_event [] es) = (if es = [] then [] else [drain (foldl apply_event [] es)])"
  by (simp add: flush_pending_def pending_nonempty)

lemma drain_summarises:
  assumes "es \<noteq> []" and "\<not> list_ex overflows es"
  shows "summarises es (drain (foldl apply_event [] es))"
proof -
  obtain c r where d: "drain (foldl apply_event [] es) = Batch c r" by (simp add: drain_def)
  from assms have "\<not> list_ex overflows (butlast es)" "\<not> overflows (last es)"
    by (auto simp: list_ex_iff dest: in_set_butlastD)
  with assms drain_sets [OF wf_pending d] d show ?thesis by (auto simp: summarises_def get_pending)
qed


text \<open>The events a state has collected and not yet reported.\<close>

fun collected :: "settle_state \<Rightarrow> watch_event list \<Rightarrow> bool" where
  "collected (Waiting pending) es \<longleftrightarrow> pending = [] \<and> es = []"
| "collected (Collecting pending deadline) es \<longleftrightarrow>
     pending = foldl apply_event [] es \<and> es \<noteq> [] \<and> \<not> list_ex overflows es"
| "collected Returned es \<longleftrightarrow> es = []"

fun heard :: "settle_input \<Rightarrow> watch_event list" where
  "heard (Received now e) = [e]"
| "heard _ = []"

lemma settle_step_segments:
  assumes "collected st es" and "st \<noteq> Returned" and "settle_step sb st i = (st', out)"
  shows "\<exists>segs es'. es @ heard i = concat segs @ es' \<and> list_all2 summarises segs out \<and> collected st' es' \<and>
    (st' = Returned \<longleftrightarrow> i = ChannelClosed)"
proof -
  have collect: "\<exists>segs es'. es @ [e] = concat segs @ es' \<and> list_all2 summarises segs out \<and> collected st' es' \<and> st' \<noteq> Returned"
    if "if overflows e then (st', out) = (Waiting [], [SettledOverflow])
        else (st', out) = settle_arm sb (foldl apply_event [] (es @ [e])) dl now" "\<not> list_ex overflows es" for e dl now
  proof (cases "overflows e \<or> wait_time sb dl now = 0")
    case True
    with that have "summarises (es @ [e]) (hd out)" "length out = 1" "st' = Waiting []"
      using drain_summarises [of "es @ [e]"] flush_summary [of "es @ [e]"]
      by (auto simp: settle_arm_def summarises_def split: if_splits)
    then show ?thesis by (intro exI [of _ "[es @ [e]]"] exI [of _ "[]"]) (auto simp: length_Suc_conv)
  next
    case False
    with that show ?thesis by (intro exI [of _ "[]"] exI [of _ "es @ [e]"]) (auto simp: settle_arm_def)
  qed
  have flush: "\<exists>segs es'. es = concat segs @ es' \<and> list_all2 summarises segs (flush_pending (foldl apply_event [] es)) \<and> es' = []"
    if "\<not> list_ex overflows es"
    using drain_summarises [OF _ that] flush_summary [OF that]
    by (intro exI [of _ "if es = [] then [] else [es]"] exI [of _ "[]"]) auto
  show ?thesis
  proof (cases st)
    case (Waiting pending)
    show ?thesis
    proof (cases i)
      case (Received now e)
      with Waiting assms collect [of e "now + sb_max_wait sb" now] show ?thesis by (auto split: if_splits)
    next
      case ChannelClosed
      with Waiting assms show ?thesis by (auto simp: flush_pending_def)
    next
      case TimeoutElapsed
      with Waiting assms show ?thesis by (auto intro!: exI [of _ "[]"])
    qed
  next
    case (Collecting pending deadline)
    show ?thesis
    proof (cases i)
      case (Received now e)
      with Collecting assms collect [of e deadline now] show ?thesis by (auto split: if_splits)
    next
      case ChannelClosed
      with Collecting assms flush show ?thesis by fastforce
    next
      case TimeoutElapsed
      with Collecting assms flush show ?thesis by fastforce
    qed
  qed (use assms in simp)
qed

lemma returned_stays: "settle_run sb Returned is = (Returned, [])"
  by (induction "is") auto

lemma settle_run_segments:
  assumes "collected st es" and "st \<noteq> Returned" and "settle_run sb st is = (st', outs)"
  shows "\<exists>segs es'. es @ concat (map heard (takeWhile (\<lambda>i. i \<noteq> ChannelClosed) is)) = concat segs @ es' \<and>
    list_all2 summarises segs outs \<and> collected st' es' \<and> (st' = Returned \<longleftrightarrow> ChannelClosed \<in> set is)"
  using assms
proof (induction "is" arbitrary: st es outs)
  case Nil
  then show ?case by (intro exI [of _ "[]"] exI [of _ es]) auto
next
  case (Cons i "is")
  obtain st1 out1 where s: "settle_step sb st i = (st1, out1)" by fastforce
  obtain out2 where r: "settle_run sb st1 is = (st', out2)" and outs: "outs = out1 @ out2"
    using Cons.prems(3) s by (cases "settle_run sb st1 is") auto
  from settle_step_segments [OF Cons.prems(1,2) s] obtain segs1 es1 where
    a: "es @ heard i = concat segs1 @ es1" "list_all2 summarises segs1 out1" "collected st1 es1" "st1 = Returned \<longleftrightarrow> i = ChannelClosed"
    by blast
  show ?case
  proof (cases "i = ChannelClosed")
    case True
    with a r returned_stays [of sb "is"] outs show ?thesis by (intro exI [of _ segs1] exI [of _ es1]) auto
  next
    case False
    with Cons.IH [OF a(3) _ r] a(4) obtain segs2 es2 where
      b: "es1 @ concat (map heard (takeWhile (\<lambda>i. i \<noteq> ChannelClosed) is)) = concat segs2 @ es2"
        "list_all2 summarises segs2 out2" "collected st' es2" "st' = Returned \<longleftrightarrow> ChannelClosed \<in> set is" by blast
    from a(1) b(1) have "es @ heard i @ concat (map heard (takeWhile (\<lambda>i. i \<noteq> ChannelClosed) is)) = concat (segs1 @ segs2) @ es2"
      by (metis append.assoc concat_append)
    with False a(2) b outs show ?thesis
      by (intro exI [of _ "segs1 @ segs2"] exI [of _ es2]) (auto intro: list_all2_appendI)
  qed
qed


text \<open>
  C31. The settle buffer reports every event exactly once and in order, whatever the timing: the
  events it heard before its channel closed fall into consecutive groups, one per report.  A group
  with an overflow or a watcher error at its end is reported as an overflow; any other as a batch
  that lists each path of the group once, by the last thing that happened to it.  When the channel
  closes nothing is left; before that only events since the last report, none of them an overflow.
\<close>

theorem settle_reports_all:
  "case settle_run sb (Waiting []) is of
     (st, outs) \<Rightarrow>
       \<exists>groups rest. concat (map heard (takeWhile (\<lambda>i. i \<noteq> ChannelClosed) is)) = concat groups @ rest \<and>
         list_all2 summarises groups outs \<and> (if ChannelClosed \<in> set is then rest = [] else collected st rest)"
proof -
  obtain st outs where r: "settle_run sb (Waiting []) is = (st, outs)" by fastforce
  from settle_run_segments [OF _ _ r, of "[]"] r show ?thesis by auto
qed

subsection \<open>From a notification to the cache\<close>

fun touches :: "npath \<Rightarrow> watch_event \<Rightarrow> bool" where
  "touches p e \<longleftrightarrow> overflows e \<or> effect e p \<noteq> None"

fun covers :: "npath \<Rightarrow> settled_event \<Rightarrow> bool" where
  "covers p (Batch changed removed) \<longleftrightarrow> p \<in> set changed \<or> p \<in> set removed"
| "covers p SettledOverflow \<longleftrightarrow> True"

fun pending_of :: "settle_state \<Rightarrow> (npath, change_kind) dmap" where
  "pending_of (Waiting m) = m"
| "pending_of (Collecting m d) = m"
| "pending_of Returned = []"

definition in_flight :: "npath \<Rightarrow> pipeline \<Rightarrow> bool" where
  "in_flight p pl \<longleftrightarrow>
     (\<exists>e \<in> set (pl_raw pl). touches p e) \<or> p \<in> fst ` set (pending_of (pl_settle pl)) \<or>
     (\<exists>b \<in> set (pl_settled pl). covers p b)"

definition drained :: "pipeline \<Rightarrow> bool" where
  "drained pl \<longleftrightarrow> pl_raw pl = [] \<and> pending_of (pl_settle pl) = [] \<and> pl_settled pl = []"

text \<open>Notifications that concern a path: a loss of events, or a change at a path that is not ignored.\<close>

fun concerns :: "ignore_filter \<Rightarrow> npath \<Rightarrow> host_notification \<Rightarrow> bool" where
  "concerns ignore p RescanRequired \<longleftrightarrow> True"
| "concerns ignore p (WatchFailed e) \<longleftrightarrow> True"
| "concerns ignore p (ChangeEvent kind paths) \<longleftrightarrow>
     kind \<noteq> NkAccessed \<and>
     list_ex (\<lambda>q. \<not> should_ignore ignore q \<and> Paths.normalize q = p)
       (if kind = NkNameModified RenameBoth \<and> 2 \<le> length paths then take 2 paths else paths)"

lemma concerns_touches:
  assumes "concerns ignore p n"
  shows "\<exists>e \<in> set (convert_notification ignore n). touches p e"
proof (cases n)
  case (ChangeEvent kind paths)
  show ?thesis
  proof (cases "kind = NkNameModified RenameBoth \<and> 2 \<le> length paths")
    case True
    then obtain a b ps where "paths = a # b # ps"
      by (metis Suc_1 Suc_le_length_iff numeral_2_eq_2)
    with True assms ChangeEvent show ?thesis by (auto simp: convert_event_def Let_def)
  next
    case False
    with assms ChangeEvent obtain q where q: "q \<in> set paths" "\<not> should_ignore ignore q" "Paths.normalize q = p" "kind \<noteq> NkAccessed"
      by (auto simp: list_ex_iff)
    then obtain e where e: "path_event kind p = Some e" "effect e p \<noteq> None"
      by (cases kind) (auto, metis (full_types) effect.simps(1,2,3) option.distinct(1) path_event.simps(3-6) rename_side.exhaust)
    have "e \<in> set (convert_event ignore kind paths)"
      using False q e(1) by (force simp: convert_event_def map_filter_def)
    with e ChangeEvent show ?thesis by force
  qed
qed auto

lemma pending_flushed: "p \<in> fst ` set m \<Longrightarrow> \<exists>b \<in> set (flush_pending m). covers p b"
proof -
  assume "p \<in> fst ` set m"
  then obtain k where "(p, k) \<in> set m" by auto
  then show ?thesis by (cases k) (force simp: flush_pending_def drain_def)+
qed

lemma pending_keys: "fst ` set (apply_event m e) = fst ` set m \<union> {p. effect e p \<noteq> None}"
  by (cases e) (auto simp: dm_insert_def dom_update)


lemma settle_keeps_flight:
  assumes "settle_step sb st i = (st', out)" and "st \<noteq> Returned"
    and "p \<in> fst ` set (pending_of st) \<or> list_ex (touches p) (heard i)"
  shows "p \<in> fst ` set (pending_of st') \<or> (\<exists>b \<in> set out. covers p b)"
proof -
  have arm: "p \<in> fst ` set (pending_of st') \<or> (\<exists>b \<in> set out. covers p b)"
    if "settle_arm sb m dl now = (st', out)" "p \<in> fst ` set m" for m dl now
    using that pending_flushed [OF that(2)] by (auto simp: settle_arm_def split: if_splits)
  show ?thesis
  proof (cases i)
    case (Received now e)
    show ?thesis
    proof (cases "overflows e")
      case True
      with assms Received show ?thesis by (cases st) auto
    next
      case False
      then have "p \<in> fst ` set (apply_event (pending_of st) e)"
        using assms(3) Received by (auto simp: pending_keys)
      with arm False assms(1,2) Received show ?thesis by (cases st) auto
    qed
  next
    case ChannelClosed
    with assms pending_flushed show ?thesis by (cases st) auto
  next
    case TimeoutElapsed
    with assms pending_flushed show ?thesis by (cases st) auto
  qed
qed

lemma settle_not_returned: "settle_step sb st i = (st', out) \<Longrightarrow> st \<noteq> Returned \<Longrightarrow> i \<noteq> ChannelClosed \<Longrightarrow> st' \<noteq> Returned"
  by (cases st; cases i) (auto simp: settle_arm_def split: if_splits)

text \<open>A cache operation advances the clock by at most one tick.\<close>

lemma ticks_registers: "ticks (map Register ps) = 0" "history t (map Register ps) = {}"
  by (induction ps) auto

lemma ticks_cs_op: "ticks (journal_ops_of cs x) \<le> 1"
  by (cases x) (auto simp: ticks_registers)

text \<open>
  The invariant of a run: \<open>H\<close> is the history of the journal; what is in flight is not lost, and what
  has been delivered is in the history after the tick \<open>s\<close>.
\<close>

definition noticed :: "npath \<Rightarrow> clock \<Rightarrow> (nat \<times> happening) set \<Rightarrow> pipeline \<Rightarrow> bool" where
  "noticed p s H pl \<longleftrightarrow> in_flight p pl \<or> (\<exists>t > s. (t, Changed p) \<in> H \<or> (t, Lost) \<in> H)"

definition pipeline_tracks :: "nat \<Rightarrow> (nat \<times> happening) set \<Rightarrow> pipeline \<Rightarrow> bool" where
  "pipeline_tracks k H pl \<longleftrightarrow>
     pl_settle pl \<noteq> Returned \<and> journal_tracks 10000 H (cs_journal (pl_cache pl)) \<and> cs_current_clock (pl_cache pl) \<le> k"

lemma cs_step_tracks:
  assumes "journal_tracks n H (cs_journal cs)" and "cs_current_clock cs + 1 < u64_mod"
  shows "journal_tracks n (H \<union> history (cs_current_clock cs) (journal_ops_of cs x)) (cs_journal (cs_step cs x))"
    and "cs_current_clock (cs_step cs x) = cs_current_clock cs + ticks (journal_ops_of cs x)"
  using journal_tracks_run [OF assms(1), of "journal_ops_of cs x"] assms(2) ticks_cs_op [of cs x]
  by (simp_all add: cs_step_journal cs_current_clock_def current_clock_def)

lemma consume_as_op:
  "consume_settled (Batch c r) cs = (if c = [] \<and> r = [] then cs else cs_step cs (ApplyRemovals (map Paths.normalize c) (map Paths.normalize r)))"
  "consume_settled SettledOverflow cs = cs_step cs ApplyOverflow"
  by (simp_all add: consume_settled_def)

lemma consume_tracks:
  assumes "journal_tracks n H (cs_journal cs)" and "cs_current_clock cs + 1 < u64_mod"
  obtains H' where "journal_tracks n H' (cs_journal (consume_settled b cs))" and "H \<subseteq> H'"
    and "cs_current_clock cs \<le> cs_current_clock (consume_settled b cs)"
    and "cs_current_clock (consume_settled b cs) \<le> cs_current_clock cs + 1"
    and "\<And>p. covers p b \<Longrightarrow> Paths.normalize p = p \<Longrightarrow> (cs_current_clock cs + 1, Changed p) \<in> H' \<or> (cs_current_clock cs + 1, Lost) \<in> H'"
proof (cases b)
  case (Batch c r)
  show thesis
  proof (cases "c = [] \<and> r = []")
    case True
    with Batch assms show thesis by (intro that [of H]) (auto simp: consume_as_op)
  next
    case False
    note t = cs_step_tracks [OF assms, of "ApplyRemovals (map Paths.normalize c) (map Paths.normalize r)"]
    from False Batch t show thesis
      by (intro that [of "H \<union> history (cs_current_clock cs)
            (journal_ops_of cs (ApplyRemovals (map Paths.normalize c) (map Paths.normalize r)))"])
         (auto simp: consume_as_op image_iff, metis+)
  qed
next
  case SettledOverflow
  from cs_step_tracks [OF assms, of ApplyOverflow] SettledOverflow show thesis
    by (intro that [of "H \<union> history (cs_current_clock cs) (journal_ops_of cs ApplyOverflow)"]) (auto simp: consume_as_op)
qed


lemma settle_input_tracks:
  assumes "pipeline_tracks k H pl" and "i \<noteq> ChannelClosed"
  shows "pipeline_tracks k H (settle_input_step sb i pl)"
    and "noticed p s H pl \<or> list_ex (touches p) (heard i) \<Longrightarrow> noticed p s H (settle_input_step sb i pl)"
    and "pl_cache (settle_input_step sb i pl) = pl_cache pl"
proof -
  obtain st out where st: "settle_step sb (pl_settle pl) i = (st, out)" by fastforce
  from assms have nr: "pl_settle pl \<noteq> Returned" by (simp add: pipeline_tracks_def)
  from assms settle_not_returned [OF st nr] st show "pipeline_tracks k H (settle_input_step sb i pl)"
    by (simp add: pipeline_tracks_def settle_input_step_def)
  show "pl_cache (settle_input_step sb i pl) = pl_cache pl" by (simp add: settle_input_step_def st)
  show "noticed p s H pl \<or> list_ex (touches p) (heard i) \<Longrightarrow> noticed p s H (settle_input_step sb i pl)"
    using settle_keeps_flight [OF st nr, of p] st
    by (auto simp: noticed_def in_flight_def settle_input_step_def)
qed

lemma pipeline_step_tracks:
  assumes tr: "pipeline_tracks k H pl" and k: "k + 1 < u64_mod"
  shows "\<exists>H'. pipeline_tracks (k + 1) H' (pipeline_step ignore sb pl x) \<and>
    cs_current_clock (pl_cache pl) \<le> cs_current_clock (pl_cache (pipeline_step ignore sb pl x)) \<and>
    (\<forall>p s. Paths.normalize p = p \<longrightarrow> s \<le> cs_current_clock (pl_cache pl) \<longrightarrow> noticed p s H pl \<longrightarrow>
       noticed p s H' (pipeline_step ignore sb pl x))"
proof (cases x)
  case (HostNotifies n)
  with tr show ?thesis by (intro exI [of _ H]) (auto simp: pipeline_tracks_def noticed_def in_flight_def)
next
  case (SettleReceives now)
  show ?thesis
  proof (cases "pl_raw pl")
    case Nil
    with tr SettleReceives show ?thesis by (intro exI [of _ H]) (auto simp: pipeline_tracks_def)
  next
    case (Cons e es)
    let ?pl = "pl\<lparr>pl_raw := es\<rparr>"
    from tr have "pipeline_tracks k H ?pl" by (simp add: pipeline_tracks_def)
    note s = settle_input_tracks [where i = "Received now e" and sb = sb, OF this]
    have "noticed p u H ?pl \<or> list_ex (touches p) [e]" if "noticed p u H pl" for p u
      using that Cons by (auto simp: noticed_def in_flight_def)
    with s Cons SettleReceives show ?thesis
      by (intro exI [of _ H]) (auto simp: pipeline_tracks_def)
  qed
next
  case SettleTimesOut
  with settle_input_tracks [where i = TimeoutElapsed and sb = sb, OF tr] show ?thesis
    by (intro exI [of _ H]) (auto simp: pipeline_tracks_def)
next
  case ConsumerTakes
  show ?thesis
  proof (cases "pl_settled pl")
    case Nil
    with tr ConsumerTakes show ?thesis by (intro exI [of _ H]) (auto simp: pipeline_tracks_def)
  next
    case (Cons b bs)
    from tr k have j: "journal_tracks 10000 H (cs_journal (pl_cache pl))" "cs_current_clock (pl_cache pl) + 1 < u64_mod"
      by (auto simp: pipeline_tracks_def)
    from consume_tracks [OF j, of b] obtain H' where H':
      "journal_tracks 10000 H' (cs_journal (consume_settled b (pl_cache pl)))" "H \<subseteq> H'"
      "cs_current_clock (pl_cache pl) \<le> cs_current_clock (consume_settled b (pl_cache pl))"
      "cs_current_clock (consume_settled b (pl_cache pl)) \<le> cs_current_clock (pl_cache pl) + 1"
      "\<And>p. covers p b \<Longrightarrow> Paths.normalize p = p \<Longrightarrow> (cs_current_clock (pl_cache pl) + 1, Changed p) \<in> H' \<or>
         (cs_current_clock (pl_cache pl) + 1, Lost) \<in> H'" by blast
    let ?pl = "pl\<lparr>pl_settled := bs, pl_cache := consume_settled b (pl_cache pl)\<rparr>"
    have "noticed p s H' ?pl" if "Paths.normalize p = p" "s \<le> cs_current_clock (pl_cache pl)" "noticed p s H pl" for p s
    proof (cases "covers p b")
      case True
      with H'(5) [OF True that(1)] that(2) show ?thesis
        by (auto simp: noticed_def intro: exI [of _ "cs_current_clock (pl_cache pl) + 1"])
    next
      case False
      with that(3) Cons H'(2) show ?thesis by (auto simp: noticed_def in_flight_def)
    qed
    with H' tr Cons ConsumerTakes show ?thesis by (intro exI [of _ H']) (auto simp: pipeline_tracks_def)
  qed
next
  case (CacheOp y)
  from tr k have j: "journal_tracks 10000 H (cs_journal (pl_cache pl))" "cs_current_clock (pl_cache pl) + 1 < u64_mod"
    by (auto simp: pipeline_tracks_def)
  from cs_step_tracks [OF j, of y] ticks_cs_op [of "pl_cache pl" y] tr CacheOp show ?thesis
    by (intro exI [of _ "H \<union> history (cs_current_clock (pl_cache pl)) (journal_ops_of (pl_cache pl) y)"])
       (auto simp: pipeline_tracks_def noticed_def in_flight_def)
qed

lemma pipeline_run_tracks:
  assumes "pipeline_tracks k H pl" and "k + length xs < u64_mod"
  shows "\<exists>H'. pipeline_tracks (k + length xs) H' (foldl (pipeline_step ignore sb) pl xs) \<and>
    (\<forall>p s. Paths.normalize p = p \<longrightarrow> s \<le> cs_current_clock (pl_cache pl) \<longrightarrow> noticed p s H pl \<longrightarrow>
       noticed p s H' (foldl (pipeline_step ignore sb) pl xs))"
  using assms
proof (induction xs arbitrary: k H pl)
  case (Cons x xs)
  from pipeline_step_tracks [OF Cons.prems(1), of ignore sb x] Cons.prems(2) obtain H1 where
    H1: "pipeline_tracks (k + 1) H1 (pipeline_step ignore sb pl x)"
      "cs_current_clock (pl_cache pl) \<le> cs_current_clock (pl_cache (pipeline_step ignore sb pl x))"
      "\<And>p s. Paths.normalize p = p \<Longrightarrow> s \<le> cs_current_clock (pl_cache pl) \<Longrightarrow> noticed p s H pl \<Longrightarrow>
         noticed p s H1 (pipeline_step ignore sb pl x)" by auto
  from Cons.IH [OF H1(1)] Cons.prems(2) obtain H2 where
    H2: "pipeline_tracks (k + 1 + length xs) H2 (foldl (pipeline_step ignore sb) (pipeline_step ignore sb pl x) xs)"
      "\<And>p s. Paths.normalize p = p \<Longrightarrow> s \<le> cs_current_clock (pl_cache (pipeline_step ignore sb pl x)) \<Longrightarrow>
         noticed p s H1 (pipeline_step ignore sb pl x) \<Longrightarrow>
         noticed p s H2 (foldl (pipeline_step ignore sb) (pipeline_step ignore sb pl x) xs)" by auto
  have "noticed p s H2 (foldl (pipeline_step ignore sb) pl (x # xs))"
    if "Paths.normalize p = p" "s \<le> cs_current_clock (pl_cache pl)" "noticed p s H pl" for p s
    using H2(2) [OF that(1) _ H1(3) [OF that]] H1(2) that(2) by simp
  with H2(1) show ?case by (intro exI [of _ H2]) auto
qed auto

lemma pipeline_start_tracks: "pipeline_tracks 0 {} pipeline_start"
  by (simp add: pipeline_tracks_def pipeline_start_def cache_system_new_def journal_new_def journal_tracks_init
      cs_current_clock_def current_clock_def journal_with_capacity_def)
     (metis journal_tracks_init journal_with_capacity_def)

lemma drained_reports:
  assumes "pipeline_tracks k H pl" and "noticed p s H pl" and "drained pl"
  shows "changed_since (cs_journal (pl_cache pl)) p s"
proof -
  from assms(2,3) obtain t where t: "s < t" "(t, Changed p) \<in> H \<or> (t, Lost) \<in> H"
    by (auto simp: noticed_def in_flight_def drained_def)
  from assms(1) have "journal_tracks 10000 H (cs_journal (pl_cache pl))" by (simp add: pipeline_tracks_def)
  note D = journal_tracksD [OF this]
  from t D(3) [of t p] D(4) [of t] show ?thesis
    by (fastforce simp: changed_since_def split: option.splits)
qed

lemma notified_tracks:
  assumes "pipeline_tracks k H pl" and "concerns ignore p n"
  shows "pipeline_tracks k H (pipeline_step ignore sb pl (HostNotifies n))"
    and "noticed p s H (pipeline_step ignore sb pl (HostNotifies n))"
  using assms concerns_touches [OF assms(2)]
  by (auto simp: pipeline_tracks_def noticed_def in_flight_def)

text \<open>
  C15. No change is lost between the host and the cache.  A notification that concerns a path (a
  change, creation, removal or rename of a file that is not in an ignored directory, a rescan
  request, or a failure of the watch) passes through the conversion, the settle buffer and the
  consumer, in any interleaving with other notifications, timeouts and cache operations.  Once the
  queues are empty, the cache reports the path as changed since every clock value a client may have
  read before the notification.
\<close>

theorem notification_reaches_cache:
  assumes "concerns ignore p n" and "Paths.normalize p = p" and "length xs + length ys + 1 < u64_mod"
    and "s \<le> cs_current_clock (pl_cache (foldl (pipeline_step ignore sb) pipeline_start xs))"
    and "drained (foldl (pipeline_step ignore sb) pipeline_start (xs @ HostNotifies n # ys))"
  shows "changed_since (cs_journal (pl_cache (foldl (pipeline_step ignore sb) pipeline_start (xs @ HostNotifies n # ys)))) p s"
proof -
  let ?pl = "foldl (pipeline_step ignore sb) pipeline_start xs"
  from pipeline_run_tracks [OF pipeline_start_tracks, of xs ignore sb] assms(3) obtain H1 where
    H1: "pipeline_tracks (length xs) H1 ?pl" by auto
  note n = notified_tracks [OF H1 assms(1), where sb = sb]
  from pipeline_run_tracks [OF n(1), of ys ignore sb] n(2) assms(2-4) obtain H2 where
    "pipeline_tracks (length xs + length ys) H2 (foldl (pipeline_step ignore sb) pipeline_start (xs @ HostNotifies n # ys))"
    "noticed p s H2 (foldl (pipeline_step ignore sb) pipeline_start (xs @ HostNotifies n # ys))" by auto
  from drained_reports [OF this assms(5)] show ?thesis .
qed


theorem notification_reaches_cache_witness:
  "changed_since (cs_journal (pl_cache (foldl (pipeline_step \<lparr>if_patterns = default_patterns\<rparr> default_window) pipeline_start
     ([CacheOp (RegisterTracked [''/p/a.h''])] @
      HostNotifies (ChangeEvent (NkNameModified RenameBoth) [''/p/build/a.h'', ''/p/./a.h'']) #
      [SettleReceives 7, HostNotifies (ChangeEvent NkAccessed [''/p/b.h'']), SettleTimesOut, ConsumerTakes])))) ''/p/a.h'' 0"
proof (rule notification_reaches_cache)
  show "concerns \<lparr>if_patterns = default_patterns\<rparr> ''/p/a.h''
      (ChangeEvent (NkNameModified RenameBoth) [''/p/build/a.h'', ''/p/./a.h''])" by code_simp
  show "Paths.normalize ''/p/a.h'' = ''/p/a.h''" by code_simp
  have e: "convert_event \<lparr>if_patterns = default_patterns\<rparr> (NkNameModified RenameBoth) [''/p/build/a.h'', ''/p/./a.h''] =
      [WeCreated ''/p/a.h'']" "convert_event \<lparr>if_patterns = default_patterns\<rparr> NkAccessed [''/p/b.h''] = []" by code_simp+
  then show "drained (foldl (pipeline_step \<lparr>if_patterns = default_patterns\<rparr> default_window) pipeline_start
     ([CacheOp (RegisterTracked [''/p/a.h''])] @
      HostNotifies (ChangeEvent (NkNameModified RenameBoth) [''/p/build/a.h'', ''/p/./a.h'']) #
      [SettleReceives 7, HostNotifies (ChangeEvent NkAccessed [''/p/b.h'']), SettleTimesOut, ConsumerTakes]))"
    by (simp add: drained_def pipeline_start_def settle_input_step_def settle_arm_def wait_time_def default_window_def
        settle_new_def flush_pending_def drain_def dm_insert_def)
qed (simp_all add: u64_mod_def)

end
