(* ===== verification/LinkParse.thy ===== *)
theory LinkParse
  imports ContextKeys
begin

text \<open>
  Recognising and parsing link commands (\<^verbatim>\<open>crates/zccache-compiler/src/parse_linker\<close>):
  detection of linkers and compiler drivers by name, and the parsers for GNU \<^verbatim>\<open>ld\<close>, compiler
  drivers, MSVC \<^verbatim>\<open>link.exe\<close> and \<^verbatim>\<open>dsymutil\<close>.  A parser walks over the arguments and
  says which of them are inputs, which enter the cache key as flags, and what is produced.

  A refusal is \<open>Inl\<close> with its reason.  The upper-casing of \<^verbatim>\<open>link.exe\<close> flags is the parameter
  \<open>upper\<close>.
\<close>

subsection \<open>Results\<close>

datatype linker_family = Ld | Lld | MsvcLink | CompilerDriver | Dsymutil

datatype link_output_kind = File | DirectoryBundle

record cacheable_link =
  cl_tool :: npath
  cl_family :: linker_family
  cl_input_files :: "npath list"
  cl_output_file :: npath
  cl_output_kind :: link_output_kind
  cl_secondary_outputs :: "npath list"
  cl_cache_relevant_flags :: "string list"
  cl_original_args :: "string list"
  cl_non_deterministic :: bool

type_synonym parsed_link = "string + cacheable_link"

subsection \<open>Detection\<close>

fun cross_platform_file_name_from :: "string \<Rightarrow> string \<Rightarrow> string" where
  "cross_platform_file_name_from cur [] = cur"
| "cross_platform_file_name_from cur (c # s) =
     (if c = CHR ''/'' \<or> c = CHR 0x5C then cross_platform_file_name_from [] s
      else cross_platform_file_name_from (cur @ [c]) s)"

definition cross_platform_file_name :: "string \<Rightarrow> string" where
  "cross_platform_file_name tool = cross_platform_file_name_from [] tool"

text \<open>The name up to its last dot, unless that dot comes first.\<close>

definition tool_file_stem :: "string \<Rightarrow> string" where
  "tool_file_stem filename =
     (if CHR ''.'' \<in> set (tl filename)
      then rev (tl (dropWhile (\<lambda>c. c \<noteq> CHR ''.'') (rev filename))) else filename)"

definition detect_family :: "string \<Rightarrow> linker_family option" where
  "detect_family tool =
     (let full_name = cross_platform_file_name tool; stem = tool_file_stem full_name
      in if stem = ''dsymutil'' \<or> prefix ''dsymutil-'' stem then Some Dsymutil
         else if eq_ignore_ascii_case stem ''link'' then Some MsvcLink
         else if full_name = ''ld.lld'' \<or> prefix ''ld.lld-'' full_name \<or> stem = ''lld'' \<or> prefix ''lld-'' stem \<or>
                 stem = ''wasm-ld'' then Some Lld
         else if full_name = ''ld.bfd'' \<or> full_name = ''ld.gold'' \<or> stem = ''ld'' \<or> suffix ''-ld'' stem then Some Ld
         else None)"

definition is_compiler_driver :: "string \<Rightarrow> bool" where
  "is_compiler_driver tool =
     (let stem = tool_file_stem (cross_platform_file_name tool)
      in stem \<in> set [''cc'', ''c++'', ''emcc'', ''em++''] \<or> stem = ''gcc'' \<or> stem = ''g++'' \<or> suffix ''-gcc'' stem \<or>
         suffix ''-g++'' stem \<or> sublist ''clang'' stem)"

definition is_linker :: "string \<Rightarrow> bool" where
  "is_linker tool \<longleftrightarrow> detect_family tool \<noteq> None"

definition header_language :: "string \<Rightarrow> bool" where
  "header_language lang \<longleftrightarrow> lang \<in> set [''c-header'', ''c++-header'', ''c-header-unit'', ''c++-header-unit'']"

fun header_mode :: "string list \<Rightarrow> bool" where
  "header_mode (a # b # args) \<longleftrightarrow> (a = ''-x'' \<and> header_language b) \<or> header_mode (b # args)"
| "header_mode _ \<longleftrightarrow> False"

text \<open>\<open>expand\<close> is the expansion of response files; a failure leaves the arguments as they are.\<close>

definition is_link_invocation :: "(string list \<Rightarrow> string list option) \<Rightarrow> string \<Rightarrow> string list \<Rightarrow> bool" where
  "is_link_invocation expand tool args =
     (if detect_family tool \<noteq> None then True
      else if \<not> is_compiler_driver tool then False
      else
        (let effective_args =
           (if list_ex (\<lambda>a. prefix ''@'' a \<and> 1 < length a) args
            then (let expanded = (case expand args of Some e \<Rightarrow> e | None \<Rightarrow> []) in if expanded = [] then args else expanded)
            else args)
         in \<not> list_ex (\<lambda>a. a = ''-c'' \<or> a = ''-E'' \<or> a = ''-S'' \<or> a = ''--precompile'') effective_args \<and>
            \<not> header_mode effective_args))"

subsection \<open>GNU ld and lld\<close>

record gnu_ld_state =
  gl_output_file :: "npath option"
  gl_input_files :: "npath list"
  gl_flags :: "string list"
  gl_has_build_id_uuid :: bool
  gl_secondary_outputs :: "npath list"

definition gnu_ld_start :: gnu_ld_state where
  "gnu_ld_start =
     \<lparr> gl_output_file = None, gl_input_files = [], gl_flags = [], gl_has_build_id_uuid = False, gl_secondary_outputs = [] \<rparr>"

definition gl_flag :: "string \<Rightarrow> gnu_ld_state \<Rightarrow> gnu_ld_state" where
  "gl_flag arg st = st\<lparr>gl_flags := gl_flags st @ [arg]\<rparr>"

definition gl_input :: "string \<Rightarrow> gnu_ld_state \<Rightarrow> gnu_ld_state" where
  "gl_input arg st = st\<lparr>gl_input_files := gl_input_files st @ [Paths.normalize arg]\<rparr>"

definition gl_secondary :: "string \<Rightarrow> gnu_ld_state \<Rightarrow> gnu_ld_state" where
  "gl_secondary path st = st\<lparr>gl_secondary_outputs := gl_secondary_outputs st @ [Paths.normalize path]\<rparr>"

text \<open>A diagnostic file; \<^verbatim>\<open>-\<close> is standard output.\<close>

definition gl_diagnostic :: "string \<Rightarrow> gnu_ld_state \<Rightarrow> gnu_ld_state" where
  "gl_diagnostic path st = (if path \<noteq> ''-'' then gl_secondary path st else st)"

text \<open>A flag whose value is the next argument, if there is one.\<close>

definition gl_with_value ::
    "(string \<Rightarrow> gnu_ld_state \<Rightarrow> gnu_ld_state) \<Rightarrow> string \<Rightarrow> string list \<Rightarrow> gnu_ld_state \<Rightarrow> gnu_ld_state \<times> string list" where
  "gl_with_value use arg rest st =
     (case rest of
        [] \<Rightarrow> (gl_flag arg st, [])
      | v # rest' \<Rightarrow> (gl_flag v (use v (gl_flag arg st)), rest'))"

definition gnu_ld_arg :: "string \<Rightarrow> string list \<Rightarrow> gnu_ld_state \<Rightarrow> gnu_ld_state \<times> string list" where
  "gnu_ld_arg arg rest st =
     (if prefix ''--out-implib='' arg then (gl_flag arg (gl_secondary (drop 13 arg) st), rest)
      else if arg = ''--out-implib'' then gl_with_value gl_secondary arg rest st
      else if prefix ''-Map='' arg then (gl_flag arg (gl_diagnostic (drop 5 arg) st), rest)
      else if arg = ''-Map'' then gl_with_value gl_diagnostic arg rest st
      else if prefix ''--dependency-file='' arg then (gl_flag arg (gl_diagnostic (drop 18 arg) st), rest)
      else if arg = ''--dependency-file'' then gl_with_value gl_diagnostic arg rest st
      else if arg = ''-map'' \<or> arg = ''-dependency_info'' then gl_with_value gl_secondary arg rest st
      else if arg = ''-shared'' \<or> arg = ''--shared'' then (gl_flag arg st, rest)
      else if arg = ''-dylib'' then (gl_flag arg st, rest)
      else if arg = ''-o'' then
        (case rest of
           [] \<Rightarrow> (st, [])
         | v # rest' \<Rightarrow> (st\<lparr>gl_output_file := Some (Paths.normalize v)\<rparr>, rest'))
      else if prefix ''--output='' arg then (st\<lparr>gl_output_file := Some (Paths.normalize (drop 9 arg))\<rparr>, rest)
      else if arg = ''--build-id=uuid'' then (gl_flag arg (st\<lparr>gl_has_build_id_uuid := True\<rparr>), rest)
      else if prefix ''--build-id'' arg then (gl_flag arg st, rest)
      else if arg = ''-soname'' \<or> arg = ''-h'' then gl_with_value (\<lambda>_ s. s) arg rest st
      else if prefix ''--soname='' arg then (gl_flag (''--soname='' @ drop 9 arg) st, rest)
      else if arg = ''-install_name'' then gl_with_value (\<lambda>_ s. s) arg rest st
      else if arg = ''-L'' then gl_with_value (\<lambda>_ s. s) arg rest st
      else if prefix ''-L'' arg then (gl_flag arg st, rest)
      else if prefix ''-l'' arg then (gl_flag arg st, rest)
      else if prefix ''-Wl,'' arg then (gl_flag arg st, rest)
      else if arg = ''-T'' \<or> arg = ''--script'' \<or> arg = ''-z'' \<or> arg = ''--version-script'' then
        gl_with_value (\<lambda>v s. if arg = ''-T'' \<or> arg = ''--script'' \<or> arg = ''--version-script'' then gl_input v s else s)
          arg rest st
      else if prefix ''--version-script='' arg then (gl_input (drop 17 arg) (gl_flag arg st), rest)
      else if prefix ''-'' arg then (gl_flag arg st, rest)
      else (gl_input arg st, rest))"

lemma gl_with_value_le: "length (snd (gl_with_value use arg rest st)) \<le> length rest"
  by (simp add: gl_with_value_def split: list.split)

lemma gnu_ld_arg_le: "length (snd (gnu_ld_arg arg rest st)) \<le> length rest"
  unfolding gnu_ld_arg_def by (simp add: gl_with_value_le split: list.split)

function gnu_ld_loop :: "string list \<Rightarrow> gnu_ld_state \<Rightarrow> gnu_ld_state" where
  "gnu_ld_loop [] st = st"
| "gnu_ld_loop (arg # rest) st = (let (st', rest') = gnu_ld_arg arg rest st in gnu_ld_loop rest' st')"
  by pat_completeness auto
termination
proof (relation "measure (\<lambda>(args, st). length args)")
  fix arg rest st x st' rest'
  show "(st', rest') = x \<Longrightarrow> x = gnu_ld_arg arg rest st \<Longrightarrow>
      ((rest', st'), arg # rest, st) \<in> measure (\<lambda>(args, st). length args)"
    using gnu_ld_arg_le [of arg rest st] by (metis case_prod_conv in_measure length_Cons less_Suc_eq_le snd_conv)
qed auto

text \<open>\<^verbatim>\<open>retain\<close> with a set of the paths seen so far: the first occurrences.\<close>

fun first_occurrences :: "'a set \<Rightarrow> 'a list \<Rightarrow> 'a list" where
  "first_occurrences seen [] = []"
| "first_occurrences seen (x # xs) =
     (if x \<in> seen then first_occurrences seen xs else x # first_occurrences (insert x seen) xs)"

definition parse_gnu_ld :: "string \<Rightarrow> linker_family \<Rightarrow> string list \<Rightarrow> parsed_link" where
  "parse_gnu_ld tool family args =
     (if args = [] then Inl ''no arguments''
      else
        (let st = gnu_ld_loop args gnu_ld_start
         in case gl_output_file st of
              None \<Rightarrow> Inl ''no output file specified (-o)''
            | Some output_file \<Rightarrow>
                if gl_input_files st = [] then Inl ''no input files specified''
                else Inr \<lparr> cl_tool = Paths.normalize tool, cl_family = family, cl_input_files = gl_input_files st,
                  cl_output_file = output_file, cl_output_kind = File,
                  cl_secondary_outputs = first_occurrences {} (gl_secondary_outputs st),
                  cl_cache_relevant_flags = gl_flags st, cl_original_args = args,
                  cl_non_deterministic = gl_has_build_id_uuid st \<rparr>))"


subsection \<open>Compiler drivers\<close>

definition OBJECT_EXTENSIONS :: "string list" where
  "OBJECT_EXTENSIONS = [''o'', ''obj'', ''a'', ''lib'', ''lo'', ''so'', ''dylib'', ''dll'']"

definition path_extension :: "string \<Rightarrow> string option" where
  "path_extension p =
     (case file_name p of
        None \<Rightarrow> None
      | Some n \<Rightarrow> if CHR ''.'' \<in> set (tl n) then Some (rev (takeWhile (\<lambda>c. c \<noteq> CHR ''.'') (rev n))) else None)"

definition is_linker_input :: "string \<Rightarrow> bool" where
  "is_linker_input path = (case path_extension path of Some ext \<Rightarrow> ext \<in> set OBJECT_EXTENSIONS | None \<Rightarrow> False)"

text \<open>One part of a \<^verbatim>\<open>-Wl,\<close> argument, with the part after it.\<close>

definition wl_part :: "string \<Rightarrow> string option \<Rightarrow> gnu_ld_state \<Rightarrow> gnu_ld_state" where
  "wl_part part following st =
     (let st = (if part = ''--build-id=uuid'' then st\<lparr>gl_has_build_id_uuid := True\<rparr> else st);
          st = (if prefix ''--out-implib='' part then gl_secondary (drop 13 part) st else st);
          st = (if prefix ''-Map='' part then gl_diagnostic (drop 5 part) st else st);
          st = (if part = ''-Map'' \<or> part = ''--dependency-file''
                then (case following of Some v \<Rightarrow> gl_diagnostic v st | None \<Rightarrow> st) else st);
          st = (if prefix ''--dependency-file='' part then gl_diagnostic (drop 18 part) st else st);
          st = (if part = ''-map'' \<or> part = ''-dependency_info''
                then (case following of Some v \<Rightarrow> if v \<noteq> [] then gl_secondary v st else st | None \<Rightarrow> st) else st)
      in st)"

fun wl_parts :: "string list \<Rightarrow> gnu_ld_state \<Rightarrow> gnu_ld_state" where
  "wl_parts [] st = st"
| "wl_parts (part # parts) st = wl_parts parts (wl_part part (case parts of v # _ \<Rightarrow> Some v | [] \<Rightarrow> None) st)"

definition driver_arg :: "string \<Rightarrow> string list \<Rightarrow> bool \<times> gnu_ld_state \<Rightarrow> (bool \<times> gnu_ld_state) \<times> string list" where
  "driver_arg arg rest cst =
     (case cst of
        (compile_only, st) \<Rightarrow>
          if arg = ''-shared'' \<or> arg = ''--shared'' then ((compile_only, gl_flag arg st), rest)
          else if arg = ''-c'' then ((True, st), rest)
          else if arg = ''-o'' then
            (case rest of
               [] \<Rightarrow> ((compile_only, st), [])
             | v # rest' \<Rightarrow> ((compile_only, st\<lparr>gl_output_file := Some (Paths.normalize v)\<rparr>), rest'))
          else if prefix ''-Wl,'' arg then ((compile_only, gl_flag arg (wl_parts (split_on CHR '','' arg) st)), rest)
          else if arg = ''-L'' then apfst (Pair compile_only) (gl_with_value (\<lambda>_ s. s) arg rest st)
          else if prefix ''-L'' arg then ((compile_only, gl_flag arg st), rest)
          else if prefix ''-l'' arg then ((compile_only, gl_flag arg st), rest)
          else if arg = ''-target'' \<or> arg = ''--target'' \<or> arg = ''-isysroot'' then
            apfst (Pair compile_only) (gl_with_value (\<lambda>_ s. s) arg rest st)
          else if prefix ''-'' arg then ((compile_only, gl_flag arg st), rest)
          else if is_linker_input arg then ((compile_only, gl_input arg st), rest)
          else ((compile_only, st), rest))"

lemma driver_arg_le: "length (snd (driver_arg arg rest cst)) \<le> length rest"
  unfolding driver_arg_def by (simp add: gl_with_value_le split: list.split prod.split)

function driver_loop :: "string list \<Rightarrow> bool \<times> gnu_ld_state \<Rightarrow> bool \<times> gnu_ld_state" where
  "driver_loop [] cst = cst"
| "driver_loop (arg # rest) cst = (let (cst', rest') = driver_arg arg rest cst in driver_loop rest' cst')"
  by pat_completeness auto
termination
proof (relation "measure (\<lambda>(args, cst). length args)")
  fix arg rest cst x cst' rest'
  show "(cst', rest') = x \<Longrightarrow> x = driver_arg arg rest cst \<Longrightarrow>
      ((rest', cst'), arg # rest, cst) \<in> measure (\<lambda>(args, cst). length args)"
    using driver_arg_le [of arg rest cst] by (metis case_prod_conv in_measure length_Cons less_Suc_eq_le snd_conv)
qed auto

definition parse_compiler_driver_link :: "string \<Rightarrow> string list \<Rightarrow> parsed_link" where
  "parse_compiler_driver_link tool args =
     (if args = [] then Inl ''no arguments''
      else
        (case driver_loop args (False, gnu_ld_start) of
           (has_compile_only, st) \<Rightarrow>
             if has_compile_only then Inl ''-c flag present (compilation, not linking)''
             else
               (case gl_output_file st of
                  None \<Rightarrow> Inl ''no output file specified (-o)''
                | Some output_file \<Rightarrow>
                    if gl_input_files st = [] then Inl ''no input files specified''
                    else Inr \<lparr> cl_tool = Paths.normalize tool, cl_family = CompilerDriver,
                      cl_input_files = gl_input_files st, cl_output_file = output_file, cl_output_kind = File,
                      cl_secondary_outputs = first_occurrences {} (gl_secondary_outputs st),
                      cl_cache_relevant_flags = gl_flags st, cl_original_args = args,
                      cl_non_deterministic = gl_has_build_id_uuid st \<rparr>)))"

subsection \<open>dsymutil\<close>

definition dsymutil_refused :: "string \<Rightarrow> bool" where
  "dsymutil_refused arg \<longleftrightarrow>
     arg \<in> set [''--codesign'', ''--flat'', ''-f'', ''--no-output'', ''--dump-debug-map'', ''--symtab'', ''-s'', ''-S'',
       ''--update'', ''-u'', ''--gen-reproducer''] \<or>
     prefix ''--codesign='' arg \<or> prefix ''--reproducer'' arg \<or> prefix ''--use-reproducer'' arg \<or>
     prefix ''--embed-resource'' arg"

definition option_takes_value :: "string \<Rightarrow> bool" where
  "option_takes_value opt \<longleftrightarrow>
     opt \<in> set [''--accelerator'', ''--allow'', ''--arch'', ''-arch'', ''--build-variant-suffix'', ''-D'', ''--disallow'', ''-j'',
       ''--num-threads'', ''--object-prefix-map'', ''--oso-prepend-path'', ''--remarks-output-format'',
       ''--remarks-prepend-path'', ''--toolchain'']"

fun dsymutil_loop :: "string list \<Rightarrow> gnu_ld_state \<Rightarrow> string + gnu_ld_state" where
  "dsymutil_loop [] st = Inr st"
| "dsymutil_loop (arg # rest) st =
     (if arg = ''-o'' \<or> arg = ''--out'' then
        (case rest of
           [] \<Rightarrow> Inl ''dsymutil output option is missing its path''
         | path # rest' \<Rightarrow> dsymutil_loop rest' (st\<lparr>gl_output_file := Some (Paths.normalize path)\<rparr>))
      else if prefix ''--out='' arg then dsymutil_loop rest (st\<lparr>gl_output_file := Some (Paths.normalize (drop 6 arg))\<rparr>)
      else if option_takes_value arg then
        (case rest of
           [] \<Rightarrow> Inl (''dsymutil option '' @ arg @ '' is missing its value'')
         | v # rest' \<Rightarrow> dsymutil_loop rest' (gl_flag v (gl_flag arg st)))
      else if prefix ''-'' arg then dsymutil_loop rest (gl_flag arg st)
      else dsymutil_loop rest (gl_input arg st))"

definition parse_dsymutil :: "string \<Rightarrow> string list \<Rightarrow> parsed_link" where
  "parse_dsymutil tool args =
     (if list_ex dsymutil_refused args then Inl ''dsymutil mode requires signed, mutable, flat, or opaque outputs''
      else
        (case dsymutil_loop args gnu_ld_start of
           Inl reason \<Rightarrow> Inl reason
         | Inr st \<Rightarrow>
             (case gl_input_files st of
                [input] \<Rightarrow>
                  Inr \<lparr> cl_tool = Paths.normalize tool, cl_family = Dsymutil, cl_input_files = gl_input_files st,
                    cl_output_file = (case gl_output_file st of
                      Some p \<Rightarrow> p | None \<Rightarrow> Paths.normalize (input @ ''.dSYM'')),
                    cl_output_kind = DirectoryBundle, cl_secondary_outputs = [],
                    cl_cache_relevant_flags = gl_flags st, cl_original_args = args, cl_non_deterministic = False \<rparr>
              | _ \<Rightarrow> Inl ''dsymutil caching requires exactly one input image'')))"


subsection \<open>MSVC link.exe\<close>

record msvc_state =
  ms_is_dll :: bool
  ms_output_file :: "npath option"
  ms_input_files :: "npath list"
  ms_flags :: "string list"
  ms_has_deterministic :: bool
  ms_secondary_outputs :: "npath list"
  ms_has_debug :: bool
  ms_incremental :: "bool option"
  ms_implicit_map :: bool
  ms_explicit_pdb :: bool
  ms_explicit_ilk :: bool
  ms_debug_outputs :: "npath list"
  ms_incremental_outputs :: "npath list"
  ms_ltcg_incremental :: bool
  ms_ltcg_output :: "npath option"
  ms_profile_generation :: bool
  ms_profile_use :: bool
  ms_profile_output :: "npath option"
  ms_winmd :: bool
  ms_winmd_output :: "npath option"

definition msvc_start :: msvc_state where
  "msvc_start =
     \<lparr> ms_is_dll = False, ms_output_file = None, ms_input_files = [], ms_flags = [], ms_has_deterministic = False,
       ms_secondary_outputs = [], ms_has_debug = False, ms_incremental = None, ms_implicit_map = False,
       ms_explicit_pdb = False, ms_explicit_ilk = False, ms_debug_outputs = [], ms_incremental_outputs = [],
       ms_ltcg_incremental = False, ms_ltcg_output = None, ms_profile_generation = False, ms_profile_use = False,
       ms_profile_output = None, ms_winmd = False, ms_winmd_output = None \<rparr>"

definition ms_flag :: "string \<Rightarrow> msvc_state \<Rightarrow> msvc_state" where
  "ms_flag arg st = st\<lparr>ms_flags := ms_flags st @ [arg]\<rparr>"

text \<open>A flag with either of its leading characters, whole or followed by a value.\<close>

definition is_switch :: "string \<Rightarrow> string \<Rightarrow> bool" where
  "is_switch name up \<longleftrightarrow> up = ''/'' @ name \<or> up = ''-'' @ name"

definition has_switch :: "string \<Rightarrow> string \<Rightarrow> bool" where
  "has_switch name up \<longleftrightarrow> prefix (''/'' @ name) up \<or> prefix (''-'' @ name) up"

fun find_substring :: "string \<Rightarrow> string \<Rightarrow> nat option" where
  "find_substring pat [] = (if pat = [] then Some 0 else None)"
| "find_substring pat (c # s) = (if prefix pat (c # s) then Some 0 else map_option Suc (find_substring pat s))"

definition EXPLICIT_OUTPUTS :: "string list" where
  "EXPLICIT_OUTPUTS = [''PDB:'', ''PDBSTRIPPED:'', ''ILK:'', ''MAP:'']"

definition explicit_output :: "string \<Rightarrow> string \<Rightarrow> msvc_state \<Rightarrow> msvc_state" where
  "explicit_output name path st =
     (let output = Paths.normalize path;
          st = (if path = [] then st
                else if name = ''PDB:'' \<or> name = ''PDBSTRIPPED:'' then st\<lparr>ms_debug_outputs := ms_debug_outputs st @ [output]\<rparr>
                else if name = ''ILK:'' then st\<lparr>ms_incremental_outputs := ms_incremental_outputs st @ [output]\<rparr>
                else st\<lparr>ms_secondary_outputs := ms_secondary_outputs st @ [output]\<rparr>)
      in st\<lparr>ms_explicit_pdb := ms_explicit_pdb st \<or> name = ''PDB:'', ms_explicit_ilk := ms_explicit_ilk st \<or> name = ''ILK:''\<rparr>)"

definition msvc_arg :: "(string \<Rightarrow> string) \<Rightarrow> msvc_state \<Rightarrow> string \<Rightarrow> msvc_state" where
  "msvc_arg upper st arg =
     (let up = upper arg
      in if is_switch ''DLL'' up then ms_flag arg (st\<lparr>ms_is_dll := True\<rparr>)
         else if has_switch ''OUT:'' up then st\<lparr>ms_output_file := Some (Paths.normalize (drop 5 arg))\<rparr>
         else if is_switch ''DETERMINISTIC'' up then ms_flag arg (st\<lparr>ms_has_deterministic := True\<rparr>)
         else if has_switch ''IMPLIB:'' up then
           (let implib_path = Paths.normalize (drop 8 arg);
                exp_path = Paths.normalize (with_extension implib_path ''exp'')
            in ms_flag arg (st\<lparr>ms_secondary_outputs := ms_secondary_outputs st @ [implib_path, exp_path]\<rparr>))
         else if is_switch ''DEBUG:NONE'' up then ms_flag arg (st\<lparr>ms_has_debug := False\<rparr>)
         else if is_switch ''DEBUG'' up \<or> has_switch ''DEBUG:'' up then ms_flag arg (st\<lparr>ms_has_debug := True\<rparr>)
         else if is_switch ''INCREMENTAL'' up then ms_flag arg (st\<lparr>ms_incremental := Some True\<rparr>)
         else if is_switch ''INCREMENTAL:NO'' up then ms_flag arg (st\<lparr>ms_incremental := Some False\<rparr>)
         else if is_switch ''LTCG:INCREMENTAL'' up then ms_flag arg (st\<lparr>ms_ltcg_incremental := True\<rparr>)
         else if has_switch ''LTCGOUT:'' up then ms_flag arg (st\<lparr>ms_ltcg_output := Some (Paths.normalize (drop 9 arg))\<rparr>)
         else if is_switch ''GENPROFILE'' up \<or> is_switch ''FASTGENPROFILE'' up then
           ms_flag arg (st\<lparr>ms_profile_generation := True\<rparr>)
         else if is_switch ''USEPROFILE'' up \<or> has_switch ''USEPROFILE:'' up then
           ms_flag arg
             (let st = st\<lparr>ms_profile_use := True\<rparr>
              in case find_substring ''PGD='' up of
                   Some pgd_offset \<Rightarrow> st\<lparr>ms_profile_output := Some (Paths.normalize (drop (pgd_offset + 4) arg))\<rparr>
                 | None \<Rightarrow> st)
         else if has_switch ''PGD:'' up then ms_flag arg (st\<lparr>ms_profile_output := Some (Paths.normalize (drop 5 arg))\<rparr>)
         else if is_switch ''WINMD'' up then ms_flag arg (st\<lparr>ms_winmd := True\<rparr>)
         else if has_switch ''WINMDFILE:'' up then ms_flag arg (st\<lparr>ms_winmd_output := Some (Paths.normalize (drop 11 arg))\<rparr>)
         else if is_switch ''MAP'' up then ms_flag arg (st\<lparr>ms_implicit_map := True\<rparr>)
         else (case List.find (\<lambda>name. has_switch name up) EXPLICIT_OUTPUTS of
                 Some name \<Rightarrow> ms_flag arg (explicit_output name (drop (Suc (length name)) arg) st)
               | None \<Rightarrow>
                   if prefix ''/'' arg \<or> prefix ''-'' arg then ms_flag arg st
                   else st\<lparr>ms_input_files := ms_input_files st @ [Paths.normalize arg]\<rparr>))"

text \<open>The products that follow the name of the image.\<close>

definition msvc_products :: "npath \<Rightarrow> msvc_state \<Rightarrow> npath list" where
  "msvc_products output_file st =
     (let incremental_enabled = (ms_incremental st = Some True \<or> (ms_has_debug st \<and> ms_incremental st \<noteq> Some False));
          named = (\<lambda>ext. Paths.normalize (with_extension output_file ext))
      in ms_secondary_outputs st @
         (if ms_has_debug st then ms_debug_outputs st else []) @
         (if incremental_enabled then ms_incremental_outputs st else []) @
         (if ms_has_debug st \<and> \<not> ms_explicit_pdb st then [named ''pdb''] else []) @
         (if incremental_enabled \<and> \<not> ms_explicit_ilk st then [named ''ilk''] else []) @
         (if ms_implicit_map st then [named ''map''] else []) @
         (if ms_ltcg_incremental st
          then [case ms_ltcg_output st of Some p \<Rightarrow> p | None \<Rightarrow> named ''iobj''] else []) @
         (if ms_profile_generation st
          then [case ms_profile_output st of Some p \<Rightarrow> p | None \<Rightarrow> named ''pgd''] else []) @
         (if ms_winmd st
          then [let output = (case ms_winmd_output st of Some p \<Rightarrow> p | None \<Rightarrow> named ''winmd'')
                in if path_extension output \<noteq> None then output else Paths.normalize (with_extension output ''winmd'')]
          else []))"

definition parse_msvc_link :: "(string \<Rightarrow> string) \<Rightarrow> string \<Rightarrow> string list \<Rightarrow> parsed_link" where
  "parse_msvc_link upper tool args =
     (if args = [] then Inl ''no arguments''
      else
        (let st = foldl (msvc_arg upper) msvc_start args
         in case ms_input_files st of
              [] \<Rightarrow> Inl ''no input files specified''
            | first # _ \<Rightarrow>
                (let output_file =
                   (case ms_output_file st of
                      Some p \<Rightarrow> p
                    | None \<Rightarrow> Paths.normalize (with_extension first (if ms_is_dll st then ''dll'' else ''exe'')));
                     result = (\<lambda>inputs. Inr \<lparr> cl_tool = Paths.normalize tool, cl_family = MsvcLink, cl_input_files = inputs,
                       cl_output_file = output_file, cl_output_kind = File,
                       cl_secondary_outputs = first_occurrences {} (msvc_products output_file st),
                       cl_cache_relevant_flags = ms_flags st, cl_original_args = args,
                       cl_non_deterministic = (\<not> ms_has_deterministic st) \<rparr>)
                 in if ms_profile_generation st \<and> ms_profile_use st
                    then Inl ''MSVC profile generation and profile use cannot share one staged plan''
                    else if ms_profile_use st then
                      (case ms_profile_output st of
                         None \<Rightarrow> Inl ''MSVC /USEPROFILE requires an explicit PGD path for caching''
                       | Some profile_input \<Rightarrow>
                           result (ms_input_files st @
                             [if path_extension profile_input \<noteq> None then profile_input
                              else Paths.normalize (with_extension profile_input ''pgd'')]))
                    else result (ms_input_files st))))"

subsection \<open>Dispatch\<close>

definition parse_linker_invocation :: "(string \<Rightarrow> string) \<Rightarrow> string \<Rightarrow> string list \<Rightarrow> parsed_link" where
  "parse_linker_invocation upper tool args =
     (case detect_family tool of
        Some MsvcLink \<Rightarrow> parse_msvc_link upper tool args
      | Some Ld \<Rightarrow> parse_gnu_ld tool Ld args
      | Some Lld \<Rightarrow> parse_gnu_ld tool Lld args
      | Some CompilerDriver \<Rightarrow> parse_compiler_driver_link tool args
      | Some Dsymutil \<Rightarrow> parse_dsymutil tool args
      | None \<Rightarrow>
          if is_compiler_driver tool then parse_compiler_driver_link tool args
          else Inl (''not a recognized linker: '' @ tool))"

end
