(* ===== verification/LinkKeys.thy ===== *)
theory LinkKeys
  imports ContextKeys
begin

text \<open>
  The builders of compile and link keys (\<^verbatim>\<open>crates/zccache-hash/src/cache_key.rs\<close> and
  \<^verbatim>\<open>link_cache_key.rs\<close>) and the key the daemon builds for a link
  (\<^verbatim>\<open>daemon/server/handle_link.rs\<close>).  The digest is a parameter; a missing part makes the code
  panic, here \<open>None\<close>.
\<close>

subsection \<open>Compile keys\<close>

record cache_key_builder =
  ck_compiler_id :: "content_hash option"
  ck_arguments :: "string list"
  ck_env_vars :: "(string \<times> string) list"
  ck_source_hash :: "content_hash option"
  ck_dependency_hashes :: "(string \<times> content_hash) list"

definition cache_key_builder_new :: cache_key_builder where
  "cache_key_builder_new =
     \<lparr> ck_compiler_id = None, ck_arguments = [], ck_env_vars = [], ck_source_hash = None, ck_dependency_hashes = [] \<rparr>"

definition ck_compiler :: "content_hash \<Rightarrow> cache_key_builder \<Rightarrow> cache_key_builder" where
  "ck_compiler hash b = b\<lparr>ck_compiler_id := Some hash\<rparr>"

definition ck_arg :: "string \<Rightarrow> cache_key_builder \<Rightarrow> cache_key_builder" where
  "ck_arg arg b = b\<lparr>ck_arguments := ck_arguments b @ [arg]\<rparr>"

definition ck_env :: "string \<Rightarrow> string \<Rightarrow> cache_key_builder \<Rightarrow> cache_key_builder" where
  "ck_env key value b = b\<lparr>ck_env_vars := bt_insert key value (ck_env_vars b)\<rparr>"

definition ck_source :: "content_hash \<Rightarrow> cache_key_builder \<Rightarrow> cache_key_builder" where
  "ck_source hash b = b\<lparr>ck_source_hash := Some hash\<rparr>"

definition ck_dependency :: "string \<Rightarrow> content_hash \<Rightarrow> cache_key_builder \<Rightarrow> cache_key_builder" where
  "ck_dependency name hash b = b\<lparr>ck_dependency_hashes := bt_insert name hash (ck_dependency_hashes b)\<rparr>"

definition env_text :: "string \<times> string \<Rightarrow> string" where
  "env_text kv = fst kv @ ''='' @ snd kv"

definition ck_build :: "digest \<Rightarrow> cache_key_builder \<Rightarrow> content_hash option" where
  "ck_build h b =
     (case (ck_compiler_id b, ck_source_hash b) of
        (Some compiler, Some source_hash) \<Rightarrow>
          Some (h (''zccache-cache-key-v2'' @ [nul] @ compiler @
            concat (map (\<lambda>arg. arg @ [nul]) (ck_arguments b)) @
            concat (map (\<lambda>kv. env_text kv @ [nul]) (ck_env_vars b)) @
            source_hash @
            concat (map (\<lambda>(name, hash). name @ [nul] @ hash @ [nul]) (ck_dependency_hashes b))))
      | _ \<Rightarrow> None)"

subsection \<open>Link keys\<close>

record link_cache_key_builder =
  lk_tool_id :: "content_hash option"
  lk_flags :: "string list"
  lk_env_vars :: "(string \<times> string) list"
  lk_input_hashes :: "content_hash list"

definition link_key_builder_new :: link_cache_key_builder where
  "link_key_builder_new = \<lparr> lk_tool_id = None, lk_flags = [], lk_env_vars = [], lk_input_hashes = [] \<rparr>"

definition lk_tool :: "content_hash \<Rightarrow> link_cache_key_builder \<Rightarrow> link_cache_key_builder" where
  "lk_tool hash b = b\<lparr>lk_tool_id := Some hash\<rparr>"

definition lk_flag :: "string \<Rightarrow> link_cache_key_builder \<Rightarrow> link_cache_key_builder" where
  "lk_flag flag b = b\<lparr>lk_flags := lk_flags b @ [flag]\<rparr>"

definition lk_env :: "string \<Rightarrow> string \<Rightarrow> link_cache_key_builder \<Rightarrow> link_cache_key_builder" where
  "lk_env key value b = b\<lparr>lk_env_vars := bt_insert key value (lk_env_vars b)\<rparr>"

definition lk_input :: "content_hash \<Rightarrow> link_cache_key_builder \<Rightarrow> link_cache_key_builder" where
  "lk_input hash b = b\<lparr>lk_input_hashes := lk_input_hashes b @ [hash]\<rparr>"

definition lk_build :: "digest \<Rightarrow> link_cache_key_builder \<Rightarrow> content_hash option" where
  "lk_build h b =
     (case lk_tool_id b of
        None \<Rightarrow> None
      | Some tool \<Rightarrow>
          if lk_input_hashes b = [] then None
          else Some (h (''zccache-link-key-v1'' @ tool @
            concat (map (\<lambda>flag. flag @ [nul]) (lk_flags b)) @
            concat (map (\<lambda>kv. env_text kv @ [nul]) (lk_env_vars b)) @
            concat (lk_input_hashes b))))"

subsection \<open>The key of a link in the daemon\<close>

definition REQUEST_ROOT_MARKER :: string where
  "REQUEST_ROOT_MARKER = ''$ZCCACHE_WORKTREE_ROOT''"

definition normalize_path_for_request_key :: "string \<Rightarrow> string option \<Rightarrow> string" where
  "normalize_path_for_request_key path key_root =
     (case Option.bind key_root (path_strip_prefix path) of
        Some relative \<Rightarrow>
          (let relative = normalize_for_key relative
           in if relative = [] then REQUEST_ROOT_MARKER else REQUEST_ROOT_MARKER @ ''/'' @ relative)
      | None \<Rightarrow> normalize_for_key path)"

definition normalize_request_path_value :: "string \<Rightarrow> string option \<Rightarrow> string option" where
  "normalize_request_path_value value key_root =
     (if is_absolute value then Some (normalize_path_for_request_key value key_root) else None)"

definition CC_PREFIX_MAP_FLAGS :: "string list" where
  "CC_PREFIX_MAP_FLAGS =
     [''-ffile-prefix-map'', ''-fmacro-prefix-map'', ''-fdebug-prefix-map'', ''-fcoverage-prefix-map'', ''-fprofile-prefix-map'']"

fun split_prefix_map :: "string list \<Rightarrow> string \<Rightarrow> (string \<times> string \<times> string) option" where
  "split_prefix_map [] arg = None"
| "split_prefix_map (flag # flags) arg =
     (case Option.bind (Option.bind (strip_prefix flag arg) (strip_prefix ''='')) (split_once CHR ''='') of
        Some (old, new) \<Rightarrow> Some (flag, old, new)
      | None \<Rightarrow> split_prefix_map flags arg)"

definition split_cc_prefix_map_arg :: "string \<Rightarrow> (string \<times> string \<times> string) option" where
  "split_cc_prefix_map_arg arg = split_prefix_map CC_PREFIX_MAP_FLAGS arg"

definition normalize_cc_prefix_map_arg_for_key :: "string \<Rightarrow> string option \<Rightarrow> string option" where
  "normalize_cc_prefix_map_arg_for_key arg key_root =
     (case split_cc_prefix_map_arg arg of
        None \<Rightarrow> None
      | Some (flag, old, new) \<Rightarrow>
          map_option (\<lambda>normalized_old. flag @ ''='' @ normalized_old @ ''='' @ new) (normalize_request_path_value old key_root))"

definition normalize_link_path_value_for_key :: "string \<Rightarrow> string option \<Rightarrow> string" where
  "normalize_link_path_value_for_key value key_root =
     (case key_root of
        None \<Rightarrow> value
      | Some root \<Rightarrow> (case normalize_request_path_value value (Some root) of Some v \<Rightarrow> v | None \<Rightarrow> value))"

text \<open>The first prefix that matches and is followed by an absolute path; \<open>same\<close> compares the prefix.\<close>

fun prefixed_path :: "(string \<Rightarrow> string \<Rightarrow> bool) \<Rightarrow> string list \<Rightarrow> string \<Rightarrow> string \<Rightarrow> string option" where
  "prefixed_path same [] atom root = None"
| "prefixed_path same (pre # pres) atom root =
     (if length pre \<le> length atom \<and> same (take (length pre) atom) pre then
        (case normalize_request_path_value (drop (length pre) atom) (Some root) of
           Some normalized \<Rightarrow> Some (take (length pre) atom @ normalized)
         | None \<Rightarrow> prefixed_path same pres atom root)
      else prefixed_path same pres atom root)"

definition normalize_link_flag_atom_for_key :: "string \<Rightarrow> string option \<Rightarrow> string" where
  "normalize_link_flag_atom_for_key atom key_root =
     (case key_root of
        None \<Rightarrow> atom
      | Some root \<Rightarrow>
          (case normalize_cc_prefix_map_arg_for_key atom (Some root) of
             Some normalized \<Rightarrow> normalized
           | None \<Rightarrow>
               (case prefixed_path (=) [''-L'', ''--library-path='', ''--version-script='', ''--script='', ''--sysroot=''] atom root of
                  Some normalized \<Rightarrow> normalized
                | None \<Rightarrow>
                    (case prefixed_path eq_ignore_ascii_case [''/LIBPATH:'', ''/DEF:''] atom root of
                       Some normalized \<Rightarrow> normalized
                     | None \<Rightarrow>
                         (case split_once CHR ''='' atom of
                            Some (left, right) \<Rightarrow>
                              (case normalize_request_path_value right (Some root) of
                                 Some normalized_right \<Rightarrow> left @ ''='' @ normalized_right
                               | None \<Rightarrow> atom)
                          | None \<Rightarrow> atom)))))"

fun normalize_wl_parts :: "string option \<Rightarrow> string list \<Rightarrow> string list" where
  "normalize_wl_parts key_root [] = []"
| "normalize_wl_parts key_root (part # parts) =
     (if part \<in> set [''-L'', ''-T'', ''--script'', ''--version-script'', ''--library-path'', ''--sysroot''] \<and> parts \<noteq> [] then
        (case parts of
           [] \<Rightarrow> []
         | v # rest \<Rightarrow> part # normalize_link_path_value_for_key v key_root # normalize_wl_parts key_root rest)
      else normalize_link_flag_atom_for_key part key_root # normalize_wl_parts key_root parts)"

fun join_with :: "char \<Rightarrow> string list \<Rightarrow> string" where
  "join_with c [] = []"
| "join_with c [s] = s"
| "join_with c (s # ss) = s @ [c] @ join_with c ss"

definition normalize_wl_flag_for_key :: "string \<Rightarrow> string option \<Rightarrow> string" where
  "normalize_wl_flag_for_key flag key_root =
     (case split_on CHR '','' flag of
        [] \<Rightarrow> []
      | first # parts \<Rightarrow> join_with CHR '','' (first # normalize_wl_parts key_root parts))"

definition normalize_link_cache_flag_for_key :: "string \<Rightarrow> string option \<Rightarrow> string" where
  "normalize_link_cache_flag_for_key flag key_root =
     (if prefix ''-Wl,'' flag then normalize_wl_flag_for_key flag key_root else normalize_link_flag_atom_for_key flag key_root)"

definition takes_path :: "string \<Rightarrow> bool" where
  "takes_path flag \<longleftrightarrow>
     flag \<in> set [''-L'', ''-T'', ''--script'', ''--version-script'', ''--library-path'', ''-isysroot''] \<or>
     eq_ignore_ascii_case flag ''/DEF''"

fun normalize_link_flags :: "bool \<Rightarrow> string option \<Rightarrow> string list \<Rightarrow> string list" where
  "normalize_link_flags previous_path_flag key_root [] = []"
| "normalize_link_flags previous_path_flag key_root (flag # flags) =
     (if previous_path_flag
      then normalize_link_path_value_for_key flag key_root # normalize_link_flags False key_root flags
      else normalize_link_cache_flag_for_key flag key_root # normalize_link_flags (takes_path flag) key_root flags)"

definition normalize_link_cache_flags_for_key :: "string list \<Rightarrow> string option \<Rightarrow> string list" where
  "normalize_link_cache_flags_for_key flags key_root = normalize_link_flags False key_root flags"

record link_search_analysis =
  ls_search_dirs :: "npath list"
  ls_lib_names :: "string list"

definition push_link_search_dir :: "string \<Rightarrow> link_search_analysis \<Rightarrow> link_search_analysis" where
  "push_link_search_dir value an = an\<lparr>ls_search_dirs := ls_search_dirs an @ [Paths.normalize value]\<rparr>"

definition push_link_lib_name :: "string \<Rightarrow> link_search_analysis \<Rightarrow> link_search_analysis" where
  "push_link_lib_name value an = (if value \<noteq> [] then an\<lparr>ls_lib_names := ls_lib_names an @ [value]\<rparr> else an)"

fun analyze_wl_parts :: "string list \<Rightarrow> link_search_analysis \<Rightarrow> link_search_analysis" where
  "analyze_wl_parts [] an = an"
| "analyze_wl_parts (part # parts) an =
     (if part = ''-L'' \<or> part = ''--library-path'' then
        (case parts of [] \<Rightarrow> an | v # rest \<Rightarrow> analyze_wl_parts rest (push_link_search_dir v an))
      else if part = ''-l'' then
        (case parts of [] \<Rightarrow> an | v # rest \<Rightarrow> analyze_wl_parts rest (push_link_lib_name v an))
      else if prefix ''-L'' part \<and> drop 2 part \<noteq> [] then analyze_wl_parts parts (push_link_search_dir (drop 2 part) an)
      else if prefix ''--library-path='' part \<and> drop 15 part \<noteq> [] then
        analyze_wl_parts parts (push_link_search_dir (drop 15 part) an)
      else if prefix ''-l'' part \<and> drop 2 part \<noteq> [] then analyze_wl_parts parts (push_link_lib_name (drop 2 part) an)
      else analyze_wl_parts parts an)"

fun analyze_loop :: "bool \<Rightarrow> string list \<Rightarrow> link_search_analysis \<Rightarrow> link_search_analysis" where
  "analyze_loop previous [] an = an"
| "analyze_loop previous (flag # flags) an =
     (if previous then analyze_loop False flags (push_link_search_dir flag an)
      else if flag = ''-L'' \<or> flag = ''--library-path'' then analyze_loop True flags an
      else if prefix ''-L'' flag \<and> drop 2 flag \<noteq> [] then analyze_loop False flags (push_link_search_dir (drop 2 flag) an)
      else if prefix ''--library-path='' flag then analyze_loop False flags (push_link_search_dir (drop 15 flag) an)
      else if prefix ''-l'' flag \<and> drop 2 flag \<noteq> [] then analyze_loop False flags (push_link_lib_name (drop 2 flag) an)
      else if prefix ''-Wl,'' flag then analyze_loop False flags (analyze_wl_parts (split_on CHR '','' (drop 4 flag)) an)
      else analyze_loop False flags an)"

definition analyze_link_search_flags :: "string list \<Rightarrow> link_search_analysis" where
  "analyze_link_search_flags flags = analyze_loop False flags \<lparr> ls_search_dirs = [], ls_lib_names = [] \<rparr>"

definition link_library_candidate_names :: "string \<Rightarrow> string list" where
  "link_library_candidate_names lib =
     (case strip_prefix '':'' lib of
        Some exact \<Rightarrow> [exact]
      | None \<Rightarrow> [''lib'' @ lib @ ''.a'', ''lib'' @ lib @ ''.so'', ''lib'' @ lib @ ''.dylib'', lib @ ''.lib'', ''lib'' @ lib @ ''.dll.a'',
                lib @ ''.dll.a''])"

definition link_path_to_absolute :: "string \<Rightarrow> string \<Rightarrow> string" where
  "link_path_to_absolute path cwd = (if is_absolute path then path else path_join cwd path)"

text \<open>\<open>is_file\<close> asks the file system.\<close>

definition resolve_link_library :: "(string \<Rightarrow> bool) \<Rightarrow> string \<Rightarrow> npath list \<Rightarrow> string \<Rightarrow> npath option" where
  "resolve_link_library is_file lib search_dirs cwd =
     map_option Paths.normalize
       (List.find is_file
          (concat (map (\<lambda>dir. map (\<lambda>name. path_join (link_path_to_absolute dir cwd) name) (link_library_candidate_names lib))
             search_dirs)))"

record link_path_remap_key_plan =
  lp_flags :: "string list"
  lp_extra_input_files :: "npath list"
  lp_root_specific :: bool

definition path_is_under_root :: "string \<Rightarrow> string \<Rightarrow> bool" where
  "path_is_under_root path root \<longleftrightarrow> path_strip_prefix path root \<noteq> None"

definition plan_library ::
    "(string \<Rightarrow> bool) \<Rightarrow> npath list \<Rightarrow> string \<Rightarrow> string \<Rightarrow> bool \<Rightarrow> npath list \<times> bool \<Rightarrow> string \<Rightarrow> npath list \<times> bool" where
  "plan_library is_file search_dirs cwd root root_local_search acc lib =
     (case resolve_link_library is_file lib search_dirs cwd of
        Some path \<Rightarrow>
          (let abs_path = link_path_to_absolute path cwd
           in if path_is_under_root abs_path root then (fst acc @ [Paths.normalize abs_path], snd acc)
              else (fst acc, snd acc \<or> root_local_search))
      | None \<Rightarrow> (fst acc, snd acc \<or> root_local_search))"

definition build_link_path_remap_key_plan ::
    "(string \<Rightarrow> bool) \<Rightarrow> string list \<Rightarrow> string \<Rightarrow> string option \<Rightarrow> link_path_remap_key_plan" where
  "build_link_path_remap_key_plan is_file flags cwd key_root =
     (let analysis = analyze_link_search_flags flags;
          normalized_flags = normalize_link_cache_flags_for_key flags key_root
      in case key_root of
           None \<Rightarrow> \<lparr> lp_flags = normalized_flags, lp_extra_input_files = [], lp_root_specific = False \<rparr>
         | Some root \<Rightarrow>
             (let root_local_search =
                    list_ex (\<lambda>dir. path_is_under_root (link_path_to_absolute dir cwd) root) (ls_search_dirs analysis);
                  (extra, root_specific) =
                    foldl (plan_library is_file (ls_search_dirs analysis) cwd root root_local_search)
                      ([], root_local_search \<and> ls_lib_names analysis = []) (ls_lib_names analysis)
              in \<lparr> lp_flags = normalized_flags, lp_extra_input_files = remdups_adj (sort extra),
                   lp_root_specific = root_specific \<rparr>))"

definition LINK_PATH_REMAP_AUTO_KEY_FLAG :: string where
  "LINK_PATH_REMAP_AUTO_KEY_FLAG = ''zccache:path-remap=auto''"

definition LINK_PATH_REMAP_ROOT_SPECIFIC_FLAG :: string where
  "LINK_PATH_REMAP_ROOT_SPECIFIC_FLAG = ''zccache:path-remap=root-specific''"

text \<open>An input that cannot be hashed makes the daemon run the tool uncached.\<close>

fun add_inputs :: "content_hash option list \<Rightarrow> link_cache_key_builder \<Rightarrow> link_cache_key_builder option" where
  "add_inputs [] b = Some b"
| "add_inputs (None # hs) b = None"
| "add_inputs (Some hash # hs) b = add_inputs hs (lk_input hash b)"

definition link_request_builder ::
    "content_hash \<Rightarrow> string option \<Rightarrow> link_path_remap_key_plan \<Rightarrow> environment \<Rightarrow> content_hash option list \<Rightarrow>
       link_cache_key_builder option" where
  "link_request_builder tool_hash key_root plan env hash_results =
     (let b = lk_tool tool_hash link_key_builder_new;
          b = (if key_root \<noteq> None then lk_flag LINK_PATH_REMAP_AUTO_KEY_FLAG b else b);
          b = (if lp_root_specific plan
               then lk_flag (LINK_PATH_REMAP_ROOT_SPECIFIC_FLAG @ '':'' @
                      (case key_root of Some root \<Rightarrow> normalize_for_key root | None \<Rightarrow> [])) b
               else b);
          b = foldl (\<lambda>b flag. lk_flag flag b) b (lp_flags plan);
          b = foldl (\<lambda>b (name, value). lk_env name value b) b (keyed_link_env env)
      in add_inputs hash_results b)"

text \<open>The inputs the handler hashes, and the key it looks up; \<open>hash_of\<close> hashes a file.\<close>

definition link_inputs :: "string \<Rightarrow> npath list \<Rightarrow> link_path_remap_key_plan \<Rightarrow> npath list" where
  "link_inputs cwd input_files plan =
     map (\<lambda>input. if is_absolute input then input else Paths.normalize (path_join cwd input))
       (input_files @ lp_extra_input_files plan)"

definition link_invocation_builder ::
    "(npath \<Rightarrow> content_hash option) \<Rightarrow> (string \<Rightarrow> bool) \<Rightarrow> npath \<Rightarrow> string list \<Rightarrow> npath list \<Rightarrow> string \<Rightarrow>
       string option \<Rightarrow> environment \<Rightarrow> link_cache_key_builder option" where
  "link_invocation_builder hash_of is_file tool flags input_files cwd key_root env =
     (let plan = build_link_path_remap_key_plan is_file flags cwd key_root
      in case hash_of tool of
           None \<Rightarrow> None
         | Some tool_hash \<Rightarrow>
             link_request_builder tool_hash key_root plan env (map hash_of (link_inputs cwd input_files plan)))"

definition link_invocation_key ::
    "digest \<Rightarrow> (npath \<Rightarrow> content_hash option) \<Rightarrow> (string \<Rightarrow> bool) \<Rightarrow> npath \<Rightarrow> string list \<Rightarrow> npath list \<Rightarrow> string \<Rightarrow>
       string option \<Rightarrow> environment \<Rightarrow> content_hash option" where
  "link_invocation_key h hash_of is_file tool flags input_files cwd key_root env =
     Option.bind (link_invocation_builder hash_of is_file tool flags input_files cwd key_root env) (lk_build h)"

end
