(* ===== verification/LinkLaws.thy ===== *)
theory LinkLaws
  imports LinkParse LinkKeys
begin

text \<open>
  What the link parsers keep of a command line and what a link key identifies.
\<close>

subsection \<open>How a parser uses each argument\<close>

datatype arg_use = AsFlag | AsInput | AsFlagWithInput string | AsOutput | AsOutputValue | Dropped

fun flag_of :: "string \<times> arg_use \<Rightarrow> string list" where
  "flag_of (a, AsFlag) = [a]"
| "flag_of (a, AsFlagWithInput f) = [a]"
| "flag_of (a, _) = []"

fun input_of :: "string \<times> arg_use \<Rightarrow> npath list" where
  "input_of (a, AsInput) = [Paths.normalize a]"
| "input_of (a, AsFlagWithInput f) = [Paths.normalize f]"
| "input_of (a, _) = []"

text \<open>
  The legal uses: an output option takes the next argument as its value, an argument is an input
  with its own name or the name a flag carries, and nothing else may be dropped than \<open>may_drop\<close>
  allows.
\<close>

fun well_used :: "(string \<Rightarrow> bool) \<Rightarrow> string list \<Rightarrow> arg_use list \<Rightarrow> bool" where
  "well_used may_drop [] [] \<longleftrightarrow> True"
| "well_used may_drop (a # as) (AsOutput # us) \<longleftrightarrow>
     (prefix ''--output='' a \<and> well_used may_drop as us) \<or>
     (a = ''-o'' \<and>
        (case us of
           [] \<Rightarrow> as = []
         | u # us' \<Rightarrow> u = AsOutputValue \<and> as \<noteq> [] \<and> well_used may_drop (tl as) us'))"
| "well_used may_drop (a # as) (AsFlag # us) \<longleftrightarrow> well_used may_drop as us"
| "well_used may_drop (a # as) (AsInput # us) \<longleftrightarrow> \<not> prefix ''-'' a \<and> well_used may_drop as us"
| "well_used may_drop (a # as) (AsFlagWithInput f # us) \<longleftrightarrow> suffix f a \<and> well_used may_drop as us"
| "well_used may_drop (a # as) (Dropped # us) \<longleftrightarrow> may_drop a \<and> well_used may_drop as us"
| "well_used may_drop _ _ \<longleftrightarrow> False"

lemma well_used_length: "well_used d as us \<Longrightarrow> length us = length as"
proof (induction d as us rule: well_used.induct)
  case (2 d a as us)
  then show ?case by (cases us; cases as) auto
qed auto

abbreviation kept_flags :: "string list \<Rightarrow> arg_use list \<Rightarrow> string list" where
  "kept_flags args us \<equiv> concat (map flag_of (zip args us))"

abbreviation kept_inputs :: "string list \<Rightarrow> arg_use list \<Rightarrow> npath list" where
  "kept_inputs args us \<equiv> concat (map input_of (zip args us))"

lemma gl_simps [simp]:
  "gl_flags (gl_flag a st) = gl_flags st @ [a]" "gl_input_files (gl_flag a st) = gl_input_files st"
  "gl_flags (gl_input a st) = gl_flags st" "gl_input_files (gl_input a st) = gl_input_files st @ [Paths.normalize a]"
  "gl_flags (gl_secondary a st) = gl_flags st" "gl_input_files (gl_secondary a st) = gl_input_files st"
  "gl_flags (gl_diagnostic a st) = gl_flags st" "gl_input_files (gl_diagnostic a st) = gl_input_files st"
  by (simp_all add: gl_flag_def gl_input_def gl_secondary_def gl_diagnostic_def)

text \<open>One step of the GNU parser: a prefix of the arguments is consumed and used legally.\<close>

definition step_uses ::
    "(string \<Rightarrow> bool) \<Rightarrow> string \<Rightarrow> string list \<Rightarrow> gnu_ld_state \<Rightarrow> gnu_ld_state \<Rightarrow> string list \<Rightarrow> bool" where
  "step_uses may_drop arg rest st st' rest' \<longleftrightarrow>
     (\<exists>us. \<forall>us'. well_used may_drop rest' us' \<longrightarrow>
        well_used may_drop (arg # rest) (us @ us') \<and>
        gl_flags st @ kept_flags (arg # rest) (us @ us') = gl_flags st' @ kept_flags rest' us' \<and>
        gl_input_files st @ kept_inputs (arg # rest) (us @ us') = gl_input_files st' @ kept_inputs rest' us')"

lemma step_flag:
  "gl_flags st' = gl_flags st @ [arg] \<Longrightarrow> gl_input_files st' = gl_input_files st \<Longrightarrow> step_uses d arg rest st st' rest"
  unfolding step_uses_def by (rule exI [of _ "[AsFlag]"]) simp

lemma step_value:
  "gl_flags st' = gl_flags st @ [arg, v] \<Longrightarrow> gl_input_files st' = gl_input_files st \<Longrightarrow> step_uses d arg (v # rest) st st' rest"
  unfolding step_uses_def by (rule exI [of _ "[AsFlag, AsFlag]"]) simp

lemma step_value_input:
  "gl_flags st' = gl_flags st @ [arg, v] \<Longrightarrow> gl_input_files st' = gl_input_files st @ [Paths.normalize v] \<Longrightarrow>
     step_uses d arg (v # rest) st st' rest"
  unfolding step_uses_def by (rule exI [of _ "[AsFlag, AsFlagWithInput v]"]) simp

lemma step_flag_input:
  "gl_flags st' = gl_flags st @ [arg] \<Longrightarrow> gl_input_files st' = gl_input_files st @ [Paths.normalize f] \<Longrightarrow> suffix f arg \<Longrightarrow>
     step_uses d arg rest st st' rest"
  unfolding step_uses_def by (rule exI [of _ "[AsFlagWithInput f]"]) simp

lemma step_input:
  "gl_flags st' = gl_flags st \<Longrightarrow> gl_input_files st' = gl_input_files st @ [Paths.normalize arg] \<Longrightarrow> \<not> prefix ''-'' arg \<Longrightarrow>
     step_uses d arg rest st st' rest"
  unfolding step_uses_def by (rule exI [of _ "[AsInput]"]) simp

lemma step_drop:
  "gl_flags st' = gl_flags st \<Longrightarrow> gl_input_files st' = gl_input_files st \<Longrightarrow> d arg \<Longrightarrow> step_uses d arg rest st st' rest"
  unfolding step_uses_def by (rule exI [of _ "[Dropped]"]) simp

lemma step_output:
  "gl_flags st' = gl_flags st \<Longrightarrow> gl_input_files st' = gl_input_files st \<Longrightarrow> prefix ''--output='' arg \<Longrightarrow>
     step_uses d arg rest st st' rest"
  unfolding step_uses_def by (rule exI [of _ "[AsOutput]"]) simp

lemma step_o:
  assumes "gl_flags st' = gl_flags st" "gl_input_files st' = gl_input_files st"
  shows "step_uses d ''-o'' [] st st' []" and "step_uses d ''-o'' (v # rest) st st' rest"
proof -
  have "well_used d [] us' \<Longrightarrow> us' = []" for us' by (cases us') auto
  with assms show "step_uses d ''-o'' [] st st' []"
    unfolding step_uses_def by (intro exI [of _ "[AsOutput]"] allI impI) (drule meta_spec, drule (1) meta_mp, simp)
  show "step_uses d ''-o'' (v # rest) st st' rest"
    unfolding step_uses_def using assms by (intro exI [of _ "[AsOutput, AsOutputValue]"]) simp
qed

lemma with_value_uses:
  assumes "gl_with_value use arg rest st = (st', rest')"
    and "\<And>v s. gl_flags (use v s) = gl_flags s"
    and "(\<forall>v s. gl_input_files (use v s) = gl_input_files s) \<or> (\<forall>v s. gl_input_files (use v s) = gl_input_files s @ [Paths.normalize v])"
  shows "step_uses d arg rest st st' rest'"
proof (cases rest)
  case Nil
  with assms(1) show ?thesis by (auto simp: gl_with_value_def intro!: step_flag)
next
  case (Cons v vs)
  with assms(1) have "st' = gl_flag v (use v (gl_flag arg st))" "rest' = vs" by (auto simp: gl_with_value_def)
  with Cons assms(2,3) show ?thesis
    by (elim disjE) (simp_all add: step_value step_value_input)
qed

lemma drop_suffix: "suffix (drop n a) a"
  by (rule suffix_drop)

lemma soname_flag: "prefix ''--soname='' arg \<Longrightarrow> ''--soname='' @ drop 9 arg = arg"
  by (auto simp: prefix_def)

lemma gnu_ld_arg_uses:
  assumes "gnu_ld_arg arg rest st = (st', rest')"
  shows "step_uses d arg rest st st' rest'"
proof -
  consider "prefix ''--out-implib='' arg \<or> prefix ''-Map='' arg \<or> prefix ''--dependency-file='' arg"
    | "arg = ''--out-implib'' \<or> arg = ''-Map'' \<or> arg = ''--dependency-file'' \<or> arg = ''-map'' \<or> arg = ''-dependency_info''"
    | "arg = ''-o''"
    | "prefix ''--output='' arg"
    | "\<not> prefix ''-'' arg"
    | "arg \<noteq> ''-o''" "\<not> prefix ''--output='' arg" "prefix ''-'' arg" "\<not> prefix ''--out-implib='' arg" "\<not> prefix ''-Map='' arg" "\<not> prefix ''--dependency-file='' arg"
      "arg \<noteq> ''--out-implib''" "arg \<noteq> ''-Map''" "arg \<noteq> ''--dependency-file''" "arg \<noteq> ''-map''" "arg \<noteq> ''-dependency_info''"
    by metis
  then show ?thesis
  proof cases
    case 1
    then show ?thesis using assms by (auto simp: gnu_ld_arg_def intro!: step_flag split: if_splits)
  next
    case 2
    then show ?thesis using assms
      by (elim disjE) (simp add: gnu_ld_arg_def, erule with_value_uses, simp, simp)+
  next
    case 3
    then show ?thesis using assms by (auto simp: gnu_ld_arg_def intro!: step_o split: list.splits)
  next
    case 4
    then have "st' = st\<lparr>gl_output_file := Some (Paths.normalize (drop 9 arg))\<rparr> \<and> rest' = rest"
      using assms by (auto simp: gnu_ld_arg_def prefix_def split: if_splits)
    with 4 show ?thesis by (auto intro!: step_output)
  next
    case 5
    have n: "\<not> prefix (CHR ''-'' # s) arg" "arg \<noteq> CHR ''-'' # s" for s using 5 by (cases arg; simp)+
    with 5 assms have "st' = gl_input arg st \<and> rest' = rest" by (simp add: gnu_ld_arg_def n)
    with 5 show ?thesis by (auto intro!: step_input)
  next
    case 6
    show ?thesis
    proof (cases "arg = ''-soname'' \<or> arg = ''-h'' \<or> arg = ''-install_name'' \<or> arg = ''-L'' \<or> arg = ''-T'' \<or> arg = ''--script'' \<or>
        arg = ''-z'' \<or> arg = ''--version-script''")
      case True
      then show ?thesis using assms
        by (elim disjE) (simp add: gnu_ld_arg_def, erule with_value_uses, simp, simp)+
    next
      case False
      show ?thesis
      proof (cases "prefix ''--version-script='' arg")
        case True
        with 6 False assms have "st' = gl_input (drop 17 arg) (gl_flag arg st) \<and> rest' = rest"
          by (auto simp: gnu_ld_arg_def prefix_def split: if_splits)
        then show ?thesis by (auto intro!: step_flag_input drop_suffix)
      next
        case nv: False
        have "gl_flags st' = gl_flags st @ [arg] \<and> gl_input_files st' = gl_input_files st \<and> rest' = rest"
        proof (cases "prefix ''--soname='' arg")
          case True
          note f = soname_flag [OF True]
          from True have "arg \<noteq> ''-shared''" "arg \<noteq> ''--shared''" "arg \<noteq> ''-dylib''" "arg \<noteq> ''--build-id=uuid''" "\<not> prefix ''--build-id'' arg"
            by (auto simp: prefix_def)
          then have "gnu_ld_arg arg rest st = (gl_flag arg st, rest)"
            unfolding gnu_ld_arg_def using 6 False True f by simp
          with assms show ?thesis by auto
        next
          case ns: False
          have "gnu_ld_arg arg rest st = (gl_flag arg (if arg = ''--build-id=uuid'' then st\<lparr>gl_has_build_id_uuid := True\<rparr> else st), rest)"
            unfolding gnu_ld_arg_def using 6 False nv ns by simp
          with assms show ?thesis by auto
        qed
        then show ?thesis by (auto intro!: step_flag)
      qed
    qed
  qed
qed


lemma gnu_ld_loop_uses:
  "\<exists>us. length us = length args \<and> well_used d args us \<and>
     gl_flags (gnu_ld_loop args st) = gl_flags st @ kept_flags args us \<and>
     gl_input_files (gnu_ld_loop args st) = gl_input_files st @ kept_inputs args us"
proof (induction args st rule: gnu_ld_loop.induct)
  case (2 arg rest st)
  obtain st' rest' where s: "gnu_ld_arg arg rest st = (st', rest')" by fastforce
  from 2 s obtain us' where us': "length us' = length rest'" "well_used d rest' us'"
    "gl_flags (gnu_ld_loop rest' st') = gl_flags st' @ kept_flags rest' us'"
    "gl_input_files (gnu_ld_loop rest' st') = gl_input_files st' @ kept_inputs rest' us'" by fastforce
  from gnu_ld_arg_uses [OF s] obtain us where us: "well_used d (arg # rest) (us @ us')"
    "gl_flags st @ kept_flags (arg # rest) (us @ us') = gl_flags st' @ kept_flags rest' us'"
    "gl_input_files st @ kept_inputs (arg # rest) (us @ us') = gl_input_files st' @ kept_inputs rest' us'"
    using us'(2) unfolding step_uses_def by blast
  with us'(3,4) s well_used_length [OF us(1)] show ?case by (intro exI [of _ "us @ us'"]) simp
qed simp

lemma driver_arg_uses:
  assumes "driver_arg arg rest (co, st) = ((co', st'), rest')" and "arg \<noteq> ''-c''"
  shows "co' = co \<and> step_uses (\<lambda>a. \<not> prefix ''-'' a \<and> \<not> is_linker_input a) arg rest st st' rest'"
proof -
  have wl: "gl_flags (wl_parts ps s) = gl_flags s" "gl_input_files (wl_parts ps s) = gl_input_files s" for ps s
    by (induction ps s rule: wl_parts.induct) (auto simp: wl_part_def Let_def split: option.split)
  consider "arg = ''-o''" | "arg = ''-L'' \<or> arg = ''-target'' \<or> arg = ''--target'' \<or> arg = ''-isysroot''"
    | "prefix ''-'' arg" "arg \<noteq> ''-o''" "arg \<noteq> ''-L''" "arg \<noteq> ''-target''" "arg \<noteq> ''--target''" "arg \<noteq> ''-isysroot''"
    | "\<not> prefix ''-'' arg" by metis
  then show ?thesis
  proof cases
    case 1
    then show ?thesis using assms by (auto simp: driver_arg_def intro!: step_o split: list.splits)
  next
    case 2
    then have "driver_arg arg rest (co, st) = apfst (Pair co) (gl_with_value (\<lambda>_ s. s) arg rest st)"
      by (elim disjE) (simp_all add: driver_arg_def)
    with assms(1) have "gl_with_value (\<lambda>_ s. s) arg rest st = (st', rest')" "co' = co"
      by (cases "gl_with_value (\<lambda>_ s. s) arg rest st"; simp)+
    then show ?thesis by (simp add: with_value_uses)
  next
    case 3
    then have "driver_arg arg rest (co, st) =
        ((co, gl_flag arg (if prefix ''-Wl,'' arg then wl_parts (split_on CHR '','' arg) st else st)), rest)"
      using assms(2) unfolding driver_arg_def by (auto simp: prefix_def)
    with assms(1) show ?thesis by (auto intro!: step_flag simp: wl split: if_splits)
  next
    case 4
    have n: "\<not> prefix (CHR ''-'' # s) arg" "arg \<noteq> CHR ''-'' # s" for s using 4 by (cases arg; simp)+
    show ?thesis
    proof (cases "is_linker_input arg")
      case True
      with 4 assms have "co' = co \<and> st' = gl_input arg st \<and> rest' = rest" by (auto simp: driver_arg_def n)
      with 4 show ?thesis by (auto intro!: step_input)
    next
      case False
      with 4 assms have "co' = co \<and> st' = st \<and> rest' = rest" by (auto simp: driver_arg_def n)
      with 4 False show ?thesis by (auto intro!: step_drop)
    qed
  qed
qed


lemma driver_loop_uses:
  "\<not> fst (driver_loop args (co, st)) \<Longrightarrow> \<not> co \<and>
     (\<exists>us. length us = length args \<and> well_used (\<lambda>a. \<not> prefix ''-'' a \<and> \<not> is_linker_input a) args us \<and>
        gl_flags (snd (driver_loop args (co, st))) = gl_flags st @ kept_flags args us \<and>
        gl_input_files (snd (driver_loop args (co, st))) = gl_input_files st @ kept_inputs args us)"
proof (induction args "(co, st)" arbitrary: co st rule: driver_loop.induct)
  case (2 arg rest co st)
  obtain co' st' rest' where s: "driver_arg arg rest (co, st) = ((co', st'), rest')" by (metis surj_pair)
  from 2(1) [OF s [symmetric] refl] 2(2) s have nc: "\<not> co'" and "\<exists>us. length us = length rest' \<and>
      well_used (\<lambda>a. \<not> prefix ''-'' a \<and> \<not> is_linker_input a) rest' us \<and>
      gl_flags (snd (driver_loop rest' (co', st'))) = gl_flags st' @ kept_flags rest' us \<and>
      gl_input_files (snd (driver_loop rest' (co', st'))) = gl_input_files st' @ kept_inputs rest' us" by auto
  then obtain us' where us': "length us' = length rest'" "well_used (\<lambda>a. \<not> prefix ''-'' a \<and> \<not> is_linker_input a) rest' us'"
    "gl_flags (snd (driver_loop rest' (co', st'))) = gl_flags st' @ kept_flags rest' us'"
    "gl_input_files (snd (driver_loop rest' (co', st'))) = gl_input_files st' @ kept_inputs rest' us'" by blast
  have "arg \<noteq> ''-c''" using s nc by (auto simp: driver_arg_def)
  from driver_arg_uses [OF s this] obtain us where co: "co' = co"
    and us: "well_used (\<lambda>a. \<not> prefix ''-'' a \<and> \<not> is_linker_input a) (arg # rest) (us @ us')"
    "gl_flags st @ kept_flags (arg # rest) (us @ us') = gl_flags st' @ kept_flags rest' us'"
    "gl_input_files st @ kept_inputs (arg # rest) (us @ us') = gl_input_files st' @ kept_inputs rest' us'"
    using us'(2) unfolding step_uses_def by blast
  with us'(3,4) s nc well_used_length [OF us(1)] show ?case
    by (intro conjI exI [of _ "us @ us'"]) simp_all
qed simp

text \<open>
  A cacheable link keeps its whole command line, except that a compiler driver's bare words are
  forgotten.  Each argument is a flag, an input, both (the file a flag names), or an output option
  with its value; flags and inputs reach the key in the order of the command line.  The parser of GNU
  linkers drops nothing; the parser of compiler drivers drops only arguments that are neither
  options nor named like object files.
\<close>

theorem link_arguments_kept:
  "(case parse_gnu_ld tool family args of
      Inl _ \<Rightarrow> True
    | Inr l \<Rightarrow> \<exists>us. length us = length args \<and> well_used (\<lambda>a. False) args us \<and>
        cl_cache_relevant_flags l = kept_flags args us \<and> cl_input_files l = kept_inputs args us) \<and>
   (case parse_compiler_driver_link tool args of
      Inl _ \<Rightarrow> True
    | Inr l \<Rightarrow> \<exists>us. length us = length args \<and> well_used (\<lambda>a. \<not> prefix ''-'' a \<and> \<not> is_linker_input a) args us \<and>
        cl_cache_relevant_flags l = kept_flags args us \<and> cl_input_files l = kept_inputs args us)"
proof (rule conjI)
  from gnu_ld_loop_uses [of args "\<lambda>a. False" gnu_ld_start]
  show "case parse_gnu_ld tool family args of
      Inl _ \<Rightarrow> True
    | Inr l \<Rightarrow> \<exists>us. length us = length args \<and> well_used (\<lambda>a. False) args us \<and>
        cl_cache_relevant_flags l = kept_flags args us \<and> cl_input_files l = kept_inputs args us"
    by (auto simp: parse_gnu_ld_def gnu_ld_start_def Let_def split: sum.splits option.splits if_splits)
  from driver_loop_uses [of args False gnu_ld_start]
  show "case parse_compiler_driver_link tool args of
      Inl _ \<Rightarrow> True
    | Inr l \<Rightarrow> \<exists>us. length us = length args \<and> well_used (\<lambda>a. \<not> prefix ''-'' a \<and> \<not> is_linker_input a) args us \<and>
        cl_cache_relevant_flags l = kept_flags args us \<and> cl_input_files l = kept_inputs args us"
    by (auto simp: parse_compiler_driver_link_def gnu_ld_start_def split: sum.splits option.splits if_splits prod.splits)
qed


subsection \<open>What a link key identifies\<close>

abbreviation nul_terminated :: "string list \<Rightarrow> string" where
  "nul_terminated ss \<equiv> concat (map (\<lambda>s. s @ [nul]) ss)"

definition key_texts :: "link_cache_key_builder \<Rightarrow> string list" where
  "key_texts b = lk_flags b @ map env_text (lk_env_vars b)"

definition link_preimage :: "content_hash \<Rightarrow> link_cache_key_builder \<Rightarrow> string" where
  "link_preimage tool b = ''zccache-link-key-v1'' @ tool @ nul_terminated (key_texts b) @ concat (lk_input_hashes b)"

text \<open>Arguments and environment entries of a process hold no zero bytes; digests have 32 bytes.\<close>

definition plain_builder :: "link_cache_key_builder \<Rightarrow> bool" where
  "plain_builder b \<longleftrightarrow> list_all (\<lambda>s. nul \<notin> set s) (key_texts b) \<and> list_all (\<lambda>x. length x = 32) (lk_input_hashes b)"

lemma lk_build_preimage:
  "lk_build h b = Some k \<longleftrightarrow> (\<exists>tool. lk_tool_id b = Some tool \<and> lk_input_hashes b \<noteq> [] \<and> k = h (link_preimage tool b))"
  by (auto simp: lk_build_def link_preimage_def key_texts_def comp_def split: option.splits)

lemma nul_terminated_inj:
  "list_all (\<lambda>s. nul \<notin> set s) xs \<Longrightarrow> list_all (\<lambda>s. nul \<notin> set s) ys \<Longrightarrow> nul_terminated xs = nul_terminated ys \<Longrightarrow> xs = ys"
proof (induction xs arbitrary: ys)
  case Nil
  then show ?case by (cases ys) auto
next
  case (Cons x xs)
  then obtain y ys' where ys: "ys = y # ys'" by (cases ys) auto
  from Cons.prems ys have "entry x @ nul_terminated xs = entry y @ nul_terminated ys'" "nul \<notin> set x" "nul \<notin> set y"
    by (simp_all add: entry_def)
  then have "x = y" "nul_terminated xs = nul_terminated ys'" using entry_split by blast+
  with Cons ys show ?case by auto
qed

lemma sized_concat_inj:
  "list_all (\<lambda>x. length x = n) xs \<Longrightarrow> list_all (\<lambda>x. length x = n) ys \<Longrightarrow> length xs = length ys \<Longrightarrow> concat xs = concat ys \<Longrightarrow>
     xs = ys"
proof (induction xs arbitrary: ys)
  case (Cons x xs)
  from Cons.prems(3) obtain y ys' where ys: "ys = y # ys'" by (cases ys) auto
  from Cons.prems ys have e: "x @ concat xs = y @ concat ys'" and l: "length x = length y"
    and p: "list_all (\<lambda>x. length x = n) xs" "list_all (\<lambda>x. length x = n) ys'" "length xs = length ys'" by auto
  from e l have "x = y" "concat xs = concat ys'" by (simp_all add: append_eq_append_conv)
  with Cons.IH [OF p] ys show ?case by blast
qed simp

lemma sized_concat_length: "list_all (\<lambda>x. length x = n) xs \<Longrightarrow> length (concat xs) = n * length xs"
  by (induction xs) auto

lemma link_preimage_inj:
  assumes "link_preimage tool b = link_preimage tool' b'" and "length tool = 32" and "length tool' = 32"
    and "plain_builder b" and "plain_builder b'" and "length (lk_input_hashes b) = length (lk_input_hashes b')"
  shows "tool = tool' \<and> key_texts b = key_texts b' \<and> lk_input_hashes b = lk_input_hashes b'"
proof -
  from assms(1-3) have t: "tool = tool'"
    and r: "nul_terminated (key_texts b) @ concat (lk_input_hashes b) = nul_terminated (key_texts b') @ concat (lk_input_hashes b')"
    by (auto simp: link_preimage_def)
  from assms(4-6) have "length (concat (lk_input_hashes b)) = length (concat (lk_input_hashes b'))"
    by (simp add: plain_builder_def sized_concat_length [of 32])
  with r have "nul_terminated (key_texts b) = nul_terminated (key_texts b')" "concat (lk_input_hashes b) = concat (lk_input_hashes b')"
    by auto
  with assms(4-6) have "key_texts b = key_texts b'" "lk_input_hashes b = lk_input_hashes b'"
    using nul_terminated_inj sized_concat_inj [of 32] unfolding plain_builder_def by blast+
  with t show ?thesis by simp
qed


subsection \<open>The key of a link request\<close>

definition link_env :: "environment \<Rightarrow> environment" where
  "link_env env = foldl (\<lambda>m (name, value). bt_insert name value m) [] (keyed_link_env env)"

text \<open>The text of an entry of one of the keyed variables.\<close>

definition reads_as_env :: "string \<Rightarrow> bool" where
  "reads_as_env s \<longleftrightarrow> list_ex (\<lambda>name. prefix (name @ ''='') s) (LINK_ENV_KEYED @ APPLE_ENV_KEYED)"

lemma link_env_names: "fst ` set (link_env env) \<subseteq> set (LINK_ENV_KEYED @ APPLE_ENV_KEYED)"
proof -
  have "fst ` set (foldl (\<lambda>m (name, value). bt_insert name value m) m kvs) = fst ` set m \<union> fst ` set kvs"
    for m kvs :: "(string \<times> string) list"
    by (induction kvs arbitrary: m) (simp_all add: case_prod_beta fst_set_bt_insert)
  moreover have "fst ` set (keyed_link_env env) \<subseteq> set (LINK_ENV_KEYED @ APPLE_ENV_KEYED)"
    by (auto simp: keyed_link_env_def collect_link_table_def collect_def List.map_filter_def split: option.splits)
  ultimately show ?thesis by (auto simp: link_env_def)
qed

lemma link_env_reads: "list_all reads_as_env (map env_text (link_env env))"
proof -
  have "reads_as_env (env_text kv)" if "kv \<in> set (link_env env)" for kv
    using that link_env_names [of env] unfolding reads_as_env_def env_text_def list_ex_iff
    by (intro bexI [of _ "fst kv"]) auto
  then show ?thesis by (simp add: list_all_iff)
qed

lemma link_env_text_inj: "CHR ''='' \<notin> set k \<Longrightarrow> CHR ''='' \<notin> set k' \<Longrightarrow> env_text (k, v) = env_text (k', v') \<Longrightarrow> k = k' \<and> v = v'"
proof (induction k arbitrary: k')
  case Nil
  then show ?case by (cases k') (auto simp: env_text_def)
next
  case (Cons c k)
  then show ?case by (cases k') (auto simp: env_text_def)
qed

lemma link_env_texts:
  assumes "map env_text (link_env env) = map env_text (link_env env')"
  shows "link_env env = link_env env'"
proof -
  have "list_all (\<lambda>n. CHR ''='' \<notin> set n) (LINK_ENV_KEYED @ APPLE_ENV_KEYED)" by (simp add: LINK_ENV_KEYED_def APPLE_ENV_KEYED_def)
  then have n: "CHR ''='' \<notin> set k" if "(k, v) \<in> set (link_env e)" for k v e
    using that link_env_names [of e] by (auto simp: list_all_iff image_iff subset_iff)
  have "inj_on env_text (set (link_env env) \<union> set (link_env env'))"
  proof (rule inj_onI)
    fix x y assume "x \<in> set (link_env env) \<union> set (link_env env')" "y \<in> set (link_env env) \<union> set (link_env env')" "env_text x = env_text y"
    with link_env_text_inj [of "fst x" "fst y" "snd x" "snd y"] n [of "fst x" "snd x"] n [of "fst y" "snd y"] show "x = y"
      by (auto simp: prod_eq_iff)
  qed
  from map_inj_on [OF assms this] show ?thesis .
qed

lemma append_split:
  assumes "xs @ ys = xs' @ ys'" and "list_all (\<lambda>x. \<not> P x) (xs @ xs')" and "list_all P ys" and "list_all P ys'"
  shows "xs = xs' \<and> ys = ys'"
proof -
  have "takeWhile (\<lambda>x. \<not> P x) (us @ vs) = us" if "list_all (\<lambda>x. \<not> P x) us" "list_all P vs" for us vs
    using that by (cases vs) (auto simp: takeWhile_append list_all_iff)
  with assms have "xs = xs'" by (metis list_all_append)
  with assms(1) show ?thesis by simp
qed

lemma split_on_not_Nil: "split_on c s \<noteq> []"
  by (induction s) (auto split: list.splits)

lemma join_split: "join_with c (split_on c s) = s"
proof (induction s)
  case (Cons x s)
  obtain p ps where p: "split_on c s = p # ps" using split_on_not_Nil [of c s] by (cases "split_on c s") auto
  from Cons p show ?case by (cases ps) auto
qed simp

lemma normalize_no_root:
  "normalize_wl_parts None ps = ps" "normalize_link_cache_flag_for_key f None = f" "normalize_link_flags b None fs = fs"
proof -
  show wl: "normalize_wl_parts None ps = ps" for ps
    by (induction "None :: string option" ps rule: normalize_wl_parts.induct)
       (auto simp: normalize_link_path_value_for_key_def normalize_link_flag_atom_for_key_def split: list.splits)
  show f: "normalize_link_cache_flag_for_key f None = f" for f
    using split_on_not_Nil [of "CHR '',''" f] join_split [of "CHR '',''" f]
    by (auto simp: normalize_link_cache_flag_for_key_def normalize_wl_flag_for_key_def normalize_link_flag_atom_for_key_def wl
        split: list.splits)
  show "normalize_link_flags b None fs = fs"
    by (induction fs arbitrary: b) (auto simp: f normalize_link_path_value_for_key_def)
qed

lemma plan_no_root:
  "build_link_path_remap_key_plan is_file flags cwd None = \<lparr> lp_flags = flags, lp_extra_input_files = [], lp_root_specific = False \<rparr>"
  by (simp add: build_link_path_remap_key_plan_def normalize_link_cache_flags_for_key_def normalize_no_root)

lemma add_inputs_some:
  "add_inputs hs b = Some b' \<Longrightarrow> (\<exists>xs. hs = map Some xs \<and> b' = b\<lparr>lk_input_hashes := lk_input_hashes b @ xs\<rparr>)"
proof (induction hs b arbitrary: b' rule: add_inputs.induct)
  case (3 hash hs b)
  then obtain xs where "hs = map Some xs" "b' = (lk_input hash b)\<lparr>lk_input_hashes := lk_input_hashes (lk_input hash b) @ xs\<rparr>"
    by auto
  then show ?case by (intro exI [of _ "hash # xs"]) (simp add: lk_input_def)
qed auto

lemma fold_flags: "foldl (\<lambda>b flag. lk_flag flag b) b fs = b\<lparr>lk_flags := lk_flags b @ fs\<rparr>"
  by (induction fs arbitrary: b) (simp_all add: lk_flag_def)

lemma fold_env: "foldl (\<lambda>b (name, value). lk_env name value b) b es =
    b\<lparr>lk_env_vars := foldl (\<lambda>m (name, value). bt_insert name value m) (lk_env_vars b) es\<rparr>"
  by (induction es arbitrary: b) (auto simp: lk_env_def)

lemma builder_no_root:
  assumes "link_invocation_builder hash_of is_file tool flags input_files cwd None env = Some b"
  shows "lk_tool_id b = hash_of tool \<and> hash_of tool \<noteq> None \<and> lk_flags b = flags \<and> lk_env_vars b = link_env env \<and>
    map Some (lk_input_hashes b) =
      map (\<lambda>i. hash_of (if is_absolute i then i else Paths.normalize (path_join cwd i))) input_files"
proof -
  from assms obtain th where th: "hash_of tool = Some th"
    and r: "link_request_builder th None \<lparr> lp_flags = flags, lp_extra_input_files = [], lp_root_specific = False \<rparr> env
      (map hash_of (link_inputs cwd input_files \<lparr> lp_flags = flags, lp_extra_input_files = [], lp_root_specific = False \<rparr>)) = Some b"
    by (auto simp: link_invocation_builder_def plan_no_root Let_def split: option.splits)
  from r have "add_inputs (map hash_of (link_inputs cwd input_files \<lparr> lp_flags = flags, lp_extra_input_files = [], lp_root_specific = False \<rparr>))
      \<lparr> lk_tool_id = Some th, lk_flags = flags, lk_env_vars = link_env env, lk_input_hashes = [] \<rparr> = Some b"
    by (simp add: link_request_builder_def fold_flags fold_env lk_tool_def link_key_builder_new_def link_env_def)
  from add_inputs_some [OF this] th show ?thesis by (auto simp: link_inputs_def comp_def)
qed

text \<open>
  C17. A link key identifies the link.  For two requests without path remapping, with equally many
  inputs and a digest that does not collide on them, equal keys mean the same linker binary, input
  files with the same contents in the same order, and the same list of flags and keyed environment
  entries taken together (a flag \<^verbatim>\<open>LIB=x\<close> and a variable \<^verbatim>\<open>LIB\<close> with value \<^verbatim>\<open>x\<close> are not told apart).  When no
  flag reads as an entry of a keyed variable, the flags agree and the entries agree, each in order.
\<close>

theorem link_key_identifies:
  assumes "link_invocation_builder hash_of is_file tool flags inputs cwd None env = Some b"
    and "link_invocation_builder hash_of' is_file' tool' flags' inputs' cwd' None env' = Some b'"
    and "link_invocation_key h hash_of is_file tool flags inputs cwd None env = Some k"
    and "link_invocation_key h hash_of' is_file' tool' flags' inputs' cwd' None env' = Some k"
    and "inj_on h {link_preimage (the (hash_of tool)) b, link_preimage (the (hash_of' tool')) b'}"
    and "plain_builder b" and "plain_builder b'" and "length inputs = length inputs'"
    and "length (the (hash_of tool)) = 32" and "length (the (hash_of' tool')) = 32"
  shows "hash_of tool = hash_of' tool' \<and>
    flags @ map env_text (link_env env) = flags' @ map env_text (link_env env') \<and>
    (list_all (\<lambda>f. \<not> reads_as_env f) (flags @ flags') \<longrightarrow> flags = flags' \<and> link_env env = link_env env') \<and>
    map (\<lambda>i. hash_of (if is_absolute i then i else Paths.normalize (path_join cwd i))) inputs =
    map (\<lambda>i. hash_of' (if is_absolute i then i else Paths.normalize (path_join cwd' i))) inputs'"
proof -
  note b = builder_no_root [OF assms(1)] and b' = builder_no_root [OF assms(2)]
  from assms(1,3) b have k: "k = h (link_preimage (the (hash_of tool)) b)"
    by (auto simp: link_invocation_key_def lk_build_preimage)
  from assms(2,4) b' have k': "k = h (link_preimage (the (hash_of' tool')) b')"
    by (auto simp: link_invocation_key_def lk_build_preimage)
  then have "h (link_preimage (the (hash_of tool)) b) = h (link_preimage (the (hash_of' tool')) b')" using k by simp
  then have p: "link_preimage (the (hash_of tool)) b = link_preimage (the (hash_of' tool')) b'"
    by (rule inj_onD [OF assms(5)]) simp_all
  have l: "length (lk_input_hashes b) = length (lk_input_hashes b')"
    using b b' assms(8) by (metis length_map)
  have e: "the (hash_of tool) = the (hash_of' tool') \<and> key_texts b = key_texts b' \<and> lk_input_hashes b = lk_input_hashes b'"
    by (rule link_preimage_inj [OF p assms(9,10,6,7) l])
  have "hash_of tool = hash_of' tool'" using e b b' by (metis option.expand)
  moreover have f: "flags @ map env_text (link_env env) = flags' @ map env_text (link_env env')"
    using e b b' by (simp add: key_texts_def)
  moreover have "flags = flags' \<and> link_env env = link_env env'" if "list_all (\<lambda>f. \<not> reads_as_env f) (flags @ flags')"
    using append_split [OF f that link_env_reads link_env_reads] link_env_texts by blast
  moreover have "map (\<lambda>i. hash_of (if is_absolute i then i else Paths.normalize (path_join cwd i))) inputs =
    map (\<lambda>i. hash_of' (if is_absolute i then i else Paths.normalize (path_join cwd' i))) inputs'"
    using e b b' by metis
  ultimately show ?thesis by blast
qed


definition witness_hash :: "npath \<Rightarrow> content_hash option" where
  "witness_hash p = Some (replicate 32 (if p = ''/bin/ld'' then CHR ''L'' else CHR ''a''))"

theorem link_key_identifies_witness:
  "map (\<lambda>i. witness_hash (if is_absolute i then i else Paths.normalize (path_join ''/p'' i))) [''a.o''] =
   map (\<lambda>i. witness_hash (if is_absolute i then i else Paths.normalize (path_join ''/q'' i))) [''/r/b.o'']"
proof -
  let ?b = "\<lparr> lk_tool_id = Some (replicate 32 CHR ''L''), lk_flags = [''-shared''], lk_env_vars = [],
    lk_input_hashes = [replicate 32 CHR ''a''] \<rparr>"
  have n: "link_invocation_builder witness_hash (\<lambda>_. False) ''/bin/ld'' [''-shared''] [''a.o''] ''/p'' None [] = Some ?b"
    "link_invocation_builder witness_hash (\<lambda>_. False) ''/bin/ld'' [''-shared''] [''/r/b.o''] ''/q'' None [] = Some ?b"
    by code_simp+
  have k: "link_invocation_key (\<lambda>x. x) witness_hash (\<lambda>_. False) ''/bin/ld'' [''-shared''] [''a.o''] ''/p'' None [] = lk_build (\<lambda>x. x) ?b"
    "link_invocation_key (\<lambda>x. x) witness_hash (\<lambda>_. False) ''/bin/ld'' [''-shared''] [''/r/b.o''] ''/q'' None [] = lk_build (\<lambda>x. x) ?b"
    by (simp_all only: link_invocation_key_def n Option.bind.simps)
  obtain key where key: "lk_build (\<lambda>x. x) ?b = Some key" by (simp add: lk_build_def)
  have "plain_builder ?b" by (simp add: plain_builder_def key_texts_def)
  from link_key_identifies [OF n k(1) [unfolded key] k(2) [unfolded key] _ this this]
  show ?thesis by (simp add: witness_hash_def)
qed

text \<open>The key of a parsed command.\<close>

definition link_command_key ::
    "digest \<Rightarrow> (npath \<Rightarrow> content_hash option) \<Rightarrow> (string \<Rightarrow> bool) \<Rightarrow> string \<Rightarrow> string option \<Rightarrow> environment \<Rightarrow> parsed_link \<Rightarrow>
       content_hash option" where
  "link_command_key h hash_of is_file cwd key_root env parsed =
     (case parsed of
        Inl _ \<Rightarrow> None
      | Inr l \<Rightarrow> link_invocation_key h hash_of is_file (cl_tool l) (cl_cache_relevant_flags l) (cl_input_files l) cwd key_root env)"

text \<open>
  C37. What a link key misses.  A compiler driver that compiles and links at once gets the same key
  whatever the source file is called or contains, and a linker script passed to the driver is not
  keyed either, although both commands are classified as cacheable links; and because flags and
  inputs are keyed in two separate lists, moving a library out of a
  \<^verbatim>\<open>--whole-archive\<close> region does not change the key.
\<close>

theorem link_key_blind_spots:
  "is_link_invocation expand ''gcc'' [''main.c'', ''util.o'', ''-o'', ''app''] \<and>
   (\<exists>l. parse_linker_invocation upper ''gcc'' [''main.c'', ''util.o'', ''-o'', ''app''] = Inr l) \<and>
   link_command_key h hash_of is_file cwd root env (parse_linker_invocation upper ''gcc'' [''main.c'', ''util.o'', ''-o'', ''app'']) =
   link_command_key h hash_of is_file cwd root env (parse_linker_invocation upper ''gcc'' [''other.c'', ''util.o'', ''-o'', ''app'']) \<and>
   link_command_key h hash_of is_file cwd root env (parse_linker_invocation upper ''gcc'' [''-T'', ''a.ld'', ''fw.o'', ''-o'', ''fw'']) =
   link_command_key h hash_of is_file cwd root env (parse_linker_invocation upper ''gcc'' [''-T'', ''b.ld'', ''fw.o'', ''-o'', ''fw'']) \<and>
   link_command_key h hash_of is_file cwd root env
     (parse_linker_invocation upper ''ld'' [''--whole-archive'', ''a.a'', ''--no-whole-archive'', ''b.a'', ''-o'', ''x'']) =
   link_command_key h hash_of is_file cwd root env
     (parse_linker_invocation upper ''ld'' [''--whole-archive'', ''--no-whole-archive'', ''a.a'', ''b.a'', ''-o'', ''x''])"
proof -
  have d: "detect_family ''gcc'' = None" "is_compiler_driver ''gcc''" "detect_family ''ld'' = Some Ld" by code_simp+
  have s: "driver_loop [''main.c'', ''util.o'', ''-o'', ''app''] (False, gnu_ld_start) =
      driver_loop [''other.c'', ''util.o'', ''-o'', ''app''] (False, gnu_ld_start)" by code_simp
  have t: "driver_loop [''-T'', ''a.ld'', ''fw.o'', ''-o'', ''fw''] (False, gnu_ld_start) =
      driver_loop [''-T'', ''b.ld'', ''fw.o'', ''-o'', ''fw''] (False, gnu_ld_start)" by code_simp
  have w: "gnu_ld_loop [''--whole-archive'', ''a.a'', ''--no-whole-archive'', ''b.a'', ''-o'', ''x''] gnu_ld_start =
      gnu_ld_loop [''--whole-archive'', ''--no-whole-archive'', ''a.a'', ''b.a'', ''-o'', ''x''] gnu_ld_start" by code_simp
  have c: "parse_compiler_driver_link ''gcc'' [''main.c'', ''util.o'', ''-o'', ''app''] \<noteq> Inl r" for r
  proof -
    have "case parse_compiler_driver_link ''gcc'' [''main.c'', ''util.o'', ''-o'', ''app''] of Inl _ \<Rightarrow> False | Inr _ \<Rightarrow> True" by code_simp
    then show ?thesis by auto
  qed
  show ?thesis
  proof (intro conjI)
    show "is_link_invocation expand ''gcc'' [''main.c'', ''util.o'', ''-o'', ''app'']"
      by (simp add: is_link_invocation_def d)
    show "\<exists>l. parse_linker_invocation upper ''gcc'' [''main.c'', ''util.o'', ''-o'', ''app''] = Inr l"
      using c by (simp add: parse_linker_invocation_def d) (metis sumE)
  qed (simp_all add: parse_linker_invocation_def d link_command_key_def parse_compiler_driver_link_def parse_gnu_ld_def s t w
      Let_def split: prod.splits option.splits del: driver_loop.simps gnu_ld_loop.simps)
qed

end
