(* ===== verification/OutDir.thy ===== *)
theory OutDir
  imports DepGraph LinkParse
begin

text \<open>
  The value of an environment variable a Rust compile has read, as it enters the artifact key
  (\<^verbatim>\<open>crates/zccache-daemon-core/src/daemon/server/out_dir.rs\<close> with the lookups of the client
  environment in \<^verbatim>\<open>keys.rs\<close>).  For every variable but \<^verbatim>\<open>OUT_DIR\<close> it is the value itself; for
  \<^verbatim>\<open>OUT_DIR\<close> it may be a text that does not depend on where the checkout lies, when the compiler's
  outputs prove that the path was only used to find inputs, or when the crate is one of three audited
  releases.  The files, SHA-256 and the digest of a source tree are arguments.
\<close>

subsection \<open>The environment of a request\<close>

type_synonym client_env = "environment option"

definition client_env_value :: "client_env \<Rightarrow> string \<Rightarrow> string option" where
  "client_env_value client_env name =
     (case client_env of
        None \<Rightarrow> None
      | Some env \<Rightarrow>
          (case map_of env name of
             None \<Rightarrow> None
           | Some v \<Rightarrow> if v = [] then None else Some v))"

definition DYLINT_LIBS_ENV :: string where "DYLINT_LIBS_ENV = ''DYLINT_LIBS''"

definition rustc_env_dep_value :: "client_env \<Rightarrow> string \<Rightarrow> string option" where
  "rustc_env_dep_value client_env name =
     (case client_env of
        None \<Rightarrow> None
      | Some env \<Rightarrow>
          (case (if name = DYLINT_LIBS_ENV then map_of env DYLINT_CACHE_INPUT_HASH_ENV else None) of
             Some value \<Rightarrow> Some value
           | None \<Rightarrow> map_of env name))"

definition PATH_REMAP_ENV :: string where "PATH_REMAP_ENV = ''ZCCACHE_PATH_REMAP''"

definition path_remap_auto_enabled :: "client_env \<Rightarrow> bool" where
  "path_remap_auto_enabled client_env \<longleftrightarrow>
     (case client_env_value client_env PATH_REMAP_ENV of
        None \<Rightarrow> False
      | Some value \<Rightarrow> eq_ignore_ascii_case value ''auto'')"

subsection \<open>Audited releases\<close>

datatype source_attestation = Listed "(string \<times> string) list" | RustTreeSha256 string

record path_only_certificate =
  po_package_name :: string
  po_version :: string
  po_sources :: source_attestation
  po_generated_name :: string
  po_generated_sha256 :: string
  po_required_includes :: "string list"
  po_cache_value :: string

definition LIBSQLITE3_SYS_SOURCES :: "(string \<times> string) list" where
  "LIBSQLITE3_SYS_SOURCES =
     [(''src/lib.rs'', ''7efb61223be16f97bb65c4541e0c37b97c624b06356d18041654e30b27fb4114''),
      (''src/error.rs'', ''c09656237b7e51eec9cac261de83555e60c401071eeaecb7649f8e94b769c156''),
      (''build.rs'', ''11bebc3787657749279375ab2e875e52259f995dce8916b4907103975e2a76ee'')]"

definition PATH_ONLY_OUT_DIR_VALUE :: string where
  "PATH_ONLY_OUT_DIR_VALUE = ''zccache:path-only-out-dir:libsqlite3-sys-0.30.1:v1''"

definition LIBSQLITE3_SYS_CERTIFICATE :: path_only_certificate where
  "LIBSQLITE3_SYS_CERTIFICATE =
     \<lparr> po_package_name = ''libsqlite3-sys'', po_version = ''0.30.1'', po_sources = Listed LIBSQLITE3_SYS_SOURCES,
       po_generated_name = ''bindgen.rs'',
       po_generated_sha256 = ''8a77e8d566d1637a551ab4e35837e016f6132aa64e9c92fd07b1039898734559'',
       po_required_includes = [''src/error.rs''], po_cache_value = PATH_ONLY_OUT_DIR_VALUE \<rparr>"

definition SERDE_CORE_CERTIFICATE :: path_only_certificate where
  "SERDE_CORE_CERTIFICATE =
     \<lparr> po_package_name = ''serde_core'', po_version = ''1.0.228'',
       po_sources = RustTreeSha256 ''cee65f0f50fc6839a93d386652a2c5b75ad44df80c80541b9dba892749042ba1'',
       po_generated_name = ''private.rs'',
       po_generated_sha256 = ''27ad1b5fb4eebeb1da6419cbfad3ac1922ed1d817fcbab0a1dae1bdfd38d8307'',
       po_required_includes = [], po_cache_value = ''zccache:path-only-out-dir:serde_core-1.0.228:v1'' \<rparr>"

definition SERDE_CERTIFICATE :: path_only_certificate where
  "SERDE_CERTIFICATE =
     \<lparr> po_package_name = ''serde'', po_version = ''1.0.228'',
       po_sources = RustTreeSha256 ''1e12c2c58a2c172af6b651a6e10e1837259adffdb3e4f44fdab39123562b540b'',
       po_generated_name = ''private.rs'',
       po_generated_sha256 = ''f8e9470772811a1bdcd201fb21e14cbf37a57d192b38cd98f66bd4a83442c26b'',
       po_required_includes = [], po_cache_value = ''zccache:path-only-out-dir:serde-1.0.228:v1'' \<rparr>"

definition CERTIFICATES :: "path_only_certificate list" where
  "CERTIFICATES = [LIBSQLITE3_SYS_CERTIFICATE, SERDE_CORE_CERTIFICATE, SERDE_CERTIFICATE]"

text \<open>
  The files a certificate is checked against: reading a file, the SHA-256 of its bytes in hexadecimal,
  and the digest of all Rust sources below a directory, which fails on links and unreadable files.
\<close>

record attested_files =
  af_read :: "string \<Rightarrow> string option"
  af_sha256 :: "string \<Rightarrow> string"
  af_tree_sha256 :: "string \<Rightarrow> string option"

definition sources_attested :: "attested_files \<Rightarrow> string \<Rightarrow> source_attestation \<Rightarrow> bool" where
  "sources_attested fs manifest sources =
     (case sources of
        Listed files \<Rightarrow>
          list_all (\<lambda>(relative, digest). map_option (af_sha256 fs) (af_read fs (path_join manifest relative)) = Some digest)
            files
      | RustTreeSha256 expected \<Rightarrow> af_tree_sha256 fs manifest = Some expected)"

definition include_attested :: "string \<Rightarrow> source_attestation \<Rightarrow> npath \<Rightarrow> bool" where
  "include_attested manifest sources inc =
     (case sources of
        Listed files \<Rightarrow> list_ex (\<lambda>(relative, _). inc = normalize (path_join manifest relative)) files
      | RustTreeSha256 _ \<Rightarrow>
          (case path_strip_prefix inc manifest of
             None \<Rightarrow> False
           | Some relative \<Rightarrow>
               path_extension relative = Some ''rs'' \<and>
               \<not> list_ex (\<lambda>c. c = Normal ''target'' \<or> c = Normal ''.git'') (path_components relative)))"

definition FORBIDDEN_TEXTS :: "string list" where
  "FORBIDDEN_TEXTS = [''OUT_DIR'', ''env!'', ''option_env!'', ''include!'', ''include_str!'', ''include_bytes!'', ''macro_rules!'']"

definition path_only_certificate_matches ::
    "attested_files \<Rightarrow> client_env \<Rightarrow> string \<Rightarrow> npath list \<Rightarrow> path_only_certificate \<Rightarrow> bool" where
  "path_only_certificate_matches fs client_env source_path resolved_includes certificate =
     (path_remap_auto_enabled client_env \<and>
      client_env_value client_env ''CARGO_PKG_NAME'' = Some (po_package_name certificate) \<and>
      client_env_value client_env ''CARGO_PKG_VERSION'' = Some (po_version certificate) \<and>
      (case client_env_value client_env ''CARGO_MANIFEST_DIR'' of
         None \<Rightarrow> False
       | Some manifest \<Rightarrow>
           is_absolute manifest \<and>
           normalize source_path = normalize (path_join manifest ''src/lib.rs'') \<and>
           sources_attested fs manifest (po_sources certificate) \<and>
           (case rustc_env_dep_value client_env ''OUT_DIR'' of
              None \<Rightarrow> False
            | Some out_dir \<Rightarrow>
                is_absolute out_dir \<and>
                (let generated = path_join out_dir (po_generated_name certificate);
                     generated_path = normalize generated
                 in generated_path \<in> set resolved_includes \<and>
                    list_all (\<lambda>inc. inc = generated_path \<or> include_attested manifest (po_sources certificate) inc)
                      resolved_includes \<and>
                    list_all (\<lambda>relative. normalize (path_join manifest relative) \<in> set resolved_includes)
                      (po_required_includes certificate) \<and>
                    (case af_read fs generated of
                       None \<Rightarrow> False
                     | Some generated_bytes \<Rightarrow>
                         af_sha256 fs generated_bytes = po_generated_sha256 certificate \<and>
                         list_all (\<lambda>forbidden. find_substring forbidden generated_bytes = None) FORBIDDEN_TEXTS)))))"

definition matching_certificate ::
    "attested_files \<Rightarrow> client_env \<Rightarrow> string \<Rightarrow> npath list \<Rightarrow> path_only_certificate option" where
  "matching_certificate fs client_env source_path resolved_includes =
     find (path_only_certificate_matches fs client_env source_path resolved_includes) CERTIFICATES"

subsection \<open>The value in the key\<close>

definition rustc_env_dep_cache_value ::
    "attested_files \<Rightarrow> client_env \<Rightarrow> string \<Rightarrow> string \<Rightarrow> npath list \<Rightarrow> string option" where
  "rustc_env_dep_cache_value fs client_env name source_path resolved_includes =
     (case (if name = ''OUT_DIR'' then matching_certificate fs client_env source_path resolved_includes else None) of
        Some certificate \<Rightarrow> Some (po_cache_value certificate)
      | None \<Rightarrow> rustc_env_dep_value client_env name)"

definition ROOT_RELATIVE_OUT_DIR_PREFIX :: string where
  "ROOT_RELATIVE_OUT_DIR_PREFIX = ''zccache:root-relative-out-dir:v1:''"

definition root_relative_out_dir_value :: "client_env \<Rightarrow> string option \<Rightarrow> string option" where
  "root_relative_out_dir_value client_env key_root =
     (if \<not> path_remap_auto_enabled client_env then None
      else (case rustc_env_dep_value client_env ''OUT_DIR'' of
        None \<Rightarrow> None
      | Some out_dir \<Rightarrow>
          if \<not> is_absolute out_dir then None
          else (case key_root of
            None \<Rightarrow> None
          | Some root \<Rightarrow>
              (case path_strip_prefix out_dir root of
                 None \<Rightarrow> None
               | Some relative \<Rightarrow>
                   (let relative = normalize_for_key relative
                    in if relative = [] then None else Some (ROOT_RELATIVE_OUT_DIR_PREFIX @ relative))))))"

text \<open>The files a compile wrote, but for its dependency information, in both spellings of the slash.\<close>

definition outputs_omit_text :: "attested_files \<Rightarrow> npath list \<Rightarrow> string \<Rightarrow> bool" where
  "outputs_omit_text fs outputs txt =
     (if txt = [] \<or> outputs = [] then False
      else (let forward = map (\<lambda>c. if c = CHR 0x5C then CHR ''/'' else c) txt;
                spellings = (if forward = txt then [txt] else [txt, forward])
            in list_all (\<lambda>out. case af_read fs out of
                   None \<Rightarrow> False
                 | Some bytes \<Rightarrow> list_all (\<lambda>s. find_substring s bytes = None) spellings)
               (filter (\<lambda>out. path_extension out \<noteq> Some ''d'') outputs)))"

definition rustc_env_dep_store_value ::
    "attested_files \<Rightarrow> client_env \<Rightarrow> string \<Rightarrow> string \<Rightarrow> npath list \<Rightarrow> string option \<Rightarrow> npath list \<Rightarrow> string option" where
  "rustc_env_dep_store_value fs client_env name source_path resolved_includes key_root outputs =
     (let fallback = rustc_env_dep_cache_value fs client_env name source_path resolved_includes
      in if name = ''OUT_DIR'' \<and> matching_certificate fs client_env source_path resolved_includes = None
         then (case root_relative_out_dir_value client_env key_root of
           None \<Rightarrow> fallback
         | Some candidate \<Rightarrow>
             (let physical = (case rustc_env_dep_value client_env ''OUT_DIR'' of Some d \<Rightarrow> d | None \<Rightarrow> [])
              in if outputs_omit_text fs outputs physical then Some candidate else fallback))
         else fallback)"

definition rustc_env_dep_lookup_value ::
    "attested_files \<Rightarrow> string option \<Rightarrow> client_env \<Rightarrow> string \<Rightarrow> string \<Rightarrow> npath list \<Rightarrow> string option" where
  "rustc_env_dep_lookup_value fs recorded_out_dir client_env name source_path resolved_includes =
     (case (if name = ''OUT_DIR'' then recorded_out_dir else None) of
        Some candidate \<Rightarrow> Some candidate
      | None \<Rightarrow> rustc_env_dep_cache_value fs client_env name source_path resolved_includes)"

definition recorded_root_relative_out_dir :: "digest \<Rightarrow> dep_graph \<Rightarrow> context_key \<Rightarrow> client_env \<Rightarrow> string option" where
  "recorded_root_relative_out_dir h g context_key client_env =
     (case get_key_root g context_key of
        None \<Rightarrow> None
      | Some key_root \<Rightarrow>
          (case root_relative_out_dir_value client_env (Some key_root) of
             None \<Rightarrow> None
           | Some candidate \<Rightarrow>
               (case get_rustc_env_deps g context_key of
                  None \<Rightarrow> None
                | Some deps \<Rightarrow>
                    (case map_of deps ''OUT_DIR'' of
                       Some (Some recorded) \<Rightarrow>
                         if hash_env_dep_value h (Some candidate) = Some recorded then Some candidate else None
                     | _ \<Rightarrow> None))))"

record certified_out_dir =
  co_path :: string
  co_generated_name :: "string option"

definition certified_rustc_out_dir ::
    "digest \<Rightarrow> attested_files \<Rightarrow> dep_graph \<Rightarrow> context_key \<Rightarrow> client_env \<Rightarrow> string \<Rightarrow> certified_out_dir option" where
  "certified_rustc_out_dir h fs g context_key client_env source_path =
     (case rustc_env_dep_value client_env ''OUT_DIR'' of
        None \<Rightarrow> None
      | Some path \<Rightarrow>
          if recorded_root_relative_out_dir h g context_key client_env \<noteq> None
          then Some \<lparr> co_path = path, co_generated_name = None \<rparr>
          else (case get_includes g context_key of
            None \<Rightarrow> None
          | Some includes \<Rightarrow>
              (case matching_certificate fs client_env source_path includes of
                 None \<Rightarrow> None
               | Some certificate \<Rightarrow>
                   Some \<lparr> co_path = path, co_generated_name = Some (po_generated_name certificate) \<rparr>)))"

subsection \<open>Sharing between locations\<close>

lemma certificate_listed:
  "matching_certificate fs env src incs = Some c \<Longrightarrow>
     c \<in> set CERTIFICATES \<and> path_only_certificate_matches fs env src incs c"
  unfolding matching_certificate_def by (simp add: find_Some_iff) (metis nth_mem)

lemma cache_values_shape: "list_all (\<lambda>c. take 17 (po_cache_value c) = ''zccache:path-only'') CERTIFICATES"
  by code_simp

lemma cache_values_distinct: "distinct (map po_cache_value CERTIFICATES)"
  by code_simp

lemma root_relative_shape:
  "root_relative_out_dir_value env root = Some v \<Longrightarrow>
     take 17 v = ''zccache:root-rela'' \<and> (\<exists>d. rustc_env_dep_value env ''OUT_DIR'' = Some d)"
  by (auto simp: root_relative_out_dir_value_def ROOT_RELATIVE_OUT_DIR_PREFIX_def Let_def split: if_splits option.splits)

text \<open>The three kinds of value start differently, so a value tells its kind.\<close>

lemma store_cases:
  assumes "rustc_env_dep_store_value fs env ''OUT_DIR'' src incs root outs = Some v"
  obtains (rooted) d where "root_relative_out_dir_value env root = Some v" "rustc_env_dep_value env ''OUT_DIR'' = Some d"
      "outputs_omit_text fs outs d"
    | (audited) c where "matching_certificate fs env src incs = Some c" "v = po_cache_value c"
    | (physical) "rustc_env_dep_value env ''OUT_DIR'' = Some v"
proof (cases "matching_certificate fs env src incs")
  case (Some c)
  with assms audited show thesis
    by (simp add: rustc_env_dep_store_value_def rustc_env_dep_cache_value_def)
next
  case none: None
  then have fb: "rustc_env_dep_cache_value fs env ''OUT_DIR'' src incs = rustc_env_dep_value env ''OUT_DIR''"
    by (simp add: rustc_env_dep_cache_value_def)
  show thesis
  proof (cases "root_relative_out_dir_value env root")
    case None
    with assms none fb physical show thesis by (simp add: rustc_env_dep_store_value_def)
  next
    case (Some candidate)
    with root_relative_shape obtain d where d: "rustc_env_dep_value env ''OUT_DIR'' = Some d" by blast
    with assms none fb Some have "v = (if outputs_omit_text fs outs d then candidate else d)"
      by (simp add: rustc_env_dep_store_value_def split: if_splits)
    with Some d rooted physical show thesis by (cases "outputs_omit_text fs outs d") simp_all
  qed
qed

lemma lookup_cases:
  assumes "rustc_env_dep_lookup_value fs (recorded_root_relative_out_dir h g key env) env ''OUT_DIR'' src incs = Some v"
  obtains (rooted) root where "get_key_root g key = Some root" "root_relative_out_dir_value env (Some root) = Some v"
    | (audited) c where "matching_certificate fs env src incs = Some c" "v = po_cache_value c"
    | (physical) "rustc_env_dep_value env ''OUT_DIR'' = Some v"
proof (cases "recorded_root_relative_out_dir h g key env")
  case None
  with assms audited physical show thesis
    by (cases "matching_certificate fs env src incs")
       (simp_all add: rustc_env_dep_lookup_value_def rustc_env_dep_cache_value_def)
next
  case (Some candidate)
  with assms have "candidate = v" by (simp add: rustc_env_dep_lookup_value_def)
  with Some rooted show thesis
    by (auto simp: recorded_root_relative_out_dir_def split: option.splits if_splits)
qed

lemma store_unset:
  "rustc_env_dep_store_value fs env ''OUT_DIR'' src incs root outs = None \<Longrightarrow> rustc_env_dep_value env ''OUT_DIR'' = None"
  by (auto simp: rustc_env_dep_store_value_def rustc_env_dep_cache_value_def Let_def split: if_splits option.splits)

lemma lookup_unset:
  "rustc_env_dep_lookup_value fs r env ''OUT_DIR'' src incs = None \<Longrightarrow> rustc_env_dep_value env ''OUT_DIR'' = None"
  by (auto simp: rustc_env_dep_lookup_value_def rustc_env_dep_cache_value_def split: option.splits)

lemma value_kind:
  "root_relative_out_dir_value env root = Some v \<Longrightarrow> take 17 v = ''zccache:root-rela''"
  "matching_certificate fs env src incs = Some c \<Longrightarrow> take 17 (po_cache_value c) = ''zccache:path-only''"
  "is_absolute v \<Longrightarrow> take 17 v \<noteq> ''zccache:root-rela'' \<and> take 17 v \<noteq> ''zccache:path-only''"
  using root_relative_shape [of env root v] certificate_listed [of fs env src incs c] cache_values_shape
  by (auto simp: list_all_iff is_absolute_def take_Suc slash_def neq_Nil_conv)

subsection \<open>Property\<close>

lemma env_dep_hash_inj:
  "hash_env_dep_value h v' = hash_env_dep_value h v \<Longrightarrow> inj_on h (set_option v \<union> set_option v') \<Longrightarrow> v' = v"
  by (cases v; cases v') (auto simp: hash_env_dep_value_def dest: inj_onD)

text \<open>
  C29. An artifact that read \<^verbatim>\<open>OUT_DIR\<close> is served to another location only when that is proved harmless:
  when the value of a request agrees with the recorded one, the physical directories are the same, or
  both lie at the same place below their checkout and no output of the recorded compile contains the
  directory, or both requests compile the same audited release.
\<close>

theorem out_dir_sharing_justified:
  assumes stored: "rustc_env_dep_store_value fs env ''OUT_DIR'' src incs root outs = v"
    and found: "rustc_env_dep_lookup_value fs' (recorded_root_relative_out_dir h g key env') env' ''OUT_DIR'' src' incs' = v'"
    and same: "hash_env_dep_value h v' = hash_env_dep_value h v"
    and inj: "inj_on h (set_option v \<union> set_option v')"
    and abs: "\<forall>e \<in> {env, env'}. \<forall>d. rustc_env_dep_value e ''OUT_DIR'' = Some d \<longrightarrow> is_absolute d"
  shows "rustc_env_dep_value env' ''OUT_DIR'' = rustc_env_dep_value env ''OUT_DIR'' \<or>
    (\<exists>d root'. rustc_env_dep_value env ''OUT_DIR'' = Some d \<and> outputs_omit_text fs outs d \<and> get_key_root g key = Some root' \<and>
       root_relative_out_dir_value env' (Some root') = root_relative_out_dir_value env root \<and>
       root_relative_out_dir_value env root = v) \<or>
    (\<exists>c \<in> set CERTIFICATES. path_only_certificate_matches fs env src incs c \<and>
       path_only_certificate_matches fs' env' src' incs' c)"
proof (cases v)
  case None
  with env_dep_hash_inj [OF same inj] stored found show ?thesis by (simp add: store_unset lookup_unset)
next
  case (Some w)
  with env_dep_hash_inj [OF same inj] have v': "v' = Some w" by simp
  have kinds: "take 17 w = ''zccache:root-rela''" if "root_relative_out_dir_value e r = Some w" for e r
    using value_kind(1) that by blast
  have slashes: "take 17 w \<noteq> ''zccache:root-rela'' \<and> take 17 w \<noteq> ''zccache:path-only''" if "rustc_env_dep_value e ''OUT_DIR'' = Some w" "e \<in> {env, env'}" for e
    using value_kind(3) that abs by blast
  have audit: "take 17 w = ''zccache:path-only''" if "matching_certificate f e s i = Some c" "w = po_cache_value c" for f e s i c
    using value_kind(2) that by blast
  have unique: "inj_on po_cache_value (set CERTIFICATES)" using cache_values_distinct by (simp only: distinct_map)
  show ?thesis
  proof (rule store_cases [OF stored [unfolded Some]])
    fix d
    assume st: "root_relative_out_dir_value env root = Some w" "rustc_env_dep_value env ''OUT_DIR'' = Some d"
      "outputs_omit_text fs outs d"
    show ?thesis
    proof (rule lookup_cases [OF found [unfolded v']])
      fix r
      assume "get_key_root g key = Some r" "root_relative_out_dir_value env' (Some r) = Some w"
      with st Some show ?thesis by simp
    qed (use kinds [OF st(1)] audit slashes [of env'] in auto)
  next
    fix c
    assume st: "matching_certificate fs env src incs = Some c" "w = po_cache_value c"
    show ?thesis
    proof (rule lookup_cases [OF found [unfolded v']])
      fix c'
      assume "matching_certificate fs' env' src' incs' = Some c'" "w = po_cache_value c'"
      with inj_onD [OF unique, of c c'] st certificate_listed [of fs env src incs c]
        certificate_listed [of fs' env' src' incs' c'] show ?thesis by blast
    qed (use audit [OF st] kinds slashes [of env'] in auto)
  next
    assume st: "rustc_env_dep_value env ''OUT_DIR'' = Some w"
    show ?thesis
    proof (rule lookup_cases [OF found [unfolded v']])
      assume "rustc_env_dep_value env' ''OUT_DIR'' = Some w"
      with st show ?thesis by simp
    qed (use slashes [OF st] kinds audit in auto)
  qed
qed

definition demo_out_env :: "string \<Rightarrow> client_env" where
  "demo_out_env root = Some [(''ZCCACHE_PATH_REMAP'', ''auto''), (''OUT_DIR'', root @ ''/target/o'')]"

definition demo_out_files :: attested_files where
  "demo_out_files = \<lparr> af_read = (\<lambda>p. if p = ''/a/x.rlib'' then Some ''code'' else None), af_sha256 = (\<lambda>s. s), af_tree_sha256 = (\<lambda>_. None) \<rparr>"

definition demo_out_graph :: dep_graph where
  "demo_out_graph = dep_graph_new\<lparr>dg_contexts :=
     [(''K'', (cold_entry ''K'' sample_context (Some ''/b'') 0)
        \<lparr>ce_rustc_env_deps := [(''OUT_DIR'', Some ''zccache:root-relative-out-dir:v1:target/o'')]\<rparr>)]\<rparr>"

lemma demo_out_values:
  "rustc_env_dep_store_value demo_out_files (demo_out_env ''/a'') ''OUT_DIR'' ''/a/l.rs'' [] (Some ''/a'') [''/a/x.rlib'', ''/a/x.d''] =
     Some ''zccache:root-relative-out-dir:v1:target/o''"
  "rustc_env_dep_lookup_value demo_out_files (recorded_root_relative_out_dir (\<lambda>s. s) demo_out_graph ''K'' (demo_out_env ''/b''))
     (demo_out_env ''/b'') ''OUT_DIR'' ''/b/l.rs'' [] = Some ''zccache:root-relative-out-dir:v1:target/o''"
  by code_simp+

lemma demo_out_dirs:
  "rustc_env_dep_value (demo_out_env ''/a'') ''OUT_DIR'' = Some ''/a/target/o''"
  "rustc_env_dep_value (demo_out_env ''/b'') ''OUT_DIR'' = Some ''/b/target/o''"
  by code_simp+

theorem out_dir_sharing_justified_witness:
  "outputs_omit_text demo_out_files [''/a/x.rlib'', ''/a/x.d''] ''/a/target/o'' \<or>
   (\<exists>c \<in> set CERTIFICATES. path_only_certificate_matches demo_out_files (demo_out_env ''/a'') ''/a/l.rs'' [] c)"
proof -
  have "inj_on (\<lambda>s. s) (set_option (Some ''zccache:root-relative-out-dir:v1:target/o'') \<union>
      set_option (Some ''zccache:root-relative-out-dir:v1:target/o''))" by (simp add: inj_on_def)
  from out_dir_sharing_justified [OF demo_out_values refl this] show ?thesis
    by (auto simp: demo_out_dirs is_absolute_def slash_def)
qed


end
