(* ===== verification/HashVerify.thy ===== *)
theory HashVerify
  imports HitSoundness CacheSystem Watcher IncludeScan OutDir
begin

text \<open>
  Deciding a compile request by content (\<^verbatim>\<open>hash_verify.rs\<close> of the request pipeline, the hashing
  helpers of \<^verbatim>\<open>util.rs\<close> and \<^verbatim>\<open>pch.rs\<close>, all in
  \<^verbatim>\<open>crates/zccache-daemon-core/src/daemon/server\<close>): the source is hashed through the cache system,
  then the recorded includes, forced includes and extern crates, and the dependency graph is asked for
  a verdict on these hashes.  The calls happen at times given by a schedule, so that files may change
  between any two of them; the files are hashed in the order of the list, and the timings the code
  collects are left out.
\<close>

subsection \<open>Hashing an input\<close>

definition path_for_cache_lookup :: "string \<Rightarrow> npath" where
  "path_for_cache_lookup path = Paths.normalize path"

definition hash_file ::
    "nat \<Rightarrow> digest \<Rightarrow> env \<Rightarrow> nat \<Rightarrow> string \<Rightarrow> clock \<Rightarrow> cache_system \<Rightarrow> cache_system \<times> (zc_error + content_hash)" where
  "hash_file tolerance_ns h env t path clock cs =
     (case lookup_since tolerance_ns h env t (path_for_cache_lookup path) clock cs of
        (cs, Inl e) \<Rightarrow> (cs, Inl e)
      | (cs, Inr r) \<Rightarrow> (cs, Inr (cl_hash r)))"

text \<open>The source header of a precompiled header: beside it, or below one of ten directories above it.\<close>

fun walk_up :: "(string \<Rightarrow> bool) \<Rightarrow> npath \<Rightarrow> nat \<Rightarrow> npath \<Rightarrow> npath option" where
  "walk_up path_exists relative 0 search = None"
| "walk_up path_exists relative (Suc n) search =
     (case path_parent search of
        None \<Rightarrow> None
      | Some up \<Rightarrow>
          (let candidate = path_join up relative
           in if path_exists candidate then Some (Paths.normalize candidate)
              else walk_up path_exists relative n (Paths.normalize up)))"

definition with_file_name :: "string \<Rightarrow> string \<Rightarrow> string" where
  "with_file_name p name =
     (if file_name p = None then path_join p name
      else path_join (collect_path (butlast (path_components p))) name)"

definition pch_source_header :: "(string \<Rightarrow> bool) \<Rightarrow> string \<Rightarrow> npath option" where
  "pch_source_header path_exists path =
     (case path_extension path of
        None \<Rightarrow> None
      | Some ext \<Rightarrow>
          if ext \<noteq> ''pch'' \<and> ext \<noteq> ''gch'' then None
          else (case file_stem path of
            None \<Rightarrow> None
          | Some header_name \<Rightarrow>
              (let sibling = with_file_name path header_name
               in if path_exists sibling then Some (Paths.normalize sibling)
                  else (case path_parent path of
                    None \<Rightarrow> None
                  | Some parent \<Rightarrow>
                      (case file_name parent of
                         None \<Rightarrow> None
                       | Some dir_name \<Rightarrow>
                           walk_up path_exists (Paths.normalize (path_join (Paths.normalize dir_name) header_name)) 10
                             (Paths.normalize parent))))))"

definition resolve_pch_source :: "(string \<Rightarrow> bool) \<Rightarrow> string \<Rightarrow> (npath, npath) dmap \<Rightarrow> npath option" where
  "resolve_pch_source path_exists path pch_map =
     (case dm_get pch_map (Paths.normalize path) of
        Some src \<Rightarrow> Some src
      | None \<Rightarrow> pch_source_header path_exists path)"

definition hash_dependency ::
    "nat \<Rightarrow> digest \<Rightarrow> env \<Rightarrow> nat \<Rightarrow> (string \<Rightarrow> bool) \<Rightarrow> (npath, npath) dmap \<Rightarrow> string \<Rightarrow> clock \<Rightarrow> cache_system \<Rightarrow>
       cache_system \<times> (zc_error + content_hash)" where
  "hash_dependency tolerance_ns h env t path_exists pch_map path clock cs =
     (case resolve_pch_source path_exists path pch_map of
        None \<Rightarrow> hash_file tolerance_ns h env t path clock cs
      | Some source_header \<Rightarrow>
          (case hash_file tolerance_ns h env t source_header clock cs of
             (cs, Inl e) \<Rightarrow> (cs, Inl e)
           | (cs, Inr header_hash) \<Rightarrow>
               (case hash_file tolerance_ns h env (t + 17) path clock cs of
                  (cs, Inl e) \<Rightarrow> (cs, Inl e)
                | (cs, Inr binary_hash) \<Rightarrow> (cs, Inr (h (header_hash @ binary_hash))))))"

subsection \<open>The verdict on a request\<close>

definition journal_proves_fresh :: "change_journal \<Rightarrow> npath \<Rightarrow> clock \<Rightarrow> bool" where
  "journal_proves_fresh journal path since \<longleftrightarrow>
     \<not> should_ignore \<lparr>if_patterns = default_patterns\<rparr> path \<and> \<not> changed_since journal path since"

record hash_verify_outcome =
  hv_hash_map :: "(npath, content_hash) dmap"
  hv_verdict :: cache_verdict
  hv_diag_reason :: string

datatype hash_source_outcome = Ready hash_verify_outcome | Fallback

text \<open>What a request reads of the host: the files, the digest and the audited sources.\<close>

record request_host =
  rh_tolerance :: nat
  rh_digest :: digest
  rh_env :: env
  rh_exists :: "string \<Rightarrow> bool"
  rh_attested :: attested_files

text \<open>The headers of a request, hashed one after the other, the \<open>i\<close>-th at time \<open>sched i\<close>; a failure is only logged.\<close>

fun hash_headers ::
    "request_host \<Rightarrow> (nat \<Rightarrow> nat) \<Rightarrow> (npath, npath) dmap \<Rightarrow> clock \<Rightarrow> npath list \<Rightarrow> nat \<Rightarrow> cache_system \<Rightarrow>
       (npath, content_hash) dmap \<Rightarrow> cache_system \<times> (npath, content_hash) dmap" where
  "hash_headers host sched pch_map clock [] i cs hash_map = (cs, hash_map)"
| "hash_headers host sched pch_map clock (header # rest) i cs hash_map =
     (case hash_dependency (rh_tolerance host) (rh_digest host) (rh_env host) (sched i) (rh_exists host) pch_map header clock cs of
        (cs, Inl e) \<Rightarrow> hash_headers host sched pch_map clock rest (i + 1) cs hash_map
      | (cs, Inr hash) \<Rightarrow> hash_headers host sched pch_map clock rest (i + 1) cs (dm_insert header hash hash_map))"

text \<open>The environment as the graph reads it during a check.\<close>

definition request_env_value ::
    "request_host \<Rightarrow> dep_graph \<Rightarrow> context_key \<Rightarrow> client_env \<Rightarrow> npath \<Rightarrow> string \<Rightarrow> string option" where
  "request_env_value host g context_key client_env source_path name =
     rustc_env_dep_lookup_value (rh_attested host)
       (recorded_root_relative_out_dir (rh_digest host) g context_key client_env) client_env name source_path
       (case get_includes g context_key of Some includes \<Rightarrow> includes | None \<Rightarrow> [])"

definition hash_and_verify ::
    "request_host \<Rightarrow> (nat \<Rightarrow> nat) \<Rightarrow> u64 \<Rightarrow> context_key \<Rightarrow> npath \<Rightarrow> compile_context \<Rightarrow> npath list \<Rightarrow> client_env \<Rightarrow> clock \<Rightarrow>
       (npath, npath) dmap \<Rightarrow> cache_system \<Rightarrow> dep_graph \<Rightarrow> cache_system \<times> dep_graph \<times> hash_source_outcome" where
  "hash_and_verify host sched now_ms context_key source_path ctx rustc_extern_paths client_env snap_clock pch_map cs g =
     (if is_cold g context_key
      then (cs, g, Ready \<lparr> hv_hash_map = [], hv_verdict = ColdVerdict, hv_diag_reason = ''cold_skip'' \<rparr>)
      else (case hash_file (rh_tolerance host) (rh_digest host) (rh_env host) (sched 0) source_path snap_clock cs of
        (cs, Inl e) \<Rightarrow> (cs, g, Fallback)
      | (cs, Inr hash) \<Rightarrow>
          (let includes = (case get_includes g context_key of Some includes \<Rightarrow> includes | None \<Rightarrow> []);
               (cs, hash_map) = hash_headers host sched pch_map snap_clock
                  (includes @ cc_force_includes ctx @ rustc_extern_paths) 1 cs [(source_path, hash)];
               get_hash = (\<lambda>p. dm_get hash_map (Paths.normalize p));
               env_value = request_env_value host g context_key client_env source_path
           in case try_fast_hit_with_env (rh_digest host) context_key get_hash env_value g of
                (g, Some artifact_key) \<Rightarrow>
                  (cs, g, Ready \<lparr> hv_hash_map = hash_map, hv_verdict = Hit artifact_key, hv_diag_reason = ''fast_key_match'' \<rparr>)
              | (g, None) \<Rightarrow>
                  (case check_diagnostic_with_env (rh_digest host) now_ms context_key
                      (\<lambda>p. journal_proves_fresh (cs_journal cs) (Paths.normalize p) snap_clock) get_hash env_value g of
                     (g, verdict, reason) \<Rightarrow>
                       (cs, g, Ready \<lparr> hv_hash_map = hash_map, hv_verdict = verdict, hv_diag_reason = reason \<rparr>)))))"

definition miss_reason_for_verdict :: "cache_verdict \<Rightarrow> string \<Rightarrow> string" where
  "miss_reason_for_verdict verdict diagnostic =
     (case verdict of
        Hit _ \<Rightarrow> ''no_artifact_for_key''
      | SourceChanged _ \<Rightarrow> ''input_fingerprint_mismatch''
      | HeadersChanged _ \<Rightarrow> ''input_fingerprint_mismatch''
      | NeedsPreprocessor \<Rightarrow> ''input_fingerprint_mismatch''
      | ColdVerdict \<Rightarrow>
          if prefix ''rustc env dependency values changed'' diagnostic then ''input_fingerprint_mismatch''
          else ''context_not_found'')"

subsection \<open>What the hashes of a request say\<close>

text \<open>
  A hash stands for a file between two moments: it is the digest of a content the file had there (or
  of what a read delivered while the file kept moving), or, for a precompiled header, the digest of
  such hashes of its source header and of itself.
\<close>

definition stands_for ::
    "request_host \<Rightarrow> (npath, npath) dmap \<Rightarrow> nat \<Rightarrow> nat \<Rightarrow> npath \<Rightarrow> content_hash \<Rightarrow> bool" where
  "stands_for host pch_map a b p x \<longleftrightarrow>
     observed (rh_digest host) (rh_env host) (Paths.normalize p) a b x \<or>
     (\<exists>hdr y z. resolve_pch_source (rh_exists host) p pch_map = Some hdr \<and>
        observed (rh_digest host) (rh_env host) (Paths.normalize hdr) a b y \<and>
        observed (rh_digest host) (rh_env host) (Paths.normalize p) a b z \<and> x = rh_digest host (y @ z))"

text \<open>The stamps of the files are honest under the tolerance the daemon runs with.\<close>

definition trustworthy :: "request_host \<Rightarrow> bool" where
  "trustworthy host \<longleftrightarrow> (\<forall>p. honest_stamps (rh_tolerance host) (rh_env host) p)"

abbreviation served_soundly :: "request_host \<Rightarrow> cache_system \<Rightarrow> bool" where
  "served_soundly host cs \<equiv> cache_sound (rh_tolerance host) (rh_digest host) (rh_env host) (cs_metadata cs)"

lemma hash_file_observed:
  assumes "trustworthy host" and "served_soundly host cs"
    and "hash_file (rh_tolerance host) (rh_digest host) (rh_env host) t p clock cs = (cs', r)"
  shows "served_soundly host cs'"
    and "r = Inr x \<Longrightarrow> observed (rh_digest host) (rh_env host) (Paths.normalize p) t (t + 16) x"
proof -
  have hon: "\<forall>p. honest_stamps (rh_tolerance host) (rh_env host) p"
    using assms(1) by (simp add: trustworthy_def)
  have n: "Paths.normalize (Paths.normalize p) = Paths.normalize p" by (simp add: normalize_twice)
  note L = lookup_since_observed [OF hon assms(2) n, of t clock]
  from L(1) assms(3) show "served_soundly host cs'"
    by (auto simp: hash_file_def path_for_cache_lookup_def split: prod.splits sum.splits)
  show "observed (rh_digest host) (rh_env host) (Paths.normalize p) t (t + 16) x" if "r = Inr x"
    using L(2) assms(3) that by (auto simp: hash_file_def path_for_cache_lookup_def split: prod.splits sum.splits)
qed

lemma hash_dependency_stands:
  assumes "trustworthy host" and "served_soundly host cs"
    and "hash_dependency (rh_tolerance host) (rh_digest host) (rh_env host) t (rh_exists host) pch_map p clock cs = (cs', r)"
    and "a \<le> t" and "t + 33 \<le> b"
  shows "served_soundly host cs' \<and> (\<forall>x. r = Inr x \<longrightarrow> stands_for host pch_map a b p x)"
proof (cases "resolve_pch_source (rh_exists host) p pch_map")
  case None
  with assms(3) have "hash_file (rh_tolerance host) (rh_digest host) (rh_env host) t p clock cs = (cs', r)"
    by (simp add: hash_dependency_def)
  from hash_file_observed [OF assms(1,2) this] assms(4,5) show ?thesis
    by (auto simp: stands_for_def intro: observed_mono)
next
  case (Some hdr)
  obtain cs1 r1 where f1: "hash_file (rh_tolerance host) (rh_digest host) (rh_env host) t hdr clock cs = (cs1, r1)" by fastforce
  note o1 = hash_file_observed [OF assms(1,2) f1]
  obtain cs2 r2 where f2: "hash_file (rh_tolerance host) (rh_digest host) (rh_env host) (t + 17) p clock cs1 = (cs2, r2)" by fastforce
  note o2 = hash_file_observed [OF assms(1) o1(1) f2]
  from assms(3) Some f1 f2 have
    "(cs', r) = (case r1 of Inl e \<Rightarrow> (cs1, Inl e) | Inr y \<Rightarrow>
       (case r2 of Inl e \<Rightarrow> (cs2, Inl e) | Inr z \<Rightarrow> (cs2, Inr (rh_digest host (y @ z)))))"
    by (auto simp: hash_dependency_def split: sum.splits)
  with o1 o2 assms(4,5) Some show ?thesis
    by (cases r1; cases r2) (auto simp: stands_for_def intro!: exI intro: observed_mono)
qed

lemma hash_headers_stand:
  assumes "trustworthy host" and "\<And>i. a \<le> sched i \<and> sched i + 33 \<le> b"
  shows "served_soundly host cs \<Longrightarrow> (\<And>p x. dm_get m p = Some x \<Longrightarrow> stands_for host pch_map a b p x) \<Longrightarrow>
    hash_headers host sched pch_map clock ps i cs m = (cs', m') \<Longrightarrow>
    served_soundly host cs' \<and> (\<forall>p x. dm_get m' p = Some x \<longrightarrow> stands_for host pch_map a b p x)"
proof (induction ps arbitrary: i cs m)
  case (Cons p ps)
  obtain cs1 r where d: "hash_dependency (rh_tolerance host) (rh_digest host) (rh_env host) (sched i) (rh_exists host) pch_map p clock cs = (cs1, r)"
    by fastforce
  from hash_dependency_stands [OF assms(1) Cons.prems(1) d] assms(2) have
    s1: "served_soundly host cs1" "\<And>x. r = Inr x \<Longrightarrow> stands_for host pch_map a b p x" by auto
  show ?case
  proof (cases r)
    case (Inl e)
    show ?thesis by (rule Cons.IH [OF s1(1) Cons.prems(2)]) (use Cons.prems(3) d Inl in auto)
  next
    case (Inr x)
    show ?thesis
    proof (rule Cons.IH [OF s1(1)])
      show "stands_for host pch_map a b q y" if "dm_get (dm_insert p x m) q = Some y" for q y
        using that Cons.prems(2) [of q y] s1(2) [OF Inr] by (auto split: if_splits)
    qed (use Cons.prems(3) d Inr in auto)
  qed
qed simp


text \<open>A hit of the request is a hit of the graph on the hashes that were taken.\<close>

definition request_hash :: "hash_verify_outcome \<Rightarrow> npath \<Rightarrow> content_hash option" where
  "request_hash out p = dm_get (hv_hash_map out) (Paths.normalize p)"

lemma fast_miss_unchanged: "try_fast_hit_with_env h key gh env g = (g', None) \<Longrightarrow> g' = g"
  by (auto simp: try_fast_hit_with_env_def split: option.splits if_splits prod.splits)

lemma fast_hit_counts: "snd (try_fast_hit_with_env h key gh env g) = Some k \<Longrightarrow> fst (try_fast_hit_with_env h key gh env g) = count_hit g"
  by (auto simp: try_fast_hit_with_env_def split: option.splits if_splits prod.splits)

lemma diagnostic_verdict:
  "check_diagnostic_with_env h now key fr gh env g = (g', v, s) \<Longrightarrow> snd (check_with_env h now key fr gh env g) = v"
  by (metis diagnostic_decides drop_reason_push(1) snd_conv)

lemma verified_hit:
  assumes "hash_and_verify host sched now key src ctx exts cenv clk pch cs g = (cs', g', Ready out)"
    and "hv_verdict out = Hit ak"
  shows "snd (check_with_env (rh_digest host) now key
      (\<lambda>p. journal_proves_fresh (cs_journal cs') (Paths.normalize p) clk) (request_hash out)
      (request_env_value host g key cenv src) g) = Hit ak \<or>
    snd (try_fast_hit_with_env (rh_digest host) key (request_hash out) (request_env_value host g key cenv src) g) = Some ak"
proof -
  let ?env = "request_env_value host g key cenv src"
  from assms obtain cs1 hash m where
    "hash_headers host sched pch clk ((case get_includes g key of Some includes \<Rightarrow> includes | None \<Rightarrow> []) @ cc_force_includes ctx @ exts)
       1 cs1 [(src, hash)] = (cs', m)" and m: "hv_hash_map out = m" and
    d: "(case try_fast_hit_with_env (rh_digest host) key (\<lambda>p. dm_get m (Paths.normalize p)) ?env g of
       (g1, Some k) \<Rightarrow> Hit k
     | (g1, None) \<Rightarrow> fst (snd (check_diagnostic_with_env (rh_digest host) now key
          (\<lambda>p. journal_proves_fresh (cs_journal cs') (Paths.normalize p) clk) (\<lambda>p. dm_get m (Paths.normalize p)) ?env g1))) = Hit ak"
    by (auto simp: hash_and_verify_def Let_def split: if_splits prod.splits sum.splits option.splits)
  have gh: "(\<lambda>p. dm_get m (Paths.normalize p)) = request_hash out" by (simp add: fun_eq_iff request_hash_def m)
  show ?thesis
  proof (cases "try_fast_hit_with_env (rh_digest host) key (request_hash out) ?env g")
    case (Pair g1 r)
    with d fast_miss_unchanged [of "rh_digest host" key "request_hash out" ?env g g1] diagnostic_verdict show ?thesis
      unfolding gh by (cases r) (auto, metis prod.collapse)
  qed
qed

lemma verified_hashes_stand:
  assumes "trustworthy host" and "served_soundly host cs" and "\<And>i. a \<le> sched i \<and> sched i + 33 \<le> b"
    and "hash_and_verify host sched now key src ctx exts cenv clk pch cs g = (cs', g', Ready out)"
    and "dm_get (hv_hash_map out) p = Some x"
  shows "stands_for host pch a b p x"
proof -
  from assms(4,5) obtain cs1 hash where
    f: "hash_file (rh_tolerance host) (rh_digest host) (rh_env host) (sched 0) src clk cs = (cs1, Inr hash)" and
    m: "hash_headers host sched pch clk ((case get_includes g key of Some includes \<Rightarrow> includes | None \<Rightarrow> []) @ cc_force_includes ctx @ exts)
       1 cs1 [(src, hash)] = (cs', hv_hash_map out)"
    by (auto simp: hash_and_verify_def Let_def split: if_splits prod.splits sum.splits option.splits)
  note o = hash_file_observed [OF assms(1,2) f]
  have "stands_for host pch a b q y" if "dm_get [(src, hash)] q = Some y" for q y
    using that observed_mono [OF o(2) [OF refl], of a b] assms(3) [of 0]
    by (auto simp: stands_for_def split: if_splits)
  from hash_headers_stand [OF assms(1,3) o(1) this m] assms(5) show ?thesis by blast
qed


lemma cs_run_sound:
  assumes "\<forall>p. honest_stamps tol env p" and "list_all (runs_on tol h env) xs"
  shows "cache_sound tol h env (cs_metadata (foldl cs_step cache_system_new xs))"
  unfolding cs_run_metadata
  by (rule cache_sound_run [OF assms(1) runs_on_served [OF assms(2)]])
     (simp_all add: cache_system_new_def mc_wf_def cache_sound_def metadata_new_def)

lemma stands_for_sized:
  "stands_for host pch a b p x \<Longrightarrow> (\<And>s. length (rh_digest host s) = 32) \<Longrightarrow> length x = 32"
  by (auto simp: stands_for_def observed_def)

subsection \<open>Property\<close>



text \<open>One request after a recorded compile, on files that stay as they are.\<close>

definition demo_contents :: "npath \<Rightarrow> content_hash option" where
  "demo_contents p = Some (demo_digest ''a'')"

definition demo_host_at :: "env \<Rightarrow> request_host" where
  "demo_host_at E = \<lparr> rh_tolerance = DEFAULT_MTIME_TOLERANCE_NS, rh_digest = demo_digest, rh_env = E, rh_exists = (\<lambda>p. False),
     rh_attested = \<lparr> af_read = (\<lambda>p. None), af_sha256 = (\<lambda>s. s), af_tree_sha256 = (\<lambda>p. None) \<rparr> \<rparr>"

definition demo_host :: request_host where
  "demo_host = demo_host_at (\<lambda>t. still_os)"

text \<open>Files that stay as they are while the request is verified, whatever happens later.\<close>

definition still_early :: "env \<Rightarrow> bool" where
  "still_early E \<longleftrightarrow> (\<forall>t < 60. E t = still_os)"

lemma still_earlyD: "still_early E \<Longrightarrow> t < 60 \<Longrightarrow> E t = still_os"
  by (simp add: still_early_def)

definition demo_recorded :: "dep_graph \<times> artifact_key option" where
  "demo_recorded = update_with_env demo_digest 1 ''K'' demo_scan demo_contents [] (\<lambda>_. None) demo_graph"

definition demo_request :: "env \<Rightarrow> cache_system \<times> dep_graph \<times> hash_source_outcome" where
  "demo_request E = hash_and_verify (demo_host_at E) (\<lambda>i. 40 * min i 1) 2 ''K'' ''src/a.c'' sample_context [] None 0 [] cache_system_new (fst demo_recorded)"

lemma demo_norm: "Paths.normalize ''src/a.c'' = ''src/a.c''" "Paths.normalize ''/h'' = ''/h''"
  by code_simp+

lemma demo_source_hash:
  "still_early E \<Longrightarrow> snd (hash_file DEFAULT_MTIME_TOLERANCE_NS demo_digest E 0 ''src/a.c'' 0 cache_system_new) = Inr (demo_digest ''a'')"
  by (simp add: hash_file_def path_for_cache_lookup_def demo_norm still_earlyD run_evaluation Let_def changed_since_def)

lemma demo_header_hash:
  "still_early E \<Longrightarrow> snd (hash_file DEFAULT_MTIME_TOLERANCE_NS demo_digest E 40 ''/h'' 0
     (fst (hash_file DEFAULT_MTIME_TOLERANCE_NS demo_digest E 0 ''src/a.c'' 0 cache_system_new))) = Inr (demo_digest ''a'')"
  by (simp add: hash_file_def path_for_cache_lookup_def demo_norm still_earlyD run_evaluation Let_def changed_since_def)

lemma demo_no_pch: "resolve_pch_source (\<lambda>p. False) ''/h'' [] = None" "resolve_pch_source (\<lambda>p. False) ''src/a.c'' [] = None"
  by code_simp+

definition demo_instance :: context_key where
  "demo_instance = the (resolve_instance_key (fst demo_recorded) ''K'')"

definition demo_context :: context_entry where
  "demo_context = the (dm_get (dg_contexts (fst demo_recorded)) demo_instance)"

lemma demo_recorded_shape:
  "resolve_instance_key (fst demo_recorded) ''K'' \<noteq> None" "snd demo_recorded \<noteq> None"
  "get_includes (fst demo_recorded) ''K'' = Some [''/h'']" "\<not> is_cold (fst demo_recorded) ''K''"
  "rustc_extern_inputs (fst demo_recorded) demo_instance = None"
  "entry_files demo_context = [''src/a.c'', ''/h'']"
  "dm_get (dg_contexts (fst demo_recorded)) demo_instance \<noteq> None"
  by code_simp+

lemma demo_recorded_gets:
  "resolve_instance_key (fst demo_recorded) ''K'' = Some demo_instance"
  "dm_get (dg_contexts (fst demo_recorded)) demo_instance = Some demo_context"
  using demo_recorded_shape(1,7) by (simp_all add: demo_instance_def demo_context_def)

lemma demo_env_deps: "ce_rustc_env_deps demo_context = []"
  by code_simp

lemma demo_recorded_update:
  "update_with_env demo_digest 1 ''K'' demo_scan demo_contents [] (\<lambda>_. None) demo_graph =
     (fst demo_recorded, Some (the (snd demo_recorded)))"
  using demo_recorded_shape(2) by (simp add: demo_recorded_def prod_eq_iff)

lemma demo_headers_hashed:
  "still_early E \<Longrightarrow> snd (hash_headers (demo_host_at E) (\<lambda>i. 40 * min i 1) [] 0 [''/h''] 1
     (fst (hash_file DEFAULT_MTIME_TOLERANCE_NS demo_digest E 0 ''src/a.c'' 0 cache_system_new)) [(''src/a.c'', demo_digest ''a'')]) =
   [(''src/a.c'', demo_digest ''a''), (''/h'', demo_digest ''a'')]"
  using demo_header_hash [of E]
  by (auto simp: demo_host_at_def hash_dependency_def demo_no_pch dm_insert_def split: prod.splits sum.splits)

lemma demo_request_hits:
  assumes "still_early E"
  obtains cs out where "demo_request E = (cs, count_hit (fst demo_recorded), Ready out)" "hv_verdict out = Hit (the (snd demo_recorded))"
    "hv_hash_map out = [(''src/a.c'', demo_digest ''a''), (''/h'', demo_digest ''a'')]"
proof -
  define m where "m = [(''src/a.c'', demo_digest ''a''), (''/h'', demo_digest ''a'')]"
  let ?gh = "\<lambda>p. dm_get m (Paths.normalize p)"
  let ?env = "request_env_value (demo_host_at E) (fst demo_recorded) ''K'' None ''src/a.c''"
  have "key_now demo_digest None demo_context demo_contents (\<lambda>_. None) = key_now demo_digest None demo_context ?gh (\<lambda>_. None)"
    by (rule key_now_cong) (auto simp: demo_recorded_shape demo_contents_def m_def demo_norm)
  moreover have "key_now demo_digest None demo_context ?gh (\<lambda>_. None) = key_now demo_digest None demo_context ?gh ?env"
    by (simp add: key_now_def current_artifact_key_def)
  moreover note update_fast_hits [OF demo_recorded_update demo_scan_plain]
  ultimately have fast: "snd (try_fast_hit_with_env demo_digest ''K'' ?gh ?env (fst demo_recorded)) = Some (the (snd demo_recorded))"
    by (simp add: fast_hit_iff demo_recorded_gets demo_recorded_shape(5))
  obtain cs1 where src: "hash_file DEFAULT_MTIME_TOLERANCE_NS demo_digest E 0 ''src/a.c'' 0 cache_system_new = (cs1, Inr (demo_digest ''a''))"
    using demo_source_hash [OF assms] by (metis prod.collapse)
  obtain cs2 where hdrs: "hash_headers (demo_host_at E) (\<lambda>i. 40 * min i 1) [] 0 [''/h''] 1 cs1 [(''src/a.c'', demo_digest ''a'')] = (cs2, m)"
    using demo_headers_hashed [OF assms] src unfolding m_def by (metis prod.collapse fst_conv)
  have fh: "try_fast_hit_with_env demo_digest ''K'' ?gh ?env (fst demo_recorded) = (count_hit (fst demo_recorded), Some (the (snd demo_recorded)))"
    using fast fast_hit_counts by (metis prod.collapse)
  have "demo_request E = (cs2, count_hit (fst demo_recorded), Ready \<lparr> hv_hash_map = m, hv_verdict = Hit (the (snd demo_recorded)), hv_diag_reason = ''fast_key_match'' \<rparr>)"
    using src hdrs fh
    by (simp add: demo_request_def hash_and_verify_def demo_recorded_shape(3,4) sample_context_def demo_host_at_def)
  then show thesis by (rule that) (simp_all add: m_def)
qed


end
