(* ===== verification/RequestKeys.thy ===== *)
theory RequestKeys
  imports LinkKeys OutDir
begin

text \<open>
  How a compile request is identified before anything is parsed
  (\<^verbatim>\<open>crates/zccache-daemon-core/src/daemon/server/keys.rs\<close>, the remap tests of \<^verbatim>\<open>rustc.rs\<close>,
  \<^verbatim>\<open>crates/zccache-compiler/src/detect.rs\<close> and the byte encoding of
  \<^verbatim>\<open>crates/zccache-hash/src/request_fingerprint.rs\<close>): the family of the compiler, the arguments with
  the prefix maps the daemon adds, whether a key is bound to its checkout, and the fingerprint of the
  request with its resumable encoder.
\<close>

subsection \<open>Compiler families\<close>

datatype compiler_family = Gcc | Clang | MsvcCompiler | Rustc | Rustfmt

datatype source_mode = NormalMode | HeaderMode | HeaderUnitMode | ModuleMode

definition strip_suffix :: "string \<Rightarrow> string \<Rightarrow> string option" where
  "strip_suffix suf s = (if suffix suf s then Some (take (length s - length suf) s) else None)"

definition executable_stem :: "string \<Rightarrow> string" where
  "executable_stem executable =
     (let basename = cross_platform_file_name executable
      in case strip_suffix ''.exe'' basename of
           Some stem \<Rightarrow> stem
         | None \<Rightarrow> (case strip_suffix ''.EXE'' basename of Some stem \<Rightarrow> stem | None \<Rightarrow> basename))"

definition is_dylint_driver :: "string \<Rightarrow> bool" where
  "is_dylint_driver executable \<longleftrightarrow> executable_stem executable = ''dylint-driver''"

definition dylint_inner_rustc_args :: "string \<Rightarrow> string list \<Rightarrow> string + (string \<times> string list) option" where
  "dylint_inner_rustc_args compiler args =
     (if \<not> is_dylint_driver compiler then Inr None
      else (case args of
        [] \<Rightarrow> Inl ''dylint-driver requires an inner rustc executable''
      | inner # rustc_args \<Rightarrow>
          (let inner_stem = executable_stem inner
           in if inner_stem \<noteq> ''rustc'' \<and> \<not> prefix ''rustc-'' inner_stem
              then Inl ''dylint-driver inner rustc executable is missing or unsupported''
              else Inr (Some (inner, rustc_args)))))"

text \<open>The name up to its last dot, wherever that is.\<close>

definition compiler_stem :: "string \<Rightarrow> string" where
  "compiler_stem compiler =
     (let basename = cross_platform_file_name compiler
      in if CHR ''.'' \<in> set basename then rev (tl (dropWhile (\<lambda>c. c \<noteq> CHR ''.'') (rev basename))) else basename)"

definition is_clang_cl_name :: "string \<Rightarrow> bool" where
  "is_clang_cl_name name \<longleftrightarrow>
     (let lower = map ascii_lower name in lower = ''clang-cl'' \<or> prefix ''clang-cl-'' lower)"

definition detect_compiler_family :: "string \<Rightarrow> compiler_family" where
  "detect_compiler_family compiler =
     (let name = compiler_stem compiler
      in if name = ''rustfmt'' \<or> prefix ''rustfmt-'' name then Rustfmt
         else if is_dylint_driver compiler \<or> name = ''rustc'' \<or> prefix ''rustc-'' name \<or>
                 name = ''clippy-driver'' \<or> prefix ''clippy-driver-'' name then Rustc
         else if is_clang_cl_name name then MsvcCompiler
         else if sublist ''clang'' name \<or> name = ''emcc'' \<or> name = ''em++'' then Clang
         else if eq_ignore_ascii_case name ''cl'' then MsvcCompiler
         else Gcc)"

definition is_msvc_cl :: "string \<Rightarrow> bool" where
  "is_msvc_cl compiler \<longleftrightarrow> eq_ignore_ascii_case (compiler_stem compiler) ''cl''"

definition compiler_is_rustc_like :: "string \<Rightarrow> bool" where
  "compiler_is_rustc_like compiler \<longleftrightarrow> detect_compiler_family compiler = Rustc"

definition compiler_supports_ffile_prefix_map :: "string \<Rightarrow> bool" where
  "compiler_supports_ffile_prefix_map compiler \<longleftrightarrow>
     detect_compiler_family compiler = Clang \<or> detect_compiler_family compiler = Gcc"

subsection \<open>Prefix maps and the checkout\<close>

definition same_key_path :: "string \<Rightarrow> string \<Rightarrow> bool" where
  "same_key_path left right \<longleftrightarrow> normalize_for_key left = normalize_for_key right"

definition has_cc_prefix_map_for_old :: "string list \<Rightarrow> string \<Rightarrow> string \<Rightarrow> bool" where
  "has_cc_prefix_map_for_old args target_flag old =
     list_ex (\<lambda>arg. case split_cc_prefix_map_arg arg of
         None \<Rightarrow> False
       | Some (flag, existing_old, _) \<Rightarrow> flag = target_flag \<and> same_key_path existing_old old) args"

definition requires_worktree_in_key :: "compiler_family \<Rightarrow> source_mode \<Rightarrow> bool" where
  "requires_worktree_in_key family mode \<longleftrightarrow> family = MsvcCompiler \<or> mode = HeaderMode"

definition AUTO_PREFIX_MAP_FLAGS :: "string list" where
  "AUTO_PREFIX_MAP_FLAGS = [''-ffile-prefix-map'', ''-fmacro-prefix-map'', ''-fdebug-prefix-map'']"

definition cc_prefix_maps_cover_root :: "string list \<Rightarrow> string \<Rightarrow> bool" where
  "cc_prefix_maps_cover_root args root =
     list_all (\<lambda>flag. has_cc_prefix_map_for_old args flag root) AUTO_PREFIX_MAP_FLAGS"

definition cc_requires_worktree_salt :: "compiler_family \<Rightarrow> source_mode \<Rightarrow> string list \<Rightarrow> string \<Rightarrow> bool" where
  "cc_requires_worktree_salt family mode args root \<longleftrightarrow>
     requires_worktree_in_key family mode \<or>
     (family = Gcc \<or> family = Clang) \<and> \<not> cc_prefix_maps_cover_root args root"

definition rust_remap_value_matches_old :: "string \<Rightarrow> string \<Rightarrow> bool" where
  "rust_remap_value_matches_old value old =
     (case split_once CHR ''='' value of
        None \<Rightarrow> False
      | Some (existing_old, _) \<Rightarrow> is_absolute existing_old \<and> same_key_path existing_old old)"

fun rust_args_have_remap_for_old :: "string list \<Rightarrow> string \<Rightarrow> bool" where
  "rust_args_have_remap_for_old [] old = False"
| "rust_args_have_remap_for_old [arg] old =
     (arg \<noteq> ''--remap-path-prefix'' \<and>
      (case strip_prefix ''--remap-path-prefix='' arg of
         Some value \<Rightarrow> rust_remap_value_matches_old value old
       | None \<Rightarrow> False))"
| "rust_args_have_remap_for_old (arg # nxt # rest) old =
     (if arg = ''--remap-path-prefix''
      then rust_remap_value_matches_old nxt old \<or> rust_args_have_remap_for_old rest old
      else (case strip_prefix ''--remap-path-prefix='' arg of
              Some value \<Rightarrow> rust_remap_value_matches_old value old
            | None \<Rightarrow> False) \<or> rust_args_have_remap_for_old (nxt # rest) old)"

definition rust_remap_values_have_old :: "string list \<Rightarrow> string \<Rightarrow> bool" where
  "rust_remap_values_have_old values old = list_ex (\<lambda>value. rust_remap_value_matches_old value old) values"

definition rustc_request_key_root :: "string list \<Rightarrow> npath option \<Rightarrow> npath option" where
  "rustc_request_key_root args worktree_root =
     (case worktree_root of
        None \<Rightarrow> None
      | Some root \<Rightarrow> if rust_args_have_remap_for_old args root then Some root else None)"

definition rustc_context_key_root :: "string list \<Rightarrow> npath option \<Rightarrow> npath option" where
  "rustc_context_key_root remap_path_prefixes worktree_root =
     (case worktree_root of
        None \<Rightarrow> None
      | Some root \<Rightarrow> if rust_remap_values_have_old remap_path_prefixes root then Some root else None)"

datatype rust_remap_gate = GateOk | GateMissing | GateOldOutsideRoot | GateMalformed

fun remap_gate_loop :: "string \<Rightarrow> bool \<Rightarrow> bool \<Rightarrow> string list \<Rightarrow> rust_remap_gate" where
  "remap_gate_loop root_key saw_malformed saw_external [] =
     (if saw_malformed then GateMalformed else if saw_external then GateOldOutsideRoot else GateMissing)"
| "remap_gate_loop root_key saw_malformed saw_external (value # values) =
     (case split_once CHR ''='' value of
        None \<Rightarrow> remap_gate_loop root_key True saw_external values
      | Some (old, new) \<Rightarrow>
          if \<not> is_absolute old then remap_gate_loop root_key True saw_external values
          else (let old_key = normalize_for_key old
                in if old_key = root_key then GateOk
                   else remap_gate_loop root_key saw_malformed
                     (saw_external \<or> \<not> prefix (root_key @ ''/'') old_key) values))"

definition rust_remap_gate :: "string list \<Rightarrow> npath option \<Rightarrow> rust_remap_gate" where
  "rust_remap_gate remap_path_prefixes worktree_root =
     (case worktree_root of
        None \<Rightarrow> GateMissing
      | Some root \<Rightarrow> remap_gate_loop (normalize_for_key root) False False remap_path_prefixes)"

definition request_key_root :: "string \<Rightarrow> string list \<Rightarrow> npath option \<Rightarrow> npath option" where
  "request_key_root compiler_path args worktree_root =
     (if compiler_is_rustc_like compiler_path then rustc_request_key_root args worktree_root else worktree_root)"

definition remap_argument :: "string \<Rightarrow> string" where
  "remap_argument root = root @ ''=.''"

definition auto_prefix_maps :: "string list \<Rightarrow> string \<Rightarrow> string list" where
  "auto_prefix_maps expanded_args old =
     map (\<lambda>flag. flag @ ''='' @ old @ ''=.'')
       (filter (\<lambda>flag. \<not> has_cc_prefix_map_for_old expanded_args flag old) AUTO_PREFIX_MAP_FLAGS)"

definition effective_compile_args ::
    "string list \<Rightarrow> string \<Rightarrow> string \<Rightarrow> npath option \<Rightarrow> client_env \<Rightarrow> string list" where
  "effective_compile_args expanded_args compiler_path cwd worktree_root client_env =
     (if \<not> path_remap_auto_enabled client_env then expanded_args
      else (case worktree_root of
        None \<Rightarrow> expanded_args
      | Some root \<Rightarrow>
          if compiler_is_rustc_like compiler_path then
            (if rust_args_have_remap_for_old expanded_args root then expanded_args
             else if is_dylint_driver compiler_path then
               (case expanded_args of
                  [] \<Rightarrow> expanded_args
                | rustc # rustc_args \<Rightarrow> rustc # ''--remap-path-prefix'' # remap_argument root # rustc_args)
             else ''--remap-path-prefix'' # remap_argument root # expanded_args)
          else if \<not> compiler_supports_ffile_prefix_map compiler_path then expanded_args
          else auto_prefix_maps expanded_args root @
               (if same_key_path root cwd then [] else auto_prefix_maps expanded_args cwd) @ expanded_args))"

subsection \<open>The worktree of a request\<close>

definition WORKTREE_ROOT_ENV :: string where "WORKTREE_ROOT_ENV = ''ZCCACHE_WORKTREE_ROOT''"

text \<open>\<^verbatim>\<open>Path::ancestors\<close>: the path itself and its parents, as long as there is one.\<close>

definition path_ancestors :: "string \<Rightarrow> string list" where
  "path_ancestors p =
     (let cs = path_components p
      in p # map (\<lambda>n. collect_path (take n cs))
           (rev [(if cs \<noteq> [] \<and> hd cs = RootDir then 1 else 0) ..< length cs]))"

definition find_git_root :: "(string \<Rightarrow> bool) \<Rightarrow> string \<Rightarrow> npath option" where
  "find_git_root dir_or_file cwd =
     map_option Paths.normalize (find (\<lambda>candidate. dir_or_file (path_join candidate ''.git'')) (path_ancestors cwd))"

definition resolve_worktree_root ::
    "(string \<Rightarrow> bool) \<Rightarrow> (string \<Rightarrow> bool) \<Rightarrow> string \<Rightarrow> client_env \<Rightarrow> npath option" where
  "resolve_worktree_root is_dir dir_or_file cwd client_env =
     (case client_env_value client_env WORKTREE_ROOT_ENV of
        Some value \<Rightarrow>
          (let root = (if is_absolute value then value else path_join cwd value)
           in if is_dir root then Some (Paths.normalize root) else find_git_root dir_or_file cwd)
      | None \<Rightarrow> find_git_root dir_or_file cwd)"

record session_worktree_root =
  sw_working_dir :: npath
  sw_root :: "npath option"

definition compile_worktree_root ::
    "(string \<Rightarrow> bool) \<Rightarrow> (string \<Rightarrow> bool) \<Rightarrow> session_worktree_root option \<Rightarrow> string \<Rightarrow> client_env \<Rightarrow> npath option" where
  "compile_worktree_root is_dir dir_or_file session cwd client_env =
     (if client_env_value client_env WORKTREE_ROOT_ENV \<noteq> None
      then resolve_worktree_root is_dir dir_or_file cwd client_env
      else
        (let cwd_normalized = Paths.normalize cwd;
             fallback = (case resolve_worktree_root is_dir dir_or_file cwd client_env of
                Some root \<Rightarrow> Some root
              | None \<Rightarrow> if path_remap_auto_enabled client_env then Some cwd_normalized else None)
         in case session of
              None \<Rightarrow> fallback
            | Some cached \<Rightarrow>
                (case sw_root cached of
                   Some root \<Rightarrow> if path_starts_with cwd_normalized root then Some root else fallback
                 | None \<Rightarrow>
                     if path_starts_with cwd_normalized (sw_working_dir cached) \<and> \<not> path_remap_auto_enabled client_env
                     then None else fallback)))"

subsection \<open>The fingerprint of a request\<close>

definition normalize_rust_remap_path_prefix_value_for_key :: "string \<Rightarrow> string option \<Rightarrow> string option" where
  "normalize_rust_remap_path_prefix_value_for_key value key_root =
     (case split_once CHR ''='' value of
        None \<Rightarrow> None
      | Some (old, new) \<Rightarrow> map_option (\<lambda>o'. o' @ ''='' @ new) (normalize_request_path_value old key_root))"

text \<open>An option glued to its path, such as \<^verbatim>\<open>-I\<close> or \<^verbatim>\<open>-L\<close>.\<close>

definition normalize_glued :: "string \<Rightarrow> string \<Rightarrow> string option \<Rightarrow> string option" where
  "normalize_glued opt arg key_root =
     (case strip_prefix opt arg of
        None \<Rightarrow> None
      | Some tail \<Rightarrow>
          if tail = [] then None else map_option (\<lambda>p. opt @ p) (normalize_request_path_value tail key_root))"

definition normalize_request_arg :: "string \<Rightarrow> string option \<Rightarrow> string" where
  "normalize_request_arg arg key_root =
     (case key_root of
        None \<Rightarrow> arg
      | Some root \<Rightarrow>
          (case normalize_cc_prefix_map_arg_for_key arg (Some root) of
             Some normalized \<Rightarrow> normalized
           | None \<Rightarrow>
               (case strip_prefix ''--remap-path-prefix='' arg of
                  Some value \<Rightarrow>
                    (case normalize_rust_remap_path_prefix_value_for_key value (Some root) of
                       Some normalized \<Rightarrow> ''--remap-path-prefix='' @ normalized
                     | None \<Rightarrow> arg)
                | None \<Rightarrow>
                    (case normalize_request_path_value arg (Some root) of
                       Some normalized \<Rightarrow> normalized
                     | None \<Rightarrow>
                         (case normalize_glued ''-I'' arg (Some root) of
                            Some normalized \<Rightarrow> normalized
                          | None \<Rightarrow>
                              (case normalize_glued ''-L'' arg (Some root) of
                                 Some normalized \<Rightarrow> normalized
                               | None \<Rightarrow>
                                   (case split_once CHR ''='' arg of
                                      None \<Rightarrow> arg
                                    | Some (left, right) \<Rightarrow>
                                        (case normalize_request_path_value left (Some root) of
                                           Some normalized_left \<Rightarrow> normalized_left @ ''='' @ right
                                         | None \<Rightarrow>
                                             (case normalize_request_path_value right (Some root) of
                                                Some normalized_right \<Rightarrow> left @ ''='' @ normalized_right
                                              | None \<Rightarrow> arg)))))))))"

fun normalize_request_args :: "string option \<Rightarrow> bool \<Rightarrow> string list \<Rightarrow> string list" where
  "normalize_request_args key_root remap_value [] = []"
| "normalize_request_args key_root remap_value (arg # args) =
     (if remap_value then
        (case normalize_rust_remap_path_prefix_value_for_key arg key_root of Some n \<Rightarrow> n | None \<Rightarrow> arg) #
        normalize_request_args key_root False args
      else if arg = ''--remap-path-prefix'' then arg # normalize_request_args key_root True args
      else normalize_request_arg arg key_root # normalize_request_args key_root False args)"

definition request_env_fingerprint_vars :: "client_env \<Rightarrow> string \<Rightarrow> string list \<Rightarrow> environment" where
  "request_env_fingerprint_vars client_env compiler args =
     (let env = (case client_env of Some env \<Rightarrow> env | None \<Rightarrow> []);
          cargo = (detect_compiler_family compiler = Rustc \<and>
            (\<not> is_plain_rustc compiler \<or> \<not> argv_emits_dep_info args \<or> argv_may_load_proc_macro args));
          vars = filter (\<lambda>(key, value). (cargo \<and> is_conservatively_keyed_cargo_env key) \<or>
                    key \<in> set REQUEST_CONTROL_ENV_KEYED) env @
                 keyed_cc_env env AnyScope @ keyed_rustc_env_superset env @ keyed_locale_env env
      in remdups (sort_key fst (sort_key snd vars)))"

text \<open>
  The encoder is a cursor that hands out one fragment at a time; one round of its loop either yields a
  fragment or only moves to the next phase.
\<close>

datatype phase =
    Tag | Compiler | CompilerEnd | Argument | ArgumentEnd | RawTag | RawArgument | RawEnd
  | Cwd | CwdEnd | EnvKey | EnvEquals | EnvValue | EnvEnd | Done

record request_cursor =
  rc_compiler :: string
  rc_arguments :: "string list"
  rc_raw :: "string list"
  rc_raw_index :: nat
  rc_cwd :: string
  rc_env :: environment
  rc_env_index :: nat
  rc_phase :: phase

definition cursor_new :: "string \<Rightarrow> string list \<Rightarrow> string list \<Rightarrow> string \<Rightarrow> environment \<Rightarrow> request_cursor" where
  "cursor_new compiler arguments raw cwd env =
     \<lparr> rc_compiler = compiler, rc_arguments = arguments, rc_raw = raw, rc_raw_index = 0, rc_cwd = cwd,
       rc_env = env, rc_env_index = 0, rc_phase = Tag \<rparr>"

definition cursor_round :: "request_cursor \<Rightarrow> request_cursor \<times> string option" where
  "cursor_round c =
     (case rc_phase c of
        Tag \<Rightarrow> (c\<lparr>rc_phase := Compiler\<rparr>, Some (entry ''zccache-request-v2''))
      | Compiler \<Rightarrow> (c\<lparr>rc_phase := CompilerEnd\<rparr>, Some (rc_compiler c))
      | CompilerEnd \<Rightarrow> (c\<lparr>rc_phase := Argument\<rparr>, Some [nul])
      | Argument \<Rightarrow>
          (case rc_arguments c of
             arg # args \<Rightarrow> (c\<lparr>rc_arguments := args, rc_phase := ArgumentEnd\<rparr>, Some arg)
           | [] \<Rightarrow> (c\<lparr>rc_phase := RawTag\<rparr>, None))
      | ArgumentEnd \<Rightarrow> (c\<lparr>rc_phase := Argument\<rparr>, Some [nul])
      | RawTag \<Rightarrow>
          if list_ex (\<lambda>arg. arg = ''-MD'' \<or> arg = ''-MMD'') (rc_raw c)
          then (c\<lparr>rc_phase := RawArgument\<rparr>, Some (entry ''user-depfile-raw-argv''))
          else (c\<lparr>rc_phase := Cwd\<rparr>, None)
      | RawArgument \<Rightarrow>
          if rc_raw_index c < length (rc_raw c) then
            (let arg = rc_raw c ! rc_raw_index c; i = rc_raw_index c + 1
             in if arg = ''-MF'' then
                  (c\<lparr>rc_raw_index := i + 1\<rparr>,
                   if i < length (rc_raw c) \<and> rc_raw c ! i = ''-'' then Some (entry ''-MF-stdout'') else None)
                else if arg = ''-MF-'' then (c\<lparr>rc_raw_index := i\<rparr>, Some (entry ''-MF-stdout''))
                else if \<not> prefix ''-MF'' arg then (c\<lparr>rc_raw_index := i, rc_phase := RawEnd\<rparr>, Some arg)
                else (c\<lparr>rc_raw_index := i\<rparr>, None))
          else (c\<lparr>rc_phase := Cwd\<rparr>, None)
      | RawEnd \<Rightarrow> (c\<lparr>rc_phase := RawArgument\<rparr>, Some [nul])
      | Cwd \<Rightarrow> (c\<lparr>rc_phase := CwdEnd\<rparr>, Some (rc_cwd c))
      | CwdEnd \<Rightarrow> (c\<lparr>rc_phase := EnvKey\<rparr>, Some [nul])
      | EnvKey \<Rightarrow>
          if rc_env_index c < length (rc_env c)
          then (c\<lparr>rc_phase := EnvEquals\<rparr>, Some (fst (rc_env c ! rc_env_index c)))
          else (c\<lparr>rc_phase := Done\<rparr>, None)
      | EnvEquals \<Rightarrow> (c\<lparr>rc_phase := EnvValue\<rparr>, Some ''='')
      | EnvValue \<Rightarrow> (c\<lparr>rc_phase := EnvEnd\<rparr>, Some (snd (rc_env c ! rc_env_index c)))
      | EnvEnd \<Rightarrow> (c\<lparr>rc_env_index := rc_env_index c + 1, rc_phase := EnvKey\<rparr>, Some [nul])
      | Done \<Rightarrow> (c, None))"

text \<open>What is left to emit bounds the rounds that are left.\<close>

definition cursor_work :: "request_cursor \<Rightarrow> nat" where
  "cursor_work c =
     (let args = 2 * length (rc_arguments c); raw = 2 * (length (rc_raw c) - rc_raw_index c);
          envs = 4 * (length (rc_env c) - rc_env_index c); later = 4 * (length (rc_env c) - rc_env_index c - 1)
      in case rc_phase c of
           Tag \<Rightarrow> 9 + args + raw + envs
         | Compiler \<Rightarrow> 8 + args + raw + envs
         | CompilerEnd \<Rightarrow> 7 + args + raw + envs
         | ArgumentEnd \<Rightarrow> 7 + args + raw + envs
         | Argument \<Rightarrow> 6 + args + raw + envs
         | RawTag \<Rightarrow> 5 + raw + envs
         | RawEnd \<Rightarrow> 5 + raw + envs
         | RawArgument \<Rightarrow> 4 + raw + envs
         | Cwd \<Rightarrow> 3 + envs
         | CwdEnd \<Rightarrow> 2 + envs
         | EnvKey \<Rightarrow> 1 + envs
         | EnvEquals \<Rightarrow> 4 + later
         | EnvValue \<Rightarrow> 3 + later
         | EnvEnd \<Rightarrow> 2 + later
         | Done \<Rightarrow> 0)"

lemma cursor_round_works: "rc_phase c \<noteq> Done \<Longrightarrow> cursor_work (fst (cursor_round c)) < cursor_work c"
  by (cases "rc_phase c") (auto simp: cursor_round_def cursor_work_def Let_def split: list.splits)

function next_fragment :: "request_cursor \<Rightarrow> request_cursor \<times> string option" where
  "next_fragment c =
     (if rc_phase c = Done then (c, None)
      else (case snd (cursor_round c) of
              Some fragment \<Rightarrow> (fst (cursor_round c), Some fragment)
            | None \<Rightarrow> next_fragment (fst (cursor_round c))))"
  by pat_completeness auto
termination
  by (relation "measure cursor_work") (simp_all add: cursor_round_works)

declare next_fragment.simps [simp del]

lemma next_fragment_works: "next_fragment c = (c', Some f) \<Longrightarrow> cursor_work c' < cursor_work c"
proof (induction c rule: next_fragment.induct)
  case (1 c)
  show ?case
  proof (cases "snd (cursor_round c)")
    case None
    with 1 cursor_round_works [of c] show ?thesis
      by (auto simp: next_fragment.simps [of c] split: if_splits)
  next
    case (Some a)
    with 1 cursor_round_works [of c] show ?thesis by (auto simp: next_fragment.simps [of c] split: if_splits)
  qed
qed

function emit_fragments :: "request_cursor \<Rightarrow> string" where
  "emit_fragments cursor =
     (case next_fragment cursor of
        (cursor', Some fragment) \<Rightarrow> fragment @ emit_fragments cursor'
      | (cursor', None) \<Rightarrow> [])"
  by pat_completeness auto
termination
  by (relation "measure cursor_work") (auto dest: sym [of _ "next_fragment _"] next_fragment_works)

declare emit_fragments.simps [simp del]

definition emit_request_fingerprint :: "string \<Rightarrow> string list \<Rightarrow> string list \<Rightarrow> string \<Rightarrow> environment \<Rightarrow> string" where
  "emit_request_fingerprint compiler normalized_args raw_args cwd selected_env =
     emit_fragments (cursor_new compiler normalized_args raw_args cwd selected_env)"

definition request_fingerprint ::
    "digest \<Rightarrow> string \<Rightarrow> string list \<Rightarrow> string \<Rightarrow> string option \<Rightarrow> client_env \<Rightarrow> content_hash" where
  "request_fingerprint h compiler args cwd key_root client_env =
     (let compiler = normalize_for_key compiler;
          normalized_args = normalize_request_args key_root False args;
          cwd = normalize_path_for_request_key cwd key_root;
          env = request_env_fingerprint_vars client_env compiler args
      in h (emit_request_fingerprint compiler normalized_args args cwd env))"

subsection \<open>What the cursor emits\<close>

fun raw_items :: "string list \<Rightarrow> string list" where
  "raw_items [] = []"
| "raw_items [arg] = (if arg = ''-MF-'' then [''-MF-stdout''] else if prefix ''-MF'' arg then [] else [arg])"
| "raw_items (arg # value # args) =
     (if arg = ''-MF'' then (if value = ''-'' then [''-MF-stdout''] else []) @ raw_items args
      else (if arg = ''-MF-'' then [''-MF-stdout''] else if prefix ''-MF'' arg then [] else [arg]) @ raw_items (value # args))"

definition raw_section :: "string list \<Rightarrow> string list" where
  "raw_section raw =
     (if list_ex (\<lambda>arg. arg = ''-MD'' \<or> arg = ''-MMD'') raw then ''user-depfile-raw-argv'' # raw_items raw else [])"

definition request_items :: "string \<Rightarrow> string list \<Rightarrow> string list \<Rightarrow> string \<Rightarrow> environment \<Rightarrow> string list" where
  "request_items compiler args raw cwd env =
     ''zccache-request-v2'' # compiler # args @ raw_section raw @ cwd # map env_text env"

text \<open>What a cursor will still emit.\<close>

definition cursor_bytes :: "request_cursor \<Rightarrow> string" where
  "cursor_bytes c =
     (let entries = (\<lambda>ss. concat (map entry ss));
          raws = entries (raw_items (drop (rc_raw_index c) (rc_raw c)));
          envs = (\<lambda>i. entries (map env_text (drop i (rc_env c))));
          tail = entry (rc_cwd c) @ envs (rc_env_index c);
          from_raw = (if list_ex (\<lambda>arg. arg = ''-MD'' \<or> arg = ''-MMD'') (rc_raw c) then entry ''user-depfile-raw-argv'' @ raws else []) @ tail;
          i = rc_env_index c
      in case rc_phase c of
           Tag \<Rightarrow> entry ''zccache-request-v2'' @ entry (rc_compiler c) @ entries (rc_arguments c) @ from_raw
         | Compiler \<Rightarrow> entry (rc_compiler c) @ entries (rc_arguments c) @ from_raw
         | CompilerEnd \<Rightarrow> [nul] @ entries (rc_arguments c) @ from_raw
         | Argument \<Rightarrow> entries (rc_arguments c) @ from_raw
         | ArgumentEnd \<Rightarrow> [nul] @ entries (rc_arguments c) @ from_raw
         | RawTag \<Rightarrow> from_raw
         | RawArgument \<Rightarrow> raws @ tail
         | RawEnd \<Rightarrow> [nul] @ raws @ tail
         | Cwd \<Rightarrow> tail
         | CwdEnd \<Rightarrow> [nul] @ envs i
         | EnvKey \<Rightarrow> envs i
         | EnvEquals \<Rightarrow> ''='' @ entry (snd (rc_env c ! i)) @ envs (i + 1)
         | EnvValue \<Rightarrow> entry (snd (rc_env c ! i)) @ envs (i + 1)
         | EnvEnd \<Rightarrow> [nul] @ envs (i + 1)
         | Done \<Rightarrow> [])"

lemma raw_items_step:
  "i < length raw \<Longrightarrow> raw_items (drop i raw) =
     (if raw ! i = ''-MF'' then (if i + 1 < length raw \<and> raw ! (i + 1) = ''-'' then [''-MF-stdout''] else []) @ raw_items (drop (i + 2) raw)
      else (if raw ! i = ''-MF-'' then [''-MF-stdout''] else if prefix ''-MF'' (raw ! i) then [] else [raw ! i]) @
        raw_items (drop (i + 1) raw))"
  by (cases "i + 1 < length raw") (simp_all add: Cons_nth_drop_Suc [symmetric])

lemma envs_step:
  "i < length env \<Longrightarrow> concat (map entry (map env_text (drop i env))) =
     fst (env ! i) @ ''='' @ entry (snd (env ! i)) @ concat (map entry (map env_text (drop (i + 1) env)))"
  by (simp add: Cons_nth_drop_Suc [symmetric] env_text_def entry_def)

lemma cursor_round_bytes:
  assumes "rc_phase c \<noteq> Done"
  shows "cursor_bytes c = (case snd (cursor_round c) of Some f \<Rightarrow> f | None \<Rightarrow> []) @ cursor_bytes (fst (cursor_round c))"
proof (cases "rc_phase c")
  case RawArgument
  then show ?thesis
    using raw_items_step [of "rc_raw_index c" "rc_raw c"]
    by (auto simp: cursor_bytes_def cursor_round_def Let_def entry_def)
next
  case EnvKey
  then show ?thesis
    using envs_step [of "rc_env_index c" "rc_env c"]
    by (auto simp: cursor_bytes_def cursor_round_def Let_def)
qed (use assms in \<open>auto simp: cursor_bytes_def cursor_round_def Let_def entry_def split: list.splits\<close>)

lemma next_fragment_bytes:
  "next_fragment c = (c', r) \<Longrightarrow> cursor_bytes c = (case r of Some f \<Rightarrow> f @ cursor_bytes c' | None \<Rightarrow> [])"
proof (induction c rule: next_fragment.induct)
  case (1 c)
  show ?case
  proof (cases "rc_phase c = Done")
    case True
    with 1(2) show ?thesis by (auto simp: next_fragment.simps [of c] cursor_bytes_def)
  next
    case False
    note b = cursor_round_bytes [OF False]
    show ?thesis
    proof (cases "snd (cursor_round c)")
      case None
      with b 1 False show ?thesis by (simp add: next_fragment.simps [of c])
    next
      case (Some a)
      with b 1(2) False have "c' = fst (cursor_round c)" "r = Some a" by (simp_all add: next_fragment.simps [of c])
      with b Some show ?thesis by simp
    qed
  qed
qed

lemma emit_fragments_bytes: "emit_fragments c = cursor_bytes c"
proof (induction c rule: emit_fragments.induct)
  case (1 c)
  obtain c' r where n: "next_fragment c = (c', r)" by fastforce
  with next_fragment_bytes [OF n] 1 show ?case by (cases r) (auto simp: emit_fragments.simps [of c])
qed

lemma emitted_items:
  "emit_request_fingerprint compiler args raw cwd env = concat (map entry (request_items compiler args raw cwd env))"
  by (simp add: emit_request_fingerprint_def emit_fragments_bytes cursor_bytes_def cursor_new_def request_items_def
      raw_section_def Let_def)

subsection \<open>Reading a fingerprint back\<close>

lemma push_absolute: "is_absolute b \<Longrightarrow> is_absolute (foldl path_push b cs)"
  by (induction cs arbitrary: b) (auto simp: path_push_def is_absolute_def slash_def)

lemma normalize_keeps_root: "\<exists>bs. foldl normalize_step (RootDir # as) cs = RootDir # bs"
proof (induction cs arbitrary: as)
  case (Cons c cs)
  have "\<exists>bs. normalize_step (RootDir # as) c = RootDir # bs"
    by (cases c) (auto split: component.splits)
  with Cons.IH show ?case by auto
qed simp

lemma normalize_absolute: "is_absolute p \<Longrightarrow> is_absolute (Paths.normalize p)"
proof -
  assume "is_absolute p"
  then obtain cs where "path_components p = RootDir # cs" by (auto simp: path_components_def)
  with normalize_keeps_root [of "[]" cs] obtain bs where "normalize_components (path_components p) = RootDir # bs"
    by (auto simp: normalize_components_def)
  then have "Paths.normalize p = foldl path_push ''/'' bs"
    by (simp add: Paths.normalize_def collect_path_def path_push_def)
  with push_absolute [of "''/''" bs] show ?thesis by (simp add: is_absolute_def slash_def)
qed

definition anchored :: "string \<Rightarrow> bool" where
  "anchored s \<longleftrightarrow> s \<noteq> [] \<and> (hd s = CHR ''/'' \<or> hd s = CHR ''$'')"

lemma cwd_anchored: "is_absolute cwd \<Longrightarrow> anchored (normalize_path_for_request_key cwd root)"
  using normalize_absolute [of cwd]
  by (auto simp: normalize_path_for_request_key_def anchored_def REQUEST_ROOT_MARKER_def normalize_for_key_def
      is_absolute_def slash_def Let_def split: option.splits)

text \<open>The names of the keyed variables are proper names.\<close>

definition proper_name :: "string \<Rightarrow> bool" where
  "proper_name k \<longleftrightarrow> k \<noteq> [] \<and> \<not> anchored k \<and> CHR ''='' \<notin> set k"

lemma keyed_tables_proper:
  "list_all proper_name (GNU_CC_ENV_KEYED @ MSVC_CC_ENV_KEYED @ LOCALE_ENV_KEYED @ RUSTC_ENV_KEYED @ APPLE_ENV_KEYED @
     LINK_ENV_KEYED @ REQUEST_CONTROL_ENV_KEYED)"
  by code_simp

lemma collect_names: "(k, v) \<in> set (collect env table ci) \<Longrightarrow> k \<in> set table"
  by (auto simp: collect_def List.map_filter_def)

lemma collect_link_names: "(k, v) \<in> set (collect_link_table env) \<Longrightarrow> k \<in> set LINK_ENV_KEYED"
  by (auto simp: collect_link_table_def List.map_filter_def)

lemma request_env_names:
  assumes "(k, v) \<in> set (request_env_fingerprint_vars env c args)"
  shows "k \<in> set (GNU_CC_ENV_KEYED @ MSVC_CC_ENV_KEYED @ LOCALE_ENV_KEYED @ RUSTC_ENV_KEYED @ APPLE_ENV_KEYED @
      LINK_ENV_KEYED @ REQUEST_CONTROL_ENV_KEYED) \<or> prefix ''CARGO_'' k"
proof -
  define e where "e = (case env of Some env \<Rightarrow> env | None \<Rightarrow> [])"
  from assms have "is_conservatively_keyed_cargo_env k \<or> k \<in> set REQUEST_CONTROL_ENV_KEYED \<or>
      (k, v) \<in> set (keyed_cc_env e AnyScope) \<or> (k, v) \<in> set (keyed_rustc_env_superset e) \<or> (k, v) \<in> set (keyed_locale_env e)"
    by (auto simp: request_env_fingerprint_vars_def e_def Let_def)
  moreover have "k \<in> set GNU_CC_ENV_KEYED \<union> set MSVC_CC_ENV_KEYED" if "(k, v) \<in> set (keyed_cc_env e AnyScope)"
    using that collect_names [of k v e] by (auto simp: keyed_cc_env_def)
  moreover have "k \<in> set RUSTC_ENV_KEYED \<union> set APPLE_ENV_KEYED \<union> set LINK_ENV_KEYED" if "(k, v) \<in> set (keyed_rustc_env_superset e)"
    using that collect_names [of k v e] collect_link_names [of k v e]
    by (auto simp: keyed_rustc_env_superset_def keyed_rustc_env_def)
  moreover have "k \<in> set LOCALE_ENV_KEYED" if "(k, v) \<in> set (keyed_locale_env e)"
    using that collect_names [of k v e] by (auto simp: keyed_locale_env_def)
  moreover have "prefix ''CARGO_'' k" if "is_conservatively_keyed_cargo_env k"
    using that by (simp add: is_conservatively_keyed_cargo_env_def)
  ultimately show ?thesis by auto
qed

lemma request_env_proper:
  assumes "(k, v) \<in> set (request_env_fingerprint_vars env c args)" and "CHR ''='' \<notin> set k"
  shows "proper_name k"
  using request_env_names [OF assms(1)]
proof
  assume "prefix ''CARGO_'' k"
  then have "k \<noteq> []" "hd k = CHR ''C''" by (auto simp: prefix_def)
  with assms(2) show ?thesis by (simp add: proper_name_def anchored_def)
qed (use keyed_tables_proper in \<open>simp only: list_all_iff\<close>)

lemma entries_inj:
  "list_all (\<lambda>s. nul \<notin> set s) xs \<Longrightarrow> list_all (\<lambda>s. nul \<notin> set s) ys \<Longrightarrow>
     concat (map entry xs) = concat (map entry ys) \<Longrightarrow> xs = ys"
proof (induction xs arbitrary: ys)
  case Nil
  then show ?case by (cases ys) (auto simp: entry_def)
next
  case (Cons x xs)
  then obtain y ys' where ys: "ys = y # ys'" by (cases ys) (auto simp: entry_def)
  with Cons.prems have "x = y \<and> concat (map entry xs) = concat (map entry ys')"
    by (intro entry_split) auto
  with Cons ys show ?case by simp
qed

text \<open>A list is cut at its last anchored item in one way only.\<close>

lemma last_anchored:
  assumes "ps @ c # es = ps' @ c' # es'" and "anchored c" "anchored c'"
    and "list_all (\<lambda>e. \<not> anchored e) es" "list_all (\<lambda>e. \<not> anchored e) es'"
  shows "ps = ps' \<and> c = c' \<and> es = es'"
proof -
  have cut: "takeWhile (\<lambda>e. \<not> anchored e) (rev (ps @ c # es)) = rev es \<and>
      dropWhile (\<lambda>e. \<not> anchored e) (rev (ps @ c # es)) = c # rev ps"
    if "anchored c" "list_all (\<lambda>e. \<not> anchored e) es" for ps c es
    using that takeWhile_append2 [of "rev es" "\<lambda>e. \<not> anchored e" "c # rev ps"]
      dropWhile_append2 [of "rev es" "\<lambda>e. \<not> anchored e" "c # rev ps"] by (simp add: list_all_iff)
  from cut [OF assms(2,4), of ps] cut [OF assms(3,5), of ps'] assms(1) show ?thesis by auto
qed

lemma env_text_inj:
  "list_all (proper_name \<circ> fst) es \<Longrightarrow> list_all (proper_name \<circ> fst) es' \<Longrightarrow> map env_text es = map env_text es' \<Longrightarrow> es = es'"
proof (induction es arbitrary: es')
  case (Cons e es)
  then obtain e' es0 where es': "es' = e' # es0" by (cases es') auto
  obtain k v k' v' where kv: "e = (k, v)" "e' = (k', v')" by fastforce
  from Cons.prems es' kv have "k @ ''='' @ v = k' @ ''='' @ v'" "CHR ''='' \<notin> set k" "CHR ''='' \<notin> set k'"
    by (auto simp: env_text_def proper_name_def)
  then have "k = k' \<and> v = v'" by (auto simp: append_eq_append_conv2 Cons_eq_append_conv append_eq_Cons_conv)
  with Cons es' kv show ?case by simp
qed simp

lemma tagged_split:
  assumes "as @ raw_section r = as' @ raw_section r'" and "''user-depfile-raw-argv'' \<notin> set as" "''user-depfile-raw-argv'' \<notin> set as'"
  shows "as = as' \<and> raw_section r = raw_section r'"
proof -
  have "takeWhile (\<lambda>x. x \<noteq> ''user-depfile-raw-argv'') (xs @ raw_section q) = xs" if "''user-depfile-raw-argv'' \<notin> set xs" for xs q
    using that by (subst takeWhile_append2) (auto simp: raw_section_def)
  from this [OF assms(2), of r] this [OF assms(3), of r'] assms(1) show ?thesis by auto
qed

subsection \<open>Properties\<close>

lemma request_items_inj:
  "request_items a as r w es = request_items a' as' r' w' es' \<Longrightarrow>
     a = a' \<and> (as @ raw_section r) @ w # map env_text es = (as' @ raw_section r') @ w' # map env_text es'"
  by (simp add: request_items_def)

text \<open>The items of the fingerprint of a request, as the daemon prepares them.\<close>

definition fingerprint_items :: "string \<Rightarrow> string list \<Rightarrow> string \<Rightarrow> string option \<Rightarrow> client_env \<Rightarrow> string list" where
  "fingerprint_items compiler args cwd key_root client_env =
     request_items (normalize_for_key compiler) (normalize_request_args key_root False args) args
       (normalize_path_for_request_key cwd key_root) (request_env_fingerprint_vars client_env (normalize_for_key compiler) args)"

lemma fingerprint_preimage:
  "request_fingerprint h compiler args cwd root env = h (concat (map entry (fingerprint_items compiler args cwd root env)))"
  by (simp add: request_fingerprint_def fingerprint_items_def emitted_items Let_def)

definition request_admissible :: "string \<Rightarrow> string list \<Rightarrow> string \<Rightarrow> string option \<Rightarrow> client_env \<Rightarrow> bool" where
  "request_admissible compiler args cwd root env \<longleftrightarrow>
     is_absolute cwd \<and> list_all (\<lambda>s. nul \<notin> set s) (fingerprint_items compiler args cwd root env) \<and>
     list_all (\<lambda>(k, v). CHR ''='' \<notin> set k) (request_env_fingerprint_vars env (normalize_for_key compiler) args) \<and>
     ''user-depfile-raw-argv'' \<notin> set (normalize_request_args root False args)"

lemma admissible_env:
  assumes "request_admissible compiler args cwd root env"
  shows "list_all (proper_name \<circ> fst) (request_env_fingerprint_vars env (normalize_for_key compiler) args)"
    and "list_all (\<lambda>e. \<not> anchored e) (map env_text (request_env_fingerprint_vars env (normalize_for_key compiler) args))"
proof -
  show p: "list_all (proper_name \<circ> fst) (request_env_fingerprint_vars env (normalize_for_key compiler) args)"
    using assms request_env_proper by (fastforce simp: request_admissible_def list_all_iff)
  then show "list_all (\<lambda>e. \<not> anchored e) (map env_text (request_env_fingerprint_vars env (normalize_for_key compiler) args))"
    by (auto simp: list_all_iff proper_name_def anchored_def env_text_def)
qed

text \<open>
  C28. The fingerprint of a request identifies it: two admissible requests with the same fingerprint name
  the same compiler, the same arguments and working directory up to the place of their checkouts, the
  same spelling of the arguments where a dependency file is asked for, and the same keyed environment.
  A request is admissible when its strings have no zero byte, its directory is absolute, its variable
  names have no equals sign, and no argument is the tag the encoder puts before the raw arguments.  The
  encoder emits all its bytes and stops.
\<close>

theorem request_fingerprint_identifies:
  assumes eq: "request_fingerprint h c args cwd root env = request_fingerprint h c' args' cwd' root' env'"
    and adm: "request_admissible c args cwd root env" "request_admissible c' args' cwd' root' env'"
    and inj: "inj_on h {concat (map entry (fingerprint_items c args cwd root env)),
        concat (map entry (fingerprint_items c' args' cwd' root' env'))}"
  shows "normalize_for_key c = normalize_for_key c' \<and>
    normalize_request_args root False args = normalize_request_args root' False args' \<and>
    raw_section args = raw_section args' \<and>
    normalize_path_for_request_key cwd root = normalize_path_for_request_key cwd' root' \<and>
    request_env_fingerprint_vars env (normalize_for_key c) args = request_env_fingerprint_vars env' (normalize_for_key c') args'"
proof -
  have "fingerprint_items c args cwd root env = fingerprint_items c' args' cwd' root' env'"
  proof (rule entries_inj)
    show "concat (map entry (fingerprint_items c args cwd root env)) = concat (map entry (fingerprint_items c' args' cwd' root' env'))"
      using inj_onD [OF inj eq [unfolded fingerprint_preimage]] by simp
  qed (use adm in \<open>auto simp: request_admissible_def\<close>)
  note split = request_items_inj [OF this [unfolded fingerprint_items_def]]
  have c: "normalize_for_key c = normalize_for_key c'"
    and items: "(normalize_request_args root False args @ raw_section args) @ normalize_path_for_request_key cwd root #
        map env_text (request_env_fingerprint_vars env (normalize_for_key c) args) =
      (normalize_request_args root' False args' @ raw_section args') @ normalize_path_for_request_key cwd' root' #
        map env_text (request_env_fingerprint_vars env' (normalize_for_key c') args')"
    using split by blast+
  have "is_absolute cwd" "is_absolute cwd'" using adm by (simp_all add: request_admissible_def)
  from last_anchored [OF items cwd_anchored [OF this(1)] cwd_anchored [OF this(2)] admissible_env(2) [OF adm(1)]
      admissible_env(2) [OF adm(2)]]
  have s: "normalize_request_args root False args @ raw_section args = normalize_request_args root' False args' @ raw_section args'"
    and w: "normalize_path_for_request_key cwd root = normalize_path_for_request_key cwd' root'"
    and e: "map env_text (request_env_fingerprint_vars env (normalize_for_key c) args) =
      map env_text (request_env_fingerprint_vars env' (normalize_for_key c') args')" by blast+
  have "normalize_request_args root False args = normalize_request_args root' False args' \<and> raw_section args = raw_section args'"
    by (rule tagged_split [OF s]) (use adm in \<open>auto simp: request_admissible_def\<close>)
  with c w env_text_inj [OF admissible_env(1) [OF adm(1)] admissible_env(1) [OF adm(2)] e] show ?thesis by blast
qed

definition demo_fp_env :: client_env where
  "demo_fp_env = Some [(''CPATH'', ''/q''), (''HOME'', ''/h'')]"

definition demo_fp_args :: "string \<Rightarrow> string list" where
  "demo_fp_args root = [''-c'', root @ ''/x.c'', ''-I'' @ root @ ''/inc'']"

lemma demo_fp_parts:
  "normalize_request_args (Some ''/a'') False (demo_fp_args ''/a'') = [''-c'', ''$ZCCACHE_WORKTREE_ROOT/x.c'', ''-I$ZCCACHE_WORKTREE_ROOT/inc'']"
  "normalize_request_args (Some ''/b'') False (demo_fp_args ''/b'') = [''-c'', ''$ZCCACHE_WORKTREE_ROOT/x.c'', ''-I$ZCCACHE_WORKTREE_ROOT/inc'']"
  "normalize_path_for_request_key ''/a'' (Some ''/a'') = ''$ZCCACHE_WORKTREE_ROOT''"
  "normalize_path_for_request_key ''/b'' (Some ''/b'') = ''$ZCCACHE_WORKTREE_ROOT''"
  "normalize_for_key ''/usr/bin/gcc'' = ''/usr/bin/gcc''" "raw_section (demo_fp_args ''/a'') = []" "raw_section (demo_fp_args ''/b'') = []"
  "request_env_fingerprint_vars demo_fp_env ''/usr/bin/gcc'' (demo_fp_args ''/a'') = [(''CPATH'', ''/q'')]"
  "request_env_fingerprint_vars demo_fp_env ''/usr/bin/gcc'' (demo_fp_args ''/b'') = [(''CPATH'', ''/q'')]"
  by code_simp+

lemma demo_fp_admissible:
  "r \<in> {''/a'', ''/b''} \<Longrightarrow> request_admissible ''/usr/bin/gcc'' (demo_fp_args r) r (Some r) demo_fp_env"
  by (auto simp: request_admissible_def fingerprint_items_def request_items_def demo_fp_parts env_text_def
      is_absolute_def slash_def)

theorem request_fingerprint_identifies_witness:
  "raw_section (demo_fp_args ''/a'') = raw_section (demo_fp_args ''/b'') \<and>
   normalize_request_args (Some ''/a'') False (demo_fp_args ''/a'') = normalize_request_args (Some ''/b'') False (demo_fp_args ''/b'')"
proof -
  have fp: "request_fingerprint (\<lambda>s. s) ''/usr/bin/gcc'' (demo_fp_args ''/a'') ''/a'' (Some ''/a'') demo_fp_env =
      request_fingerprint (\<lambda>s. s) ''/usr/bin/gcc'' (demo_fp_args ''/b'') ''/b'' (Some ''/b'') demo_fp_env"
    by (simp only: fingerprint_preimage fingerprint_items_def request_items_def demo_fp_parts)
  have "inj_on (\<lambda>s. s) A" for A :: "string set" by (simp add: inj_on_def)
  from request_fingerprint_identifies [OF fp demo_fp_admissible demo_fp_admissible this] show ?thesis by blast
qed

lemma split_once_clean:
  assumes "CHR ''='' \<notin> set a"
  shows "split_once CHR ''='' (a @ CHR ''='' # b) = Some (a, b)"
proof -
  have "takeWhile (\<lambda>c. c \<noteq> CHR ''='') (a @ CHR ''='' # b) = a" "dropWhile (\<lambda>c. c \<noteq> CHR ''='') (a @ CHR ''='' # b) = CHR ''='' # b"
    using assms by (subst takeWhile_append2 dropWhile_append2; auto)+
  then show ?thesis by (simp add: split_once_def)
qed

lemma strip_prefix_append: "strip_prefix p (p @ s) = Some s"
  by (simp add: strip_prefix_def)

lemma split_auto_map:
  assumes "flag \<in> set AUTO_PREFIX_MAP_FLAGS" and "CHR ''='' \<notin> set old"
  shows "split_cc_prefix_map_arg (flag @ ''='' @ old @ ''=.'') = Some (flag, old, ''.'')"
proof -
  have own: "Option.bind (Option.bind (strip_prefix flag (flag @ ''='' @ old @ ''=.'')) (strip_prefix ''='')) (split_once CHR ''='') = Some (old, ''.'')"
    using split_once_clean [OF assms(2), of "''.''"] strip_prefix_append [of "''=''" "old @ ''=.''"]
    by (simp add: strip_prefix_append)
  from assms(1) consider "flag = ''-ffile-prefix-map''" | "flag = ''-fmacro-prefix-map''" | "flag = ''-fdebug-prefix-map''"
    unfolding AUTO_PREFIX_MAP_FLAGS_def set_simps by blast
  then show ?thesis
  proof cases
    case 1
    show ?thesis using own unfolding 1 split_cc_prefix_map_arg_def CC_PREFIX_MAP_FLAGS_def split_prefix_map.simps by simp
  next
    case 2
    have "strip_prefix ''-ffile-prefix-map'' (flag @ ''='' @ old @ ''=.'') = None" unfolding 2 by (simp add: strip_prefix_def)
    then show ?thesis using own unfolding 2 split_cc_prefix_map_arg_def CC_PREFIX_MAP_FLAGS_def split_prefix_map.simps by simp
  next
    case 3
    have "strip_prefix ''-ffile-prefix-map'' (flag @ ''='' @ old @ ''=.'') = None"
      "strip_prefix ''-fmacro-prefix-map'' (flag @ ''='' @ old @ ''=.'') = None" unfolding 3 by (simp_all add: strip_prefix_def)
    then show ?thesis using own unfolding 3 split_cc_prefix_map_arg_def CC_PREFIX_MAP_FLAGS_def split_prefix_map.simps by simp
  qed
qed

lemma auto_maps_cover:
  assumes "flag \<in> set AUTO_PREFIX_MAP_FLAGS" and "CHR ''='' \<notin> set root" and "set (auto_prefix_maps args root) \<union> set args \<subseteq> set args'"
  shows "has_cc_prefix_map_for_old args' flag root"
proof (cases "has_cc_prefix_map_for_old args flag root")
  case True
  with assms(3) show ?thesis by (auto simp: has_cc_prefix_map_for_old_def list_ex_iff)
next
  case False
  with assms have "flag @ ''='' @ root @ ''=.'' \<in> set args'" by (auto simp: auto_prefix_maps_def)
  with split_auto_map [OF assms(1,2)] show ?thesis
    unfolding has_cc_prefix_map_for_old_def list_ex_iff by (intro bexI) (auto simp: same_key_path_def)
qed

lemma no_auto_maps: "cc_prefix_maps_cover_root args root \<Longrightarrow> auto_prefix_maps args root = []"
  by (simp add: cc_prefix_maps_cover_root_def auto_prefix_maps_def list_all_iff filter_empty_conv)

lemma rust_remap_found:
  "is_absolute root \<Longrightarrow> CHR ''='' \<notin> set root \<Longrightarrow> rust_args_have_remap_for_old (''--remap-path-prefix'' # remap_argument root # args) root"
  using split_once_clean [of root "''.''"] by (simp add: remap_argument_def rust_remap_value_matches_old_def same_key_path_def)

text \<open>
  With automatic path remapping the arguments the daemon runs the compiler with make the result
  shareable: for gcc and clang the prefix maps cover the checkout, so that no checkout is mixed into the
  key of an ordinary source; for rustc and the Dylint driver the checkout becomes the key root.  The
  caller's own arguments stay, in order, and preparing prepared arguments changes nothing.  The checkout
  must be an absolute path without an equals sign.
\<close>

theorem prepared_args_share:
  assumes "path_remap_auto_enabled env" and "is_absolute root" "CHR ''='' \<notin> set root" "CHR ''='' \<notin> set cwd"
    and "is_dylint_driver c \<longrightarrow> args \<noteq> [] \<and> hd args \<noteq> ''--remap-path-prefix''"
  shows "let eff = effective_compile_args args c cwd (Some root) env
    in (compiler_supports_ffile_prefix_map c \<longrightarrow> \<not> cc_requires_worktree_salt (detect_compiler_family c) NormalMode eff root \<and>
          suffix args eff) \<and>
       (compiler_is_rustc_like c \<longrightarrow> request_key_root c eff (Some root) = Some root) \<and>
       effective_compile_args eff c cwd (Some root) env = eff"
proof (cases "compiler_is_rustc_like c")
  case True
  then have nc: "\<not> compiler_supports_ffile_prefix_map c"
    by (simp add: compiler_is_rustc_like_def compiler_supports_ffile_prefix_map_def)
  let ?eff = "effective_compile_args args c cwd (Some root) env"
  note found = rust_remap_found [OF assms(2,3)]
  have "rust_args_have_remap_for_old ?eff root"
  proof (cases "is_dylint_driver c")
    case dy: True
    with assms(5) obtain a as where args: "args = a # as" "a \<noteq> ''--remap-path-prefix''" by (cases args) auto
    have "rust_args_have_remap_for_old (a # ''--remap-path-prefix'' # remap_argument root # as) root"
      using found [of as] args(2) by simp
    with True dy args(1) assms(1) show ?thesis by (simp only: effective_compile_args_def option.case list.case simp_thms if_True if_False split: if_split)
  next
    case False
    with True found [of args] assms(1) show ?thesis
      by (simp only: effective_compile_args_def option.case simp_thms if_True if_False split: if_split)
  qed
  with True nc assms(1) show ?thesis
    by (simp add: Let_def request_key_root_def rustc_request_key_root_def effective_compile_args_def)
next
  case False
  show ?thesis
  proof (cases "compiler_supports_ffile_prefix_map c")
    case no: False
    with False assms(1) show ?thesis by (simp add: Let_def effective_compile_args_def)
  next
    case yes: True
    let ?eff = "auto_prefix_maps args root @ (if same_key_path root cwd then [] else auto_prefix_maps args cwd) @ args"
    from yes have fam: "detect_compiler_family c \<in> {Gcc, Clang}" by (auto simp: compiler_supports_ffile_prefix_map_def)
    have cov: "cc_prefix_maps_cover_root ?eff root"
      unfolding cc_prefix_maps_cover_root_def list_all_iff by (intro ballI auto_maps_cover [OF _ assms(3)]) auto
    have cov': "cc_prefix_maps_cover_root ?eff cwd" if "\<not> same_key_path root cwd"
      unfolding cc_prefix_maps_cover_root_def list_all_iff by (intro ballI auto_maps_cover [OF _ assms(4)]) (use that in auto)
    have e: "effective_compile_args a c cwd (Some root) env =
        auto_prefix_maps a root @ (if same_key_path root cwd then [] else auto_prefix_maps a cwd) @ a" for a
      using yes False assms(1) by (simp add: effective_compile_args_def)
    have "effective_compile_args ?eff c cwd (Some root) env = ?eff"
      unfolding e [of ?eff] using no_auto_maps [OF cov] no_auto_maps [OF cov'] by simp
    with cov fam False show ?thesis
      by (auto simp: e Let_def cc_requires_worktree_salt_def requires_worktree_in_key_def suffix_def)
  qed
qed

theorem prepared_args_share_witness:
  "let eff = effective_compile_args [''-c'', ''/w/a.c''] ''/usr/bin/clang'' ''/w/sub'' (Some ''/w'') (Some [(''ZCCACHE_PATH_REMAP'', ''Auto'')])
    in \<not> cc_requires_worktree_salt Clang NormalMode eff ''/w'' \<and> suffix [''-c'', ''/w/a.c''] eff \<and>
      effective_compile_args eff ''/usr/bin/clang'' ''/w/sub'' (Some ''/w'') (Some [(''ZCCACHE_PATH_REMAP'', ''Auto'')]) = eff"
proof -
  have p: "path_remap_auto_enabled (Some [(''ZCCACHE_PATH_REMAP'', ''Auto'')])" "is_absolute ''/w''" "CHR ''='' \<notin> set ''/w''"
    "CHR ''='' \<notin> set ''/w/sub''" "is_dylint_driver ''/usr/bin/clang'' \<longrightarrow> [''-c'', ''/w/a.c''] \<noteq> [] \<and> hd [''-c'', ''/w/a.c''] \<noteq> ''--remap-path-prefix''"
    by code_simp+
  have f: "compiler_supports_ffile_prefix_map ''/usr/bin/clang''" "detect_compiler_family ''/usr/bin/clang'' = Clang" by code_simp+
  from prepared_args_share [OF p] f(1) show ?thesis unfolding Let_def f(2) by blast
qed

end
