(* ===== verification/FastHits.thy ===== *)
theory FastHits
  imports HashVerify RequestKeys RspCache MemoryEviction
begin

text \<open>
  Serving a compile request without reading a file (\<^verbatim>\<open>hit_branches.rs\<close>, \<^verbatim>\<open>request_cache.rs\<close>, and
  the freshness tests of \<^verbatim>\<open>util.rs\<close> and \<^verbatim>\<open>keys.rs\<close>, all in
  \<^verbatim>\<open>crates/zccache-daemon-core/src/daemon/server\<close>): the cache of verified contexts, the cache of whole
  requests with its sharing between checkouts, and the record a verified hit leaves behind.  Delivering
  an artifact is an argument: whether it fails, replays a failed compile, or writes the outputs.
\<close>

subsection \<open>State\<close>

definition FAST_HIT_MAX_AGE :: nat where "FAST_HIT_MAX_AGE = 60000000000"

definition EPHEMERAL_CACHE_MAX_AGE :: nat where "EPHEMERAL_CACHE_MAX_AGE = 300000000000"

definition REQUEST_CACHE_MAX_ENTRIES :: nat where "REQUEST_CACHE_MAX_ENTRIES = 4096"

definition REQUEST_VALIDATION_CACHE_MAX_ENTRIES :: nat where "REQUEST_VALIDATION_CACHE_MAX_ENTRIES = 8192"

datatype cached_request_path = RootRelative npath | AbsolutePath npath

definition crp_capture :: "string \<Rightarrow> string option \<Rightarrow> cached_request_path" where
  "crp_capture path key_root =
     (case Option.bind key_root (path_strip_prefix path) of
        Some relative \<Rightarrow> RootRelative (Paths.normalize relative)
      | None \<Rightarrow> AbsolutePath (Paths.normalize path))"

fun crp_resolve :: "cached_request_path \<Rightarrow> string option \<Rightarrow> npath" where
  "crp_resolve (RootRelative relative) (Some root) = Paths.normalize (path_join root relative)"
| "crp_resolve (RootRelative relative) None = relative"
| "crp_resolve (AbsolutePath path) _ = path"

fun is_root_relative :: "cached_request_path \<Rightarrow> bool" where
  "is_root_relative (RootRelative _) = True"
| "is_root_relative (AbsolutePath _) = False"

record request_cache_entry =
  re_context_key :: context_key
  re_root :: "npath option"
  re_source_path :: cached_request_path
  re_output_path :: cached_request_path
  re_depfile_path :: "cached_request_path option"
  re_input_paths :: "cached_request_path list"
  re_cross_root_shareable :: bool
  re_test_harness :: bool
  re_cached_at :: instant

record request_validation_entry =
  rv_artifact_key_hex :: string
  rv_clock :: clock
  rv_cached_at :: instant

record daemon_state =
  ds_cache :: cache_system
  ds_graph :: dep_graph
  ds_pch_map :: "(npath, npath) dmap"
  ds_fast_hits :: "(context_key, fast_hit_entry) dmap"
  ds_requests :: "(content_hash, request_cache_entry) dmap"
  ds_validations :: "(content_hash \<times> npath, request_validation_entry) dmap"
  ds_watcher_active :: bool

subsection \<open>Freshness without hashing\<close>

definition cache_entry_fresh_at :: "instant \<Rightarrow> instant \<Rightarrow> nat \<Rightarrow> bool" where
  "cache_entry_fresh_at now cached_at max_age \<longleftrightarrow> now - cached_at < max_age"

definition context_files_fresh :: "daemon_state \<Rightarrow> context_key \<Rightarrow> npath \<Rightarrow> clock \<Rightarrow> bool" where
  "context_files_fresh st context_key source_path since =
     (let fresh = (\<lambda>p. journal_proves_fresh (cs_journal (ds_cache st)) p since)
      in fresh (Paths.normalize source_path) \<and>
         (case get_includes (ds_graph st) context_key of Some includes \<Rightarrow> list_all fresh includes | None \<Rightarrow> True) \<and>
         (case get_force_includes (ds_graph st) context_key of Some force_includes \<Rightarrow> list_all fresh force_includes | None \<Rightarrow> True) \<and>
         (case get_rustc_externs (ds_graph st) context_key of Some externs \<Rightarrow> list_all (\<lambda>(_, p). fresh p) externs | None \<Rightarrow> True))"

definition context_env_deps_fresh :: "request_host \<Rightarrow> daemon_state \<Rightarrow> context_key \<Rightarrow> npath \<Rightarrow> client_env \<Rightarrow> bool" where
  "context_env_deps_fresh host st context_key source_path client_env =
     (case get_rustc_env_deps (ds_graph st) context_key of
        None \<Rightarrow> True
      | Some deps \<Rightarrow>
          list_all (\<lambda>(name, recorded_hash).
            hash_env_dep_value (rh_digest host) (request_env_value host (ds_graph st) context_key client_env source_path name) =
              recorded_hash) deps)"

definition context_files_and_env_fresh ::
    "request_host \<Rightarrow> daemon_state \<Rightarrow> context_key \<Rightarrow> npath \<Rightarrow> clock \<Rightarrow> client_env \<Rightarrow> bool" where
  "context_files_and_env_fresh host st context_key source_path since client_env =
     (if \<not> context_env_deps_fresh host st context_key source_path client_env then False
      else context_files_fresh st context_key source_path since)"

definition request_cache_input_paths :: "daemon_state \<Rightarrow> context_key \<Rightarrow> npath \<Rightarrow> compile_context \<Rightarrow> npath list" where
  "request_cache_input_paths st context_key source_path ctx =
     remdups_adj (sort (source_path #
       (case get_includes (ds_graph st) context_key of Some includes \<Rightarrow> includes | None \<Rightarrow> []) @
       (case get_rustc_externs (ds_graph st) context_key of Some externs \<Rightarrow> map snd externs | None \<Rightarrow> []) @
       cc_force_includes ctx))"

subsection \<open>The cache of requests\<close>

definition request_cache_entry_new ::
    "instant \<Rightarrow> context_key \<Rightarrow> npath \<Rightarrow> npath \<Rightarrow> npath option \<Rightarrow> npath list \<Rightarrow> npath option \<Rightarrow> bool \<Rightarrow> request_cache_entry" where
  "request_cache_entry_new now context_key source_path output_path depfile_path input_paths key_root worktree_bound =
     (let source_path = crp_capture source_path key_root;
          output_path = crp_capture output_path key_root;
          depfile_path = map_option (\<lambda>p. crp_capture p key_root) depfile_path;
          input_paths = map (\<lambda>p. crp_capture p key_root) input_paths
      in \<lparr> re_context_key = context_key, re_root = key_root, re_source_path = source_path, re_output_path = output_path,
           re_depfile_path = depfile_path, re_input_paths = input_paths,
           re_cross_root_shareable = (\<not> worktree_bound \<and> key_root \<noteq> None \<and> is_root_relative source_path \<and>
             is_root_relative output_path \<and> (case depfile_path of None \<Rightarrow> True | Some d \<Rightarrow> is_root_relative d) \<and>
             list_all is_root_relative input_paths),
           re_test_harness = False, re_cached_at = now \<rparr>)"

definition for_test_harness :: "bool \<Rightarrow> request_cache_entry \<Rightarrow> request_cache_entry" where
  "for_test_harness test_harness e = e\<lparr>re_test_harness := test_harness\<rparr>"

definition request_cache_entry_matches_root :: "request_cache_entry \<Rightarrow> npath option \<Rightarrow> bool" where
  "request_cache_entry_matches_root e key_root \<longleftrightarrow>
     (if re_root e = key_root then True else re_cross_root_shareable e \<and> re_root e \<noteq> None \<and> key_root \<noteq> None)"

definition request_cache_resolved_inputs :: "request_cache_entry \<Rightarrow> npath \<Rightarrow> npath list option" where
  "request_cache_resolved_inputs e root =
     (if \<not> re_cross_root_shareable e then None
      else if \<not> list_all is_root_relative (re_input_paths e) then None
      else Some (map (\<lambda>p. crp_resolve p (Some root)) (re_input_paths e)))"

definition request_cache_inputs_fresh_since :: "change_journal \<Rightarrow> npath list \<Rightarrow> clock \<Rightarrow> bool" where
  "request_cache_inputs_fresh_since journal paths since = list_all (\<lambda>p. journal_proves_fresh journal p since) paths"

text \<open>Hashing the inputs in order, the \<open>i\<close>-th at time \<open>sched i\<close>; the first failure ends it.\<close>

fun hash_inputs ::
    "request_host \<Rightarrow> (nat \<Rightarrow> nat) \<Rightarrow> clock \<Rightarrow> npath list \<Rightarrow> nat \<Rightarrow> cache_system \<Rightarrow>
       cache_system \<times> (npath \<times> content_hash) list option" where
  "hash_inputs host sched clock [] i cs = (cs, Some [])"
| "hash_inputs host sched clock (path # rest) i cs =
     (case hash_file (rh_tolerance host) (rh_digest host) (rh_env host) (sched i) path clock cs of
        (cs, Inl e) \<Rightarrow> (cs, None)
      | (cs, Inr hash) \<Rightarrow>
          (case hash_inputs host sched clock rest (i + 1) cs of
             (cs, None) \<Rightarrow> (cs, None)
           | (cs, Some hashes) \<Rightarrow> (cs, Some ((path, hash) # hashes))))"

definition request_cache_artifact_matches ::
    "request_host \<Rightarrow> (nat \<Rightarrow> nat) \<Rightarrow> request_cache_entry \<Rightarrow> content_hash \<Rightarrow> npath option \<Rightarrow> string \<Rightarrow> instant \<Rightarrow> instant \<Rightarrow> clock \<Rightarrow>
       daemon_state \<Rightarrow> daemon_state \<times> bool" where
  "request_cache_artifact_matches host sched e request_fp key_root expected_artifact_key_hex now done_at clock st =
     (case key_root of
        None \<Rightarrow> (st, False)
      | Some root \<Rightarrow>
          (case request_cache_resolved_inputs e root of
             None \<Rightarrow> (st, False)
           | Some paths \<Rightarrow>
               (if (case dm_get (ds_validations st) (request_fp, root) of
                      None \<Rightarrow> False
                    | Some v \<Rightarrow>
                        rv_artifact_key_hex v = expected_artifact_key_hex \<and>
                        cache_entry_fresh_at now (rv_cached_at v) EPHEMERAL_CACHE_MAX_AGE \<and>
                        request_cache_inputs_fresh_since (cs_journal (ds_cache st)) paths (rv_clock v))
                then (st, True)
                else
                  (let cs = register_tracked paths (ds_cache st);
                       validation_clock = cs_current_clock cs
                   in case hash_inputs host sched clock paths 0 cs of
                        (cs, None) \<Rightarrow> (st\<lparr>ds_cache := cs\<rparr>, False)
                      | (cs, Some file_hashes) \<Rightarrow>
                          (case logical_context_key (ds_graph st) (re_context_key e) of
                             None \<Rightarrow> (st\<lparr>ds_cache := cs\<rparr>, False)
                           | Some logical \<Rightarrow>
                               (let matches = (hex_encode (compute_artifact_key (rh_digest host) logical file_hashes (Some root)) =
                                       expected_artifact_key_hex);
                                    st = st\<lparr>ds_cache := cs\<rparr>
                                in if matches
                                   then (st\<lparr>ds_validations := dm_insert (request_fp, root)
                                          \<lparr> rv_artifact_key_hex = expected_artifact_key_hex, rv_clock = validation_clock,
                                            rv_cached_at = done_at \<rparr> (ds_validations st)\<rparr>, True)
                                   else (st, False)))))))"

text \<open>Trimming by age, and emptying a cache that has grown past its ceiling.\<close>

definition trim_request_cache_at ::
    "nat \<Rightarrow> instant \<Rightarrow> (content_hash, request_cache_entry) dmap \<Rightarrow> (content_hash, request_cache_entry) dmap \<times> nat" where
  "trim_request_cache_at max_age now cache =
     (let kept = dm_retain (\<lambda>_ e. \<not> cache_entry_expired_at now (re_cached_at e) max_age) cache;
          removed = length cache - length kept
      in if REQUEST_CACHE_MAX_ENTRIES < length kept then ([], removed + length kept) else (kept, removed))"

definition trim_request_validation_cache_at ::
    "nat \<Rightarrow> instant \<Rightarrow> (content_hash \<times> npath, request_validation_entry) dmap \<Rightarrow>
       (content_hash \<times> npath, request_validation_entry) dmap \<times> nat" where
  "trim_request_validation_cache_at max_age now cache =
     (let kept = dm_retain (\<lambda>_ e. \<not> cache_entry_expired_at now (rv_cached_at e) max_age) cache;
          removed = length cache - length kept
      in if REQUEST_VALIDATION_CACHE_MAX_ENTRIES < length kept then ([], removed + length kept) else (kept, removed))"

subsection \<open>Serving a request\<close>

record hit_probe =
  hp_context_key :: context_key
  hp_source_path :: npath
  hp_output_path :: npath
  hp_ctx :: compile_context
  hp_compiler_path :: string
  hp_effective_args :: "string list"
  hp_cwd :: string
  hp_key_root :: "npath option"
  hp_client_env :: client_env
  hp_depfile_dest :: "npath option"
  hp_worktree_equivalent :: bool
  hp_worktree_bound :: bool
  hp_test_harness :: bool
  hp_compile_start :: instant

text \<open>
  What the materialisation of an artifact ends in.  Of its effects the caches see one: outputs that were
  written are no longer trusted by the metadata cache.
\<close>

datatype delivery = DeliveryFailed | CachedError | OutputsWritten

definition downgrade_output :: "npath \<Rightarrow> cache_system \<Rightarrow> cache_system" where
  "downgrade_output output_path cs = cs\<lparr>cs_metadata := mc_downgrade output_path (cs_metadata cs)\<rparr>"

definition deliver_hit :: "(string \<Rightarrow> delivery) \<Rightarrow> string \<Rightarrow> npath \<Rightarrow> bool \<Rightarrow> daemon_state \<Rightarrow> daemon_state option" where
  "deliver_hit delivered artifact_key_hex output_path downgrade_output_metadata st =
     (case delivered artifact_key_hex of
        DeliveryFailed \<Rightarrow> None
      | CachedError \<Rightarrow> Some st
      | OutputsWritten \<Rightarrow>
          Some (if downgrade_output_metadata then st\<lparr>ds_cache := downgrade_output output_path (ds_cache st)\<rparr> else st))"

definition probe_fingerprint :: "request_host \<Rightarrow> hit_probe \<Rightarrow> content_hash" where
  "probe_fingerprint host probe =
     request_fingerprint (rh_digest host) (hp_compiler_path probe) (hp_effective_args probe) (hp_cwd probe)
       (hp_key_root probe) (hp_client_env probe)"

definition remember_request :: "request_host \<Rightarrow> instant \<Rightarrow> hit_probe \<Rightarrow> npath list \<Rightarrow> daemon_state \<Rightarrow> daemon_state" where
  "remember_request host now probe input_paths st =
     st\<lparr>ds_requests := dm_insert (probe_fingerprint host probe)
       (for_test_harness (hp_test_harness probe)
         (request_cache_entry_new now (hp_context_key probe) (hp_source_path probe) (hp_output_path probe)
           (hp_depfile_dest probe) input_paths (hp_key_root probe) (hp_worktree_bound probe)))
       (ds_requests st)\<rparr>"

definition try_fast_hit ::
    "request_host \<Rightarrow> (string \<Rightarrow> delivery) \<Rightarrow> instant \<Rightarrow> hit_probe \<Rightarrow> daemon_state \<Rightarrow> daemon_state \<times> string option" where
  "try_fast_hit host delivered now probe st =
     (if \<not> ds_watcher_active st then (st, None)
      else if hp_worktree_equivalent probe then (st, None)
      else (case dm_get (ds_fast_hits st) (hp_context_key probe) of
        None \<Rightarrow> (st, None)
      | Some e \<Rightarrow>
          if \<not> cache_entry_fresh_at (hp_compile_start probe) (fh_cached_at e) FAST_HIT_MAX_AGE \<or>
             \<not> context_files_and_env_fresh host st (hp_context_key probe) (hp_source_path probe) (fh_clock e) (hp_client_env probe)
          then (st, None)
          else
            (let input_paths = request_cache_input_paths st (hp_context_key probe) (hp_source_path probe) (hp_ctx probe)
             in case deliver_hit delivered (fh_artifact_key_hex e) (hp_output_path probe) True st of
                  None \<Rightarrow> (st, None)
                | Some st \<Rightarrow> (remember_request host now probe input_paths st, Some (fh_artifact_key_hex e)))))"

definition try_request_cache_hit ::
    "request_host \<Rightarrow> (nat \<Rightarrow> nat) \<Rightarrow> (string \<Rightarrow> delivery) \<Rightarrow> (client_env \<Rightarrow> bool) \<Rightarrow> instant \<Rightarrow> clock \<Rightarrow> hit_probe \<Rightarrow> daemon_state \<Rightarrow>
       daemon_state \<times> string option" where
  "try_request_cache_hit host sched delivered admits_test_harness now snap_clock probe st =
     (if \<not> ds_watcher_active st then (st, None)
      else
        (let request_fp = probe_fingerprint host probe; key_root = hp_key_root probe
         in case dm_get (ds_requests st) request_fp of
              None \<Rightarrow> (st, None)
            | Some req \<Rightarrow>
                if re_test_harness req \<and> \<not> admits_test_harness (hp_client_env probe) then (st, None)
                else if \<not> request_cache_entry_matches_root req key_root then (st, None)
                else (case dm_get (ds_fast_hits st) (re_context_key req) of
                  None \<Rightarrow> (st, None)
                | Some fh \<Rightarrow>
                    (let source_path = crp_resolve (re_source_path req) key_root;
                         output_path = crp_resolve (re_output_path req) key_root;
                         (st, inputs_match) =
                           (if re_root req = key_root
                            then (st, context_files_and_env_fresh host st (re_context_key req) source_path (fh_clock fh)
                                        (hp_client_env probe))
                            else request_cache_artifact_matches host sched req request_fp key_root (fh_artifact_key_hex fh)
                                   (hp_compile_start probe) now snap_clock st)
                     in if \<not> cache_entry_fresh_at (hp_compile_start probe) (fh_cached_at fh) FAST_HIT_MAX_AGE \<or>
                           \<not> cache_entry_fresh_at (hp_compile_start probe) (re_cached_at req) EPHEMERAL_CACHE_MAX_AGE \<or>
                           \<not> inputs_match
                        then (st, None)
                        else (case deliver_hit delivered (fh_artifact_key_hex fh) output_path False st of
                          None \<Rightarrow> (st, None)
                        | Some st \<Rightarrow> (st, Some (fh_artifact_key_hex fh)))))))"

text \<open>A verdict of the graph whose artifact can be delivered is recorded for the paths above.\<close>

definition try_depgraph_cached_hit ::
    "request_host \<Rightarrow> (string \<Rightarrow> delivery) \<Rightarrow> instant \<Rightarrow> hit_probe \<Rightarrow> string \<Rightarrow> daemon_state \<Rightarrow> daemon_state \<times> string option" where
  "try_depgraph_cached_hit host delivered now probe artifact_key_hex st =
     (let input_paths = request_cache_input_paths st (hp_context_key probe) (hp_source_path probe) (hp_ctx probe)
      in case deliver_hit delivered artifact_key_hex (hp_output_path probe) True st of
           None \<Rightarrow> (st, None)
         | Some st \<Rightarrow>
             if hp_worktree_equivalent probe then (st, Some artifact_key_hex)
             else
               (let cs = register_tracked input_paths (ds_cache st);
                    current_clock = cs_current_clock cs;
                    st = st\<lparr>ds_cache := cs, ds_fast_hits := dm_insert (hp_context_key probe)
                      \<lparr> fh_clock = current_clock, fh_artifact_key_hex = artifact_key_hex, fh_cached_at = now \<rparr> (ds_fast_hits st)\<rparr>
                in (remember_request host now probe input_paths st, Some artifact_key_hex)))"

subsection \<open>Changes decline the fast path\<close>

text \<open>The files a fast hit of a context vouches for.\<close>

definition context_inputs :: "daemon_state \<Rightarrow> hit_probe \<Rightarrow> npath set" where
  "context_inputs st probe =
     {Paths.normalize (hp_source_path probe)} \<union>
     set (case get_includes (ds_graph st) (hp_context_key probe) of Some is \<Rightarrow> is | None \<Rightarrow> []) \<union>
     set (case get_force_includes (ds_graph st) (hp_context_key probe) of Some is \<Rightarrow> is | None \<Rightarrow> []) \<union>
     snd ` set (case get_rustc_externs (ds_graph st) (hp_context_key probe) of Some es \<Rightarrow> es | None \<Rightarrow> [])"

lemma files_fresh_iff:
  "context_files_fresh st (hp_context_key probe) (hp_source_path probe) since \<longleftrightarrow>
     (\<forall>p \<in> context_inputs st probe. journal_proves_fresh (cs_journal (ds_cache st)) p since)"
  by (auto simp: context_files_fresh_def context_inputs_def Let_def list_all_iff ball_Un split: option.splits)

lemma changed_input_declines:
  assumes "p \<in> context_inputs st probe"
    and "\<And>e. dm_get (ds_fast_hits st) (hp_context_key probe) = Some e \<Longrightarrow>
      \<not> journal_proves_fresh (cs_journal (ds_cache st)) p (fh_clock e)"
  shows "try_fast_hit host delivered now probe st = (st, None)"
  using assms
  by (auto simp: try_fast_hit_def context_files_and_env_fresh_def files_fresh_iff split: option.splits)

datatype daemon_event =
    PipelineEvent pipeline_op
  | DecidedHit instant hit_probe string
  | FastRequest instant hit_probe
  | Missed context_key
  | GraphChanges dep_graph

text \<open>The daemon beside its watcher pipeline; both see the same cache system.\<close>

fun daemon_step ::
    "request_host \<Rightarrow> (string \<Rightarrow> delivery) \<Rightarrow> settle_buffer \<Rightarrow> pipeline \<times> daemon_state \<Rightarrow> daemon_event \<Rightarrow> pipeline \<times> daemon_state" where
  "daemon_step host delivered sb (pl, st) (PipelineEvent x) =
     (let pl = pipeline_step \<lparr>if_patterns = default_patterns\<rparr> sb pl x in (pl, st\<lparr>ds_cache := pl_cache pl\<rparr>))"
| "daemon_step host delivered sb (pl, st) (DecidedHit now probe key) =
     (let st = fst (try_depgraph_cached_hit host delivered now probe key st) in (pl\<lparr>pl_cache := ds_cache st\<rparr>, st))"
| "daemon_step host delivered sb (pl, st) (FastRequest now probe) =
     (let st = fst (try_fast_hit host delivered now probe st) in (pl\<lparr>pl_cache := ds_cache st\<rparr>, st))"
| "daemon_step host delivered sb (pl, st) (Missed key) = (pl, st\<lparr>ds_fast_hits := dm_remove key (ds_fast_hits st)\<rparr>)"
| "daemon_step host delivered sb (pl, st) (GraphChanges g) = (pl, st\<lparr>ds_graph := g\<rparr>)"

fun records_hit :: "context_key \<Rightarrow> daemon_event \<Rightarrow> bool" where
  "records_hit key (DecidedHit now probe hex) \<longleftrightarrow> hp_context_key probe = key"
| "records_hit key _ \<longleftrightarrow> False"

definition daemon_start :: "daemon_state" where
  "daemon_start = \<lparr> ds_cache = cache_system_new, ds_graph = dep_graph_new, ds_pch_map = [], ds_fast_hits = [],
     ds_requests = [], ds_validations = [], ds_watcher_active = True \<rparr>"


definition daemon_bounded :: "pipeline \<times> daemon_state \<Rightarrow> bool" where
  "daemon_bounded d \<longleftrightarrow> ds_cache (snd d) = pl_cache (fst d) \<and>
     (\<forall>key e. dm_get (ds_fast_hits (snd d)) key = Some e \<longrightarrow> fh_clock e \<le> cs_current_clock (pl_cache (fst d)))"

definition carries :: "(nat \<times> happening) set \<Rightarrow> pipeline \<Rightarrow> (nat \<times> happening) set \<Rightarrow> pipeline \<Rightarrow> bool" where
  "carries H pl H' pl' \<longleftrightarrow> cs_current_clock (pl_cache pl) \<le> cs_current_clock (pl_cache pl') \<and>
     (\<forall>p s. Paths.normalize p = p \<longrightarrow> s \<le> cs_current_clock (pl_cache pl) \<longrightarrow> noticed p s H pl \<longrightarrow> noticed p s H' pl')"

lemma tracks_later: "pipeline_tracks k H pl \<Longrightarrow> pipeline_tracks (k + 1) H pl"
  by (auto simp: pipeline_tracks_def)

lemma carries_refl: "carries H pl H pl"
  by (simp add: carries_def)

lemma carries_trans: "carries H pl H1 pl1 \<Longrightarrow> carries H1 pl1 H2 pl2 \<Longrightarrow> carries H pl H2 pl2"
  by (auto simp: carries_def intro: order_trans)

lemma remember_request_fields [simp]:
  "ds_cache (remember_request host now probe ps st) = ds_cache st"
  "ds_fast_hits (remember_request host now probe ps st) = ds_fast_hits st"
  "ds_graph (remember_request host now probe ps st) = ds_graph st"
  "ds_watcher_active (remember_request host now probe ps st) = ds_watcher_active st"
  by (simp_all add: remember_request_def)

lemma downgrade_output_fields [simp]:
  "cs_journal (downgrade_output p cs) = cs_journal cs" "cs_current_clock (downgrade_output p cs) = cs_current_clock cs"
  "cs_metadata (downgrade_output p cs) = mc_downgrade p (cs_metadata cs)"
  by (simp_all add: downgrade_output_def cs_current_clock_def)

lemma deliver_hit_fields:
  assumes "deliver_hit delivered hex out downgrade st = Some st1"
  shows "cs_journal (ds_cache st1) = cs_journal (ds_cache st)" "ds_fast_hits st1 = ds_fast_hits st" "ds_graph st1 = ds_graph st"
    "ds_watcher_active st1 = ds_watcher_active st"
  using assms by (auto simp: deliver_hit_def split: delivery.splits if_splits)

lemma fast_hit_fields:
  "cs_journal (ds_cache (fst (try_fast_hit host delivered now probe st))) = cs_journal (ds_cache st)"
  "ds_fast_hits (fst (try_fast_hit host delivered now probe st)) = ds_fast_hits st"
  by (auto simp: try_fast_hit_def Let_def dest: deliver_hit_fields split: option.splits)

text \<open>The watcher pipeline reads nothing of the cache system but its journal.\<close>

lemma pipeline_reads_journal:
  assumes "cs_journal cs = cs_journal (pl_cache pl)"
  shows "pipeline_tracks k H (pl\<lparr>pl_cache := cs\<rparr>) \<longleftrightarrow> pipeline_tracks k H pl"
    and "carries H (pl\<lparr>pl_cache := cs\<rparr>) H' pl' \<longleftrightarrow> carries H pl H' pl'"
    and "carries H pl H (pl\<lparr>pl_cache := cs\<rparr>)"
    and "cs_current_clock cs = cs_current_clock (pl_cache pl)"
  using assms
  by (auto simp: pipeline_tracks_def carries_def noticed_def in_flight_def cs_current_clock_def)

lemma register_clock: "cs_current_clock (register_tracked ps cs) = cs_current_clock cs"
proof -
  have "cj_current (foldl (\<lambda>j p. journal_register p j) j ps) = cj_current j" for j
    by (induction ps arbitrary: j) simp_all
  then show ?thesis by (simp add: cs_current_clock_def current_clock_def register_tracked_def)
qed

lemma daemon_step_tracks:
  assumes tr: "pipeline_tracks k H (fst d)" and k: "k + 1 < u64_mod" and b: "daemon_bounded d"
  shows "\<exists>H'. pipeline_tracks (k + 1) H' (fst (daemon_step host delivered sb d x)) \<and>
    carries H (fst d) H' (fst (daemon_step host delivered sb d x)) \<and> daemon_bounded (daemon_step host delivered sb d x)"
proof -
  obtain pl st where d: "d = (pl, st)" by fastforce
  note ps = pipeline_step_tracks [OF tr k, where ignore = "\<lparr>if_patterns = default_patterns\<rparr>" and sb = sb, folded carries_def]
  show ?thesis
  proof (cases x)
    case (PipelineEvent y)
    from ps [of y] b show ?thesis unfolding d PipelineEvent
      by (auto simp: Let_def daemon_bounded_def carries_def dest: order_trans)
  next
    case (DecidedHit now probe key)
    let ?r = "try_depgraph_cached_hit host delivered now probe key st"
    let ?ps = "request_cache_input_paths st (hp_context_key probe) (hp_source_path probe) (hp_ctx probe)"
    show ?thesis
    proof (cases "deliver_hit delivered key (hp_output_path probe) True st")
      case None
      then have "fst ?r = st" by (simp add: try_depgraph_cached_hit_def Let_def)
      with tracks_later [OF tr] carries_refl b show ?thesis unfolding d DecidedHit
        by (auto simp: Let_def daemon_bounded_def intro!: exI [of _ H])
    next
      case (Some st1)
      note f = deliver_hit_fields [OF Some]
      let ?pl1 = "pl\<lparr>pl_cache := ds_cache st1\<rparr>"
      have j1: "cs_journal (ds_cache st1) = cs_journal (pl_cache pl)" using f(1) b d by (simp add: daemon_bounded_def)
      note pr = pipeline_reads_journal [OF j1]
      show ?thesis
      proof (cases "hp_worktree_equivalent probe")
        case True
        with Some have "fst ?r = st1" by (simp add: try_depgraph_cached_hit_def Let_def)
        with tracks_later [OF tr] pr b f(2) show ?thesis unfolding d DecidedHit
          by (auto simp: Let_def daemon_bounded_def intro!: exI [of _ H])
      next
        case False
        with Some have r: "ds_cache (fst ?r) = register_tracked ?ps (ds_cache st1)"
          "ds_fast_hits (fst ?r) = dm_insert (hp_context_key probe)
             \<lparr> fh_clock = cs_current_clock (ds_cache st1), fh_artifact_key_hex = key, fh_cached_at = now \<rparr> (ds_fast_hits st)"
          by (simp_all add: try_depgraph_cached_hit_def Let_def register_clock f(2))
        have "pipeline_tracks k H ?pl1" using tr pr(1) d by simp
        from pipeline_step_tracks [OF this k, where ignore = "\<lparr>if_patterns = default_patterns\<rparr>" and sb = sb
            and x = "CacheOp (RegisterTracked ?ps)", folded carries_def] pr(2,4) b r
        show ?thesis unfolding d DecidedHit
          by (auto simp: Let_def daemon_bounded_def register_clock split: if_splits)
      qed
    qed
  next
    case (FastRequest now probe)
    let ?st1 = "fst (try_fast_hit host delivered now probe st)"
    have "cs_journal (ds_cache ?st1) = cs_journal (pl_cache pl)"
      using b d by (simp add: fast_hit_fields daemon_bounded_def)
    from pipeline_reads_journal [OF this] tracks_later [OF tr] b show ?thesis unfolding d FastRequest
      by (auto simp: Let_def daemon_bounded_def fast_hit_fields intro!: exI [of _ H])
  qed (use tracks_later [OF tr] carries_refl b in \<open>auto simp: d daemon_bounded_def fast_hit_fields intro!: exI [of _ H] split: if_splits\<close>)
qed

lemma daemon_run_tracks:
  "pipeline_tracks k H (fst d) \<Longrightarrow> k + length xs < u64_mod \<Longrightarrow> daemon_bounded d \<Longrightarrow>
   \<exists>H'. pipeline_tracks (k + length xs) H' (fst (foldl (daemon_step host delivered sb) d xs)) \<and>
     carries H (fst d) H' (fst (foldl (daemon_step host delivered sb) d xs)) \<and>
     daemon_bounded (foldl (daemon_step host delivered sb) d xs)"
proof (induction xs arbitrary: k H d)
  case Nil
  then show ?case by (auto intro: carries_refl)
next
  case (Cons x xs)
  from daemon_step_tracks [OF Cons.prems(1) _ Cons.prems(3), of host delivered sb x] Cons.prems(2) obtain H1 where
    H1: "pipeline_tracks (k + 1) H1 (fst (daemon_step host delivered sb d x))"
      "carries H (fst d) H1 (fst (daemon_step host delivered sb d x))" "daemon_bounded (daemon_step host delivered sb d x)"
    by auto
  from Cons.IH [OF H1(1) _ H1(3)] Cons.prems(2) carries_trans [OF H1(2)] show ?case by fastforce
qed

lemma kept_entry:
  "\<not> records_hit key x \<Longrightarrow> dm_get (ds_fast_hits (snd (daemon_step host delivered sb d x))) key = Some e \<Longrightarrow>
     dm_get (ds_fast_hits (snd d)) key = Some e"
  by (cases d; cases x)
     (auto simp: Let_def fast_hit_fields try_depgraph_cached_hit_def deliver_hit_fields split: if_splits option.splits)

lemma kept_entry_run:
  "list_all (\<lambda>x. \<not> records_hit key x) xs \<Longrightarrow>
     dm_get (ds_fast_hits (snd (foldl (daemon_step host delivered sb) d xs))) key = Some e \<Longrightarrow>
     dm_get (ds_fast_hits (snd d)) key = Some e"
  by (induction xs rule: rev_induct) (auto dest: kept_entry)

subsection \<open>Properties\<close>

text \<open>
  C4. A change closes the fast path.  When the host notifies the daemon of a change to an input of a
  context (the source, an include, a forced include or an extern crate) after its last verified hit, the
  zero-hash path no longer answers for that context once the queues of the watcher are empty, in every
  interleaving of notifications, cache operations, other hits, misses and changes of the graph.  For an
  input in a directory the watcher ignores it never answers.
\<close>

theorem fast_hit_declines_after_change:
  assumes "concerns \<lparr>if_patterns = default_patterns\<rparr> p n \<or> should_ignore \<lparr>if_patterns = default_patterns\<rparr> p"
    and "Paths.normalize p = p" and "length xs + length ys + 1 < u64_mod"
    and "list_all (\<lambda>x. \<not> records_hit (hp_context_key probe) x) ys"
    and "foldl (daemon_step host delivered sb) (pipeline_start, daemon_start) (xs @ PipelineEvent (HostNotifies n) # ys) = (pl, st)"
    and "drained pl" and "p \<in> context_inputs st probe"
  shows "try_fast_hit host delivered now probe st = (st, None)"
proof (rule changed_input_declines [OF assms(7)])
  fix e
  assume e: "dm_get (ds_fast_hits st) (hp_context_key probe) = Some e"
  let ?d = "foldl (daemon_step host delivered sb) (pipeline_start, daemon_start) xs"
  let ?d1 = "daemon_step host delivered sb ?d (PipelineEvent (HostNotifies n))"
  have "daemon_bounded (pipeline_start, daemon_start)"
    by (simp add: daemon_bounded_def pipeline_start_def daemon_start_def)
  from daemon_run_tracks [OF _ _ this, of 0 "{}" xs host delivered sb] pipeline_start_tracks assms(3) obtain H1 where
    H1: "pipeline_tracks (length xs) H1 (fst ?d)" "daemon_bounded ?d" by auto
  have d1: "?d1 = (pipeline_step \<lparr>if_patterns = default_patterns\<rparr> sb (fst ?d) (HostNotifies n), snd ?d)"
    using H1(2) by (cases ?d) (simp add: Let_def daemon_bounded_def)
  have run: "foldl (daemon_step host delivered sb) ?d1 ys = (pl, st)" using assms(5) by simp
  from kept_entry_run [OF assms(4), of host delivered sb ?d1] e run d1
  have "dm_get (ds_fast_hits (snd ?d)) (hp_context_key probe) = Some e" by simp
  with H1(2) have s: "fh_clock e \<le> cs_current_clock (pl_cache (fst ?d))" by (auto simp: daemon_bounded_def)
  show "\<not> journal_proves_fresh (cs_journal (ds_cache st)) p (fh_clock e)"
  proof (cases "should_ignore \<lparr>if_patterns = default_patterns\<rparr> p")
    case False
    with assms(1) have con: "concerns \<lparr>if_patterns = default_patterns\<rparr> p n" by simp
    note n = notified_tracks [OF H1(1) con, where sb = sb]
    have b1: "daemon_bounded ?d1" using H1(2) d1 by (simp add: daemon_bounded_def)
    have "pipeline_tracks (length xs) H1 (fst ?d1)" using n(1) d1 by simp
    from daemon_run_tracks [OF this _ b1, of ys host delivered sb] assms(3) run obtain H2 where
      H2: "pipeline_tracks (length xs + length ys) H2 pl" "carries H1 (fst ?d1) H2 pl" "daemon_bounded (pl, st)" by auto
    from H2(2) n(2) [of "fh_clock e"] s assms(2) d1 have "noticed p (fh_clock e) H2 pl"
      by (auto simp: carries_def)
    from drained_reports [OF H2(1) this assms(6)] H2(3) show ?thesis
      by (simp add: journal_proves_fresh_def daemon_bounded_def)
  qed (simp add: journal_proves_fresh_def)
qed

definition demo_probe :: hit_probe where
  "demo_probe = \<lparr> hp_context_key = ''K'', hp_source_path = ''/p/a.c'', hp_output_path = ''/p/a.o'', hp_ctx = sample_context,
     hp_compiler_path = ''gcc'', hp_effective_args = [], hp_cwd = ''/p'', hp_key_root = None, hp_client_env = None,
     hp_depfile_dest = None, hp_worktree_equivalent = False, hp_worktree_bound = True, hp_test_harness = False,
     hp_compile_start = 1 \<rparr>"

lemma demo_notification:
  "convert_event \<lparr>if_patterns = default_patterns\<rparr> NkContentModified [''/p/a.c''] = [WeModified ''/p/a.c'']"
  "concerns \<lparr>if_patterns = default_patterns\<rparr> ''/p/a.c'' (ChangeEvent NkContentModified [''/p/a.c''])"
  "Paths.normalize ''/p/a.c'' = ''/p/a.c''"
  by code_simp+


theorem fast_hit_declines_after_change_witness:
  "\<exists>pl st. foldl (daemon_step demo_host (\<lambda>_. OutputsWritten) default_window) (pipeline_start, daemon_start)
     ([DecidedHit 0 demo_probe ''ab''] @ PipelineEvent (HostNotifies (ChangeEvent NkContentModified [''/p/a.c''])) #
      [PipelineEvent (SettleReceives 7), PipelineEvent SettleTimesOut, PipelineEvent ConsumerTakes]) = (pl, st) \<and>
     dm_get (ds_fast_hits st) ''K'' \<noteq> None \<and> try_fast_hit demo_host (\<lambda>_. OutputsWritten) 2 demo_probe st = (st, None)"
proof -
  let ?ev = "ChangeEvent NkContentModified [''/p/a.c'']"
  obtain pl st where run: "foldl (daemon_step demo_host (\<lambda>_. OutputsWritten) default_window) (pipeline_start, daemon_start)
     ([DecidedHit 0 demo_probe ''ab''] @ PipelineEvent (HostNotifies ?ev) #
      [PipelineEvent (SettleReceives 7), PipelineEvent SettleTimesOut, PipelineEvent ConsumerTakes]) = (pl, st)"
    by fastforce
  have d: "drained pl \<and> dm_get (ds_fast_hits st) ''K'' \<noteq> None \<and> ''/p/a.c'' \<in> context_inputs st demo_probe"
    using run
    by (auto simp: drained_def pipeline_start_def settle_input_step_def settle_arm_def wait_time_def default_window_def
        settle_new_def flush_pending_def drain_def dm_insert_def demo_notification Let_def try_depgraph_cached_hit_def
        demo_probe_def daemon_start_def context_inputs_def remember_request_def deliver_hit_def)
  have "try_fast_hit demo_host (\<lambda>_. OutputsWritten) 2 demo_probe st = (st, None)"
    by (rule fast_hit_declines_after_change [OF disjI1 [OF demo_notification(2)] demo_notification(3) _ _ run])
       (use d in \<open>simp_all add: u64_mod_def\<close>)
  with run d show ?thesis by blast
qed

text \<open>A file that is rewritten after the request on it has been verified.\<close>

definition edited_files :: env where
  "edited_files t = still_os\<lparr>os_content := (\<lambda>i. if t < 100 then ''a'' else ''b''),
     os_delivers := (\<lambda>i. if t < 100 then ''a'' else ''b''),
     os_attr := (\<lambda>i. Inr (if t < 100 then 5 else 6, 1))\<rparr>"

definition edited_probe :: hit_probe where
  "edited_probe = demo_probe\<lparr>hp_source_path := ''src/a.c''\<rparr>"

lemma edited_early: "still_early edited_files"
  by (simp add: still_early_def edited_files_def still_os_def)

lemma edited_trustworthy: "trustworthy (demo_host_at edited_files)"
  by (auto simp: trustworthy_def demo_host_at_def honest_stamps_def edited_files_def still_os_def split: if_splits
      dest: whole_second_match [rotated 4])

lemma edited_observed:
  "observed demo_digest edited_files p 200 m x \<Longrightarrow> x = demo_digest ''b''"
  by (auto simp: observed_def edited_files_def still_os_def)

lemma hash_file_journal: "cs_journal (fst (hash_file tol h env t p clk cs)) = cs_journal cs"
  by (auto simp: hash_file_def lookup_since_def Let_def split: prod.splits sum.splits option.splits)

lemma hash_dependency_journal:
  "hash_dependency tol h env t ex pch p clk cs = (cs', r) \<Longrightarrow> cs_journal cs' = cs_journal cs"
  by (auto simp: hash_dependency_def split: prod.splits sum.splits option.splits) (metis fst_conv hash_file_journal)+

lemma hash_headers_journal:
  "cs_journal (fst (hash_headers host sched pch clk ps i cs m)) = cs_journal cs"
proof (induction ps arbitrary: i cs m)
  case (Cons p ps)
  then show ?case
    by (auto dest: hash_dependency_journal split: prod.splits sum.splits)
qed simp

lemma verify_journal:
  "hash_and_verify host sched now key src ctx exts cenv clk pch cs g = (cs', g', out) \<Longrightarrow> cs_journal cs' = cs_journal cs"
  using hash_file_journal [of "rh_tolerance host" "rh_digest host" "rh_env host" "sched 0" src clk cs]
    hash_headers_journal [of host sched pch clk]
  by (auto simp: hash_and_verify_def Let_def split: if_splits prod.splits sum.splits option.splits) (metis fst_conv)+

lemma verify_sound:
  assumes "trustworthy host" and "served_soundly host cs" and "\<And>i. a \<le> sched i \<and> sched i + 33 \<le> b"
    and "hash_and_verify host sched now key src ctx exts cenv clk pch cs g = (cs', g', Ready out)" and "hv_hash_map out \<noteq> []"
  shows "served_soundly host cs'"
proof -
  from assms(4,5) obtain cs1 hash where
    f: "hash_file (rh_tolerance host) (rh_digest host) (rh_env host) (sched 0) src clk cs = (cs1, Inr hash)" and
    m: "hash_headers host sched pch clk ((case get_includes g key of Some includes \<Rightarrow> includes | None \<Rightarrow> []) @ cc_force_includes ctx @ exts)
       1 cs1 [(src, hash)] = (cs', hv_hash_map out)"
    by (auto simp: hash_and_verify_def Let_def split: if_splits prod.splits sum.splits option.splits)
  note o = hash_file_observed [OF assms(1,2) f]
  have "stands_for host pch a b q y" if "dm_get [(src, hash)] q = Some y" for q y
    using that observed_mono [OF o(2) [OF refl], of a b] assms(3) [of 0] by (auto simp: stands_for_def split: if_splits)
  from hash_headers_stand [OF assms(1,3) o(1) this m] show ?thesis by blast
qed

lemma downgrade_sound: "cache_sound tol h env mc \<Longrightarrow> cache_sound tol h env (mc_downgrade p mc)"
  by (erule cache_sound_fewer) (auto simp: mc_downgrade_def split: option.splits if_splits)

lemma register_metadata [simp]: "cs_metadata (register_tracked ps cs) = cs_metadata cs"
  by (simp add: register_tracked_def)

lemma demo_entry_fields:
  "cc_force_includes (ce_context demo_context) = []"
  "rustc_env_dep_inputs (fst demo_recorded) demo_instance = Some []"
  by code_simp+

lemma count_hit_gets [simp]:
  "resolve_instance_key (count_hit g) key = resolve_instance_key g key"
  "get_includes (count_hit g) key = get_includes g key"
  "get_force_includes (count_hit g) key = get_force_includes g key"
  "get_rustc_externs (count_hit g) key = get_rustc_externs g key"
  "get_rustc_env_deps (count_hit g) key = get_rustc_env_deps g key"
  by (simp_all add: count_hit_def get_includes_def get_force_includes_def get_rustc_externs_def get_rustc_env_deps_def
      resolved_entry_def resolve_instance_key_def rustc_extern_inputs_def [abs_def] rustc_env_dep_inputs_def [abs_def])

text \<open>The journal after one reported change of \<open>p\<close> and the registration of \<open>p\<close> and \<open>q\<close>.\<close>

lemma reported_once:
  fixes out :: npath
  assumes "cs_journal cs = journal_new" and "p \<noteq> q"
  defines "cs1 \<equiv> register_tracked [q, p] (downgrade_output out (fst (apply_changes [p] cs)))"
  shows "cs_current_clock cs1 = 1" and "changed_since (cs_journal cs1) p 0"
    and "\<not> changed_since (cs_journal cs1) p 1" and "\<not> changed_since (cs_journal cs1) q 1"
proof -
  define j where "j = fst (advance [p] journal_new)"
  have f: "cj_current j = 1" "cj_last_overflow j = 0" "cj_last_change j = [(p, 1)]"
    by (simp_all add: j_def advance_def journal_new_def journal_with_capacity_def u64_succ_def u64_mod_def dm_insert_def Let_def)
  have "cs_journal (fst (apply_changes [p] cs)) = j"
    using assms(1) by (simp add: apply_changes_def j_def split: prod.splits)
  then have "cs_journal cs1 = journal_register p (journal_register q j)" by (simp add: cs1_def register_tracked_def)
  then show "cs_current_clock cs1 = 1" "changed_since (cs_journal cs1) p 0"
    "\<not> changed_since (cs_journal cs1) p 1" "\<not> changed_since (cs_journal cs1) q 1"
    using f assms(2)
    by (simp_all add: changed_since_def cs_current_clock_def current_clock_def dm_or_insert_def dm_insert_def dm_has_def)
qed

lemma demo_hit_graph:
  "get_includes (fst demo_recorded) ''K'' = Some [''/h'']"
  "get_force_includes (fst demo_recorded) ''K'' = Some []"
  "get_rustc_externs (fst demo_recorded) ''K'' = None"
  "get_rustc_env_deps (fst demo_recorded) ''K'' = Some []"
  by (simp_all add: demo_recorded_shape(3,5) demo_recorded_gets demo_entry_fields get_force_includes_def
      get_rustc_externs_def get_rustc_env_deps_def resolved_entry_def)

lemma demo_not_ignored:
  "\<not> should_ignore \<lparr>if_patterns = default_patterns\<rparr> ''src/a.c''" "\<not> should_ignore \<lparr>if_patterns = default_patterns\<rparr> ''/h''"
  "remdups_adj (sort [''src/a.c'', ''/h'']) = [''/h'', ''src/a.c'']"
  by code_simp+

lemma demo_paths_differ: "''src/a.c'' \<noteq> ''/h''"
  by simp

lemma demo_digests_differ: "demo_digest ''a'' \<noteq> demo_digest ''b''"
  by code_simp

text \<open>
  C38. The record of a verified hit can hide a change.  A verdict rests on hashes taken at one moment, but
  the entry it leaves for the fast path carries the clock read afterwards.  Take a request that is
  verified while its source contains one text and hits; the source is rewritten and the change reported
  to the cache; only then is the hit recorded.  The entry counts the change as already seen, and the
  next request is answered from it with the old artifact, without looking at the file, although no
  lookup of the source gives the digest the verdict rested on any more.  With the clock of the verified
  moment the entry would have been declined.
\<close>

theorem recorded_hit_hides_change:
  "\<exists>cs out st st' hex. demo_request edited_files = (cs, count_hit (fst demo_recorded), Ready out) \<and>
     hv_verdict out = Hit (the (snd demo_recorded)) \<and> hex = hex_encode (the (snd demo_recorded)) \<and>
     dm_get (hv_hash_map out) ''src/a.c'' = Some (demo_digest ''a'') \<and>
     st = daemon_start\<lparr>ds_cache := fst (apply_changes [''src/a.c''] cs), ds_graph := count_hit (fst demo_recorded)\<rparr> \<and>
     try_depgraph_cached_hit (demo_host_at edited_files) (\<lambda>_. OutputsWritten) 0 edited_probe hex st = (st', Some hex) \<and>
     snd (try_fast_hit (demo_host_at edited_files) (\<lambda>_. OutputsWritten) 1 edited_probe st') = Some hex \<and>
     snd (hash_file DEFAULT_MTIME_TOLERANCE_NS demo_digest edited_files 200 ''src/a.c'' 0 (ds_cache st')) \<noteq> Inr (demo_digest ''a'') \<and>
     \<not> context_files_fresh st' ''K'' ''src/a.c'' (cs_current_clock cs)"
proof (rule demo_request_hits [OF edited_early])
  fix cs out
  assume req: "demo_request edited_files = (cs, count_hit (fst demo_recorded), Ready out)"
    "hv_verdict out = Hit (the (snd demo_recorded))" "hv_hash_map out = [(''src/a.c'', demo_digest ''a''), (''/h'', demo_digest ''a'')]"
  let ?host = "demo_host_at edited_files"
  let ?hex = "hex_encode (the (snd demo_recorded))"
  define st where "st = daemon_start\<lparr>ds_cache := fst (apply_changes [''src/a.c''] cs), ds_graph := count_hit (fst demo_recorded)\<rparr>"
  define st' where "st' = fst (try_depgraph_cached_hit ?host (\<lambda>_. OutputsWritten) 0 edited_probe ?hex st)"
  have j: "cs_journal cs = journal_new"
    using verify_journal [OF req(1) [unfolded demo_request_def]] by (simp add: cache_system_new_def)
  have inputs: "request_cache_input_paths st ''K'' ''src/a.c'' sample_context = [''/h'', ''src/a.c'']"
    using demo_not_ignored(3) by (simp add: request_cache_input_paths_def st_def demo_hit_graph sample_context_def)
  have rec: "try_depgraph_cached_hit ?host (\<lambda>_. OutputsWritten) 0 edited_probe ?hex st = (st', Some ?hex)"
    by (simp add: st'_def try_depgraph_cached_hit_def edited_probe_def demo_probe_def deliver_hit_def Let_def)
  let ?cs1 = "register_tracked [''/h'', ''src/a.c''] (downgrade_output ''/p/a.o'' (fst (apply_changes [''src/a.c''] cs)))"
  note once = reported_once [OF j demo_paths_differ, of "''/p/a.o''"]
  have st': "ds_cache st' = ?cs1" "ds_graph st' = count_hit (fst demo_recorded)" "ds_watcher_active st'"
    "dm_get (ds_fast_hits st') ''K'' = Some \<lparr> fh_clock = 1, fh_artifact_key_hex = ?hex, fh_cached_at = 0 \<rparr>"
    using inputs once(1)
    by (simp_all add: st'_def try_depgraph_cached_hit_def edited_probe_def demo_probe_def deliver_hit_def Let_def st_def daemon_start_def)
  have fresh: "context_files_fresh st' ''K'' ''src/a.c'' 1"
    using once(3,4) demo_not_ignored
    by (simp add: context_files_fresh_def st' demo_hit_graph demo_norm journal_proves_fresh_def Let_def)
  have stale: "\<not> context_files_fresh st' ''K'' ''src/a.c'' 0"
    using once(2) by (simp add: context_files_fresh_def st' demo_norm journal_proves_fresh_def Let_def)
  have env: "context_env_deps_fresh ?host st' ''K'' ''src/a.c'' None"
    by (simp add: context_env_deps_fresh_def st' demo_hit_graph)
  have hit: "snd (try_fast_hit ?host (\<lambda>_. OutputsWritten) 1 edited_probe st') = Some ?hex"
    using fresh env st'(3,4)
    by (simp add: try_fast_hit_def edited_probe_def demo_probe_def context_files_and_env_fresh_def deliver_hit_def Let_def
        cache_entry_fresh_at_def FAST_HIT_MAX_AGE_def)
  have "served_soundly ?host cs"
    by (rule verify_sound [OF edited_trustworthy _ _ req(1) [unfolded demo_request_def], of 0 73])
       (simp_all add: req(3) cache_system_new_def demo_host_at_def metadata_new_def cache_sound_def)
  then have "served_soundly ?host ?cs1" by (simp add: apply_changes_def downgrade_sound split: prod.splits)
  with hash_file_observed(2) [OF edited_trustworthy] have
    "observed demo_digest edited_files ''src/a.c'' 200 216 x"
    if "hash_file DEFAULT_MTIME_TOLERANCE_NS demo_digest edited_files 200 ''src/a.c'' 0 ?cs1 = (c, Inr x)" for c x
    using that by (fastforce simp: demo_host_at_def demo_norm)
  then have old: "snd (hash_file DEFAULT_MTIME_TOLERANCE_NS demo_digest edited_files 200 ''src/a.c'' 0 (ds_cache st')) \<noteq> Inr (demo_digest ''a'')"
    using edited_observed demo_digests_differ unfolding st'(1) by (metis prod.collapse)
  have "cs_current_clock cs = 0"
    by (simp add: cs_current_clock_def current_clock_def j journal_new_def journal_with_capacity_def)
  with req rec hit old stale show ?thesis by (auto simp: st_def)
qed


end
