(* ===== verification/FileScan.thy ===== *)
theory FileScan
  imports RequestKeys Metadata
begin

text \<open>
  Selecting the files of a tree (\<^verbatim>\<open>crates/zccache-fingerprint/src/scan.rs\<close>): by extension, or by glob
  patterns with directories pruned early.  The walk over the tree, the globs and the canonical root come
  from libraries and are arguments.  A file is named by its components below the root.
\<close>

subsection \<open>Scanned files\<close>

record scanned_file =
  sf_absolute :: npath
  sf_relative :: string

datatype fingerprint_error =
    FpIo io_error
  | FpJson
  | ScanError npath string
  | NoPendingData npath

text \<open>
  A directory tree as the library presents it: the canonical path of a root, and the entries below it
  that a walk reports when it descends only into directories the predicate keeps; each is an error or
  the components of a path with whether it is a file.
\<close>

record dir_tree =
  dt_canonical :: "string \<Rightarrow> npath option"
  dt_walk :: "npath \<Rightarrow> (string list \<Rightarrow> bool) \<Rightarrow> (string + (string list \<times> bool)) list"

text \<open>Names in the tree are UTF-8, so the lossy conversion of the source leaves them as they are.\<close>

definition normalize_slashes :: "string list \<Rightarrow> string" where
  "normalize_slashes rel = LinkKeys.join_with sl rel"

fun walk_loop ::
    "(string list \<Rightarrow> bool) \<Rightarrow> npath \<Rightarrow> (string + (string list \<times> bool)) list \<Rightarrow> fingerprint_error + scanned_file list" where
  "walk_loop keep root [] = Inr []"
| "walk_loop keep root (Inl message # entries) = Inl (ScanError root (''directory walk error: '' @ message))"
| "walk_loop keep root (Inr (rel, is_file) # entries) =
     (case walk_loop keep root entries of
        Inl e \<Rightarrow> Inl e
      | Inr files \<Rightarrow>
          Inr (if is_file \<and> keep rel
               then \<lparr> sf_absolute = Paths.normalize (path_join root (normalize_slashes rel)), sf_relative = normalize_slashes rel \<rparr> # files
               else files))"

definition walk_result :: "fingerprint_error + scanned_file list \<Rightarrow> fingerprint_error + scanned_file list" where
  "walk_result r = (case r of Inl e \<Rightarrow> Inl e | Inr files \<Rightarrow> Inr (sort_key sf_relative files))"

definition has_extension :: "string list \<Rightarrow> string list \<Rightarrow> bool" where
  "has_extension extensions rel \<longleftrightarrow>
     extensions = [] \<or>
     (case path_extension (normalize_slashes rel) of
        None \<Rightarrow> False
      | Some ext \<Rightarrow> list_ex (\<lambda>e. eq_ignore_ascii_case e ext) extensions)"

definition walk_files :: "dir_tree \<Rightarrow> string \<Rightarrow> string list \<Rightarrow> string list \<Rightarrow> fingerprint_error + scanned_file list" where
  "walk_files t root extensions exclude_dirs =
     (case dt_canonical t root of
        None \<Rightarrow> Inl (ScanError root ''cannot canonicalize root'')
      | Some root \<Rightarrow>
          walk_result (walk_loop (has_extension extensions) root
            (dt_walk t root (\<lambda>directory. last directory \<notin> set exclude_dirs))))"

subsection \<open>Glob patterns\<close>

definition is_wildcard :: "char \<Rightarrow> bool" where
  "is_wildcard c \<longleftrightarrow> c \<in> set ''*?[{''"

definition with_slashes :: "string \<Rightarrow> string" where
  "with_slashes pattern = map (\<lambda>c. if c = bs then sl else c) pattern"

definition literal_part :: "string \<Rightarrow> string" where
  "literal_part pattern = takeWhile (\<lambda>c. \<not> is_wildcard c) (with_slashes pattern)"

text \<open>The text before the last slash, or nothing.\<close>

definition before_last_slash :: "string \<Rightarrow> string" where
  "before_last_slash s = (if sl \<in> set s then rev (tl (dropWhile (\<lambda>c. c \<noteq> sl) (rev s))) else [])"

fun include_prefix_loop :: "string list \<Rightarrow> string list option" where
  "include_prefix_loop [] = Some []"
| "include_prefix_loop (pattern # patterns) =
     (let dir_prefix = before_last_slash (literal_part pattern)
      in if dir_prefix = [] then None else map_option (\<lambda>ps. dir_prefix # ps) (include_prefix_loop patterns))"

definition extract_include_dir_prefixes :: "string list \<Rightarrow> string list option" where
  "extract_include_dir_prefixes includes = (if includes = [] then None else include_prefix_loop includes)"

definition dir_matches_include_prefixes :: "string \<Rightarrow> string list \<Rightarrow> bool" where
  "dir_matches_include_prefixes rel_dir ps =
     list_ex (\<lambda>p. p = rel_dir \<or>
       (length rel_dir < length p \<and> prefix rel_dir p \<and> p ! length rel_dir = sl) \<or>
       (length p < length rel_dir \<and> prefix p rel_dir \<and> rel_dir ! length p = sl)) ps"

definition build_dir_exclude_set :: "string list \<Rightarrow> string list" where
  "build_dir_exclude_set exclude = List.map_filter (strip_suffix ''/**'') exclude"

text \<open>A set of patterns matches what one of them matches.\<close>

definition is_match :: "(string \<Rightarrow> string \<Rightarrow> bool) \<Rightarrow> string list \<Rightarrow> string \<Rightarrow> bool" where
  "is_match glob patterns path = list_ex (\<lambda>pattern. glob pattern path) patterns"

definition prune_directory :: "(string \<Rightarrow> string \<Rightarrow> bool) \<Rightarrow> string list \<Rightarrow> string list option \<Rightarrow> string list \<Rightarrow> bool" where
  "prune_directory glob dir_excludes include_prefixes rel =
     (if dir_excludes = [] \<and> include_prefixes = None then True
      else if rel = [] then True
      else (let rel_str = normalize_slashes rel
            in if dir_excludes \<noteq> [] \<and> is_match glob dir_excludes rel_str then False
               else (case include_prefixes of None \<Rightarrow> True | Some ps \<Rightarrow> dir_matches_include_prefixes rel_str ps)))"

definition keep_file :: "(string \<Rightarrow> string \<Rightarrow> bool) \<Rightarrow> string list \<Rightarrow> string list \<Rightarrow> string list \<Rightarrow> bool" where
  "keep_file glob includes exclude rel =
     (let relative = normalize_slashes rel;
          has_non_dir_excludes = list_ex (\<lambda>p. \<not> suffix ''/**'' p) exclude
      in if exclude \<noteq> [] \<and> is_match glob exclude relative then False
         else if includes \<noteq> [] \<and> \<not> is_match glob includes relative then False
         else \<not> (has_non_dir_excludes \<and> exclude \<noteq> [] \<and>
           list_ex (\<lambda>k. is_match glob exclude (normalize_slashes (take k rel))) (rev [1 ..< length rel])))"

definition walk_files_glob ::
    "(string \<Rightarrow> string \<Rightarrow> bool) \<Rightarrow> (string list \<Rightarrow> bool) \<Rightarrow> dir_tree \<Rightarrow> string \<Rightarrow> string list \<Rightarrow> string list \<Rightarrow>
       fingerprint_error + scanned_file list" where
  "walk_files_glob glob compiles t root includes exclude =
     (case dt_canonical t root of
        None \<Rightarrow> Inl (ScanError root ''cannot canonicalize root'')
      | Some root \<Rightarrow>
          if \<not> compiles includes \<or> \<not> compiles exclude then Inl (ScanError [] ''failed to compile glob set'')
          else if \<not> compiles (build_dir_exclude_set exclude) then Inl (ScanError [] ''failed to compile dir exclude set'')
          else walk_result (walk_loop (keep_file glob includes exclude) root
            (dt_walk t root (prune_directory glob (build_dir_exclude_set exclude) (extract_include_dir_prefixes includes)))))"

subsection \<open>Pruning\<close>

lemma slashes_split: "n \<noteq> [] \<Longrightarrow> k < length n \<Longrightarrow> 0 < k \<Longrightarrow>
  LinkKeys.join_with c n = LinkKeys.join_with c (take k n) @ [c] @ LinkKeys.join_with c (drop k n)"
proof (induction c n arbitrary: k rule: LinkKeys.join_with.induct)
  case (3 c s x xs)
  then show ?case
    by (cases k) (auto simp: take_Cons' drop_Cons' split: if_splits)
qed auto

lemma ancestor_prefix: "0 < k \<Longrightarrow> k < length rel \<Longrightarrow> prefix (normalize_slashes (take k rel) @ [sl]) (normalize_slashes rel)"
  using slashes_split [of rel k sl] by (cases rel) (auto simp: normalize_slashes_def prefix_def)

lemma before_last_slash_prefix: "before_last_slash s \<noteq> [] \<Longrightarrow> prefix (before_last_slash s @ [sl]) s"
proof -
  assume a: "before_last_slash s \<noteq> []"
  then have "sl \<in> set (rev s)" by (auto simp: before_last_slash_def split: if_splits)
  then obtain u v where uv: "rev s = u @ sl # v" "sl \<notin> set u" by (metis split_list_first)
  then have "dropWhile (\<lambda>c. c \<noteq> sl) (rev s) = sl # v" by (induction u arbitrary: s) (auto simp: dropWhile_append3)
  moreover from uv have "s = rev v @ sl # rev u" by (metis rev_append rev_rev_ident rev.simps(2) append.assoc append_Cons append_Nil)
  ultimately show ?thesis by (simp add: before_last_slash_def prefix_def)
qed

text \<open>Two directories above one file are comparable.\<close>

lemma above_same_file:
  assumes "prefix (p @ [sl]) f" and "prefix (d @ [sl]) f" and "p \<in> set ps"
  shows "dir_matches_include_prefixes d ps"
proof -
  from assms(1,2) have "prefix (p @ [sl]) (d @ [sl]) \<or> prefix (d @ [sl]) (p @ [sl])" by (rule prefix_same_cases)
  then have "p = d \<or> (length d < length p \<and> prefix d p \<and> p ! length d = sl) \<or>
      (length p < length d \<and> prefix p d \<and> d ! length p = sl)"
    by (auto simp: prefix_def append_eq_append_conv2 nth_append Cons_eq_append_conv append_eq_Cons_conv)
  with assms(3) show ?thesis by (auto simp: dir_matches_include_prefixes_def list_ex_iff)
qed

lemma include_prefix_member:
  "include_prefix_loop patterns = Some ps \<Longrightarrow> pattern \<in> set patterns \<Longrightarrow>
     before_last_slash (literal_part pattern) \<in> set ps \<and> before_last_slash (literal_part pattern) \<noteq> []"
  by (induction patterns arbitrary: ps) (auto simp: Let_def split: if_splits)

text \<open>
  What is asked of the glob library, for the patterns of one call: an exclude pattern that ends in
  \<^verbatim>\<open>/**\<close> matches exactly what lies below a match of the rest (so for a rest that does not itself end in
  \<^verbatim>\<open>**\<close>), and what an include pattern matches starts with its text before the first wildcard.  Include
  patterns contain no backslash: it would escape a wildcard for the library, but the code turns it into a
  slash.  A walk without errors reports the entries all of whose directories are kept.
\<close>

definition below_pattern :: "(string \<Rightarrow> string \<Rightarrow> bool) \<Rightarrow> string \<Rightarrow> string list \<Rightarrow> bool" where
  "below_pattern glob q rel \<longleftrightarrow> (\<forall>n \<le> length rel. glob (q @ ''/**'') (normalize_slashes (take n rel)) \<longleftrightarrow>
     (\<exists>k. 0 < k \<and> k < n \<and> glob q (normalize_slashes (take k rel))))"

definition below_patterns :: "(string \<Rightarrow> string \<Rightarrow> bool) \<Rightarrow> string list \<Rightarrow> (string list \<times> bool) list \<Rightarrow> bool" where
  "below_patterns glob exclude tree \<longleftrightarrow>
     (\<forall>q \<in> set (build_dir_exclude_set exclude). \<forall>(rel, _) \<in> set tree. below_pattern glob q rel)"

definition literal_patterns :: "(string \<Rightarrow> string \<Rightarrow> bool) \<Rightarrow> string list \<Rightarrow> bool" where
  "literal_patterns glob patterns \<longleftrightarrow>
     (\<forall>pattern \<in> set patterns. bs \<notin> set pattern \<and>
        (\<forall>path. glob pattern path \<longrightarrow> prefix (takeWhile (\<lambda>c. \<not> is_wildcard c) pattern) path))"

lemma literal_part_plain: "bs \<notin> set pattern \<Longrightarrow> literal_part pattern = takeWhile (\<lambda>c. \<not> is_wildcard c) pattern"
  by (auto simp: literal_part_def with_slashes_def intro!: arg_cong [where f = "takeWhile _"] map_idI)

definition walks :: "dir_tree \<Rightarrow> npath \<Rightarrow> (string list \<times> bool) list \<Rightarrow> bool" where
  "walks t root tree \<longleftrightarrow> (\<forall>keep. dt_walk t root keep =
     map Inr (filter (\<lambda>(rel, _). \<forall>k. 0 < k \<and> k < length rel \<longrightarrow> keep (take k rel)) tree))"

text \<open>The selection without any pruning: neither the file nor a directory above it is excluded, and it is included.\<close>

definition selected :: "(string \<Rightarrow> string \<Rightarrow> bool) \<Rightarrow> string list \<Rightarrow> string list \<Rightarrow> string list \<Rightarrow> bool" where
  "selected glob includes exclude rel \<longleftrightarrow>
     \<not> (\<exists>k pattern. 0 < k \<and> k \<le> length rel \<and> pattern \<in> set exclude \<and> glob pattern (normalize_slashes (take k rel))) \<and>
     (includes = [] \<or> (\<exists>pattern \<in> set includes. glob pattern (normalize_slashes rel)))"

definition scanned :: "npath \<Rightarrow> string list \<Rightarrow> scanned_file" where
  "scanned root rel = \<lparr> sf_absolute = Paths.normalize (path_join root (normalize_slashes rel)), sf_relative = normalize_slashes rel \<rparr>"

lemma walk_loop_reads:
  "walk_loop keep root (map Inr entries) = Inr (map (scanned root) (map fst (filter (\<lambda>(rel, is_file). is_file \<and> keep rel) entries)))"
  by (induction entries) (simp_all add: scanned_def split: prod.split)

lemma dir_exclude_member: "q \<in> set (build_dir_exclude_set exclude) \<longleftrightarrow> q @ ''/**'' \<in> set exclude"
proof -
  have s: "strip_suffix x p = Some q \<longleftrightarrow> p = q @ x" for p x
    by (auto simp: strip_suffix_def suffix_def)
  show ?thesis
    unfolding build_dir_exclude_set_def
  proof (induction exclude)
    case (Cons p exclude)
    with s [of "''/**''" p] show ?case
      by (cases "strip_suffix ''/**'' p") (simp_all only: map_filter_simps option.case list.set insert_iff option.inject, blast+)
  qed (simp add: map_filter_simps)
qed

text \<open>A directory above a selected file is kept.\<close>

lemma selected_not_pruned:
  assumes lit: "literal_patterns glob includes" and sel: "selected glob includes exclude rel"
    and b: "\<forall>q \<in> set (build_dir_exclude_set exclude). below_pattern glob q rel"
    and k: "0 < k" "k < length rel"
  shows "prune_directory glob (build_dir_exclude_set exclude) (extract_include_dir_prefixes includes) (take k rel)"
proof -
  let ?d = "normalize_slashes (take k rel)"
  have "\<not> is_match glob (build_dir_exclude_set exclude) ?d"
  proof
    assume "is_match glob (build_dir_exclude_set exclude) ?d"
    then obtain q where q: "q \<in> set (build_dir_exclude_set exclude)" "glob q ?d"
      by (auto simp: is_match_def list_ex_iff)
    from b q(1) have "below_pattern glob q rel" by blast
    with q(2) k have "glob (q @ ''/**'') (normalize_slashes (take (length rel) rel))"
      unfolding below_pattern_def by blast
    with sel q(1) k show False unfolding selected_def dir_exclude_member by (metis le_refl order_less_trans)
  qed
  moreover have "dir_matches_include_prefixes ?d ps" if ps: "extract_include_dir_prefixes includes = Some ps" for ps
  proof -
    from ps have ps: "includes \<noteq> []" "include_prefix_loop includes = Some ps"
      by (auto simp: extract_include_dir_prefixes_def split: if_splits)
    with sel obtain pattern where pat: "pattern \<in> set includes" "glob pattern (normalize_slashes rel)"
      by (auto simp: selected_def)
    let ?p = "before_last_slash (literal_part pattern)"
    from include_prefix_member [OF ps(2) pat(1)] have p: "?p \<in> set ps" "?p \<noteq> []" by simp_all
    from lit pat have "prefix (literal_part pattern) (normalize_slashes rel)"
      by (auto simp: literal_patterns_def literal_part_plain)
    with before_last_slash_prefix [OF p(2)] have "prefix (?p @ [sl]) (normalize_slashes rel)" by (rule prefix_order.order_trans)
    from above_same_file [OF this ancestor_prefix [OF k] p(1)] show ?thesis .
  qed
  ultimately show ?thesis by (auto simp: prune_directory_def Let_def split: option.splits)
qed

text \<open>Among the files the walk reports, the filter keeps the selected ones.\<close>

lemma kept_selected:
  assumes b: "\<forall>q \<in> set (build_dir_exclude_set exclude). below_pattern glob q rel"
    and "rel \<noteq> []"
  shows "keep_file glob includes exclude rel \<longleftrightarrow> selected glob includes exclude rel"
proof -
  let ?n = "length rel"
  have self: "is_match glob exclude (normalize_slashes (take k rel)) \<Longrightarrow> is_match glob exclude (normalize_slashes rel)"
    if "\<not> list_ex (\<lambda>p. \<not> suffix ''/**'' p) exclude" "k \<le> ?n" for k
  proof -
    assume "is_match glob exclude (normalize_slashes (take k rel))"
    then obtain p where p: "p \<in> set exclude" "glob p (normalize_slashes (take k rel))" by (auto simp: is_match_def list_ex_iff)
    with that(1) obtain q where q: "p = q @ ''/**''" by (auto simp: list_ex_iff suffix_def)
    with b p(1) have below: "below_pattern glob q rel" by (simp add: dir_exclude_member)
    with p(2) q that(2) obtain j where "0 < j" "j < k" "glob q (normalize_slashes (take j rel))"
      unfolding below_pattern_def by blast
    with below that(2) have "glob p (normalize_slashes (take ?n rel))"
      unfolding q below_pattern_def by (meson le_refl order_less_le_trans)
    with p(1) show ?thesis by (auto simp: is_match_def list_ex_iff)
  qed
  have "keep_file glob includes exclude rel \<longleftrightarrow>
      (\<forall>k. 0 < k \<and> k \<le> ?n \<longrightarrow> \<not> is_match glob exclude (normalize_slashes (take k rel))) \<and>
      (includes = [] \<or> is_match glob includes (normalize_slashes rel))"
  proof (cases "list_ex (\<lambda>p. \<not> suffix ''/**'' p) exclude")
    case True
    then have "exclude \<noteq> []" by auto
    with True show ?thesis
      using assms(2)
      by (auto simp: keep_file_def Let_def list_ex_iff)
  next
    case False
    with self [OF False] assms(2) show ?thesis
      by (auto simp: keep_file_def Let_def is_match_def)
  qed
  then show ?thesis by (auto simp: selected_def is_match_def list_ex_iff)
qed


text \<open>
  C30. Pruning changes nothing.  The glob walk, which skips excluded directories and directories no include
  pattern can reach, reports an error when a pattern set does not compile, and otherwise returns the
  files that a full walk selects, sorted by their relative path: those whose own path and directories
  match no exclude pattern and whose path matches an include pattern, if there is one.  This holds for a
  walk without errors, for include patterns without backslashes that match only paths starting with
  their text before the first wildcard, and for exclude patterns ending in \<^verbatim>\<open>/**\<close> that match exactly what
  lies below a match of the rest.
\<close>

theorem walk_files_glob_selects:
  assumes "dt_canonical t root = Some root'" and "walks t root' tree"
    and "below_patterns glob exclude tree" and "literal_patterns glob includes" and "\<And>rel f. (rel, f) \<in> set tree \<Longrightarrow> rel \<noteq> []"
  shows "walk_files_glob glob compiles t root includes exclude =
    (if \<not> compiles includes \<or> \<not> compiles exclude then Inl (ScanError [] ''failed to compile glob set'')
     else if \<not> compiles (build_dir_exclude_set exclude) then Inl (ScanError [] ''failed to compile dir exclude set'')
     else Inr (sort_key sf_relative (map (scanned root') (map fst (filter (\<lambda>(rel, is_file). is_file \<and> selected glob includes exclude rel) tree)))))"
proof -
  let ?prune = "prune_directory glob (build_dir_exclude_set exclude) (extract_include_dir_prefixes includes)"
  have "filter (\<lambda>(rel, is_file). is_file \<and> keep_file glob includes exclude rel)
      (filter (\<lambda>(rel, _). \<forall>k. 0 < k \<and> k < length rel \<longrightarrow> ?prune (take k rel)) tree) =
    filter (\<lambda>(rel, is_file). is_file \<and> selected glob includes exclude rel) tree" (is "?l = ?r")
    unfolding filter_filter
  proof (rule filter_cong [OF refl])
    fix x assume x: "x \<in> set tree"
    obtain rel f where rf: "x = (rel, f)" by fastforce
    have below: "\<forall>q \<in> set (build_dir_exclude_set exclude). below_pattern glob q rel"
      using assms(3) x rf unfolding below_patterns_def by blast
    from selected_not_pruned [OF assms(4) _ below] kept_selected [OF below, of "includes"] assms(5) x rf
    show "(case x of (rel, _) \<Rightarrow> \<forall>k. 0 < k \<and> k < length rel \<longrightarrow> ?prune (take k rel)) \<and>
        (case x of (rel, is_file) \<Rightarrow> is_file \<and> keep_file glob includes exclude rel) \<longleftrightarrow>
      (case x of (rel, is_file) \<Rightarrow> is_file \<and> selected glob includes exclude rel)"
      by auto
  qed
  with assms(1,2) show ?thesis
    by (simp add: walk_files_glob_def walks_def walk_loop_reads walk_result_def)
qed

text \<open>A tree with a pruned build directory, and the globs that occur in it.\<close>

definition demo_glob :: "string \<Rightarrow> string \<Rightarrow> bool" where
  "demo_glob pattern path \<longleftrightarrow>
     (case strip_suffix ''/**'' pattern of
        Some q \<Rightarrow> prefix (q @ [sl]) path
      | None \<Rightarrow> path = pattern)"

definition demo_tree :: "(string list \<times> bool) list" where
  "demo_tree = [([''src'', ''b''], True), ([''src'', ''a''], True), ([''out'', ''c''], True)]"

definition demo_dirs :: dir_tree where
  "demo_dirs = \<lparr> dt_canonical = Some,
     dt_walk = (\<lambda>root keep. map Inr (filter (\<lambda>(rel, _). \<forall>k. 0 < k \<and> k < length rel \<longrightarrow> keep (take k rel)) demo_tree)) \<rparr>"


lemma strip_suffix_append: "strip_suffix x (q @ x) = Some q"
  by (simp add: strip_suffix_def suffixI)

lemma strip_suffix_other: "c \<notin> set s \<Longrightarrow> strip_suffix (c # x) s = None"
  by (auto simp: strip_suffix_def suffix_def)

lemma demo_glob_below:
  assumes "sl \<notin> set a" and "a \<noteq> []" and "sl \<notin> set b" and "sl \<notin> set q"
  shows "below_pattern demo_glob q [a, b]"
proof -
  have p: "prefix (q @ [sl]) (a @ sl # b) \<longleftrightarrow> q = a"
  proof
    assume "prefix (q @ [sl]) (a @ sl # b)"
    then obtain r where "q @ sl # r = a @ sl # b" by (auto simp: prefix_def)
    with assms show "q = a" by (auto simp: append_eq_append_conv2 Cons_eq_append_conv append_eq_Cons_conv)
  qed simp
  have q: "\<not> prefix (q @ [sl]) a" using assms(1) by (auto simp: prefix_def)
  have g: "demo_glob (q @ ''/**'') path \<longleftrightarrow> prefix (q @ [sl]) path" for path
    unfolding demo_glob_def strip_suffix_append by simp
  have i: "demo_glob q path \<longleftrightarrow> path = q" for path
    unfolding demo_glob_def strip_suffix_other [OF assms(4)] by simp
  have j: "normalize_slashes [a, b] = a @ sl # b" "normalize_slashes [a] = a" "normalize_slashes [] = []"
    by (simp_all add: normalize_slashes_def)
  have "demo_glob (q @ ''/**'') (normalize_slashes (take n [a, b])) \<longleftrightarrow>
      (\<exists>k. 0 < k \<and> k < n \<and> demo_glob q (normalize_slashes (take k [a, b])))" if n: "n \<le> 2" for n
  proof -
    consider "n = 0" | "n = 1" | "n = 2" using n by linarith
    then show ?thesis
    proof cases
      case 3
      have "(\<exists>k. 0 < k \<and> k < (2 :: nat) \<and> demo_glob q (normalize_slashes (take k [a, b]))) \<longleftrightarrow> demo_glob q (normalize_slashes (take 1 [a, b]))"
        by (auto simp: less_2_cases_iff)
      with 3 p j i g show ?thesis by auto
    qed (use q j g in simp_all)
  qed
  then show ?thesis by (simp add: below_pattern_def)
qed

lemma demo_glob_laws: "below_patterns demo_glob [''out/**''] demo_tree" "literal_patterns demo_glob [''src/**'']"
proof -
  have "build_dir_exclude_set [''out/**''] = [''out'']" by code_simp
  then show "below_patterns demo_glob [''out/**''] demo_tree"
    by (auto simp: below_patterns_def demo_tree_def intro!: demo_glob_below)
  have "takeWhile (\<lambda>c. \<not> is_wildcard c) ''src/**'' = ''src/''" by code_simp
  then show "literal_patterns demo_glob [''src/**'']"
    using strip_suffix_append [of "''/**''" "''src''"] unfolding literal_patterns_def demo_glob_def by simp
qed

lemma demo_selected:
  "map fst (filter (\<lambda>(rel, is_file). is_file \<and> selected demo_glob [''src/**''] [''out/**''] rel) demo_tree) =
     [[''src'', ''b''], [''src'', ''a'']]"
proof -
  have k: "keep_file demo_glob [''src/**''] [''out/**''] [''src'', ''b'']"
    "keep_file demo_glob [''src/**''] [''out/**''] [''src'', ''a'']"
    "\<not> keep_file demo_glob [''src/**''] [''out/**''] [''out'', ''c'']"
    by code_simp+
  have "build_dir_exclude_set [''out/**''] = [''out'']" by code_simp
  then have "selected demo_glob i [''out/**''] [a, b] \<longleftrightarrow> keep_file demo_glob i [''out/**''] [a, b]"
    if "sl \<notin> set a" "a \<noteq> []" "sl \<notin> set b" for i a b
    using kept_selected [of "[''out/**'']" demo_glob "[a, b]" i] demo_glob_below [OF that, of "''out''"] by simp
  with k show ?thesis by (simp add: demo_tree_def)
qed

lemma demo_sorted:
  "sort_key sf_relative [scanned ''/p'' [''src'', ''b''], scanned ''/p'' [''src'', ''a'']] =
     [scanned ''/p'' [''src'', ''a''], scanned ''/p'' [''src'', ''b'']]"
  by code_simp

theorem walk_files_glob_selects_witness:
  "walk_files_glob demo_glob (\<lambda>_. True) demo_dirs ''/p'' [''src/**''] [''out/**''] =
     Inr [scanned ''/p'' [''src'', ''a''], scanned ''/p'' [''src'', ''b'']]"
proof -
  have "walk_files_glob demo_glob (\<lambda>_. True) demo_dirs ''/p'' [''src/**''] [''out/**''] =
    Inr (sort_key sf_relative (map (scanned ''/p'') (map fst (filter (\<lambda>(rel, is_file). is_file \<and>
      selected demo_glob [''src/**''] [''out/**''] rel) demo_tree))))"
    by (subst walk_files_glob_selects [OF _ _ demo_glob_laws, of _ _ "''/p''"]) (auto simp: demo_dirs_def walks_def demo_tree_def)
  then show ?thesis unfolding demo_selected by (simp only: list.map demo_sorted)
qed

text \<open>
  With a backslash, pruning does lose files.  Let the library read \<^verbatim>\<open>src/a\[b\]/x.rs\<close> as the file
  \<^verbatim>\<open>src/a[b]/x.rs\<close>.  The code takes the backslashes for slashes, looks for the directory \<^verbatim>\<open>src/a\<close>, and
  does not descend into \<^verbatim>\<open>src/a[b]\<close>: the file is selected but not returned.
\<close>

definition escaped_include :: string where
  "escaped_include = ''src/a'' @ [bs] @ ''[b'' @ [bs] @ '']/x.rs''"

theorem escaped_include_pruned:
  assumes "dt_canonical t root = Some root'" and "walks t root' [([''src'', ''a[b]'', ''x.rs''], True)]"
    and "\<And>patterns. compiles patterns" and "glob escaped_include ''src/a[b]/x.rs''"
  shows "selected glob [escaped_include] [] [''src'', ''a[b]'', ''x.rs''] \<and>
    walk_files_glob glob compiles t root [escaped_include] [] = Inr []"
proof -
  have p: "extract_include_dir_prefixes [escaped_include] = Some [''src/a'']" by code_simp
  have d: "\<not> dir_matches_include_prefixes ''src/a[b]'' [''src/a'']" by code_simp
  have n: "normalize_slashes [''src'', ''a[b]'', ''x.rs''] = ''src/a[b]/x.rs''" "normalize_slashes [''src'', ''a[b]''] = ''src/a[b]''"
    by code_simp+
  have "\<not> prune_directory glob [] (Some [''src/a'']) [''src'', ''a[b]'']"
    using d by (simp add: prune_directory_def n)
  then have "\<not> (\<forall>k. 0 < k \<and> k < length [''src'', ''a[b]'', ''x.rs''] \<longrightarrow>
      prune_directory glob [] (Some [''src/a'']) (take k [''src'', ''a[b]'', ''x.rs'']))"
    by (intro notI) (elim allE [of _ 2], simp)
  with assms have "walk_files_glob glob compiles t root [escaped_include] [] = Inr []"
    by (simp only: walk_files_glob_def walks_def p build_dir_exclude_set_def map_filter_simps) (simp add: walk_result_def)
  with assms(4) n show ?thesis by (simp add: selected_def)
qed

end
