(* ===== verification/Fingerprint.thy ===== *)
theory Fingerprint
  imports FileScan
begin

text \<open>
  The fingerprint caches (\<^verbatim>\<open>two_layer.rs\<close>, \<^verbatim>\<open>hash_cache.rs\<close>, \<^verbatim>\<open>persist.rs\<close> and \<^verbatim>\<open>decision.rs\<close> in
  \<^verbatim>\<open>crates/zccache-fingerprint/src\<close>): whether a set of files changed since an operation last succeeded.
  A check stages a snapshot of the files, and the mark after the operation commits it as the cache file.
  Several cycles may share one cache file, so every access to it is a step of its own and gets the file
  as it finds it.  The digest and the clock are arguments; the JSON of a stored value is the value.
\<close>

subsection \<open>Decisions and stored data\<close>

datatype run_reason = NoCacheFile | CacheCorrupt | PreviousFailure | ContentChanged

datatype cache_decision = Skip | Run run_reason

fun should_skip :: "cache_decision \<Rightarrow> bool" where
  "should_skip Skip = True"
| "should_skip (Run _) = False"

fun should_run :: "cache_decision \<Rightarrow> bool" where
  "should_run Skip = False"
| "should_run (Run _) = True"

definition CACHE_VERSION :: nat where "CACHE_VERSION = 1"

record fingerprint_entry =
  en_mtime_ns :: u64
  en_size :: u64
  en_hash :: string

record two_layer_data =
  tl_version :: nat
  tl_status :: string
  tl_timestamp_ns :: u64
  tl_files :: "(string \<times> fingerprint_entry) list"
  tl_max_source_mtime_ns :: u64

record hash_cache_data =
  hc_version :: nat
  hc_hash :: string
  hc_status :: string
  hc_timestamp_ns :: u64
  hc_file_count :: nat
  hc_max_source_mtime_ns :: u64

definition two_layer_data_new :: "u64 \<Rightarrow> string \<Rightarrow> (string \<times> fingerprint_entry) list \<Rightarrow> two_layer_data" where
  "two_layer_data_new now status files =
     \<lparr> tl_version = CACHE_VERSION, tl_status = status, tl_timestamp_ns = now, tl_files = files,
       tl_max_source_mtime_ns = fold max (map (\<lambda>(_, e). en_mtime_ns e) files) 0 \<rparr>"

definition hash_cache_data_with_max_mtime :: "u64 \<Rightarrow> string \<Rightarrow> string \<Rightarrow> nat \<Rightarrow> u64 \<Rightarrow> hash_cache_data" where
  "hash_cache_data_with_max_mtime now hash status file_count max_source_mtime_ns =
     \<lparr> hc_version = CACHE_VERSION, hc_hash = hash, hc_status = status, hc_timestamp_ns = now,
       hc_file_count = file_count, hc_max_source_mtime_ns = max_source_mtime_ns \<rparr>"

definition hash_cache_data_new :: "u64 \<Rightarrow> string \<Rightarrow> string \<Rightarrow> nat \<Rightarrow> hash_cache_data" where
  "hash_cache_data_new now hash status file_count = hash_cache_data_with_max_mtime now hash status file_count 0"

subsection \<open>The disk\<close>

text \<open>
  A file of the cache: what a read of it meets.  The two kinds of data are told apart by their fields, so
  each reader takes the other kind for a corrupt file.
\<close>

datatype stored_data = TwoLayer two_layer_data | HashData hash_cache_data

datatype cache_file = Absent | Unreadable io_error | Garbled | Stored stored_data

record cache_disk =
  cd_cache :: cache_file
  cd_pending :: cache_file
  cd_cache_mtime :: systime

text \<open>The files of the project, as one check finds them.\<close>

record source_files =
  so_stat :: "npath \<Rightarrow> io_error + (systime \<times> u64)"
  so_denied :: "npath \<Rightarrow> io_error option"
  so_content :: "npath \<Rightarrow> string"

definition so_read :: "source_files \<Rightarrow> npath \<Rightarrow> io_error + string" where
  "so_read so path = (case so_denied so path of Some e \<Rightarrow> Inl e | None \<Rightarrow> Inr (so_content so path))"

definition to_ns :: "systime \<Rightarrow> u64" where
  "to_ns t = nat t mod u64_mod"

definition mtime_ns :: "source_files \<Rightarrow> npath \<Rightarrow> io_error + u64" where
  "mtime_ns so path = map_sum id (\<lambda>(t, _). to_ns t) (so_stat so path)"

definition file_size :: "source_files \<Rightarrow> npath \<Rightarrow> io_error + u64" where
  "file_size so path = map_sum id snd (so_stat so path)"

fun max_mtime_loop :: "source_files \<Rightarrow> u64 \<Rightarrow> scanned_file list \<Rightarrow> io_error + u64" where
  "max_mtime_loop so m [] = Inr m"
| "max_mtime_loop so m (f # fs) =
     (case mtime_ns so (sf_absolute f) of
        Inl e \<Rightarrow> Inl e
      | Inr mt \<Rightarrow> max_mtime_loop so (if m < mt then mt else m) fs)"

definition max_mtime_ns :: "source_files \<Rightarrow> scanned_file list \<Rightarrow> io_error + u64" where
  "max_mtime_ns so files = max_mtime_loop so 0 files"

definition cache_mtime_ns :: "cache_disk \<Rightarrow> io_error + u64" where
  "cache_mtime_ns d = (if cd_cache d = Absent then Inl NotFound else Inr (to_ns (cd_cache_mtime d)))"

text \<open>Reading fails open: a missing or corrupt file reads as nothing.\<close>

definition read_json :: "(stored_data \<Rightarrow> 'd option) \<Rightarrow> cache_file \<Rightarrow> fingerprint_error + 'd option" where
  "read_json project f =
     (case f of
        Absent \<Rightarrow> Inr None
      | Unreadable e \<Rightarrow> Inl (FpIo e)
      | Garbled \<Rightarrow> Inr None
      | Stored d \<Rightarrow> Inr (project d))"

fun as_two_layer :: "stored_data \<Rightarrow> two_layer_data option" where
  "as_two_layer (TwoLayer d) = Some d"
| "as_two_layer (HashData d) = None"

fun as_hash_data :: "stored_data \<Rightarrow> hash_cache_data option" where
  "as_hash_data (TwoLayer d) = None"
| "as_hash_data (HashData d) = Some d"

text \<open>An atomic write removes the target before the rename, so it can also fail with the target gone.\<close>

datatype write_outcome = Written | WriteFails io_error | RenameFails io_error

definition write_atomic :: "write_outcome \<Rightarrow> stored_data \<Rightarrow> cache_file \<Rightarrow> cache_file \<times> (fingerprint_error + unit)" where
  "write_atomic w data f =
     (case w of
        Written \<Rightarrow> (Stored data, Inr ())
      | WriteFails e \<Rightarrow> (f, Inl (FpIo e))
      | RenameFails e \<Rightarrow> (Absent, Inl (FpIo e)))"

definition write_pending :: "write_outcome \<Rightarrow> stored_data \<Rightarrow> cache_disk \<Rightarrow> cache_disk \<times> (fingerprint_error + unit)" where
  "write_pending w data d =
     (case write_atomic w data (cd_pending d) of (f, r) \<Rightarrow> (d\<lparr>cd_pending := f\<rparr>, r))"

definition read_pending :: "(stored_data \<Rightarrow> 'd option) \<Rightarrow> cache_disk \<Rightarrow> fingerprint_error + 'd option" where
  "read_pending project d = read_json project (cd_pending d)"

text \<open>Which kind of cache wrote the pending file; a file that cannot be read has none.\<close>

definition detect_pending_type :: "cache_disk \<Rightarrow> string option" where
  "detect_pending_type d =
     (case cd_pending d of
        Stored (HashData _) \<Rightarrow> Some ''hash''
      | Stored (TwoLayer _) \<Rightarrow> Some ''two-layer''
      | _ \<Rightarrow> None)"

definition commit_pending ::
    "write_outcome \<Rightarrow> systime \<Rightarrow> (stored_data \<Rightarrow> 'd option) \<Rightarrow> ('d \<Rightarrow> stored_data) \<Rightarrow> 'd \<Rightarrow> ('d \<Rightarrow> 'd) \<Rightarrow> cache_disk \<Rightarrow>
       cache_disk \<times> (fingerprint_error + unit)" where
  "commit_pending w now project inject claimed finalize d =
     (case read_pending project d of
        Inl e \<Rightarrow> (d, Inl e)
      | Inr pending \<Rightarrow>
          (let still_ours = (pending = Some claimed)
           in case write_atomic w (inject (finalize claimed)) (cd_cache d) of
                (f, Inl e) \<Rightarrow> (d\<lparr>cd_cache := f\<rparr>, Inl e)
              | (f, Inr _) \<Rightarrow>
                  (d\<lparr>cd_cache := f, cd_cache_mtime := now,
                     cd_pending := (if still_ours then Absent else cd_pending d)\<rparr>, Inr ())))"

definition promote_pending :: "cache_disk \<Rightarrow> cache_disk" where
  "promote_pending d =
     (if cd_pending d = Absent then d else d\<lparr>cd_cache := cd_pending d, cd_pending := Absent\<rparr>)"

definition remove_cache :: "cache_disk \<Rightarrow> cache_disk" where
  "remove_cache d = d\<lparr>cd_cache := Absent, cd_pending := Absent\<rparr>"

subsection \<open>The two-layer cache\<close>

record two_layer_cache =
  tc_cache_file :: npath
  tc_staged :: "two_layer_data option"

definition two_layer_cache_new :: "string \<Rightarrow> two_layer_cache" where
  "two_layer_cache_new file = \<lparr> tc_cache_file = Paths.normalize file, tc_staged = None \<rparr>"

definition hash_source :: "digest \<Rightarrow> source_files \<Rightarrow> npath \<Rightarrow> fingerprint_error + string" where
  "hash_source h so path = map_sum FpIo (\<lambda>content. hex_encode (h content)) (so_read so path)"

text \<open>One file of a check: its entry and whether it changed.\<close>

definition check_file ::
    "digest \<Rightarrow> source_files \<Rightarrow> (string \<times> fingerprint_entry) list \<Rightarrow> scanned_file \<Rightarrow> fingerprint_error + (string \<times> fingerprint_entry \<times> bool)" where
  "check_file h so cached_files f =
     (case so_stat so (sf_absolute f) of
        Inl e \<Rightarrow> Inl (FpIo e)
      | Inr (t, len) \<Rightarrow>
          (let mtime = to_ns t
           in case map_of cached_files (sf_relative f) of
                Some cached_entry \<Rightarrow>
                  if en_mtime_ns cached_entry = mtime \<and> en_size cached_entry = len
                  then Inr (sf_relative f, cached_entry, False)
                  else (case hash_source h so (sf_absolute f) of
                    Inl e \<Rightarrow> Inl e
                  | Inr hash_hex \<Rightarrow>
                      Inr (sf_relative f, \<lparr> en_mtime_ns = mtime, en_size = len, en_hash = hash_hex \<rparr>,
                        hash_hex \<noteq> en_hash cached_entry))
              | None \<Rightarrow>
                  (case hash_source h so (sf_absolute f) of
                     Inl e \<Rightarrow> Inl e
                   | Inr hash_hex \<Rightarrow>
                       Inr (sf_relative f, \<lparr> en_mtime_ns = mtime, en_size = len, en_hash = hash_hex \<rparr>, True))))"

text \<open>The files are examined in parallel; of several failures the code may report any, here it is the first.\<close>

fun collect_results :: "('a \<Rightarrow> 'e + 'b) \<Rightarrow> 'a list \<Rightarrow> 'e + 'b list" where
  "collect_results f [] = Inr []"
| "collect_results f (x # xs) =
     (case f x of
        Inl e \<Rightarrow> Inl e
      | Inr y \<Rightarrow> (case collect_results f xs of Inl e \<Rightarrow> Inl e | Inr ys \<Rightarrow> Inr (y # ys)))"

definition entries_map :: "(string \<times> fingerprint_entry) list \<Rightarrow> (string \<times> fingerprint_entry) list" where
  "entries_map es = foldl (\<lambda>m (k, e). bt_insert k e m) [] es"

definition compute_all :: "digest \<Rightarrow> source_files \<Rightarrow> scanned_file list \<Rightarrow> fingerprint_error + (string \<times> fingerprint_entry) list" where
  "compute_all h so files =
     (case collect_results (check_file h so []) files of
        Inl e \<Rightarrow> Inl e
      | Inr rs \<Rightarrow> Inr (entries_map (map (\<lambda>(rel, e, _). (rel, e)) rs)))"

definition stage ::
    "write_outcome \<Rightarrow> two_layer_data \<Rightarrow> cache_disk \<Rightarrow> two_layer_cache \<Rightarrow> cache_disk \<times> two_layer_cache \<times> (fingerprint_error + unit)" where
  "stage w pending d c =
     (case write_pending w (TwoLayer pending) d of
        (d, Inl e) \<Rightarrow> (d, c, Inl e)
      | (d, Inr _) \<Rightarrow> (d, c\<lparr>tc_staged := Some pending\<rparr>, Inr ()))"

text \<open>
  The fast path and the check.  The accesses to the cache file before the staging, the stat, the read of
  the fast path and the read of the check, each have the disk they find as an argument.
\<close>

definition try_mtime_fast_path ::
    "source_files \<Rightarrow> scanned_file list \<Rightarrow> cache_disk \<Rightarrow> cache_disk \<Rightarrow> two_layer_cache \<Rightarrow>
       two_layer_cache \<times> (fingerprint_error + cache_decision option)" where
  "try_mtime_fast_path so files d1 d2 c =
     (case (cache_mtime_ns d1, max_mtime_ns so files) of
        (Inr cache_mtime, Inr max_source_mtime) \<Rightarrow>
          if cache_mtime \<le> max_source_mtime then (c, Inr None)
          else (case read_json as_two_layer (cd_cache d2) of
            Inl e \<Rightarrow> (c, Inl e)
          | Inr (Some data) \<Rightarrow>
              if tl_status data = ''success'' \<and> length (tl_files data) = length files \<and>
                 tl_max_source_mtime_ns data = max_source_mtime
              then (c\<lparr>tc_staged := Some data\<rparr>, Inr (Some Skip))
              else (c, Inr None)
          | Inr None \<Rightarrow> (c, Inr None))
      | _ \<Rightarrow> (c, Inr None))"

text \<open>What a check decides from the data it read, with the snapshot it stages.\<close>

definition plan_check ::
    "digest \<Rightarrow> source_files \<Rightarrow> u64 \<Rightarrow> scanned_file list \<Rightarrow> two_layer_data option \<Rightarrow>
       fingerprint_error + (two_layer_data \<times> cache_decision)" where
  "plan_check h so now files cached =
     (case cached of
        None \<Rightarrow>
          (case compute_all h so files of
             Inl e \<Rightarrow> Inl e
           | Inr entries \<Rightarrow> Inr (two_layer_data_new now ''pending'' entries, Run NoCacheFile))
      | Some data \<Rightarrow>
          if tl_status data = ''failure''
          then (case compute_all h so files of
            Inl e \<Rightarrow> Inl e
          | Inr entries \<Rightarrow> Inr (two_layer_data_new now ''pending'' entries, Run PreviousFailure))
          else (case collect_results (check_file h so (tl_files data)) files of
            Inl e \<Rightarrow> Inl e
          | Inr results \<Rightarrow>
              (let entries = entries_map (map (\<lambda>(rel, e, _). (rel, e)) results);
                   changed = list_ex (\<lambda>(_, _, c). c) results \<or>
                     list_ex (\<lambda>k. map_of entries k = None) (map fst (tl_files data))
               in Inr (two_layer_data_new now ''pending'' entries, if changed then Run ContentChanged else Skip))))"

definition two_layer_check ::
    "digest \<Rightarrow> source_files \<Rightarrow> u64 \<Rightarrow> write_outcome \<Rightarrow> scanned_file list \<Rightarrow> cache_disk \<Rightarrow> cache_disk \<Rightarrow> cache_disk \<Rightarrow>
       cache_disk \<Rightarrow> two_layer_cache \<Rightarrow> cache_disk \<times> two_layer_cache \<times> (fingerprint_error + cache_decision)" where
  "two_layer_check h so now w files d1 d2 d3 d c =
     (case try_mtime_fast_path so files d1 d2 c of
        (c, Inl e) \<Rightarrow> (d, c, Inl e)
      | (c, Inr (Some decision)) \<Rightarrow> (d, c, Inr decision)
      | (c, Inr None) \<Rightarrow>
          (case read_json as_two_layer (cd_cache d3) of
             Inl e \<Rightarrow> (d, c, Inl e)
           | Inr cached \<Rightarrow>
               (case plan_check h so now files cached of
                  Inl e \<Rightarrow> (d, c, Inl e)
                | Inr (pending, decision) \<Rightarrow>
                    (case stage w pending d c of
                       (d, c, Inl e) \<Rightarrow> (d, c, Inl e)
                     | (d, c, Inr _) \<Rightarrow> (d, c, Inr decision)))))"

definition promote_with_status ::
    "string \<Rightarrow> systime \<Rightarrow> write_outcome \<Rightarrow> cache_disk \<Rightarrow> cache_disk \<Rightarrow> two_layer_cache \<Rightarrow>
       cache_disk \<times> two_layer_cache \<times> (fingerprint_error + unit)" where
  "promote_with_status status now w d1 d c =
     (case (case tc_staged c of
              Some data \<Rightarrow> Inr data
            | None \<Rightarrow>
                (case read_pending as_two_layer d1 of
                   Inl e \<Rightarrow> Inl e
                 | Inr None \<Rightarrow> Inl (NoPendingData (tc_cache_file c))
                 | Inr (Some data) \<Rightarrow> Inr data)) of
        Inl e \<Rightarrow> (d, c\<lparr>tc_staged := None\<rparr>, Inl e)
      | Inr claimed \<Rightarrow>
          (case commit_pending w now as_two_layer TwoLayer claimed
               (\<lambda>data. data\<lparr>tl_status := status, tl_timestamp_ns := to_ns now\<rparr>) d of
             (d, r) \<Rightarrow> (d, c\<lparr>tc_staged := None\<rparr>, r)))"

definition mark_success where "mark_success = promote_with_status ''success''"

definition mark_failure where "mark_failure = promote_with_status ''failure''"

definition try_skip_fast :: "string \<Rightarrow> two_layer_cache \<Rightarrow> fingerprint_error + cache_decision option" where
  "try_skip_fast root c = Inr None"

definition invalidate :: "cache_disk \<Rightarrow> two_layer_cache \<Rightarrow> cache_disk \<times> two_layer_cache" where
  "invalidate d c = (remove_cache d, c\<lparr>tc_staged := None\<rparr>)"

subsection \<open>The aggregate cache\<close>

record hash_cache =
  ha_cache_file :: npath
  ha_staged :: "hash_cache_data option"

definition hash_cache_new :: "string \<Rightarrow> hash_cache" where
  "hash_cache_new file = \<lparr> ha_cache_file = Paths.normalize file, ha_staged = None \<rparr>"

text \<open>\<^verbatim>\<open>usize::to_le_bytes\<close> on a 64-bit host.\<close>

definition le_bytes :: "nat \<Rightarrow> string" where
  "le_bytes n = map (\<lambda>i. char_of (n div 256 ^ i mod 256)) [0 ..< 8]"

definition NUL :: char where "NUL = CHR 0x00"

definition aggregate_bytes :: "(scanned_file \<times> string) list \<Rightarrow> string" where
  "aggregate_bytes fs =
     ''zccache-fingerprint-v1'' @ concat (map (\<lambda>(f, content). sf_relative f @ [NUL] @ content) fs) @
     [NUL] @ ''file_count:'' @ le_bytes (length fs)"

definition compute_aggregate_hash :: "digest \<Rightarrow> source_files \<Rightarrow> scanned_file list \<Rightarrow> fingerprint_error + string" where
  "compute_aggregate_hash h so files =
     (case collect_results (\<lambda>f. map_sum FpIo id (so_read so (sf_absolute f))) files of
        Inl e \<Rightarrow> Inl e
      | Inr contents \<Rightarrow> Inr (hex_encode (h (aggregate_bytes (zip files contents)))))"

definition hash_mtime_fast_path ::
    "source_files \<Rightarrow> scanned_file list \<Rightarrow> cache_disk \<Rightarrow> cache_disk \<Rightarrow> hash_cache \<Rightarrow>
       hash_cache \<times> (fingerprint_error + cache_decision option)" where
  "hash_mtime_fast_path so files d1 d2 c =
     (case (cache_mtime_ns d1, max_mtime_ns so files) of
        (Inr cache_mtime, Inr max_source_mtime) \<Rightarrow>
          if cache_mtime \<le> max_source_mtime then (c, Inr None)
          else (case read_json as_hash_data (cd_cache d2) of
            Inl e \<Rightarrow> (c, Inl e)
          | Inr (Some data) \<Rightarrow>
              if hc_status data = ''success'' \<and> hc_file_count data = length files \<and>
                 hc_max_source_mtime_ns data = max_source_mtime
              then (c\<lparr>ha_staged := Some data\<rparr>, Inr (Some Skip))
              else (c, Inr None)
          | Inr None \<Rightarrow> (c, Inr None))
      | _ \<Rightarrow> (c, Inr None))"

definition hash_cache_check ::
    "digest \<Rightarrow> source_files \<Rightarrow> u64 \<Rightarrow> write_outcome \<Rightarrow> scanned_file list \<Rightarrow> cache_disk \<Rightarrow> cache_disk \<Rightarrow> cache_disk \<Rightarrow>
       cache_disk \<Rightarrow> hash_cache \<Rightarrow> cache_disk \<times> hash_cache \<times> (fingerprint_error + cache_decision)" where
  "hash_cache_check h so now w files d1 d2 d3 d c =
     (case hash_mtime_fast_path so files d1 d2 c of
        (c, Inl e) \<Rightarrow> (d, c, Inl e)
      | (c, Inr (Some decision)) \<Rightarrow> (d, c, Inr decision)
      | (c, Inr None) \<Rightarrow>
          (case compute_aggregate_hash h so files of
             Inl e \<Rightarrow> (d, c, Inl e)
           | Inr current_hash \<Rightarrow>
               (let max_source_mtime = (case max_mtime_ns so files of Inr m \<Rightarrow> m | Inl _ \<Rightarrow> 0)
                in case read_json as_hash_data (cd_cache d3) of
                     Inl e \<Rightarrow> (d, c, Inl e)
                   | Inr cached \<Rightarrow>
                       (let decision =
                              (case cached of
                                 None \<Rightarrow> Run NoCacheFile
                               | Some data \<Rightarrow>
                                   if hc_status data = ''failure'' then Run PreviousFailure
                                   else if hc_hash data \<noteq> current_hash then Run ContentChanged
                                   else Skip);
                            pending = hash_cache_data_with_max_mtime now current_hash ''pending'' (length files) max_source_mtime
                        in case write_pending w (HashData pending) d of
                             (d, Inl e) \<Rightarrow> (d, c, Inl e)
                           | (d, Inr _) \<Rightarrow> (d, c\<lparr>ha_staged := Some pending\<rparr>, Inr decision)))))"

definition hash_promote_with_status ::
    "string \<Rightarrow> systime \<Rightarrow> write_outcome \<Rightarrow> cache_disk \<Rightarrow> cache_disk \<Rightarrow> hash_cache \<Rightarrow>
       cache_disk \<times> hash_cache \<times> (fingerprint_error + unit)" where
  "hash_promote_with_status status now w d1 d c =
     (case (case ha_staged c of
              Some data \<Rightarrow> Inr data
            | None \<Rightarrow>
                (case read_pending as_hash_data d1 of
                   Inl e \<Rightarrow> Inl e
                 | Inr None \<Rightarrow> Inl (NoPendingData (ha_cache_file c))
                 | Inr (Some data) \<Rightarrow> Inr data)) of
        Inl e \<Rightarrow> (d, c\<lparr>ha_staged := None\<rparr>, Inl e)
      | Inr claimed \<Rightarrow>
          (case commit_pending w now as_hash_data HashData claimed
               (\<lambda>data. data\<lparr>hc_status := status, hc_timestamp_ns := to_ns now\<rparr>) d of
             (d, r) \<Rightarrow> (d, c\<lparr>ha_staged := None\<rparr>, r)))"

definition hash_invalidate :: "cache_disk \<Rightarrow> hash_cache \<Rightarrow> cache_disk \<times> hash_cache" where
  "hash_invalidate d c = (remove_cache d, c\<lparr>ha_staged := None\<rparr>)"


subsection \<open>Snapshots\<close>

type_synonym observation = "scanned_file list \<times> source_files"

definition entry_of :: "digest \<Rightarrow> source_files \<Rightarrow> scanned_file \<Rightarrow> fingerprint_entry option" where
  "entry_of h so f =
     (case so_stat so (sf_absolute f) of
        Inl _ \<Rightarrow> None
      | Inr (t, len) \<Rightarrow> Some \<lparr> en_mtime_ns = to_ns t, en_size = len, en_hash = hex_encode (h (so_content so (sf_absolute f))) \<rparr>)"

text \<open>A map of entries describes an observation when it holds exactly the entries of its files.\<close>

definition describes :: "digest \<Rightarrow> observation \<Rightarrow> (string \<times> fingerprint_entry) list \<Rightarrow> bool" where
  "describes h obs es \<longleftrightarrow> (case obs of (files, so) \<Rightarrow>
     length es = length files \<and> distinct (map fst es) \<and>
     fst ` set es = sf_relative ` set files \<and>
     (\<forall>f \<in> set files. entry_of h so f \<noteq> None \<and> map_of es (sf_relative f) = entry_of h so f))"

definition snapshot_of :: "digest \<Rightarrow> observation \<Rightarrow> two_layer_data \<Rightarrow> bool" where
  "snapshot_of h obs data \<longleftrightarrow> describes h obs (tl_files data) \<and> max_mtime_ns (snd obs) (fst obs) = Inr (tl_max_source_mtime_ns data)"

text \<open>Observations name each file once, and a file that keeps its stamp from one to another keeps its content.\<close>

definition trusty :: "observation set \<Rightarrow> bool" where
  "trusty obs \<longleftrightarrow>
     (\<forall>(files, _) \<in> obs. distinct (map sf_relative files)) \<and>
     (\<forall>(files, so) \<in> obs. \<forall>(files', so') \<in> obs. \<forall>f \<in> set files. \<forall>f' \<in> set files'. \<forall>t t' len.
        sf_relative f = sf_relative f' \<longrightarrow> so_stat so (sf_absolute f) = Inr (t, len) \<longrightarrow>
        so_stat so' (sf_absolute f') = Inr (t', len) \<longrightarrow> to_ns t = to_ns t' \<longrightarrow>
        so_content so (sf_absolute f) = so_content so' (sf_absolute f'))"

lemma map_of_bt_insert [simp]: "map_of (bt_insert k v m) = (map_of m)(k \<mapsto> v)"
  by (induction k v m rule: bt_insert.induct) (auto simp: fun_eq_iff)

lemma bt_wf_distinct: "bt_wf m \<Longrightarrow> distinct (map fst m)"
  by (simp add: bt_wf_def strict_sorted_iff)

lemma entries_fold:
  "bt_wf m \<Longrightarrow> bt_wf (foldl (\<lambda>m (k, e). bt_insert k e m) m es) \<and>
     map_of (foldl (\<lambda>m (k, e). bt_insert k e m) m es) = map_of m ++ map_of (rev es)"
  by (induction es arbitrary: m) (auto simp: map_add_upd_left)

lemma entries_map_props:
  assumes "distinct (map fst es)"
  shows "map_of (entries_map es) = map_of es" "distinct (map fst (entries_map es))"
    "fst ` set (entries_map es) = fst ` set es" "length (entries_map es) = length es"
proof -
  have f: "bt_wf (entries_map es)" "map_of (entries_map es) = map_of (rev es)"
    using entries_fold [of "[]" es] by (simp_all add: entries_map_def bt_wf_def)
  then show m: "map_of (entries_map es) = map_of es"
    using map_of_inject_set [of "rev es" es] assms by (simp add: rev_map [symmetric])
  from f(1) show d: "distinct (map fst (entries_map es))" by (rule bt_wf_distinct)
  have "dom (map_of (entries_map es)) = dom (map_of es)" using m by simp
  then show k: "fst ` set (entries_map es) = fst ` set es" by (simp add: dom_map_of_conv_image_fst)
  then show "length (entries_map es) = length es"
    using distinct_card [OF d] distinct_card [OF assms] by simp
qed


lemma collect_results_all:
  "collect_results f xs = Inr ys \<longleftrightarrow> list_all2 (\<lambda>x y. f x = Inr y) xs ys"
proof (induction xs arbitrary: ys)
  case (Cons x xs)
  show ?case by (cases ys) (auto simp flip: Cons.IH split: sum.splits)
qed auto

lemma trusty_content:
  assumes "trusty obs" and "(files, so) \<in> obs" and "(files', so') \<in> obs" and "f \<in> set files" and "f' \<in> set files'"
    and "sf_relative f = sf_relative f'" and "so_stat so (sf_absolute f) = Inr (t, len)"
    and "so_stat so' (sf_absolute f') = Inr (t', len)" and "to_ns t = to_ns t'"
  shows "so_content so (sf_absolute f) = so_content so' (sf_absolute f')"
  using assms(1) [unfolded trusty_def, THEN conjunct2, rule_format, OF assms(2), unfolded prod.case, rule_format, OF assms(3),
      unfolded prod.case, rule_format, OF assms(4-9)] .

lemma check_file_name: "check_file h so cached f = Inr r \<Longrightarrow> fst r = sf_relative f"
  by (auto simp: check_file_def Let_def split: sum.splits option.splits if_splits)

text \<open>A file is checked against cached data that describes an observation.\<close>

lemma check_file_entry:
  assumes "trusty obs" and "(files, so) \<in> obs" and "f \<in> set files"
    and "cached = [] \<or> (\<exists>o' \<in> obs. describes h o' cached)"
    and "check_file h so cached f = Inr (rel, e, changed)"
  shows "rel = sf_relative f" "entry_of h so f = Some e"
    "\<not> changed \<Longrightarrow> \<exists>e'. map_of cached rel = Some e' \<and> en_hash e' = en_hash e"
proof -
  from assms(5) obtain t len where st: "so_stat so (sf_absolute f) = Inr (t, len)"
    by (auto simp: check_file_def split: sum.splits)
  have entry: "entry_of h so f = Some \<lparr> en_mtime_ns = to_ns t, en_size = len, en_hash = hex_encode (h (so_content so (sf_absolute f))) \<rparr>"
    by (simp add: entry_of_def st)
  have src: "hash_source h so (sf_absolute f) = Inr x \<Longrightarrow> x = hex_encode (h (so_content so (sf_absolute f)))" for x
    by (auto simp: hash_source_def so_read_def split: option.splits)
  have reused: "e' = \<lparr> en_mtime_ns = to_ns t, en_size = len, en_hash = hex_encode (h (so_content so (sf_absolute f))) \<rparr>"
    if e': "map_of cached (sf_relative f) = Some e'" "en_mtime_ns e' = to_ns t" "en_size e' = len" for e'
  proof -
    from e'(1) assms(4) obtain files' so' where o': "(files', so') \<in> obs" "describes h (files', so') cached"
      by (cases "cached = []") auto
    from e'(1) have "sf_relative f \<in> fst ` set cached" by (metis domI dom_map_of_conv_image_fst)
    with o'(2) obtain f' where f': "f' \<in> set files'" "sf_relative f' = sf_relative f" by (auto simp: describes_def)
    with o'(2) e'(1) have "entry_of h so' f' = Some e'" by (auto simp: describes_def)
    then obtain t' where t': "so_stat so' (sf_absolute f') = Inr (t', len)" "to_ns t' = to_ns t"
      "e' = \<lparr> en_mtime_ns = to_ns t, en_size = len, en_hash = hex_encode (h (so_content so' (sf_absolute f'))) \<rparr>"
      using e'(2,3) by (auto simp: entry_of_def split: sum.splits)
    have "so_content so (sf_absolute f) = so_content so' (sf_absolute f')"
      by (rule trusty_content [OF assms(1,2) o'(1) assms(3) f'(1) f'(2) [symmetric] st t'(1) t'(2) [symmetric]])
    with t'(3) show ?thesis by simp
  qed
  from assms(5) show "rel = sf_relative f"
    by (auto simp: check_file_def st Let_def split: option.splits if_splits sum.splits)
  from assms(5) show "entry_of h so f = Some e"
    using reused src unfolding entry
    by (auto simp: check_file_def st Let_def split: option.splits if_splits sum.splits)
  assume "\<not> changed"
  with assms(5) show "\<exists>e'. map_of cached rel = Some e' \<and> en_hash e' = en_hash e"
    by (auto simp: check_file_def st Let_def split: option.splits if_splits sum.splits)
qed

lemma fold_max_Max: "fold max xs (m::nat) = Max (insert m (set xs))"
  by (metis Max.set_eq_fold list.simps(15))

lemma max_mtime_loop_eq:
  "list_all2 (\<lambda>f e. mtime_ns so (sf_absolute f) = Inr e) fs ms \<Longrightarrow> max_mtime_loop so m fs = Inr (fold max ms m)"
  by (induction fs ms arbitrary: m rule: list_all2_induct) (simp_all add: max_def)

text \<open>The entries of one check make up a snapshot of what it observed.\<close>

lemma checked_snapshot:
  assumes "trusty obs" and "(files, so) \<in> obs" and "cached = [] \<or> (\<exists>o' \<in> obs. describes h o' cached)"
    and "collect_results (check_file h so cached) files = Inr rs"
  defines "es \<equiv> entries_map (map (\<lambda>(rel, e, _). (rel, e)) rs)"
  shows "snapshot_of h (files, so) (two_layer_data_new now status es)"
    "\<And>k. map_of es k = None \<longleftrightarrow> k \<notin> sf_relative ` set files"
    "\<not> list_ex (\<lambda>(_, _, c). c) rs \<Longrightarrow> f \<in> set files \<Longrightarrow>
       \<exists>e e'. entry_of h so f = Some e \<and> map_of cached (sf_relative f) = Some e' \<and> en_hash e' = en_hash e"
proof -
  let ?ps = "map (\<lambda>(rel, e, _). (rel, e)) rs"
  have all: "list_all2 (\<lambda>f r. check_file h so cached f = Inr r) files rs"
    using assms(4) by (simp add: collect_results_all)
  have one: "\<exists>e c. (sf_relative f, e, c) \<in> set rs \<and> entry_of h so f = Some e \<and>
      (\<not> c \<longrightarrow> (\<exists>e'. map_of cached (sf_relative f) = Some e' \<and> en_hash e' = en_hash e))" if "f \<in> set files" for f
  proof -
    from that obtain i where i: "i < length files" "files ! i = f" by (auto simp: in_set_conv_nth)
    with all have "i < length rs" "check_file h so cached f = Inr (rs ! i)"
      using list_all2_nthD [OF all i(1)] by (simp_all add: list_all2_lengthD)
    then obtain r where r: "r \<in> set rs" "check_file h so cached f = Inr r"
      using nth_mem by blast
    obtain rel e c where rec: "r = (rel, e, c)" by (cases r)
    from check_file_entry [OF assms(1,2) that assms(3) r(2) [unfolded rec]] r(1) rec show ?thesis by auto
  qed
  have keys: "map fst ?ps = map sf_relative files"
  proof (rule nth_equalityI)
    fix i assume "i < length (map fst ?ps)"
    then have i: "i < length rs" "i < length files" using all by (simp_all add: list_all2_lengthD)
    from check_file_name [OF list_all2_nthD [OF all i(2)]] i show "map fst ?ps ! i = map sf_relative files ! i" by (simp add: case_prod_beta)
  qed (use all in \<open>simp add: list_all2_lengthD\<close>)
  have dist: "distinct (map fst ?ps)" using assms(1,2) unfolding keys by (auto simp: trusty_def)
  note em = entries_map_props [OF dist, folded es_def]
  have len: "length rs = length files" using all by (simp add: list_all2_lengthD)
  have ks: "fst ` set ?ps = sf_relative ` set files" using keys by (metis list.set_map)
  have get: "map_of es (sf_relative f) = entry_of h so f \<and> entry_of h so f \<noteq> None" if "f \<in> set files" for f
  proof -
    from one [OF that] obtain e c where e: "(sf_relative f, e, c) \<in> set rs" "entry_of h so f = Some e" by blast
    then have "(sf_relative f, e) \<in> set ?ps" by force
    with dist e(2) em(1) show ?thesis by (simp add: map_of_is_SomeI)
  qed
  have d: "describes h (files, so) es"
    using em len ks get by (simp add: describes_def)
  have ms: "list_all2 (\<lambda>f m. mtime_ns so (sf_absolute f) = Inr m) files (map (\<lambda>(_, e). en_mtime_ns e) ?ps)"
  proof -
    have "mtime_ns so (sf_absolute f) = Inr (en_mtime_ns (fst (snd r)))"
      if "f \<in> set files" "check_file h so cached f = Inr r" for f r
      using check_file_entry(2) [OF assms(1,2) that(1) assms(3), of "fst r" "fst (snd r)" "snd (snd r)"] that(2)
      by (auto simp: entry_of_def mtime_ns_def split: sum.splits) (metis fingerprint_entry.select_convs(1))
    with all show ?thesis by (auto simp: list_all2_conv_all_nth case_prod_beta)
  qed
  have "max_mtime_ns so files = Inr (fold max (map (\<lambda>(_, e). en_mtime_ns e) ?ps) 0)"
    unfolding max_mtime_ns_def by (rule max_mtime_loop_eq [OF ms])
  moreover have "set es = set ?ps"
    using em(1,2) dist map_of_inject_set by blast
  ultimately have "max_mtime_ns so files = Inr (tl_max_source_mtime_ns (two_layer_data_new now status es))"
    by (simp add: two_layer_data_new_def fold_max_Max image_image)
  with d show "snapshot_of h (files, so) (two_layer_data_new now status es)"
    by (simp add: snapshot_of_def two_layer_data_new_def)
  show "map_of es k = None \<longleftrightarrow> k \<notin> sf_relative ` set files" for k
    using em(3) ks by (simp add: map_of_eq_None_iff)
  assume "\<not> list_ex (\<lambda>(_, _, c). c) rs" "f \<in> set files"
  with one [of f] show "\<exists>e e'. entry_of h so f = Some e \<and> map_of cached (sf_relative f) = Some e' \<and> en_hash e' = en_hash e"
    by (fastforce simp: list_ex_iff)
qed


subsection \<open>Cycles that share a cache file\<close>

text \<open>
  A world has the disk, every disk there has been, a cache value per cycle, and what has been observed by
  checks so far.  Any number of cycles check, mark and invalidate in any order; each access of a check
  before its staging finds the present disk or an earlier one; and the environment may lose or damage the
  files of the cache or touch them.
\<close>

record fp_world =
  fw_disk :: cache_disk
  fw_past :: "cache_disk set"
  fw_values :: "nat \<Rightarrow> two_layer_cache"
  fw_seen :: "observation set"

definition fp_start :: "string \<Rightarrow> fp_world" where
  "fp_start file =
     (let d = \<lparr> cd_cache = Absent, cd_pending = Absent, cd_cache_mtime = 0 \<rparr>
      in \<lparr> fw_disk = d, fw_past = {d}, fw_values = (\<lambda>_. two_layer_cache_new file), fw_seen = {} \<rparr>)"

definition moves_to :: "fp_world \<Rightarrow> cache_disk \<Rightarrow> nat \<Rightarrow> two_layer_cache \<Rightarrow> fp_world" where
  "moves_to w d v c = w\<lparr>fw_disk := d, fw_past := insert d (fw_past w), fw_values := (fw_values w)(v := c)\<rparr>"

inductive fp_step :: "digest \<Rightarrow> observation set \<Rightarrow> fp_world \<Rightarrow> nat \<Rightarrow> fp_world \<Rightarrow> bool" for h obs where
  checks: "(files, so) \<in> obs \<Longrightarrow> d1 \<in> fw_past w \<Longrightarrow> d2 \<in> fw_past w \<Longrightarrow> d3 \<in> fw_past w \<Longrightarrow>
     two_layer_check h so now wo files d1 d2 d3 (fw_disk w) (fw_values w v) = (d, c, r) \<Longrightarrow>
     fp_step h obs w v ((moves_to w d v c)\<lparr>fw_seen := insert (files, so) (fw_seen w)\<rparr>)"
| marks: "status = ''success'' \<or> status = ''failure'' \<Longrightarrow> d1 \<in> fw_past w \<Longrightarrow>
     promote_with_status status now wo d1 (fw_disk w) (fw_values w v) = (d, c, r) \<Longrightarrow>
     fp_step h obs w v (moves_to w d v c)"
| invalidates: "invalidate (fw_disk w) (fw_values w v) = (d, c) \<Longrightarrow> fp_step h obs w v (moves_to w d v c)"
| decays: "f \<in> {cd_cache (fw_disk w), Absent, Garbled, Unreadable e} \<Longrightarrow> g \<in> {cd_pending (fw_disk w), Absent, Garbled, Unreadable e'} \<Longrightarrow>
     fp_step h obs w v (moves_to w \<lparr> cd_cache = f, cd_pending = g, cd_cache_mtime = t \<rparr> v (fw_values w v))"

inductive fp_reach :: "digest \<Rightarrow> observation set \<Rightarrow> string \<Rightarrow> fp_world \<Rightarrow> bool" for h obs path where
  start: "fp_reach h obs path (fp_start path)"
| step: "fp_reach h obs path w \<Longrightarrow> fp_step h obs w v w' \<Longrightarrow> fp_reach h obs path w'"

text \<open>Every stored or staged value is a snapshot of something observed, and only marks fill the cache file.\<close>

definition good_data :: "digest \<Rightarrow> observation set \<Rightarrow> string set \<Rightarrow> two_layer_data \<Rightarrow> bool" where
  "good_data h seen statuses data \<longleftrightarrow> tl_status data \<in> statuses \<and> (\<exists>o' \<in> seen. snapshot_of h o' data)"

definition good_file :: "digest \<Rightarrow> observation set \<Rightarrow> string set \<Rightarrow> cache_file \<Rightarrow> bool" where
  "good_file h seen statuses f \<longleftrightarrow> (\<forall>data. f = Stored (TwoLayer data) \<longrightarrow> good_data h seen statuses data)"

definition good_world :: "digest \<Rightarrow> observation set \<Rightarrow> fp_world \<Rightarrow> bool" where
  "good_world h obs w \<longleftrightarrow> fw_disk w \<in> fw_past w \<and> fw_seen w \<subseteq> obs \<and>
     (\<forall>d \<in> fw_past w. good_file h (fw_seen w) {''success'', ''failure''} (cd_cache d) \<and> good_file h (fw_seen w) {''pending''} (cd_pending d)) \<and>
     (\<forall>v data. tc_staged (fw_values w v) = Some data \<longrightarrow> good_data h (fw_seen w) UNIV data)"

lemma good_data_mono: "good_data h seen S data \<Longrightarrow> seen \<subseteq> seen' \<Longrightarrow> S \<subseteq> S' \<Longrightarrow> good_data h seen' S' data"
  by (auto simp: good_data_def)

lemma good_file_mono: "good_file h seen S f \<Longrightarrow> seen \<subseteq> seen' \<Longrightarrow> S \<subseteq> S' \<Longrightarrow> good_file h seen' S' f"
  by (auto simp: good_file_def intro: good_data_mono)

lemma good_file_empty [simp]: "good_file h seen S Absent" "good_file h seen S Garbled" "good_file h seen S (Unreadable e)"
  by (simp_all add: good_file_def)

lemma good_world_move:
  assumes "good_world h obs w" and "seen \<subseteq> obs" and "fw_seen w \<subseteq> seen"
    and "good_file h seen {''success'', ''failure''} (cd_cache d)" and "good_file h seen {''pending''} (cd_pending d)"
    and "\<And>data. tc_staged c = Some data \<Longrightarrow> good_data h seen UNIV data"
  shows "good_world h obs ((moves_to w d v c)\<lparr>fw_seen := seen\<rparr>)"
  using assms
  by (auto simp: good_world_def moves_to_def intro: good_file_mono good_data_mono) (blast intro: good_data_mono [OF _ _ subset_UNIV])

lemma read_two_layer_good:
  "read_json as_two_layer f = Inr (Some data) \<Longrightarrow> good_file h seen S f \<Longrightarrow> good_data h seen S data"
  by (auto simp: read_json_def good_file_def split: cache_file.splits) (metis as_two_layer.elims option.distinct(1) option.inject)


definition same_files :: "digest \<Rightarrow> observation \<Rightarrow> observation \<Rightarrow> bool" where
  "same_files h o1 o2 \<longleftrightarrow> (case (o1, o2) of ((files, so), (files', so')) \<Rightarrow>
     sf_relative ` set files = sf_relative ` set files' \<and>
     (\<forall>f \<in> set files. \<forall>f' \<in> set files'. sf_relative f = sf_relative f' \<longrightarrow>
        hex_encode (h (so_content so (sf_absolute f))) = hex_encode (h (so_content so' (sf_absolute f')))))"

lemma entry_of_hash: "entry_of h so f = Some e \<Longrightarrow> en_hash e = hex_encode (h (so_content so (sf_absolute f)))"
  by (auto simp: entry_of_def split: sum.splits)

lemma snapshot_describes: "snapshot_of h o' data \<Longrightarrow> describes h o' (tl_files data)"
  by (simp add: snapshot_of_def)

lemma plan_check_snapshot:
  assumes "trusty obs" and "(files, so) \<in> obs" and "seen \<subseteq> obs"
    and "\<And>data. cached = Some data \<Longrightarrow> good_data h seen S data"
    and "plan_check h so now files cached = Inr (pending, decision)"
  shows "snapshot_of h (files, so) pending" "tl_status pending = ''pending''"
proof -
  have all: "compute_all h so files = Inr es \<Longrightarrow> snapshot_of h (files, so) (two_layer_data_new now status es)" for es status
    using checked_snapshot(1) [OF assms(1,2) disjI1 [OF refl], of h] by (auto simp: compute_all_def split: sum.splits)
  have some: "snapshot_of h (files, so) (two_layer_data_new now status (entries_map (map (\<lambda>(rel, e, _). (rel, e)) rs)))"
    if "cached = Some data" "collect_results (check_file h so (tl_files data)) files = Inr rs" for data rs status
  proof -
    from assms(3) assms(4) [OF that(1)] have "\<exists>o' \<in> obs. describes h o' (tl_files data)"
      by (auto simp: good_data_def dest: snapshot_describes)
    from checked_snapshot(1) [OF assms(1,2) disjI2 [OF this] that(2)] show ?thesis .
  qed
  from assms(5) all some show "snapshot_of h (files, so) pending"
    by (auto simp: plan_check_def Let_def split: option.splits sum.splits if_splits)
  from assms(5) show "tl_status pending = ''pending''"
    by (auto simp: plan_check_def Let_def two_layer_data_new_def split: option.splits sum.splits if_splits)
qed

lemma plan_check_skip:
  assumes "trusty obs" and "(files, so) \<in> obs" and "o' \<in> obs" and "snapshot_of h o' data"
    and "plan_check h so now files (Some data) = Inr (pending, Skip)"
  shows "tl_status data \<noteq> ''failure''" "same_files h (files, so) o'"
proof -
  obtain files' so' where o': "o' = (files', so')" by (cases o')
  from assms(5) obtain rs where rs: "collect_results (check_file h so (tl_files data)) files = Inr rs" "tl_status data \<noteq> ''failure''"
    "\<not> list_ex (\<lambda>(_, _, c). c) rs"
    "\<not> list_ex (\<lambda>k. map_of (entries_map (map (\<lambda>(rel, e, _). (rel, e)) rs)) k = None) (map fst (tl_files data))"
    by (auto simp: plan_check_def Let_def split: sum.splits if_splits)
  show "tl_status data \<noteq> ''failure''" by (rule rs(2))
  note d = snapshot_describes [OF assms(4), unfolded o']
  have "\<exists>o' \<in> obs. describes h o' (tl_files data)" using assms(3) d o' by blast
  note ck = checked_snapshot [OF assms(1,2) disjI2 [OF this] rs(1)]
  have hash: "\<exists>e e'. entry_of h so f = Some e \<and> map_of (tl_files data) (sf_relative f) = Some e' \<and> en_hash e' = en_hash e"
    if "f \<in> set files" for f
    by (rule ck(3) [OF rs(3) that])
  have "sf_relative ` set files \<subseteq> fst ` set (tl_files data)"
    using hash by (force simp: dest: map_of_SomeD)
  moreover have "fst ` set (tl_files data) \<subseteq> sf_relative ` set files"
    using rs(4) ck(2) by (auto simp: list_ex_iff)
  ultimately have names: "sf_relative ` set files = sf_relative ` set files'"
    using d by (auto simp: describes_def)
  have "hex_encode (h (so_content so (sf_absolute f))) = hex_encode (h (so_content so' (sf_absolute f')))"
    if "f \<in> set files" "f' \<in> set files'" "sf_relative f = sf_relative f'" for f f'
  proof -
    from hash [OF that(1)] obtain e e' where e: "entry_of h so f = Some e" "map_of (tl_files data) (sf_relative f) = Some e'"
      "en_hash e' = en_hash e" by blast
    from d that(2,3) e(2) have "entry_of h so' f' = Some e'" by (auto simp: describes_def)
    with e show ?thesis by (metis entry_of_hash)
  qed
  with names show "same_files h (files, so) o'" by (simp add: same_files_def o')
qed


lemma stage_effect:
  "stage w pending d c = (d', c', r) \<Longrightarrow> cd_cache d' = cd_cache d \<and> cd_cache_mtime d' = cd_cache_mtime d \<and>
     ((c' = c \<and> (\<exists>e. r = Inl e) \<and> cd_pending d' \<in> {cd_pending d, Absent}) \<or>
      (c' = c\<lparr>tc_staged := Some pending\<rparr> \<and> r = Inr () \<and> cd_pending d' = Stored (TwoLayer pending)))"
  by (cases w) (auto simp: stage_def write_pending_def write_atomic_def)

lemma fast_path_effect:
  "try_mtime_fast_path so files d1 d2 c = (c', r) \<Longrightarrow>
     c' = c \<and> r \<noteq> Inr (Some Skip) \<and> (r = Inr None \<or> (\<exists>e. r = Inl e)) \<or>
     (\<exists>data. read_json as_two_layer (cd_cache d2) = Inr (Some data) \<and> tl_status data = ''success'' \<and>
        length (tl_files data) = length files \<and> max_mtime_ns so files = Inr (tl_max_source_mtime_ns data) \<and>
        c' = c\<lparr>tc_staged := Some data\<rparr> \<and> r = Inr (Some Skip))"
  by (auto simp: try_mtime_fast_path_def split: sum.splits option.splits if_splits)

text \<open>A check fails and changes nothing but perhaps the pending file, skips on the fast path, or stages its plan.\<close>

lemma check_effect:
  assumes "two_layer_check h so now wo files d1 d2 d3 d c = (d', c', r)"
  obtains (failed) e where "c' = c" "r = Inl e" "cd_cache d' = cd_cache d" "cd_pending d' \<in> {cd_pending d, Absent}"
  | (fast) data where "read_json as_two_layer (cd_cache d2) = Inr (Some data)" "tl_status data = ''success''"
      "length (tl_files data) = length files" "max_mtime_ns so files = Inr (tl_max_source_mtime_ns data)"
      "c' = c\<lparr>tc_staged := Some data\<rparr>" "r = Inr Skip" "d' = d"
  | (slow) cached pending decision where "read_json as_two_layer (cd_cache d3) = Inr cached"
      "plan_check h so now files cached = Inr (pending, decision)" "c' = c\<lparr>tc_staged := Some pending\<rparr>" "r = Inr decision"
      "cd_cache d' = cd_cache d" "cd_pending d' = Stored (TwoLayer pending)"
proof -
  obtain c1 r1 where f: "try_mtime_fast_path so files d1 d2 c = (c1, r1)" by fastforce
  from fast_path_effect [OF f] consider e where "c1 = c" "r1 = Inl e" | "c1 = c" "r1 = Inr None"
    | data where "read_json as_two_layer (cd_cache d2) = Inr (Some data)" "tl_status data = ''success''"
      "length (tl_files data) = length files" "max_mtime_ns so files = Inr (tl_max_source_mtime_ns data)"
      "c1 = c\<lparr>tc_staged := Some data\<rparr>" "r1 = Inr (Some Skip)" by blast
  then show ?thesis
  proof cases
    case 1
    with assms f failed show ?thesis by (auto simp: two_layer_check_def)
  next
    case 3
    with assms f fast show ?thesis by (auto simp: two_layer_check_def)
  next
    case 2
    show ?thesis
    proof (cases "read_json as_two_layer (cd_cache d3)")
      case (Inl e)
      with 2 assms f failed show ?thesis by (auto simp: two_layer_check_def)
    next
      case (Inr cached)
      note rd = Inr
      show ?thesis
      proof (cases "plan_check h so now files cached")
        case (Inl e)
        with rd 2 assms f failed show ?thesis by (auto simp: two_layer_check_def)
      next
        case (Inr p)
        obtain pending decision where p: "p = (pending, decision)" by fastforce
        obtain d2' c2 r2 where st: "stage wo pending d c = (d2', c2, r2)" by (metis prod_cases3)
        from assms have "d' = d2'" "c' = c2" "r = (case r2 of Inl e \<Rightarrow> Inl e | Inr _ \<Rightarrow> Inr decision)"
          by (auto simp: two_layer_check_def f 2 rd Inr p st split: sum.splits)
        with stage_effect [OF st] failed slow [OF rd Inr [unfolded p]] show ?thesis by auto
      qed
    qed
  qed
qed

lemma promote_effect:
  assumes "promote_with_status status now wo d1 d c = (d', c', r)"
  shows "tc_staged c' = None"
    and "cd_cache d' \<in> {cd_cache d, Absent} \<or> (\<exists>data. (tc_staged c = Some data \<or> read_pending as_two_layer d1 = Inr (Some data)) \<and>
       cd_cache d' = Stored (TwoLayer (data\<lparr>tl_status := status, tl_timestamp_ns := to_ns now\<rparr>)))"
    and "cd_pending d' \<in> {cd_pending d, Absent}"
  using assms
  by (auto simp: promote_with_status_def commit_pending_def write_atomic_def Let_def
      split: option.splits sum.splits write_outcome.splits if_splits)


lemma snapshot_status [simp]: "snapshot_of h o' (data\<lparr>tl_status := s, tl_timestamp_ns := t\<rparr>) = snapshot_of h o' data"
  by (simp add: snapshot_of_def)

lemma good_past: "good_world h obs w \<Longrightarrow> d \<in> fw_past w \<Longrightarrow> read_json as_two_layer (cd_cache d) = Inr (Some data) \<Longrightarrow>
    good_data h (fw_seen w) {''success'', ''failure''} data"
  by (auto simp: good_world_def intro: read_two_layer_good)

lemma fp_step_good:
  assumes "trusty obs" and "good_world h obs w" and "fp_step h obs w v w'"
  shows "good_world h obs w'"
  using assms(3)
proof cases
  case (checks files so d1 d2 d3 now wo d c r)
  let ?seen = "insert (files, so) (fw_seen w)"
  have seen: "?seen \<subseteq> obs" "fw_seen w \<subseteq> ?seen" using assms(2) checks(2) by (auto simp: good_world_def)
  have disk: "good_file h ?seen {''success'', ''failure''} (cd_cache (fw_disk w))" "good_file h ?seen {''pending''} (cd_pending (fw_disk w))"
    using assms(2) by (auto simp: good_world_def intro: good_file_mono)
  have staged: "tc_staged (fw_values w v) = Some data \<Longrightarrow> good_data h ?seen UNIV data" for data
    using assms(2) good_data_mono [of h "fw_seen w" UNIV data ?seen UNIV] by (auto simp: good_world_def)
  from checks(6) show ?thesis unfolding checks(1)
  proof (cases rule: check_effect)
    case (failed e)
    with disk staged seen show "good_world h obs ((moves_to w d v c)\<lparr>fw_seen := ?seen\<rparr>)"
      by (intro good_world_move [OF assms(2)]) auto
  next
    case (fast data)
    from good_past [OF assms(2) checks(4) fast(1)] have "good_data h ?seen UNIV data" by (rule good_data_mono) auto
    with fast disk seen show "good_world h obs ((moves_to w d v c)\<lparr>fw_seen := ?seen\<rparr>)"
      by (intro good_world_move [OF assms(2)]) auto
  next
    case (slow cached pending decision)
    have "good_data h (fw_seen w) {''success'', ''failure''} data" if "cached = Some data" for data
      using good_past [OF assms(2) checks(5)] slow(1) that by simp
    from plan_check_snapshot [OF assms(1) checks(2) _ this slow(2)] assms(2)
    have "good_data h ?seen {''pending''} pending" by (auto simp: good_data_def good_world_def)
    with slow disk seen show "good_world h obs ((moves_to w d v c)\<lparr>fw_seen := ?seen\<rparr>)"
      by (intro good_world_move [OF assms(2)]) (auto simp: good_file_def intro: good_data_mono)
  qed
next
  case (marks status d1 now wo d c r)
  have "good_data h (fw_seen w) {''success'', ''failure''} (data\<lparr>tl_status := status, tl_timestamp_ns := to_ns now\<rparr>)"
    if "tc_staged (fw_values w v) = Some data \<or> read_pending as_two_layer d1 = Inr (Some data)" for data
  proof -
    have "good_data h (fw_seen w) UNIV data"
      using that assms(2) marks(3) read_two_layer_good [of "cd_pending d1" data h "fw_seen w"]
      by (auto simp: good_world_def read_pending_def intro: good_data_mono)
    with marks(2) show ?thesis by (auto simp: good_data_def)
  qed
  with promote_effect [OF marks(4)] assms(2)
  have "good_world h obs ((moves_to w d v c)\<lparr>fw_seen := fw_seen w\<rparr>)"
    by (intro good_world_move [OF assms(2)]) (auto simp: good_world_def good_file_def)
  then show ?thesis unfolding marks(1) by (simp add: moves_to_def)
next
  case (invalidates d c)
  from assms(2) invalidates(2) have "good_world h obs ((moves_to w d v c)\<lparr>fw_seen := fw_seen w\<rparr>)"
    by (intro good_world_move [OF assms(2)]) (auto simp: good_world_def invalidate_def remove_cache_def)
  then show ?thesis unfolding invalidates(1) by (simp add: moves_to_def)
next
  case (decays f e g e' t)
  from assms(2) decays(2,3)
  have "good_world h obs ((moves_to w \<lparr> cd_cache = f, cd_pending = g, cd_cache_mtime = t \<rparr> v (fw_values w v))\<lparr>fw_seen := fw_seen w\<rparr>)"
    by (intro good_world_move [OF assms(2)]) (auto simp: good_world_def)
  then show ?thesis unfolding decays(1) by (simp add: moves_to_def)
qed

lemma fp_reach_good:
  assumes "trusty obs" and "fp_reach h obs path w"
  shows "good_world h obs w"
  using assms(2)
proof (induction rule: fp_reach.induct)
  case start
  then show ?case
    by (simp add: good_world_def fp_start_def Let_def two_layer_cache_new_def)
next
  case (step w v w')
  from fp_step_good [OF assms(1) step.IH step.hyps(2)] show ?case .
qed

text \<open>
  C26. A skip is justified.  Whatever cycles check, mark and invalidate beside each other on one cache file,
  and whatever of it is lost or damaged in between, a check that lets an operation be skipped rests on a
  snapshot that was committed by a successful mark.  Either the files have the names and the content
  digests they had when the snapshot was taken, or the check took the shortcut over modification times and
  the files agree with it in number and in the latest modification time.  The stamps of the files are trusty
  over the run, and each check sees one state of the files.
\<close>

theorem skip_is_justified:
  assumes "trusty obs" and "fp_reach h obs path w" and "(files, so) \<in> obs"
    and "d1 \<in> fw_past w" and "d2 \<in> fw_past w" and "d3 \<in> fw_past w"
    and "two_layer_check h so now wo files d1 d2 d3 (fw_disk w) (fw_values w v) = (d', c', Inr Skip)"
  shows "\<exists>d \<in> fw_past w. \<exists>data. \<exists>(files', so') \<in> fw_seen w.
    cd_cache d = Stored (TwoLayer data) \<and> tl_status data = ''success'' \<and> snapshot_of h (files', so') data \<and>
    (same_files h (files, so) (files', so') \<or>
     length files = length files' \<and> max_mtime_ns so files = max_mtime_ns so' files')"
proof -
  note good = fp_reach_good [OF assms(1,2)]
  have rd: "cd_cache d = Stored (TwoLayer data)" if "read_json as_two_layer (cd_cache d) = Inr (Some data)" for d data
    using that by (auto simp: read_json_def split: cache_file.splits) (metis as_two_layer.elims option.distinct(1) option.inject)
  from assms(7) show ?thesis
  proof (cases rule: check_effect)
    case (fast data)
    from good_past [OF good assms(5) fast(1)] obtain files' so' where o': "(files', so') \<in> fw_seen w" "snapshot_of h (files', so') data"
      by (auto simp: good_data_def)
    with fast(3,4) have "length files = length files'" "max_mtime_ns so files = max_mtime_ns so' files'"
      by (simp_all add: snapshot_of_def describes_def)
    with o' fast(2) rd [OF fast(1)] assms(5) show ?thesis by blast
  next
    case (slow cached pending decision)
    then obtain data where data: "cached = Some data"
      by (cases cached) (auto simp: plan_check_def split: sum.splits)
    with slow(1) have r3: "read_json as_two_layer (cd_cache d3) = Inr (Some data)" by simp
    from good_past [OF good assms(6) r3] obtain o' where o': "o' \<in> fw_seen w" "snapshot_of h o' data"
      and st: "tl_status data = ''success'' \<or> tl_status data = ''failure''"
      by (auto simp: good_data_def)
    from o'(1) good have "o' \<in> obs" by (auto simp: good_world_def)
    from plan_check_skip [OF assms(1,3) this o'(2)] slow(2,4) data st
    have "same_files h (files, so) o'" "tl_status data = ''success''" by auto
    with o' rd [OF r3] assms(6) show ?thesis by (cases o') blast
  qed simp
qed


subsection \<open>The format of stored data\<close>

text \<open>What the commit relies on: data that was stored is read back.\<close>

locale stored_format =
  fixes project :: "stored_data \<Rightarrow> 'd option" and inject :: "'d \<Rightarrow> stored_data"
  assumes project_inject: "project (inject x) = Some x"
begin

lemma read_stored: "read_json project (Stored (inject x)) = Inr (Some x)"
  by (simp add: read_json_def project_inject)

lemma committed:
  assumes "read_pending project d = Inr p" and "commit_pending Written now project inject claimed finalize d = (d', r)"
  shows "r = Inr ()" and "read_json project (cd_cache d') = Inr (Some (finalize claimed))"
    and "cd_cache d' = Stored (inject (finalize claimed))"
    and "cd_pending d' = (if p = Some claimed then Absent else cd_pending d)"
  using assms by (auto simp: commit_pending_def write_atomic_def Let_def read_stored)

end

interpretation tlf: stored_format as_two_layer TwoLayer
  by unfold_locales simp

interpretation hcf: stored_format as_hash_data HashData
  by unfold_locales simp

inductive others_run :: "digest \<Rightarrow> observation set \<Rightarrow> nat \<Rightarrow> fp_world \<Rightarrow> fp_world \<Rightarrow> bool" for h obs v where
  idle: "others_run h obs v w w"
| other: "others_run h obs v w w' \<Longrightarrow> u \<noteq> v \<Longrightarrow> fp_step h obs w' u w'' \<Longrightarrow> others_run h obs v w w''"

lemma other_step_keeps: "fp_step h obs w u w' \<Longrightarrow> u \<noteq> v \<Longrightarrow> fw_values w' v = fw_values w v"
  by (induction rule: fp_step.induct) (simp_all add: moves_to_def)

lemma others_keep: "others_run h obs v w w' \<Longrightarrow> fw_values w' v = fw_values w v"
  by (induction rule: others_run.induct) (simp_all add: other_step_keeps)

text \<open>
  A cycle commits its own result.  Between the check of a cycle and its mark, other cycles on the same
  cache file may check, mark and invalidate as they like; the successful mark still commits the snapshot
  this cycle staged, and it removes the pending file only when that is still this snapshot.
\<close>

theorem own_cycle_committed:
  assumes "two_layer_check h so now wo files d1 d2 d3 (fw_disk w) (fw_values w v) = (d, c, Inr decision)"
    and "others_run h obs v ((moves_to w d v c)\<lparr>fw_seen := seen\<rparr>) w'" and "read_pending as_two_layer (fw_disk w') = Inr p"
    and "mark_success later Written d4 (fw_disk w') (fw_values w' v) = (d', c', r)"
  shows "\<exists>data. tc_staged c = Some data \<and> r = Inr () \<and>
    cd_cache d' = Stored (TwoLayer (data\<lparr>tl_status := ''success'', tl_timestamp_ns := to_ns later\<rparr>)) \<and>
    cd_pending d' = (if p = Some data then Absent else cd_pending (fw_disk w'))"
proof -
  from assms(1) obtain data where data: "tc_staged c = Some data" by (cases rule: check_effect) auto
  have "fw_values w' v = c" using others_keep [OF assms(2)] by (simp add: moves_to_def)
  with assms(4) data obtain r' where
    "commit_pending Written later as_two_layer TwoLayer data (\<lambda>data. data\<lparr>tl_status := ''success'', tl_timestamp_ns := to_ns later\<rparr>)
       (fw_disk w') = (d', r')" "r = r'"
    by (auto simp: mark_success_def promote_with_status_def split: prod.splits)
  from tlf.committed [OF assms(3) this(1)] this(2) data show ?thesis by simp
qed


subsection \<open>Examples\<close>

definition demo_file :: "string \<Rightarrow> scanned_file" where
  "demo_file n = \<lparr> sf_absolute = ''/p/'' @ n, sf_relative = n \<rparr>"

definition demo_sources :: "(string \<times> systime \<times> string) list \<Rightarrow> source_files" where
  "demo_sources fs = \<lparr>
     so_stat = (\<lambda>p. case map_of fs p of None \<Rightarrow> Inl NotFound | Some (t, content) \<Rightarrow> Inr (t, length content)),
     so_denied = (\<lambda>p. if map_of fs p = None then Some NotFound else None),
     so_content = (\<lambda>p. case map_of fs p of None \<Rightarrow> [] | Some (_, content) \<Rightarrow> content) \<rparr>"

lemma to_ns_small [simp]: "to_ns 3 = 3" "to_ns 5 = 5" "to_ns 9 = 9" "to_ns 100 = 100"
  by (simp_all add: to_ns_def u64_mod_def)

definition demo_empty :: cache_disk where
  "demo_empty = \<lparr> cd_cache = Absent, cd_pending = Absent, cd_cache_mtime = 0 \<rparr>"

lemmas demo_run = two_layer_check_def try_mtime_fast_path_def plan_check_def compute_all_def check_file_def stage_def write_pending_def
  write_atomic_def cache_mtime_ns_def read_json_def hash_source_def so_read_def demo_sources_def demo_file_def demo_empty_def
  mark_success_def promote_with_status_def commit_pending_def read_pending_def two_layer_data_new_def entries_map_def
  max_mtime_ns_def mtime_ns_def two_layer_cache_new_def Let_def

definition demo_old :: source_files where
  "demo_old = demo_sources [(''/p/m'', 9, ''m''), (''/p/a'', 5, ''x'')]"

definition demo_new :: source_files where
  "demo_new = demo_sources [(''/p/m'', 9, ''m''), (''/p/b'', 3, ''y'')]"

text \<open>
  The shortcut misses an exchanged file.  After a success on two files, one of them is replaced by a
  file with another name and another content whose modification time is older than the latest one, as a
  move or a copy that keeps times does.  The cache file is newer than both and the number and the latest
  modification time are as before, so the check skips, for every digest, although the comparison of the
  files it leaves out reports a change.
\<close>

theorem exchanged_file_is_skipped:
  "\<exists>d1 c1 d2 c2 data pending.
     two_layer_check h demo_old 1 Written [demo_file ''a'', demo_file ''m''] demo_empty demo_empty demo_empty demo_empty
       (two_layer_cache_new ''/c'') = (d1, c1, Inr (Run NoCacheFile)) \<and>
     mark_success 100 Written d1 d1 c1 = (d2, c2, Inr ()) \<and>
     snd (snd (two_layer_check h demo_new 2 Written [demo_file ''b'', demo_file ''m''] d2 d2 d2 d2 c2)) = Inr Skip \<and>
     cd_cache d2 = Stored (TwoLayer data) \<and>
     plan_check h demo_new 2 [demo_file ''b'', demo_file ''m''] (Some data) = Inr (pending, Run ContentChanged)"
  by (simp add: demo_run demo_old_def demo_new_def)


lemmas demo_hash_run = hash_cache_check_def hash_mtime_fast_path_def compute_aggregate_hash_def aggregate_bytes_def write_pending_def
  write_atomic_def cache_mtime_ns_def read_json_def so_read_def demo_sources_def demo_file_def demo_empty_def hash_cache_data_with_max_mtime_def
  hash_promote_with_status_def commit_pending_def read_pending_def max_mtime_ns_def mtime_ns_def hash_cache_new_def Let_def

text \<open>
  The aggregate hash does not separate files.  The name of a file follows the content of the file
  before it without a separator, so moving the first letter of a name to the end of the file before gives
  the same text, and the number of files is the same.  After a success on one set of files the aggregate
  cache skips the other, for every digest and without the shortcut over modification times.
\<close>

theorem aggregate_hash_not_separated:
  "\<exists>d1 c1 d2 c2.
     hash_cache_check h (demo_sources [(''/p/a'', 5, ''x''), (''/p/bc'', 5, ''y'')]) 1 Written [demo_file ''a'', demo_file ''bc'']
       demo_empty demo_empty demo_empty demo_empty (hash_cache_new ''/c'') = (d1, c1, Inr (Run NoCacheFile)) \<and>
     hash_promote_with_status ''success'' 3 Written d1 d1 c1 = (d2, c2, Inr ()) \<and>
     hash_mtime_fast_path (demo_sources [(''/p/a'', 5, ''xb''), (''/p/c'', 5, ''y'')]) [demo_file ''a'', demo_file ''c''] d2 d2 c2 = (c2, Inr None) \<and>
     snd (snd (hash_cache_check h (demo_sources [(''/p/a'', 5, ''xb''), (''/p/c'', 5, ''y'')]) 2 Written [demo_file ''a'', demo_file ''c'']
       d2 d2 d2 d2 c2)) = Inr Skip"
  by (simp add: demo_hash_run)

definition demo_obs :: observation where
  "demo_obs = ([demo_file ''a''], demo_sources [(''/p/a'', 5, ''x'')])"

lemma demo_trusty: "trusty {demo_obs}"
  by (simp add: trusty_def demo_obs_def)

definition demo_data :: "digest \<Rightarrow> string \<Rightarrow> u64 \<Rightarrow> two_layer_data" where
  "demo_data h status t = \<lparr> tl_version = CACHE_VERSION, tl_status = status, tl_timestamp_ns = t,
     tl_files = [(''a'', \<lparr> en_mtime_ns = 5, en_size = 1, en_hash = hex_encode (h ''x'') \<rparr>)], tl_max_source_mtime_ns = 5 \<rparr>"

definition demo_disk :: "cache_file \<Rightarrow> cache_file \<Rightarrow> systime \<Rightarrow> cache_disk" where
  "demo_disk f g t = \<lparr> cd_cache = f, cd_pending = g, cd_cache_mtime = t \<rparr>"

lemma demo_first_check:
  "two_layer_check h (snd demo_obs) now Written (fst demo_obs) demo_empty demo_empty demo_empty (demo_disk Absent g 0)
     \<lparr> tc_cache_file = p, tc_staged = s \<rparr> =
   (demo_disk Absent (Stored (TwoLayer (demo_data h ''pending'' now))) 0,
    \<lparr> tc_cache_file = p, tc_staged = Some (demo_data h ''pending'' now) \<rparr>, Inr (Run NoCacheFile))"
  by (simp add: demo_run demo_obs_def demo_data_def demo_disk_def)

lemma demo_mark:
  "promote_with_status status 3 Written d1 (demo_disk f g t) \<lparr> tc_cache_file = p, tc_staged = Some (demo_data h s now) \<rparr> =
   (demo_disk (Stored (TwoLayer (demo_data h status 3))) (if g = Stored (TwoLayer (demo_data h s now)) then Absent else g) 3,
    \<lparr> tc_cache_file = p, tc_staged = None \<rparr>, Inr ())"
  if "read_json as_two_layer g = Inr q"
proof -
  have "q = Some x \<longleftrightarrow> g = Stored (TwoLayer x)" for x
    using that by (cases g) (auto simp: read_json_def split: cache_file.splits stored_data.splits dest: as_two_layer.elims)
  with that show ?thesis
    by (simp add: promote_with_status_def commit_pending_def read_pending_def write_atomic_def Let_def demo_disk_def demo_data_def)
qed

lemma demo_second_check:
  fixes h :: digest
  defines "d \<equiv> demo_disk (Stored (TwoLayer (demo_data h ''success'' 3))) Absent 3"
  shows "snd (snd (two_layer_check h (snd demo_obs) 2 Written (fst demo_obs) d d d d \<lparr> tc_cache_file = p, tc_staged = None \<rparr>)) = Inr Skip"
  by (simp add: d_def demo_run demo_obs_def demo_data_def demo_disk_def)

theorem skip_is_justified_witness:
  "\<exists>w d' c'. fp_reach (\<lambda>c. c) {demo_obs} ''/c'' w \<and>
     two_layer_check (\<lambda>c. c) (snd demo_obs) 2 Written (fst demo_obs) (fw_disk w) (fw_disk w) (fw_disk w) (fw_disk w) (fw_values w 0) =
       (d', c', Inr Skip) \<and>
     (\<exists>d \<in> fw_past w. \<exists>data. \<exists>(files', so') \<in> fw_seen w.
       cd_cache d = Stored (TwoLayer data) \<and> tl_status data = ''success'' \<and> snapshot_of (\<lambda>c. c) (files', so') data \<and>
       (same_files (\<lambda>c. c) demo_obs (files', so') \<or>
        length (fst demo_obs) = length files' \<and> max_mtime_ns (snd demo_obs) (fst demo_obs) = max_mtime_ns so' files'))"
proof -
  let ?h = "\<lambda>c :: string. c"
  let ?c = "\<lambda>s. \<lparr> tc_cache_file = Paths.normalize ''/c'', tc_staged = s \<rparr>"
  let ?p = "demo_data ?h ''pending'' 1" and ?s = "demo_data ?h ''success'' 3"
  let ?w0 = "fp_start ''/c''"
  let ?w1 = "(moves_to ?w0 (demo_disk Absent (Stored (TwoLayer ?p)) 0) 0 (?c (Some ?p)))\<lparr>fw_seen := {demo_obs}\<rparr>"
  let ?d = "demo_disk (Stored (TwoLayer ?s)) Absent 3"
  let ?w2 = "moves_to ?w1 ?d 0 (?c None)"
  have w0: "fw_disk ?w0 = demo_disk Absent Absent 0" "fw_values ?w0 v = ?c None" "demo_empty \<in> fw_past ?w0" "fw_seen ?w0 = {}" for v
    by (simp_all add: fp_start_def Let_def demo_disk_def demo_empty_def two_layer_cache_new_def)
  have "two_layer_check ?h (snd demo_obs) 1 Written (fst demo_obs) demo_empty demo_empty demo_empty (fw_disk ?w0) (fw_values ?w0 0) =
    (demo_disk Absent (Stored (TwoLayer ?p)) 0, ?c (Some ?p), Inr (Run NoCacheFile))"
    unfolding w0 by (rule demo_first_check)
  from fp_step.checks [OF _ w0(3) w0(3) w0(3) this, of "{demo_obs}"] have "fp_step ?h {demo_obs} ?w0 0 ?w1"
    by (simp add: w0(4))
  from fp_reach.step [OF fp_reach.start this] have r1: "fp_reach ?h {demo_obs} ''/c'' ?w1" .
  have v1: "fw_disk ?w1 = demo_disk Absent (Stored (TwoLayer ?p)) 0" "fw_values ?w1 0 = ?c (Some ?p)" "fw_disk ?w1 \<in> fw_past ?w1"
    by (simp_all add: moves_to_def)
  have "promote_with_status ''success'' 3 Written (fw_disk ?w1) (fw_disk ?w1) (fw_values ?w1 0) = (?d, ?c None, Inr ())"
    unfolding v1 by (subst demo_mark) (simp_all add: read_json_def)
  from fp_step.marks [OF disjI1 [OF refl] v1(3) this] have "fp_step ?h {demo_obs} ?w1 0 ?w2" .
  from fp_reach.step [OF r1 this] have r2: "fp_reach ?h {demo_obs} ''/c'' ?w2" .
  have v2: "fw_disk ?w2 = ?d" "fw_values ?w2 0 = ?c None" "fw_disk ?w2 \<in> fw_past ?w2" by (simp_all add: moves_to_def)
  obtain d' c' where sk: "two_layer_check ?h (snd demo_obs) 2 Written (fst demo_obs) (fw_disk ?w2) (fw_disk ?w2) (fw_disk ?w2) (fw_disk ?w2)
      (fw_values ?w2 0) = (d', c', Inr Skip)"
    unfolding v2 using demo_second_check [of ?h "Paths.normalize ''/c''"] by (metis prod.collapse)
  from skip_is_justified [OF demo_trusty r2 _ v2(3) v2(3) v2(3) sk] r2 sk show ?thesis by (simp add: demo_obs_def) blast
qed


text \<open>A second cycle stages its snapshot between the check and the mark of the first.\<close>

theorem own_cycle_committed_witness:
  "\<exists>w w' d c d' c' r. two_layer_check (\<lambda>c. c) (snd demo_obs) 1 Written (fst demo_obs) demo_empty demo_empty demo_empty
       (fw_disk w) (fw_values w 0) = (d, c, Inr (Run NoCacheFile)) \<and>
     others_run (\<lambda>c. c) {demo_obs} 0 ((moves_to w d 0 c)\<lparr>fw_seen := {demo_obs}\<rparr>) w' \<and>
     mark_success 3 Written demo_empty (fw_disk w') (fw_values w' 0) = (d', c', r) \<and> r = Inr () \<and>
     cd_cache d' = Stored (TwoLayer (demo_data (\<lambda>c. c) ''success'' 3)) \<and>
     cd_pending d' = Stored (TwoLayer (demo_data (\<lambda>c. c) ''pending'' 2))"
proof -
  let ?h = "\<lambda>c :: string. c"
  let ?c = "\<lambda>s. \<lparr> tc_cache_file = Paths.normalize ''/c'', tc_staged = s \<rparr>"
  let ?p = "\<lambda>t. demo_data ?h ''pending'' t"
  let ?d = "\<lambda>t. demo_disk Absent (Stored (TwoLayer (?p t))) 0"
  let ?w0 = "fp_start ''/c''"
  let ?w1 = "(moves_to ?w0 (?d 1) 0 (?c (Some (?p 1))))\<lparr>fw_seen := {demo_obs}\<rparr>"
  let ?w2 = "(moves_to ?w1 (?d 2) 1 (?c (Some (?p 2))))\<lparr>fw_seen := {demo_obs}\<rparr>"
  have w0: "fw_disk ?w0 = demo_disk Absent Absent 0" "fw_values ?w0 v = ?c None" for v
    by (simp_all add: fp_start_def Let_def demo_disk_def two_layer_cache_new_def)
  have ck: "two_layer_check ?h (snd demo_obs) 1 Written (fst demo_obs) demo_empty demo_empty demo_empty (fw_disk ?w0) (fw_values ?w0 0) =
    (?d 1, ?c (Some (?p 1)), Inr (Run NoCacheFile))"
    unfolding w0 by (rule demo_first_check)
  have w1: "fw_disk ?w1 = ?d 1" "fw_values ?w1 1 = ?c None" "demo_empty \<in> fw_past ?w1" "fw_seen ?w1 = {demo_obs}"
    by (simp_all add: moves_to_def w0 fp_start_def Let_def demo_empty_def two_layer_cache_new_def)
  have "two_layer_check ?h (snd demo_obs) 2 Written (fst demo_obs) demo_empty demo_empty demo_empty (fw_disk ?w1) (fw_values ?w1 1) =
    (?d 2, ?c (Some (?p 2)), Inr (Run NoCacheFile))"
    unfolding w1 by (rule demo_first_check)
  from fp_step.checks [OF _ w1(3) w1(3) w1(3) this, of "{demo_obs}"] have st: "fp_step ?h {demo_obs} ?w1 1 ?w2"
    by (simp add: w1(4))
  have ot: "others_run ?h {demo_obs} 0 ?w1 ?w2"
    by (rule others_run.other [OF others_run.idle _ st]) simp
  obtain d' c' r where m: "mark_success 3 Written demo_empty (fw_disk ?w2) (fw_values ?w2 0) = (d', c', r)" by (metis prod_cases3)
  have p2: "read_pending as_two_layer (fw_disk ?w2) = Inr (Some (?p 2))"
    by (simp add: read_pending_def read_json_def moves_to_def demo_disk_def)
  from own_cycle_committed [OF ck ot p2 m] have
    "r = Inr ()" "cd_cache d' = Stored (TwoLayer (demo_data ?h ''success'' 3))" "cd_pending d' = cd_pending (fw_disk ?w2)"
    by (auto simp: demo_data_def)
  with ck ot m show ?thesis by (intro exI [of _ ?w0] exI [of _ ?w2] exI) (auto simp: moves_to_def demo_disk_def)
qed


end
