(* ===== verification/WireFrames.thy ===== *)
theory WireFrames
  imports Metadata
begin

text \<open>
  The wire between client and daemon: frames with a length and a version (\<^verbatim>\<open>lib.rs\<close>,
  \<^verbatim>\<open>wire_prost/frame.rs\<close>), frames of the process broker (\<^verbatim>\<open>wire_frame.rs\<close>), the choice between the two by
  their first bytes, all in \<^verbatim>\<open>crates/zccache-protocol/src\<close>, and the loop that reads messages from a stream
  (\<^verbatim>\<open>crates/zccache-ipc/src/transport/framing.rs\<close>).  The encoding of a message body and the codec of the
  broker come from libraries and are arguments.
\<close>

subsection \<open>Formats\<close>

definition PROST_PROTOCOL_VERSION :: nat where "PROST_PROTOCOL_VERSION = 26"

definition RETIRED_BINCODE_PROTOCOL_VERSION :: nat where "RETIRED_BINCODE_PROTOCOL_VERSION = 25"

definition MAX_MESSAGE_SIZE :: nat where "MAX_MESSAGE_SIZE = 16 * 1024 * 1024"

definition ZCCACHE_FRAME_PAYLOAD_PROTOCOL :: nat where "ZCCACHE_FRAME_PAYLOAD_PROTOCOL = 31331"

datatype protocol_error =
    Serialization string
  | Deserialization string
  | MessageTooLarge nat
  | VersionMismatch nat nat

datatype wire_format = ProstFormat | FrameFormat

datatype 'm decoded_wire_message = ProstV16 'm | FrameV1 'm u64

fun wire_format_of :: "'m decoded_wire_message \<Rightarrow> wire_format" where
  "wire_format_of (ProstV16 _) = ProstFormat"
| "wire_format_of (FrameV1 _ _) = FrameFormat"

fun format_protocol_version :: "wire_format \<Rightarrow> nat option" where
  "format_protocol_version ProstFormat = Some PROST_PROTOCOL_VERSION"
| "format_protocol_version FrameFormat = None"

definition wire_format_for_protocol_version :: "nat \<Rightarrow> wire_format option" where
  "wire_format_for_protocol_version version = (if version = PROST_PROTOCOL_VERSION then Some ProstFormat else None)"

datatype client_wire_selection = AutoWire | ForceProst | ForceFrame

fun preferred_format :: "client_wire_selection \<Rightarrow> wire_format" where
  "preferred_format AutoWire = ProstFormat"
| "preferred_format ForceProst = ProstFormat"
| "preferred_format ForceFrame = FrameFormat"

definition client_wire_selection_from_env_value :: "string option \<Rightarrow> string + client_wire_selection" where
  "client_wire_selection_from_env_value value =
     (case value of
        None \<Rightarrow> Inr AutoWire
      | Some v \<Rightarrow>
          (let s = map ascii_lower (str_trim v)
           in if s \<in> {[], ''auto''} then Inr AutoWire
              else if s \<in> {''prost'', ''prost-v16'', ''v16''} then Inr ForceProst
              else if s \<in> {''frame'', ''frame-v1''} then Inr ForceFrame
              else Inl (''unsupported ZCCACHE_DAEMON_WIRE='' @ s)))"

definition wire_format_from_env_value :: "string option \<Rightarrow> string + wire_format" where
  "wire_format_from_env_value value = map_sum id preferred_format (client_wire_selection_from_env_value value)"

subsection \<open>Frames with a length\<close>

definition put_u32_le :: "nat \<Rightarrow> string" where
  "put_u32_le n = map (\<lambda>i. char_of (n div 256 ^ i mod 256)) [0, 1, 2, 3]"

definition u32_from_le_bytes :: "string \<Rightarrow> nat" where
  "u32_from_le_bytes bs = foldr (\<lambda>c n. of_char c + 256 * n) bs 0"

text \<open>The library that encodes message bodies.\<close>

record 'm body_codec =
  bc_encode :: "'m \<Rightarrow> string + string"
  bc_decode :: "string \<Rightarrow> string + 'm"

definition encode_prost_message :: "'m body_codec \<Rightarrow> 'm \<Rightarrow> protocol_error + string" where
  "encode_prost_message bc msg =
     (case bc_encode bc msg of
        Inl e \<Rightarrow> Inl (Serialization e)
      | Inr payload \<Rightarrow>
          if 2 ^ 32 \<le> 4 + length payload then Inl (MessageTooLarge (length payload))
          else Inr (put_u32_le (4 + length payload) @ put_u32_le PROST_PROTOCOL_VERSION @ payload))"

text \<open>Decoders return the buffer they leave beside their result.\<close>

definition decode_prost_message :: "'m body_codec \<Rightarrow> string \<Rightarrow> string \<times> (protocol_error + 'm option)" where
  "decode_prost_message bc buf =
     (if length buf < 4 then (buf, Inr None)
      else
        (let len = u32_from_le_bytes (take 4 buf)
         in if MAX_MESSAGE_SIZE < len then (buf, Inl (MessageTooLarge len))
            else if length buf < 4 + len then (buf, Inr None)
            else if len < 4 then (buf, Inl (Deserialization ''frame too small for protocol version''))
            else
              (let frame = take len (drop 4 buf);
                   left = drop len (drop 4 buf);
                   remote_ver = u32_from_le_bytes (take 4 frame)
               in if remote_ver \<noteq> PROST_PROTOCOL_VERSION then (left, Inl (VersionMismatch PROST_PROTOCOL_VERSION remote_ver))
                  else (left, (case bc_decode bc (drop 4 frame) of
                    Inl e \<Rightarrow> Inl (Deserialization e)
                  | Inr m \<Rightarrow> Inr (Some m))))))"

definition peek_frame_protocol_version :: "string \<Rightarrow> protocol_error + nat option" where
  "peek_frame_protocol_version buf =
     (if length buf < 4 then Inr None
      else
        (let len = u32_from_le_bytes (take 4 buf)
         in if MAX_MESSAGE_SIZE < len then Inl (MessageTooLarge len)
            else if len < 4 then Inl (Deserialization ''frame too small for protocol version'')
            else if length buf < 4 + len then Inr None
            else Inr (Some (u32_from_le_bytes (take 4 (drop 4 buf))))))"

subsection \<open>Frames of the broker\<close>

datatype frame_kind = RequestKind | ResponseKind | OtherKind nat

datatype payload_encoding = NoEncoding | OtherEncoding nat

record daemon_frame =
  df_envelope_version :: nat
  df_kind :: frame_kind
  df_payload_protocol :: nat
  df_payload :: string
  df_request_id :: u64
  df_payload_encoding :: payload_encoding

datatype frame_error = FrameTooLarge nat | OtherFrameError string

datatype frame_decode = DecodedFrame daemon_frame nat | NeedMoreBytes

record frame_codec =
  fc_request :: "nat \<Rightarrow> string \<Rightarrow> daemon_frame"
  fc_with_request_id :: "u64 \<Rightarrow> daemon_frame \<Rightarrow> daemon_frame"
  fc_response_to :: "daemon_frame \<Rightarrow> string \<Rightarrow> daemon_frame"
  fc_encode :: "daemon_frame \<Rightarrow> frame_error + string"
  fc_decode :: "string \<Rightarrow> frame_error + frame_decode"

definition encode_framed_bytes :: "frame_codec \<Rightarrow> daemon_frame \<Rightarrow> protocol_error + string" where
  "encode_framed_bytes fc frame =
     (case fc_encode fc frame of
        Inl (FrameTooLarge body_length) \<Rightarrow> Inl (MessageTooLarge body_length)
      | Inl (OtherFrameError e) \<Rightarrow> Inl (Serialization e)
      | Inr bytes \<Rightarrow> Inr bytes)"

definition encode_frame_v1_request :: "'m body_codec \<Rightarrow> frame_codec \<Rightarrow> 'm \<Rightarrow> u64 \<Rightarrow> protocol_error + string" where
  "encode_frame_v1_request bc fc msg request_id =
     (case bc_encode bc msg of
        Inl e \<Rightarrow> Inl (Serialization e)
      | Inr payload \<Rightarrow>
          encode_framed_bytes fc (fc_with_request_id fc request_id (fc_request fc ZCCACHE_FRAME_PAYLOAD_PROTOCOL payload)))"

definition encode_frame_v1_response :: "'m body_codec \<Rightarrow> frame_codec \<Rightarrow> 'm \<Rightarrow> u64 \<Rightarrow> protocol_error + string" where
  "encode_frame_v1_response bc fc msg request_id =
     (let template = fc_with_request_id fc request_id (fc_request fc ZCCACHE_FRAME_PAYLOAD_PROTOCOL [])
      in case bc_encode bc msg of
           Inl e \<Rightarrow> Inl (Serialization e)
         | Inr payload \<Rightarrow> encode_framed_bytes fc (fc_response_to fc template payload))"

definition buffer_starts_running_process_frame :: "string \<Rightarrow> bool option" where
  "buffer_starts_running_process_frame buf =
     (case buf of
        [] \<Rightarrow> None
      | c # _ \<Rightarrow>
          if c \<noteq> CHR 0x01 then Some False
          else if length buf < 8 then None
          else
            (let zccache_len = u32_from_le_bytes (take 4 buf);
                 zccache_version = u32_from_le_bytes (take 4 (drop 4 buf))
             in Some (\<not> (4 \<le> zccache_len \<and>
                  (zccache_version = PROST_PROTOCOL_VERSION \<or> zccache_version = RETIRED_BINCODE_PROTOCOL_VERSION)))))"

definition decode_frame_v1_message ::
    "'m body_codec \<Rightarrow> frame_codec \<Rightarrow> string \<Rightarrow> string \<times> (protocol_error + ('m \<times> u64) option)" where
  "decode_frame_v1_message bc fc buf =
     (case fc_decode fc buf of
        Inr NeedMoreBytes \<Rightarrow> (buf, Inr None)
      | Inl (FrameTooLarge body_length) \<Rightarrow> (buf, Inl (MessageTooLarge body_length))
      | Inl (OtherFrameError e) \<Rightarrow> (buf, Inl (Deserialization (''running-process Frame: '' @ e)))
      | Inr (DecodedFrame frame consumed) \<Rightarrow>
          if df_envelope_version frame \<noteq> 1 then (buf, Inl (Deserialization ''unsupported running-process Frame envelope_version''))
          else if df_payload_protocol frame \<noteq> ZCCACHE_FRAME_PAYLOAD_PROTOCOL
          then (buf, Inl (Deserialization ''running-process Frame payload_protocol is not the zccache payload protocol''))
          else if df_kind frame \<noteq> RequestKind \<and> df_kind frame \<noteq> ResponseKind
          then (buf, Inl (Deserialization ''unsupported running-process Frame kind on the zccache lane''))
          else if df_payload_encoding frame \<noteq> NoEncoding
          then (buf, Inl (Deserialization ''unsupported running-process Frame payload_encoding on the zccache lane''))
          else (case bc_decode bc (df_payload frame) of
            Inl e \<Rightarrow> (buf, Inl (Deserialization e))
          | Inr message \<Rightarrow> (drop consumed buf, Inr (Some (message, df_request_id frame)))))"

definition decode_wire_message ::
    "'m body_codec \<Rightarrow> frame_codec \<Rightarrow> string \<Rightarrow> string \<times> (protocol_error + 'm decoded_wire_message option)" where
  "decode_wire_message bc fc buf =
     (case buffer_starts_running_process_frame buf of
        None \<Rightarrow> (buf, Inr None)
      | Some True \<Rightarrow>
          (case decode_frame_v1_message bc fc buf of
             (buf, r) \<Rightarrow> (buf, map_sum id (map_option (\<lambda>(message, request_id). FrameV1 message request_id)) r))
      | Some False \<Rightarrow>
          (case peek_frame_protocol_version buf of
             Inl e \<Rightarrow> (buf, Inl e)
           | Inr None \<Rightarrow> (buf, Inr None)
           | Inr (Some version) \<Rightarrow>
               (case wire_format_for_protocol_version version of
                  Some ProstFormat \<Rightarrow>
                    (case decode_prost_message bc buf of (buf, r) \<Rightarrow> (buf, map_sum id (map_option ProstV16) r))
                | _ \<Rightarrow> (buf, Inl (VersionMismatch PROST_PROTOCOL_VERSION version)))))"

subsection \<open>Reading a stream\<close>

datatype ipc_error = IpcProtocol protocol_error | ConnectionClosed | IpcIo io_error

text \<open>A reader is what its successive reads return; an empty read, or none left, is the end of the stream.\<close>

type_synonym reader = "(io_error + string) list"

definition read_next_chunk :: "reader \<Rightarrow> string \<Rightarrow> reader \<times> string \<times> (ipc_error + bool)" where
  "read_next_chunk reader read_buf =
     (case reader of
        Inl e # later \<Rightarrow> (later, read_buf, Inl (IpcIo e))
      | Inr (c # chunk) # later \<Rightarrow> (later, read_buf @ c # chunk, Inr True)
      | _ \<Rightarrow> (tl reader, read_buf, if read_buf = [] then Inr False else Inl ConnectionClosed))"

function recv_wire_loop ::
    "'m body_codec \<Rightarrow> frame_codec \<Rightarrow> reader \<Rightarrow> string \<Rightarrow>
       reader \<times> string \<times> (ipc_error + 'm decoded_wire_message option)" where
  "recv_wire_loop bc fc reader read_buf =
     (case decode_wire_message bc fc read_buf of
        (buf, Inl e) \<Rightarrow> (reader, buf, Inl (IpcProtocol e))
      | (buf, Inr (Some msg)) \<Rightarrow> (reader, buf, Inr (Some msg))
      | (buf, Inr None) \<Rightarrow>
          (case read_next_chunk reader buf of
             (reader, buf, Inl e) \<Rightarrow> (reader, buf, Inl e)
           | (reader, buf, Inr False) \<Rightarrow> (reader, buf, Inr None)
           | (reader, buf, Inr True) \<Rightarrow> recv_wire_loop bc fc reader buf))"
  by pat_completeness auto
termination
  by (relation "measure (\<lambda>(bc, fc, reader, buf). length reader)")
     (auto simp: read_next_chunk_def split: list.splits sum.splits if_splits)

declare recv_wire_loop.simps [simp del]

fun ensure_buffered :: "reader \<Rightarrow> string \<Rightarrow> nat \<Rightarrow> reader \<times> string \<times> (ipc_error + unit)" where
  "ensure_buffered [] read_buf min_len =
     (if length read_buf < min_len
      then ([], read_buf, if read_buf = [] then Inr () else Inl ConnectionClosed) else ([], read_buf, Inr ()))"
| "ensure_buffered (chunk # later) read_buf min_len =
     (if length read_buf < min_len
      then (case read_next_chunk (chunk # later) read_buf of
        (reader, buf, Inl e) \<Rightarrow> (reader, buf, Inl e)
      | (reader, buf, Inr False) \<Rightarrow> (reader, buf, if buf = [] then Inr () else Inl ConnectionClosed)
      | (reader, buf, Inr True) \<Rightarrow> ensure_buffered later buf min_len)
      else (chunk # later, read_buf, Inr ()))"

subsection \<open>Bytes\<close>

lemma length_put [simp]: "length (put_u32_le n) = 4"
  by (simp add: put_u32_le_def)

lemma from_put [simp]: "n < 2 ^ 32 \<Longrightarrow> u32_from_le_bytes (put_u32_le n) = n"
proof -
  assume n: "n < 2 ^ 32"
  let ?a = "n div 256" let ?b = "?a div 256" let ?c = "?b div 256"
  have d: "n div 256 ^ 2 = ?b" "n div 256 ^ 3 = ?c" by (simp_all add: power2_eq_square power3_eq_cube div_mult2_eq)
  have "?c < 256" using n by (simp add: div_mult2_eq [symmetric])
  then have "?c mod 256 = ?c" by simp
  then have "n mod 256 + 256 * (?a mod 256 + 256 * (?b mod 256 + 256 * (?c mod 256))) = n" by simp
  with d show ?thesis by (simp add: put_u32_le_def u32_from_le_bytes_def)
qed

lemma put_first: "put_u32_le n = char_of (n mod 256) # tl (put_u32_le n)"
  by (simp add: put_u32_le_def)

lemma take_put [simp]: "take 4 (put_u32_le n @ r) = put_u32_le n" "drop 4 (put_u32_le n @ r) = r"
  by simp_all

subsection \<open>One frame\<close>

text \<open>
  What the libraries promise: a body is decoded as it was encoded; the frames the broker builds carry what
  they were built from; such a frame (its payload protocol is that of zccache, so its body has at least
  three bytes) is encoded as the byte one, the length of its body and the body, and it is decoded as
  soon as it is complete and not before.
\<close>

definition body_laws :: "'m body_codec \<Rightarrow> bool" where
  "body_laws bc \<longleftrightarrow> (\<forall>m payload. bc_encode bc m = Inr payload \<longrightarrow> bc_decode bc payload = Inr m)"

definition built_frame :: "frame_kind \<Rightarrow> string \<Rightarrow> u64 \<Rightarrow> daemon_frame \<Rightarrow> bool" where
  "built_frame kind payload request_id f \<longleftrightarrow>
     f = \<lparr> df_envelope_version = 1, df_kind = kind, df_payload_protocol = ZCCACHE_FRAME_PAYLOAD_PROTOCOL, df_payload = payload,
           df_request_id = request_id, df_payload_encoding = NoEncoding \<rparr>"

definition frame_laws :: "frame_codec \<Rightarrow> bool" where
  "frame_laws fc \<longleftrightarrow>
     (\<forall>payload request_id. built_frame RequestKind payload request_id
        (fc_with_request_id fc request_id (fc_request fc ZCCACHE_FRAME_PAYLOAD_PROTOCOL payload))) \<and>
     (\<forall>payload request_id f. built_frame RequestKind [] request_id f \<longrightarrow>
        built_frame ResponseKind payload request_id (fc_response_to fc f payload)) \<and>
     (\<forall>kind payload request_id f bytes. built_frame kind payload request_id f \<longrightarrow> fc_encode fc f = Inr bytes \<longrightarrow>
        (\<exists>body. bytes = CHR 0x01 # put_u32_le (length body) @ body \<and> 3 \<le> length body) \<and>
        (\<forall>left. fc_decode fc (bytes @ left) = Inr (DecodedFrame f (length bytes))) \<and>
        (\<forall>p. strict_prefix p bytes \<longrightarrow> fc_decode fc p = Inr NeedMoreBytes))"

text \<open>The bytes of a message on its lane, as client or daemon sends it.\<close>

fun wire_bytes :: "'m body_codec \<Rightarrow> frame_codec \<Rightarrow> bool \<Rightarrow> 'm decoded_wire_message \<Rightarrow> protocol_error + string" where
  "wire_bytes bc fc is_response (ProstV16 m) = encode_prost_message bc m"
| "wire_bytes bc fc is_response (FrameV1 m request_id) =
     (if is_response then encode_frame_v1_response bc fc m request_id else encode_frame_v1_request bc fc m request_id)"

text \<open>A frame that its lane lets through: at most the message size on the one, a body below 16 MiB on the other.\<close>

definition fits :: "'m decoded_wire_message \<Rightarrow> string \<Rightarrow> bool" where
  "fits msg bytes \<longleftrightarrow>
     (case wire_format_of msg of ProstFormat \<Rightarrow> length bytes \<le> 4 + MAX_MESSAGE_SIZE | FrameFormat \<Rightarrow> length bytes < 5 + 2 ^ 24)"

lemma prost_bytes:
  assumes "encode_prost_message bc m = Inr bytes"
  obtains payload where "bc_encode bc m = Inr payload" "4 + length payload < 2 ^ 32"
    "bytes = put_u32_le (4 + length payload) @ put_u32_le PROST_PROTOCOL_VERSION @ payload"
  using assms by (auto simp: encode_prost_message_def split: sum.splits if_splits)

lemma version_small [simp]: "u32_from_le_bytes (put_u32_le PROST_PROTOCOL_VERSION) = PROST_PROTOCOL_VERSION"
  by (simp add: PROST_PROTOCOL_VERSION_def)

lemma not_broker_frame:
  assumes "8 \<le> length buf" and "4 \<le> u32_from_le_bytes (take 4 buf)" and "u32_from_le_bytes (take 4 (drop 4 buf)) = PROST_PROTOCOL_VERSION"
  shows "buffer_starts_running_process_frame buf = Some False"
  using assms by (auto simp: buffer_starts_running_process_frame_def Let_def split: list.splits)

lemma decode_prost_complete:
  assumes "body_laws bc" and "encode_prost_message bc m = Inr bytes" and "length bytes \<le> 4 + MAX_MESSAGE_SIZE"
  shows "decode_wire_message bc fc (bytes @ left) = (left, Inr (Some (ProstV16 m)))"
proof -
  from prost_bytes [OF assms(2)] obtain payload where p: "bc_encode bc m = Inr payload" "4 + length payload < 2 ^ 32"
    "bytes = put_u32_le (4 + length payload) @ put_u32_le PROST_PROTOCOL_VERSION @ payload" by blast
  have len: "u32_from_le_bytes (put_u32_le (4 + length payload)) = 4 + length payload" using p(2) by (rule from_put)
  have "buffer_starts_running_process_frame (bytes @ left) = Some False"
    by (rule not_broker_frame) (simp_all add: p(3) len)
  moreover have "\<not> MAX_MESSAGE_SIZE < 4 + length payload" using assms(3) p(3) by simp
  moreover have "bc_decode bc payload = Inr m" using assms(1) p(1) by (simp add: body_laws_def)
  ultimately show ?thesis
    by (simp add: decode_wire_message_def peek_frame_protocol_version_def decode_prost_message_def p(3) len Let_def
        wire_format_for_protocol_version_def)
qed


lemma strict_prefix_take: "strict_prefix p bs \<Longrightarrow> p = take (length p) bs \<and> length p < length bs"
  by (auto simp: strict_prefix_def prefix_def)

lemma decode_prost_incomplete:
  assumes "encode_prost_message bc m = Inr bytes" and "length bytes \<le> 4 + MAX_MESSAGE_SIZE" and "strict_prefix p bytes"
  shows "decode_wire_message bc fc p = (p, Inr None)"
proof -
  from prost_bytes [OF assms(1)] obtain payload where q: "4 + length payload < 2 ^ 32"
    "bytes = put_u32_le (4 + length payload) @ put_u32_le PROST_PROTOCOL_VERSION @ payload" by blast
  have len: "u32_from_le_bytes (put_u32_le (4 + length payload)) = 4 + length payload" using q(1) by (rule from_put)
  from strict_prefix_take [OF assms(3)] have p: "p = take (length p) bytes" "length p < 8 + length payload" by (simp_all add: q(2))
  have four: "take 4 p = put_u32_le (4 + length payload)" if "4 \<le> length p"
    using that by (subst p(1)) (simp add: q(2))
  have eight: "take 4 (drop 4 p) = put_u32_le PROST_PROTOCOL_VERSION" if "8 \<le> length p"
    using that by (subst p(1)) (simp add: q(2))
  have peek: "peek_frame_protocol_version p = Inr None"
    using four p(2) assms(2) by (auto simp: peek_frame_protocol_version_def Let_def q(2) len)
  consider "p = []" | "p \<noteq> []" "length p < 8" | "8 \<le> length p" by linarith
  then show ?thesis
  proof cases
    case 2
    then have "buffer_starts_running_process_frame p \<in> {None, Some False}"
      by (auto simp: buffer_starts_running_process_frame_def split: list.splits)
    with peek show ?thesis by (auto simp: decode_wire_message_def)
  next
    case 3
    then have "buffer_starts_running_process_frame p = Some False"
      by (intro not_broker_frame) (simp_all add: four eight len)
    with peek show ?thesis by (simp add: decode_wire_message_def)
  qed (simp add: decode_wire_message_def buffer_starts_running_process_frame_def)
qed

text \<open>The length of a broker frame below 16 MiB keeps its fourth byte zero, so it cannot be taken for a version.\<close>

lemma broker_frame_start:
  assumes "bytes = CHR 0x01 # put_u32_le (length body) @ body" and "length body < 2 ^ 24" and "prefix p (bytes @ left)" and "8 \<le> length p"
  shows "buffer_starts_running_process_frame p = Some True"
proof -
  obtain c where c: "p = CHR 0x01 # c" using assms(1,3,4) by (cases p) auto
  have "length body div 256 ^ 3 mod 256 = 0" using assms(2) by simp
  then have "put_u32_le (length body) ! 3 = char_of (0 :: nat)" by (simp add: put_u32_le_def)
  moreover have "p ! 4 = put_u32_le (length body) ! 3"
  proof -
    from assms(3) obtain zs where "bytes @ left = p @ zs" by (auto simp: prefix_def)
    then have "p ! 4 = (bytes @ left) ! 4" using assms(4) by (simp add: nth_append)
    also have "\<dots> = put_u32_le (length body) ! 3" by (simp add: assms(1) nth_append numeral_eq_Suc)
    finally show ?thesis .
  qed
  ultimately have "take 4 (drop 4 p) = char_of (0 :: nat) # take 3 (drop 5 p)"
    using assms(4) by (simp add: Cons_nth_drop_Suc [symmetric] numeral_eq_Suc)
  then have "u32_from_le_bytes (take 4 (drop 4 p)) mod 256 = 0" by (simp add: u32_from_le_bytes_def)
  then have "u32_from_le_bytes (take 4 (drop 4 p)) \<noteq> PROST_PROTOCOL_VERSION" "u32_from_le_bytes (take 4 (drop 4 p)) \<noteq> RETIRED_BINCODE_PROTOCOL_VERSION"
    by (auto simp: PROST_PROTOCOL_VERSION_def RETIRED_BINCODE_PROTOCOL_VERSION_def)
  with assms(4) show ?thesis by (simp add: buffer_starts_running_process_frame_def Let_def c)
qed

lemma built_frame_encoded:
  "frame_laws fc \<Longrightarrow> built_frame kind payload request_id f \<Longrightarrow> fc_encode fc f = Inr bytes \<Longrightarrow>
     (\<exists>body. bytes = CHR 0x01 # put_u32_le (length body) @ body \<and> 3 \<le> length body) \<and>
     (\<forall>left. fc_decode fc (bytes @ left) = Inr (DecodedFrame f (length bytes))) \<and>
     (\<forall>p. strict_prefix p bytes \<longrightarrow> fc_decode fc p = Inr NeedMoreBytes)"
  unfolding frame_laws_def by (drule conjunct2, drule conjunct2, elim allE impE, assumption+)

lemma frame_bytes:
  assumes "body_laws bc" and "frame_laws fc" and "wire_bytes bc fc is_response (FrameV1 m request_id) = Inr bytes"
  obtains body where "bytes = CHR 0x01 # put_u32_le (length body) @ body" "3 \<le> length body"
    "\<And>left. decode_frame_v1_message bc fc (bytes @ left) = (left, Inr (Some (m, request_id)))"
    "\<And>p. strict_prefix p bytes \<Longrightarrow> decode_frame_v1_message bc fc p = (p, Inr None)"
proof -
  let ?request = "\<lambda>payload. fc_with_request_id fc request_id (fc_request fc ZCCACHE_FRAME_PAYLOAD_PROTOCOL payload)"
  define frame where "frame payload = (if is_response then fc_response_to fc (?request []) payload else ?request payload)" for payload
  from assms(3) obtain payload where pl: "bc_encode bc m = Inr payload" "encode_framed_bytes fc (frame payload) = Inr bytes"
    by (auto simp: encode_frame_v1_response_def encode_frame_v1_request_def Let_def frame_def split: sum.splits if_splits)
  from assms(2) have b: "built_frame (if is_response then ResponseKind else RequestKind) payload request_id (frame payload)"
    by (auto simp: frame_laws_def frame_def)
  have e: "fc_encode fc (frame payload) = Inr bytes"
    using pl(2) by (auto simp: encode_framed_bytes_def split: sum.splits frame_error.splits)
  from built_frame_encoded [OF assms(2) b e] obtain body where "bytes = CHR 0x01 # put_u32_le (length body) @ body" "3 \<le> length body"
    and d: "\<And>left. fc_decode fc (bytes @ left) = Inr (DecodedFrame (frame payload) (length bytes))"
    and n: "\<And>p. strict_prefix p bytes \<Longrightarrow> fc_decode fc p = Inr NeedMoreBytes"
    by blast
  moreover have "decode_frame_v1_message bc fc (bytes @ left) = (left, Inr (Some (m, request_id)))" for left
    using b assms(1) pl(1) by (auto simp: decode_frame_v1_message_def d built_frame_def body_laws_def)
  moreover have "decode_frame_v1_message bc fc p = (p, Inr None)" if "strict_prefix p bytes" for p
    using n [OF that] by (simp add: decode_frame_v1_message_def)
  ultimately show ?thesis using that by blast
qed


lemma decode_complete:
  assumes "body_laws bc" and "frame_laws fc" and "wire_bytes bc fc is_response msg = Inr bytes" and "fits msg bytes"
  shows "decode_wire_message bc fc (bytes @ left) = (left, Inr (Some msg))"
proof (cases msg)
  case (ProstV16 m)
  with assms decode_prost_complete [OF assms(1), of m bytes] show ?thesis by (simp add: fits_def)
next
  case (FrameV1 m request_id)
  from frame_bytes [OF assms(1,2) assms(3) [unfolded FrameV1]] obtain body where
    b: "bytes = CHR 0x01 # put_u32_le (length body) @ body" "3 \<le> length body"
    "decode_frame_v1_message bc fc (bytes @ left) = (left, Inr (Some (m, request_id)))" by metis
  from assms(4) have "length body < 2 ^ 24" by (simp add: fits_def FrameV1 b(1))
  from broker_frame_start [OF b(1) this prefix_order.refl, of left] b(2)
  have "buffer_starts_running_process_frame (bytes @ left) = Some True" by (simp add: b(1))
  with b(3) show ?thesis by (simp add: decode_wire_message_def FrameV1)
qed

lemma decode_incomplete:
  assumes "body_laws bc" and "frame_laws fc" and "wire_bytes bc fc is_response msg = Inr bytes" and "fits msg bytes"
    and "strict_prefix p bytes"
  shows "decode_wire_message bc fc p = (p, Inr None)"
proof (cases msg)
  case (ProstV16 m)
  with assms decode_prost_incomplete [of bc m bytes p fc] show ?thesis by (simp add: fits_def)
next
  case (FrameV1 m request_id)
  from frame_bytes [OF assms(1,2) assms(3) [unfolded FrameV1]] obtain body where
    b: "bytes = CHR 0x01 # put_u32_le (length body) @ body" "\<And>p. strict_prefix p bytes \<Longrightarrow> decode_frame_v1_message bc fc p = (p, Inr None)"
    by metis
  from assms(4) have len: "length body < 2 ^ 24" by (simp add: fits_def FrameV1 b(1))
  show ?thesis
  proof (cases "8 \<le> length p")
    case True
    from broker_frame_start [OF b(1) len _ True, of "[]"] assms(5) have "buffer_starts_running_process_frame p = Some True"
      by (simp add: strict_prefix_def)
    with b(2) [OF assms(5)] show ?thesis by (simp add: decode_wire_message_def)
  next
    case False
    from assms(5) have "p = [] \<or> hd p = CHR 0x01" by (cases p) (auto simp: b(1) strict_prefix_def)
    with False have "buffer_starts_running_process_frame p = None"
      by (cases p) (auto simp: buffer_starts_running_process_frame_def)
    then show ?thesis by (simp add: decode_wire_message_def)
  qed
qed

subsection \<open>Streams of frames\<close>

definition stream_text :: "reader \<Rightarrow> string" where
  "stream_text reader = concat (map (\<lambda>c. case c of Inl _ \<Rightarrow> [] | Inr s \<Rightarrow> s) reader)"

definition healthy :: "reader \<Rightarrow> bool" where
  "healthy reader \<longleftrightarrow> list_all (\<lambda>c. case c of Inl _ \<Rightarrow> False | Inr s \<Rightarrow> s \<noteq> []) reader"

text \<open>The messages a receiver gets one after the other, and what the last call ends with.\<close>

inductive receives :: "'m body_codec \<Rightarrow> frame_codec \<Rightarrow> reader \<Rightarrow> string \<Rightarrow> 'm decoded_wire_message list \<Rightarrow> ipc_error + unit \<Rightarrow> bool"
  for bc fc where
  closed: "recv_wire_loop bc fc reader buf = (reader', buf', Inr None) \<Longrightarrow> receives bc fc reader buf [] (Inr ())"
| failed: "recv_wire_loop bc fc reader buf = (reader', buf', Inl e) \<Longrightarrow> receives bc fc reader buf [] (Inl e)"
| message: "recv_wire_loop bc fc reader buf = (reader', buf', Inr (Some msg)) \<Longrightarrow> receives bc fc reader' buf' msgs r \<Longrightarrow>
     receives bc fc reader buf (msg # msgs) r"

lemma recv_one:
  assumes "body_laws bc" and "frame_laws fc" and "wire_bytes bc fc is_response msg = Inr bytes" and "fits msg bytes"
  shows "healthy reader \<Longrightarrow> buf @ stream_text reader = bytes @ left \<Longrightarrow>
    \<exists>reader' buf'. recv_wire_loop bc fc reader buf = (reader', buf', Inr (Some msg)) \<and> healthy reader' \<and> buf' @ stream_text reader' = left"
proof (induction reader arbitrary: buf)
  case Nil
  then have "buf = bytes @ left" by (simp add: stream_text_def)
  with decode_complete [OF assms, of left] Nil show ?case
    by (subst recv_wire_loop.simps) (simp add: stream_text_def)
next
  case (Cons chunk reader)
  show ?case
  proof (cases "strict_prefix buf bytes")
    case True
    from Cons.prems(1) obtain c s where ch: "chunk = Inr (c # s)" "healthy reader"
      by (cases chunk) (auto simp: healthy_def neq_Nil_conv)
    have "(buf @ c # s) @ stream_text reader = bytes @ left" using Cons.prems(2) ch(1) by (simp add: stream_text_def)
    from Cons.IH [OF ch(2) this] decode_incomplete [OF assms True] ch show ?thesis
      by (subst recv_wire_loop.simps) (simp add: read_next_chunk_def)
  next
    case False
    with Cons.prems(2) obtain r where r: "buf = bytes @ r" "left = r @ stream_text (chunk # reader)"
      by (auto simp: strict_prefix_def prefix_def append_eq_append_conv2)
    with decode_complete [OF assms, of r] Cons.prems(1) show ?thesis
      by (subst recv_wire_loop.simps) simp
  qed
qed


lemma recv_cut:
  assumes "body_laws bc" and "frame_laws fc" and "wire_bytes bc fc is_response msg = Inr bytes" and "fits msg bytes" and "strict_prefix p bytes"
  shows "healthy reader \<Longrightarrow> buf @ stream_text reader = p \<Longrightarrow>
    \<exists>reader' buf'. recv_wire_loop bc fc reader buf = (reader', buf', if p = [] then Inr None else Inl ConnectionClosed)"
proof (induction reader arbitrary: buf)
  case Nil
  then have "buf = p" by (simp add: stream_text_def)
  with decode_incomplete [OF assms] show ?case
    by (subst recv_wire_loop.simps) (simp add: read_next_chunk_def)
next
  case (Cons chunk reader)
  from Cons.prems(1) obtain c s where ch: "chunk = Inr (c # s)" "healthy reader"
    by (cases chunk) (auto simp: healthy_def neq_Nil_conv)
  have t: "(buf @ c # s) @ stream_text reader = p" using Cons.prems(2) ch(1) by (simp add: stream_text_def)
  then have "strict_prefix buf bytes"
    using assms(5) by (auto simp: strict_prefix_def prefix_def)
  from decode_incomplete [OF assms(1-4) this] Cons.IH [OF ch(2) t] ch show ?case
    by (subst recv_wire_loop.simps) (simp add: read_next_chunk_def)
qed

text \<open>
  C27. Frames survive the stream.  However the bytes of a sequence of messages that the limits of their lanes
  let through (16 MiB) are cut into reads, whichever lane each message uses, the receiver gets exactly these messages in their order; when the stream ends
  between two frames it reports the end, and when it ends inside a frame it reports a closed connection
  and delivers nothing of that frame.
\<close>

theorem stream_roundtrip:
  assumes "body_laws bc" and "frame_laws fc"
    and "list_all2 (\<lambda>msg bytes. wire_bytes bc fc is_response msg = Inr bytes \<and> fits msg bytes) msgs frames"
    and "wire_bytes bc fc is_response last_msg = Inr bytes" and "fits last_msg bytes" and "strict_prefix p bytes"
    and "healthy reader" and "stream_text reader = concat frames @ p"
  shows "receives bc fc reader [] msgs (if p = [] then Inr () else Inl ConnectionClosed)"
proof -
  have "healthy reader \<Longrightarrow> buf @ stream_text reader = concat frames @ p \<Longrightarrow>
      receives bc fc reader buf msgs (if p = [] then Inr () else Inl ConnectionClosed)" for reader buf
    using assms(3)
  proof (induction msgs frames arbitrary: reader buf rule: list_all2_induct)
    case Nil
    with recv_cut [OF assms(1,2,4,5,6), of reader buf] obtain reader' buf' where
      "recv_wire_loop bc fc reader buf = (reader', buf', if p = [] then Inr None else Inl ConnectionClosed)" by auto
    then show ?case by (auto intro: receives.closed receives.failed split: if_splits)
  next
    case (Cons msg msgs bytes frames)
    have "buf @ stream_text reader = bytes @ (concat frames @ p)" using Cons.prems(2) by simp
    from recv_one [OF assms(1,2) _ _ Cons.prems(1) this] Cons.hyps(1) obtain reader' buf' where
      r: "recv_wire_loop bc fc reader buf = (reader', buf', Inr (Some msg))" "healthy reader'" "buf' @ stream_text reader' = concat frames @ p"
      by blast
    from receives.message [OF r(1) Cons.IH [OF r(2,3)]] show ?case .
  qed
  from this [OF assms(7), of "[]"] assms(8) show ?thesis by simp
qed

text \<open>
  C39. A message the sender accepts can be refused by every receiver.  The encoder bounds a frame only by its
  32-bit length, while the decoder refuses a frame above 16 MiB: a message in between is sent, and the
  receiver ends with an error as soon as the frame has begun.
\<close>

theorem large_message_is_refused:
  assumes "bc_encode bc m = Inr payload" and "MAX_MESSAGE_SIZE < 4 + length payload" and "4 + length payload < 2 ^ 32"
  shows "\<exists>bytes. encode_prost_message bc m = Inr bytes \<and>
    decode_wire_message bc fc (bytes @ left) = (bytes @ left, Inl (MessageTooLarge (4 + length payload)))"
proof -
  let ?bytes = "put_u32_le (4 + length payload) @ put_u32_le PROST_PROTOCOL_VERSION @ payload"
  have e: "encode_prost_message bc m = Inr ?bytes" using assms by (simp add: encode_prost_message_def)
  have len: "u32_from_le_bytes (put_u32_le (4 + length payload)) = 4 + length payload" using assms(3) by (rule from_put)
  have "buffer_starts_running_process_frame (?bytes @ left) = Some False"
    by (rule not_broker_frame) (simp_all add: len)
  with e assms(2) len show ?thesis
    by (simp add: decode_wire_message_def peek_frame_protocol_version_def Let_def)
qed


text \<open>A body longer than the receiver takes.\<close>

definition demo_big :: string where
  "demo_big = replicate 16777216 (CHR ''x'')"

definition demo_big_codec :: "unit body_codec" where
  "demo_big_codec = \<lparr> bc_encode = (\<lambda>_. Inr demo_big), bc_decode = (\<lambda>_. Inr ()) \<rparr>"

lemma length_demo_big: "length demo_big = 16777216"
  unfolding demo_big_def by (rule length_replicate)

text \<open>Strings as messages, and a broker whose frames carry a kind and a small request id.\<close>

definition demo_bodies :: "string body_codec" where
  "demo_bodies = \<lparr> bc_encode = Inr, bc_decode = Inr \<rparr>"

definition demo_frame :: "char \<Rightarrow> char \<Rightarrow> string \<Rightarrow> daemon_frame" where
  "demo_frame k r payload = \<lparr> df_envelope_version = 1, df_kind = (if k = CHR ''q'' then RequestKind else ResponseKind),
     df_payload_protocol = ZCCACHE_FRAME_PAYLOAD_PROTOCOL, df_payload = payload, df_request_id = of_char r, df_payload_encoding = NoEncoding \<rparr>"

definition demo_encode :: "daemon_frame \<Rightarrow> frame_error + string" where
  "demo_encode f =
     (let k = (if df_kind f = RequestKind then CHR ''q'' else CHR ''r''); body = [k, char_of (df_request_id f), CHR ''z''] @ df_payload f
      in if f = demo_frame k (char_of (df_request_id f)) (df_payload f) \<and> length body < 2 ^ 32
         then Inr (CHR 0x01 # put_u32_le (length body) @ body) else Inl (OtherFrameError ''unsupported''))"

definition demo_decode :: "string \<Rightarrow> frame_error + frame_decode" where
  "demo_decode bs =
     (if length bs < 5 then Inr NeedMoreBytes
      else (let n = u32_from_le_bytes (take 4 (drop 1 bs)); body = take n (drop 5 bs)
            in if length bs < 5 + n then Inr NeedMoreBytes
               else Inr (DecodedFrame (demo_frame (body ! 0) (body ! 1) (drop 3 body)) (5 + n))))"

definition demo_broker :: frame_codec where
  "demo_broker = \<lparr> fc_request = (\<lambda>protocol payload. \<lparr> df_envelope_version = 1, df_kind = RequestKind, df_payload_protocol = protocol,
       df_payload = payload, df_request_id = 0, df_payload_encoding = NoEncoding \<rparr>),
     fc_with_request_id = (\<lambda>i f. f\<lparr>df_request_id := i\<rparr>),
     fc_response_to = (\<lambda>f payload. f\<lparr>df_kind := ResponseKind, df_payload := payload\<rparr>),
     fc_encode = demo_encode, fc_decode = demo_decode \<rparr>"

theorem large_message_is_refused_witness:
  "\<exists>bytes. encode_prost_message demo_big_codec () = Inr bytes \<and>
     decode_wire_message demo_big_codec demo_broker bytes = (bytes, Inl (MessageTooLarge 16777220))"
  using large_message_is_refused [of demo_big_codec "()" demo_big demo_broker "[]"]
  by (simp add: demo_big_codec_def length_demo_big MAX_MESSAGE_SIZE_def)

lemma demo_encodes:
  assumes "demo_encode f = Inr bytes"
  obtains body where "bytes = CHR 0x01 # put_u32_le (length body) @ body" "3 \<le> length body" "length body < 2 ^ 32"
    "f = demo_frame (body ! 0) (body ! 1) (drop 3 body)"
  using assms by (fastforce simp: demo_encode_def Let_def split: if_splits)

lemma demo_broker_laws: "frame_laws demo_broker"
proof -
  have "(\<exists>body. bytes = CHR 0x01 # put_u32_le (length body) @ body \<and> 3 \<le> length body) \<and>
      (\<forall>left. demo_decode (bytes @ left) = Inr (DecodedFrame f (length bytes))) \<and>
      (\<forall>p. strict_prefix p bytes \<longrightarrow> demo_decode p = Inr NeedMoreBytes)" if "demo_encode f = Inr bytes" for f bytes
    using that
  proof (rule demo_encodes)
    fix body
    assume b: "bytes = CHR 0x01 # put_u32_le (length body) @ body" "3 \<le> length body" "length body < 2 ^ 32"
      "f = demo_frame (body ! 0) (body ! 1) (drop 3 body)"
    have "demo_decode (bytes @ left) = Inr (DecodedFrame f (length bytes))" for left
      using b(2,3) by (simp add: demo_decode_def b(1,4) Let_def)
    moreover have "demo_decode p = Inr NeedMoreBytes" if "strict_prefix p bytes" for p
    proof (cases "length p < 5")
      case False
      from strict_prefix_take [OF that] have p: "p = take (length p) bytes" "length p < 5 + length body" by (simp_all add: b(1))
      have "take 4 (drop 1 p) = put_u32_le (length body)"
        using False by (subst p(1)) (cases p, simp_all add: b(1))
      with p(2) b(3) show ?thesis by (simp add: demo_decode_def Let_def)
    qed (simp add: demo_decode_def)
    ultimately show ?thesis using b(1,2) by blast
  qed
  then show ?thesis by (auto simp: frame_laws_def demo_broker_def built_frame_def)
qed


definition demo_frames :: "string list" where
  "demo_frames = [put_u32_le 6 @ put_u32_le PROST_PROTOCOL_VERSION @ ''hi'', CHR 0x01 # put_u32_le 5 @ [CHR ''q'', CHR 0x07, CHR ''z''] @ ''yo'']"

lemma demo_numbers: "Suc (Suc (Suc (Suc (Suc 0)))) = 5" "char_of (7 :: nat) = CHR 0x07"
  by (simp, code_simp)

lemma demo_wire:
  "wire_bytes demo_bodies demo_broker False (ProstV16 ''hi'') = Inr (demo_frames ! 0)"
  "wire_bytes demo_bodies demo_broker False (FrameV1 ''yo'' 7) = Inr (demo_frames ! 1)"
  by (simp_all add: demo_bodies_def demo_frames_def encode_prost_message_def encode_frame_v1_request_def encode_framed_bytes_def
      demo_broker_def demo_encode_def demo_frame_def Let_def demo_numbers)

theorem stream_roundtrip_witness:
  "receives demo_bodies demo_broker [Inr (take 3 (concat demo_frames)), Inr (drop 3 (concat demo_frames) @ take 2 (demo_frames ! 0))] []
     [ProstV16 ''hi'', FrameV1 ''yo'' 7] (Inl ConnectionClosed)"
proof -
  let ?reader = "[Inr (take 3 (concat demo_frames)), Inr (drop 3 (concat demo_frames) @ take 2 (demo_frames ! 0))] :: reader"
  let ?p = "take 2 (demo_frames ! 0)"
  have f: "demo_frames = [demo_frames ! 0, demo_frames ! 1]" by (simp add: demo_frames_def)
  have len: "length (demo_frames ! 0) = 10" "length (demo_frames ! 1) = 10" by (simp_all add: demo_frames_def)
  have p: "?p \<noteq> []" "strict_prefix ?p (demo_frames ! 0)"
    using len(1) by (auto simp: strict_prefix_def take_is_prefix dest: arg_cong [of _ _ length])
  have b: "body_laws demo_bodies" by (simp add: body_laws_def demo_bodies_def)
  have "list_all2 (\<lambda>msg bytes. wire_bytes demo_bodies demo_broker False msg = Inr bytes \<and> fits msg bytes)
      [ProstV16 ''hi'', FrameV1 ''yo'' 7] demo_frames"
    by (subst f) (simp add: demo_wire [unfolded One_nat_def] fits_def len [unfolded One_nat_def] MAX_MESSAGE_SIZE_def del: wire_bytes.simps)
  moreover have "fits (ProstV16 ''hi'') (demo_frames ! 0)" by (simp add: fits_def len MAX_MESSAGE_SIZE_def)
  moreover have "healthy ?reader" using len by (subst f) (auto simp: healthy_def)
  moreover have "stream_text ?reader = concat demo_frames @ ?p" by (simp add: stream_text_def)
  ultimately have "receives demo_bodies demo_broker ?reader [] [ProstV16 ''hi'', FrameV1 ''yo'' 7] (if ?p = [] then Inr () else Inl ConnectionClosed)"
    by (intro stream_roundtrip [OF b demo_broker_laws _ demo_wire(1) _ p(2)])
  with p(1) show ?thesis by simp
qed


end
