(* ===== verification/DepfileRoot.thy ===== *)
theory DepfileRoot
  imports LinkParse
begin

text \<open>
  Dependency files that are shared between checkouts
  (\<^verbatim>\<open>crates/zccache-daemon-core/src/daemon/server/depfile_root.rs\<close>, with the quoting of
  \<^verbatim>\<open>persist/staged_paths.rs\<close> and the store step of \<^verbatim>\<open>handle_compile/miss_store.rs\<close>): the root of the checkout
  is stored as a marker, every hit replaces the marker by the root of the request, and a file that names the
  root in a spelling the rewriting does not know is bound to its checkout.  Bytes are characters, and the
  host is a Unix.
\<close>

subsection \<open>Spelling\<close>

definition DEPFILE_WORKTREE_ROOT_MARKER :: string where
  "DEPFILE_WORKTREE_ROOT_MARKER = ''/__zccache_worktree_root_3f0c1e5a9b7d4c26a8e1f4b2d6c9a071__''"

definition DEPFILE_ROOT_BOUND_PREFIX :: string where
  "DEPFILE_ROOT_BOUND_PREFIX = ''# zccache-worktree-bound ''"

definition trim_end_separators :: "string \<Rightarrow> string" where
  "trim_end_separators s = rev (dropWhile (\<lambda>c. c = CHR ''/'' \<or> c = backslash) (rev s))"

definition root_spelling :: "string \<Rightarrow> string option" where
  "root_spelling root =
     (let text = trim_end_separators root
      in if is_absolute root \<and> text \<noteq> [] \<and> last text \<noteq> CHR '':'' then Some text else None)"

text \<open>\<open>slashes\<close> counts the backslashes just written.\<close>

fun quote_bytes :: "nat \<Rightarrow> string \<Rightarrow> string" where
  "quote_bytes slashes [] = []"
| "quote_bytes slashes (c # cs) =
     (if c = backslash then c # quote_bytes (Suc slashes) cs
      else if c = CHR '' '' \<or> c = tab then replicate (Suc slashes) backslash @ c # quote_bytes 0 cs
      else if c = CHR ''#'' then [backslash, CHR ''#''] @ quote_bytes 0 cs
      else if c = CHR ''$'' then ''$$'' @ quote_bytes 0 cs
      else c # quote_bytes 0 cs)"

definition quote_make_depfile_path :: "string \<Rightarrow> string" where
  "quote_make_depfile_path path = quote_bytes 0 path"

definition unescaped_whitespace_before :: "string \<Rightarrow> nat \<Rightarrow> bool" where
  "unescaped_whitespace_before bytes i =
     (if i = 0 \<or> length bytes \<le> i - 1 then True
      else (let byte = bytes ! (i - 1)
            in if byte = newline \<or> byte = carriage_return then True
               else if byte = CHR '' '' \<or> byte = tab
               then even (length (takeWhile (\<lambda>c. c = backslash) (rev (take (i - 1) bytes))))
               else False))"

definition root_ends_at :: "string \<Rightarrow> nat \<Rightarrow> bool" where
  "root_ends_at bytes e =
     (if length bytes \<le> e then True
      else if bytes ! e \<in> {CHR '' '', tab, newline, carriage_return, CHR '':''} then True
      else if bytes ! e = backslash
      then Suc e < length bytes \<and> (bytes ! Suc e = newline \<or> bytes ! Suc e = carriage_return)
      else bytes ! e = CHR ''/'')"

subsection \<open>Rewriting\<close>

text \<open>
  The search loops: at every occurrence of the needle from \<open>cursor\<close> on, \<open>replacement start\<close> is written for
  it.  The needles of the code are never empty.
\<close>

function rewrite_from :: "string \<Rightarrow> (nat \<Rightarrow> string) \<Rightarrow> string \<Rightarrow> nat \<Rightarrow> string" where
  "rewrite_from needle replacement bytes cursor =
     (if needle = [] then drop cursor bytes
      else (case find_substring needle (drop cursor bytes) of
              None \<Rightarrow> drop cursor bytes
            | Some offset \<Rightarrow>
                take offset (drop cursor bytes) @ replacement (cursor + offset) @
                rewrite_from needle replacement bytes (cursor + offset + length needle)))"
  by pat_completeness auto

lemma find_substring_Some:
  "find_substring pat s = Some n \<Longrightarrow> n + length pat \<le> length s \<and> take (length pat) (drop n s) = pat"
proof (induction pat s arbitrary: n rule: find_substring.induct)
  case (1 pat)
  then show ?case by (simp split: if_splits)
next
  case (2 pat c s)
  show ?case
  proof (cases "prefix pat (c # s)")
    case True
    then obtain z where "c # s = pat @ z" by (auto elim: prefixE)
    with True "2.prems" show ?thesis by (metis add_0 append_eq_conv_conj drop0 find_substring.simps(2) length_append
          le_add1 option.inject)
  next
    case False
    with "2.prems" obtain m where "find_substring pat s = Some m" "n = Suc m" by auto
    with "2.IH" [OF False] show ?thesis by simp
  qed
qed

termination rewrite_from
proof (relation "measure (\<lambda>(needle, _, bytes, cursor). Suc (length bytes) - cursor)")
  fix needle :: string and replacement :: "nat \<Rightarrow> string" and bytes :: string and cursor offset :: nat
  assume "needle \<noteq> []" and "find_substring needle (drop cursor bytes) = Some offset"
  with find_substring_Some [of needle "drop cursor bytes" offset]
  show "((needle, replacement, bytes, cursor + offset + length needle), needle, replacement, bytes, cursor)
      \<in> measure (\<lambda>(needle, _, bytes, cursor). Suc (length bytes) - cursor)"
    by (cases needle) auto
qed simp

declare rewrite_from.simps [simp del]

definition salt_depfile_arg :: "string \<Rightarrow> string option \<Rightarrow> string" where
  "salt_depfile_arg arg key_root =
     (case Option.bind key_root root_spelling of
        None \<Rightarrow> arg
      | Some root \<Rightarrow>
          rewrite_from root
            (\<lambda>start.
               let e = start + length root; pre = take start arg;
                   starts_token = (pre = [] \<or> last pre = CHR ''='' \<or> last pre = CHR '','' \<or>
                     1 < length pre \<and> hd pre = CHR ''-'' \<and> list_all is_ascii_alphabetic (tl pre));
                   ends_root = (e = length arg \<or> arg ! e \<in> {CHR ''='', CHR '','', CHR ''/''})
               in if starts_token \<and> ends_root then DEPFILE_WORKTREE_ROOT_MARKER else root)
            arg 0)"

definition canonicalize_depfile_root :: "string \<Rightarrow> string \<Rightarrow> string" where
  "canonicalize_depfile_root bytes key_root =
     (case root_spelling key_root of
        None \<Rightarrow> bytes
      | Some root \<Rightarrow>
          (let needle = quote_make_depfile_path root
           in rewrite_from needle
                (\<lambda>start. if unescaped_whitespace_before bytes start \<and> root_ends_at bytes (start + length needle)
                         then DEPFILE_WORKTREE_ROOT_MARKER else needle)
                bytes 0))"

definition contains_depfile_root_marker :: "string \<Rightarrow> bool" where
  "contains_depfile_root_marker bytes \<longleftrightarrow> find_substring DEPFILE_WORKTREE_ROOT_MARKER bytes \<noteq> None"

text \<open>
  \<open>utf8\<close> says whether bytes are UTF-8, and \<open>resolve\<close> is \<open>canonicalize_path\<close> of the dependency file parser in the
  root, with the state of its cache fixed.
\<close>

definition names_unrewritten_root_path :: "(string \<Rightarrow> bool) \<Rightarrow> (string \<Rightarrow> npath) \<Rightarrow> string \<Rightarrow> string \<Rightarrow> bool" where
  "names_unrewritten_root_path utf8 resolve canonical key_root =
     (if \<not> utf8 canonical then True
      else list_ex (\<lambda>token. is_absolute token \<and> \<not> prefix DEPFILE_WORKTREE_ROOT_MARKER token \<and>
                            path_starts_with (resolve token) key_root) (depfile_path_tokens canonical))"

definition bind_depfile_to_root :: "string \<Rightarrow> string \<Rightarrow> string" where
  "bind_depfile_to_root canonical key_root = DEPFILE_ROOT_BOUND_PREFIX @ key_root @ [newline] @ canonical"

definition store_depfile_root :: "(string \<Rightarrow> bool) \<Rightarrow> (string \<Rightarrow> npath) \<Rightarrow> string \<Rightarrow> string \<Rightarrow> string" where
  "store_depfile_root utf8 resolve bytes key_root =
     (let canonical = canonicalize_depfile_root bytes key_root
      in if names_unrewritten_root_path utf8 resolve canonical key_root
         then bind_depfile_to_root canonical key_root else canonical)"

text \<open>The header of a bound file is dropped for its own root and refused for any other.\<close>

definition unbind_depfile :: "string \<Rightarrow> string option \<Rightarrow> string option" where
  "unbind_depfile bytes key_root =
     (case strip_prefix DEPFILE_ROOT_BOUND_PREFIX bytes of
        None \<Rightarrow> Some bytes
      | Some body \<Rightarrow>
          (let named = takeWhile (\<lambda>c. c \<noteq> newline) body
           in if named = body then None
              else if key_root \<noteq> Some named then None
              else Some (drop (Suc (length named)) body)))"

definition rehydrate_depfile_root :: "string \<Rightarrow> string option \<Rightarrow> string option" where
  "rehydrate_depfile_root stored key_root =
     (case unbind_depfile stored key_root of
        None \<Rightarrow> None
      | Some bytes \<Rightarrow>
          if \<not> contains_depfile_root_marker bytes then Some bytes
          else (case Option.bind key_root root_spelling of
                  None \<Rightarrow> None
                | Some root \<Rightarrow>
                    (let quoted = quote_make_depfile_path root
                     in Some (rewrite_from DEPFILE_WORKTREE_ROOT_MARKER (\<lambda>_. quoted) bytes 0))))"

subsection \<open>Replacing every occurrence\<close>

text \<open>Replacement by a fixed text, as a recursion on the bytes.\<close>

function replace_all :: "string \<Rightarrow> string \<Rightarrow> string \<Rightarrow> string" where
  "replace_all pat new [] = []"
| "replace_all pat new (c # s) =
     (if pat \<noteq> [] \<and> prefix pat (c # s) then new @ replace_all pat new (drop (length pat) (c # s))
      else c # replace_all pat new s)"
  by pat_completeness auto
termination
  by (relation "measure (\<lambda>(_, _, s). length s)") auto

declare replace_all.simps [simp del]

definition occurs :: "string \<Rightarrow> string \<Rightarrow> bool" where
  "occurs pat s \<longleftrightarrow> (\<exists>k < length s. prefix pat (drop k s))"

lemma find_substring_None: "pat \<noteq> [] \<Longrightarrow> find_substring pat s = None \<longleftrightarrow> \<not> occurs pat s"
proof (induction pat s rule: find_substring.induct)
  case (2 pat c s)
  have "occurs pat (c # s) \<longleftrightarrow> prefix pat (c # s) \<or> occurs pat s"
    unfolding occurs_def by (auto simp: Ex_less_Suc2)
  with 2 show ?case by auto
qed (simp add: occurs_def)

lemma find_substring_first:
  "pat \<noteq> [] \<Longrightarrow> find_substring pat s = Some n \<Longrightarrow> k < n \<Longrightarrow> \<not> prefix pat (drop k s)"
proof (induction pat s arbitrary: n k rule: find_substring.induct)
  case (2 pat c s)
  then show ?case by (cases k) (auto split: if_splits)
qed (simp split: if_splits)

lemma replace_all_skip:
  "(\<And>k. k < length t \<Longrightarrow> \<not> prefix pat (drop k (t @ x))) \<Longrightarrow>
     replace_all pat new (t @ x) = t @ replace_all pat new x"
proof (induction t)
  case (Cons c t)
  from Cons.prems [of 0] have "\<not> prefix pat (c # t @ x)" by simp
  moreover have "replace_all pat new (t @ x) = t @ replace_all pat new x"
    using Cons.prems [of "Suc k" for k] by (intro Cons.IH) auto
  ultimately show ?case by (simp add: replace_all.simps)
qed simp

lemma replace_all_id: "\<not> occurs pat s \<Longrightarrow> replace_all pat new s = s"
  using replace_all_skip [of s pat "[]"] by (auto simp: occurs_def replace_all.simps)

lemma replace_all_hit: "pat \<noteq> [] \<Longrightarrow> replace_all pat new (pat @ x) = new @ replace_all pat new x"
  by (cases pat) (simp_all add: replace_all.simps)

lemma rewrite_from_constant: "pat \<noteq> [] \<Longrightarrow> rewrite_from pat (\<lambda>_. new) s c = replace_all pat new (drop c s)"
proof (induction pat "\<lambda>_::nat. new" s c rule: rewrite_from.induct)
  case (1 pat s c)
  show ?case
  proof (cases "find_substring pat (drop c s)")
    case None
    with 1(2) have "\<not> occurs pat (drop c s)" by (simp add: find_substring_None)
    with None 1(2) show ?thesis by (simp add: rewrite_from.simps [of pat] replace_all_id)
  next
    case (Some n)
    let ?t = "take n (drop c s)" and ?x = "drop (c + n + length pat) s"
    from find_substring_Some [OF Some] have n: "n + length pat \<le> length (drop c s)"
      and "take (length pat) (drop n (drop c s)) = pat" by simp_all
    then have split: "drop c s = ?t @ pat @ ?x"
      by (metis add.assoc add.commute append_take_drop_id drop_drop)
    have "replace_all pat new (drop c s) = ?t @ new @ replace_all pat new ?x"
      using find_substring_first [OF 1(2) Some] n
      by (subst split, subst replace_all_skip) (auto simp: replace_all_hit [OF 1(2)] split [symmetric])
    with 1 Some show ?thesis by (simp add: rewrite_from.simps [of pat])
  qed
qed

text \<open>
  A marker without white space that is inserted after white space, or at the start, is found where it was
  inserted.
\<close>

lemma replace_all_inserted:
  assumes "pat \<noteq> []" and "\<not> occurs pat u" and "u \<noteq> [] \<Longrightarrow> last u \<notin> set pat"
  shows "replace_all pat new (u @ pat @ y) = u @ new @ replace_all pat new y"
proof -
  have "\<not> prefix pat (drop k (u @ pat @ y))" if "k < length u" for k
  proof
    assume p: "prefix pat (drop k (u @ pat @ y))"
    then have p': "prefix pat (drop k u @ pat @ y)" using that by simp
    show False
    proof (cases "length pat \<le> length (drop k u)")
      case True
      with p' have "prefix pat (drop k u)" by (metis prefix_length_prefix prefixI)
      with that assms(2) show False by (auto simp: occurs_def)
    next
      case False
      with p' have "prefix (drop k u) pat" by (metis linear prefixI prefix_length_prefix)
      moreover have "last u \<in> set (drop k u)" using that by (metis drop_eq_Nil last_drop last_in_set not_less)
      ultimately have "last u \<in> set pat" using set_mono_prefix by blast
      with assms(3) that show False by (metis list.size(3) not_less_zero)
    qed
  qed
  then show ?thesis using replace_all_skip [of u pat "pat @ y" new] replace_all_hit [OF assms(1)] by simp
qed

subsection \<open>Storing and replaying\<close>

text \<open>
  What a request should see: the dependency file with each quoted root between boundaries replaced by the
  quoted root of the request.
\<close>

definition whole_root_at :: "string \<Rightarrow> string \<Rightarrow> nat \<Rightarrow> bool" where
  "whole_root_at bytes needle start \<longleftrightarrow>
     unescaped_whitespace_before bytes start \<and> root_ends_at bytes (start + length needle)"

definition retarget :: "string \<Rightarrow> string \<Rightarrow> string \<Rightarrow> nat \<Rightarrow> string" where
  "retarget needle new bytes =
     rewrite_from needle (\<lambda>start. if whole_root_at bytes needle start then new else needle) bytes"

lemma retarget_step:
  assumes "needle \<noteq> []"
  shows "retarget needle new bytes c =
     (case find_substring needle (drop c bytes) of
        None \<Rightarrow> drop c bytes
      | Some n \<Rightarrow> take n (drop c bytes) @ (if whole_root_at bytes needle (c + n) then new else needle) @
                  retarget needle new bytes (c + n + length needle))"
  using assms by (simp add: retarget_def rewrite_from.simps [of needle _ bytes c] split: option.split)

lemma whole_root_boundary:
  assumes "whole_root_at bytes needle start" and "a < start" and "start \<le> length bytes"
  shows "last (drop a (take start bytes)) \<in> {newline, carriage_return, CHR '' '', tab}"
proof -
  have "last (drop a (take start bytes)) = bytes ! (start - 1)"
    using assms(2,3) by (simp add: last_conv_nth)
  with assms show ?thesis
    by (auto simp: whole_root_at_def unescaped_whitespace_before_def Let_def split: if_splits)
qed

lemma occurs_part: "occurs pat (drop a (take b s)) \<Longrightarrow> pat \<noteq> [] \<Longrightarrow> occurs pat s"
proof -
  assume "occurs pat (drop a (take b s))" and "pat \<noteq> []"
  then obtain k where k: "k < length (drop a (take b s))" "prefix pat (drop (k + a) (take b s))"
    by (auto simp: occurs_def)
  then have "prefix pat (drop (k + a) s)"
    by (metis drop_take prefix_order.trans take_is_prefix)
  with k(1) show ?thesis unfolding occurs_def by (intro exI [of _ "k + a"]) auto
qed

text \<open>
  The text from \<open>a\<close> to the cursor followed by the rewritten rest: replacing the markers there is the same as
  writing the new root in the first place.
\<close>

lemma replace_markers:
  assumes "needle \<noteq> []" and "pat \<noteq> []" and "\<not> occurs pat bytes"
    and "set pat \<inter> {newline, carriage_return, CHR '' '', tab} = {}" and "a \<le> c"
  shows "replace_all pat new (drop a (take c bytes) @ retarget needle pat bytes c) =
      drop a (take c bytes) @ retarget needle new bytes c"
  using assms(5)
proof (induction "Suc (length bytes) - c" arbitrary: a c rule: less_induct)
  case less
  show ?case
  proof (cases "find_substring needle (drop c bytes)")
    case None
    have "drop a (take c bytes) @ drop c bytes = drop a bytes"
      using less.prems by (metis append_take_drop_id drop_append drop_take min.absorb2 drop_drop le_add_diff_inverse2)
    moreover have "\<not> occurs pat (drop a bytes)" using occurs_part [of pat a "length bytes" bytes] assms by auto
    ultimately show ?thesis using None assms(1) by (simp add: retarget_step replace_all_id)
  next
    case (Some n)
    from find_substring_Some [OF Some] have n: "n + length needle \<le> length bytes - c"
      and at: "take (length needle) (drop (c + n) bytes) = needle" by (simp_all add: add.commute)
    let ?start = "c + n" and ?stop = "c + n + length needle"
    from assms(1) n have smaller: "Suc (length bytes) - ?stop < Suc (length bytes) - c" by (cases needle) auto
    from assms(1) n have c: "c + n \<le> length bytes" by (cases needle) auto
    have upto: "drop a (take c bytes) @ take n (drop c bytes) = drop a (take ?start bytes)"
      using less.prems c by (simp add: take_add)
    have needle: "drop a (take ?start bytes) @ needle = drop a (take ?stop bytes)"
      using less.prems c at by (simp add: take_add [of "c + n"])
    show ?thesis
    proof (cases "whole_root_at bytes needle ?start")
      case False
      have "drop a (take c bytes) @ retarget needle r bytes c =
          drop a (take ?stop bytes) @ retarget needle r bytes ?stop" for r
        using False Some assms(1) by (simp add: retarget_step [of needle r bytes c] upto [symmetric] needle [symmetric])
      with less.hyps [OF smaller, of a] less.prems show ?thesis by simp
    next
      case True
      have split: "drop a (take c bytes) @ retarget needle r bytes c =
          drop a (take ?start bytes) @ r @ retarget needle r bytes ?stop" for r
        using True Some assms(1) by (simp add: retarget_step [of needle r bytes c] upto [symmetric])
      have boundary: "last (drop a (take ?start bytes)) \<notin> set pat" if "drop a (take ?start bytes) \<noteq> []"
      proof -
        from that c have "a < ?start" by simp
        with whole_root_boundary [OF True this c] assms(4) show ?thesis by blast
      qed
      have absent: "\<not> occurs pat (drop a (take ?start bytes))" using occurs_part assms by blast
      have "replace_all pat new (retarget needle pat bytes ?stop) = retarget needle new bytes ?stop"
        using less.hyps [OF smaller, of ?stop] by simp
      moreover have "replace_all pat new (drop a (take ?start bytes) @ pat @ y) =
          drop a (take ?start bytes) @ new @ replace_all pat new y" for y
        using assms(2) absent boundary by (rule replace_all_inserted)
      ultimately show ?thesis by (simp only: split)
    qed
  qed
qed

lemma retarget_same: "needle \<noteq> [] \<Longrightarrow> retarget needle needle bytes c = drop c bytes"
proof (induction "Suc (length bytes) - c" arbitrary: c rule: less_induct)
  case less
  show ?case
  proof (cases "find_substring needle (drop c bytes)")
    case None
    with less.prems show ?thesis by (simp add: retarget_step)
  next
    case (Some n)
    let ?d = "drop c bytes" and ?e = "c + n + length needle"
    from find_substring_Some [OF Some] have n: "n + length needle \<le> length bytes - c"
      and at: "take (length needle) (drop n ?d) = needle" by simp_all
    from less.prems n have "Suc (length bytes) - ?e < Suc (length bytes) - c" by (cases needle) auto
    from less.hyps [OF this less.prems] have "retarget needle needle bytes ?e = drop ?e bytes" .
    also have "drop ?e bytes = drop (length needle) (drop n ?d)" by (simp add: ac_simps)
    finally have "retarget needle needle bytes c = take n ?d @ needle @ drop (length needle) (drop n ?d)"
      using retarget_step [OF less.prems, of needle bytes c] Some by (simp only: option.case if_cancel)
    also have "needle @ drop (length needle) (drop n ?d) = drop n ?d"
      using append_take_drop_id [of "length needle" "drop n ?d"] unfolding at .
    finally show ?thesis by (simp only: append_take_drop_id)
  qed
qed

lemma retarget_hd:
  assumes "needle \<noteq> []" and "new \<noteq> []" and "retarget needle new bytes 0 \<noteq> []"
  shows "hd (retarget needle new bytes 0) = hd new \<or> bytes \<noteq> [] \<and> hd (retarget needle new bytes 0) = hd bytes"
proof (cases "find_substring needle bytes")
  case None
  with assms show ?thesis by (simp add: retarget_step)
next
  case (Some n)
  from find_substring_Some [OF Some] have n: "n + length needle \<le> length bytes"
    and at: "take (length needle) (drop n bytes) = needle" by simp_all
  from n assms(1) have "bytes \<noteq> []" by (cases needle) auto
  show ?thesis
  proof (cases n)
    case 0
    with at assms(1) have "hd bytes = hd needle" by (metis drop0 hd_take length_greater_0_conv)
    with Some 0 assms \<open>bytes \<noteq> []\<close> show ?thesis by (simp add: retarget_step)
  next
    case (Suc m)
    with Some \<open>bytes \<noteq> []\<close> assms(1) show ?thesis by (cases bytes) (simp_all add: retarget_step)
  qed
qed

lemma marker_plain:
  "set DEPFILE_WORKTREE_ROOT_MARKER \<inter> {newline, carriage_return, CHR '' '', tab} = {}"
  "DEPFILE_WORKTREE_ROOT_MARKER \<noteq> []" "hd DEPFILE_WORKTREE_ROOT_MARKER = CHR ''/''"
  by (simp_all add: DEPFILE_WORKTREE_ROOT_MARKER_def)

lemma quote_nonempty: "root_spelling root = Some r \<Longrightarrow> quote_make_depfile_path r \<noteq> []"
  by (cases r) (auto simp: root_spelling_def quote_make_depfile_path_def Let_def split: if_splits)

lemma canonicalize_retarget:
  "root_spelling root = Some r \<Longrightarrow>
     canonicalize_depfile_root bytes root = retarget (quote_make_depfile_path r) DEPFILE_WORKTREE_ROOT_MARKER bytes 0"
  by (simp add: canonicalize_depfile_root_def retarget_def whole_root_at_def Let_def)

text \<open>A file that contains no marker of its own, is not a comment at its start, and names its root in one line.\<close>

definition storable :: "string \<Rightarrow> string \<Rightarrow> bool" where
  "storable bytes root \<longleftrightarrow> \<not> contains_depfile_root_marker bytes \<and> (bytes = [] \<or> hd bytes \<noteq> CHR ''#'') \<and>
     newline \<notin> set root"

definition expected_depfile :: "string \<Rightarrow> string \<Rightarrow> string \<Rightarrow> string" where
  "expected_depfile bytes root requested =
     (case root_spelling root of
        None \<Rightarrow> bytes
      | Some r \<Rightarrow> retarget (quote_make_depfile_path r) (quote_make_depfile_path requested) bytes 0)"

lemma marker_absent: "storable bytes root \<Longrightarrow> \<not> occurs DEPFILE_WORKTREE_ROOT_MARKER bytes"
  by (simp add: storable_def contains_depfile_root_marker_def find_substring_None marker_plain)

lemma replace_canonical:
  assumes "storable bytes root"
  shows "replace_all DEPFILE_WORKTREE_ROOT_MARKER (quote_make_depfile_path r') (canonicalize_depfile_root bytes root) =
      expected_depfile bytes root r'"
proof (cases "root_spelling root")
  case None
  then show ?thesis
    using replace_all_id [OF marker_absent [OF assms]]
    by (simp add: canonicalize_depfile_root_def expected_depfile_def)
next
  case (Some r)
  from replace_markers [OF quote_nonempty [OF Some] marker_plain(2) marker_absent [OF assms] marker_plain(1), of 0 0]
  show ?thesis using Some by (simp add: canonicalize_retarget expected_depfile_def)
qed

lemma expected_own: "root_spelling root = Some r \<Longrightarrow> expected_depfile bytes root r = bytes"
  by (simp add: expected_depfile_def retarget_same quote_nonempty)

lemma canonical_not_bound:
  assumes "storable bytes root"
  shows "strip_prefix DEPFILE_ROOT_BOUND_PREFIX (canonicalize_depfile_root bytes root) = None"
proof -
  let ?c = "canonicalize_depfile_root bytes root"
  have "?c = [] \<or> hd ?c \<noteq> CHR ''#''"
  proof (cases "root_spelling root")
    case None
    with assms show ?thesis by (auto simp: canonicalize_depfile_root_def storable_def)
  next
    case (Some r)
    with retarget_hd [OF quote_nonempty [OF Some] marker_plain(2), of bytes] assms show ?thesis
      by (auto simp: canonicalize_retarget storable_def marker_plain)
  qed
  then show ?thesis by (cases ?c) (auto simp: strip_prefix_def DEPFILE_ROOT_BOUND_PREFIX_def)
qed

lemma rehydrate_canonical:
  assumes "storable bytes root" and "unbind_depfile stored key_root = Some (canonicalize_depfile_root bytes root)"
    and "Option.bind key_root root_spelling = Some r"
  shows "rehydrate_depfile_root stored key_root = Some (expected_depfile bytes root r)"
proof -
  let ?c = "canonicalize_depfile_root bytes root"
  have "replace_all DEPFILE_WORKTREE_ROOT_MARKER q ?c = ?c" if "\<not> contains_depfile_root_marker ?c" for q
    using that by (intro replace_all_id) (simp add: contains_depfile_root_marker_def find_substring_None marker_plain)
  from this [of "quote_make_depfile_path r"] replace_canonical [OF assms(1), of r] assms(2,3) show ?thesis
    by (auto simp: rehydrate_depfile_root_def Let_def rewrite_from_constant marker_plain)
qed

lemma unbind_bound: "newline \<notin> set root \<Longrightarrow>
    unbind_depfile (bind_depfile_to_root canonical root) key_root = (if key_root = Some root then Some canonical else None)"
proof -
  assume n: "newline \<notin> set root"
  have p: "strip_prefix DEPFILE_ROOT_BOUND_PREFIX (bind_depfile_to_root canonical root) =
      Some (root @ newline # canonical)"
    by (simp add: bind_depfile_to_root_def strip_prefix_def)
  have "takeWhile (\<lambda>c. c \<noteq> newline) (root @ newline # canonical) = root"
    using n by (induction root) auto
  with p show ?thesis by (auto simp: unbind_depfile_def Let_def)
qed

text \<open>
  C24. A stored dependency file comes back: replayed in the checkout that stored it, it is byte for byte what the
  compiler wrote; replayed in another checkout, it has that checkout's root wherever the compiler wrote the
  whole root, or it is refused when the file was bound because it names the root in another spelling.
\<close>

theorem depfile_root_roundtrip:
  assumes "storable bytes root" and "root_spelling root = Some r" and "root_spelling root' = Some r'"
  shows "rehydrate_depfile_root (store_depfile_root utf8 resolve bytes root) (Some root) = Some bytes \<and>
    (root' = root \<or>
       rehydrate_depfile_root (store_depfile_root utf8 resolve bytes root) (Some root') =
         (if names_unrewritten_root_path utf8 resolve (canonicalize_depfile_root bytes root) root then None
          else Some (expected_depfile bytes root r')))"
proof -
  let ?c = "canonicalize_depfile_root bytes root" and ?s = "store_depfile_root utf8 resolve bytes root"
  have n: "newline \<notin> set root" using assms(1) by (simp add: storable_def)
  have plain: "unbind_depfile ?c k = Some ?c" for k
    by (simp add: unbind_depfile_def canonical_not_bound [OF assms(1)])
  have own: "unbind_depfile ?s (Some root) = Some ?c"
    by (simp add: store_depfile_root_def Let_def plain unbind_bound [OF n])
  have "rehydrate_depfile_root ?s (Some root) = Some bytes"
    using rehydrate_canonical [OF assms(1) own] assms(2) by (simp add: expected_own)
  moreover have "rehydrate_depfile_root ?s (Some root') =
      (if names_unrewritten_root_path utf8 resolve ?c root then None else Some (expected_depfile bytes root r'))"
    if "root' \<noteq> root"
    using that rehydrate_canonical [OF assms(1) plain, of "Some root'" r'] assms(3)
    by (simp add: store_depfile_root_def Let_def rehydrate_depfile_root_def unbind_bound [OF n])
  ultimately show ?thesis by blast
qed

definition demo_depfile :: "string \<Rightarrow> string" where
  "demo_depfile root = ''a.o: '' @ root @ ''/a.c '' @ root @ ''b/c.h'' @ [newline]"

lemma demo_depfile_replayed:
  "expected_depfile (demo_depfile ''/w'') ''/w'' ''/v'' = ''a.o: /v/a.c /wb/c.h'' @ [newline]"
  "names_unrewritten_root_path (\<lambda>_. True) (\<lambda>p. p) (canonicalize_depfile_root (demo_depfile ''/w'') ''/w'') ''/w'' = False"
  by code_simp+

theorem depfile_root_roundtrip_witness:
  "rehydrate_depfile_root (store_depfile_root (\<lambda>_. True) (\<lambda>p. p) (demo_depfile ''/w'') ''/w'') (Some ''/w'') =
     Some (demo_depfile ''/w'') \<and>
   rehydrate_depfile_root (store_depfile_root (\<lambda>_. True) (\<lambda>p. p) (demo_depfile ''/w'') ''/w'') (Some ''/v'') =
     Some (''a.o: /v/a.c /wb/c.h'' @ [newline])"
proof -
  have "storable (demo_depfile ''/w'') ''/w''" "root_spelling ''/w'' = Some ''/w''" "root_spelling ''/v'' = Some ''/v''"
    by code_simp+
  from depfile_root_roundtrip [OF this, of "\<lambda>_. True" "\<lambda>p. p"] show ?thesis
    by (simp add: demo_depfile_replayed)
qed

end
