(* ===== verification/CompileArgs.thy ===== *)
theory CompileArgs
  imports RequestKeys DepfileRoot
begin

text \<open>
  How a GNU-style compile command is read: the classifier that decides whether it is cacheable and names
  its sources and outputs (\<^verbatim>\<open>crates/zccache-compiler/src/parse.rs\<close>, \<^verbatim>\<open>side_outputs.rs\<close>), the argument
  parser of the dependency graph (\<^verbatim>\<open>crates/zccache-depgraph/src/args.rs\<close>) and the context the daemon builds
  from it (\<^verbatim>\<open>rustc.rs\<close>, \<^verbatim>\<open>dependency_policy.rs\<close>, \<^verbatim>\<open>depfile_root.rs\<close> and \<^verbatim>\<open>pch_gate.rs\<close> under
  \<^verbatim>\<open>daemon/server\<close>).  The parsers of MSVC and rustc commands are arguments where the code dispatches to them.
\<close>

subsection \<open>Side outputs\<close>

text \<open>\<open>msvc_side_output\<close> and \<open>gnu_side_output\<close> are the two arms of the test of one argument.\<close>

definition msvc_side_output :: "string \<Rightarrow> bool" where
  "msvc_side_output arg \<longleftrightarrow>
     (let low = map ascii_lower arg;
          body = (case strip_prefix ''/'' arg of Some b \<Rightarrow> b
                  | None \<Rightarrow> (case strip_prefix ''-'' arg of Some b \<Rightarrow> b | None \<Rightarrow> arg));
          lower_body = map ascii_lower body
      in list_ex (\<lambda>p. prefix p body) [''Fd'', ''Fp'', ''Fr'', ''FR'', ''Fi'', ''Fa''] \<or>
         lower_body \<in> set [''fa'', ''fac'', ''fas'', ''facs''] \<or>
         list_ex (\<lambda>p. prefix p lower_body) [''yc'', ''doc'', ''module:'', ''headerunit'', ''sourcedependencies''] \<or>
         low \<in> set [''/zi'', ''-zi''] \<or> prefix ''/ifc'' low \<or> prefix ''-ifc'' low \<or>
         low \<in> set [''/interface'', ''-interface''])"

definition gnu_side_output :: "string \<Rightarrow> bool" where
  "gnu_side_output arg \<longleftrightarrow>
     (let low = map ascii_lower arg
      in prefix ''--serialize-diagnostics'' low \<or> prefix ''-dependency-file'' low \<or> prefix ''-mj'' low \<or>
         prefix ''-fmodule'' low \<and> low \<noteq> ''-fmodules-ts'' \<or>
         low = ''-save-temps'' \<or> prefix ''-save-temps='' low \<or> prefix ''-gsplit-dwarf'' low \<or>
         prefix ''-fdump-'' low \<or>
         low \<in> set [''--coverage'', ''-coverage'', ''-fprofile-arcs'', ''-ftest-coverage''] \<or>
         low = ''-ftime-trace'' \<or> prefix ''-ftime-trace='' low \<or> low = ''-fstack-usage'' \<or>
         prefix ''-fcallgraph-info'' low \<or> low = ''-fsave-optimization-record'' \<or>
         prefix ''-foptimization-record-file'' low \<or> prefix ''-fopt-info'' low \<or>
         prefix ''-fdiagnostics-file='' low \<or> prefix ''-fdiagnostics-format=sarif-file'' low \<or>
         prefix ''-wa,'' low \<and> CHR ''='' \<in> set low)"

definition unmodeled_side_output_flag :: "string list \<Rightarrow> bool \<Rightarrow> string option" where
  "unmodeled_side_output_flag args msvc_syntax =
     find (\<lambda>arg. if msvc_syntax then msvc_side_output arg else gnu_side_output arg) args"

subsection \<open>Sources and outputs\<close>

definition SOURCE_EXTENSIONS :: "string list" where
  "SOURCE_EXTENSIONS =
     [''c'', ''cc'', ''cpp'', ''cxx'', ''c++'', ''C'', ''m'', ''mm'', ''i'', ''ii'', ''cppm'', ''ixx'', ''s'', ''S'']"

definition MODULE_EXTENSIONS :: "string list" where
  "MODULE_EXTENSIONS = [''cppm'', ''ixx'']"

definition is_source_file :: "string \<Rightarrow> bool" where
  "is_source_file path = (case path_extension path of Some ext \<Rightarrow> ext \<in> set SOURCE_EXTENSIONS | None \<Rightarrow> False)"

definition source_mode_from_language :: "string \<Rightarrow> source_mode option" where
  "source_mode_from_language lang =
     (if lang = ''c-header'' \<or> lang = ''c++-header'' then Some HeaderMode
      else if lang = ''c-header-unit'' \<or> lang = ''c++-header-unit'' then Some HeaderUnitMode
      else if lang = ''c++-module'' then Some ModuleMode
      else None)"

definition source_mode_from_extension :: "string \<Rightarrow> source_mode" where
  "source_mode_from_extension path =
     (case path_extension path of
        Some ext \<Rightarrow> if ext \<in> set MODULE_EXTENSIONS then ModuleMode else NormalMode
      | None \<Rightarrow> NormalMode)"

definition implies_compilation :: "source_mode \<Rightarrow> bool" where
  "implies_compilation mode \<longleftrightarrow> mode = HeaderMode \<or> mode = HeaderUnitMode"

definition pch_extension :: "compiler_family \<Rightarrow> string option" where
  "pch_extension family = (case family of Gcc \<Rightarrow> Some ''gch'' | Clang \<Rightarrow> Some ''pch'' | _ \<Rightarrow> None)"

definition default_output :: "string \<Rightarrow> compiler_family \<Rightarrow> source_mode \<Rightarrow> bool \<Rightarrow> string" where
  "default_output source family mode has_precompile =
     (let filename = (case file_name source of Some f \<Rightarrow> f | None \<Rightarrow> source);
          stem = (case file_stem source of Some s \<Rightarrow> s | None \<Rightarrow> ''a'');
          object = stem @ ''.o''
      in case mode of
           HeaderMode \<Rightarrow> (case pch_extension family of Some ext \<Rightarrow> filename @ ''.'' @ ext | None \<Rightarrow> object)
         | HeaderUnitMode \<Rightarrow> filename @ ''.pcm''
         | _ \<Rightarrow> if has_precompile then stem @ ''.pcm'' else object)"

subsection \<open>Classification\<close>

record cacheable_compilation =
  cm_compiler :: npath
  cm_family :: compiler_family
  cm_source_file :: npath
  cm_output_file :: npath
  cm_original_args :: "string list"
  cm_unknown_flags :: "string list"

datatype parsed_invocation =
    Cacheable cacheable_compilation
  | MultiFile "cacheable_compilation list" "string list" "nat list"
  | NonCacheable string

record classifier =
  cl_has_c :: bool
  cl_has_precompile :: bool
  cl_sources :: "(string \<times> nat \<times> source_mode) list"
  cl_output :: "string option"
  cl_mode :: source_mode
  cl_unknown :: "string list"
  cl_positional :: bool

definition classifier_start :: classifier where
  "classifier_start =
     \<lparr> cl_has_c = False, cl_has_precompile = False, cl_sources = [], cl_output = None, cl_mode = NormalMode,
       cl_unknown = [], cl_positional = False \<rparr>"

definition positional_arg :: "string \<Rightarrow> nat \<Rightarrow> classifier \<Rightarrow> classifier" where
  "positional_arg arg i st =
     (let effective_mode = (if cl_mode st \<noteq> NormalMode then cl_mode st else source_mode_from_extension arg)
      in if is_source_file arg \<or> cl_mode st \<noteq> NormalMode
         then st\<lparr>cl_sources := cl_sources st @ [(arg, i, effective_mode)]\<rparr> else st)"

text \<open>One turn of the loop at index \<open>i\<close>: a refusal, or the new state and the number of arguments read.\<close>

definition classify_arg :: "string \<Rightarrow> string option \<Rightarrow> nat \<Rightarrow> classifier \<Rightarrow> string + classifier \<times> nat" where
  "classify_arg arg nxt i st =
     (if arg = ''--'' \<and> \<not> cl_positional st then Inr (st\<lparr>cl_positional := True\<rparr>, 1)
      else if cl_positional st then Inr (positional_arg arg i st, 1)
      else if arg \<in> set [''-E'', ''-M'', ''-MM''] then Inl (''preprocessing-only flag: '' @ arg)
      else if arg = ''-'' then Inl ''stdin source not cacheable''
      else if arg = ''-fprofile-use'' then Inl ''implicit -fprofile-use profile input is not cacheable''
      else if arg = ''-c'' then Inr (st\<lparr>cl_has_c := True\<rparr>, 1)
      else if arg = ''--precompile'' then Inr (st\<lparr>cl_has_precompile := True\<rparr>, 1)
      else if arg = ''-o'' then
        (case nxt of Some n \<Rightarrow> Inr (st\<lparr>cl_output := Some n\<rparr>, 2) | None \<Rightarrow> Inr (st, 1))
      else (case strip_prefix ''-o'' arg of
        Some path \<Rightarrow> Inr (st\<lparr>cl_output := Some path\<rparr>, 1)
      | None \<Rightarrow>
          if gnu_flag_takes_value arg then
            Inr (case nxt of
                   Some lang \<Rightarrow> if arg = ''-x''
                     then st\<lparr>cl_mode := (case source_mode_from_language lang of Some m \<Rightarrow> m | None \<Rightarrow> NormalMode)\<rparr>
                     else st
                 | None \<Rightarrow> st, 2)
          else if prefix ''-'' arg then Inr (st\<lparr>cl_unknown := cl_unknown st @ [arg]\<rparr>, 1)
          else Inr (positional_arg arg i st, 1)))"

definition next_arg :: "string list \<Rightarrow> string option" where
  "next_arg rest = (case rest of [] \<Rightarrow> None | n # _ \<Rightarrow> Some n)"

function classify_loop :: "string list \<Rightarrow> nat \<Rightarrow> classifier \<Rightarrow> string + classifier" where
  "classify_loop [] i st = Inr st"
| "classify_loop (arg # rest) i st =
     (case classify_arg arg (next_arg rest) i st of
        Inl reason \<Rightarrow> Inl reason
      | Inr (st', n) \<Rightarrow> classify_loop (drop (n - 1) rest) (i + n) st')"
  by pat_completeness auto
termination
  by (relation "measure (\<lambda>(args, _, _). length args)") auto

declare classify_loop.simps [simp del]

text \<open>
  What follows the loop.  \<open>reject_side_outputs\<close> is false when the layout of a command with side outputs is
  asked for.
\<close>

definition finish_invocation ::
    "string \<Rightarrow> compiler_family \<Rightarrow> string list \<Rightarrow> bool \<Rightarrow> classifier \<Rightarrow> parsed_invocation" where
  "finish_invocation compiler family args reject_side_outputs st =
     (let unit = (\<lambda>src out. \<lparr> cm_compiler = Paths.normalize compiler, cm_family = family,
             cm_source_file = Paths.normalize src, cm_output_file = Paths.normalize out,
             cm_original_args = args, cm_unknown_flags = cl_unknown st \<rparr>);
          side = unmodeled_side_output_flag args False
      in if \<not> cl_has_c st \<and> \<not> cl_has_precompile st \<and> \<not> implies_compilation (cl_mode st)
         then NonCacheable ''no -c flag (likely a link invocation)''
         else if cl_sources st = [] then NonCacheable ''no source file found''
         else if reject_side_outputs \<and> side \<noteq> None
         then NonCacheable (''unmodeled compiler side output requested by '' @ the side)
         else if 1 < length (cl_sources st) then
           (if cl_output st \<noteq> None then NonCacheable ''multi-file explicit output is compiler-owned''
            else (let compilations = map (\<lambda>(src, _, mode).
                        unit src (default_output src family mode (cl_has_precompile st))) (cl_sources st)
                  in if \<not> distinct (map cm_output_file compilations)
                     then NonCacheable ''multi-file output name collision''
                     else MultiFile compilations args (map (fst \<circ> snd) (cl_sources st))))
         else (case hd (cl_sources st) of
                 (src, _, mode) \<Rightarrow>
                   Cacheable (unit src (case cl_output st of
                       Some out \<Rightarrow> out
                     | None \<Rightarrow> default_output src family mode (cl_has_precompile st)))))"

definition looks_like_msvc_args :: "string list \<Rightarrow> bool" where
  "looks_like_msvc_args args =
     list_ex (\<lambda>arg. case arg of
         CHR ''/'' # c # cs \<Rightarrow> is_ascii_alphabetic c \<and> CHR ''/'' \<notin> set (c # cs)
       | _ \<Rightarrow> False) args"

definition parse_gnu_invocation :: "string \<Rightarrow> compiler_family \<Rightarrow> string list \<Rightarrow> bool \<Rightarrow> parsed_invocation" where
  "parse_gnu_invocation compiler family args reject_side_outputs =
     (case classify_loop args 0 classifier_start of
        Inl reason \<Rightarrow> NonCacheable reason
      | Inr st \<Rightarrow> finish_invocation compiler family args reject_side_outputs st)"

definition parse_invocation_with ::
    "(string \<Rightarrow> string list \<Rightarrow> bool \<Rightarrow> parsed_invocation) \<Rightarrow>
     (string \<Rightarrow> string list \<Rightarrow> compiler_family \<Rightarrow> parsed_invocation) \<Rightarrow>
     string \<Rightarrow> string list \<Rightarrow> bool \<Rightarrow> bool \<Rightarrow> parsed_invocation" where
  "parse_invocation_with parse_rustc_invocation_with_policy parse_msvc_invocation
       compiler args reject_side_outputs admits_test_harness =
     (let family = detect_compiler_family compiler
      in if family = Rustfmt
         then NonCacheable ''rustfmt is handled via the format cache path, not compile cache''
         else if family = Rustc then parse_rustc_invocation_with_policy compiler args admits_test_harness
         else if family = MsvcCompiler \<or> looks_like_msvc_args args
         then parse_msvc_invocation compiler args family
         else parse_gnu_invocation compiler family args reject_side_outputs)"

definition side_output_compilations ::
    "(string \<Rightarrow> string list \<Rightarrow> bool \<Rightarrow> parsed_invocation) \<Rightarrow>
     (string \<Rightarrow> string list \<Rightarrow> compiler_family \<Rightarrow> parsed_invocation) \<Rightarrow>
     string \<Rightarrow> string list \<Rightarrow> cacheable_compilation list option" where
  "side_output_compilations rustc_parse msvc_parse compiler args =
     (case unmodeled_side_output_flag args False of
        None \<Rightarrow> None
      | Some _ \<Rightarrow>
          (case parse_invocation_with rustc_parse msvc_parse compiler args False False of
             Cacheable compilation \<Rightarrow> Some [compilation]
           | MultiFile compilations _ _ \<Rightarrow> Some compilations
           | NonCacheable _ \<Rightarrow> None))"


subsection \<open>The arguments of a compile\<close>

text \<open>
  Each turn of \<open>parse_gnu_args\<close> reads one or two arguments and records one thing; \<open>gnu_item\<close> says what.
  \<open>Forwarded\<close> is an argument \<^verbatim>\<open>-Wp,\<close> with its parts, \<open>Profile\<close> a profile flag with its path, \<open>Skipped\<close> leaves
  no trace, and \<open>Candidate\<close> is a positional argument.
\<close>

datatype gnu_item =
    UserDir string | SystemDir string | QuoteDir string | AfterDir string
  | DefineMacro string | UndefineMacro string | OutputFile string
  | PchInclude string | ForceInclude string | MacroInclude string
  | Forwarded string "string list" | Profile string string
  | KeyFlag string | Skipped | Candidate string | UnknownFlag string

definition args_is_source_file :: "string \<Rightarrow> bool" where
  "args_is_source_file path =
     (map ascii_lower (case path_extension path of Some ext \<Rightarrow> ext | None \<Rightarrow> []) \<in>
        set [''c'', ''cc'', ''cpp'', ''cxx'', ''c++'', ''m'', ''mm'', ''s'', ''sx'', ''i'', ''ii''])"

definition profile_flag :: "string \<Rightarrow> string option" where
  "profile_flag arg =
     (case strip_prefix ''-fprofile-use='' arg of Some p \<Rightarrow> Some p | None \<Rightarrow> strip_prefix ''-fprofile-dir='' arg)"

definition has_any_prefix :: "string list \<Rightarrow> string \<Rightarrow> bool" where
  "has_any_prefix ps arg = list_ex (\<lambda>p. prefix p arg) ps"

text \<open>The item at an argument, given the argument after it, and the number of arguments it takes.\<close>

definition gnu_arg_item :: "string \<Rightarrow> string \<Rightarrow> string option \<Rightarrow> gnu_item \<times> nat" where
  "gnu_arg_item cwd arg nxt =
     (if arg = ''-I'' \<and> nxt \<noteq> None then (UserDir (the nxt), 2)
      else if arg \<noteq> ''-I'' \<and> arg \<notin> set [''-isystem'', ''-isysroot''] \<and> prefix ''-I'' arg then (UserDir (drop 2 arg), 1)
      else if arg = ''-isystem'' \<and> nxt \<noteq> None then (SystemDir (the nxt), 2)
      else if arg = ''-iquote'' \<and> nxt \<noteq> None then (QuoteDir (the nxt), 2)
      else if arg = ''-idirafter'' \<and> nxt \<noteq> None then (AfterDir (the nxt), 2)
      else if arg = ''-D'' \<and> nxt \<noteq> None then (DefineMacro (the nxt), 2)
      else if arg \<noteq> ''-D'' \<and> prefix ''-D'' arg then (DefineMacro (drop 2 arg), 1)
      else if arg = ''-U'' \<and> nxt \<noteq> None then (UndefineMacro (the nxt), 2)
      else if arg \<noteq> ''-U'' \<and> prefix ''-U'' arg then (UndefineMacro (drop 2 arg), 1)
      else if arg = ''-o'' \<and> nxt \<noteq> None then (OutputFile (the nxt), 2)
      else if arg \<noteq> ''-o'' \<and> prefix ''-o'' arg then (OutputFile (drop 2 arg), 1)
      else if arg = ''-include-pch'' \<and> nxt \<noteq> None then (PchInclude (the nxt), 2)
      else if arg = ''-include'' \<and> nxt \<noteq> None then (ForceInclude (the nxt), 2)
      else if arg = ''-imacros'' \<and> nxt \<noteq> None then (MacroInclude (the nxt), 2)
      else if prefix ''-Wp,'' arg then (Forwarded arg (split_on CHR '','' (drop 4 arg)), 1)
      else if profile_flag arg \<noteq> None then (Profile arg (the (profile_flag arg)), 1)
      else if prefix ''-std='' arg \<or> prefix ''--std='' arg then (KeyFlag arg, 1)
      else if arg = ''-std'' \<and> nxt \<noteq> None then (KeyFlag (''-std='' @ the nxt), 2)
      else if arg = ''-x'' \<and> nxt \<noteq> None then (KeyFlag (''-x '' @ the nxt), 2)
      else if arg \<noteq> ''-x'' \<and> prefix ''-x'' arg then (KeyFlag arg, 1)
      else if arg \<in> set [''-march'', ''-mtune'', ''-mcpu''] \<and> nxt \<noteq> None then (KeyFlag (arg @ ''='' @ the nxt), 2)
      else if has_any_prefix [''-O'', ''-f'', ''-m'', ''-W'', ''-g'', ''--target=''] arg \<or>
              arg \<in> set [''-pthread'', ''-pipe''] then (KeyFlag arg, 1)
      else if arg = ''-MD'' \<or> arg = ''-MMD'' then (Skipped, 1)
      else if arg = ''-MF'' then (Skipped, 2)
      else if joined_mf arg \<noteq> None then (Skipped, 1)
      else if arg = ''-MQ'' \<or> arg = ''-MT'' then (Skipped, 2)
      else if gnu_flag_takes_value arg \<and> nxt \<noteq> None then (KeyFlag (arg @ ''='' @ the nxt), 2)
      else if arg \<in> set [''-c'', ''-S'', ''-E'', ''-v'', ''-w''] \<or> prefix ''-M'' arg then (Skipped, 1)
      else if \<not> prefix ''-'' arg then (Candidate arg, 1)
      else if nxt \<noteq> None \<and> \<not> prefix ''-'' (the nxt) \<and> \<not> args_is_source_file (resolve_path (the nxt) cwd)
      then (UnknownFlag (arg @ ''='' @ the nxt), 2)
      else (UnknownFlag arg, 1))"

function gnu_items :: "string \<Rightarrow> string list \<Rightarrow> gnu_item list" where
  "gnu_items cwd [] = []"
| "gnu_items cwd (arg # rest) =
     (case gnu_arg_item cwd arg (next_arg rest) of (item, n) \<Rightarrow> item # gnu_items cwd (drop (n - 1) rest))"
  by pat_completeness auto
termination
  by (relation "measure (length \<circ> snd)") auto

declare gnu_items.simps [simp del]

text \<open>
  The file system below a profile path.  \<open>node_at\<close> gives what a path names: a directory that cannot be read
  has no entries, and what is neither a file nor a directory is \<open>OtherNode\<close>.
\<close>

datatype fs_node = FileNode | DirNode "(string \<times> fs_node) list" | OtherNode

fun visit :: "string \<Rightarrow> (string \<times> fs_node) list \<Rightarrow> npath list"
  and visit_node :: "string \<Rightarrow> fs_node \<Rightarrow> npath list" where
  "visit dir [] = []"
| "visit dir ((name, node) # entries) = visit_node (path_join dir name) node @ visit dir entries"
| "visit_node path FileNode = [Paths.normalize path]"
| "visit_node path (DirNode entries) = visit path entries"
| "visit_node path OtherNode = []"

definition profile_input_files :: "(string \<Rightarrow> fs_node option) \<Rightarrow> string \<Rightarrow> string \<Rightarrow> npath list" where
  "profile_input_files node_at path cwd =
     (let root = resolve_path path cwd
      in case node_at root of
           Some (DirNode entries) \<Rightarrow> (let files = sort (visit root entries) in if files = [] then [root] else files)
         | _ \<Rightarrow> [root])"

definition gcc_implicit_pch :: "(string \<Rightarrow> fs_node option) \<Rightarrow> npath \<Rightarrow> npath option" where
  "gcc_implicit_pch node_at header =
     (let gch = header @ ''.gch'' in if node_at gch = Some FileNode then Some (Paths.normalize gch) else None)"

text \<open>What is being collected: the result and the positional arguments.\<close>

definition empty_parsed_args :: "user_dep_flags \<Rightarrow> parsed_args" where
  "empty_parsed_args flags =
     \<lparr> pa_source_file = Paths.normalize [], pa_output_file = None,
       pa_include_search = \<lparr> isp_iquote = [], isp_user = [], isp_system = [], isp_after = [] \<rparr>,
       pa_defines = [], pa_undefines = [], pa_flags = [], pa_force_includes = [], pa_compiler = None,
       pa_dep_flags = flags, pa_unknown_flags = [] \<rparr>"

definition push_search :: "(include_search_paths \<Rightarrow> include_search_paths) \<Rightarrow> parsed_args \<Rightarrow> parsed_args" where
  "push_search f p = p\<lparr>pa_include_search := f (pa_include_search p)\<rparr>"

definition push_user :: "npath \<Rightarrow> parsed_args \<Rightarrow> parsed_args" where
  "push_user d = push_search (\<lambda>s. s\<lparr>isp_user := isp_user s @ [d]\<rparr>)"

definition push_system :: "npath \<Rightarrow> parsed_args \<Rightarrow> parsed_args" where
  "push_system d = push_search (\<lambda>s. s\<lparr>isp_system := isp_system s @ [d]\<rparr>)"

definition push_force :: "npath list \<Rightarrow> parsed_args \<Rightarrow> parsed_args" where
  "push_force fs p = p\<lparr>pa_force_includes := pa_force_includes p @ fs\<rparr>"

definition push_flag :: "string \<Rightarrow> parsed_args \<Rightarrow> parsed_args" where
  "push_flag f p = p\<lparr>pa_flags := pa_flags p @ [f]\<rparr>"

fun forwarded_parts :: "string \<Rightarrow> string list \<Rightarrow> parsed_args \<Rightarrow> parsed_args" where
  "forwarded_parts cwd (option # path # parts) p =
     (if option = ''-I'' then forwarded_parts cwd parts (push_user (resolve_path path cwd) p)
      else if option = ''-isystem'' then forwarded_parts cwd parts (push_system (resolve_path path cwd) p)
      else if option = ''-imacros'' \<or> option = ''-include''
      then forwarded_parts cwd parts (push_force [resolve_path path cwd] p)
      else forwarded_parts cwd (path # parts) p)"
| "forwarded_parts cwd _ p = p"

fun apply_item :: "(string \<Rightarrow> fs_node option) \<Rightarrow> string \<Rightarrow> parsed_args \<Rightarrow> gnu_item \<Rightarrow> parsed_args" where
  "apply_item fs cwd p (UserDir d) = push_user (resolve_path d cwd) p"
| "apply_item fs cwd p (SystemDir d) = push_system (resolve_path d cwd) p"
| "apply_item fs cwd p (QuoteDir d) = push_search (\<lambda>s. s\<lparr>isp_iquote := isp_iquote s @ [resolve_path d cwd]\<rparr>) p"
| "apply_item fs cwd p (AfterDir d) = push_search (\<lambda>s. s\<lparr>isp_after := isp_after s @ [resolve_path d cwd]\<rparr>) p"
| "apply_item fs cwd p (DefineMacro d) = p\<lparr>pa_defines := pa_defines p @ [d]\<rparr>"
| "apply_item fs cwd p (UndefineMacro d) = p\<lparr>pa_undefines := pa_undefines p @ [d]\<rparr>"
| "apply_item fs cwd p (OutputFile out) = p\<lparr>pa_output_file := Some (resolve_path out cwd)\<rparr>"
| "apply_item fs cwd p (PchInclude f) = push_force [resolve_path f cwd] p"
| "apply_item fs cwd p (ForceInclude f) =
     (let header = resolve_path f cwd
      in push_force (header # (case gcc_implicit_pch fs header of Some gch \<Rightarrow> [gch] | None \<Rightarrow> [])) p)"
| "apply_item fs cwd p (MacroInclude f) = push_force [resolve_path f cwd] p"
| "apply_item fs cwd p (Forwarded arg parts) = push_flag arg (forwarded_parts cwd parts p)"
| "apply_item fs cwd p (Profile arg path) = push_force (profile_input_files fs path cwd) (push_flag arg p)"
| "apply_item fs cwd p (KeyFlag f) = push_flag f p"
| "apply_item fs cwd p Skipped = p"
| "apply_item fs cwd p (Candidate c) = p"
| "apply_item fs cwd p (UnknownFlag f) = p\<lparr>pa_unknown_flags := pa_unknown_flags p @ [f]\<rparr>"

fun candidate_paths :: "string \<Rightarrow> gnu_item list \<Rightarrow> npath list" where
  "candidate_paths cwd [] = []"
| "candidate_paths cwd (Candidate c # items) = resolve_path c cwd # candidate_paths cwd items"
| "candidate_paths cwd (_ # items) = candidate_paths cwd items"

definition pick_source :: "npath list \<Rightarrow> npath option" where
  "pick_source candidates =
     (case find args_is_source_file candidates of Some src \<Rightarrow> Some src | None \<Rightarrow> next_arg candidates)"

definition parse_gnu_args :: "(string \<Rightarrow> fs_node option) \<Rightarrow> string list \<Rightarrow> string \<Rightarrow> parsed_args" where
  "parse_gnu_args fs args cwd =
     (let items = gnu_items cwd args;
          p = foldl (apply_item fs cwd) (empty_parsed_args (parse_user_dep_flags args cwd)) items
      in p\<lparr> pa_source_file := (case pick_source (candidate_paths cwd items) of
               Some src \<Rightarrow> src | None \<Rightarrow> pa_source_file p),
            pa_defines := sort (pa_defines p), pa_undefines := sort (pa_undefines p),
            pa_flags := sort (pa_flags p), pa_unknown_flags := sort (pa_unknown_flags p) \<rparr>)"

subsection \<open>The context of a compile request\<close>

definition cc_env_key_flags :: "compiler_family \<Rightarrow> environment \<Rightarrow> string list" where
  "cc_env_key_flags family env =
     (let keyed = (\<lambda>scope. map (\<lambda>(name, value). ''zccache:env:'' @ name @ ''='' @ value) (keyed_cc_env env scope))
      in case family of
           MsvcCompiler \<Rightarrow> keyed Msvc
         | Clang \<Rightarrow> keyed Gnu
         | Gcc \<Rightarrow> keyed Gnu @
             (case gcc_message_locale env of Some locale \<Rightarrow> [''zccache:env:MESSAGE_LOCALE='' @ locale] | None \<Rightarrow> [])
         | _ \<Rightarrow> [])"

text \<open>
  \<open>msvc_args\<close> parses MSVC arguments, and \<open>show_includes\<close> gives the key flag of a \<^verbatim>\<open>/showIncludes\<close> among them.
\<close>

definition add_system_includes :: "npath list \<Rightarrow> npath list \<Rightarrow> npath list" where
  "add_system_includes system_includes system =
     foldl (\<lambda>acc path. if path \<in> set acc then acc else acc @ [path]) system system_includes"

definition build_cc_compile_context ::
    "(string list \<Rightarrow> string \<Rightarrow> parsed_args) \<Rightarrow> (string list \<Rightarrow> string option) \<Rightarrow> (string \<Rightarrow> fs_node option) \<Rightarrow>
     cacheable_compilation \<Rightarrow> string \<Rightarrow> npath list \<Rightarrow> environment \<Rightarrow> string \<Rightarrow> compile_context \<times> user_dep_flags" where
  "build_cc_compile_context msvc_args show_includes fs compilation cwd system_includes env compiler_hash =
     (let family = cm_family compilation; args = cm_original_args compilation;
          parsed = (if family = MsvcCompiler then msvc_args args cwd else parse_gnu_args fs args cwd);
          ctx = from_parsed_args parsed compiler_hash;
          show_flags = (if family \<noteq> MsvcCompiler then []
                        else (case show_includes args of Some flag \<Rightarrow> [flag] | None \<Rightarrow> []));
          src = cm_source_file compilation;
          search = cc_include_search ctx
      in (ctx\<lparr> cc_flags := sort (cc_flags ctx @ cc_env_key_flags family env @ show_flags),
               cc_source_file := (if is_absolute src then src else Paths.normalize (path_join cwd src)),
               cc_include_search := search\<lparr>isp_system := add_system_includes system_includes (isp_system search)\<rparr> \<rparr>,
          pa_dep_flags parsed))"

datatype dependency_discovery_mode = AllHeaders | SkipSystemHeaders

text \<open>An error carries the name of the variable and the value that was refused.\<close>

definition parse_bool :: "string \<Rightarrow> string \<Rightarrow> (string \<times> string) + bool" where
  "parse_bool name raw =
     (let value = str_trim raw
      in if value = ''1'' \<or> list_ex (eq_ignore_ascii_case value) [''true'', ''yes'', ''on''] then Inr True
         else if value = ''0'' \<or> list_ex (eq_ignore_ascii_case value) [''false'', ''no'', ''off''] then Inr False
         else Inl (name, value))"

definition discovery_from_client_env :: "client_env \<Rightarrow> (string \<times> string) + dependency_discovery_mode" where
  "discovery_from_client_env env =
     (case client_env_value env ''ZCCACHE_SCAN_SYSTEM_HEADERS'' of
        Some value \<Rightarrow>
          (case parse_bool ''ZCCACHE_SCAN_SYSTEM_HEADERS'' value of
             Inl e \<Rightarrow> Inl e
           | Inr scan \<Rightarrow> Inr (if scan then AllHeaders else SkipSystemHeaders))
      | None \<Rightarrow>
          (case client_env_value env ''ZCCACHE_FAST'' of
             None \<Rightarrow> Inr AllHeaders
           | Some value \<Rightarrow>
               (case parse_bool ''ZCCACHE_FAST'' value of
                  Inl e \<Rightarrow> Inl e
                | Inr fast \<Rightarrow> Inr (if fast then SkipSystemHeaders else AllHeaders))))"

definition push_unknown_once :: "string \<Rightarrow> compile_context \<Rightarrow> compile_context" where
  "push_unknown_once marker ctx =
     (if marker \<in> set (cc_unknown_flags ctx) then ctx
      else ctx\<lparr>cc_unknown_flags := cc_unknown_flags ctx @ [marker]\<rparr>)"

definition discovery_marker :: "dependency_discovery_mode \<Rightarrow> string" where
  "discovery_marker mode =
     (case mode of AllHeaders \<Rightarrow> ''zccache:dependency-discovery=all-headers''
      | SkipSystemHeaders \<Rightarrow> ''zccache:dependency-discovery=skip-system-headers'')"

definition depfile_marker :: "user_dep_flags \<Rightarrow> string" where
  "depfile_marker flags =
     (if has_mmd flags then ''zccache:user-depfile=mmd''
      else if has_md flags then ''zccache:user-depfile=md'' else ''zccache:user-depfile=none'')"

definition apply_to_cc_context :: "dependency_discovery_mode \<Rightarrow> user_dep_flags \<Rightarrow> compile_context \<Rightarrow> compile_context" where
  "apply_to_cc_context mode flags ctx = push_unknown_once (depfile_marker flags) (push_unknown_once (discovery_marker mode) ctx)"

definition STDOUT_SALT :: string where
  "STDOUT_SALT = ''zccache:user-depfile-output=stdout''"

fun depfile_salts :: "string option \<Rightarrow> nat \<Rightarrow> string list \<Rightarrow> string list" where
  "depfile_salts key_root content_index [] = []"
| "depfile_salts key_root content_index (arg # args) =
     (if arg = ''-MF'' then
        (case args of
           [] \<Rightarrow> []
         | value # rest' \<Rightarrow> if value = ''-'' then STDOUT_SALT # depfile_salts key_root (Suc content_index) rest'
                           else depfile_salts key_root content_index rest')
      else if arg = ''-MF-'' then STDOUT_SALT # depfile_salts key_root (Suc content_index) args
      else if \<not> prefix ''-MF'' arg then
        (let salted = salt_depfile_arg arg key_root
         in (''zccache:user-depfile-argv='' @ show_nat content_index @ '':'' @ show_nat (length salted) @ '':'' @ salted) #
            depfile_salts key_root (Suc content_index) args)
      else depfile_salts key_root content_index args)"

definition apply_user_depfile_content_to_cc_context ::
    "user_dep_flags \<Rightarrow> string list \<Rightarrow> string option \<Rightarrow> compile_context \<Rightarrow> compile_context" where
  "apply_user_depfile_content_to_cc_context flags args key_root ctx =
     (if \<not> has_md flags then ctx
      else ctx\<lparr>cc_unknown_flags := cc_unknown_flags ctx @ depfile_salts key_root 0 args\<rparr>)"

text \<open>\<open>h\<close> is the digest and \<open>hex\<close> its rendering.\<close>

definition exact_invocation_key_flag :: "digest \<Rightarrow> (string \<Rightarrow> string) \<Rightarrow> string \<Rightarrow> string list \<Rightarrow> string" where
  "exact_invocation_key_flag h hex cwd args =
     ''zccache-pch-invocation='' @ hex (h (cwd @ concat (map (\<lambda>arg. nul # arg) args)))"

definition salt_pch_key ::
    "digest \<Rightarrow> (string \<Rightarrow> string) \<Rightarrow> source_mode \<Rightarrow> string \<Rightarrow> string list \<Rightarrow> compile_context \<Rightarrow> compile_context" where
  "salt_pch_key h hex mode cwd args ctx =
     (if mode = HeaderMode then ctx\<lparr>cc_unknown_flags := cc_unknown_flags ctx @ [exact_invocation_key_flag h hex cwd args]\<rparr>
      else ctx)"

definition source_mode_for_key :: "cacheable_compilation \<Rightarrow> source_mode" where
  "source_mode_for_key compilation =
     (if path_extension (cm_output_file compilation) \<in> {Some ''pch'', Some ''gch''} then HeaderMode else NormalMode)"

definition cc_request_context ::
    "digest \<Rightarrow> (string \<Rightarrow> string) \<Rightarrow> dependency_discovery_mode \<Rightarrow> string \<Rightarrow> string list \<Rightarrow> npath \<Rightarrow>
     cacheable_compilation \<Rightarrow> compile_context \<times> user_dep_flags \<Rightarrow> compile_context" where
  "cc_request_context h hex mode cwd effective_args default_key_root compilation built =
     (let ctx = apply_to_cc_context mode (snd built) (fst built);
          salted = salt_pch_key h hex (source_mode_for_key compilation) cwd effective_args ctx
      in apply_user_depfile_content_to_cc_context (snd built) (cm_original_args compilation) (Some default_key_root) salted)"

definition tracks_header :: "dependency_discovery_mode \<Rightarrow> include_search_paths \<Rightarrow> npath \<Rightarrow> bool" where
  "tracks_header mode search path \<longleftrightarrow>
     mode = AllHeaders \<or>
     list_ex (\<lambda>root. np_starts_with (np_new path) root) (isp_iquote search @ isp_user search) \<or>
     \<not> list_ex (\<lambda>root. np_starts_with (np_new path) root) (isp_system search @ isp_after search)"

definition retain_tracked_headers :: "dependency_discovery_mode \<Rightarrow> include_search_paths \<Rightarrow> npath list \<Rightarrow> npath list" where
  "retain_tracked_headers mode search headers = filter (tracks_header mode search) headers"

definition apply_static_fallback ::
    "dependency_discovery_mode \<Rightarrow> include_search_paths \<Rightarrow> scan_result \<Rightarrow> scan_result" where
  "apply_static_fallback mode search result =
     (if mode = SkipSystemHeaders
      then result\<lparr>sr_resolved := retain_tracked_headers mode search (sr_resolved result), sr_has_computed := True\<rparr>
      else result\<lparr>sr_has_computed := (sr_has_computed result \<or> sr_unresolved result \<noteq> [])\<rparr>)"

subsection \<open>Where the sources are\<close>

text \<open>The sources found so far, in the order of their places before \<open>i\<close> on the command line.\<close>

definition sources_placed :: "string list \<Rightarrow> nat \<Rightarrow> classifier \<Rightarrow> bool" where
  "sources_placed args i st \<longleftrightarrow>
     sorted_wrt (<) (map (fst \<circ> snd) (cl_sources st)) \<and>
     (\<forall>(src, k, _) \<in> set (cl_sources st). k < i \<and> k < length args \<and> args ! k = src)"

lemma sources_placed_later: "sources_placed args i st \<Longrightarrow> i \<le> j \<Longrightarrow> sources_placed args j st"
  by (fastforce simp: sources_placed_def)

lemma positional_arg_placed:
  assumes "sources_placed args i st" and "i < length args" and "args ! i = arg"
  shows "sources_placed args (Suc i) (positional_arg arg i st)"
  using assms by (fastforce simp: sources_placed_def positional_arg_def sorted_wrt_append Let_def)

text \<open>A branch of a chain of conditions whose earlier tests do not matter.\<close>

lemma if_branch: "(c \<Longrightarrow> P a) \<Longrightarrow> P b \<Longrightarrow> P (if c then a else b)"
  by simp

definition turn_keeps_sources :: "string \<Rightarrow> nat \<Rightarrow> classifier \<Rightarrow> string + classifier \<times> nat \<Rightarrow> bool" where
  "turn_keeps_sources arg i st turn \<longleftrightarrow>
     (case turn of
        Inl _ \<Rightarrow> True
      | Inr (st', n) \<Rightarrow> n = 1 \<and> st' = positional_arg arg i st \<or> 0 < n \<and> cl_sources st' = cl_sources st)"

lemma classify_arg_sources: "turn_keeps_sources arg i st (classify_arg arg nxt i st)"
  unfolding classify_arg_def
  by (intro if_branch [where P = "turn_keeps_sources arg i st"])
     (auto simp: turn_keeps_sources_def split: option.split)

lemma classify_loop_placed:
  "classify_loop rest i st = Inr st' \<Longrightarrow> rest = drop i args \<Longrightarrow> sources_placed args i st \<Longrightarrow>
     sources_placed args (length args) st'"
proof (induction rest i st rule: classify_loop.induct)
  case (1 i st)
  then show ?case by (auto simp: classify_loop.simps sources_placed_def)
next
  case (2 arg rest i st)
  from "2.prems"(2) have i: "i < length args" by (cases "i < length args") simp_all
  have "args ! i # drop (Suc i) args = arg # rest" by (simp only: Cons_nth_drop_Suc [OF i] "2.prems"(2))
  then have arg: "args ! i = arg" and rest: "rest = drop (Suc i) args" by simp_all
  from "2.prems"(1) obtain st1 n where turn: "classify_arg arg (next_arg rest) i st = Inr (st1, n)"
    and loop: "classify_loop (drop (n - 1) rest) (i + n) st1 = Inr st'"
    by (auto simp: classify_loop.simps split: sum.splits prod.splits)
  from classify_arg_sources [of arg i st "next_arg rest"] turn
  have "n = 1 \<and> st1 = positional_arg arg i st \<or> 0 < n \<and> cl_sources st1 = cl_sources st"
    by (simp add: turn_keeps_sources_def)
  then have n: "0 < n" and placed: "sources_placed args (i + n) st1"
    using positional_arg_placed [OF "2.prems"(3) i arg] sources_placed_later [OF "2.prems"(3), of "i + n"]
    by (auto simp: sources_placed_def)
  from n rest have "drop (n - 1) rest = drop (i + n) args" by (simp add: add.commute)
  from "2.IH" [OF turn refl loop this placed] show ?case .
qed

text \<open>
  C25. What a classified compile names is on its command line: the source of a single compile is one of its
  arguments, and the indices of a batch are increasing and point at its sources, whose outputs are distinct
  and default, so that a hit can be taken out of the batch by its index; the arguments are the original ones,
  and no accepted compile asks for a side output.
\<close>

theorem compile_layout:
  "case parse_gnu_invocation compiler family args True of
     NonCacheable _ \<Rightarrow> True
   | Cacheable c \<Rightarrow>
       cm_original_args c = args \<and> unmodeled_side_output_flag args False = None \<and>
       (\<exists>i < length args. cm_source_file c = Paths.normalize (args ! i))
   | MultiFile cs original_args indices \<Rightarrow>
       original_args = args \<and> unmodeled_side_output_flag args False = None \<and>
       1 < length cs \<and> length indices = length cs \<and> sorted_wrt (<) indices \<and> distinct (map cm_output_file cs) \<and>
       (\<forall>k < length cs. indices ! k < length args \<and> cm_original_args (cs ! k) = args \<and>
          cm_source_file (cs ! k) = Paths.normalize (args ! (indices ! k)))"
proof (cases "classify_loop args 0 classifier_start")
  case (Inl reason)
  then show ?thesis by (simp add: parse_gnu_invocation_def)
next
  case (Inr st)
  have placed: "sources_placed args (length args) st"
    by (rule classify_loop_placed [OF Inr]) (simp_all add: sources_placed_def classifier_start_def)
  have place: "fst (snd (cl_sources st ! k)) < length args \<and> args ! fst (snd (cl_sources st ! k)) = fst (cl_sources st ! k)"
    if "k < length (cl_sources st)" for k
    using placed nth_mem [OF that] by (auto simp: sources_placed_def)
  show ?thesis
  proof (cases "finish_invocation compiler family args True st")
    case (Cacheable c)
    then have "cl_sources st \<noteq> []" by (auto simp: finish_invocation_def Let_def split: if_splits)
    then have "hd (cl_sources st) = cl_sources st ! 0" "0 < length (cl_sources st)" by (simp_all add: hd_conv_nth)
    with place [of 0] Cacheable Inr show ?thesis
      by (auto simp: parse_gnu_invocation_def finish_invocation_def Let_def split: if_splits prod.splits)
  next
    case (MultiFile cs as idxs)
    then have cs: "length cs = length (cl_sources st)" "1 < length (cl_sources st)"
      and idxs: "idxs = map (fst \<circ> snd) (cl_sources st)" and "as = args" "unmodeled_side_output_flag args False = None"
      and "distinct (map cm_output_file cs)"
      by (auto simp: finish_invocation_def Let_def split: if_splits prod.splits)
    moreover have "cm_original_args (cs ! k) = args \<and> cm_source_file (cs ! k) = Paths.normalize (fst (cl_sources st ! k))"
      if "k < length (cl_sources st)" for k
      using MultiFile that by (auto simp: finish_invocation_def Let_def split: if_splits prod.splits)
    ultimately show ?thesis
      using MultiFile Inr place placed by (simp add: parse_gnu_invocation_def sources_placed_def)
  qed (simp add: parse_gnu_invocation_def Inr)
qed

definition demo_batch :: "string list" where
  "demo_batch = [''-c'', ''src/a.c'', ''-I'', ''x.c'', ''b.cppm'']"

definition demo_unit :: "string \<Rightarrow> string \<Rightarrow> cacheable_compilation" where
  "demo_unit src out = \<lparr> cm_compiler = ''gcc'', cm_family = Gcc, cm_source_file = src, cm_output_file = out,
     cm_original_args = demo_batch, cm_unknown_flags = [] \<rparr>"

lemma demo_batch_parsed:
  "parse_gnu_invocation ''gcc'' Gcc demo_batch True =
     MultiFile [demo_unit ''src/a.c'' ''a.o'', demo_unit ''b.cppm'' ''b.o''] demo_batch [1, 4]"
  by code_simp

theorem compile_layout_witness:
  "parse_gnu_invocation ''gcc'' Gcc demo_batch True =
     MultiFile [demo_unit ''src/a.c'' ''a.o'', demo_unit ''b.cppm'' ''b.o''] demo_batch [1, 4] \<and>
   cm_source_file (demo_unit ''b.cppm'' ''b.o'') = Paths.normalize (demo_batch ! 4)"
proof -
  from compile_layout [where compiler = "''gcc''" and family = Gcc and args = demo_batch]
  have "\<forall>k < 2. cm_source_file ([demo_unit ''src/a.c'' ''a.o'', demo_unit ''b.cppm'' ''b.o''] ! k) =
      Paths.normalize (demo_batch ! ([1, 4] ! k))"
    by (simp add: demo_batch_parsed)
  from this [rule_format, of 1] show ?thesis by (simp add: demo_batch_parsed)
qed

end
