(* ===== verification/CommandLaws.thy ===== *)
theory CommandLaws
  imports CompileArgs
begin

text \<open>
  What the context of a compile request identifies of its command line (the parser and the context builder of
  \<open>CompileArgs\<close>): every argument belongs to one item, and equal contexts have equal items up to the order of
  macros and flags; requests with a user dependency file keep the order too.  The last theorem shows what is
  not kept otherwise.
\<close>

subsection \<open>What a context keeps of a command line\<close>

text \<open>
  How an item may be spelled.  \<open>neutral\<close> are the arguments without a trace in the context: those that only ask
  for a dependency file, and the five that are left out.
\<close>

fun neutral :: "string list \<Rightarrow> bool" where
  "neutral [a] \<longleftrightarrow> a \<in> set [''-c'', ''-S'', ''-E'', ''-v'', ''-w''] \<or> prefix ''-M'' a"
| "neutral [a, _] \<longleftrightarrow> a \<in> set [''-MF'', ''-MQ'', ''-MT'']"
| "neutral _ \<longleftrightarrow> False"

fun spelled :: "gnu_item \<Rightarrow> string list \<Rightarrow> bool" where
  "spelled (UserDir d) ts \<longleftrightarrow> ts = [''-I'', d] \<or> ts = [''-I'' @ d]"
| "spelled (SystemDir d) ts \<longleftrightarrow> ts = [''-isystem'', d]"
| "spelled (QuoteDir d) ts \<longleftrightarrow> ts = [''-iquote'', d]"
| "spelled (AfterDir d) ts \<longleftrightarrow> ts = [''-idirafter'', d]"
| "spelled (DefineMacro d) ts \<longleftrightarrow> ts = [''-D'', d] \<or> ts = [''-D'' @ d]"
| "spelled (UndefineMacro d) ts \<longleftrightarrow> ts = [''-U'', d] \<or> ts = [''-U'' @ d]"
| "spelled (OutputFile f) ts \<longleftrightarrow> ts = [''-o'', f] \<or> ts = [''-o'' @ f]"
| "spelled (PchInclude f) ts \<longleftrightarrow> ts = [''-include-pch'', f]"
| "spelled (ForceInclude f) ts \<longleftrightarrow> ts = [''-include'', f]"
| "spelled (MacroInclude f) ts \<longleftrightarrow> ts = [''-imacros'', f]"
| "spelled (Forwarded arg parts) ts \<longleftrightarrow> ts = [arg] \<and> prefix ''-Wp,'' arg"
| "spelled (Profile arg path) ts \<longleftrightarrow> ts = [arg] \<and> (arg = ''-fprofile-use='' @ path \<or> arg = ''-fprofile-dir='' @ path)"
| "spelled (KeyFlag f) ts \<longleftrightarrow> prefix ''-'' f \<and>
     (ts = [f] \<or> (\<exists>flag v. ts = [flag, v] \<and> (f = flag @ ''='' @ v \<or> flag = ''-x'' \<and> f = ''-x '' @ v)))"
| "spelled (UnknownFlag f) ts \<longleftrightarrow> prefix ''-'' f \<and> (ts = [f] \<or> (\<exists>flag v. ts = [flag, v] \<and> f = flag @ ''='' @ v))"
| "spelled Skipped ts \<longleftrightarrow> neutral ts"
| "spelled (Candidate c) ts \<longleftrightarrow> ts = [c] \<and> \<not> prefix ''-'' c"

text \<open>The arguments an item takes; a dependency flag at the end of the line takes only itself.\<close>

definition well_spelled :: "string \<Rightarrow> string option \<Rightarrow> gnu_item \<times> nat \<Rightarrow> bool" where
  "well_spelled arg nxt turn \<longleftrightarrow>
     (case turn of (item, n) \<Rightarrow>
        n = 1 \<and> spelled item [arg] \<or>
        n = 2 \<and> (case nxt of Some v \<Rightarrow> spelled item [arg, v] | None \<Rightarrow> spelled item [arg]))"

lemma joined: "prefix p arg \<Longrightarrow> length p = n \<Longrightarrow> arg = p @ drop n arg"
  by (auto elim: prefixE)

lemma profile_flag_Some:
  "profile_flag arg = Some path \<Longrightarrow> arg = ''-fprofile-use='' @ path \<or> arg = ''-fprofile-dir='' @ path"
  by (auto simp: profile_flag_def strip_prefix_def elim!: prefixE split: option.splits if_splits)

lemma well_spelled_one: "spelled item [arg] \<Longrightarrow> well_spelled arg nxt (item, 1)"
  by (simp add: well_spelled_def)

lemma well_spelled_two: "nxt \<noteq> None \<Longrightarrow> spelled item [arg, the nxt] \<Longrightarrow> well_spelled arg nxt (item, 2)"
  by (auto simp: well_spelled_def)

lemma prefix_minus: "prefix (CHR ''-'' # p) arg \<Longrightarrow> prefix ''-'' arg"
  by (cases arg) auto

lemma gnu_flag_minus: "gnu_flag_takes_value arg \<Longrightarrow> prefix ''-'' arg"
  by (auto simp: gnu_flag_takes_value_def GNU_FLAGS_WITH_VALUE_def)

lemma gnu_arg_item_positional:
  "\<not> prefix ''-'' arg \<Longrightarrow> gnu_arg_item cwd arg nxt = (Candidate arg, 1)"
  by (cases arg) (simp_all add: gnu_arg_item_def has_any_prefix_def profile_flag_def strip_prefix_def joined_mf_def
      gnu_flag_takes_value_def GNU_FLAGS_WITH_VALUE_def)

lemma gnu_arg_item_spelled: "well_spelled arg nxt (gnu_arg_item cwd arg nxt)"
proof (cases "prefix ''-'' arg")
  case True
  then show ?thesis
    unfolding gnu_arg_item_def
    by (intro if_branch [where P = "well_spelled arg nxt"])
       (fastforce simp: well_spelled_def joined_mf_def strip_prefix_def has_any_prefix_def elim: prefixE dest: profile_flag_Some split: option.splits if_splits)+
next
  case False
  then show ?thesis by (simp add: gnu_arg_item_positional well_spelled_def)
qed

text \<open>Every argument belongs to exactly one item, in order.\<close>

lemma gnu_items_spelled: "\<exists>groups. concat groups = args \<and> list_all2 spelled (gnu_items cwd args) groups"
proof (induction cwd args rule: gnu_items.induct)
  case (1 cwd)
  show ?case by (intro exI [of _ "[]"]) (simp add: gnu_items.simps)
next
  case (2 cwd arg rest)
  obtain item n where turn: "gnu_arg_item cwd arg (next_arg rest) = (item, n)" by fastforce
  let ?more = "drop (n - 1) rest"
  have "\<exists>group. spelled item group \<and> group @ ?more = arg # rest"
    using gnu_arg_item_spelled [of arg "next_arg rest" cwd] turn
    by (auto simp: well_spelled_def next_arg_def split: list.splits)
  then obtain group where group: "spelled item group" "group @ ?more = arg # rest" by blast
  from "2.IH" [OF turn [symmetric]] obtain groups where
    "concat groups = ?more" "list_all2 spelled (gnu_items cwd ?more) groups" by blast
  with group turn show ?case by (intro exI [of _ "group # groups"]) (simp add: gnu_items.simps)
qed

text \<open>What an item contributes to each part of the context.\<close>

fun forwarded_dirs :: "string \<Rightarrow> string \<Rightarrow> string list \<Rightarrow> npath list" where
  "forwarded_dirs cwd opt (option # path # parts) =
     (if option \<in> set [''-I'', ''-isystem'', ''-imacros'', ''-include'']
      then (if option = opt \<or> opt = ''-include'' \<and> option = ''-imacros'' then [resolve_path path cwd] else []) @
           forwarded_dirs cwd opt parts
      else forwarded_dirs cwd opt (path # parts))"
| "forwarded_dirs cwd opt _ = []"

fun user_dirs :: "string \<Rightarrow> gnu_item \<Rightarrow> npath list" where
  "user_dirs cwd (UserDir d) = [resolve_path d cwd]"
| "user_dirs cwd (Forwarded arg parts) = forwarded_dirs cwd ''-I'' parts"
| "user_dirs cwd _ = []"

fun system_dirs :: "string \<Rightarrow> gnu_item \<Rightarrow> npath list" where
  "system_dirs cwd (SystemDir d) = [resolve_path d cwd]"
| "system_dirs cwd (Forwarded arg parts) = forwarded_dirs cwd ''-isystem'' parts"
| "system_dirs cwd _ = []"

fun quote_dirs :: "string \<Rightarrow> gnu_item \<Rightarrow> npath list" where
  "quote_dirs cwd (QuoteDir d) = [resolve_path d cwd]"
| "quote_dirs cwd _ = []"

fun after_dirs :: "string \<Rightarrow> gnu_item \<Rightarrow> npath list" where
  "after_dirs cwd (AfterDir d) = [resolve_path d cwd]"
| "after_dirs cwd _ = []"

fun item_defines :: "gnu_item \<Rightarrow> string list" where
  "item_defines (DefineMacro d) = [d]"
| "item_defines _ = []"

fun item_undefines :: "gnu_item \<Rightarrow> string list" where
  "item_undefines (UndefineMacro d) = [d]"
| "item_undefines _ = []"

fun item_flags :: "gnu_item \<Rightarrow> string list" where
  "item_flags (KeyFlag f) = [f]"
| "item_flags (Forwarded arg _) = [arg]"
| "item_flags (Profile arg _) = [arg]"
| "item_flags _ = []"

fun item_unknown :: "gnu_item \<Rightarrow> string list" where
  "item_unknown (UnknownFlag f) = [f]"
| "item_unknown _ = []"

fun item_forced :: "(string \<Rightarrow> fs_node option) \<Rightarrow> string \<Rightarrow> gnu_item \<Rightarrow> npath list" where
  "item_forced fs cwd (PchInclude f) = [resolve_path f cwd]"
| "item_forced fs cwd (ForceInclude f) =
     resolve_path f cwd # (case gcc_implicit_pch fs (resolve_path f cwd) of Some gch \<Rightarrow> [gch] | None \<Rightarrow> [])"
| "item_forced fs cwd (MacroInclude f) = [resolve_path f cwd]"
| "item_forced fs cwd (Forwarded arg parts) = forwarded_dirs cwd ''-include'' parts"
| "item_forced fs cwd (Profile arg path) = profile_input_files fs path cwd"
| "item_forced fs cwd _ = []"

abbreviation gather :: "(gnu_item \<Rightarrow> 'a list) \<Rightarrow> gnu_item list \<Rightarrow> 'a list" where
  "gather f items \<equiv> concat (map f items)"

lemmas push_defs = push_search_def push_user_def push_system_def push_force_def push_flag_def

lemma forwarded_parts_fields:
  "isp_user (pa_include_search (forwarded_parts cwd parts p)) =
     isp_user (pa_include_search p) @ forwarded_dirs cwd ''-I'' parts"
  "isp_system (pa_include_search (forwarded_parts cwd parts p)) =
     isp_system (pa_include_search p) @ forwarded_dirs cwd ''-isystem'' parts"
  "isp_iquote (pa_include_search (forwarded_parts cwd parts p)) = isp_iquote (pa_include_search p)"
  "isp_after (pa_include_search (forwarded_parts cwd parts p)) = isp_after (pa_include_search p)"
  "pa_force_includes (forwarded_parts cwd parts p) = pa_force_includes p @ forwarded_dirs cwd ''-include'' parts"
  "pa_defines (forwarded_parts cwd parts p) = pa_defines p"
  "pa_undefines (forwarded_parts cwd parts p) = pa_undefines p"
  "pa_flags (forwarded_parts cwd parts p) = pa_flags p"
  "pa_unknown_flags (forwarded_parts cwd parts p) = pa_unknown_flags p"
  "pa_dep_flags (forwarded_parts cwd parts p) = pa_dep_flags p"
  "pa_source_file (forwarded_parts cwd parts p) = pa_source_file p"
  by (induction cwd parts p rule: forwarded_parts.induct) (simp_all add: push_defs)

lemma apply_item_fields:
  "isp_user (pa_include_search (apply_item fs cwd p item)) =
     isp_user (pa_include_search p) @ user_dirs cwd item"
  "isp_system (pa_include_search (apply_item fs cwd p item)) =
     isp_system (pa_include_search p) @ system_dirs cwd item"
  "isp_iquote (pa_include_search (apply_item fs cwd p item)) =
     isp_iquote (pa_include_search p) @ quote_dirs cwd item"
  "isp_after (pa_include_search (apply_item fs cwd p item)) =
     isp_after (pa_include_search p) @ after_dirs cwd item"
  "pa_force_includes (apply_item fs cwd p item) = pa_force_includes p @ item_forced fs cwd item"
  "pa_defines (apply_item fs cwd p item) = pa_defines p @ item_defines item"
  "pa_undefines (apply_item fs cwd p item) = pa_undefines p @ item_undefines item"
  "pa_flags (apply_item fs cwd p item) = pa_flags p @ item_flags item"
  "pa_unknown_flags (apply_item fs cwd p item) = pa_unknown_flags p @ item_unknown item"
  "pa_dep_flags (apply_item fs cwd p item) = pa_dep_flags p"
  "pa_source_file (apply_item fs cwd p item) = pa_source_file p"
  by (cases item; simp add: push_defs forwarded_parts_fields Let_def)+

lemma apply_items_fields:
  "isp_user (pa_include_search (foldl (apply_item fs cwd) p items)) =
     isp_user (pa_include_search p) @ gather (user_dirs cwd) items"
  "isp_system (pa_include_search (foldl (apply_item fs cwd) p items)) =
     isp_system (pa_include_search p) @ gather (system_dirs cwd) items"
  "isp_iquote (pa_include_search (foldl (apply_item fs cwd) p items)) =
     isp_iquote (pa_include_search p) @ gather (quote_dirs cwd) items"
  "isp_after (pa_include_search (foldl (apply_item fs cwd) p items)) =
     isp_after (pa_include_search p) @ gather (after_dirs cwd) items"
  "pa_force_includes (foldl (apply_item fs cwd) p items) = pa_force_includes p @ gather (item_forced fs cwd) items"
  "pa_defines (foldl (apply_item fs cwd) p items) = pa_defines p @ gather item_defines items"
  "pa_undefines (foldl (apply_item fs cwd) p items) = pa_undefines p @ gather item_undefines items"
  "pa_flags (foldl (apply_item fs cwd) p items) = pa_flags p @ gather item_flags items"
  "pa_unknown_flags (foldl (apply_item fs cwd) p items) = pa_unknown_flags p @ gather item_unknown items"
  "pa_dep_flags (foldl (apply_item fs cwd) p items) = pa_dep_flags p"
  "pa_source_file (foldl (apply_item fs cwd) p items) = pa_source_file p"
  by (induction items arbitrary: p) (simp_all add: apply_item_fields)

lemma item_of_line: "item \<in> set (gnu_items cwd args) \<Longrightarrow> \<exists>ts. spelled item ts"
  using gnu_items_spelled [of args cwd] by (metis in_set_conv_nth list_all2_conv_all_nth)

lemma gathered_minus:
  "f \<in> set (gather item_unknown (gnu_items cwd args)) \<Longrightarrow> prefix ''-'' f"
  "f \<in> set (gather item_flags (gnu_items cwd args)) \<Longrightarrow> prefix ''-'' f"
proof -
  assume "f \<in> set (gather item_unknown (gnu_items cwd args))"
  then obtain item ts where "spelled item ts" "f \<in> set (item_unknown item)" using item_of_line by fastforce
  then show "prefix ''-'' f" by (cases item) auto
next
  assume "f \<in> set (gather item_flags (gnu_items cwd args))"
  then obtain item ts where "spelled item ts" "f \<in> set (item_flags item)" using item_of_line by fastforce
  then show "prefix ''-'' f" by (cases item) (auto dest: prefix_minus)
qed

lemma parse_gnu_fields:
  "isp_user (pa_include_search (parse_gnu_args fs args cwd)) = gather (user_dirs cwd) (gnu_items cwd args)"
  "isp_system (pa_include_search (parse_gnu_args fs args cwd)) = gather (system_dirs cwd) (gnu_items cwd args)"
  "isp_iquote (pa_include_search (parse_gnu_args fs args cwd)) = gather (quote_dirs cwd) (gnu_items cwd args)"
  "isp_after (pa_include_search (parse_gnu_args fs args cwd)) = gather (after_dirs cwd) (gnu_items cwd args)"
  "pa_force_includes (parse_gnu_args fs args cwd) = gather (item_forced fs cwd) (gnu_items cwd args)"
  "pa_defines (parse_gnu_args fs args cwd) = sort (gather item_defines (gnu_items cwd args))"
  "pa_undefines (parse_gnu_args fs args cwd) = sort (gather item_undefines (gnu_items cwd args))"
  "pa_flags (parse_gnu_args fs args cwd) = sort (gather item_flags (gnu_items cwd args))"
  "pa_unknown_flags (parse_gnu_args fs args cwd) = sort (gather item_unknown (gnu_items cwd args))"
  "pa_dep_flags (parse_gnu_args fs args cwd) = parse_user_dep_flags args cwd"
  by (simp_all add: parse_gnu_args_def Let_def apply_items_fields empty_parsed_args_def)

text \<open>The arguments that shape a user's dependency file, without the salts' numbering; \<open>None\<close> is its way to the output.\<close>

fun depfile_shape :: "string option \<Rightarrow> string list \<Rightarrow> string option list" where
  "depfile_shape key_root [] = []"
| "depfile_shape key_root (arg # args) =
     (if arg = ''-MF'' then
        (case args of
           [] \<Rightarrow> []
         | v # rest' \<Rightarrow> (if v = ''-'' then [None] else []) @ depfile_shape key_root rest')
      else (if arg = ''-MF-'' then [None] else if \<not> prefix ''-MF'' arg then [Some (salt_depfile_arg arg key_root)] else []) @
           depfile_shape key_root args)"

fun numbered_salts :: "nat \<Rightarrow> string option list \<Rightarrow> string list" where
  "numbered_salts i [] = []"
| "numbered_salts i (x # xs) =
     (case x of
        None \<Rightarrow> STDOUT_SALT
      | Some arg \<Rightarrow> ''zccache:user-depfile-argv='' @ show_nat i @ '':'' @ show_nat (length arg) @ '':'' @ arg) #
     numbered_salts (Suc i) xs"

lemma depfile_salts_shape: "depfile_salts key_root i args = numbered_salts i (depfile_shape key_root args)"
  by (induction key_root i args rule: depfile_salts.induct) (auto simp: Let_def split: list.split)

lemma show_nat_digits: "CHR '':'' \<notin> set (show_nat n)"
proof (induction n rule: show_nat.induct)
  case (1 n)
  have digit: "(char_of (48 + m) :: char) \<noteq> CHR '':''" if "m < 10" for m :: nat
  proof
    assume "(char_of (48 + m) :: char) = CHR '':''"
    then have "of_char (char_of (48 + m) :: char) = (58 :: nat)" by simp
    with that show False by simp
  qed
  show ?case
  proof (cases "n < 10")
    case True
    with digit [OF True] show ?thesis by (simp add: show_nat.simps [of n])
  next
    case False
    with 1 digit [of "n mod 10"] show ?thesis by (simp add: show_nat.simps [of n])
  qed
qed

lemma colon_split: "CHR '':'' \<notin> set a \<Longrightarrow> CHR '':'' \<notin> set b \<Longrightarrow> a @ '':'' @ x = b @ '':'' @ y \<Longrightarrow> x = y"
proof (induction a arbitrary: b)
  case Nil
  then show ?case by (cases b) auto
next
  case (Cons c a)
  then show ?case by (cases b) auto
qed

lemma numbered_salts_inj: "numbered_salts i xs = numbered_salts i ys \<Longrightarrow> xs = ys"
proof (induction xs arbitrary: i ys)
  case Nil
  then show ?case by (cases ys) simp_all
next
  case (Cons x xs)
  then obtain y ys' where ys: "ys = y # ys'" by (cases ys) simp_all
  have "x = y"
  proof (cases x; cases y)
    fix a b
    assume "x = Some a" "y = Some b"
    with Cons.prems ys have "show_nat (length a) @ '':'' @ a = show_nat (length b) @ '':'' @ b" by simp
    then have "a = b" using show_nat_digits colon_split by blast
    with \<open>x = Some a\<close> \<open>y = Some b\<close> show ?thesis by simp
  qed (use Cons.prems ys in \<open>simp_all add: STDOUT_SALT_def\<close>)
  with Cons ys show ?case by simp
qed

lemma salts_kind: "f \<in> set (numbered_salts i xs) \<Longrightarrow> prefix ''zccache:user-depfile-'' f"
  by (induction i xs rule: numbered_salts.induct) (auto simp: STDOUT_SALT_def split: option.splits)

text \<open>The unknown flags of a request: those of the command line, then what the daemon adds.\<close>

definition added_flags ::
    "digest \<Rightarrow> (string \<Rightarrow> string) \<Rightarrow> dependency_discovery_mode \<Rightarrow> string \<Rightarrow> string list \<Rightarrow> string option \<Rightarrow>
     cacheable_compilation \<Rightarrow> user_dep_flags \<Rightarrow> string list" where
  "added_flags h hex mode cwd effective_args root c flags =
     [discovery_marker mode, depfile_marker flags] @
     (if source_mode_for_key c = HeaderMode then [exact_invocation_key_flag h hex cwd effective_args] else []) @
     (if has_md flags then numbered_salts 0 (depfile_shape root (cm_original_args c)) else [])"

lemma markers_differ: "discovery_marker mode \<noteq> depfile_marker flags"
  by (simp add: discovery_marker_def depfile_marker_def split: dependency_discovery_mode.split)

lemma discovery_marker_inj: "discovery_marker m = discovery_marker m' \<Longrightarrow> m = m'"
  by (cases m; cases m') (simp_all add: discovery_marker_def)

lemma no_marker_on_line:
  assumes "\<And>f. f \<in> set flags \<Longrightarrow> prefix ''-'' f"
  shows "discovery_marker mode \<notin> set flags" and "depfile_marker dep \<notin> set flags"
proof -
  have "\<not> prefix ''-'' (discovery_marker mode)" "\<not> prefix ''-'' (depfile_marker dep)"
    by (simp_all add: discovery_marker_def depfile_marker_def split: dependency_discovery_mode.split)
  with assms show "discovery_marker mode \<notin> set flags" and "depfile_marker dep \<notin> set flags" by blast+
qed

lemma request_unknown_flags:
  assumes "\<And>f. f \<in> set (cc_unknown_flags (fst built)) \<Longrightarrow> prefix ''-'' f"
  shows "cc_unknown_flags (cc_request_context h hex mode cwd effective_args root c built) =
      cc_unknown_flags (fst built) @ added_flags h hex mode cwd effective_args (Some root) c (snd built)"
  using no_marker_on_line [OF assms] markers_differ [of mode "snd built"]
  by (auto simp: cc_request_context_def Let_def apply_to_cc_context_def push_unknown_once_def salt_pch_key_def
      apply_user_depfile_content_to_cc_context_def added_flags_def depfile_salts_shape)

lemma request_other_fields:
  "cc_source_file (cc_request_context h hex mode cwd eff root c built) = cc_source_file (fst built)"
  "cc_include_search (cc_request_context h hex mode cwd eff root c built) = cc_include_search (fst built)"
  "cc_defines (cc_request_context h hex mode cwd eff root c built) = cc_defines (fst built)"
  "cc_undefines (cc_request_context h hex mode cwd eff root c built) = cc_undefines (fst built)"
  "cc_flags (cc_request_context h hex mode cwd eff root c built) = cc_flags (fst built)"
  "cc_force_includes (cc_request_context h hex mode cwd eff root c built) = cc_force_includes (fst built)"
  "cc_compiler_hash (cc_request_context h hex mode cwd eff root c built) = cc_compiler_hash (fst built)"
  by (simp_all add: cc_request_context_def Let_def apply_to_cc_context_def push_unknown_once_def salt_pch_key_def
      apply_user_depfile_content_to_cc_context_def)

lemma added_flags_start: "f \<in> set (added_flags h hex mode cwd eff root c flags) \<Longrightarrow> \<not> prefix ''-'' f"
proof -
  assume "f \<in> set (added_flags h hex mode cwd eff root c flags)"
  then have "prefix ''zccache'' f"
    by (auto simp: added_flags_def discovery_marker_def depfile_marker_def exact_invocation_key_flag_def
        dest!: salts_kind split: if_splits dependency_discovery_mode.splits elim!: prefixE)
  then show ?thesis by (auto elim: prefixE)
qed

lemma env_flags_start: "f \<in> set (cc_env_key_flags family env) \<Longrightarrow> \<not> prefix ''-'' f"
  by (auto simp: cc_env_key_flags_def Let_def split: compiler_family.splits option.splits)

lemma split_at_class:
  assumes "xs @ ys = xs' @ ys'" and "\<forall>x \<in> set xs \<union> set xs'. P x" and "\<forall>y \<in> set ys \<union> set ys'. \<not> P y"
  shows "xs = xs'" and "ys = ys'"
proof -
  have "filter P (xs @ ys) = xs" "filter P (xs' @ ys') = xs'"
    using assms(2,3) by (simp_all add: filter_empty_conv)
  with assms(1) show "xs = xs'" by simp
  with assms(1) show "ys = ys'" by simp
qed

lemma sort_determines:
  "sort xs = sort ys \<Longrightarrow> mset xs = mset ys" for xs ys :: "string list"
  by (metis mset_sort)

lemma added_flags_inj:
  assumes "added_flags h hex mode cwd eff root c flags = added_flags h hex mode' cwd eff' root c' flags'"
  shows "mode = mode'" and "depfile_marker flags = depfile_marker flags'"
    and "has_md flags \<Longrightarrow> has_md flags' \<Longrightarrow>
      depfile_shape root (cm_original_args c) = depfile_shape root (cm_original_args c')"
proof -
  from assms show "mode = mode'" and "depfile_marker flags = depfile_marker flags'"
    by (simp_all add: added_flags_def discovery_marker_inj)
  assume md: "has_md flags" "has_md flags'"
  let ?salts = "\<lambda>c. numbered_salts 0 (depfile_shape root (cm_original_args c))"
  have "filter (prefix ''zccache:user-depfile-'') (added_flags h hex m cwd e root c f) = ?salts c" if "has_md f" for m e c f
  proof -
    have "filter (prefix ''zccache:user-depfile-'') (?salts c) = ?salts c"
      by (intro filter_True ballI salts_kind)
    with that show ?thesis
      by (simp add: added_flags_def discovery_marker_def depfile_marker_def exact_invocation_key_flag_def
          split: dependency_discovery_mode.split)
  qed
  with assms md have "?salts c = ?salts c'" by metis
  then show "depfile_shape root (cm_original_args c) = depfile_shape root (cm_original_args c')"
    by (rule numbered_salts_inj)
qed

lemma stream_mmd:
  "(has_mmd r \<longrightarrow> has_md r) \<Longrightarrow> has_mmd (parse_forwarded_stream opts cwd r) \<longrightarrow> has_md (parse_forwarded_stream opts cwd r)"
  by (induction opts cwd r rule: parse_forwarded_stream.induct)
     (auto simp: record_depfile_path_def split: option.splits)

lemma driver_mmd:
  "(has_mmd r \<longrightarrow> has_md r) \<Longrightarrow> parse_driver_option opt nxt cwd r = (r', n) \<Longrightarrow> has_mmd r' \<longrightarrow> has_md r'"
  by (auto simp: parse_driver_option_def record_depfile_path_def split: if_splits option.splits)

lemma loop_mmd: "(has_mmd r \<longrightarrow> has_md r) \<Longrightarrow> has_mmd (dep_flags_loop args cwd r) \<longrightarrow> has_md (dep_flags_loop args cwd r)"
proof (induction args cwd r rule: dep_flags_loop.induct)
  case (2 arg rest' cwd r)
  then show ?case
    using stream_mmd [OF "2.prems"] driver_mmd [OF "2.prems"]
    by (auto simp: dep_flags_loop.simps(2) Let_def split: option.split prod.splits if_splits)
qed simp

lemma user_md_marker:
  "depfile_marker (parse_user_dep_flags args cwd) = depfile_marker (parse_user_dep_flags args' cwd) \<Longrightarrow>
     has_md (parse_user_dep_flags args cwd) = has_md (parse_user_dep_flags args' cwd)"
  using loop_mmd [of no_dep_flags args cwd] loop_mmd [of no_dep_flags args' cwd]
  by (auto simp: depfile_marker_def parse_user_dep_flags_def no_dep_flags_def split: if_splits)

text \<open>
  Two command lines that say the same to the compiler up to the order of macros and flags: they have the same
  search directories and forced files in the same order, and the same definitions, flags and unknown flags as
  multisets.
\<close>

definition same_command ::
    "(string \<Rightarrow> fs_node option) \<Rightarrow> string \<Rightarrow> npath list \<Rightarrow> npath list \<Rightarrow> string list \<Rightarrow> string list \<Rightarrow> bool" where
  "same_command fs cwd sys sys' args args' \<longleftrightarrow>
     (let items = gnu_items cwd args; items' = gnu_items cwd args'
      in gather (quote_dirs cwd) items = gather (quote_dirs cwd) items' \<and>
         gather (user_dirs cwd) items = gather (user_dirs cwd) items' \<and>
         add_system_includes sys (gather (system_dirs cwd) items) =
           add_system_includes sys' (gather (system_dirs cwd) items') \<and>
         gather (after_dirs cwd) items = gather (after_dirs cwd) items' \<and>
         gather (item_forced fs cwd) items = gather (item_forced fs cwd) items' \<and>
         mset (gather item_defines items) = mset (gather item_defines items') \<and>
         mset (gather item_undefines items) = mset (gather item_undefines items') \<and>
         mset (gather item_flags items) = mset (gather item_flags items') \<and>
         mset (gather item_unknown items) = mset (gather item_unknown items'))"

definition gnu_family :: "cacheable_compilation \<Rightarrow> bool" where
  "gnu_family c \<longleftrightarrow> cm_family c = Gcc \<or> cm_family c = Clang"

text \<open>The context a request registers.\<close>

definition request_context ::
    "(string list \<Rightarrow> string \<Rightarrow> parsed_args) \<Rightarrow> (string list \<Rightarrow> string option) \<Rightarrow> digest \<Rightarrow> (string \<Rightarrow> string) \<Rightarrow>
     (string \<Rightarrow> fs_node option) \<Rightarrow> string \<Rightarrow> npath \<Rightarrow> cacheable_compilation \<Rightarrow> dependency_discovery_mode \<Rightarrow>
     string list \<Rightarrow> npath list \<Rightarrow> environment \<Rightarrow> string \<Rightarrow> compile_context" where
  "request_context msvc_args show_includes h hex fs cwd root c mode effective_args system_includes env compiler_hash =
     cc_request_context h hex mode cwd effective_args root c
       (build_cc_compile_context msvc_args show_includes fs c cwd system_includes env compiler_hash)"

lemma built_fields:
  assumes "gnu_family c" and "b = build_cc_compile_context msvc_args show_includes fs c cwd system_includes env ch"
    and "items = gnu_items cwd (cm_original_args c)"
  shows "isp_iquote (cc_include_search (fst b)) = gather (quote_dirs cwd) items"
    and "isp_user (cc_include_search (fst b)) = gather (user_dirs cwd) items"
    and "isp_after (cc_include_search (fst b)) = gather (after_dirs cwd) items"
    and "cc_force_includes (fst b) = gather (item_forced fs cwd) items"
    and "cc_defines (fst b) = sort (gather item_defines items)"
    and "cc_undefines (fst b) = sort (gather item_undefines items)"
    and "cc_flags (fst b) = sort (sort (gather item_flags items) @ cc_env_key_flags (cm_family c) env)"
    and "cc_unknown_flags (fst b) = sort (gather item_unknown items)"
    and "cc_compiler_hash (fst b) = ch"
    and "snd b = parse_user_dep_flags (cm_original_args c) cwd"
    and "isp_system (cc_include_search (fst b)) = add_system_includes system_includes (gather (system_dirs cwd) items)"
  using assms(1) unfolding assms(2,3)
  by (auto simp: build_cc_compile_context_def Let_def from_parsed_args_def parse_gnu_fields gnu_family_def sorted_sort_id)

lemma mset_split_class:
  assumes "mset (xs @ ys) = mset (xs' @ ys')" and "\<forall>x \<in> set xs \<union> set xs'. P x" and "\<forall>y \<in> set ys \<union> set ys'. \<not> P y"
  shows "mset xs = mset xs'" and "mset ys = mset ys'"
proof -
  have "filter P (xs @ ys) = xs" "filter P (xs' @ ys') = xs'"
    using assms(2,3) by (simp_all add: filter_empty_conv)
  with assms(1) show "mset xs = mset xs'" by (metis mset_filter)
  with assms(1) show "mset ys = mset ys'" by simp
qed

lemma request_fields:
  assumes "gnu_family c" and "items = gnu_items cwd (cm_original_args c)"
    and "ctx = request_context msvc_args show_includes h hex fs cwd root c mode eff system_includes env ch"
  shows "isp_iquote (cc_include_search ctx) = gather (quote_dirs cwd) items"
    and "isp_user (cc_include_search ctx) = gather (user_dirs cwd) items"
    and "isp_after (cc_include_search ctx) = gather (after_dirs cwd) items"
    and "cc_force_includes ctx = gather (item_forced fs cwd) items"
    and "cc_defines ctx = sort (gather item_defines items)"
    and "cc_undefines ctx = sort (gather item_undefines items)"
    and "cc_flags ctx = sort (sort (gather item_flags items) @ cc_env_key_flags (cm_family c) env)"
    and "cc_unknown_flags ctx = sort (gather item_unknown items) @
      added_flags h hex mode cwd eff (Some root) c (parse_user_dep_flags (cm_original_args c) cwd)"
    and "cc_compiler_hash ctx = ch"
    and "isp_system (cc_include_search ctx) = add_system_includes system_includes (gather (system_dirs cwd) items)"
proof -
  let ?b = "build_cc_compile_context msvc_args show_includes fs c cwd system_includes env ch"
  note b = built_fields [OF assms(1) refl assms(2), where msvc_args = msvc_args and show_includes = show_includes and
      fs = fs and system_includes = system_includes and env = env and ch = ch]
  have "cc_unknown_flags (cc_request_context h hex mode cwd eff root c ?b) =
      cc_unknown_flags (fst ?b) @ added_flags h hex mode cwd eff (Some root) c (snd ?b)"
    by (rule request_unknown_flags) (simp add: b(8) assms(2) gathered_minus(1) del: set_concat)
  then show "cc_unknown_flags ctx = sort (gather item_unknown items) @
      added_flags h hex mode cwd eff (Some root) c (parse_user_dep_flags (cm_original_args c) cwd)"
    by (simp only: assms(3) request_context_def b)
qed (simp_all add: assms(3) request_context_def request_other_fields built_fields [OF assms(1) refl assms(2)])

lemma flags_agree:
  assumes "sort (sort (gather item_flags (gnu_items cwd args)) @ cc_env_key_flags family env) =
    sort (sort (gather item_flags (gnu_items cwd args')) @ cc_env_key_flags family' env')"
  shows "mset (gather item_flags (gnu_items cwd args)) = mset (gather item_flags (gnu_items cwd args'))"
    and "mset (cc_env_key_flags family env) = mset (cc_env_key_flags family' env')"
proof -
  let ?f = "gather item_flags (gnu_items cwd args)" and ?f' = "gather item_flags (gnu_items cwd args')"
  have both: "mset (?f @ cc_env_key_flags family env) = mset (?f' @ cc_env_key_flags family' env')"
    using arg_cong [OF assms, of mset] by (simp only: mset_sort mset_append)
  have key: "\<forall>x \<in> set ?f \<union> set ?f'. prefix ''-'' x" using gathered_minus(2) by blast
  have env: "\<forall>x \<in> set (cc_env_key_flags family env) \<union> set (cc_env_key_flags family' env'). \<not> prefix ''-'' x"
    using env_flags_start by blast
  from mset_split_class [OF both key env] show "mset ?f = mset ?f'"
    and "mset (cc_env_key_flags family env) = mset (cc_env_key_flags family' env')" .
qed

lemma unknown_agree:
  assumes "sort (gather item_unknown (gnu_items cwd args)) @ added_flags h hex mode cwd eff root c flags =
    sort (gather item_unknown (gnu_items cwd args')) @ added_flags h hex mode' cwd eff' root c' flags'"
  shows "mset (gather item_unknown (gnu_items cwd args)) = mset (gather item_unknown (gnu_items cwd args'))"
    and "added_flags h hex mode cwd eff root c flags = added_flags h hex mode' cwd eff' root c' flags'"
proof -
  have key: "\<forall>x \<in> set (sort (gather item_unknown (gnu_items cwd args))) \<union>
      set (sort (gather item_unknown (gnu_items cwd args'))). prefix ''-'' x"
    using gathered_minus(1) by (auto simp del: set_concat)
  have other: "\<forall>x \<in> set (added_flags h hex mode cwd eff root c flags) \<union>
      set (added_flags h hex mode' cwd eff' root c' flags'). \<not> prefix ''-'' x"
    using added_flags_start by blast
  note parts = split_at_class [OF assms key other]
  from sort_determines [OF parts(1)] parts(2)
  show "mset (gather item_unknown (gnu_items cwd args)) = mset (gather item_unknown (gnu_items cwd args'))"
    and "added_flags h hex mode cwd eff root c flags = added_flags h hex mode' cwd eff' root c' flags'" .
qed

text \<open>
  C23. The context of a C or C++ request identifies what it asks for.  If two requests register the same
  context, they have the same compiler identity, the same keyed environment, the same mode of dependency
  discovery, and command lines that agree on quote, user and after directories and forced files in order and on
  macros and flags up to order; the \<^verbatim>\<open>-isystem\<close> directories agree in order once the system directories of the
  compiler have been appended to them, those already named left out; every argument is part of these, of the output, of the sources, or neutral; with a
  user dependency file, all arguments that shape it agree in order.
\<close>

theorem context_identifies_request:
  assumes "gnu_family c" and "gnu_family c'"
    and "request_context msvc_args show_includes h hex fs cwd root c mode eff sys env ch =
      request_context msvc_args show_includes h hex fs cwd root c' mode' eff' sys' env' ch'"
  shows "ch = ch' \<and> mode = mode' \<and> same_command fs cwd sys sys' (cm_original_args c) (cm_original_args c') \<and>
    mset (cc_env_key_flags (cm_family c) env) = mset (cc_env_key_flags (cm_family c') env') \<and>
    (\<exists>groups. concat groups = cm_original_args c \<and> list_all2 spelled (gnu_items cwd (cm_original_args c)) groups) \<and>
    (has_md (parse_user_dep_flags (cm_original_args c) cwd) \<longrightarrow>
       depfile_shape (Some root) (cm_original_args c) = depfile_shape (Some root) (cm_original_args c'))"
proof -
  let ?dep = "parse_user_dep_flags (cm_original_args c) cwd"
  note f = request_fields [OF assms(1) refl refl, where cwd = cwd and msvc_args = msvc_args and show_includes = show_includes and
      h = h and hex = hex and fs = fs and root = root and mode = mode and eff = eff and system_includes = sys and env = env and ch = ch]
  note f' = request_fields [OF assms(2) refl assms(3)]
  note unknown = unknown_agree [OF trans [OF f(8) [symmetric] f'(8)]]
  note flags = flags_agree [OF trans [OF f(7) [symmetric] f'(7)]]
  note macros = sort_determines [OF trans [OF f(5) [symmetric] f'(5)]]
  note undef = sort_determines [OF trans [OF f(6) [symmetric] f'(6)]]
  have "same_command fs cwd sys sys' (cm_original_args c) (cm_original_args c')"
    unfolding same_command_def Let_def
    using f(1-4) f'(1-4) f(10) f'(10) flags(1) macros undef unknown(1) by (simp only: simp_thms)
  moreover have "ch = ch'" using f(9) f'(9) by (simp only:)
  moreover have "depfile_shape (Some root) (cm_original_args c) = depfile_shape (Some root) (cm_original_args c')"
    if "has_md ?dep"
    using that added_flags_inj(3) [OF unknown(2)] user_md_marker [OF added_flags_inj(2) [OF unknown(2)]] by (simp only:)
  ultimately show ?thesis using added_flags_inj(1) [OF unknown(2)] flags(2) gnu_items_spelled by blast
qed

subsection \<open>What is not kept\<close>

text \<open>
  Both command lines are accepted as single compiles, and their requests register one context, in every
  environment, directory and mode.
\<close>

definition shares_context :: "string list \<Rightarrow> string list \<Rightarrow> bool" where
  "shares_context args args' \<longleftrightarrow>
     (\<exists>c c'. parse_gnu_invocation ''gcc'' Gcc args True = Cacheable c \<and>
        parse_gnu_invocation ''gcc'' Gcc args' True = Cacheable c' \<and>
        (\<forall>msvc_args show_includes h hex fs cwd root mode eff sys env ch.
           request_context msvc_args show_includes h hex fs cwd root c mode eff sys env ch =
           request_context msvc_args show_includes h hex fs cwd root c' mode eff sys env ch))"

lemma request_context_same:
  assumes "gnu_family c" and "cm_family c' = cm_family c" and "cm_source_file c' = cm_source_file c"
    and "cm_output_file c' = cm_output_file c"
    and "\<not> has_md (parse_user_dep_flags (cm_original_args c) cwd)"
    and "parse_user_dep_flags (cm_original_args c') cwd = parse_user_dep_flags (cm_original_args c) cwd"
    and "from_parsed_args (parse_gnu_args fs (cm_original_args c') cwd) ch =
      from_parsed_args (parse_gnu_args fs (cm_original_args c) cwd) ch"
  shows "request_context msvc_args show_includes h hex fs cwd root c mode eff sys env ch =
      request_context msvc_args show_includes h hex fs cwd root c' mode eff sys env ch"
  using assms
  by (auto simp: request_context_def cc_request_context_def build_cc_compile_context_def Let_def gnu_family_def
      parse_gnu_fields source_mode_for_key_def apply_user_depfile_content_to_cc_context_def)

lemma from_parsed_same:
  assumes "items = gnu_items cwd args" and "items' = gnu_items cwd args'"
    and "gather (user_dirs cwd) items' = gather (user_dirs cwd) items"
    and "gather (system_dirs cwd) items' = gather (system_dirs cwd) items"
    and "gather (quote_dirs cwd) items' = gather (quote_dirs cwd) items"
    and "gather (after_dirs cwd) items' = gather (after_dirs cwd) items"
    and "gather (item_forced fs cwd) items' = gather (item_forced fs cwd) items"
    and "mset (gather item_defines items') = mset (gather item_defines items)"
    and "mset (gather item_undefines items') = mset (gather item_undefines items)"
    and "mset (gather item_flags items') = mset (gather item_flags items)"
    and "mset (gather item_unknown items') = mset (gather item_unknown items)"
    and "candidate_paths cwd items' = candidate_paths cwd items"
  shows "from_parsed_args (parse_gnu_args fs args' cwd) ch = from_parsed_args (parse_gnu_args fs args cwd) ch"
proof -
  have sorts: "sort xs = sort ys" if "mset xs = mset ys" for xs ys :: "string list"
    using that by (metis mset_sort properties_for_sort sorted_sort)
  have "pa_source_file (parse_gnu_args fs args' cwd) = pa_source_file (parse_gnu_args fs args cwd)"
    using assms(1,2,12) by (simp add: parse_gnu_args_def Let_def apply_items_fields empty_parsed_args_def split: option.split)
  moreover have "pa_include_search (parse_gnu_args fs args' cwd) = pa_include_search (parse_gnu_args fs args cwd)"
    using assms(1-6) by (intro include_search_paths.equality) (simp_all add: parse_gnu_fields)
  ultimately show ?thesis
    using sorts [OF assms(8)] sorts [OF assms(9)] sorts [OF assms(10)] sorts [OF assms(11)] assms(1,2,7)
    by (simp add: from_parsed_args_def parse_gnu_fields)
qed

text \<open>The items and dependency flags of short command lines, in any directory.\<close>

lemmas line_eval = gnu_items.simps gnu_arg_item_def next_arg_def has_any_prefix_def profile_flag_def strip_prefix_def
  joined_mf_def gnu_flag_takes_value_def GNU_FLAGS_WITH_VALUE_def

lemmas dep_eval = parse_user_dep_flags_def dep_flags_loop.simps xpreprocessor_arg_def parse_driver_option_def
  strip_prefix_def joined_mf_def gnu_flag_takes_value_def GNU_FLAGS_WITH_VALUE_def

definition demo_line :: "string list \<Rightarrow> string \<Rightarrow> cacheable_compilation" where
  "demo_line args out = \<lparr> cm_compiler = ''gcc'', cm_family = Gcc, cm_source_file = ''a.c'', cm_output_file = out,
     cm_original_args = args, cm_unknown_flags = filter (\<lambda>a. prefix ''-'' a \<and> a \<noteq> ''-c'' \<and> a \<noteq> ''-o'') args \<rparr>"

lemma shares_contextI:
  assumes "parse_gnu_invocation ''gcc'' Gcc args True = Cacheable (demo_line args out)"
    and "parse_gnu_invocation ''gcc'' Gcc args' True = Cacheable (demo_line args' out)"
    and "\<And>cwd. parse_user_dep_flags args cwd = no_dep_flags" and "\<And>cwd. parse_user_dep_flags args' cwd = no_dep_flags"
    and "\<And>fs cwd ch. from_parsed_args (parse_gnu_args fs args' cwd) ch = from_parsed_args (parse_gnu_args fs args cwd) ch"
  shows "shares_context args args'"
  unfolding shares_context_def
  by (intro exI conjI allI, rule assms(1), rule assms(2), rule request_context_same)
     (simp_all add: demo_line_def gnu_family_def assms(3,4,5) no_dep_flags_def)

lemma demo_lines_accepted:
  "parse_gnu_invocation ''gcc'' Gcc [''-c'', ''-O0'', ''-O2'', ''a.c''] True =
     Cacheable (demo_line [''-c'', ''-O0'', ''-O2'', ''a.c''] ''a.o'')"
  "parse_gnu_invocation ''gcc'' Gcc [''-c'', ''-O2'', ''-O0'', ''a.c''] True =
     Cacheable (demo_line [''-c'', ''-O2'', ''-O0'', ''a.c''] ''a.o'')"
  "parse_gnu_invocation ''gcc'' Gcc [''-c'', ''-DN'', ''-UN'', ''a.c''] True =
     Cacheable (demo_line [''-c'', ''-DN'', ''-UN'', ''a.c''] ''a.o'')"
  "parse_gnu_invocation ''gcc'' Gcc [''-c'', ''-UN'', ''-DN'', ''a.c''] True =
     Cacheable (demo_line [''-c'', ''-UN'', ''-DN'', ''a.c''] ''a.o'')"
  "parse_gnu_invocation ''gcc'' Gcc [''-c'', ''a.c'', ''-o'', ''out''] True =
     Cacheable (demo_line [''-c'', ''a.c'', ''-o'', ''out''] ''out'')"
  "parse_gnu_invocation ''gcc'' Gcc [''-c'', ''-S'', ''a.c'', ''-o'', ''out''] True =
     Cacheable (demo_line [''-c'', ''-S'', ''a.c'', ''-o'', ''out''] ''out'')"
  by code_simp+

lemma demo_lines_without_depfile:
  "parse_user_dep_flags [''-c'', ''-O0'', ''-O2'', ''a.c''] cwd = no_dep_flags"
  "parse_user_dep_flags [''-c'', ''-O2'', ''-O0'', ''a.c''] cwd = no_dep_flags"
  "parse_user_dep_flags [''-c'', ''-DN'', ''-UN'', ''a.c''] cwd = no_dep_flags"
  "parse_user_dep_flags [''-c'', ''-UN'', ''-DN'', ''a.c''] cwd = no_dep_flags"
  "parse_user_dep_flags [''-c'', ''a.c'', ''-o'', ''out''] cwd = no_dep_flags"
  "parse_user_dep_flags [''-c'', ''-S'', ''a.c'', ''-o'', ''out''] cwd = no_dep_flags"
  by (simp_all add: dep_eval)

lemma demo_lines_parsed:
  "from_parsed_args (parse_gnu_args fs [''-c'', ''-O2'', ''-O0'', ''a.c''] cwd) ch =
   from_parsed_args (parse_gnu_args fs [''-c'', ''-O0'', ''-O2'', ''a.c''] cwd) ch"
  "from_parsed_args (parse_gnu_args fs [''-c'', ''-UN'', ''-DN'', ''a.c''] cwd) ch =
   from_parsed_args (parse_gnu_args fs [''-c'', ''-DN'', ''-UN'', ''a.c''] cwd) ch"
  "from_parsed_args (parse_gnu_args fs [''-c'', ''-S'', ''a.c'', ''-o'', ''out''] cwd) ch =
   from_parsed_args (parse_gnu_args fs [''-c'', ''a.c'', ''-o'', ''out''] cwd) ch"
  by (rule from_parsed_same [OF refl refl]; simp add: line_eval)+

text \<open>
  C40. Without a user dependency file the context forgets what the compiler does not: of two optimisation levels
  the last one counts, a macro is defined or not by the last of its options, and \<^verbatim>\<open>-S\<close> turns the object into
  assembly text, but these command lines register one context, so the artifact of one is served for the other.
\<close>

theorem command_order_not_keyed:
  "shares_context [''-c'', ''-O0'', ''-O2'', ''a.c''] [''-c'', ''-O2'', ''-O0'', ''a.c''] \<and>
   shares_context [''-c'', ''-DN'', ''-UN'', ''a.c''] [''-c'', ''-UN'', ''-DN'', ''a.c''] \<and>
   shares_context [''-c'', ''a.c'', ''-o'', ''out''] [''-c'', ''-S'', ''a.c'', ''-o'', ''out'']"
  by (intro conjI)
     (rule shares_contextI, rule demo_lines_accepted, rule demo_lines_accepted,
       (rule demo_lines_without_depfile demo_lines_parsed)+)+

text \<open>Two different command lines with one context.\<close>

theorem context_identifies_request_witness:
  "[''-c'', ''-O0'', ''-O2'', ''a.c''] \<noteq> [''-c'', ''-O2'', ''-O0'', ''a.c''] \<and>
   same_command (\<lambda>_. None) ''/w'' [''/usr/include''] [''/usr/include''] [''-c'', ''-O0'', ''-O2'', ''a.c'']
     [''-c'', ''-O2'', ''-O0'', ''a.c'']"
proof -
  let ?c = "demo_line [''-c'', ''-O0'', ''-O2'', ''a.c''] ''a.o''" and ?c' = "demo_line [''-c'', ''-O2'', ''-O0'', ''a.c''] ''a.o''"
  have families: "gnu_family ?c" "gnu_family ?c'" by (simp_all add: demo_line_def gnu_family_def)
  have "request_context m s h hex (\<lambda>_. None) ''/w'' root ?c mode eff sys env ch =
      request_context m s h hex (\<lambda>_. None) ''/w'' root ?c' mode eff sys env ch" for m s h hex root mode eff sys env ch
    using families(1) demo_lines_without_depfile(1,2) demo_lines_parsed(1)
    by (intro request_context_same) (simp_all add: demo_line_def no_dep_flags_def)
  from context_identifies_request [OF families this, where sys = "[''/usr/include'']"]
  have "same_command (\<lambda>_. None) ''/w'' [''/usr/include''] [''/usr/include''] (cm_original_args ?c) (cm_original_args ?c')" by blast
  then show ?thesis by (simp add: demo_line_def)
qed

end
