(* ===== verification/Spec2Isabelle.thy ===== *)
theory Spec2Isabelle
  imports CacheSystem Checkouts LexerSpec ScanClosure EvictionLaws RspCache Watcher LinkLaws FastHits Fingerprint WireFrames CommandLaws
begin

text \<open>
  A model of zccache, a compiler cache for C, C++ and Rust, and the theorems that make it correct.

  \<^bold>\<open>The program.\<close>  A client asks a daemon to compile.  The daemon computes a context key from the command
  line and the environment, looks up what it knows about the inputs of that context in a dependency graph,
  hashes the inputs through a cache of file metadata, and serves a stored artifact when the artifact key
  computed from context and hashes is the one recorded.  A watcher reports changed files, which a journal
  turns into ticks of a clock; inputs the journal proves unchanged need no look at the file.  The same is
  done for links and archives.  Beside this, a small fingerprint cache answers whether a set of files changed
  since an operation succeeded.

  \<^bold>\<open>Shared vocabulary.\<close>  \<open>Prelude\<close>: 64-bit counters with their wrap-around, strings as lists of bytes,
  sharded hash maps and ordered maps as association lists, and the interface \<open>op_machine\<close> of a component
  driven by operations.  \<open>Paths\<close>: normalisation, containment and rebasing of paths on a Unix host
  (\<^verbatim>\<open>crates/zccache-core/src/path.rs\<close>).

  \<^bold>\<open>What is known about files\<close> (\<^verbatim>\<open>crates/zccache-fscache/src\<close>, \<^verbatim>\<open>crates/zccache-watcher/src\<close>).
  \<open>Clock\<close> is the change journal (\<^verbatim>\<open>clock.rs\<close>); its interface is the locale \<open>change_tracker\<close>: a path reported
  unchanged since a tick was in no batch after it, and no events were lost.  \<open>Metadata\<close> is the cache of file
  metadata with confidences (\<^verbatim>\<open>metadata.rs\<close>, \<^verbatim>\<open>verify.rs\<close>): the hash a lookup returns is the digest of content
  the file had during the lookup, unless the file kept changing through every attempt to read it.  \<open>CacheSystem\<close> joins the two (\<^verbatim>\<open>cache_system.rs\<close>): the same for the
  clock-aware lookup, and a reported change forces a new hash unless a rescan comes in between.  \<open>Watcher\<close> is the pipeline from host
  notifications over the settle buffer to the cache system, as queues whose tasks step in any order: no
  notification that concerns a path is lost, and the buffer reports each group of events exactly once.

  \<^bold>\<open>Dependencies of a compile\<close> (\<^verbatim>\<open>crates/zccache-depgraph/src\<close>).  \<open>Depfile\<close> reads the rules compilers write:
  parsing what was written gives back the dependencies.  \<open>IncludeLexer\<close> and \<open>IncludeScan\<close> are the include
  scanner and its parallel breadth-first search; \<open>LexerSpec\<close> shows that the single pass over a file finds the
  directives of the translation phases, \<open>ScanClosure\<close> that every schedule of the workers ends and returns the
  include closure.

  \<^bold>\<open>Keys.\<close>  \<open>KeyEnv\<close> (\<^verbatim>\<open>zccache-core/src/key_env.rs\<close>) selects the keyed environment; \<open>ContextKeys\<close>
  (\<^verbatim>\<open>depgraph/src/context\<close>) has the context, artifact and compatibility keys with the bytes that are hashed:
  equal artifact keys mean equal inputs, and keys do not depend on where a workspace lies, prefix maps included.  \<open>LinkParse\<close> and
  \<open>LinkKeys\<close> (\<^verbatim>\<open>zccache-compiler/src/parse_linker\<close>, \<^verbatim>\<open>zccache-hash/src\<close>, \<^verbatim>\<open>link_helpers.rs\<close>) read link commands
  and build their keys; \<open>LinkLaws\<close> says what a link key identifies, and what it misses.  \<open>ResponseFile\<close>,
  \<open>RspExpansion\<close> and \<open>RspCache\<close> expand response files, directly and through a cache that knows the metadata
  cache by the interface \<open>content_hasher\<close>: both give the same as long as links keep leading to the same files.
  \<open>OutDir\<close> and \<open>RequestKeys\<close> (\<^verbatim>\<open>out_dir.rs\<close>, \<^verbatim>\<open>keys.rs\<close>, \<^verbatim>\<open>rustc.rs\<close> in the daemon, \<^verbatim>\<open>detect.rs\<close> of the compiler
  crate, \<^verbatim>\<open>request_fingerprint.rs\<close>) are the identity of a request: compiler families, worktree roots, injected
  prefix maps, the value of OUT_DIR, and the request fingerprint with its byte cursor.
  \<open>CompileArgs\<close> (\<^verbatim>\<open>zccache-compiler/src/parse.rs\<close>, \<^verbatim>\<open>side_outputs.rs\<close>, \<^verbatim>\<open>depgraph/src/args.rs\<close>, \<^verbatim>\<open>rustc.rs\<close>,
  \<^verbatim>\<open>dependency_policy.rs\<close>, \<^verbatim>\<open>pch_gate.rs\<close>) classifies GNU-style compile commands and builds the context of a request;
  \<open>CommandLaws\<close> says which command lines share a context.  \<open>DepfileRoot\<close> (\<^verbatim>\<open>depfile_root.rs\<close>) stores dependency files
  with a logical root, and replaying them gives back what the compiler wrote.

  \<^bold>\<open>The dependency graph\<close> (\<^verbatim>\<open>depgraph/src/graph\<close>).  \<open>DepGraph\<close> has its state and every operation.
  \<open>GraphInvariant\<close> shows the shape of the graph after every run of operations, \<open>GraphVerdicts\<close> that a recorded
  compile is followed by hits and that the three forms of the check agree, \<open>HitSoundness\<close> that a hit after a
  recorded compile means unchanged inputs, \<open>GraphMaintenance\<close> that invalidation and eviction are exact and the
  dirty flag follows the graph, \<open>Checkouts\<close> that a second checkout is served by the artifacts of the first.
  \<open>MemoryEviction\<close> and \<open>EvictionLaws\<close> (\<^verbatim>\<open>daemon/eviction.rs\<close>, \<^verbatim>\<open>server/run.rs\<close>) are the memory sweep: it ends
  under any traffic, and its accounts are exact.

  \<^bold>\<open>A compile request\<close> (\<^verbatim>\<open>crates/zccache-daemon-core/src/daemon/server\<close>).  \<open>HashVerify\<close> composes cache system,
  graph and keys into the verification of a request: a verified hit is current, that is, during the request
  every input has a content with the digest the recorded compile saw.  \<open>FastHits\<close> adds the zero-hash paths:
  after a change was notified they decline, in every interleaving of notifications, hits and misses; and a
  change reported between the verification and the record of a hit is missed.

  \<^bold>\<open>The wire\<close> (\<^verbatim>\<open>crates/zccache-protocol/src\<close>, \<^verbatim>\<open>crates/zccache-ipc/src/transport/framing.rs\<close>).  \<open>WireFrames\<close>:
  messages of both frame formats survive any cutting of the stream.

  \<^bold>\<open>Fingerprints\<close> (\<^verbatim>\<open>crates/zccache-fingerprint/src\<close>).  \<open>FileScan\<close> selects files, and pruning changes nothing for patterns without escapes;
  \<open>Fingerprint\<close> has both caches: a skip rests on a committed snapshot for every interleaving of cycles on one
  cache file, and a cycle commits its own result.

  \<^bold>\<open>Conventions.\<close>  State is passed explicitly and errors are values of sum types.  The file system is an
  argument that is observed call by call, so a file may change between any two calls; a schedule says when
  each call happens.  A read delivers bytes that may be torn by a writer: they are the content of the file if
  it carries one stamp before and after (\<open>os_delivers\<close>).  Modification times are compared with a tolerance, one second by
  default; theorems that rest on stamps name it and ask for stamps that are honest under it (\<open>honest_stamps\<close>):
  two stamps that match mean equal contents.  Links may be pointed elsewhere between requests; where that
  matters, a theorem says that they were not (\<open>links_kept\<close>).  Text is UTF-8 as bytes: trimming knows the white
  space of Unicode, and which characters beyond ASCII are alphanumeric is an argument; names of files are
  taken to be UTF-8, so lossy conversions change nothing.  The laws of the glob library are asked only of the
  patterns of a call.  The digest is an argument, and where equal digests must mean equal contents, a theorem
  says that it does not collide on the texts at hand.  Clocks, random shards, notifications of the host,
  libraries outside the repository and the delivery of an artifact are arguments too, with what the code
  relies on as named predicates.  Concurrent tasks are steps of one state; a method of a concurrent map, or a
  read or write of a file, is one step.

  \<^bold>\<open>Bounds and termination.\<close>  Every loop is a terminating recursion, with a measure where it is not
  structural; there is no fuel.  Two loops are partial functions, the frontier loop of the include scan and the
  forced loop of the memory sweep, and both are shown to return; the parallel scan is also a step relation,
  whose runs are bounded by the interface \<open>scheduled\<close>.  Clocks are 64-bit and wrap; the theorems that
  compare ticks assume fewer than \<open>2 ^ 64\<close> operations.

  \<^bold>\<open>Behaviour that is not as intended.\<close>  Some theorems describe behaviour the code does not mean to have:
  \<open>rescan_trusts_unstable_hash\<close>, \<open>context_sections_collide\<close>, \<open>nested_links_not_rechecked\<close>,
  \<open>link_key_blind_spots\<close>, \<open>command_order_not_keyed\<close>, \<open>recorded_hit_hides_change\<close>, \<open>exchanged_file_is_skipped\<close>,
  \<open>aggregate_hash_not_separated\<close>, \<open>escaped_include_pruned\<close> and \<open>large_message_is_refused\<close>.

  \<^bold>\<open>Not modelled.\<close>  Processes, sockets and files as such: running the compiler and storing its outputs
  (\<^verbatim>\<open>compile_exec.rs\<close>, \<^verbatim>\<open>miss_store.rs\<close>, \<^verbatim>\<open>persist/\<close>), multi-file compiles, generic tools, the disk store and its
  maintenance, the lifecycle of the daemon, the command line, downloads, symbols, CI integration and the Python
  bindings.  The parsers of MSVC, rustc, rustfmt and archiver command lines (\<^verbatim>\<open>parse_msvc.rs\<close>, \<^verbatim>\<open>parse_rustc.rs\<close>,
  \<^verbatim>\<open>depgraph/src/msvc_args.rs\<close>, \<^verbatim>\<open>rustc_args.rs\<close>) are arguments where the code calls them.  Windows and macOS spellings of
  paths, statistics, logs and profiling are left out.
\<close>

end
